(* ===== verification/Morsh_Prelude.thy ===== *)
theory Morsh_Prelude
  imports Main "HOL-Library.Word" "HOL-Library.Sublist"
begin

text \<open>
  Shared vocabulary of the development: the machine types of the Rust sources, the parts of the
  Rust standard library that several components call (big-endian bytes, \<open>Vec\<close> and iterator
  operations, \<open>clamp\<close>, \<open>div_ceil\<close>, instants and durations), the two interfaces that more than one
  component implements (a wire format, a transition system), and the lemmas about them.

  \<^item> \<open>usize\<close> values (lengths and indices) are \<open>nat\<close>; state numbers and sequence numbers, whose
    sentinel and wrap-around matter, are \<open>u64\<close> words.
  \<^item> A \<open>std::time::Instant\<close> is the number of nanoseconds since an arbitrary origin and a
    \<open>Duration\<close> a number of nanoseconds, both \<open>nat\<close>; \<open>saturating_duration_since\<close> is then
    truncated subtraction.
  \<^item> Every read of the clock is an argument (\<open>now\<close>) of the operation that reads it.
\<close>

section \<open>Types\<close>

type_synonym u8 = "8 word"
type_synonym u16 = "16 word"
type_synonym u32 = "32 word"
type_synonym u64 = "64 word"
type_synonym bytes = "u8 list"

type_synonym instant = nat
type_synonym duration = nat

abbreviation u64_MAX :: u64 where
  "u64_MAX \<equiv> - 1"

named_theorems wire_simps \<open>lengths and round trips of byte encodings\<close>
named_theorems history_intros \<open>facts about histories of numbered states\<close>

section \<open>Durations\<close>

definition ms :: "nat \<Rightarrow> duration" where
  "ms n = n * 1000000"

definition as_millis :: "duration \<Rightarrow> nat" where
  "as_millis d = d div 1000000"

definition as_secs :: "duration \<Rightarrow> nat" where
  "as_secs d = d div 1000000000"

section \<open>Integers\<close>

definition clamp :: "'a::linorder \<Rightarrow> 'a \<Rightarrow> 'a \<Rightarrow> 'a" where
  "clamp lo hi x = (if x < lo then lo else if hi < x then hi else x)"

definition div_ceil :: "nat \<Rightarrow> nat \<Rightarrow> nat" where
  "div_ceil a b = (a + b - 1) div b"

definition abs_diff :: "nat \<Rightarrow> nat \<Rightarrow> nat" where
  "abs_diff a b = (if a < b then b - a else a - b)"

section \<open>Big-endian bytes\<close>

fun to_be :: "nat \<Rightarrow> nat \<Rightarrow> bytes" where
  "to_be 0 x = []"
| "to_be (Suc k) x = to_be k (x div 256) @ [word_of_nat x]"

definition from_be :: "bytes \<Rightarrow> nat" where
  "from_be bs = foldl (\<lambda>acc b. acc * 256 + unat b) 0 bs"

definition u64_to_be_bytes :: "u64 \<Rightarrow> bytes" where
  "u64_to_be_bytes w = to_be 8 (unat w)"

definition u64_from_be_bytes :: "bytes \<Rightarrow> u64" where
  "u64_from_be_bytes bs = word_of_nat (from_be bs)"

definition u16_to_be_bytes :: "u16 \<Rightarrow> bytes" where
  "u16_to_be_bytes w = to_be 2 (unat w)"

definition u16_from_be_bytes :: "bytes \<Rightarrow> u16" where
  "u16_from_be_bytes bs = word_of_nat (from_be bs)"

section \<open>Vectors and iterators\<close>

text \<open>\<open>Iterator::position\<close>: the index of the first element that satisfies the predicate.\<close>

fun position :: "('a \<Rightarrow> bool) \<Rightarrow> 'a list \<Rightarrow> nat option" where
  "position p [] = None"
| "position p (x # xs) = (if p x then Some 0 else map_option Suc (position p xs))"

text \<open>\<open>Vec::remove\<close>, \<open>Vec::insert\<close> and \<open>Vec::resize\<close>, for indices the callers keep in range.\<close>

definition vec_remove :: "nat \<Rightarrow> 'a list \<Rightarrow> 'a list" where
  "vec_remove i xs = take i xs @ drop (Suc i) xs"

definition vec_insert :: "nat \<Rightarrow> 'a \<Rightarrow> 'a list \<Rightarrow> 'a list" where
  "vec_insert i x xs = take i xs @ x # drop i xs"

definition vec_resize :: "nat \<Rightarrow> 'a \<Rightarrow> 'a list \<Rightarrow> 'a list" where
  "vec_resize n v xs = take n xs @ replicate (n - length xs) v"

text \<open>\<open>slice::get\<close>.\<close>

definition vec_get :: "nat \<Rightarrow> 'a list \<Rightarrow> 'a option" where
  "vec_get i xs = (if i < length xs then Some (xs ! i) else None)"

text \<open>\<open>slice::chunks\<close>; a chunk size of 0 panics in Rust, and every caller excludes it.\<close>

function chunks :: "nat \<Rightarrow> 'a list \<Rightarrow> 'a list list" where
  "chunks n xs = (if xs = [] \<or> n = 0 then [] else take n xs # chunks n (drop n xs))"
  by pat_completeness auto
termination
  by (relation "measure (\<lambda>(n, xs). length xs)") auto

declare chunks.simps [simp del]

section \<open>Transition systems\<close>

text \<open>
  The shape shared by the components that are driven by events: a set of start states and a
  labelled step relation. \<open>reach\<close> is the set of states some sequence of steps leads to, and the
  locale packages the rule by which an invariant is established once for a component and then
  used for every run.
\<close>

inductive reach :: "('s \<Rightarrow> bool) \<Rightarrow> ('s \<Rightarrow> 'e \<Rightarrow> 's \<Rightarrow> bool) \<Rightarrow> 's \<Rightarrow> bool"
  for init step where
  reach_init: "init s \<Longrightarrow> reach init step s"
| reach_step: "reach init step s \<Longrightarrow> step s e t \<Longrightarrow> reach init step t"

locale machine =
  fixes init :: "'s \<Rightarrow> bool"
    and step :: "'s \<Rightarrow> 'e \<Rightarrow> 's \<Rightarrow> bool"
    and inv :: "'s \<Rightarrow> bool"
  assumes inv_init: "init s \<Longrightarrow> inv s"
    and inv_step: "inv s \<Longrightarrow> step s e t \<Longrightarrow> inv t"
begin

lemma reach_inv: "reach init step s \<Longrightarrow> inv s"
  by (induction rule: reach.induct) (auto intro: inv_init inv_step)

lemma reach_le:
  assumes mono: "\<And>s e t. inv s \<Longrightarrow> step s e t \<Longrightarrow> R s t"
    and refl: "\<And>s. R s s" and trans: "\<And>s t u. R s t \<Longrightarrow> R t u \<Longrightarrow> R s u"
    and "inv s" and "reach (\<lambda>x. x = s) step t"
  shows "inv t \<and> R s t"
  using assms(5)
proof (induction rule: reach.induct)
  case (reach_init t)
  then show ?case using \<open>inv s\<close> refl by simp
next
  case (reach_step t e u)
  then show ?case using mono trans inv_step by blast
qed

end

section \<open>Wire formats\<close>

text \<open>
  An encoder and a decoder that agree on the values the sender produces. Everything a client of a
  format needs (no two valid values share an encoding) follows from the round trip.
\<close>

locale wire_format =
  fixes enc :: "'v \<Rightarrow> 'w"
    and dec :: "'w \<Rightarrow> 'v option"
    and valid :: "'v \<Rightarrow> bool"
  assumes dec_enc: "valid v \<Longrightarrow> dec (enc v) = Some v"
begin

lemma enc_inj: "valid v \<Longrightarrow> valid w \<Longrightarrow> enc v = enc w \<Longrightarrow> v = w"
  using dec_enc by (metis option.inject)

end

section \<open>Lemmas\<close>

lemma ms_mono [simp]: "ms a \<le> ms b \<longleftrightarrow> a \<le> b" and ms_less [simp]: "ms a < ms b \<longleftrightarrow> a < b"
  by (simp_all add: ms_def)

lemma ms_as_millis_le: "ms (as_millis d) \<le> d"
  by (simp add: ms_def as_millis_def)

lemma as_millis_ms [simp]: "as_millis (ms n) = n"
  by (simp add: ms_def as_millis_def)

lemma clamp_bounds: "lo \<le> hi \<Longrightarrow> lo \<le> clamp lo hi x \<and> clamp lo hi x \<le> hi"
  by (auto simp: clamp_def)

lemma clamp_idle: "lo \<le> x \<Longrightarrow> x \<le> hi \<Longrightarrow> clamp lo hi x = x"
  by (auto simp: clamp_def)

lemma div_ceil_le_iff: "0 < b \<Longrightarrow> div_ceil a b \<le> k \<longleftrightarrow> a \<le> k * b"
proof -
  assume b: "0 < b"
  have "div_ceil a b \<le> k \<longleftrightarrow> (a + b - 1) div b < Suc k"
    by (auto simp: div_ceil_def)
  also have "\<dots> \<longleftrightarrow> a + b - 1 < Suc k * b"
    using b by (simp add: div_less_iff_less_mult)
  also have "\<dots> \<longleftrightarrow> a \<le> k * b"
    using b by auto
  finally show ?thesis .
qed

lemma div_ceil_0 [simp]: "div_ceil 0 b = 0"
  by (cases b) (simp_all add: div_ceil_def)

lemma div_ceil_add: "0 < b \<Longrightarrow> div_ceil (a + b) b = Suc (div_ceil a b)"
proof -
  assume b: "0 < b"
  then have "a + b + b - 1 = b + (a + b - 1)" by simp
  then show ?thesis using b by (simp only: div_ceil_def div_add_self1)
qed

subsection \<open>Big-endian bytes\<close>

lemma length_to_be [simp, wire_simps]: "length (to_be k x) = k"
  by (induction k arbitrary: x) auto

lemma from_be_Nil [simp]: "from_be [] = 0"
  by (simp add: from_be_def)

lemma from_be_snoc [simp]: "from_be (bs @ [b]) = from_be bs * 256 + unat b"
  by (simp add: from_be_def)

lemma unat_less_pow: "unat (w :: 'a::len word) < 2 ^ LENGTH('a)"
  by (rule unsigned_less)

lemma unat_word_of_nat_u8: "unat (word_of_nat x :: u8) = x mod 256"
  by (simp add: unat_of_nat)

lemma from_be_to_be: "from_be (to_be k x) = x mod 256 ^ k"
proof (induction k arbitrary: x)
  case 0
  then show ?case by simp
next
  case (Suc k)
  have "x mod (256 * 256 ^ k) = 256 * (x div 256 mod 256 ^ k) + x mod 256"
    by (rule mod_mult2_eq)
  then show ?case
    by (simp add: Suc unat_word_of_nat_u8 mult.commute)
qed

lemma from_be_less: "from_be bs < 256 ^ length bs"
proof (induction bs rule: rev_induct)
  case Nil
  then show ?case by simp
next
  case (snoc b bs)
  have "unat b < 256" using unat_less_pow [of b] by simp
  with snoc show ?case by simp
qed

lemma to_be_from_be: "to_be (length bs) (from_be bs) = bs"
proof (induction bs rule: rev_induct)
  case Nil
  then show ?case by simp
next
  case (snoc b bs)
  have b: "unat b < 256" using unat_less_pow [of b] by simp
  then have "(from_be bs * 256 + unat b) div 256 = from_be bs" by simp
  moreover have "word_of_nat (from_be bs * 256 + unat b) = b"
  proof -
    have "unat (word_of_nat (from_be bs * 256 + unat b) :: u8) = unat b"
      using b by (simp only: unat_word_of_nat_u8) simp
    then show ?thesis by (rule unsigned_word_eqI)
  qed
  ultimately show ?case using snoc by simp
qed

lemma u64_be_roundtrip [simp, wire_simps]: "u64_from_be_bytes (u64_to_be_bytes w) = w"
proof -
  have "unat w < 256 ^ 8" using unat_less_pow [of w] by simp
  then show ?thesis
    by (simp add: u64_from_be_bytes_def u64_to_be_bytes_def from_be_to_be)
qed

lemma u16_be_roundtrip [simp, wire_simps]: "u16_from_be_bytes (u16_to_be_bytes w) = w"
proof -
  have "unat w < 256 ^ 2" using unat_less_pow [of w] by simp
  then show ?thesis
    by (simp add: u16_from_be_bytes_def u16_to_be_bytes_def from_be_to_be)
qed

lemma u64_be_length [simp, wire_simps]: "length (u64_to_be_bytes w) = 8"
  by (simp add: u64_to_be_bytes_def)

lemma u16_be_length [simp, wire_simps]: "length (u16_to_be_bytes w) = 2"
  by (simp add: u16_to_be_bytes_def)

lemma u64_to_be_from_be: "length bs = 8 \<Longrightarrow> u64_to_be_bytes (u64_from_be_bytes bs) = bs"
  using from_be_less [of bs] to_be_from_be [of bs]
  by (simp add: u64_from_be_bytes_def u64_to_be_bytes_def unat_of_nat)

subsection \<open>Vectors and iterators\<close>

lemma position_Some: "position p xs = Some i \<longleftrightarrow>
    i < length xs \<and> p (xs ! i) \<and> (\<forall>j<i. \<not> p (xs ! j))"
proof (induction xs arbitrary: i)
  case Nil
  then show ?case by simp
next
  case (Cons x xs)
  then show ?case
    by (cases i) (auto simp: All_less_Suc2)
qed

lemma position_None: "position p xs = None \<longleftrightarrow> (\<forall>x\<in>set xs. \<not> p x)"
  by (induction xs) auto

lemma position_SomeD:
  "position p xs = Some i \<Longrightarrow> i < length xs \<and> p (xs ! i)"
  by (simp add: position_Some)

lemma position_in: "x \<in> set xs \<Longrightarrow> p x \<Longrightarrow> \<exists>i. position p xs = Some i"
  using position_None [of p xs] by (cases "position p xs") auto

lemma list_all2_pick:
  "list_all2 P xs ys \<Longrightarrow> \<forall>i\<in>set js. i < length xs \<Longrightarrow>
     list_all2 P (map ((!) xs) js) (map ((!) ys) js)"
  by (induction js) (auto dest: list_all2_nthD)

lemma length_vec_remove [simp]: "i < length xs \<Longrightarrow> length (vec_remove i xs) = length xs - 1"
  by (simp add: vec_remove_def)

lemma length_vec_insert [simp]: "i \<le> length xs \<Longrightarrow> length (vec_insert i x xs) = Suc (length xs)"
  by (simp add: vec_insert_def)

lemma set_vec_remove: "set (vec_remove i xs) \<subseteq> set xs"
  by (auto simp: vec_remove_def dest: in_set_takeD in_set_dropD)

lemma set_vec_insert: "set (vec_insert i x xs) = insert x (set xs)"
  by (metis append_take_drop_id insert_is_Un list.simps(15) set_append sup_left_commute
      vec_insert_def)

lemma vec_remove_nth:
  "i < length xs \<Longrightarrow> j < length xs - 1 \<Longrightarrow>
    vec_remove i xs ! j = (if j < i then xs ! j else xs ! Suc j)"
  by (auto simp: vec_remove_def nth_append min_def)

lemma sorted_wrt_vec_remove: "sorted_wrt P xs \<Longrightarrow> sorted_wrt P (vec_remove i xs)"
  unfolding vec_remove_def sorted_wrt_iff_nth_less
  by (auto simp: nth_append min_def)

lemma length_vec_resize [simp]: "length (vec_resize n v xs) = n"
  by (simp add: vec_resize_def)

lemma vec_resize_nth: "i < n \<Longrightarrow> vec_resize n v xs ! i = (if i < length xs then xs ! i else v)"
  by (auto simp: vec_resize_def nth_append)

lemma concat_chunks: "0 < n \<Longrightarrow> concat (chunks n xs) = xs"
proof (induction n xs rule: chunks.induct)
  case (1 n xs)
  then show ?case by (subst chunks.simps) (cases "xs = []", auto)
qed

lemma length_chunks: "0 < n \<Longrightarrow> length (chunks n xs) = div_ceil (length xs) n"
proof (induction n xs rule: chunks.induct)
  case (1 n xs)
  show ?case
  proof (cases "xs = []")
    case True
    then show ?thesis by (subst chunks.simps) simp
  next
    case False
    have eq: "length (chunks n xs) = Suc (div_ceil (length xs - n) n)"
      using 1 False by (subst chunks.simps) simp
    show ?thesis
    proof (cases "n \<le> length xs")
      case True
      then show ?thesis using eq div_ceil_add [of n "length xs - n"] 1(2) by simp
    next
      case less: False
      then have "(length xs + n - 1) div n = 1"
        using False 1(2) by (intro div_nat_eqI) (cases xs; simp)+
      with less eq show ?thesis by (simp add: div_ceil_def)
    qed
  qed
qed

lemma chunk_length: "c \<in> set (chunks n xs) \<Longrightarrow> 0 < length c \<and> length c \<le> n"
proof (induction n xs rule: chunks.induct)
  case (1 n xs)
  then show ?case by (subst (asm) (2) chunks.simps) (auto split: if_splits)
qed

end
