(* ===== verification/Crypto.thy ===== *)
theory Crypto
  imports Morsh_Prelude
begin

text \<open>
  \<open>crates/morsh-crypto\<close>: nonces, the printable session key, the authenticated-encryption session
  and the process-wide nonce counter.

  AES-128-OCB3 (crates \<open>aes\<close> and \<open>ocb3\<close>) and the base64 engine (crate \<open>base64\<close>) are not part of the
  repository: they are the records \<open>ocb\<close> and \<open>b64\<close> of functions, arguments of the definitions that
  call them. What the code relies on is stated by \<open>ocb_laws\<close> and \<open>b64_laws\<close>.
  A panic (\<open>assert!\<close>, \<open>expect\<close>, a slice out of range) is the result \<open>None\<close>.
\<close>

section \<open>Nonces (nonce.rs)\<close>

datatype nonce = Nonce (nonce_data: bytes)

definition from_val :: "u64 \<Rightarrow> nonce" where
  "from_val val = Nonce (replicate 4 0 @ u64_to_be_bytes val)"

definition nonce_from_bytes :: "bytes \<Rightarrow> nonce option" where
  "nonce_from_bytes s_bytes =
     (if length s_bytes \<noteq> 8 then None else Some (Nonce (replicate 4 0 @ s_bytes)))"

definition cc_str :: "nonce \<Rightarrow> bytes" where
  "cc_str n = drop 4 (nonce_data n)"

definition nonce_val :: "nonce \<Rightarrow> u64" where
  "nonce_val n = u64_from_be_bytes (drop 4 (nonce_data n))"

definition nonce_inv :: "nonce \<Rightarrow> bool" where
  "nonce_inv n \<longleftrightarrow> length (nonce_data n) = 12 \<and> take 4 (nonce_data n) = replicate 4 0"

section \<open>Sessions (session.rs)\<close>

record ocb =
  ocb_encrypt :: "bytes \<Rightarrow> bytes \<Rightarrow> bytes \<Rightarrow> (bytes \<times> bytes) option"
    \<comment> \<open>key, 12-byte nonce, plaintext to ciphertext and tag\<close>
  ocb_decrypt :: "bytes \<Rightarrow> bytes \<Rightarrow> bytes \<Rightarrow> bytes \<Rightarrow> bytes option"
    \<comment> \<open>key, 12-byte nonce, ciphertext, tag to plaintext\<close>

text \<open>The documented contract of an AEAD with a 16-byte tag and a 12-byte nonce.\<close>

definition ocb_laws :: "ocb \<Rightarrow> bool" where
  "ocb_laws C \<longleftrightarrow>
     (\<forall>k n p. length k = 16 \<longrightarrow> length n = 12 \<longrightarrow>
       (\<exists>c t. ocb_encrypt C k n p = Some (c, t) \<and> length c = length p \<and> length t = 16 \<and>
              ocb_decrypt C k n c t = Some p))"

record message =
  msg_nonce :: nonce
  msg_text :: bytes

record session =
  cipher_key :: bytes
  blocks_encrypted :: nat

datatype crypto_error = TooShort | IntegrityCheckFailed

definition TAG_BYTES :: nat where
  "TAG_BYTES = 16"

definition session_new :: "bytes \<Rightarrow> session" where
  "session_new key = \<lparr>cipher_key = key, blocks_encrypted = 0\<rparr>"

definition session_encrypt :: "ocb \<Rightarrow> session \<Rightarrow> message \<Rightarrow> (bytes \<times> session) option" where
  "session_encrypt C s msg =
     (let pt_len = length (msg_text msg);
          ct_len = pt_len + TAG_BYTES
      in case ocb_encrypt C (cipher_key s) (nonce_data (msg_nonce msg)) (msg_text msg) of
           None \<Rightarrow> None
         | Some (buffer, tag) \<Rightarrow>
             if length buffer + length tag \<noteq> ct_len then None
             else
               (let blocks = blocks_encrypted s + div_ceil pt_len 16
                in if blocks div 2 ^ 47 \<noteq> 0 then None
                   else Some (cc_str (msg_nonce msg) @ buffer @ tag,
                              s\<lparr>blocks_encrypted := blocks\<rparr>)))"

definition session_decrypt :: "ocb \<Rightarrow> session \<Rightarrow> bytes \<Rightarrow> crypto_error + message" where
  "session_decrypt C s data =
     (if length data < 8 + TAG_BYTES then Inl TooShort
      else
        (let wire_nonce = take 8 data;
             body = drop 8 data;
             ct_len = length body - TAG_BYTES;
             ciphertext = take ct_len body;
             tag_bytes = drop ct_len body;
             nonce = Nonce (replicate 4 0 @ wire_nonce)
         in case ocb_decrypt C (cipher_key s) (nonce_data nonce) ciphertext tag_bytes of
              None \<Rightarrow> Inl IntegrityCheckFailed
            | Some buffer \<Rightarrow> Inr \<lparr>msg_nonce = nonce, msg_text = buffer\<rparr>))"

section \<open>The printable key (base64\_key.rs)\<close>

record b64 =
  b64_encode :: "bytes \<Rightarrow> string"
  b64_decode :: "string \<Rightarrow> bytes option"

text \<open>
  The standard alphabet with padding turns 16 octets into 22 characters and \<open>==\<close>, and decoding
  inverts encoding.
\<close>

definition b64_laws :: "b64 \<Rightarrow> bool" where
  "b64_laws B \<longleftrightarrow>
     (\<forall>k. length k = 16 \<longrightarrow>
        (\<exists>s. length s = 22 \<and> b64_encode B k = s @ ''==''  \<and> b64_decode B (s @ ''=='') = Some k))"

datatype key_error = KeyLength nat | InvalidBase64 | KeyOctets nat | NotCanonical

definition printable_key :: "b64 \<Rightarrow> bytes \<Rightarrow> string option" where
  "printable_key B key =
     (let encoded = b64_encode B key
      in if length encoded < 22 then None else Some (take 22 encoded))"

definition from_printable :: "b64 \<Rightarrow> string \<Rightarrow> (key_error + bytes) option" where
  "from_printable B printable =
     (if length printable \<noteq> 22 then Some (Inl (KeyLength (length printable)))
      else case b64_decode B (printable @ ''=='') of
             None \<Rightarrow> Some (Inl InvalidBase64)
           | Some decoded \<Rightarrow>
               if length decoded \<noteq> 16 then Some (Inl (KeyOctets (length decoded)))
               else (case printable_key B decoded of
                       None \<Rightarrow> None
                     | Some reencoded \<Rightarrow>
                         if reencoded \<noteq> printable then Some (Inl NotCanonical)
                         else Some (Inr decoded)))"

section \<open>The process-wide counter (lib.rs)\<close>

text \<open>
  \<open>fetch_add\<close> returns the old value and stores the wrapped successor; the assertion then panics on
  the last value. The result is the value returned, if any, and the counter afterwards.
\<close>

definition unique :: "u64 \<Rightarrow> u64 option \<times> u64" where
  "unique counter = (if counter = u64_MAX then None else Some counter, counter + 1)"

section \<open>Lemmas\<close>

lemma nonce_val_from_val [simp, wire_simps]: "nonce_val (from_val v) = v"
  by (simp add: nonce_val_def from_val_def)

lemma cc_str_from_val [simp, wire_simps]: "cc_str (from_val v) = u64_to_be_bytes v"
  by (simp add: cc_str_def from_val_def)

lemma nonce_inv_from_val [simp]: "nonce_inv (from_val v)"
  by (simp add: nonce_inv_def from_val_def)

lemma length_nonce_data: "nonce_inv n \<Longrightarrow> length (nonce_data n) = 12"
  by (simp add: nonce_inv_def)

lemma nonce_eq_cc_str: "nonce_inv n \<Longrightarrow> Nonce (replicate 4 0 @ cc_str n) = n"
  by (metis nonce.exhaust_sel append_take_drop_id nonce_inv_def cc_str_def)

lemma nonce_from_cc_str: "nonce_inv n \<Longrightarrow> nonce_from_bytes (cc_str n) = Some n"
  using nonce_eq_cc_str [of n] by (simp add: nonce_from_bytes_def nonce_inv_def cc_str_def)

text \<open>The 8-byte wire form of a nonce is a wire format.\<close>

interpretation nonce_wire: wire_format cc_str nonce_from_bytes nonce_inv
  by unfold_locales (rule nonce_from_cc_str)

lemma session_encrypt_Some:
  assumes "ocb_laws C" and "length (cipher_key s) = 16" and "nonce_inv (msg_nonce m)"
    and "blocks_encrypted s + div_ceil (length (msg_text m)) 16 < 2 ^ 47"
  shows "\<exists>c t. session_encrypt C s m =
           Some (cc_str (msg_nonce m) @ c @ t,
                 s\<lparr>blocks_encrypted := blocks_encrypted s + div_ceil (length (msg_text m)) 16\<rparr>) \<and>
         length c = length (msg_text m) \<and> length t = 16 \<and>
         ocb_decrypt C (cipher_key s) (nonce_data (msg_nonce m)) c t = Some (msg_text m)"
proof -
  obtain c t where
    "ocb_encrypt C (cipher_key s) (nonce_data (msg_nonce m)) (msg_text m) = Some (c, t)"
    "length c = length (msg_text m)" "length t = 16"
    "ocb_decrypt C (cipher_key s) (nonce_data (msg_nonce m)) c t = Some (msg_text m)"
    using assms(1-3) by (meson ocb_laws_def length_nonce_data)
  with assms(4) show ?thesis
    by (intro exI [of _ c] exI [of _ t]) (simp add: session_encrypt_def TAG_BYTES_def)
qed

lemma session_decrypt_wire:
  assumes "nonce_inv n" and "length t = 16"
    and "ocb_decrypt C (cipher_key s) (nonce_data n) c t = Some p"
  shows "session_decrypt C s (cc_str n @ c @ t) = Inr \<lparr>msg_nonce = n, msg_text = p\<rparr>"
proof -
  have "length (cc_str n) = 8" using assms(1) by (simp add: nonce_inv_def cc_str_def)
  moreover have "nonce_data n = replicate 4 0 @ cc_str n"
    using nonce_eq_cc_str [OF assms(1)] by (metis nonce.sel)
  ultimately show ?thesis
    using assms nonce_eq_cc_str [OF assms(1)]
    by (simp add: session_decrypt_def TAG_BYTES_def Let_def)
qed

end
