(* ===== verification/Constants.thy ===== *)
theory Constants
  imports Morsh_Prelude
begin

text \<open>
  The tuning constants of \<open>crates/morsh-network/src/constants.rs\<close>, in milliseconds and bytes, and
  the one function of that file. The collection \<open>const_defs\<close> unfolds them all.
\<close>

named_theorems const_defs \<open>the network constants\<close>

definition MORSH_PROTOCOL_VERSION :: u32 where [const_defs]: "MORSH_PROTOCOL_VERSION = 2"

definition ADDED_BYTES :: nat where [const_defs]: "ADDED_BYTES = 12"
definition SESSION_ADDED_BYTES :: nat where [const_defs]: "SESSION_ADDED_BYTES = 16"
definition FRAG_HEADER_LEN :: nat where [const_defs]: "FRAG_HEADER_LEN = 10"

definition SEND_INTERVAL_MIN_MS :: nat where [const_defs]: "SEND_INTERVAL_MIN_MS = 20"
definition SEND_INTERVAL_MAX_MS :: nat where [const_defs]: "SEND_INTERVAL_MAX_MS = 250"
definition ACK_INTERVAL_MS :: nat where [const_defs]: "ACK_INTERVAL_MS = 3000"
definition ACK_DELAY_MS :: nat where [const_defs]: "ACK_DELAY_MS = 100"
definition SEND_MINDELAY_MS :: nat where [const_defs]: "SEND_MINDELAY_MS = 8"
definition ACTIVE_RETRY_TIMEOUT_MS :: nat where [const_defs]: "ACTIVE_RETRY_TIMEOUT_MS = 10000"

definition MIN_RTO_MS :: nat where [const_defs]: "MIN_RTO_MS = 50"
definition MAX_RTO_MS :: nat where [const_defs]: "MAX_RTO_MS = 1000"

definition PORT_HOP_INTERVAL_MS :: nat where [const_defs]: "PORT_HOP_INTERVAL_MS = 10000"
definition MAX_PORTS_OPEN :: nat where [const_defs]: "MAX_PORTS_OPEN = 10"

definition SHUTDOWN_RETRIES :: nat where [const_defs]: "SHUTDOWN_RETRIES = 16"
definition CHAFF_MAX :: nat where [const_defs]: "CHAFF_MAX = 16"
definition MTU_IPV4 :: nat where [const_defs]: "MTU_IPV4 = 1252"

definition max_fragment_payload :: "nat \<Rightarrow> nat" where
  "max_fragment_payload mtu = mtu - (ADDED_BYTES + SESSION_ADDED_BYTES + FRAG_HEADER_LEN)"

lemma max_fragment_payload_IPV4: "max_fragment_payload MTU_IPV4 = 1214"
  by (simp add: max_fragment_payload_def const_defs)

end
