(* ===== verification/Fragment.thy ===== *)
theory Fragment
  imports Constants
begin

text \<open>
  \<open>crates/morsh-network/src/fragment.rs\<close>: the fragment header, the fragmenter that compresses an
  instruction and cuts it into MTU-sized pieces, the assembler that puts the pieces together in any
  order, and the random padding.

  The instruction message is generated by the build from \<open>proto/transportinstruction.proto\<close>, and
  zlib is the crate \<open>flate2\<close>: both are the record \<open>codec\<close> of functions, an argument of the
  definitions that call them, with \<open>codec_laws\<close> stating what the code relies on.
  The error strings of the source are the constructors of \<open>frag_error\<close>.
\<close>

section \<open>Instructions and their codec\<close>

record instruction =
  protocol_version :: "u32 option"
  old_num :: "u64 option"
  new_num :: "u64 option"
  ack_num :: "u64 option"
  throwaway_num :: "u64 option"
  diff :: "bytes option"
  chaff :: "bytes option"

record codec =
  encode_inst :: "instruction \<Rightarrow> bytes"
  decode_inst :: "bytes \<Rightarrow> instruction option"
  zlib_deflate :: "bytes \<Rightarrow> bytes option"
  zlib_inflate :: "bytes \<Rightarrow> bytes option"

definition codec_laws :: "codec \<Rightarrow> bool" where
  "codec_laws Z \<longleftrightarrow>
     (\<forall>i. decode_inst Z (encode_inst Z i) = Some i) \<and>
     (\<forall>d. \<exists>c. zlib_deflate Z d = Some c \<and> zlib_inflate Z c = Some d)"

datatype frag_error =
    FragmentTooShort
  | MaxPayloadZero
  | CompressionError
  | ArrivedAfterFinal nat nat
  | MissingFragment
  | ZlibError nat
  | ProtobufError

section \<open>Fragments\<close>

record fragment =
  frag_id :: u64
  final_flag :: bool
  fragment_num :: u16
  payload :: bytes

unbundle bit_operations_syntax

definition to_bytes :: "fragment \<Rightarrow> bytes" where
  "to_bytes f =
     (let combined = push_bit 15 (if final_flag f then 1 else 0) OR (fragment_num f AND 0x7FFF)
      in u64_to_be_bytes (frag_id f) @ u16_to_be_bytes combined @ payload f)"

definition from_bytes :: "bytes \<Rightarrow> frag_error + fragment" where
  "from_bytes data =
     (if length data < FRAG_HEADER_LEN then Inl FragmentTooShort
      else
        (let id = u64_from_be_bytes (take 8 data);
             combined = u16_from_be_bytes (take 2 (drop 8 data))
         in Inr \<lparr>frag_id = id,
                  final_flag = (drop_bit 15 combined AND 1 = 1),
                  fragment_num = combined AND 0x7FFF,
                  payload = drop FRAG_HEADER_LEN data\<rparr>))"

section \<open>The fragmenter\<close>

record fragmenter =
  next_instruction_id :: u64
  last_instruction :: "instruction option"
  last_max_payload :: "nat option"

definition fragmenter_new :: fragmenter where
  "fragmenter_new =
     \<lparr>next_instruction_id = 0, last_instruction = None, last_max_payload = None\<rparr>"

definition is_new_instruction :: "fragmenter \<Rightarrow> instruction \<Rightarrow> nat \<Rightarrow> bool" where
  "is_new_instruction F inst max_payload =
     (case last_instruction F of
        None \<Rightarrow> True
      | Some last_inst \<Rightarrow>
          last_max_payload F \<noteq> Some max_payload \<or>
          old_num inst \<noteq> old_num last_inst \<or>
          new_num inst \<noteq> new_num last_inst \<or>
          ack_num inst \<noteq> ack_num last_inst \<or>
          throwaway_num inst \<noteq> throwaway_num last_inst \<or>
          chaff inst \<noteq> chaff last_inst \<or>
          protocol_version inst \<noteq> protocol_version last_inst)"

definition last_ack_sent :: "fragmenter \<Rightarrow> u64" where
  "last_ack_sent F =
     (case last_instruction F of
        None \<Rightarrow> 0
      | Some i \<Rightarrow> (case ack_num i of None \<Rightarrow> 0 | Some a \<Rightarrow> a))"

definition compress :: "codec \<Rightarrow> bytes \<Rightarrow> frag_error + bytes" where
  "compress Z data =
     (case zlib_deflate Z data of None \<Rightarrow> Inl CompressionError | Some c \<Rightarrow> Inr c)"

definition decompress :: "codec \<Rightarrow> bytes \<Rightarrow> frag_error + bytes" where
  "decompress Z data =
     (case zlib_inflate Z data of None \<Rightarrow> Inl (ZlibError (length data)) | Some d \<Rightarrow> Inr d)"

definition cut_fragments :: "u64 \<Rightarrow> nat \<Rightarrow> bytes \<Rightarrow> fragment list" where
  "cut_fragments fid max_payload compressed =
     (let tot = max (div_ceil (length compressed) max_payload) 1;
          pieces = chunks max_payload compressed;
          frags = map (\<lambda>(i, chunk).
                    \<lparr>frag_id = fid, final_flag = (i = tot - 1),
                     fragment_num = word_of_nat i, payload = chunk\<rparr>)
                   (zip [0..<length pieces] pieces)
      in if frags = [] then
           [\<lparr>frag_id = fid, final_flag = True, fragment_num = 0, payload = []\<rparr>]
         else frags)"

definition make_fragments ::
  "codec \<Rightarrow> fragmenter \<Rightarrow> instruction \<Rightarrow> nat \<Rightarrow> (frag_error + fragment list) \<times> fragmenter" where
  "make_fragments Z F inst max_payload =
     (if max_payload = 0 then (Inl MaxPayloadZero, F)
      else
        (let F1 = (if is_new_instruction F inst max_payload
                   then F\<lparr>next_instruction_id := next_instruction_id F + 1\<rparr> else F);
             F2 = F1\<lparr>last_instruction := Some inst, last_max_payload := Some max_payload\<rparr>
         in case compress Z (encode_inst Z inst) of
              Inl e \<Rightarrow> (Inl e, F2)
            | Inr compressed \<Rightarrow>
                (Inr (cut_fragments (next_instruction_id F2) max_payload compressed), F2)))"

section \<open>The assembler\<close>

record assembly =
  fragments :: "fragment option list"
  current_id :: "u64 option"
  fragments_arrived :: nat
  fragments_total :: "nat option"

definition assembly_new :: assembly where
  "assembly_new =
     \<lparr>fragments = [], current_id = None, fragments_arrived = 0, fragments_total = None\<rparr>"

text \<open>The loop of \<open>assemble\<close> over the slots: the payloads in order, or the missing slot.\<close>

fun collect_payloads :: "fragment option list \<Rightarrow> frag_error + bytes" where
  "collect_payloads [] = Inr []"
| "collect_payloads (None # slots) = Inl MissingFragment"
| "collect_payloads (Some f # slots) =
     (case collect_payloads slots of Inl e \<Rightarrow> Inl e | Inr data \<Rightarrow> Inr (payload f @ data))"

definition decode_payload :: "codec \<Rightarrow> bytes \<Rightarrow> frag_error + instruction" where
  "decode_payload Z data =
     (case decompress Z data of
        Inl e \<Rightarrow> Inl e
      | Inr raw \<Rightarrow> (case decode_inst Z raw of None \<Rightarrow> Inl ProtobufError | Some i \<Rightarrow> Inr i))"

definition assemble :: "codec \<Rightarrow> assembly \<Rightarrow> nat \<Rightarrow> (frag_error + instruction) \<times> assembly" where
  "assemble Z A tot =
     (case collect_payloads (take tot (fragments A)) of
        Inl e \<Rightarrow> (Inl e, A)
      | Inr data \<Rightarrow>
          (decode_payload Z data,
           A\<lparr>fragments := [], fragments_arrived := 0, fragments_total := None\<rparr>))"

definition store_fragment :: "assembly \<Rightarrow> fragment \<Rightarrow> assembly" where
  "store_fragment A frag =
     (let index = unat (fragment_num frag);
          tot' = (if final_flag frag then Some (index + 1) else fragments_total A)
      in if current_id A \<noteq> Some (frag_id frag) then
           \<lparr>fragments = (vec_resize (index + 1) None [])[index := Some frag],
            current_id = Some (frag_id frag),
            fragments_arrived = 1,
            fragments_total = (if final_flag frag then Some (index + 1) else None)\<rparr>
         else if (case vec_get index (fragments A) of None \<Rightarrow> False | Some f \<Rightarrow> f \<noteq> None) then
           A\<lparr>fragments_total := tot'\<rparr>
         else
           A\<lparr>fragments :=
               (if length (fragments A) < index + 1
                then vec_resize (index + 1) None (fragments A) else fragments A)[index := Some frag],
             fragments_arrived := fragments_arrived A + 1,
             fragments_total := tot'\<rparr>)"

definition add_fragment ::
  "codec \<Rightarrow> assembly \<Rightarrow> fragment \<Rightarrow> (frag_error + instruction option) \<times> assembly" where
  "add_fragment Z A frag =
     (let A1 = store_fragment A frag
      in case fragments_total A1 of
           None \<Rightarrow> (Inr None, A1)
         | Some tot \<Rightarrow>
             if length (fragments A1) > tot then
               (Inl (ArrivedAfterFinal (length (fragments A1) - 1) (tot - 1)), A1)
             else if fragments_arrived A1 = tot then
               (case assemble Z A1 tot of
                  (Inl e, A2) \<Rightarrow> (Inl e, A2)
                | (Inr i, A2) \<Rightarrow> (Inr (Some i), A2))
             else (Inr None, A1))"

section \<open>Padding\<close>

text \<open>\<open>Prng\<close> draws from the operating system: one byte chooses the length, \<open>fill\<close> the contents.\<close>

definition make_chaff :: "u8 \<Rightarrow> (nat \<Rightarrow> bytes) \<Rightarrow> bytes" where
  "make_chaff r fill = (let len = unat r mod (CHAFF_MAX + 1) in if 0 < len then fill len else [])"

section \<open>Lemmas: the header\<close>

lemma mask15: "(0x7FFF :: u16) = mask 15"
  by (simp add: mask_eq_exp_minus_1)

lemma combined_final:
  "drop_bit 15 (push_bit 15 (if b then 1 else 0) OR (n AND 0x7FFF) :: u16) AND 1 = 1 \<longleftrightarrow> b"
proof -
  have "drop_bit 15 (push_bit 15 (if b then 1 else 0) OR (n AND mask 15) :: u16) AND 1 =
      (if b then 1 else 0)"
    by (rule bit_word_eqI) (auto simp: bit_simps)
  then show ?thesis unfolding mask15 by simp
qed

lemma combined_num:
  "(push_bit 15 (if b then 1 else 0) OR (n AND 0x7FFF) :: u16) AND 0x7FFF = n AND 0x7FFF"
  unfolding mask15 by (rule bit_word_eqI) (auto simp: bit_simps)

lemma small_num: "n < 0x8000 \<Longrightarrow> n AND 0x7FFF = (n :: u16)"
proof -
  assume "n < 0x8000"
  then have "unat n < 2 ^ 15" by (simp add: word_less_nat_alt)
  then have "unat (take_bit 15 n) = unat n"
    by (simp add: unsigned_take_bit_eq take_bit_nat_eq_self)
  then show ?thesis
    unfolding mask15 by (simp only: take_bit_eq_mask [symmetric]) (rule unsigned_word_eqI)
qed

text \<open>The header keeps the low 15 bits of the number and everything else.\<close>

lemma from_bytes_to_bytes:
  "from_bytes (to_bytes f) = Inr (f\<lparr>fragment_num := fragment_num f AND 0x7FFF\<rparr>)"
  by (cases f) (simp add: from_bytes_def to_bytes_def const_defs combined_final combined_num Let_def)

definition fragment_valid :: "fragment \<Rightarrow> bool" where
  "fragment_valid f \<longleftrightarrow> fragment_num f < 0x8000"

interpretation frag_wire: wire_format
  to_bytes "\<lambda>b. case from_bytes b of Inl e \<Rightarrow> None | Inr f \<Rightarrow> Some f" fragment_valid
  by unfold_locales (simp add: from_bytes_to_bytes fragment_valid_def small_num)

lemma length_to_bytes [wire_simps]: "length (to_bytes f) = FRAG_HEADER_LEN + length (payload f)"
  by (simp add: to_bytes_def Let_def const_defs)

section \<open>Lemmas: cutting\<close>

lemma cut_length:
  assumes "0 < mp"
  shows "length (cut_fragments fid mp c) = max (div_ceil (length c) mp) 1"
proof (cases "c = []")
  case True
  then show ?thesis by (simp add: cut_fragments_def Let_def chunks.simps)
next
  case False
  then have "chunks mp c \<noteq> []" using assms by (simp add: chunks.simps)
  then show ?thesis
    using length_chunks [OF assms, of c] by (cases "chunks mp c") (auto simp: cut_fragments_def Let_def)
qed

lemma cut_nth:
  assumes "0 < mp" and "i < length (cut_fragments fid mp c)"
  shows "cut_fragments fid mp c ! i =
    \<lparr>frag_id = fid, final_flag = (i = length (cut_fragments fid mp c) - 1),
     fragment_num = word_of_nat i, payload = (if c = [] then [] else chunks mp c ! i)\<rparr>"
proof (cases "c = []")
  case True
  then have "chunks mp c = []" by (simp add: chunks.simps)
  with True assms show ?thesis by (simp add: cut_fragments_def Let_def)
next
  case False
  then have ne: "chunks mp c \<noteq> []" using assms(1) by (simp add: chunks.simps)
  then have "length (chunks mp c) = max (div_ceil (length c) mp) 1"
    using assms(1) length_chunks [of mp c] by (cases "chunks mp c") auto
  with ne False assms show ?thesis
    by (simp add: cut_fragments_def Let_def cut_length)
qed

lemma cut_payloads: "0 < mp \<Longrightarrow> concat (map payload (cut_fragments fid mp c)) = c"
proof -
  assume mp: "0 < mp"
  let ?fs = "cut_fragments fid mp c"
  have "map payload ?fs = (if c = [] then [[]] else chunks mp c)"
  proof (rule nth_equalityI)
    have "c \<noteq> [] \<Longrightarrow> 0 < length (chunks mp c)"
      using mp by (simp add: chunks.simps)
    then show len: "length (map payload ?fs) = length (if c = [] then [[]] else chunks mp c)"
      using mp length_chunks [OF mp, of c] by (auto simp: cut_length max_def)
    show "map payload ?fs ! i = (if c = [] then [[]] else chunks mp c) ! i"
      if "i < length (map payload ?fs)" for i
      using that mp len by (cases "c = []") (simp_all add: cut_nth)
  qed
  then show ?thesis using concat_chunks [OF mp, of c] by simp
qed

section \<open>Lemmas: the assembler\<close>

text \<open>The pieces of one instruction, as the fragmenter cuts them and the header can carry them.\<close>

definition wf_frags :: "fragment list \<Rightarrow> bool" where
  "wf_frags fs \<longleftrightarrow> fs \<noteq> [] \<and>
     (\<forall>i<length fs. frag_id (fs ! i) = frag_id (hd fs) \<and>
        final_flag (fs ! i) = (i = length fs - 1) \<and> unat (fragment_num (fs ! i)) = i)"

definition slot :: "assembly \<Rightarrow> nat \<Rightarrow> fragment option" where
  "slot A i = (if i < length (fragments A) then fragments A ! i else None)"

text \<open>
  The assembler holds exactly the pieces of \<open>fs\<close> whose indices are in \<open>D\<close>: the abstract view of
  an assembly in progress.
\<close>

definition asm_holds :: "fragment list \<Rightarrow> nat set \<Rightarrow> assembly \<Rightarrow> bool" where
  "asm_holds fs D A \<longleftrightarrow>
     D \<subseteq> {..<length fs} \<and> current_id A = Some (frag_id (hd fs)) \<and>
     length (fragments A) \<le> length fs \<and>
     (\<forall>i<length fs. slot A i = (if i \<in> D then Some (fs ! i) else None)) \<and>
     fragments_arrived A = card D \<and>
     fragments_total A = (if length fs - 1 \<in> D then Some (length fs) else None)"

lemma wf_cut:
  assumes "0 < mp" and "length (cut_fragments fid mp c) \<le> 65536"
  shows "wf_frags (cut_fragments fid mp c)"
proof -
  let ?fs = "cut_fragments fid mp c"
  have ne: "?fs \<noteq> []" using cut_length [OF assms(1), of fid c] by auto
  have "unat (word_of_nat i :: u16) = i" if "i < length ?fs" for i
    using that assms(2) by (simp add: unat_of_nat)
  with ne assms(1) show ?thesis
    by (simp add: wf_frags_def cut_nth hd_conv_nth)
qed

lemma slot_total [simp]: "slot (A\<lparr>fragments_total := t\<rparr>) i = slot A i"
  by (simp add: slot_def)

lemma slot_put:
  "slot (A\<lparr>fragments := (if length (fragments A) < i + 1
            then vec_resize (i + 1) None (fragments A) else fragments A)[i := Some f],
          fragments_arrived := n, fragments_total := t\<rparr>) j =
   (if j = i then Some f else slot A j)"
  by (auto simp: slot_def nth_list_update vec_resize_nth)

lemma store_first:
  assumes "wf_frags fs" and "i < length fs" and "current_id A \<noteq> Some (frag_id (hd fs))"
  shows "asm_holds fs {i} (store_fragment A (fs ! i))"
  using assms by (auto simp: wf_frags_def asm_holds_def slot_def store_fragment_def Let_def
      vec_resize_nth nth_list_update)

lemma asm_get:
  assumes "asm_holds fs D A" and "i < length fs"
  shows "(case vec_get i (fragments A) of None \<Rightarrow> False | Some f \<Rightarrow> f \<noteq> None) \<longleftrightarrow> i \<in> D"
proof -
  have "slot A i = (if i \<in> D then Some (fs ! i) else None)"
    using assms by (simp add: asm_holds_def)
  then show ?thesis by (auto simp: vec_get_def slot_def split: if_splits)
qed

lemma store_next:
  assumes wf: "wf_frags fs" and i: "i < length fs" and A: "asm_holds fs D A"
  shows "asm_holds fs (insert i D) (store_fragment A (fs ! i))"
proof (cases "i \<in> D")
  case True
  then have "store_fragment A (fs ! i) =
      A\<lparr>fragments_total := (if i = length fs - 1 then Some (i + 1) else fragments_total A)\<rparr>"
    using wf i A asm_get [OF A i] by (simp add: store_fragment_def wf_frags_def asm_holds_def)
  with True i A show ?thesis by (auto simp: asm_holds_def insert_absorb)
next
  case False
  have fin: "finite D" using A by (auto simp: asm_holds_def intro: finite_subset)
  have st: "store_fragment A (fs ! i) =
      A\<lparr>fragments := (if length (fragments A) < i + 1
                      then vec_resize (i + 1) None (fragments A) else fragments A)[i := Some (fs ! i)],
        fragments_arrived := fragments_arrived A + 1,
        fragments_total := (if i = length fs - 1 then Some (i + 1) else fragments_total A)\<rparr>"
    using wf i A False asm_get [OF A i] by (simp add: store_fragment_def wf_frags_def asm_holds_def)
  have "slot (store_fragment A (fs ! i)) j = (if j = i then Some (fs ! i) else slot A j)" for j
    unfolding st by (rule slot_put)
  moreover have "length (fragments (store_fragment A (fs ! i))) \<le> length fs"
    "current_id (store_fragment A (fs ! i)) = current_id A"
    "fragments_arrived (store_fragment A (fs ! i)) = Suc (fragments_arrived A)"
    "fragments_total (store_fragment A (fs ! i)) =
      (if i = length fs - 1 then Some (i + 1) else fragments_total A)"
    using i A by (simp_all add: st asm_holds_def)
  ultimately show ?thesis
    using False i A fin by (auto simp: asm_holds_def)
qed

lemma collect_map_Some: "collect_payloads (map Some fs) = Inr (concat (map payload fs))"
  by (induction fs) auto

definition cleared :: "assembly \<Rightarrow> assembly" where
  "cleared A = A\<lparr>fragments := [], fragments_arrived := 0, fragments_total := None\<rparr>"

lemma asm_complete:
  assumes "asm_holds fs {..<length fs} A" and "fs \<noteq> []"
  shows "fragments A = map Some fs \<and> fragments_arrived A = length fs \<and>
    fragments_total A = Some (length fs)"
proof -
  have slot: "slot A j = Some (fs ! j)" if "j < length fs" for j
    using assms(1) that by (simp add: asm_holds_def)
  have le: "length (fragments A) \<le> length fs" using assms(1) by (simp add: asm_holds_def)
  have "length fs - 1 < length (fragments A)"
    using slot [of "length fs - 1"] assms(2) by (auto simp: slot_def split: if_splits)
  with le have len: "length (fragments A) = length fs" by linarith
  then have "fragments A = map Some fs"
    using slot by (intro nth_equalityI) (auto simp: slot_def)
  with assms show ?thesis by (simp add: asm_holds_def)
qed

lemma add_fragment_holds:
  assumes "asm_holds fs D (store_fragment A f)" and "fs \<noteq> []"
  shows "add_fragment Z A f =
    (if D = {..<length fs} then
       (case decode_payload Z (concat (map payload fs)) of Inl e \<Rightarrow> Inl e | Inr i \<Rightarrow> Inr (Some i),
        cleared (store_fragment A f))
     else (Inr None, store_fragment A f))"
proof (cases "D = {..<length fs}")
  case True
  with asm_complete assms show ?thesis
    by (auto simp: add_fragment_def Let_def assemble_def collect_map_Some cleared_def split: sum.splits)
next
  case False
  have D: "D \<subseteq> {..<length fs}" using assms(1) by (simp add: asm_holds_def)
  then have "card D < length fs"
    using False psubset_card_mono [of "{..<length fs}" D] by auto
  with False assms show ?thesis
    by (auto simp: add_fragment_def Let_def asm_holds_def)
qed

text \<open>Feeding a sequence of fragments, with the result of every call.\<close>

fun deliver :: "codec \<Rightarrow> assembly \<Rightarrow> fragment list \<Rightarrow>
    (frag_error + instruction option) list \<times> assembly" where
  "deliver Z A [] = ([], A)"
| "deliver Z A (f # fs) =
     (let (r, A1) = add_fragment Z A f; (rs, A2) = deliver Z A1 fs in (r # rs, A2))"

lemma deliver_incomplete:
  assumes wf: "wf_frags fs"
  shows "asm_holds fs D A \<Longrightarrow> set is \<subseteq> {..<length fs} \<Longrightarrow> D \<union> set is \<noteq> {..<length fs} \<Longrightarrow>
    \<exists>A'. deliver Z A (map ((!) fs) is) = (replicate (length is) (Inr None), A') \<and>
         asm_holds fs (D \<union> set is) A'"
proof (induction "is" arbitrary: D A)
  case Nil
  then show ?case by simp
next
  case (Cons i "is")
  let ?A1 = "store_fragment A (fs ! i)"
  have A1: "asm_holds fs (insert i D) ?A1"
    using store_next [OF wf _ Cons.prems(1)] Cons.prems(2) by simp
  have D: "D \<subseteq> {..<length fs}" using Cons.prems(1) by (simp add: asm_holds_def)
  then have "insert i D \<noteq> {..<length fs}" using Cons.prems(2,3) by auto
  then have "add_fragment Z A (fs ! i) = (Inr None, ?A1)"
    using add_fragment_holds [OF A1] wf by (simp add: wf_frags_def)
  moreover from Cons.IH [OF A1] Cons.prems(2,3) obtain A' where
    "deliver Z ?A1 (map ((!) fs) is) = (replicate (length is) (Inr None), A')"
    "asm_holds fs (insert i D \<union> set is) A'" by auto
  ultimately show ?case by simp
qed

lemma deliver_append:
  "deliver Z A (xs @ ys) =
    (let (rs, A1) = deliver Z A xs; (ss, A2) = deliver Z A1 ys in (rs @ ss, A2))"
  by (induction xs arbitrary: A) (simp_all add: Let_def split: prod.splits)

text \<open>
  From any assembler that is not already working on this instruction, the pieces delivered in any
  order and with any repetition produce nothing until the last missing piece, which produces the
  decoded whole.
\<close>

lemma deliver_all:
  assumes wf: "wf_frags fs" and fresh: "current_id A \<noteq> Some (frag_id (hd fs))"
    and ids: "set is = {..<length fs} - {k}" and k: "k < length fs"
  shows "\<exists>A'. deliver Z A (map ((!) fs) (is @ [k])) =
    (replicate (length is) (Inr None) @
       [case decode_payload Z (concat (map payload fs)) of Inl e \<Rightarrow> Inl e | Inr i \<Rightarrow> Inr (Some i)], A')"
proof (cases "is")
  case Nil
  with ids k have "{k} = {..<length fs}" by auto
  with store_first [OF wf k fresh] wf Nil show ?thesis
    by (simp add: add_fragment_holds wf_frags_def)
next
  case (Cons i js)
  have i: "i < length fs" and ik: "i \<noteq> k" using ids Cons by auto
  let ?A1 = "store_fragment A (fs ! i)"
  have A1: "asm_holds fs {i} ?A1" using store_first [OF wf i fresh] .
  have "k \<in> {..<length fs}" and "k \<notin> {i}" using k ik by simp_all
  then have "{i} \<noteq> {..<length fs}" by metis
  then have 1: "add_fragment Z A (fs ! i) = (Inr None, ?A1)"
    using add_fragment_holds [OF A1] wf by (simp add: wf_frags_def)
  have un: "{i} \<union> set js = {..<length fs} - {k}" using ids Cons by simp
  have sub: "set js \<subseteq> {..<length fs}" using un by blast
  have ne: "{i} \<union> set js \<noteq> {..<length fs}" unfolding un using k by (metis Diff_iff lessThan_iff singletonI)
  obtain A2 where
    2: "deliver Z ?A1 (map ((!) fs) js) = (replicate (length js) (Inr None), A2)" and
    A2: "asm_holds fs ({..<length fs} - {k}) A2"
    using deliver_incomplete [OF wf A1 sub ne, of Z] unfolding un by blast
  have "insert k ({..<length fs} - {k}) = {..<length fs}" using k by auto
  then have "asm_holds fs {..<length fs} (store_fragment A2 (fs ! k))"
    using store_next [OF wf k A2] by simp
  then have 3: "add_fragment Z A2 (fs ! k) =
     (case decode_payload Z (concat (map payload fs)) of Inl e \<Rightarrow> Inl e | Inr i \<Rightarrow> Inr (Some i),
      cleared (store_fragment A2 (fs ! k)))"
    using add_fragment_holds wf by (simp add: wf_frags_def)
  show ?thesis
    unfolding Cons by (simp add: 1 2 3 deliver_append)
qed

section \<open>Invariant of the assembler\<close>

text \<open>
  Whatever fragments a peer sends, the counter agrees with the slots that are filled, and every
  filled slot holds a fragment of the instruction under assembly. So a completed count leaves no
  slot empty, and the internal error of \<open>assemble\<close> is unreachable.
\<close>

definition filled :: "assembly \<Rightarrow> nat set" where
  "filled A = {i. i < length (fragments A) \<and> fragments A ! i \<noteq> None}"

definition assembly_inv :: "assembly \<Rightarrow> bool" where
  "assembly_inv A \<longleftrightarrow>
     fragments_arrived A = card (filled A) \<and>
     (\<forall>i f. slot A i = Some f \<longrightarrow>
        unat (fragment_num f) = i \<and> current_id A = Some (frag_id f))"

definition assembly_init :: "assembly \<Rightarrow> bool" where
  "assembly_init A \<longleftrightarrow> A = assembly_new"

definition assembly_step :: "codec \<Rightarrow> assembly \<Rightarrow> fragment \<Rightarrow> assembly \<Rightarrow> bool" where
  "assembly_step Z A f A' \<longleftrightarrow> A' = snd (add_fragment Z A f)"

lemma filled_slot: "filled A = {i. slot A i \<noteq> None}"
  by (auto simp: filled_def slot_def)

lemma finite_filled [simp]: "finite (filled A)"
  by (simp add: filled_def)

lemma store_fragment_inv:
  assumes "assembly_inv A"
  shows "assembly_inv (store_fragment A f)"
proof -
  let ?i = "unat (fragment_num f)"
  let ?new = "\<lparr>fragments = (vec_resize (?i + 1) None [])[?i := Some f], current_id = Some (frag_id f),
     fragments_arrived = 1, fragments_total = (if final_flag f then Some (?i + 1) else None)\<rparr>"
  consider (new) "current_id A \<noteq> Some (frag_id f)"
    | (dup) "current_id A = Some (frag_id f)" "?i \<in> filled A"
    | (add) "current_id A = Some (frag_id f)" "?i \<notin> filled A" by blast
  then show ?thesis
  proof cases
    case new
    have "slot ?new j = (if j = ?i then Some f else None)" for j
      by (auto simp: slot_def vec_resize_nth nth_list_update)
    then show ?thesis
      using new by (simp add: store_fragment_def Let_def assembly_inv_def filled_slot)
  next
    case dup
    then have "store_fragment A f = A\<lparr>fragments_total :=
        (if final_flag f then Some (?i + 1) else fragments_total A)\<rparr>"
      by (simp add: store_fragment_def Let_def filled_def vec_get_def)
    with assms show ?thesis by (simp add: assembly_inv_def filled_slot)
  next
    case add
    then have st: "store_fragment A f = A\<lparr>fragments := (if length (fragments A) < ?i + 1
         then vec_resize (?i + 1) None (fragments A) else fragments A)[?i := Some f],
         fragments_arrived := fragments_arrived A + 1,
         fragments_total := (if final_flag f then Some (?i + 1) else fragments_total A)\<rparr>"
      by (auto simp: store_fragment_def Let_def filled_def vec_get_def)
    have sl: "slot (store_fragment A f) j = (if j = ?i then Some f else slot A j)" for j
      unfolding st by (rule slot_put)
    then have "filled (store_fragment A f) = insert ?i (filled A)"
      by (auto simp: filled_slot)
    moreover have "current_id (store_fragment A f) = current_id A"
      "fragments_arrived (store_fragment A f) = Suc (fragments_arrived A)"
      by (simp_all add: st)
    ultimately show ?thesis
      using assms add sl by (simp add: assembly_inv_def)
  qed
qed

lemma collect_complete:
  assumes "assembly_inv A" and "length (fragments A) \<le> fragments_arrived A"
  shows "\<exists>fs. take (fragments_arrived A) (fragments A) = map Some fs"
proof -
  have "filled A \<subseteq> {..<length (fragments A)}" by (auto simp: filled_def)
  moreover have "card {..<length (fragments A)} \<le> card (filled A)"
    using assms by (simp add: assembly_inv_def)
  ultimately have fl: "filled A = {..<length (fragments A)}"
    by (intro card_seteq) auto
  have "fragments A ! i \<noteq> None" if "i < length (fragments A)" for i
  proof -
    have "i \<in> filled A" unfolding fl using that by simp
    then show ?thesis by (simp add: filled_def)
  qed
  then have "\<forall>x\<in>set (fragments A). x \<noteq> None"
    by (metis in_set_conv_nth)
  then have "fragments A = map Some (map the (fragments A))"
    by (auto simp: map_idI)
  then show ?thesis using assms(2) by (metis take_all)
qed

lemma add_fragment_inv:
  assumes "assembly_inv A"
  shows "assembly_inv (snd (add_fragment Z A f))"
proof -
  have "assembly_inv (B\<lparr>fragments := [], fragments_arrived := 0, fragments_total := None\<rparr>)" for B
    by (simp add: assembly_inv_def slot_def filled_def)
  with store_fragment_inv [OF assms] show ?thesis
    by (auto simp: add_fragment_def assemble_def Let_def split: option.splits sum.splits)
qed

interpretation asm: machine assembly_init "assembly_step Z" assembly_inv for Z
proof unfold_locales
  show "assembly_inv A" if "assembly_init A" for A
    using that by (simp add: assembly_init_def assembly_new_def assembly_inv_def filled_def slot_def)
  show "assembly_inv A'" if "assembly_inv A" and "assembly_step Z A f A'" for A f A'
    using that by (simp add: assembly_step_def add_fragment_inv)
qed

lemma decode_payload_not_missing: "decode_payload Z d \<noteq> Inl MissingFragment"
  by (auto simp: decode_payload_def decompress_def split: option.splits sum.splits)

lemma add_fragment_not_missing:
  assumes "assembly_inv A"
  shows "fst (add_fragment Z A f) \<noteq> Inl MissingFragment"
proof -
  let ?A1 = "store_fragment A f"
  have "fst (assemble Z ?A1 (fragments_arrived ?A1)) \<noteq> Inl MissingFragment"
    if "length (fragments ?A1) \<le> fragments_arrived ?A1"
    using collect_complete [OF store_fragment_inv [OF assms] that] decode_payload_not_missing
    by (auto simp: assemble_def collect_map_Some)
  then show ?thesis
    by (auto simp: add_fragment_def Let_def split: option.splits sum.splits prod.splits)
qed

end
