(* ===== verification/Connection.thy ===== *)
theory Connection
  imports Crypto Rtt Fragment
begin

text \<open>
  \<open>crates/morsh-network/src/connection.rs\<close>: the encrypted datagram connection. Sockets and
  addresses are opaque numbers; binding a socket and handing a datagram to the operating system are
  arguments (the socket that was bound, and whether \<open>send_to\<close> accepted a datagram). Reads of the two
  clocks are arguments as well: \<open>now\<close> for \<open>Instant::now\<close> and \<open>wall\<close> for the milliseconds since the
  Unix epoch. \<open>None\<close> as the outer result of \<open>encrypt_fragment\<close> and \<open>conn_send\<close> is a panic of the
  cipher.
\<close>

unbundle bit_operations_syntax

type_synonym socket = nat
type_synonym socket_addr = nat

definition TO_CLIENT_BIT :: u64 where
  "TO_CLIENT_BIT = push_bit 63 1"

record connection =
  sockets :: "socket list"
  remote_addr :: "socket_addr option"
  conn_session :: session
  conn_rtt :: rtt_estimator
  fragger :: fragmenter
  assembler :: assembly
  last_port_choice :: instant
  last_roundtrip_success :: instant
  is_server :: bool
  has_remote_addr :: bool
  conn_last_heard :: instant
  send_seq :: u64
  expected_receiver_seq :: u64
  saved_timestamp :: u16
  saved_timestamp_received_at :: instant

datatype conn_error =
    NoRemoteAddress
  | FragError frag_error
  | SendError
  | BindError
  | DecryptionError crypto_error
  | WrongDirection bool bool
  | MessageTooShort nat

definition timestamp16 :: "nat \<Rightarrow> u16" where
  "timestamp16 wall = (let ts = word_of_nat (wall mod 65536) in if ts = 0xFFFF then 0 else ts)"

definition timestamp_diff :: "u16 \<Rightarrow> u16 \<Rightarrow> int" where
  "timestamp_diff a b = sint (a - b)"

definition connection_build :: "socket \<Rightarrow> session \<Rightarrow> bool \<Rightarrow> instant \<Rightarrow> connection" where
  "connection_build sock s server now =
     \<lparr>sockets = [sock], remote_addr = None, conn_session = s, conn_rtt = rtt_new,
      fragger = fragmenter_new, assembler = assembly_new, last_port_choice = now,
      last_roundtrip_success = now, is_server = server, has_remote_addr = False,
      conn_last_heard = now, send_seq = 0, expected_receiver_seq = 0, saved_timestamp = 0,
      saved_timestamp_received_at = now\<rparr>"

definition set_remote_addr :: "connection \<Rightarrow> socket_addr \<Rightarrow> connection" where
  "set_remote_addr c addr = c\<lparr>remote_addr := Some addr, has_remote_addr := True\<rparr>"

definition conn_timeout :: "connection \<Rightarrow> duration" where
  "conn_timeout c = ms (rto_ms (conn_rtt c))"

definition set_last_roundtrip_success :: "connection \<Rightarrow> instant \<Rightarrow> connection" where
  "set_last_roundtrip_success c w = c\<lparr>last_roundtrip_success := w\<rparr>"

definition reply_timestamp :: "connection \<Rightarrow> instant \<Rightarrow> u16" where
  "reply_timestamp c now =
     (let elapsed = now - saved_timestamp_received_at c
      in if as_millis elapsed < 1000 \<and> saved_timestamp c \<noteq> 0
         then saved_timestamp c + word_of_nat (as_millis elapsed) else 0xFFFF)"

definition send_nonce :: "connection \<Rightarrow> u64" where
  "send_nonce c = (if is_server c then TO_CLIENT_BIT OR send_seq c else send_seq c)"

definition encrypt_fragment ::
  "ocb \<Rightarrow> connection \<Rightarrow> nat \<Rightarrow> instant \<Rightarrow> fragment \<Rightarrow> (bytes \<times> connection) option" where
  "encrypt_fragment C c wall now frag =
     (let plaintext = u16_to_be_bytes (timestamp16 wall) @ u16_to_be_bytes (reply_timestamp c now) @
                      to_bytes frag;
          msg = \<lparr>msg_nonce = from_val (send_nonce c), msg_text = plaintext\<rparr>
      in case session_encrypt C (conn_session c) msg of
           None \<Rightarrow> None
         | Some (ciphertext, s) \<Rightarrow>
             Some (ciphertext, c\<lparr>send_seq := send_seq c + 1, conn_session := s\<rparr>))"

text \<open>The loop of \<open>send\<close>: each fragment is encrypted, then offered to the socket.\<close>

fun send_fragments ::
  "ocb \<Rightarrow> (bytes \<Rightarrow> bool) \<Rightarrow> nat \<Rightarrow> instant \<Rightarrow> connection \<Rightarrow> fragment list \<Rightarrow>
     ((conn_error + unit) \<times> bytes list \<times> connection) option" where
  "send_fragments C os wall now c [] = Some (Inr (), [], c)"
| "send_fragments C os wall now c (f # fs) =
     (case encrypt_fragment C c wall now f of
        None \<Rightarrow> None
      | Some (wire, c1) \<Rightarrow>
          if \<not> os wire then Some (Inl SendError, [], c1)
          else (case send_fragments C os wall now c1 fs of
                  None \<Rightarrow> None
                | Some (r, wires, c2) \<Rightarrow> Some (r, wire # wires, c2)))"

definition conn_send ::
  "ocb \<Rightarrow> codec \<Rightarrow> (bytes \<Rightarrow> bool) \<Rightarrow> nat \<Rightarrow> instant \<Rightarrow> connection \<Rightarrow> instruction \<Rightarrow>
     ((conn_error + unit) \<times> bytes list \<times> connection) option" where
  "conn_send C Z os wall now c inst =
     (case remote_addr c of
        None \<Rightarrow> Some (Inl NoRemoteAddress, [], c)
      | Some remote \<Rightarrow>
          (case make_fragments Z (fragger c) inst (max_fragment_payload MTU_IPV4) of
             (Inl e, F) \<Rightarrow> Some (Inl (FragError e), [], c\<lparr>fragger := F\<rparr>)
           | (Inr frags, F) \<Rightarrow> send_fragments C os wall now (c\<lparr>fragger := F\<rparr>) frags))"

text \<open>Handing the fragment to the assembler, the last step of \<open>process_incoming\<close>.\<close>

definition conn_assemble ::
  "codec \<Rightarrow> connection \<Rightarrow> fragment \<Rightarrow> (conn_error + instruction option) \<times> connection" where
  "conn_assemble Z c frag =
     (case add_fragment Z (assembler c) frag of
        (Inl e, A) \<Rightarrow> (Inl (FragError e), c\<lparr>assembler := A\<rparr>)
      | (Inr r, A) \<Rightarrow> (Inr r, c\<lparr>assembler := A\<rparr>))"

text \<open>What a packet that is not out of order does to the timing and addressing of the connection.\<close>

definition accept_fresh ::
  "connection \<Rightarrow> nat \<Rightarrow> instant \<Rightarrow> instant \<Rightarrow> u64 \<Rightarrow> u16 \<Rightarrow> u16 \<Rightarrow> socket_addr \<Rightarrow> connection" where
  "accept_fresh c wall now1 now2 seq ts ts_reply peer =
     (let c1 = c\<lparr>expected_receiver_seq := seq + 1\<rparr>;
          c2 = (if ts \<noteq> 0xFFFF
                then c1\<lparr>saved_timestamp := ts, saved_timestamp_received_at := now1\<rparr> else c1);
          c3 = (if ts_reply \<noteq> 0xFFFF then
                  (let rtt = timestamp_diff (timestamp16 wall) ts_reply
                   in if rtt > 0 \<and> rtt < 5000
                      then c2\<lparr>conn_rtt := rtt_update (conn_rtt c2) (nat rtt)\<rparr> else c2)
                else c2);
          c4 = c3\<lparr>conn_last_heard := now2, has_remote_addr := True\<rparr>
      in if is_server c4 \<and> remote_addr c4 \<noteq> Some peer
         then c4\<lparr>remote_addr := Some peer\<rparr> else c4)"

definition process_incoming ::
  "ocb \<Rightarrow> codec \<Rightarrow> connection \<Rightarrow> nat \<Rightarrow> instant \<Rightarrow> instant \<Rightarrow> bytes \<Rightarrow> socket_addr \<Rightarrow>
     (conn_error + instruction option) \<times> connection" where
  "process_incoming C Z c wall now1 now2 data peer =
     (case session_decrypt C (conn_session c) data of
        Inl e \<Rightarrow> (Inl (DecryptionError e), c)
      | Inr msg \<Rightarrow>
          (let nonce = nonce_val (msg_nonce msg);
               to_client = (nonce AND TO_CLIENT_BIT \<noteq> 0)
           in if to_client = is_server c then (Inl (WrongDirection to_client (is_server c)), c)
              else
                (let seq = nonce AND NOT TO_CLIENT_BIT;
                     text = msg_text msg
                 in if length text < 4 then (Inl (MessageTooShort (length text)), c)
                    else
                      (case from_bytes (drop 4 text) of
                         Inl e \<Rightarrow> (Inl (FragError e), c)
                       | Inr frag \<Rightarrow>
                           if seq < expected_receiver_seq c then conn_assemble Z c frag
                           else
                             conn_assemble Z
                               (accept_fresh c wall now1 now2 seq
                                  (u16_from_be_bytes (take 2 text))
                                  (u16_from_be_bytes (take 2 (drop 2 text))) peer)
                               frag))))"

definition should_hop_port :: "connection \<Rightarrow> instant \<Rightarrow> bool" where
  "should_hop_port c now \<longleftrightarrow>
     \<not> is_server c \<and> now - last_port_choice c > ms PORT_HOP_INTERVAL_MS \<and>
     now - last_roundtrip_success c > ms PORT_HOP_INTERVAL_MS"

function prune_loop :: "socket list \<Rightarrow> socket list" where
  "prune_loop ss = (if length ss > MAX_PORTS_OPEN then prune_loop (vec_remove 0 ss) else ss)"
  by pat_completeness auto
termination
  by (relation "measure length") (auto simp: vec_remove_def)

declare prune_loop.simps [simp del]

definition hop_port :: "connection \<Rightarrow> socket option \<Rightarrow> instant \<Rightarrow> (conn_error + unit) \<times> connection" where
  "hop_port c bound now =
     (case bound of
        None \<Rightarrow> (Inl BindError, c)
      | Some sock \<Rightarrow>
          (Inr (), c\<lparr>sockets := prune_loop (sockets c @ [sock]), last_port_choice := now\<rparr>))"

definition fragmenter_last_ack_sent :: "connection \<Rightarrow> u64" where
  "fragmenter_last_ack_sent c = last_ack_sent (fragger c)"

section \<open>Lemmas\<close>

lemma prune_loop_eq: "prune_loop ss = drop (length ss - MAX_PORTS_OPEN) ss"
proof (induction ss rule: prune_loop.induct)
  case (1 ss)
  show ?case
  proof (cases "length ss > MAX_PORTS_OPEN")
    case True
    then have "length ss - MAX_PORTS_OPEN = Suc (length ss - 1 - MAX_PORTS_OPEN)" by simp
    then have "drop (length ss - MAX_PORTS_OPEN) ss = drop (length ss - 1 - MAX_PORTS_OPEN) (drop 1 ss)"
      by simp
    moreover have "prune_loop ss = prune_loop (vec_remove 0 ss)"
      using True by (subst prune_loop.simps) simp
    ultimately show ?thesis using 1 [OF True] by (simp add: vec_remove_def)
  next
    case False
    then show ?thesis by (subst prune_loop.simps) simp
  qed
qed

text \<open>The direction bit and the sequence number of a nonce.\<close>

lemma direction_bit:
  assumes "n < TO_CLIENT_BIT"
  shows "n AND TO_CLIENT_BIT = 0" and "(TO_CLIENT_BIT OR n) AND TO_CLIENT_BIT \<noteq> 0"
    and "n AND NOT TO_CLIENT_BIT = n" and "(TO_CLIENT_BIT OR n) AND NOT TO_CLIENT_BIT = n"
proof -
  have "unat n < 2 ^ 63" using assms by (simp add: TO_CLIENT_BIT_def word_less_nat_alt)
  then have "unat (take_bit 63 n) = unat n"
    by (simp add: unsigned_take_bit_eq take_bit_nat_eq_self)
  then have t: "n = take_bit 63 n" by (metis unsigned_word_eqI)
  have hi: "\<not> bit n i" if "63 \<le> i" for i
    using that by (subst t) (simp add: bit_take_bit_iff)
  have b: "bit TO_CLIENT_BIT i \<longleftrightarrow> i = 63" for i
    unfolding TO_CLIENT_BIT_def bit_push_bit_iff bit_1_iff by auto
  show "n AND TO_CLIENT_BIT = 0"
    by (rule bit_word_eqI) (auto simp: bit_and_iff b hi)
  have "bit ((TO_CLIENT_BIT OR n) AND TO_CLIENT_BIT) 63"
    by (simp add: bit_and_iff bit_or_iff b)
  then show "(TO_CLIENT_BIT OR n) AND TO_CLIENT_BIT \<noteq> 0" by auto
  show "n AND NOT TO_CLIENT_BIT = n"
    by (rule bit_word_eqI) (auto simp: bit_and_iff bit_not_iff b hi)
  show "(TO_CLIENT_BIT OR n) AND NOT TO_CLIENT_BIT = n"
    by (rule bit_word_eqI) (auto simp: bit_and_iff bit_or_iff bit_not_iff b hi)
qed

lemma send_nonce_direction:
  assumes "send_seq c < TO_CLIENT_BIT"
  shows "(send_nonce c AND TO_CLIENT_BIT \<noteq> 0) = is_server c"
    and "send_nonce c AND NOT TO_CLIENT_BIT = send_seq c"
  using direction_bit [OF assms] by (simp_all add: send_nonce_def)

lemma conn_assemble_frame:
  "snd (conn_assemble Z c f) = c\<lparr>assembler := snd (add_fragment Z (assembler c) f)\<rparr>"
  by (auto simp: conn_assemble_def split: sum.splits prod.splits)

lemma accept_fresh_frame [simp]:
  "assembler (accept_fresh c wall n1 n2 seq ts tr p) = assembler c"
  "expected_receiver_seq (accept_fresh c wall n1 n2 seq ts tr p) = seq + 1"
  "is_server (accept_fresh c wall n1 n2 seq ts tr p) = is_server c"
  "conn_session (accept_fresh c wall n1 n2 seq ts tr p) = conn_session c"
  "send_seq (accept_fresh c wall n1 n2 seq ts tr p) = send_seq c"
  "fragger (accept_fresh c wall n1 n2 seq ts tr p) = fragger c"
  by (simp_all add: accept_fresh_def Let_def)

definition wire_text :: "connection \<Rightarrow> nat \<Rightarrow> instant \<Rightarrow> fragment \<Rightarrow> bytes" where
  "wire_text c wall now f =
     u16_to_be_bytes (timestamp16 wall) @ u16_to_be_bytes (reply_timestamp c now) @ to_bytes f"

text \<open>A peer that shares the key recovers the nonce and the text of every datagram.\<close>

lemma encrypt_fragment_decrypts:
  assumes "ocb_laws C" and "length (cipher_key (conn_session c)) = 16"
    and "encrypt_fragment C c wall now f = Some (wire, c')"
    and "cipher_key s = cipher_key (conn_session c)"
  shows "session_decrypt C s wire =
      Inr \<lparr>msg_nonce = from_val (send_nonce c), msg_text = wire_text c wall now f\<rparr>"
    and "send_seq c' = send_seq c + 1" and "is_server c' = is_server c"
    and "cipher_key (conn_session c') = cipher_key (conn_session c)"
proof -
  let ?m = "\<lparr>msg_nonce = from_val (send_nonce c), msg_text = wire_text c wall now f\<rparr>"
  obtain s' where enc: "session_encrypt C (conn_session c) ?m = Some (wire, s')"
    and c': "c' = c\<lparr>send_seq := send_seq c + 1, conn_session := s'\<rparr>"
    using assms(3) by (auto simp: encrypt_fragment_def Let_def wire_text_def split: option.splits)
  have fits: "blocks_encrypted (conn_session c) + div_ceil (length (msg_text ?m)) 16 < 2 ^ 47"
    using enc by (auto simp: session_encrypt_def Let_def split: option.splits if_splits)
  obtain t b where tb: "wire = cc_str (from_val (send_nonce c)) @ b @ t" "length t = 16"
    "ocb_decrypt C (cipher_key (conn_session c)) (nonce_data (from_val (send_nonce c))) b t =
       Some (wire_text c wall now f)" and s': "cipher_key s' = cipher_key (conn_session c)"
    using session_encrypt_Some [OF assms(1,2) _ fits] enc by auto
  show "session_decrypt C s wire = Inr ?m"
    unfolding tb(1) using tb(2,3) assms(4)
    by (intro session_decrypt_wire) (simp_all add: assms(4))
  show "send_seq c' = send_seq c + 1" "is_server c' = is_server c"
    "cipher_key (conn_session c') = cipher_key (conn_session c)"
    using s' by (simp_all add: c')
qed

text \<open>
  The life of a connection: instructions sent (with what the socket takes), datagrams received and
  ports hopped, in any order, and the datagrams that left it.
\<close>

datatype conn_step =
    Sends "bytes \<Rightarrow> bool" nat instant instruction
  | Gets nat instant instant bytes socket_addr
  | Hops "socket option" instant

fun conn_life :: "ocb \<Rightarrow> codec \<Rightarrow> connection \<Rightarrow> conn_step list \<Rightarrow> (bytes list \<times> connection) option" where
  "conn_life C Z c [] = Some ([], c)"
| "conn_life C Z c (Sends os wall now inst # es) =
     (case conn_send C Z os wall now c inst of
        None \<Rightarrow> None
      | Some (r, ws, c1) \<Rightarrow> map_option (\<lambda>(ws', c2). (ws @ ws', c2)) (conn_life C Z c1 es))"
| "conn_life C Z c (Gets wall n1 n2 data peer # es) = conn_life C Z (snd (process_incoming C Z c wall n1 n2 data peer)) es"
| "conn_life C Z c (Hops bound now # es) = conn_life C Z (snd (hop_port c bound now)) es"

text \<open>The datagram \<open>w\<close> is what the cipher made of some text under the nonce that \<open>w\<close> itself begins with.\<close>

definition sealed_under :: "ocb \<Rightarrow> bytes \<Rightarrow> u64 \<Rightarrow> bytes \<Rightarrow> bool" where
  "sealed_under C key v w \<longleftrightarrow> (\<exists>p ct tag. ocb_encrypt C key (nonce_data (from_val v)) p = Some (ct, tag) \<and>
     w = u64_to_be_bytes v @ ct @ tag)"

text \<open>\<open>from_seqs C c c' ws\<close>: the datagrams of \<open>c\<close> up to \<open>c'\<close> carry rising sequence numbers of its own direction.\<close>

definition from_seqs :: "ocb \<Rightarrow> connection \<Rightarrow> connection \<Rightarrow> bytes list \<Rightarrow> bool" where
  "from_seqs C c c' ws \<longleftrightarrow> is_server c' = is_server c \<and> cipher_key (conn_session c') = cipher_key (conn_session c) \<and>
     send_seq c \<le> send_seq c' \<and>
     (\<exists>ns. sorted_wrt (<) ns \<and> (\<forall>n\<in>set ns. send_seq c \<le> n \<and> n < send_seq c') \<and>
        list_all2 (\<lambda>n. sealed_under C (cipher_key (conn_session c)) (send_nonce (c\<lparr>send_seq := n\<rparr>))) ns ws)"

lemma from_seqs_still:
  "is_server c' = is_server c \<Longrightarrow> conn_session c' = conn_session c \<Longrightarrow> send_seq c' = send_seq c \<Longrightarrow> from_seqs C c c' []"
  unfolding from_seqs_def by (auto intro!: exI [of _ "[]"])

lemma from_seqs_trans:
  assumes "from_seqs C c c1 ws" "from_seqs C c1 c2 ws'"
  shows "from_seqs C c c2 (ws @ ws')"
proof -
  let ?P = "\<lambda>c n. sealed_under C (cipher_key (conn_session c)) (send_nonce (c\<lparr>send_seq := n\<rparr>))"
  obtain ns where n: "sorted_wrt (<) ns" "\<forall>n\<in>set ns. send_seq c \<le> n \<and> n < send_seq c1" "list_all2 (?P c) ns ws"
    using assms(1) by (auto simp: from_seqs_def)
  obtain ns' where n': "sorted_wrt (<) ns'" "\<forall>n\<in>set ns'. send_seq c1 \<le> n \<and> n < send_seq c2" "list_all2 (?P c1) ns' ws'"
    using assms(2) by (auto simp: from_seqs_def)
  have "?P c1 = ?P c" using assms(1) by (auto simp: from_seqs_def send_nonce_def fun_eq_iff)
  then have "list_all2 (?P c) (ns @ ns') (ws @ ws')" using n(3) n'(3) by (simp add: list_all2_appendI)
  moreover have "sorted_wrt (<) (ns @ ns')" using n(1,2) n'(1,2) by (fastforce simp: sorted_wrt_append)
  moreover have "\<forall>n\<in>set (ns @ ns'). send_seq c \<le> n \<and> n < send_seq c2"
    using n(2) n'(2) assms by (fastforce simp: from_seqs_def)
  ultimately show ?thesis using assms by (auto simp: from_seqs_def intro: exI [of _ "ns @ ns'"])
qed

lemma encrypt_fragment_sealed:
  assumes "encrypt_fragment C c wall now f = Some (w, c')" and room: "unat (send_seq c) + 1 \<le> 2 ^ 63"
  shows "from_seqs C c c' [w]" and "unat (send_seq c') = unat (send_seq c) + 1"
proof -
  obtain s where e: "session_encrypt C (conn_session c) \<lparr>msg_nonce = from_val (send_nonce c), msg_text = wire_text c wall now f\<rparr> = Some (w, s)"
    and c': "c' = c\<lparr>send_seq := send_seq c + 1, conn_session := s\<rparr>"
    using assms by (auto simp: encrypt_fragment_def wire_text_def Let_def split: option.splits)
  have k: "cipher_key s = cipher_key (conn_session c)" "sealed_under C (cipher_key (conn_session c)) (send_nonce c) w"
    using e by (force simp: session_encrypt_def Let_def sealed_under_def split: option.splits if_splits)+
  show u: "unat (send_seq c') = unat (send_seq c) + 1" using room by (simp add: c' unat_word_ariths)
  then have "send_seq c < send_seq c'" by (simp add: word_less_nat_alt)
  then show "from_seqs C c c' [w]"
    using k unfolding from_seqs_def by (auto simp: c' intro!: exI [of _ "[send_seq c]"])
qed

lemma from_seqs_drop: "from_seqs C c c' [w] \<Longrightarrow> from_seqs C c c' []"
  unfolding from_seqs_def by (auto intro: exI [of _ "[]"])

lemma send_fragments_sealed:
  assumes "send_fragments C os wall now c fs = Some (r, ws, c')" and "unat (send_seq c) + length ws + 1 \<le> 2 ^ 63"
  shows "from_seqs C c c' ws \<and> unat (send_seq c') \<le> unat (send_seq c) + length ws + 1"
  using assms
proof (induction fs arbitrary: c ws)
  case Nil
  then show ?case by (simp add: from_seqs_still)
next
  case (Cons f fs)
  obtain w c1 where e: "encrypt_fragment C c wall now f = Some (w, c1)"
    using Cons.prems(1) by (auto split: option.splits)
  note s = encrypt_fragment_sealed [OF e]
  show ?case
  proof (cases "os w")
    case False
    then have "ws = []" "c' = c1" using Cons.prems(1) e by auto
    then show ?thesis using s Cons.prems(2) by (simp add: from_seqs_drop)
  next
    case True
    then obtain ws' where r: "send_fragments C os wall now c1 fs = Some (r, ws', c')" and ws: "ws = w # ws'"
      using Cons.prems(1) e by (auto split: option.splits)
    then show ?thesis
      using Cons.IH [OF r] Cons.prems(2) s from_seqs_trans [of C c c1 "[w]" c' ws'] by simp
  qed
qed

lemma conn_send_sealed:
  assumes "conn_send C Z os wall now c inst = Some (r, ws, c')" and "unat (send_seq c) + length ws + 1 \<le> 2 ^ 63"
  shows "from_seqs C c c' ws \<and> unat (send_seq c') \<le> unat (send_seq c) + length ws + 1"
proof (cases "remote_addr c")
  case None
  then show ?thesis using assms by (auto simp: conn_send_def from_seqs_still)
next
  case (Some a)
  obtain x F where m: "make_fragments Z (fragger c) inst (max_fragment_payload MTU_IPV4) = (x, F)" by fastforce
  have "from_seqs C c (c\<lparr>fragger := F\<rparr>) []" by (simp add: from_seqs_still)
  then show ?thesis
    using assms Some m send_fragments_sealed [of C os wall now "c\<lparr>fragger := F\<rparr>" _ r ws c']
      from_seqs_trans [of C c "c\<lparr>fragger := F\<rparr>" "[]" c' ws]
    by (cases x) (auto simp: conn_send_def)
qed

lemma process_incoming_sending:
  "is_server (snd (process_incoming C Z c wall n1 n2 data peer)) = is_server c"
  "conn_session (snd (process_incoming C Z c wall n1 n2 data peer)) = conn_session c"
  "send_seq (snd (process_incoming C Z c wall n1 n2 data peer)) = send_seq c"
  by (auto simp: process_incoming_def Let_def conn_assemble_frame split: sum.splits)

lemma hop_port_sending:
  "is_server (snd (hop_port c bound now)) = is_server c"
  "conn_session (snd (hop_port c bound now)) = conn_session c"
  "send_seq (snd (hop_port c bound now)) = send_seq c"
  by (auto simp: hop_port_def Let_def split: option.splits)

lemma conn_life_sealed:
  assumes "conn_life C Z c es = Some (ws, c')" and "unat (send_seq c) + length ws + length es \<le> 2 ^ 63"
  shows "from_seqs C c c' ws \<and> unat (send_seq c') \<le> unat (send_seq c) + length ws + length es"
  using assms
proof (induction es arbitrary: c ws)
  case Nil
  then show ?case by (simp add: from_seqs_still)
next
  case (Cons e es)
  show ?case
  proof (cases e)
    case (Sends os wall now inst)
    then obtain r ws1 c1 ws2 where s: "conn_send C Z os wall now c inst = Some (r, ws1, c1)"
      "conn_life C Z c1 es = Some (ws2, c')" "ws = ws1 @ ws2"
      using Cons.prems(1) by (auto split: option.splits)
    then show ?thesis
      using Cons.IH [OF s(2)] Cons.prems(2) conn_send_sealed [OF s(1)] from_seqs_trans [of C c c1 ws1 c' ws2] by simp
  next
    case (Gets wall n1 n2 data peer)
    let ?c = "snd (process_incoming C Z c wall n1 n2 data peer)"
    show ?thesis using Cons.IH [of ?c ws] Cons.prems Gets from_seqs_trans [of C c ?c "[]" c' ws]
      from_seqs_still [of ?c c C] by (simp add: process_incoming_sending)
  next
    case (Hops bound now)
    let ?c = "snd (hop_port c bound now)"
    show ?thesis using Cons.IH [of ?c ws] Cons.prems Hops from_seqs_trans [of C c ?c "[]" c' ws]
      from_seqs_still [of ?c c C] by (simp add: hop_port_sending)
  qed
qed

lemma sealed_under_nonce:
  assumes "sealed_under C key v w"
  shows "take 8 w = u64_to_be_bytes v"
    and "\<exists>p ct tag. ocb_encrypt C key (replicate 4 0 @ take 8 w) p = Some (ct, tag) \<and> drop 8 w = ct @ tag"
  using assms by (force simp: sealed_under_def from_val_def)+

text \<open>The nonces of both directions, over both lives, are different.\<close>

lemma seqs_nonces:
  assumes "from_seqs C c c' ws" and "unat (send_seq c') \<le> 2 ^ 63"
  shows "\<exists>vs. map (take 8) ws = map u64_to_be_bytes vs \<and> distinct vs \<and> (\<forall>v\<in>set vs. (v AND TO_CLIENT_BIT \<noteq> 0) = is_server c)"
proof -
  let ?v = "\<lambda>n. send_nonce (c\<lparr>send_seq := n\<rparr>)"
  obtain ns where n: "sorted_wrt (<) ns" "\<forall>n\<in>set ns. n < send_seq c'"
    "list_all2 (\<lambda>n. sealed_under C (cipher_key (conn_session c)) (?v n)) ns ws"
    using assms(1) by (auto simp: from_seqs_def)
  have lt: "n < TO_CLIENT_BIT" if "n \<in> set ns" for n
    using n(2) that assms(2) by (force simp: word_less_nat_alt TO_CLIENT_BIT_def)
  have d: "(?v n AND TO_CLIENT_BIT \<noteq> 0) = is_server c" "?v n AND NOT TO_CLIENT_BIT = n" if "n \<in> set ns" for n
    using send_nonce_direction [of "c\<lparr>send_seq := n\<rparr>"] lt [OF that] by simp_all
  have "inj_on ?v (set ns)" by (rule inj_on_inverseI [where g = "\<lambda>v. v AND NOT TO_CLIENT_BIT"]) (rule d(2))
  moreover have "distinct ns" using n(1) by (simp add: strict_sorted_iff)
  moreover have "map (take 8) ws = map u64_to_be_bytes (map ?v ns)"
    using n(3) by (induction rule: list_all2_induct) (simp_all add: sealed_under_nonce)
  ultimately show ?thesis using d(1) by (intro exI [of _ "map ?v ns"]) (auto simp: distinct_map)
qed

section \<open>From one end to the other\<close>

text \<open>Two connections that will send alike: what receiving leaves alone.\<close>

definition same_sending :: "connection \<Rightarrow> connection \<Rightarrow> bool" where
  "same_sending c c' \<longleftrightarrow> conn_session c' = conn_session c \<and> fragger c' = fragger c \<and>
     send_seq c' = send_seq c \<and> is_server c' = is_server c"

text \<open>What a datagram of the peer does: its fragment reaches the assembler, whatever the order.\<close>

lemma wire_text_split:
  "drop 4 (wire_text c wall now f) = to_bytes f" "\<not> length (wire_text c wall now f) < 4"
  by (simp_all add: wire_text_def)

lemma process_incoming_peer:
  assumes laws: "ocb_laws C" and key: "length (cipher_key (conn_session c)) = 16"
    and enc: "encrypt_fragment C c wall now f = Some (wire, c')"
    and seq: "send_seq c < TO_CLIENT_BIT" and num: "fragment_num f < 0x8000"
    and same: "cipher_key (conn_session p) = cipher_key (conn_session c)"
    and role: "is_server p \<noteq> is_server c"
  shows "\<exists>p'. process_incoming C Z p wall' n1 n2 wire peer = conn_assemble Z p' f \<and>
    assembler p' = assembler p \<and> same_sending p p'"
proof -
  have dec: "session_decrypt C (conn_session p) wire =
      Inr \<lparr>msg_nonce = from_val (send_nonce c), msg_text = wire_text c wall now f\<rparr>"
    by (rule encrypt_fragment_decrypts(1) [OF laws key enc same])
  have f: "f\<lparr>fragment_num := fragment_num f AND 0x7FFF\<rparr> = f" using small_num [OF num] by simp
  note d = send_nonce_direction [OF seq]
  show ?thesis
    using role d
    by (cases "send_seq c < expected_receiver_seq p")
       (auto simp: process_incoming_def dec Let_def wire_text_split from_bytes_to_bytes f same_sending_def)
qed

text \<open>A packet of our own direction, reflected back at us, is refused.\<close>

lemma process_incoming_reflected:
  assumes laws: "ocb_laws C" and key: "length (cipher_key (conn_session c)) = 16"
    and enc: "encrypt_fragment C c wall now f = Some (wire, c')"
    and seq: "send_seq c < TO_CLIENT_BIT"
    and same: "cipher_key (conn_session p) = cipher_key (conn_session c)"
    and role: "is_server p = is_server c"
  shows "process_incoming C Z p wall' n1 n2 wire peer = (Inl (WrongDirection (is_server p) (is_server p)), p)"
  using encrypt_fragment_decrypts(1) [OF laws key enc same] role send_nonce_direction [OF seq]
  by (simp add: process_incoming_def Let_def)

text \<open>Receiving a sequence of datagrams.\<close>

fun receive_all :: "ocb \<Rightarrow> codec \<Rightarrow> nat \<Rightarrow> instant \<Rightarrow> socket_addr \<Rightarrow> connection \<Rightarrow> bytes list \<Rightarrow>
    (conn_error + instruction option) list \<times> connection" where
  "receive_all C Z wall now peer p [] = ([], p)"
| "receive_all C Z wall now peer p (w # ws) =
     (let (r, p1) = process_incoming C Z p wall now now w peer;
          (rs, p2) = receive_all C Z wall now peer p1 ws
      in (r # rs, p2))"

definition lift_frag :: "frag_error + 'a \<Rightarrow> conn_error + 'a" where
  "lift_frag r = (case r of Inl e \<Rightarrow> Inl (FragError e) | Inr v \<Rightarrow> Inr v)"

text \<open>\<open>carries C key server w f\<close>: the datagram \<open>w\<close> was made from the fragment \<open>f\<close> by an end of that role.\<close>

definition carries :: "ocb \<Rightarrow> bytes \<Rightarrow> bool \<Rightarrow> bytes \<Rightarrow> fragment \<Rightarrow> bool" where
  "carries C key server w f \<longleftrightarrow> (\<exists>c wall now c'. encrypt_fragment C c wall now f = Some (w, c') \<and>
     cipher_key (conn_session c) = key \<and> is_server c = server \<and> send_seq c < TO_CLIENT_BIT) \<and>
     fragment_num f < 0x8000"

lemma receive_all_deliver:
  assumes laws: "ocb_laws C" and key: "length key = 16"
  shows "list_all2 (carries C key server) ws fs \<Longrightarrow> cipher_key (conn_session p) = key \<Longrightarrow>
    is_server p \<noteq> server \<Longrightarrow>
    fst (receive_all C Z wall now peer p ws) = map lift_frag (fst (deliver Z (assembler p) fs))"
proof (induction ws arbitrary: p fs)
  case Nil
  then show ?case by simp
next
  case (Cons w ws)
  from Cons.prems(1) obtain f fs' where fs: "fs = f # fs'" and wf: "carries C key server w f"
    and rest: "list_all2 (carries C key server) ws fs'" by (auto simp: list_all2_Cons1)
  obtain p' where p': "process_incoming C Z p wall now now w peer = conn_assemble Z p' f"
    "assembler p' = assembler p" "is_server p' = is_server p" "conn_session p' = conn_session p"
    using wf Cons.prems(2,3) key process_incoming_peer [OF laws] unfolding carries_def same_sending_def by metis
  obtain r A where a: "add_fragment Z (assembler p) f = (r, A)" by fastforce
  have c: "conn_assemble Z p' f = (lift_frag r, p'\<lparr>assembler := A\<rparr>)"
    using a p'(2) by (auto simp: conn_assemble_def lift_frag_def split: sum.splits)
  have "fst (receive_all C Z wall now peer (p'\<lparr>assembler := A\<rparr>) ws) = map lift_frag (fst (deliver Z A fs'))"
    using Cons.IH [OF rest, of "p'\<lparr>assembler := A\<rparr>"] Cons.prems(2,3) p' by simp
  then show ?case using p'(1) c a by (simp add: fs split_beta)
qed

lemma encrypt_fragment_keeps:
  "encrypt_fragment C c wall now f = Some (w, c') \<Longrightarrow> fragger c' = fragger c \<and> assembler c' = assembler c"
  by (auto simp: encrypt_fragment_def Let_def split: option.splits)

lemma send_fragments_carry:
  assumes "send_fragments C os wall now c fs = Some (r, ws, c')"
    and "unat (send_seq c) + length fs \<le> 2 ^ 63" and "\<forall>f\<in>set fs. fragment_num f < 0x8000"
    and "ocb_laws C" and "length (cipher_key (conn_session c)) = 16"
  shows "(\<forall>w\<in>set ws. \<exists>f\<in>set fs. carries C (cipher_key (conn_session c)) (is_server c) w f) \<and>
    cipher_key (conn_session c') = cipher_key (conn_session c) \<and> fragger c' = fragger c \<and>
    assembler c' = assembler c \<and> is_server c' = is_server c \<and>
    ((\<forall>w. os w) \<longrightarrow> r = Inr ()) \<and>
    (r = Inr () \<longrightarrow> list_all2 (carries C (cipher_key (conn_session c)) (is_server c)) ws fs)"
  using assms
proof (induction fs arbitrary: c r ws)
  case Nil
  then show ?case by simp
next
  case (Cons f fs)
  from Cons.prems(1) obtain w c1 where e: "encrypt_fragment C c wall now f = Some (w, c1)"
    by (auto split: option.splits)
  note d = encrypt_fragment_decrypts(2-4) [OF Cons.prems(4,5) e refl] and k = encrypt_fragment_keeps [OF e]
  have lt: "send_seq c < TO_CLIENT_BIT"
    using Cons.prems(2) by (simp add: TO_CLIENT_BIT_def word_less_nat_alt)
  have w: "carries C (cipher_key (conn_session c)) (is_server c) w f"
    unfolding carries_def using e lt Cons.prems(3) by auto
  show ?case
  proof (cases "os w")
    case False
    then show ?thesis using Cons.prems(1) e d k by auto
  next
    case True
    then obtain ws' where s: "send_fragments C os wall now c1 fs = Some (r, ws', c')" and ws: "ws = w # ws'"
      using Cons.prems(1) e by (auto split: option.splits)
    have "unat (send_seq c1) = unat (send_seq c) + 1"
      using d(1) Cons.prems(2) by (simp add: unat_word_ariths)
    then show ?thesis using Cons.IH [OF s] Cons.prems(2-5) d k w ws by auto
  qed
qed

lemma send_fragments_carries:
  assumes "send_fragments C (\<lambda>_. True) wall now c fs = Some (r, ws, c')"
    and "unat (send_seq c) + length fs \<le> 2 ^ 63" and "\<forall>f\<in>set fs. fragment_num f < 0x8000"
    and "ocb_laws C" and "length (cipher_key (conn_session c)) = 16"
  shows "r = Inr () \<and> list_all2 (carries C (cipher_key (conn_session c)) (is_server c)) ws fs"
  using send_fragments_carry [OF assms] by simp

text \<open>The size of a datagram.\<close>

lemma encrypt_fragment_length:
  assumes "encrypt_fragment C c wall now f = Some (wire, c')"
  shows "length wire = ADDED_BYTES + SESSION_ADDED_BYTES + FRAG_HEADER_LEN + length (payload f)"
  using assms
  by (auto simp: encrypt_fragment_def session_encrypt_def Let_def length_to_bytes const_defs TAG_BYTES_def
      split: option.splits if_splits)

end
