(* ===== verification/State_Trait.thy ===== *)
theory State_Trait
  imports Morsh_Prelude
begin

text \<open>
  The state abstraction of \<open>crates/morsh-network/src/state.rs\<close>: the trait \<open>State\<close> as a record of
  operations (what a Rust implementation of the trait provides), \<open>TimestampedState\<close>, and the
  contract the protocol relies on: the locale \<open>sync_source\<close> for the end a state is sent from, and
  \<open>sync_state\<close>, which extends it by what the end that receives it needs.

  The documentation of the trait asks for \<open>apply (diff\_from c a) a = c\<close> for all states. The user
  stream only satisfies it where \<open>c\<close> extends \<open>a\<close>, and both ends of a connection discard
  acknowledged prefixes at different moments. So the contract is stated against an abstract
  history: \<open>rep p h s\<close> says that the concrete state \<open>s\<close> stands for the abstract state \<open>h\<close> with
  everything before the mark \<open>p\<close> discarded, and \<open>le g h\<close> that \<open>h\<close> is a later version of \<open>g\<close>. Diffs are
  only ever applied to states under a mark that is \<open>live\<close>, the states of a receiver. \<open>diff_det\<close> says
  that a diff depends only on the histories, not on the marks: the fragmenter relies on it when it
  reuses an id for an instruction with the same numbers.
\<close>

record 's state_ops =
  has_prefix :: bool
  state_clone :: "'s \<Rightarrow> 's"
  diff_from :: "'s \<Rightarrow> 's \<Rightarrow> bytes"
  apply_string :: "'s \<Rightarrow> bytes \<Rightarrow> string + 's"
  subtract :: "'s \<Rightarrow> 's \<Rightarrow> 's"
  state_equal :: "'s \<Rightarrow> 's \<Rightarrow> bool"
  adopt_from :: "'s \<Rightarrow> 's \<Rightarrow> 's \<times> 's"

record 's timestamped =
  timestamp :: instant
  ts_num :: u64
  ts_state :: 's

locale sync_source =
  fixes ops :: "'s state_ops"
    and rep :: "'p \<Rightarrow> 'h \<Rightarrow> 's \<Rightarrow> bool"
    and le :: "'h \<Rightarrow> 'h \<Rightarrow> bool"
    and cut :: "'h \<Rightarrow> 'p"
  assumes le_refl: "le h h"
    and le_trans: "le f g \<Longrightarrow> le g h \<Longrightarrow> le f h"
    and rep_clone: "rep p h s \<Longrightarrow> rep p h (state_clone ops s)"
    and rep_subtract: "has_prefix ops \<Longrightarrow> le g h \<Longrightarrow> rep p h s \<Longrightarrow> rep p g t \<Longrightarrow>
      rep (cut g) h (subtract ops s t)"
    and rep_equal: "le g h \<Longrightarrow> rep p h s \<Longrightarrow> rep p g t \<Longrightarrow> state_equal ops s t \<longleftrightarrow> h = g"
    and diff_det: "le g h \<Longrightarrow> rep p h s \<Longrightarrow> rep p g t \<Longrightarrow> rep q h s' \<Longrightarrow> rep q g t' \<Longrightarrow>
      diff_from ops s t = diff_from ops s' t'"
begin

lemma rep_equal_refl: "rep p h s \<Longrightarrow> rep p h t \<Longrightarrow> state_equal ops s t"
  using rep_equal [OF le_refl] by blast

end

locale sync_state = sync_source ops rep le cut
  for ops :: "'s state_ops" and rep :: "'p \<Rightarrow> 'h \<Rightarrow> 's \<Rightarrow> bool" and le :: "'h \<Rightarrow> 'h \<Rightarrow> bool"
    and cut :: "'h \<Rightarrow> 'p" +
  fixes live :: "'p \<Rightarrow> bool"
  assumes rep_adopt: "rep p h s \<Longrightarrow> rep p h t \<Longrightarrow>
      rep p h (fst (adopt_from ops s t)) \<and> rep p h (snd (adopt_from ops s t))"
    and rep_diff: "live p \<Longrightarrow> le g h \<Longrightarrow> rep q h c \<Longrightarrow> rep q g a \<Longrightarrow> rep p g b \<Longrightarrow>
      (if diff_from ops c a = [] then rep p h b
       else \<exists>s. apply_string ops b (diff_from ops c a) = Inr s \<and> rep p h s)"
    and diff_empty: "le g h \<Longrightarrow> rep q h c \<Longrightarrow> rep q g a \<Longrightarrow> diff_from ops c a = [] \<Longrightarrow> state_equal ops c a"
    and live_cut: "has_prefix ops \<Longrightarrow> live (cut g)"

end
