(* ===== verification/Sender.thy ===== *)
theory Sender
  imports State_Trait Fragment
begin

text \<open>
  \<open>TransportSender\<close> of \<open>crates/morsh-network/src/transport.rs\<close>: the sending half of the State
  Synchronization Protocol. The sender keeps the states it has sent, newest last, and an index of
  the one it assumes the receiver holds; each instruction is a diff from that one.

  \<open>Vec\<close> accesses of the source that cannot fail (\<open>sent_states[0]\<close>, \<open>last().unwrap()\<close>, the assumed
  index) are \<open>hd\<close>, \<open>last\<close> and \<open>!\<close> here; \<open>sender_inv\<close>, kept by every operation, shows that they are in
  range. Random padding is the argument \<open>pad\<close>.
\<close>

definition SHUTDOWN_NUM :: u64 where
  "SHUTDOWN_NUM = u64_MAX"

definition SENT_STATES_MAX :: nat where
  "SENT_STATES_MAX = 32"

record 's sender =
  current_state :: 's
  sent_states :: "'s timestamped list"
  assumed_receiver_state :: nat
  next_ack_time :: instant
  next_send_time :: "instant option"
  shutdown_in_progress :: bool
  shutdown_tries :: nat
  shutdown_start :: "instant option"
  sender_ack_num :: u64
  pending_data_ack :: bool
  send_mindelay :: duration
  last_heard :: "instant option"
  mindelay_clock :: "instant option"

definition sender_new :: "'s state_ops \<Rightarrow> instant \<Rightarrow> 's \<Rightarrow> 's sender" where
  "sender_new ops now initial_state =
     \<lparr>current_state = initial_state,
      sent_states = [\<lparr>timestamp = now, ts_num = 0, ts_state = state_clone ops initial_state\<rparr>],
      assumed_receiver_state = 0,
      next_ack_time = now,
      next_send_time = Some now,
      shutdown_in_progress = False,
      shutdown_tries = 0,
      shutdown_start = None,
      sender_ack_num = 0,
      pending_data_ack = False,
      send_mindelay = ms SEND_MINDELAY_MS,
      last_heard = None,
      mindelay_clock = None\<rparr>"

definition send_interval :: "nat \<Rightarrow> duration" where
  "send_interval srtt = ms (clamp SEND_INTERVAL_MIN_MS SEND_INTERVAL_MAX_MS (div_ceil srtt 2))"

definition set_current_state :: "'s sender \<Rightarrow> 's \<Rightarrow> 's sender" where
  "set_current_state S s = S\<lparr>current_state := s\<rparr>"

definition set_ack_num :: "'s sender \<Rightarrow> u64 \<Rightarrow> 's sender" where
  "set_ack_num S n = S\<lparr>sender_ack_num := n\<rparr>"

definition set_data_ack :: "'s sender \<Rightarrow> 's sender" where
  "set_data_ack S = S\<lparr>pending_data_ack := True\<rparr>"

definition remote_heard :: "'s sender \<Rightarrow> instant \<Rightarrow> 's sender" where
  "remote_heard S w = S\<lparr>last_heard := Some w\<rparr>"

definition sender_start_shutdown :: "'s sender \<Rightarrow> instant \<Rightarrow> 's sender" where
  "sender_start_shutdown S now =
     (if \<not> shutdown_in_progress S
      then S\<lparr>shutdown_start := Some now, shutdown_in_progress := True\<rparr> else S)"

definition shutdown_acknowledged :: "'s sender \<Rightarrow> bool" where
  "shutdown_acknowledged S \<longleftrightarrow> ts_num (hd (sent_states S)) = SHUTDOWN_NUM"

definition shutdown_ack_timed_out :: "'s sender \<Rightarrow> instant \<Rightarrow> bool" where
  "shutdown_ack_timed_out S now =
     (if \<not> shutdown_in_progress S then False
      else if shutdown_tries S \<ge> SHUTDOWN_RETRIES then True
      else case shutdown_start S of
             Some start \<Rightarrow> now - start \<ge> ms ACTIVE_RETRY_TIMEOUT_MS
           | None \<Rightarrow> False)"

definition sent_state_acked_timestamp :: "'s sender \<Rightarrow> instant" where
  "sent_state_acked_timestamp S = timestamp (hd (sent_states S))"

definition sent_state_acked :: "'s sender \<Rightarrow> u64" where
  "sent_state_acked S = ts_num (hd (sent_states S))"

definition sent_state_last :: "'s sender \<Rightarrow> u64" where
  "sent_state_last S = ts_num (last (sent_states S))"

text \<open>The loop over \<open>i in 1..len\<close>, with \<open>a\<close> the index assumed so far.\<close>

fun assumed_loop :: "instant \<Rightarrow> duration \<Rightarrow> 's timestamped list \<Rightarrow> nat \<Rightarrow> nat \<Rightarrow> nat" where
  "assumed_loop now horizon [] i a = a"
| "assumed_loop now horizon (t # ts) i a =
     (if now - timestamp t < horizon then assumed_loop now horizon ts (Suc i) i else a)"

definition update_assumed_receiver_state :: "'s sender \<Rightarrow> instant \<Rightarrow> duration \<Rightarrow> 's sender" where
  "update_assumed_receiver_state S now timeout =
     S\<lparr>assumed_receiver_state :=
         assumed_loop now (timeout + ms ACK_DELAY_MS) (tl (sent_states S)) 1 0\<rparr>"

definition rationalize_states :: "'s state_ops \<Rightarrow> 's sender \<Rightarrow> 's sender" where
  "rationalize_states ops S =
     (if \<not> has_prefix ops then S
      else
        (let known = state_clone ops (ts_state (hd (sent_states S)))
         in S\<lparr>current_state := subtract ops (current_state S) known,
              sent_states := map (\<lambda>t. t\<lparr>ts_state := subtract ops (ts_state t) known\<rparr>)
                               (sent_states S)\<rparr>))"

definition sender_active :: "'s sender \<Rightarrow> instant \<Rightarrow> bool" where
  "sender_active S now =
     (case last_heard S of None \<Rightarrow> False | Some h \<Rightarrow> h + ms ACTIVE_RETRY_TIMEOUT_MS > now)"

definition schedule_send ::
  "'s state_ops \<Rightarrow> 's sender \<Rightarrow> instant \<Rightarrow> duration \<Rightarrow> duration \<Rightarrow> 's sender" where
  "schedule_send ops S now timeout interval =
     (let last_state = last (sent_states S);
          last_timestamp = timestamp last_state
      in if \<not> state_equal ops (current_state S) (ts_state last_state) then
           (let clock = (case mindelay_clock S of Some c \<Rightarrow> c | None \<Rightarrow> now)
            in S\<lparr>mindelay_clock := Some clock,
                 next_send_time := Some (max (clock + send_mindelay S) (last_timestamp + interval))\<rparr>)
         else if \<not> state_equal ops (current_state S)
                    (ts_state (sent_states S ! assumed_receiver_state S)) \<and> sender_active S now then
           (let t = last_timestamp + interval
            in S\<lparr>next_send_time := Some (case mindelay_clock S of
                   Some clock \<Rightarrow> max t (clock + send_mindelay S) | None \<Rightarrow> t)\<rparr>)
         else if \<not> state_equal ops (current_state S) (ts_state (hd (sent_states S)))
                 \<and> sender_active S now then
           S\<lparr>next_send_time := Some (last_timestamp + timeout + ms ACK_DELAY_MS)\<rparr>
         else S\<lparr>next_send_time := None\<rparr>)"

definition calculate_timers ::
  "'s state_ops \<Rightarrow> 's sender \<Rightarrow> instant \<Rightarrow> duration \<Rightarrow> nat \<Rightarrow> 's sender" where
  "calculate_timers ops S now timeout srtt =
     (let S1 = rationalize_states ops (update_assumed_receiver_state S now timeout);
          S2 = (if pending_data_ack S1 \<and> next_ack_time S1 > now + ms ACK_DELAY_MS
                then S1\<lparr>next_ack_time := now + ms ACK_DELAY_MS\<rparr> else S1);
          interval = send_interval srtt;
          last_timestamp = timestamp (last (sent_states S2));
          S3 = schedule_send ops S2 now timeout interval
      in if shutdown_in_progress S3 \<or> sender_ack_num S3 = SHUTDOWN_NUM
         then S3\<lparr>next_ack_time := last_timestamp + interval\<rparr> else S3)"

definition sender_wait_time_ms ::
  "'s state_ops \<Rightarrow> 's sender \<Rightarrow> instant \<Rightarrow> duration \<Rightarrow> nat \<Rightarrow> bool \<Rightarrow> nat option \<times> 's sender" where
  \<comment> \<open>\<open>None\<close> is \<open>u64::MAX\<close>: nothing to wait for without a remote address\<close>
  "sender_wait_time_ms ops S now timeout srtt has_remote_addr =
     (let S1 = calculate_timers ops S now timeout srtt
      in if \<not> has_remote_addr then (None, S1)
         else
           (let nxt = (case next_send_time S1 of
                         Some send \<Rightarrow> min (next_ack_time S1) send | None \<Rightarrow> next_ack_time S1)
            in (Some (as_millis (nxt - now)), S1)))"

definition add_sent_state :: "'s sender \<Rightarrow> instant \<Rightarrow> u64 \<Rightarrow> 's \<Rightarrow> 's sender" where
  "add_sent_state S now n s =
     (let pushed = sent_states S @ [\<lparr>timestamp = now, ts_num = n, ts_state = s\<rparr>]
      in if length pushed > SENT_STATES_MAX then
           (let victim = length pushed - 16
            in S\<lparr>sent_states := vec_remove victim pushed,
                 assumed_receiver_state :=
                   (if assumed_receiver_state S \<ge> victim then assumed_receiver_state S - 1
                    else assumed_receiver_state S)\<rparr>)
         else S\<lparr>sent_states := pushed\<rparr>)"

definition build_instruction :: "'s sender \<Rightarrow> bytes \<Rightarrow> u64 \<Rightarrow> bytes \<Rightarrow> instruction \<times> 's sender" where
  "build_instruction S d n pad =
     (\<lparr>protocol_version = Some MORSH_PROTOCOL_VERSION,
       old_num = Some (ts_num (sent_states S ! assumed_receiver_state S)),
       new_num = Some n,
       ack_num = Some (sender_ack_num S),
       throwaway_num = Some (ts_num (hd (sent_states S))),
       diff = Some d,
       chaff = Some pad\<rparr>,
      S\<lparr>shutdown_tries := (if n = SHUTDOWN_NUM then shutdown_tries S + 1 else shutdown_tries S),
        pending_data_ack := False\<rparr>)"

definition send_empty_ack :: "'s state_ops \<Rightarrow> 's sender \<Rightarrow> instant \<Rightarrow> bytes \<Rightarrow> instruction \<times> 's sender"
  where
  "send_empty_ack ops S now pad =
     (let n = (if shutdown_in_progress S then SHUTDOWN_NUM else sent_state_last S + 1);
          S1 = add_sent_state S now n (state_clone ops (current_state S));
          (inst, S2) = build_instruction S1 [] n pad
      in (inst, S2\<lparr>next_ack_time := now + ms ACK_INTERVAL_MS, next_send_time := None\<rparr>))"

definition send_to_receiver ::
  "'s state_ops \<Rightarrow> 's sender \<Rightarrow> bytes \<Rightarrow> instant \<Rightarrow> bytes \<Rightarrow> instruction \<times> 's sender" where
  "send_to_receiver ops S d now pad =
     (let last_num = sent_state_last S;
          n0 = (if state_equal ops (current_state S) (ts_state (last (sent_states S)))
                then last_num else last_num + 1);
          n = (if shutdown_in_progress S then SHUTDOWN_NUM else n0);
          S1 = (if n = last_num
                then S\<lparr>sent_states := butlast (sent_states S) @
                         [(last (sent_states S))\<lparr>timestamp := now\<rparr>]\<rparr>
                else add_sent_state S now n (state_clone ops (current_state S)));
          (inst, S2) = build_instruction S1 d n pad
      in (inst, S2\<lparr>assumed_receiver_state := length (sent_states S2) - 1,
                   next_ack_time := now + ms ACK_INTERVAL_MS,
                   next_send_time := None\<rparr>))"

definition attempt_prospective_resend_optimization ::
  "'s state_ops \<Rightarrow> 's sender \<Rightarrow> bytes \<Rightarrow> bytes \<times> 's sender" where
  "attempt_prospective_resend_optimization ops S proposed =
     (if assumed_receiver_state S = 0 then (proposed, S)
      else
        (let resend = diff_from ops (current_state S) (ts_state (hd (sent_states S)))
         in if length resend \<le> length proposed \<or>
               (length resend < 1000 \<and> length resend - length proposed < 100)
            then (resend, S\<lparr>assumed_receiver_state := 0\<rparr>)
            else (proposed, S)))"

definition sender_tick ::
  "'s state_ops \<Rightarrow> 's sender \<Rightarrow> instant \<Rightarrow> duration \<Rightarrow> nat \<Rightarrow> bool \<Rightarrow> bytes \<Rightarrow>
     instruction option \<times> 's sender" where
  "sender_tick ops S now timeout srtt has_remote_addr pad =
     (let S1 = calculate_timers ops S now timeout srtt
      in if \<not> has_remote_addr then (None, S1)
         else
           (let send_due = (case next_send_time S1 of None \<Rightarrow> False | Some t \<Rightarrow> now \<ge> t);
                ack_due = (now \<ge> next_ack_time S1)
            in if \<not> send_due \<and> \<not> ack_due then (None, S1)
               else
                 (let d0 = diff_from ops (current_state S1)
                             (ts_state (sent_states S1 ! assumed_receiver_state S1));
                      (d, S2) = attempt_prospective_resend_optimization ops S1 d0
                  in if d = [] then
                       (let (inst, S3) =
                              (if ack_due then
                                 (case send_empty_ack ops S2 now pad of
                                    (i, S') \<Rightarrow> (Some i, S'\<lparr>mindelay_clock := None\<rparr>))
                               else (None, S2))
                        in (inst, if send_due
                                  then S3\<lparr>next_send_time := None, mindelay_clock := None\<rparr> else S3))
                     else
                       (case send_to_receiver ops S2 d now pad of
                          (i, S3) \<Rightarrow> (Some i, S3\<lparr>mindelay_clock := None\<rparr>)))))"

definition process_acknowledgment_through :: "'s sender \<Rightarrow> u64 \<Rightarrow> 's sender" where
  "process_acknowledgment_through S ack =
     (if \<not> (\<exists>t\<in>set (sent_states S). ts_num t = ack) then S
      else
        (let assumed_num = ts_num (sent_states S ! assumed_receiver_state S);
             kept = filter (\<lambda>t. ts_num t \<ge> ack) (sent_states S)
         in S\<lparr>sent_states := kept,
              assumed_receiver_state :=
                (case position (\<lambda>t. ts_num t = assumed_num) kept of Some i \<Rightarrow> i | None \<Rightarrow> 0)\<rparr>))"

end
