(* ===== verification/Transport.thy ===== *)
theory Transport
  imports Connection Sender
begin

text \<open>
  \<open>Transport\<close> of \<open>crates/morsh-network/src/transport.rs\<close>: both halves of the protocol over a
  connection. The receiving half keeps the states it has received, in order of number, and applies
  each diff to the state the instruction refers to.

  The clock reads of \<open>process_instruction\<close> are \<open>now_q\<close> (the quench timer) and \<open>now\<close> (the timestamp
  of the new state). The awaiting halves \<open>recv\<close> and \<open>recv_raw\<close> only wait for a datagram; what they do
  with it is \<open>process_datagram\<close>.
\<close>

definition RECEIVED_STATES_MAX :: nat where
  "RECEIVED_STATES_MAX = 1024"

definition RECEIVER_QUENCH_MS :: nat where
  "RECEIVER_QUENCH_MS = 15000"

record ('m, 'r) transport =
  tr_connection :: connection
  tr_sender :: "'m sender"
  received_states :: "'r timestamped list"
  receiver_quench_timer :: "instant option"
  last_receiver_state :: 'r

datatype recv_outcome = Incomplete | Ignored | OutOfOrderState u64 | NewState u64

datatype transport_error =
    VersionMismatch "u32 option"
  | StateError string
  | ConnError conn_error

definition transport_new ::
  "'m state_ops \<Rightarrow> 'r state_ops \<Rightarrow> instant \<Rightarrow> instant \<Rightarrow> connection \<Rightarrow> 'm \<Rightarrow> 'r \<Rightarrow> ('m, 'r) transport" where
  "transport_new mops rops now1 now2 c initial_state initial_remote =
     \<lparr>tr_connection = c,
      tr_sender = sender_new mops now1 initial_state,
      received_states =
        [\<lparr>timestamp = now2, ts_num = 0, ts_state = state_clone rops initial_remote\<rparr>],
      receiver_quench_timer = None,
      last_receiver_state = initial_remote\<rparr>"

definition transport_wait_time_ms ::
  "'m state_ops \<Rightarrow> ('m, 'r) transport \<Rightarrow> instant \<Rightarrow> nat option \<times> ('m, 'r) transport" where
  "transport_wait_time_ms mops T now =
     (let c = tr_connection T;
          (w, S) = sender_wait_time_ms mops (tr_sender T) now (conn_timeout c)
                     (srtt_ms (conn_rtt c)) (has_remote_addr c)
      in (w, T\<lparr>tr_sender := S\<rparr>))"

definition transport_tick ::
  "ocb \<Rightarrow> codec \<Rightarrow> (bytes \<Rightarrow> bool) \<Rightarrow> 'm state_ops \<Rightarrow> ('m, 'r) transport \<Rightarrow> nat \<Rightarrow> instant \<Rightarrow> instant \<Rightarrow>
     bytes \<Rightarrow> ((conn_error + unit) \<times> bytes list \<times> ('m, 'r) transport) option" where
  "transport_tick C Z os mops T wall now now_send pad =
     (let c = tr_connection T
      in case sender_tick mops (tr_sender T) now (conn_timeout c) (srtt_ms (conn_rtt c))
                (has_remote_addr c) pad of
           (None, S) \<Rightarrow> Some (Inr (), [], T\<lparr>tr_sender := S\<rparr>)
         | (Some inst, S) \<Rightarrow>
             (case conn_send C Z os wall now_send c inst of
                None \<Rightarrow> None
              | Some (r, wires, c') \<Rightarrow>
                  Some (r, wires, T\<lparr>tr_sender := S, tr_connection := c'\<rparr>)))"

definition process_throwaway_until :: "'r timestamped list \<Rightarrow> u64 \<Rightarrow> 'r timestamped list" where
  "process_throwaway_until rs throwaway =
     (if rs = [] then rs
      else
        (let newest = ts_num (last rs);
             cutoff = min throwaway newest
         in filter (\<lambda>t. ts_num t \<ge> cutoff) rs))"

text \<open>The quench check: whether the state is refused, and the timer afterwards.\<close>

definition quench :: "'r timestamped list \<Rightarrow> instant option \<Rightarrow> instant \<Rightarrow> bool \<times> instant option" where
  "quench rs timer now =
     (if length rs > RECEIVED_STATES_MAX then
        (case timer of
           Some until \<Rightarrow> if now < until then (True, timer)
                         else (False, Some (now + ms RECEIVER_QUENCH_MS))
         | None \<Rightarrow> (False, Some (now + ms RECEIVER_QUENCH_MS)))
      else (False, timer))"

definition file_state :: "'r timestamped list \<Rightarrow> 'r timestamped \<Rightarrow> recv_outcome \<times> 'r timestamped list" where
  "file_state rs t =
     (case position (\<lambda>s. ts_num s > ts_num t) rs of
        Some pos \<Rightarrow> (OutOfOrderState (ts_num t), vec_insert pos t rs)
      | None \<Rightarrow> (NewState (ts_num t), rs @ [t]))"

definition process_instruction ::
  "'r state_ops \<Rightarrow> ('m, 'r) transport \<Rightarrow> instruction \<Rightarrow> instant \<Rightarrow> instant \<Rightarrow>
     (transport_error + recv_outcome) \<times> ('m, 'r) transport" where
  "process_instruction rops T inst now_q now =
     (if protocol_version inst \<noteq> Some MORSH_PROTOCOL_VERSION
      then (Inl (VersionMismatch (protocol_version inst)), T)
      else
        (let new = case_option 0 id (new_num inst);
             old = case_option 0 id (old_num inst);
             ack = case_option 0 id (ack_num inst);
             throwaway = case_option 0 id (throwaway_num inst);
             d = case_option [] id (diff inst);
             S1 = process_acknowledgment_through (tr_sender T) ack;
             T1 = T\<lparr>tr_sender := S1,
                    tr_connection := set_last_roundtrip_success (tr_connection T)
                                       (sent_state_acked_timestamp S1)\<rparr>
         in if \<exists>t\<in>set (received_states T1). ts_num t = new then (Inr Ignored, T1)
            else if \<not> (\<exists>t\<in>set (received_states T1). ts_num t = old) then (Inr Ignored, T1)
            else
              (let rs = process_throwaway_until (received_states T1) throwaway;
                   T2 = T1\<lparr>received_states := rs\<rparr>
               in case position (\<lambda>t. ts_num t = old) rs of
                    None \<Rightarrow> (Inr Ignored, T2)
                  | Some reference_index \<Rightarrow>
                      (case quench rs (receiver_quench_timer T2) now_q of
                         (True, timer) \<Rightarrow> (Inr Ignored, T2)
                       | (False, timer) \<Rightarrow>
                           (let T3 = T2\<lparr>receiver_quench_timer := timer\<rparr>;
                                source = ts_state (rs ! reference_index);
                                (adopted, source') = adopt_from rops (state_clone rops source) source;
                                rs' = rs[reference_index := (rs ! reference_index)\<lparr>ts_state := source'\<rparr>];
                                T4 = T3\<lparr>received_states := rs'\<rparr>
                            in case (if d = [] then Inr adopted else apply_string rops adopted d) of
                                 Inl e \<Rightarrow> (Inl (StateError e), T4)
                               | Inr s \<Rightarrow>
                                   (case file_state rs' \<lparr>timestamp = now, ts_num = new, ts_state = s\<rparr> of
                                      (NewState n, rs'') \<Rightarrow>
                                        (let S2 = set_ack_num S1 (ts_num (last rs''));
                                             S3 = remote_heard S2 now;
                                             S4 = (if d \<noteq> [] then set_data_ack S3 else S3)
                                         in (Inr (NewState n),
                                             T4\<lparr>received_states := rs'', tr_sender := S4\<rparr>))
                                    | (outcome, rs'') \<Rightarrow>
                                        (Inr outcome, T4\<lparr>received_states := rs''\<rparr>)))))))"

definition process_datagram ::
  "ocb \<Rightarrow> codec \<Rightarrow> 'r state_ops \<Rightarrow> ('m, 'r) transport \<Rightarrow> nat \<Rightarrow> instant \<Rightarrow> bytes \<Rightarrow> socket_addr \<Rightarrow>
     (transport_error + recv_outcome) \<times> ('m, 'r) transport" where
  "process_datagram C Z rops T wall now data peer =
     (case process_incoming C Z (tr_connection T) wall now now data peer of
        (Inl e, c) \<Rightarrow> (Inl (ConnError e), T\<lparr>tr_connection := c\<rparr>)
      | (Inr None, c) \<Rightarrow> (Inr Incomplete, T\<lparr>tr_connection := c\<rparr>)
      | (Inr (Some inst), c) \<Rightarrow> process_instruction rops (T\<lparr>tr_connection := c\<rparr>) inst now now)"

definition get_remote_state_num :: "('m, 'r) transport \<Rightarrow> u64" where
  "get_remote_state_num T = ts_num (last (received_states T))"

definition get_latest_remote_state :: "('m, 'r) transport \<Rightarrow> 'r timestamped" where
  "get_latest_remote_state T = last (received_states T)"

definition get_remote_diff :: "'r state_ops \<Rightarrow> ('m, 'r) transport \<Rightarrow> bytes \<times> ('m, 'r) transport" where
  "get_remote_diff rops T =
     (let ret = diff_from rops (ts_state (last (received_states T))) (last_receiver_state T);
          rs = (if has_prefix rops then
                  (let oldest = state_clone rops (ts_state (hd (received_states T)))
                   in map (\<lambda>t. t\<lparr>ts_state := subtract rops (ts_state t) oldest\<rparr>) (received_states T))
                else received_states T)
      in (ret, T\<lparr>received_states := rs,
                 last_receiver_state := state_clone rops (ts_state (last rs))\<rparr>))"

definition transport_start_shutdown :: "('m, 'r) transport \<Rightarrow> instant \<Rightarrow> ('m, 'r) transport" where
  "transport_start_shutdown T now = T\<lparr>tr_sender := sender_start_shutdown (tr_sender T) now\<rparr>"

definition counterparty_shutdown_ack_sent :: "('m, 'r) transport \<Rightarrow> bool" where
  "counterparty_shutdown_ack_sent T \<longleftrightarrow> fragmenter_last_ack_sent (tr_connection T) = SHUTDOWN_NUM"

definition transport_send_interval_ms :: "('m, 'r) transport \<Rightarrow> nat" where
  "transport_send_interval_ms T = as_millis (send_interval (srtt_ms (conn_rtt (tr_connection T))))"

definition transport_hop_port ::
  "('m, 'r) transport \<Rightarrow> socket option \<Rightarrow> instant \<Rightarrow> (conn_error + unit) \<times> ('m, 'r) transport" where
  "transport_hop_port T bound now =
     (case hop_port (tr_connection T) bound now of (r, c) \<Rightarrow> (r, T\<lparr>tr_connection := c\<rparr>))"

end
