(* ===== verification/Sender_Laws.thy ===== *)
theory Sender_Laws
  imports Sender
begin

text \<open>
  What the sender keeps true: the shape of its history of sent states, that the assumed index is in
  range and always names the first or the last entry when an instruction is built, and what one
  tick puts on the wire.
\<close>

section \<open>Histories\<close>

text \<open>
  A history is a list of numbered, timestamped states: never empty, at most \<open>SENT_STATES_MAX\<close> long,
  in order of number and of time. Numbers are strictly increasing except that the sentinel
  \<open>SHUTDOWN_NUM\<close> is sent once per shutdown packet; it appears only after shutdown began.
\<close>

definition num_before :: "'s timestamped \<Rightarrow> 's timestamped \<Rightarrow> bool" where
  "num_before a b \<longleftrightarrow>
     ts_num a < ts_num b \<or> ts_num a = SHUTDOWN_NUM \<and> ts_num b = SHUTDOWN_NUM"

definition hist_inv :: "instant \<Rightarrow> bool \<Rightarrow> 's timestamped list \<Rightarrow> bool" where
  "hist_inv clk sd xs \<longleftrightarrow>
     xs \<noteq> [] \<and> length xs \<le> SENT_STATES_MAX \<and> sorted_wrt num_before xs \<and>
     sorted_wrt (\<lambda>a b. timestamp a \<le> timestamp b) xs \<and>
     (\<forall>t\<in>set xs. timestamp t \<le> clk \<and> (\<not> sd \<longrightarrow> ts_num t \<noteq> SHUTDOWN_NUM))"

definition sender_inv :: "instant \<Rightarrow> 's sender \<Rightarrow> bool" where
  "sender_inv clk S \<longleftrightarrow> hist_inv clk (shutdown_in_progress S) (sent_states S) \<and>
     assumed_receiver_state S < length (sent_states S)"

text \<open>What the timers leave alone: numbers and timestamps of the history.\<close>

definition shape :: "'s timestamped list \<Rightarrow> (instant \<times> u64) list" where
  "shape xs = map (\<lambda>t. (timestamp t, ts_num t)) xs"

definition capped_push :: "'s timestamped list \<Rightarrow> 's timestamped \<Rightarrow> 's timestamped list" where
  "capped_push xs t =
     (if length (xs @ [t]) > SENT_STATES_MAX then vec_remove (length (xs @ [t]) - 16) (xs @ [t])
      else xs @ [t])"

definition touch_last :: "instant \<Rightarrow> 's timestamped list \<Rightarrow> 's timestamped list" where
  "touch_last now xs = butlast xs @ [(last xs)\<lparr>timestamp := now\<rparr>]"

lemma num_le_MAX: "(x :: u64) \<le> SHUTDOWN_NUM"
  by (simp add: SHUTDOWN_NUM_def)

lemma num_before_le: "num_before a b \<Longrightarrow> ts_num a \<le> ts_num b"
  by (auto simp: num_before_def)

lemma sorted_wrt_snoc: "sorted_wrt P (xs @ [x]) \<longleftrightarrow> sorted_wrt P xs \<and> (\<forall>y\<in>set xs. P y x)"
  by (auto simp: sorted_wrt_append)

lemma hist_last:
  assumes "hist_inv clk sd xs"
  shows "sorted_wrt num_before (butlast xs)" "\<forall>t\<in>set (butlast xs). num_before t (last xs)"
    "sorted_wrt (\<lambda>a b. timestamp a \<le> timestamp b) (butlast xs)"
proof -
  have "xs = butlast xs @ [last xs]" using assms by (simp add: hist_inv_def)
  then show "sorted_wrt num_before (butlast xs)" "\<forall>t\<in>set (butlast xs). num_before t (last xs)"
    "sorted_wrt (\<lambda>a b. timestamp a \<le> timestamp b) (butlast xs)"
    using assms unfolding hist_inv_def by (metis sorted_wrt_snoc)+
qed

lemma hist_num_le_last:
  assumes "hist_inv clk sd xs" and "t \<in> set xs"
  shows "ts_num t \<le> ts_num (last xs)"
proof -
  have "xs = butlast xs @ [last xs]" using assms by (simp add: hist_inv_def)
  then have "t \<in> set (butlast xs) \<or> t = last xs"
    using assms(2) by (metis Un_iff empty_iff empty_set insert_iff list.set(2) set_append)
  then show ?thesis using hist_last(2) [OF assms(1)] num_before_le by blast
qed

lemma hist_hd_num_le:
  assumes "hist_inv clk sd xs" and "t \<in> set xs"
  shows "ts_num (hd xs) \<le> ts_num t"
  using assms by (cases xs) (auto simp: hist_inv_def dest: num_before_le)

lemma hist_inv_shape: "shape xs = shape ys \<Longrightarrow> hist_inv clk sd xs \<Longrightarrow> hist_inv clk sd ys"
proof -
  assume sh: "shape xs = shape ys" and inv: "hist_inv clk sd xs"
  have len: "length xs = length ys" using sh by (metis length_map shape_def)
  have eq: "timestamp (xs ! i) = timestamp (ys ! i) \<and> ts_num (xs ! i) = ts_num (ys ! i)"
    if "i < length ys" for i
    using sh len that by (metis (no_types, lifting) nth_map prod.inject shape_def)
  have "num_before (ys ! i) (ys ! j)" if "i < j" "j < length ys" for i j
  proof -
    have "num_before (xs ! i) (xs ! j)"
      using inv that len by (simp add: hist_inv_def sorted_wrt_iff_nth_less)
    then show ?thesis using eq that by (simp add: num_before_def)
  qed
  moreover have "timestamp (ys ! i) \<le> timestamp (ys ! j)" if "i < j" "j < length ys" for i j
    using inv that len eq by (simp add: hist_inv_def sorted_wrt_iff_nth_less)
  moreover have "timestamp (ys ! i) \<le> clk \<and> (\<not> sd \<longrightarrow> ts_num (ys ! i) \<noteq> SHUTDOWN_NUM)"
    if "i < length ys" for i
    using inv that len eq [OF that] by (metis (no_types, lifting) hist_inv_def nth_mem)
  ultimately show ?thesis
    using inv len by (auto simp: hist_inv_def sorted_wrt_iff_nth_less in_set_conv_nth)
qed

lemma hist_inv_later: "hist_inv clk sd xs \<Longrightarrow> clk \<le> clk' \<Longrightarrow> (sd \<longrightarrow> sd') \<Longrightarrow> hist_inv clk' sd' xs"
  by (fastforce simp: hist_inv_def)

subsection \<open>Pushing, touching and culling\<close>

lemma capped_push_last [simp]: "last (capped_push xs t) = t"
  by (auto simp: capped_push_def vec_remove_def SENT_STATES_MAX_def last_append)

lemma capped_push_hd [simp]: "xs \<noteq> [] \<Longrightarrow> hd (capped_push xs t) = hd xs"
  by (cases xs) (auto simp: capped_push_def vec_remove_def SENT_STATES_MAX_def take_Cons')

lemma capped_push_set: "set (capped_push xs t) \<subseteq> insert t (set xs)"
  using set_vec_remove [of "length (xs @ [t]) - 16" "xs @ [t]"]
  by (auto simp: capped_push_def)

lemma capped_push_ne [simp]: "capped_push xs t \<noteq> []"
  by (auto simp: capped_push_def vec_remove_def SENT_STATES_MAX_def)

lemma capped_push_last_in: "t \<in> set (capped_push xs t)"
  using last_in_set [OF capped_push_ne [of xs t]] by simp

lemma capped_push_length: "length xs \<le> SENT_STATES_MAX \<Longrightarrow> length (capped_push xs t) \<le> SENT_STATES_MAX"
  by (auto simp: capped_push_def SENT_STATES_MAX_def)

lemma capped_push_sorted:
  "sorted_wrt P xs \<Longrightarrow> (\<forall>y\<in>set xs. P y t) \<Longrightarrow> sorted_wrt P (capped_push xs t)"
  by (auto simp: capped_push_def sorted_wrt_snoc intro!: sorted_wrt_vec_remove)

lemma hist_inv_push:
  assumes "hist_inv clk sd xs" and "clk \<le> timestamp t" and "timestamp t \<le> clk'"
    and "\<forall>y\<in>set xs. num_before y t" and "\<not> sd \<longrightarrow> ts_num t \<noteq> SHUTDOWN_NUM"
  shows "hist_inv clk' sd (capped_push xs t)"
proof -
  have "sorted_wrt (\<lambda>a b. timestamp a \<le> timestamp b) (capped_push xs t)"
    using assms by (intro capped_push_sorted) (auto simp: hist_inv_def intro: order_trans)
  with assms capped_push_set [of xs t] show ?thesis
    by (fastforce simp: hist_inv_def capped_push_sorted capped_push_length)
qed

lemma touch_last_simps [simp]:
  "last (touch_last now xs) = (last xs)\<lparr>timestamp := now\<rparr>" "touch_last now xs \<noteq> []"
  "xs \<noteq> [] \<Longrightarrow> length (touch_last now xs) = length xs"
  by (simp_all add: touch_last_def)

lemma touch_last_hd [simp]: "xs \<noteq> [] \<Longrightarrow> ts_num (hd (touch_last now xs)) = ts_num (hd xs)"
  by (cases xs) (auto simp: touch_last_def)

lemma touch_last_nums [simp]: "xs \<noteq> [] \<Longrightarrow> map ts_num (touch_last now xs) = map ts_num xs"
  by (simp add: touch_last_def) (metis append_butlast_last_id map_append list.simps(8,9))

lemma touch_last_states [simp]: "xs \<noteq> [] \<Longrightarrow> map ts_state (touch_last now xs) = map ts_state xs"
  by (simp add: touch_last_def) (metis append_butlast_last_id map_append list.simps(8,9))

lemma hist_inv_touch:
  assumes "hist_inv clk sd xs" and "clk \<le> now"
  shows "hist_inv now sd (touch_last now xs)"
proof -
  have xs: "xs = butlast xs @ [last xs]" using assms by (simp add: hist_inv_def)
  then have last: "last xs \<in> set xs" by (metis last_in_set append_is_Nil_conv list.distinct(1))
  have "timestamp t \<le> now" if "t \<in> set (butlast xs)" for t
    using assms in_set_butlastD [OF that] by (auto simp: hist_inv_def intro: order_trans)
  moreover have "\<not> sd \<longrightarrow> ts_num t \<noteq> SHUTDOWN_NUM" if "t \<in> set (butlast xs)" for t
    using assms in_set_butlastD [OF that] by (auto simp: hist_inv_def)
  moreover have "\<not> sd \<longrightarrow> ts_num (last xs) \<noteq> SHUTDOWN_NUM"
    using assms last by (auto simp: hist_inv_def)
  ultimately show ?thesis
    using hist_last [OF assms(1)] assms
    by (auto simp: hist_inv_def touch_last_def sorted_wrt_snoc num_before_def)
qed

lemma hist_inv_filter:
  assumes "hist_inv clk sd xs" and "t \<in> set xs" and "P t"
  shows "hist_inv clk sd (filter P xs)"
proof -
  have "filter P xs \<noteq> []" using assms(2,3) by (auto simp: filter_empty_conv)
  moreover have "length (filter P xs) \<le> SENT_STATES_MAX"
    using assms(1) length_filter_le [of P xs] unfolding hist_inv_def by linarith
  ultimately show ?thesis
    using assms(1) by (auto simp: hist_inv_def sorted_wrt_filter)
qed

section \<open>The assumed index\<close>

lemma assumed_loop_recent:
  "\<forall>t\<in>set ts. now - timestamp t < h \<Longrightarrow>
    assumed_loop now h ts i a = (if ts = [] then a else i + length ts - 1)"
proof (induction ts arbitrary: i a)
  case Nil
  then show ?case by simp
next
  case (Cons t ts)
  then show ?case by (cases ts) auto
qed

text \<open>
  Timestamps grow along the history, so the walk of \<open>update_assumed_receiver_state\<close> never stops in
  the middle: it assumes either everything sent or only what was acknowledged.
\<close>

lemma assumed_first_or_last:
  assumes "hist_inv clk sd xs"
  shows "assumed_loop now h (tl xs) 1 0 \<in> {0, length xs - 1}"
proof (cases "tl xs")
  case Nil
  then show ?thesis by simp
next
  case (Cons t ts)
  have sorted: "sorted_wrt (\<lambda>a b. timestamp a \<le> timestamp b) (t # ts)"
    using assms Cons by (metis hist_inv_def list.exhaust_sel sorted_wrt.simps(2) list.sel(3))
  show ?thesis
  proof (cases "now - timestamp t < h")
    case True
    then have "\<forall>u\<in>set (t # ts). now - timestamp u < h"
      using sorted by (auto intro: le_less_trans [OF diff_le_mono2])
    then have "assumed_loop now h (t # ts) 1 0 = length ts + 1"
      using assumed_loop_recent [of "t # ts" now h 1 0] by simp
    moreover have "length xs - 1 = length ts + 1" using Cons by (cases xs) auto
    ultimately show ?thesis using Cons by simp
  next
    case False
    then show ?thesis using Cons by simp
  qed
qed

section \<open>Timers\<close>

lemma rationalize_fields [simp]:
  "shape (sent_states (rationalize_states ops S)) = shape (sent_states S)"
  "shutdown_in_progress (rationalize_states ops S) = shutdown_in_progress S"
  "sender_ack_num (rationalize_states ops S) = sender_ack_num S"
  "assumed_receiver_state (rationalize_states ops S) = assumed_receiver_state S"
  by (simp_all add: rationalize_states_def Let_def shape_def comp_def)

lemma update_assumed_rationalize:
  "sent_states (rationalize_states ops (update_assumed_receiver_state S now timeout)) =
     sent_states (rationalize_states ops S)"
  "current_state (rationalize_states ops (update_assumed_receiver_state S now timeout)) =
     current_state (rationalize_states ops S)"
  by (simp_all add: rationalize_states_def update_assumed_receiver_state_def Let_def)

lemma schedule_send_fields [simp]:
  "sent_states (schedule_send ops S now timeout interval) = sent_states S"
  "current_state (schedule_send ops S now timeout interval) = current_state S"
  "assumed_receiver_state (schedule_send ops S now timeout interval) = assumed_receiver_state S"
  "shutdown_in_progress (schedule_send ops S now timeout interval) = shutdown_in_progress S"
  "sender_ack_num (schedule_send ops S now timeout interval) = sender_ack_num S"
  "next_ack_time (schedule_send ops S now timeout interval) = next_ack_time S"
  by (simp_all add: schedule_send_def Let_def)

lemma calculate_timers_fields:
  "sent_states (calculate_timers ops S now timeout srtt) = sent_states (rationalize_states ops S)"
  "current_state (calculate_timers ops S now timeout srtt) = current_state (rationalize_states ops S)"
  "assumed_receiver_state (calculate_timers ops S now timeout srtt) =
     assumed_loop now (timeout + ms ACK_DELAY_MS) (tl (sent_states S)) 1 0"
  "shutdown_in_progress (calculate_timers ops S now timeout srtt) = shutdown_in_progress S"
  "sender_ack_num (calculate_timers ops S now timeout srtt) = sender_ack_num S"
  by (simp_all add: calculate_timers_def Let_def update_assumed_rationalize)
     (simp_all add: update_assumed_receiver_state_def)

lemma shape_length: "shape xs = shape ys \<Longrightarrow> length xs = length ys"
  by (metis length_map shape_def)

lemma shape_hd_num: "shape xs = shape ys \<Longrightarrow> xs \<noteq> [] \<Longrightarrow> ts_num (hd xs) = ts_num (hd ys)"
  by (cases xs; cases ys) (auto simp: shape_def)

lemma shape_last_num: "shape xs = shape ys \<Longrightarrow> xs \<noteq> [] \<Longrightarrow> ts_num (last xs) = ts_num (last ys)"
  by (metis (no_types, lifting) shape_def last_map list.map_disc_iff prod.inject)

lemma calculate_timers_hist:
  "hist_inv clk sd (sent_states S) \<Longrightarrow>
    hist_inv clk sd (sent_states (calculate_timers ops S now timeout srtt))"
  by (rule hist_inv_shape [of "sent_states S"]) (simp_all add: calculate_timers_fields)

lemma calculate_timers_assumed:
  assumes "hist_inv clk sd (sent_states S)"
  shows "assumed_receiver_state (calculate_timers ops S now timeout srtt) \<in>
    {0, length (sent_states (calculate_timers ops S now timeout srtt)) - 1}"
  using assumed_first_or_last [OF assms]
    shape_length [OF rationalize_fields(1), of ops S] by (simp add: calculate_timers_fields)

lemma calculate_timers_inv:
  assumes "sender_inv clk S"
  shows "sender_inv clk (calculate_timers ops S now timeout srtt)"
proof -
  have h: "hist_inv clk (shutdown_in_progress S) (sent_states S)"
    using assms by (simp add: sender_inv_def)
  have "hist_inv clk (shutdown_in_progress S) (sent_states (calculate_timers ops S now timeout srtt))"
    by (rule calculate_timers_hist [OF h])
  moreover from this have "0 < length (sent_states (calculate_timers ops S now timeout srtt))"
    by (simp add: hist_inv_def)
  ultimately show ?thesis
    using calculate_timers_assumed [OF h, of ops now timeout srtt]
    by (auto simp: sender_inv_def calculate_timers_fields(4))
qed

text \<open>A change that was noticed at \<open>c\<close> goes out when the collection delay and the send interval are over.\<close>

lemma timers_next_send:
  assumes "sent_states S \<noteq> []" and "mindelay_clock S = Some c"
    and "\<not> state_equal ops (current_state (calculate_timers ops S now timeout srtt))
        (ts_state (last (sent_states (calculate_timers ops S now timeout srtt))))"
  shows "next_send_time (calculate_timers ops S now timeout srtt) =
    Some (max (c + send_mindelay S) (timestamp (last (sent_states S)) + send_interval srtt))"
proof -
  let ?R = "rationalize_states ops (update_assumed_receiver_state S now timeout)"
  have r: "mindelay_clock ?R = Some c" "send_mindelay ?R = send_mindelay S"
    "timestamp (last (sent_states ?R)) = timestamp (last (sent_states S))"
    using assms(1,2) by (simp_all add: rationalize_states_def update_assumed_receiver_state_def Let_def last_map)
  have "\<not> state_equal ops (current_state ?R) (ts_state (last (sent_states ?R)))"
    using assms(3) by (simp add: calculate_timers_fields update_assumed_rationalize)
  then show ?thesis
    using r by (simp add: calculate_timers_def schedule_send_def Let_def)
qed

section \<open>One tick\<close>

lemma add_sent_state_fields [simp]:
  "sent_states (add_sent_state S now n s) =
     capped_push (sent_states S) \<lparr>timestamp = now, ts_num = n, ts_state = s\<rparr>"
  "current_state (add_sent_state S now n s) = current_state S"
  "shutdown_in_progress (add_sent_state S now n s) = shutdown_in_progress S"
  "sender_ack_num (add_sent_state S now n s) = sender_ack_num S"
  by (simp_all add: add_sent_state_def capped_push_def Let_def)

text \<open>
  Dropping a state from the middle moves the entries behind it, and \<open>add_sent_state\<close> moves the
  assumed index with them. When the assumed entry is the first or the last, the index names the
  same state as before.
\<close>

lemma add_sent_state_assumed:
  assumes "length (sent_states S) \<le> SENT_STATES_MAX" and "sent_states S \<noteq> []"
    and "assumed_receiver_state S \<in> {0, length (sent_states S) - 1}"
  shows "sent_states (add_sent_state S now n s) ! assumed_receiver_state (add_sent_state S now n s) =
           sent_states S ! assumed_receiver_state S"
    and "assumed_receiver_state (add_sent_state S now n s) < length (sent_states (add_sent_state S now n s))"
  using assms
  by (auto simp: add_sent_state_def capped_push_def Let_def SENT_STATES_MAX_def vec_remove_nth
      nth_append)

lemma prospective_fields:
  assumes "attempt_prospective_resend_optimization ops S
      (diff_from ops (current_state S) (ts_state (sent_states S ! assumed_receiver_state S))) = (d, S')"
    and "sent_states S \<noteq> []"
  shows "S' = S\<lparr>assumed_receiver_state := assumed_receiver_state S'\<rparr>"
    and "assumed_receiver_state S' \<in> {0, assumed_receiver_state S}"
    and "d = diff_from ops (current_state S) (ts_state (sent_states S ! assumed_receiver_state S'))"
  using assms by (auto simp: attempt_prospective_resend_optimization_def Let_def hd_conv_nth
      split: if_splits)

text \<open>
  What one packet does to the sender: the history after the tick (\<open>emit_hist\<close>) and the instruction
  (\<open>emit_inst\<close>), in terms of the history the timers left.
\<close>

definition emit_num :: "'s state_ops \<Rightarrow> 's sender \<Rightarrow> bytes \<Rightarrow> u64" where
  "emit_num ops S d =
     (if shutdown_in_progress S then SHUTDOWN_NUM
      else if d \<noteq> [] \<and> state_equal ops (current_state S) (ts_state (last (sent_states S)))
      then sent_state_last S else sent_state_last S + 1)"

definition emit_hist :: "'s state_ops \<Rightarrow> 's sender \<Rightarrow> bytes \<Rightarrow> instant \<Rightarrow> 's timestamped list" where
  "emit_hist ops S d now =
     (if d \<noteq> [] \<and> emit_num ops S d = sent_state_last S then touch_last now (sent_states S)
      else capped_push (sent_states S)
             \<lparr>timestamp = now, ts_num = emit_num ops S d, ts_state = state_clone ops (current_state S)\<rparr>)"

definition emit_inst :: "'s state_ops \<Rightarrow> 's sender \<Rightarrow> 's timestamped \<Rightarrow> bytes \<Rightarrow> bytes \<Rightarrow> instruction" where
  "emit_inst ops S t d pad =
     \<lparr>protocol_version = Some MORSH_PROTOCOL_VERSION, old_num = Some (ts_num t),
      new_num = Some (emit_num ops S d), ack_num = Some (sender_ack_num S),
      throwaway_num = Some (ts_num (hd (sent_states S))), diff = Some d, chaff = Some pad\<rparr>"

lemma last_plus_one_ne: "(x :: u64) + 1 \<noteq> x"
  by simp

lemma send_empty_ack_emit:
  assumes "send_empty_ack ops S now pad = (inst, S')"
    and "length (sent_states S) \<le> SENT_STATES_MAX" and "sent_states S \<noteq> []"
    and "assumed_receiver_state S \<in> {0, length (sent_states S) - 1}"
  shows "inst = emit_inst ops S (sent_states S ! assumed_receiver_state S) [] pad"
    and "sent_states S' = emit_hist ops S [] now" and "current_state S' = current_state S"
    and "shutdown_in_progress S' = shutdown_in_progress S" and "sender_ack_num S' = sender_ack_num S"
    and "assumed_receiver_state S' < length (sent_states S')"
  using assms(1,3) add_sent_state_assumed [OF assms(2-4)]
  by (auto simp: send_empty_ack_def build_instruction_def Let_def emit_inst_def emit_hist_def emit_num_def)

lemma send_to_receiver_emit:
  assumes "send_to_receiver ops S d now pad = (inst, S')" and "d \<noteq> []"
    and "length (sent_states S) \<le> SENT_STATES_MAX" and "sent_states S \<noteq> []"
    and "assumed_receiver_state S \<in> {0, length (sent_states S) - 1}"
  shows "inst = emit_inst ops S (sent_states S ! assumed_receiver_state S) d pad"
    and "sent_states S' = emit_hist ops S d now" and "current_state S' = current_state S"
    and "shutdown_in_progress S' = shutdown_in_progress S" and "sender_ack_num S' = sender_ack_num S"
    and "assumed_receiver_state S' < length (sent_states S')"
proof -
  let ?n = "emit_num ops S d"
  let ?S1 = "if ?n = sent_state_last S then S\<lparr>sent_states := touch_last now (sent_states S)\<rparr>
     else add_sent_state S now ?n (state_clone ops (current_state S))"
  have eq: "send_to_receiver ops S d now pad =
     (let (inst, S2) = build_instruction ?S1 d ?n pad
      in (inst, S2\<lparr>assumed_receiver_state := length (sent_states S2) - 1,
                  next_ack_time := now + ms ACK_INTERVAL_MS, next_send_time := None\<rparr>))"
    using assms(2) by (simp add: send_to_receiver_def emit_num_def touch_last_def Let_def)
  have tn: "ts_num (touch_last now (sent_states S) ! i) = ts_num (sent_states S ! i)"
    if "i < length (sent_states S)" for i
    using touch_last_nums [OF assms(4), of now] that by (metis length_map nth_map)
  have lt: "assumed_receiver_state S < length (sent_states S)" using assms(4,5) by auto
  show "inst = emit_inst ops S (sent_states S ! assumed_receiver_state S) d pad"
    "sent_states S' = emit_hist ops S d now" "current_state S' = current_state S"
    "shutdown_in_progress S' = shutdown_in_progress S" "sender_ack_num S' = sender_ack_num S"
    "assumed_receiver_state S' < length (sent_states S')"
    using assms(1,2,4) eq tn [OF lt] add_sent_state_assumed [OF assms(3-5)]
    by (auto simp: build_instruction_def emit_inst_def emit_hist_def Let_def split: if_splits)
qed

lemma emit_assumed_irrelevant:
  "emit_num ops (S\<lparr>assumed_receiver_state := i\<rparr>) d = emit_num ops S d"
  "emit_hist ops (S\<lparr>assumed_receiver_state := i\<rparr>) d now = emit_hist ops S d now"
  "emit_inst ops (S\<lparr>assumed_receiver_state := i\<rparr>) t d pad = emit_inst ops S t d pad"
  by (simp_all add: emit_num_def emit_hist_def emit_inst_def sent_state_last_def)

definition keeps :: "'s sender \<Rightarrow> 's sender \<Rightarrow> bool" where
  "keeps S S' \<longleftrightarrow> current_state S' = current_state S \<and>
     shutdown_in_progress S' = shutdown_in_progress S \<and> sender_ack_num S' = sender_ack_num S \<and>
     assumed_receiver_state S' < length (sent_states S')"

text \<open>
  A tick sends nothing and leaves the history alone, or sends one instruction whose diff is from
  the very state of the history that its \<open>old_num\<close> names.
\<close>

lemma sender_tick_cases:
  assumes tick: "sender_tick ops S now timeout srtt remote pad = (r, S')"
    and inv: "sender_inv clk S"
    and S1: "S1 = calculate_timers ops S now timeout srtt"
  shows "keeps S1 S' \<and>
    (r = None \<and> sent_states S' = sent_states S1 \<or>
     (\<exists>t\<in>set (sent_states S1). let d = diff_from ops (current_state S1) (ts_state t) in
        remote \<and> r = Some (emit_inst ops S1 t d pad) \<and> sent_states S' = emit_hist ops S1 d now))"
proof -
  have inv1: "sender_inv clk S1" unfolding S1 by (rule calculate_timers_inv [OF inv])
  then have len: "length (sent_states S1) \<le> SENT_STATES_MAX" and ne: "sent_states S1 \<noteq> []"
    and lt: "assumed_receiver_state S1 < length (sent_states S1)"
    by (simp_all add: sender_inv_def hist_inv_def)
  have fl: "assumed_receiver_state S1 \<in> {0, length (sent_states S1) - 1}"
    unfolding S1 using inv by (intro calculate_timers_assumed [of clk "shutdown_in_progress S"])
      (simp add: sender_inv_def)
  obtain d S2 where pr: "attempt_prospective_resend_optimization ops S1
     (diff_from ops (current_state S1) (ts_state (sent_states S1 ! assumed_receiver_state S1))) = (d, S2)"
    by fastforce
  note S2 = prospective_fields [OF pr ne]
  let ?i = "assumed_receiver_state S2"
  have i: "?i \<in> {0, length (sent_states S1) - 1}" "?i < length (sent_states S1)"
    using S2(2) fl lt ne by auto
  have same: "sent_states S2 = sent_states S1" "current_state S2 = current_state S1"
    "shutdown_in_progress S2 = shutdown_in_progress S1" "sender_ack_num S2 = sender_ack_num S1"
    by (subst S2(1), simp)+
  have em: "emit_num ops S2 d' = emit_num ops S1 d'" "emit_hist ops S2 d' now = emit_hist ops S1 d' now"
    "emit_inst ops S2 t d' pad = emit_inst ops S1 t d' pad" for d' t
    by (subst S2(1), simp add: emit_assumed_irrelevant)+
  let ?t = "sent_states S1 ! ?i"
  have t: "?t \<in> set (sent_states S1)" using i(2) by simp
  obtain inst1 S3 where ea: "send_empty_ack ops S2 now pad = (inst1, S3)" by fastforce
  obtain inst2 S4 where sr: "send_to_receiver ops S2 d now pad = (inst2, S4)" by fastforce
  note ea' = send_empty_ack_emit [OF ea, unfolded same em, OF len ne i(1)]
  note sr' = send_to_receiver_emit [OF sr, unfolded same em, OF _ len ne i(1)]
  show ?thesis
  proof (cases "r")
    case None
    with tick S2(1) same lt i(2) show ?thesis
      unfolding S1 [symmetric] sender_tick_def Let_def pr prod.case ea sr
      by (auto simp: keeps_def split: if_splits)
  next
    case (Some inst)
    then have rm: "remote" and out: "(d = [] \<and> inst = inst1 \<and> keeps S3 S' \<and> sent_states S' = sent_states S3) \<or>
       (d \<noteq> [] \<and> inst = inst2 \<and> keeps S4 S' \<and> sent_states S' = sent_states S4)"
      using tick ea'(6) sr'(6) unfolding S1 [symmetric] sender_tick_def Let_def pr prod.case ea sr
      by (auto simp: keeps_def split: if_splits)
    from out show ?thesis
    proof (elim disjE conjE)
      assume "d = []" "inst = inst1" "keeps S3 S'" "sent_states S' = sent_states S3"
      with Some rm t ea' S2(3) show ?thesis
        by (auto simp: keeps_def Let_def intro!: bexI [of _ ?t])
    next
      assume "d \<noteq> []" "inst = inst2" "keeps S4 S'" "sent_states S' = sent_states S4"
      with Some rm t sr' S2(3) show ?thesis
        by (auto simp: keeps_def Let_def intro!: bexI [of _ ?t])
    qed
  qed
qed

text \<open>The numbers of a run stay below the sentinel: \<open>2 ^ 64 - 2\<close> states can be sent.\<close>

definition num_room :: "'s sender \<Rightarrow> bool" where
  "num_room S \<longleftrightarrow> shutdown_in_progress S \<or> sent_state_last S < SHUTDOWN_NUM - 1"

lemma room_succ:
  assumes "(x :: u64) < SHUTDOWN_NUM - 1"
  shows "x < x + 1" and "x + 1 \<noteq> SHUTDOWN_NUM"
proof -
  have "unat x < unat (SHUTDOWN_NUM - 1)" using assms by (simp add: word_less_nat_alt)
  also have "unat (SHUTDOWN_NUM - 1) = 2 ^ 64 - 2" by (simp add: SHUTDOWN_NUM_def)
  finally have "unat (x + 1) = unat x + 1" and lt: "unat x + 1 < 2 ^ 64 - 1"
    by (simp_all add: unat_word_ariths)
  then have "unat (x + 1) < unat SHUTDOWN_NUM"
    by (simp add: SHUTDOWN_NUM_def unsigned_minus_1_eq_mask mask_eq_exp_minus_1)
  then show "x + 1 \<noteq> SHUTDOWN_NUM" by auto
  show "x < x + 1" using \<open>unat (x + 1) = unat x + 1\<close> by (simp add: word_less_nat_alt)
qed

lemma emit_hist_inv:
  assumes "sender_inv clk S" and "clk \<le> now" and "num_room S"
  shows "hist_inv now (shutdown_in_progress S) (emit_hist ops S d now)"
proof (cases "d \<noteq> [] \<and> emit_num ops S d = sent_state_last S")
  case True
  with assms show ?thesis
    by (simp add: emit_hist_def sender_inv_def hist_inv_touch [of clk])
next
  case False
  let ?t = "\<lparr>timestamp = now, ts_num = emit_num ops S d, ts_state = state_clone ops (current_state S)\<rparr>"
  have h: "hist_inv clk (shutdown_in_progress S) (sent_states S)"
    using assms(1) by (simp add: sender_inv_def)
  have "num_before y ?t" if y: "y \<in> set (sent_states S)" for y
  proof (cases "shutdown_in_progress S")
    case True
    then show ?thesis using num_le_MAX [of "ts_num y"] by (auto simp: num_before_def emit_num_def)
  next
    case running: False
    then have "emit_num ops S d = sent_state_last S + 1" using False by (auto simp: emit_num_def)
    moreover have "ts_num y \<le> sent_state_last S"
      using hist_num_le_last [OF h y] by (simp add: sent_state_last_def)
    moreover have "sent_state_last S < sent_state_last S + 1"
      using running assms(3) room_succ(1) by (simp add: num_room_def)
    ultimately show ?thesis by (auto simp: num_before_def intro: le_less_trans)
  qed
  moreover have "\<not> shutdown_in_progress S \<longrightarrow> emit_num ops S d \<noteq> SHUTDOWN_NUM"
    using False assms(3) room_succ(2) by (auto simp: emit_num_def num_room_def)
  ultimately have "hist_inv now (shutdown_in_progress S) (capped_push (sent_states S) ?t)"
    using h assms(2) by (intro hist_inv_push) auto
  moreover have "emit_hist ops S d now = capped_push (sent_states S) ?t"
    using False by (auto simp: emit_hist_def)
  ultimately show ?thesis by simp
qed

lemma calculate_timers_room: "sender_inv clk S \<Longrightarrow> num_room S \<Longrightarrow>
   num_room (calculate_timers ops S now timeout srtt)"
  using shape_last_num [OF rationalize_fields(1), of ops S] shape_length [OF rationalize_fields(1), of ops S]
  by (force simp: num_room_def sent_state_last_def calculate_timers_fields sender_inv_def hist_inv_def)

lemma sender_tick_inv:
  assumes tick: "sender_tick ops S now timeout srtt remote pad = (r, S')"
    and inv: "sender_inv clk S" and "clk \<le> now" and "num_room S"
  shows "sender_inv now S'"
proof -
  let ?S1 = "calculate_timers ops S now timeout srtt"
  have inv1: "sender_inv clk ?S1" by (rule calculate_timers_inv [OF inv])
  have later: "hist_inv now (shutdown_in_progress ?S1) (sent_states ?S1)"
    using inv1 by (intro hist_inv_later [OF _ assms(3)]) (auto simp: sender_inv_def)
  have k: "keeps ?S1 S'" and "sent_states S' = sent_states ?S1 \<or> (\<exists>d. sent_states S' = emit_hist ops ?S1 d now)"
    using sender_tick_cases [OF tick inv refl] by (auto simp: Let_def)
  then show ?thesis
    using later emit_hist_inv [OF inv1 assms(3) calculate_timers_room [OF inv assms(4)]]
    by (auto simp: sender_inv_def keeps_def)
qed

section \<open>Acknowledgements\<close>

lemma process_ack_fields [simp]:
  "current_state (process_acknowledgment_through S a) = current_state S"
  "shutdown_in_progress (process_acknowledgment_through S a) = shutdown_in_progress S"
  "sender_ack_num (process_acknowledgment_through S a) = sender_ack_num S"
  by (simp_all add: process_acknowledgment_through_def Let_def)

lemma process_ack_states:
  "sent_states (process_acknowledgment_through S a) =
     (if \<exists>t\<in>set (sent_states S). ts_num t = a then filter (\<lambda>t. ts_num t \<ge> a) (sent_states S)
      else sent_states S)"
  by (simp add: process_acknowledgment_through_def Let_def)

lemma process_ack_inv:
  assumes "sender_inv clk S"
  shows "sender_inv clk (process_acknowledgment_through S a)"
proof (cases "\<exists>t\<in>set (sent_states S). ts_num t = a")
  case False
  then have "process_acknowledgment_through S a = S"
    by (simp add: process_acknowledgment_through_def)
  with assms show ?thesis by simp
next
  case True
  then obtain t where t: "t \<in> set (sent_states S)" "ts_num t \<ge> a" by auto
  let ?kept = "filter (\<lambda>t. ts_num t \<ge> a) (sent_states S)"
  have "hist_inv clk (shutdown_in_progress S) ?kept"
    using assms t by (intro hist_inv_filter) (auto simp: sender_inv_def)
  moreover from this have "0 < length ?kept" by (simp add: hist_inv_def)
  ultimately show ?thesis
    using True by (auto simp: sender_inv_def process_acknowledgment_through_def Let_def
        split: option.splits dest: position_SomeD)
qed

text \<open>An acknowledgement the history knows becomes its first entry.\<close>

lemma process_ack_hd:
  assumes "sender_inv clk S" and "\<exists>t\<in>set (sent_states S). ts_num t = a"
  shows "ts_num (hd (sent_states (process_acknowledgment_through S a))) = a"
proof -
  let ?kept = "filter (\<lambda>t. ts_num t \<ge> a) (sent_states S)"
  obtain t where t: "t \<in> set (sent_states S)" "ts_num t = a" using assms(2) by auto
  have h: "hist_inv clk (shutdown_in_progress S) ?kept"
    using assms(1) t by (intro hist_inv_filter [of _ _ _ t]) (auto simp: sender_inv_def)
  then have "ts_num (hd ?kept) \<le> a" using hist_hd_num_le [OF h, of t] t by simp
  moreover have "hd ?kept \<in> set ?kept" using h by (intro hd_in_set) (simp add: hist_inv_def)
  ultimately show ?thesis using assms(2) by (simp add: process_ack_states)
qed

lemma process_ack_hd_mono:
  assumes "sender_inv clk S"
  shows "ts_num (hd (sent_states S)) \<le> ts_num (hd (sent_states (process_acknowledgment_through S a)))"
proof (cases "\<exists>t\<in>set (sent_states S). ts_num t = a")
  case True
  then show ?thesis
    using process_ack_hd [OF assms True] hist_hd_num_le assms by (fastforce simp: sender_inv_def)
qed (simp add: process_acknowledgment_through_def)

section \<open>The sender as a machine\<close>

text \<open>
  Everything a caller can do to a sender, with the clock beside it. The guards are the ones the
  callers respect: time does not run backwards, and the numbers have room below the sentinel.
\<close>

datatype 's sender_event =
    SetCurrent 's
  | SetAck u64
  | SetDataAck
  | Heard instant
  | StartShutdown instant
  | Wait instant duration nat bool
  | Tick instant duration nat bool bytes
  | AckThrough u64

inductive sender_step ::
  "'s state_ops \<Rightarrow> instant \<times> 's sender \<Rightarrow> 's sender_event \<Rightarrow> instant \<times> 's sender \<Rightarrow> bool"
  for ops where
  "sender_step ops (clk, S) (SetCurrent s) (clk, set_current_state S s)"
| "sender_step ops (clk, S) (SetAck n) (clk, set_ack_num S n)"
| "sender_step ops (clk, S) SetDataAck (clk, set_data_ack S)"
| "sender_step ops (clk, S) (Heard t) (clk, remote_heard S t)"
| "clk \<le> now \<Longrightarrow> sender_step ops (clk, S) (StartShutdown now) (now, sender_start_shutdown S now)"
| "clk \<le> now \<Longrightarrow> sender_step ops (clk, S) (Wait now timeout srtt remote)
     (now, snd (sender_wait_time_ms ops S now timeout srtt remote))"
| "clk \<le> now \<Longrightarrow> num_room S \<Longrightarrow> sender_step ops (clk, S) (Tick now timeout srtt remote pad)
     (now, snd (sender_tick ops S now timeout srtt remote pad))"
| "sender_step ops (clk, S) (AckThrough a) (clk, process_acknowledgment_through S a)"

definition sender_init :: "'s state_ops \<Rightarrow> instant \<times> 's sender \<Rightarrow> bool" where
  "sender_init ops = (\<lambda>(clk, S). \<exists>s. S = sender_new ops clk s)"

definition sender_ok :: "instant \<times> 's sender \<Rightarrow> bool" where
  "sender_ok = (\<lambda>(clk, S). sender_inv clk S)"

lemma sender_new_inv: "sender_inv now (sender_new ops now s)"
  by (simp add: sender_new_def sender_inv_def hist_inv_def SENT_STATES_MAX_def SHUTDOWN_NUM_def)

lemma sender_inv_later: "sender_inv clk S \<Longrightarrow> clk \<le> clk' \<Longrightarrow> sender_inv clk' S"
  using hist_inv_later by (fastforce simp: sender_inv_def)

lemma wait_time_state: "snd (sender_wait_time_ms ops S now timeout srtt remote) =
    calculate_timers ops S now timeout srtt"
  by (simp add: sender_wait_time_ms_def Let_def)

lemma sender_step_ok: "sender_ok cS \<Longrightarrow> sender_step ops cS e cS' \<Longrightarrow> sender_ok cS'"
proof (erule sender_step.cases, goal_cases)
  case (5 clk now S)
  have "sender_inv now S" using 5 sender_inv_later by (auto simp: sender_ok_def)
  then have "hist_inv now True (sent_states S)"
    by (auto simp: sender_inv_def intro: hist_inv_later)
  with 5 \<open>sender_inv now S\<close> show ?case
    by (auto simp: sender_ok_def sender_inv_def sender_start_shutdown_def)
next
  case (6 clk now S timeout srtt remote)
  then show ?case
    using calculate_timers_inv sender_inv_later by (fastforce simp: sender_ok_def wait_time_state)
next
  case (7 clk now S timeout srtt remote pad)
  then show ?case
    using sender_tick_inv [of ops S now timeout srtt remote pad _ _ clk]
    by (auto simp: sender_ok_def) (metis prod.collapse)
next
  case (8 clk S a)
  then show ?case using process_ack_inv by (auto simp: sender_ok_def)
qed (auto simp: sender_ok_def sender_inv_def set_current_state_def set_ack_num_def set_data_ack_def
    remote_heard_def)

interpretation sender: machine "sender_init ops" "sender_step ops" sender_ok for ops
proof unfold_locales
  show "sender_ok cS" if "sender_init ops cS" for cS
    using that by (auto simp: sender_init_def sender_ok_def sender_new_inv)
  show "sender_ok cS'" if "sender_ok cS" and "sender_step ops cS e cS'" for cS e cS'
    using that by (rule sender_step_ok)
qed

end
