(* ===== verification/Transport_Laws.thy ===== *)
theory Transport_Laws
  imports Transport Sender_Laws
begin

text \<open>
  What the receiving half of \<open>Transport\<close> keeps true. The received states are never empty and
  strictly increasing in number; one instruction either changes nothing but the culling it asks for,
  or files exactly one new state.
\<close>

section \<open>Received histories\<close>

definition nums :: "'s timestamped list \<Rightarrow> u64 set" where
  "nums xs = ts_num ` set xs"

definition rx_inv :: "'s timestamped list \<Rightarrow> bool" where
  "rx_inv rs \<longleftrightarrow> rs \<noteq> [] \<and> sorted_wrt (<) (map ts_num rs)"

lemma nums_memI [intro]: "t \<in> set xs \<Longrightarrow> ts_num t \<in> nums xs"
  by (simp add: nums_def)

lemma nums_iff: "n \<in> nums xs \<longleftrightarrow> (\<exists>t\<in>set xs. ts_num t = n)"
  by (auto simp: nums_def)

lemma nums_append [simp]: "nums (xs @ ys) = nums xs \<union> nums ys"
  and nums_Cons [simp]: "nums (x # xs) = insert (ts_num x) (nums xs)"
  and nums_Nil [simp]: "nums [] = {}"
  by (auto simp: nums_def)

lemma nums_map: "map ts_num xs = map ts_num ys \<Longrightarrow> nums xs = nums ys"
  by (metis list.set_map nums_def)

lemma nums_insert: "nums (vec_insert i t xs) = insert (ts_num t) (nums xs)"
  by (simp add: nums_def set_vec_insert)

lemma rx_last_max:
  assumes "rx_inv rs" and "n \<in> nums rs"
  shows "n \<le> ts_num (last rs)"
proof -
  obtain i where i: "i < length rs" "n = ts_num (rs ! i)"
    using assms(2) by (auto simp: nums_def in_set_conv_nth)
  have "ts_num (rs ! i) < ts_num (rs ! (length rs - 1))" if "i < length rs - 1"
    using assms(1) that by (auto simp: rx_inv_def sorted_wrt_iff_nth_less)
  moreover have "last rs = rs ! (length rs - 1)"
    using assms(1) by (simp add: rx_inv_def last_conv_nth)
  moreover have "i = length rs - 1" if "\<not> i < length rs - 1" using i(1) that by simp
  ultimately show ?thesis
    using i(2) by (metis order_le_less)
qed

lemma rx_last_in: "rx_inv rs \<Longrightarrow> ts_num (last rs) \<in> nums rs"
  by (auto simp: rx_inv_def)

subsection \<open>Culling\<close>

lemma cull_nums:
  assumes "rx_inv rs"
  shows "nums (process_throwaway_until rs c) = {n \<in> nums rs. min c (ts_num (last rs)) \<le> n}"
  using assms by (auto simp: process_throwaway_until_def Let_def rx_inv_def nums_def)

lemma cull_subset: "set (process_throwaway_until rs c) \<subseteq> set rs"
  by (auto simp: process_throwaway_until_def Let_def)

lemma cull_last:
  assumes "rx_inv rs"
  shows "last (process_throwaway_until rs c) = last rs"
proof -
  have "rs = butlast rs @ [last rs]" using assms by (simp add: rx_inv_def)
  then have "filter (\<lambda>t. ts_num t \<ge> min c (ts_num (last rs))) rs =
      filter (\<lambda>t. ts_num t \<ge> min c (ts_num (last rs))) (butlast rs) @ [last rs]"
    by (metis (no_types, lifting) filter.simps filter_append min.cobounded2)
  then show ?thesis
    using assms by (simp add: process_throwaway_until_def Let_def rx_inv_def)
qed

lemma cull_inv:
  assumes "rx_inv rs"
  shows "rx_inv (process_throwaway_until rs c)"
proof -
  have "last rs \<in> set (process_throwaway_until rs c)"
    using assms by (simp add: process_throwaway_until_def Let_def rx_inv_def)
  then have "process_throwaway_until rs c \<noteq> []" by auto
  moreover have "sorted_wrt (<) (map ts_num (process_throwaway_until rs c))"
    using assms by (auto simp: process_throwaway_until_def Let_def rx_inv_def sorted_wrt_map
        intro: sorted_wrt_filter)
  ultimately show ?thesis by (simp add: rx_inv_def)
qed

subsection \<open>Filing a state\<close>

lemma rx_inv_states: "map ts_num rs = map ts_num rs' \<Longrightarrow> rx_inv rs \<Longrightarrow> rx_inv rs'"
  by (auto simp: rx_inv_def)

lemma map_num_update:
  "i < length rs \<Longrightarrow> map ts_num (rs[i := (rs ! i)\<lparr>ts_state := s\<rparr>]) = map ts_num rs"
  by (rule nth_equalityI) (auto simp: nth_list_update)

lemma file_state_cases:
  assumes "rx_inv rs" and "ts_num t \<notin> nums rs" and "file_state rs t = (r, rs')"
  shows "set rs' = insert t (set rs)" and "rx_inv rs'"
    and "ts_num (last rs) < ts_num t \<Longrightarrow> r = NewState (ts_num t) \<and> last rs' = t"
    and "ts_num t < ts_num (last rs) \<Longrightarrow> r = OutOfOrderState (ts_num t) \<and> last rs' = last rs"
proof -
  let ?p = "position (\<lambda>s. ts_num s > ts_num t) rs"
  have ne: "rs \<noteq> []" using assms(1) by (simp add: rx_inv_def)
  have lin: "last rs \<in> set rs" using ne by simp
  have part: "ts_num s < ts_num t" if "s \<in> set rs" "\<not> ts_num s > ts_num t" for s
    using that assms(2) by (metis linorder_neqE nums_memI)
  show "set rs' = insert t (set rs)"
    using assms(3) by (auto simp: file_state_def set_vec_insert split: option.splits)
  show "ts_num (last rs) < ts_num t \<Longrightarrow> r = NewState (ts_num t) \<and> last rs' = t"
  proof -
    assume "ts_num (last rs) < ts_num t"
    then have "?p = None"
      using rx_last_max [OF assms(1)] by (force simp: position_None)
    then show ?thesis using assms(3) by (auto simp: file_state_def)
  qed
  show "ts_num t < ts_num (last rs) \<Longrightarrow> r = OutOfOrderState (ts_num t) \<and> last rs' = last rs"
  proof -
    assume "ts_num t < ts_num (last rs)"
    then obtain i where i: "?p = Some i" using position_in [OF lin] by fastforce
    then have "i < length rs" by (auto dest: position_SomeD)
    then show ?thesis using assms(3) i by (auto simp: file_state_def vec_insert_def)
  qed
  show "rx_inv rs'"
  proof (cases ?p)
    case None
    then have "\<forall>s\<in>set rs. ts_num s < ts_num t" using part by (auto simp: position_None)
    then show ?thesis
      using assms None by (auto simp: file_state_def rx_inv_def sorted_wrt_append)
  next
    case (Some i)
    then have i: "i < length rs" "ts_num t < ts_num (rs ! i)" "\<forall>j<i. \<not> ts_num (rs ! j) > ts_num t"
      by (auto simp: position_Some)
    have srt: "sorted_wrt (\<lambda>a b. ts_num a < ts_num b) rs"
      using assms(1) by (simp add: rx_inv_def sorted_wrt_map)
    have lo: "\<forall>s\<in>set (take i rs). ts_num s < ts_num t"
    proof
      fix s assume "s \<in> set (take i rs)"
      then obtain j where "j < i" "s = rs ! j" using i(1) by (auto simp: in_set_conv_nth)
      then show "ts_num s < ts_num t" using i part by (metis less_trans nth_mem)
    qed
    have hi: "\<forall>s\<in>set (drop i rs). ts_num t < ts_num s"
    proof
      fix s assume "s \<in> set (drop i rs)"
      then obtain j where j: "i \<le> j" "j < length rs" "s = rs ! j"
        by (auto simp: in_set_conv_nth) (metis le_add1 less_diff_conv add.commute)
      then have "i = j \<or> ts_num (rs ! i) < ts_num s"
        using srt by (auto simp: sorted_wrt_iff_nth_less order_le_less)
      then show "ts_num t < ts_num s" using i(2) j(3) by auto
    qed
    have split: "sorted_wrt (\<lambda>a b. ts_num a < ts_num b) (take i rs)"
      "sorted_wrt (\<lambda>a b. ts_num a < ts_num b) (drop i rs)"
      using srt by (metis append_take_drop_id sorted_wrt_append)+
    have "sorted_wrt (\<lambda>a b. ts_num a < ts_num b) (vec_insert i t rs)"
      using lo hi split unfolding vec_insert_def sorted_wrt_append
      by (auto intro: less_trans)
    then show ?thesis
      using assms(3) Some by (auto simp: file_state_def rx_inv_def sorted_wrt_map vec_insert_def)
  qed
qed

section \<open>One instruction\<close>

abbreviation or0 :: "u64 option \<Rightarrow> u64" where
  "or0 x \<equiv> case_option 0 id x"

abbreviation inst_diff :: "instruction \<Rightarrow> bytes" where
  "inst_diff i \<equiv> case_option [] id (diff i)"

text \<open>
  The two ways an instruction of the right version can end: nothing but culling (\<open>rx_skip\<close>), or a
  state built from the referenced one (\<open>rx_build\<close>), which the diff may refuse.
\<close>

text \<open>The connection after an instruction: told when the newest acknowledged state was sent.\<close>

definition rx_conn :: "('m, 'r) transport \<Rightarrow> instruction \<Rightarrow> connection" where
  "rx_conn T inst = set_last_roundtrip_success (tr_connection T)
     (sent_state_acked_timestamp (process_acknowledgment_through (tr_sender T) (or0 (ack_num inst))))"

definition rx_skip :: "('m, 'r) transport \<Rightarrow> instruction \<Rightarrow> (transport_error + recv_outcome) \<Rightarrow>
    ('m, 'r) transport \<Rightarrow> bool" where
  "rx_skip T inst r T' \<longleftrightarrow> r = Inr Ignored \<and>
     tr_sender T' = process_acknowledgment_through (tr_sender T) (or0 (ack_num inst)) \<and>
     last_receiver_state T' = last_receiver_state T \<and> tr_connection T' = rx_conn T inst \<and>
     received_states T' \<in> {received_states T,
       process_throwaway_until (received_states T) (or0 (throwaway_num inst))}"

definition rx_build :: "'r state_ops \<Rightarrow> ('m, 'r) transport \<Rightarrow> instruction \<Rightarrow> instant \<Rightarrow>
    (transport_error + recv_outcome) \<Rightarrow> ('m, 'r) transport \<Rightarrow> bool" where
  "rx_build rops T inst now r T' \<longleftrightarrow>
     or0 (new_num inst) \<notin> nums (received_states T) \<and>
     last_receiver_state T' = last_receiver_state T \<and> tr_connection T' = rx_conn T inst \<and>
     (let S1 = process_acknowledgment_through (tr_sender T) (or0 (ack_num inst));
          rs = process_throwaway_until (received_states T) (or0 (throwaway_num inst));
          d = inst_diff inst
      in \<exists>i<length rs. ts_num (rs ! i) = or0 (old_num inst) \<and>
        (let src = ts_state (rs ! i);
             ad = adopt_from rops (state_clone rops src) src;
             rs' = rs[i := (rs ! i)\<lparr>ts_state := snd ad\<rparr>]
         in (\<exists>e. d \<noteq> [] \<and> apply_string rops (fst ad) d = Inl e \<and> r = Inl (StateError e) \<and>
               received_states T' = rs' \<and> tr_sender T' = S1) \<or>
            (\<exists>s r'. (if d = [] then s = fst ad else apply_string rops (fst ad) d = Inr s) \<and>
               file_state rs' \<lparr>timestamp = now, ts_num = or0 (new_num inst), ts_state = s\<rparr> =
                 (r', received_states T') \<and> r = Inr r' \<and>
               tr_sender T' =
                 (if r' = NewState (or0 (new_num inst))
                  then S1\<lparr>sender_ack_num := ts_num (last (received_states T')), last_heard := Some now,
                          pending_data_ack := pending_data_ack S1 \<or> d \<noteq> []\<rparr>
                  else S1))))"

lemma file_state_outcome: "fst (file_state rs t) = NewState (ts_num t) \<or>
    fst (file_state rs t) = OutOfOrderState (ts_num t)"
  by (auto simp: file_state_def split: option.splits)

lemma process_instruction_cases:
  assumes "process_instruction rops T inst nq now = (r, T')"
    and "protocol_version inst = Some MORSH_PROTOCOL_VERSION"
  shows "rx_skip T inst r T' \<or> rx_build rops T inst now r T'"
proof -
  let ?rs = "process_throwaway_until (received_states T) (or0 (throwaway_num inst))"
  show ?thesis
  proof (cases "or0 (new_num inst) \<in> nums (received_states T) \<or>
      or0 (old_num inst) \<notin> nums (received_states T)")
    case True
    then have "(\<exists>t\<in>set (received_states T). ts_num t = or0 (new_num inst)) \<or>
        \<not> (\<exists>t\<in>set (received_states T). ts_num t = or0 (old_num inst))"
      unfolding nums_iff by blast
    then have "rx_skip T inst r T'"
      using assms by (elim disjE) (auto simp: process_instruction_def Let_def rx_skip_def rx_conn_def
          split: if_splits)
    then show ?thesis by simp
  next
    case False
    then have dup: "\<not> (\<exists>t\<in>set (received_states T). ts_num t = or0 (new_num inst))"
      and ref: "\<exists>t\<in>set (received_states T). ts_num t = or0 (old_num inst)"
      unfolding nums_iff by blast+
    show ?thesis
    proof (cases "position (\<lambda>t. ts_num t = or0 (old_num inst)) ?rs")
      case None
      then show ?thesis
        using assms dup ref by (auto simp: process_instruction_def Let_def rx_skip_def rx_conn_def)
    next
      case (Some i)
      note i = position_SomeD [OF Some]
      show ?thesis
      proof (cases "fst (quench ?rs (receiver_quench_timer T) nq)")
        case True
        then show ?thesis
          using assms dup ref Some
          by (auto simp: process_instruction_def Let_def rx_skip_def rx_conn_def split: prod.splits)
      next
        case go: False
        let ?ad = "adopt_from rops (state_clone rops (ts_state (?rs ! i))) (ts_state (?rs ! i))"
        let ?t = "\<lambda>s. \<lparr>timestamp = now, ts_num = or0 (new_num inst), ts_state = s\<rparr>"
        let ?rs' = "?rs[i := (?rs ! i)\<lparr>ts_state := snd ?ad\<rparr>]"
        obtain q where q: "quench ?rs (receiver_quench_timer T) nq = (False, q)"
          using go by (cases "quench ?rs (receiver_quench_timer T) nq") auto
        show ?thesis
        proof (cases "if inst_diff inst = [] then Inr (fst ?ad)
            else apply_string rops (fst ?ad) (inst_diff inst)")
          case (Inl e)
          then have "rx_build rops T inst now r T'"
            using assms dup ref Some q i False
            by (auto simp: process_instruction_def rx_build_def rx_conn_def Let_def split_beta split: if_splits
                intro!: exI [of _ i])
          then show ?thesis by simp
        next
          case (Inr s)
          obtain r' rs'' where f: "file_state ?rs' (?t s) = (r', rs'')" by fastforce
          have "r' = NewState (or0 (new_num inst)) \<or> r' = OutOfOrderState (or0 (new_num inst))"
            using file_state_outcome [of ?rs' "?t s"] f by simp
          then have "rx_build rops T inst now r T'"
            using assms dup ref Some q i False Inr f
            by (auto simp: process_instruction_def rx_build_def rx_conn_def Let_def split_beta set_ack_num_def
                remote_heard_def set_data_ack_def split: if_splits intro!: exI [of _ i])
              (metis recv_outcome.distinct(11))+
          then show ?thesis by simp
        qed
      qed
    qed
  qed
qed

lemma rx_build_next:
  assumes "rx_inv (received_states T)" and "rx_build rops T inst now r T'"
  shows "rx_inv (received_states T')"
    and "or0 (new_num inst) \<notin> nums (received_states T)"
    and "or0 (old_num inst) \<in> nums (process_throwaway_until (received_states T) (or0 (throwaway_num inst)))"
    and "(\<exists>e. r = Inl (StateError e)) \<and>
        nums (received_states T') =
          nums (process_throwaway_until (received_states T) (or0 (throwaway_num inst))) \<or>
      nums (received_states T') = insert (or0 (new_num inst))
          (nums (process_throwaway_until (received_states T) (or0 (throwaway_num inst)))) \<and>
        (if ts_num (last (received_states T)) < or0 (new_num inst)
         then r = Inr (NewState (or0 (new_num inst))) \<and>
              ts_num (last (received_states T')) = or0 (new_num inst)
         else r = Inr (OutOfOrderState (or0 (new_num inst))) \<and>
              ts_num (last (received_states T')) = ts_num (last (received_states T)))"
proof -
  define n where "n = or0 (new_num inst)"
  define rs where "rs = process_throwaway_until (received_states T) (or0 (throwaway_num inst))"
  from assms(2) obtain i s' s r' where i: "i < length rs" "ts_num (rs ! i) = or0 (old_num inst)"
    and n: "n \<notin> nums (received_states T)"
    and res: "(\<exists>e. r = Inl (StateError e)) \<and> received_states T' = rs[i := (rs ! i)\<lparr>ts_state := s'\<rparr>] \<or>
       file_state (rs[i := (rs ! i)\<lparr>ts_state := s'\<rparr>]) \<lparr>timestamp = now, ts_num = n, ts_state = s\<rparr> =
         (r', received_states T') \<and> r = Inr r'"
    unfolding rx_build_def Let_def rs_def [symmetric] n_def [symmetric] by blast
  let ?rs' = "rs[i := (rs ! i)\<lparr>ts_state := s'\<rparr>]"
  have inv: "rx_inv rs" unfolding rs_def by (rule cull_inv [OF assms(1)])
  have same: "map ts_num ?rs' = map ts_num rs" by (rule map_num_update [OF i(1)])
  have inv': "rx_inv ?rs'" by (rule rx_inv_states [OF same [symmetric] inv])
  have ns: "nums ?rs' = nums rs" by (rule nums_map [OF same])
  have lst: "ts_num (last ?rs') = ts_num (last (received_states T))"
    using same inv inv' cull_last [OF assms(1)] by (metis last_map rs_def rx_inv_def)
  have sub: "nums rs \<subseteq> nums (received_states T)"
    unfolding rs_def using cull_subset by (fastforce simp: nums_def)
  have fresh: "ts_num \<lparr>timestamp = now, ts_num = n, ts_state = s\<rparr> \<notin> nums ?rs'"
    using n sub ns by auto
  have ne: "ts_num (last (received_states T)) \<noteq> n" using n rx_last_in [OF assms(1)] by auto
  show "n \<notin> nums (received_states T)" by (rule n)
  show "or0 (old_num inst) \<in> nums rs" using i by (auto simp: nums_iff)
  show "rx_inv (received_states T')"
    using res inv' file_state_cases(2) [OF inv' fresh] by auto
  have "nums (received_states T') = insert n (nums rs) \<and>
      (if ts_num (last (received_states T)) < n
       then r = Inr (NewState n) \<and> ts_num (last (received_states T')) = n
       else r = Inr (OutOfOrderState n) \<and>
         ts_num (last (received_states T')) = ts_num (last (received_states T)))"
    if f: "file_state ?rs' \<lparr>timestamp = now, ts_num = n, ts_state = s\<rparr> = (r', received_states T')"
      and r: "r = Inr r'"
  proof -
    note c = file_state_cases [OF inv' fresh f]
    have "nums (received_states T') = insert n (nums rs)"
      using c(1) ns unfolding nums_def by simp
    show ?thesis
    proof (cases "ts_num (last (received_states T)) < n")
      case True
      then show ?thesis using c(1,3) r lst \<open>nums (received_states T') = insert n (nums rs)\<close> by simp
    next
      case False
      then have "n < ts_num (last (received_states T))" using ne by (metis linorder_neqE)
      then show ?thesis using False c(4) r lst \<open>nums (received_states T') = insert n (nums rs)\<close> by simp
    qed
  qed
  then show "(\<exists>e. r = Inl (StateError e)) \<and> nums (received_states T') = nums rs \<or>
      nums (received_states T') = insert n (nums rs) \<and>
        (if ts_num (last (received_states T)) < n
         then r = Inr (NewState n) \<and> ts_num (last (received_states T')) = n
         else r = Inr (OutOfOrderState n) \<and>
              ts_num (last (received_states T')) = ts_num (last (received_states T)))"
    using res ns by metis
qed

lemma rx_build_sender:
  assumes "rx_build rops T inst now r T'"
  shows "tr_sender T' \<in> {process_acknowledgment_through (tr_sender T) (or0 (ack_num inst)),
    (process_acknowledgment_through (tr_sender T) (or0 (ack_num inst)))
      \<lparr>sender_ack_num := ts_num (last (received_states T')), last_heard := Some now,
       pending_data_ack := pending_data_ack (process_acknowledgment_through (tr_sender T) (or0 (ack_num inst)))
         \<or> inst_diff inst \<noteq> []\<rparr>}"
  using assms unfolding rx_build_def Let_def insert_iff
  by (elim conjE exE disjE) (simp_all only: refl simp_thms if_splits split: if_split, blast)

text \<open>A refused diff leaves the newest state in place, and only a new newest state moves the acknowledgement.\<close>

lemma rx_build_refused:
  assumes "rx_inv (received_states T)" and "rx_build rops T inst now r T'" and "r = Inl (StateError e)"
  shows "ts_num (last (received_states T')) = ts_num (last (received_states T))"
proof -
  define rs where "rs = process_throwaway_until (received_states T) (or0 (throwaway_num inst))"
  obtain i s where i: "i < length rs" and r: "received_states T' = rs[i := (rs ! i)\<lparr>ts_state := s\<rparr>]"
    using assms(2,3) unfolding rx_build_def Let_def rs_def [symmetric] by blast
  have "rx_inv rs" unfolding rs_def by (rule cull_inv [OF assms(1)])
  then have "ts_num (last (received_states T')) = ts_num (last rs)"
    using map_num_update [OF i, of s] r i
    by (metis last_map length_greater_0_conv list_update_nonempty rx_inv_def)
  then show ?thesis using cull_last [OF assms(1)] rs_def by metis
qed

lemma rx_build_ack:
  assumes "rx_build rops T inst now r T'"
  shows "sender_ack_num (tr_sender T') =
    (if r = Inr (NewState (or0 (new_num inst))) then ts_num (last (received_states T'))
     else sender_ack_num (tr_sender T))"
proof -
  let ?S1 = "process_acknowledgment_through (tr_sender T) (or0 (ack_num inst))"
  have "(\<exists>e. r = Inl (StateError e)) \<and> tr_sender T' = ?S1 \<or>
     (\<exists>r'. r = Inr r' \<and> tr_sender T' =
        (if r' = NewState (or0 (new_num inst))
         then ?S1\<lparr>sender_ack_num := ts_num (last (received_states T')), last_heard := Some now,
              pending_data_ack := pending_data_ack ?S1 \<or> inst_diff inst \<noteq> []\<rparr>
         else ?S1))"
    using assms unfolding rx_build_def Let_def by blast
  then show ?thesis by (elim disjE conjE exE) (simp_all split: if_splits)
qed

lemma process_instruction_mismatch:
  "protocol_version inst \<noteq> Some MORSH_PROTOCOL_VERSION \<Longrightarrow>
     process_instruction rops T inst nq now = (Inl (VersionMismatch (protocol_version inst)), T)"
  by (simp add: process_instruction_def)

text \<open>What an instruction does to the sending half: at most an acknowledgement.\<close>

definition same_history :: "'s sender \<Rightarrow> 's sender \<Rightarrow> bool" where
  "same_history S S' \<longleftrightarrow> sent_states S' = sent_states S \<and> current_state S' = current_state S \<and>
     assumed_receiver_state S' = assumed_receiver_state S \<and>
     shutdown_in_progress S' = shutdown_in_progress S"

lemma process_instruction_sender:
  assumes "process_instruction rops T inst nq now = (r, T')"
  shows "same_history (tr_sender T) (tr_sender T') \<or>
    same_history (process_acknowledgment_through (tr_sender T) (or0 (ack_num inst))) (tr_sender T')"
proof (cases "protocol_version inst = Some MORSH_PROTOCOL_VERSION")
  case True
  from process_instruction_cases [OF assms True] show ?thesis
  proof
    assume "rx_skip T inst r T'"
    then show ?thesis by (simp add: rx_skip_def same_history_def)
  next
    assume "rx_build rops T inst now r T'"
    from rx_build_sender [OF this] show ?thesis by (auto simp: same_history_def)
  qed
next
  case False
  with assms show ?thesis by (simp add: process_instruction_mismatch same_history_def)
qed

lemma same_history_inv: "same_history S S' \<Longrightarrow> sender_inv clk S \<Longrightarrow> sender_inv clk S'"
  by (simp add: same_history_def sender_inv_def)

lemma process_instruction_sender_inv:
  "process_instruction rops T inst nq now = (r, T') \<Longrightarrow> sender_inv clk (tr_sender T) \<Longrightarrow>
     sender_inv clk (tr_sender T')"
  using process_instruction_sender same_history_inv process_ack_inv by blast

lemma rx_skip_nums:
  assumes "rx_inv (received_states T)" and "rx_skip T inst r T'"
  shows "rx_inv (received_states T')"
    and "nums (received_states T') \<in> {nums (received_states T),
       nums (process_throwaway_until (received_states T) (or0 (throwaway_num inst)))}"
    and "last (received_states T') = last (received_states T)"
  using assms cull_inv [OF assms(1)] cull_last [OF assms(1)] by (auto simp: rx_skip_def)

lemma process_instruction_rx_inv:
  assumes "rx_inv (received_states T)" and "process_instruction rops T inst nq now = (r, T')"
  shows "rx_inv (received_states T')"
proof (cases "protocol_version inst = Some MORSH_PROTOCOL_VERSION")
  case True
  from process_instruction_cases [OF assms(2) True] show ?thesis
    using rx_skip_nums(1) [OF assms(1)] rx_build_next(1) [OF assms(1)] by blast
next
  case False
  with assms show ?thesis by (simp add: process_instruction_mismatch)
qed

lemma get_remote_diff_rx_inv:
  assumes "rx_inv (received_states T)"
  shows "map ts_num (received_states (snd (get_remote_diff rops T))) = map ts_num (received_states T)"
    and "rx_inv (received_states (snd (get_remote_diff rops T)))"
proof -
  show eq: "map ts_num (received_states (snd (get_remote_diff rops T))) = map ts_num (received_states T)"
    by (simp add: get_remote_diff_def Let_def)
  show "rx_inv (received_states (snd (get_remote_diff rops T)))"
    by (rule rx_inv_states [OF eq [symmetric] assms])
qed

text \<open>
  When an instruction is taken: the reference is held and not given up by the instruction itself,
  and there is room.
\<close>

lemma process_instruction_builds:
  assumes "process_instruction rops T inst nq now = (r, T')"
    and "protocol_version inst = Some MORSH_PROTOCOL_VERSION" and rx: "rx_inv (received_states T)"
    and new: "or0 (new_num inst) \<notin> nums (received_states T)"
    and old: "or0 (old_num inst) \<in> nums (received_states T)"
    and thr: "or0 (throwaway_num inst) \<le> or0 (old_num inst)"
    and room: "length (received_states T) \<le> RECEIVED_STATES_MAX"
  shows "rx_build rops T inst now r T'"
proof -
  let ?rs = "process_throwaway_until (received_states T) (or0 (throwaway_num inst))"
  have "or0 (old_num inst) \<in> nums ?rs"
    using old thr cull_nums [OF rx] by (auto intro: min.coboundedI1)
  then obtain i where i: "position (\<lambda>t. ts_num t = or0 (old_num inst)) ?rs = Some i"
    using position_in unfolding nums_iff by (metis (mono_tags, lifting))
  have "length ?rs \<le> length (received_states T)"
    by (auto simp: process_throwaway_until_def Let_def)
  then have q: "quench ?rs (receiver_quench_timer T) nq = (False, receiver_quench_timer T)"
    using room by (simp add: quench_def)
  have "r \<noteq> Inr Ignored"
  proof
    assume ign: "r = Inr Ignored"
    have dup: "\<not> (\<exists>t\<in>set (received_states T). ts_num t = or0 (new_num inst))"
      and ref: "\<exists>t\<in>set (received_states T). ts_num t = or0 (old_num inst)"
      using new old unfolding nums_iff by blast+
    have o: "fst (file_state xs t) \<noteq> Ignored" for xs :: "'b timestamped list" and t
      using file_state_outcome [of xs t] by auto
    show False
      using assms(1,2) dup ref i q ign o
      by (auto simp: process_instruction_def Let_def split_beta split: sum.splits if_splits
          recv_outcome.splits)
  qed
  then show ?thesis
    using process_instruction_cases [OF assms(1,2)] by (auto simp: rx_skip_def)
qed

section \<open>No state is accepted twice\<close>

text \<open>
  A number is \<open>seen\<close> when it is held, or when everything that is held is later. Numbers that were
  accepted stay seen, and a seen number is never accepted again, as long as the peer only sends
  diffs from older states.
\<close>

definition seen :: "u64 \<Rightarrow> 's timestamped list \<Rightarrow> bool" where
  "seen n rs \<longleftrightarrow> n \<in> nums rs \<or> (\<forall>m\<in>nums rs. n < m)"

fun accepted :: "(transport_error + recv_outcome) \<Rightarrow> u64 list" where
  "accepted (Inr (NewState n)) = [n]"
| "accepted (Inr (OutOfOrderState n)) = [n]"
| "accepted r = []"

fun process_all :: "'r state_ops \<Rightarrow> ('m, 'r) transport \<Rightarrow> (instruction \<times> instant \<times> instant) list \<Rightarrow>
    (transport_error + recv_outcome) list \<times> ('m, 'r) transport" where
  "process_all rops T [] = ([], T)"
| "process_all rops T ((inst, nq, now) # rest) =
     (let (r, T1) = process_instruction rops T inst nq now;
          (rs, T2) = process_all rops T1 rest
      in (r # rs, T2))"

definition forward :: "instruction \<Rightarrow> bool" where
  "forward inst \<longleftrightarrow> or0 (old_num inst) \<le> or0 (new_num inst)"

lemma seen_cull:
  assumes "rx_inv rs" and "seen n rs"
  shows "seen n (process_throwaway_until rs c)"
proof (cases "n \<in> nums rs")
  case True
  then show ?thesis
    using cull_nums [OF assms(1), of c] by (fastforce simp: seen_def not_le)
next
  case False
  then show ?thesis using assms cull_nums [OF assms(1), of c] by (auto simp: seen_def)
qed

lemma seen_nums: "nums rs = nums rs' \<Longrightarrow> seen n rs = seen n rs'"
  by (simp add: seen_def)

lemma process_instruction_seen:
  assumes "rx_inv (received_states T)" and "process_instruction rops T inst nq now = (r, T')"
    and "forward inst"
  shows "seen n (received_states T) \<Longrightarrow> seen n (received_states T')"
    and "n \<in> set (accepted r) \<Longrightarrow> \<not> seen n (received_states T) \<and> seen n (received_states T')"
proof -
  let ?rs = "received_states T" and ?new = "or0 (new_num inst)" and ?old = "or0 (old_num inst)"
  let ?cull = "process_throwaway_until ?rs (or0 (throwaway_num inst))"
  have "(seen n ?rs \<longrightarrow> seen n (received_states T')) \<and>
    (n \<in> set (accepted r) \<longrightarrow> \<not> seen n ?rs \<and> seen n (received_states T'))"
  proof (cases "protocol_version inst = Some MORSH_PROTOCOL_VERSION")
    case False
    with assms(2) show ?thesis by (auto simp: process_instruction_mismatch)
  next
    case True
    from process_instruction_cases [OF assms(2) True] show ?thesis
    proof
      assume sk: "rx_skip T inst r T'"
      then have "accepted r = []" by (simp add: rx_skip_def)
      moreover have "nums (received_states T') = nums ?rs \<or> nums (received_states T') = nums ?cull"
        using rx_skip_nums(2) [OF assms(1) sk] by simp
      ultimately show ?thesis using seen_cull [OF assms(1), of n] seen_nums by auto
    next
      assume "rx_build rops T inst now r T'"
      note b = rx_build_next [OF assms(1) this]
      have old: "?old \<in> nums ?rs" using b(3) cull_nums [OF assms(1)] by auto
      then have le: "?old < ?new" using b(2) assms(3) by (auto simp: forward_def order_le_less)
      have unseen: "\<not> seen ?new ?rs" using old le b(2) by (fastforce simp: seen_def)
      from b(4) show ?thesis
      proof
        assume e: "(\<exists>e. r = Inl (StateError e)) \<and> nums (received_states T') = nums ?cull"
        then have "accepted r = []" by auto
        then show ?thesis using e seen_cull [OF assms(1), of n] seen_nums by auto
      next
        assume a: "nums (received_states T') = insert ?new (nums ?cull) \<and>
          (if ts_num (last ?rs) < ?new
           then r = Inr (NewState ?new) \<and> ts_num (last (received_states T')) = ?new
           else r = Inr (OutOfOrderState ?new) \<and>
             ts_num (last (received_states T')) = ts_num (last ?rs))"
        then have acc: "accepted r = [?new]" by (auto split: if_splits)
        have "seen n (received_states T')" if "seen n ?rs"
        proof -
          have "seen n ?cull" by (rule seen_cull [OF assms(1) that])
          then have "n \<in> nums ?cull \<or> (\<forall>m\<in>nums ?cull. n < m) \<and> n < ?new"
            using b(3) le by (auto simp: seen_def)
          then show ?thesis using a by (auto simp: seen_def)
        qed
        moreover have "seen ?new (received_states T')" using a by (simp add: seen_def)
        ultimately show ?thesis using acc unseen by auto
      qed
    qed
  qed
  then show "seen n ?rs \<Longrightarrow> seen n (received_states T')"
    "n \<in> set (accepted r) \<Longrightarrow> \<not> seen n ?rs \<and> seen n (received_states T')" by auto
qed

lemma accepted_distinct: "distinct (accepted r)"
  by (cases r rule: accepted.cases) auto

lemma process_all_accepted:
  assumes "rx_inv (received_states T)" and "process_all rops T xs = (rs, T')"
    and "\<forall>(inst, nq, now)\<in>set xs. forward inst"
  shows "distinct (concat (map accepted rs)) \<and>
    (\<forall>n. seen n (received_states T) \<longrightarrow> n \<notin> set (concat (map accepted rs)))"
  using assms
proof (induction xs arbitrary: T rs)
  case Nil
  then show ?case by simp
next
  case (Cons x xs)
  obtain inst nq now where x: "x = (inst, nq, now)" by (cases x)
  obtain r T1 where p: "process_instruction rops T inst nq now = (r, T1)" by fastforce
  obtain rs1 where q: "process_all rops T1 xs = (rs1, T')" and rs: "rs = r # rs1"
    using Cons.prems(2) p x by (cases "process_all rops T1 xs") auto
  have fw: "forward inst" using Cons.prems(3) x by simp
  note s = process_instruction_seen [OF Cons.prems(1) p fw]
  have "rx_inv (received_states T1)" by (rule process_instruction_rx_inv [OF Cons.prems(1) p])
  then have ih: "distinct (concat (map accepted rs1))"
    "\<forall>n. seen n (received_states T1) \<longrightarrow> n \<notin> set (concat (map accepted rs1))"
    using Cons.IH [OF _ q] Cons.prems(3) x by auto
  have "set (accepted r) \<inter> set (concat (map accepted rs1)) = {}" using ih(2) s(2) by blast
  moreover have "n \<notin> set (accepted r)" "n \<notin> set (concat (map accepted rs1))"
    if "seen n (received_states T)" for n
    using that ih(2) s by blast+
  ultimately show ?case
    using ih(1) accepted_distinct [of r] unfolding rs list.map concat.simps distinct_append set_append
    by blast
qed

section \<open>The receiver as a machine\<close>

text \<open>
  What callers do with the receiving half, in any order. The number acknowledged is always that of
  the newest state held, which culling never removes.
\<close>

datatype rx_event = Process instruction instant instant | TakeDiff

definition rx_step :: "'r state_ops \<Rightarrow> ('m, 'r) transport \<Rightarrow> rx_event \<Rightarrow> ('m, 'r) transport \<Rightarrow> bool" where
  "rx_step rops T e T' \<longleftrightarrow> T' = (case e of
     Process inst nq now \<Rightarrow> snd (process_instruction rops T inst nq now)
   | TakeDiff \<Rightarrow> snd (get_remote_diff rops T))"

definition rx_init :: "'m state_ops \<Rightarrow> 'r state_ops \<Rightarrow> ('m, 'r) transport \<Rightarrow> bool" where
  "rx_init mops rops T \<longleftrightarrow> (\<exists>t1 t2 c s r. T = transport_new mops rops t1 t2 c s r)"

definition acks_newest :: "('m, 'r) transport \<Rightarrow> bool" where
  "acks_newest T \<longleftrightarrow> rx_inv (received_states T) \<and>
     sender_ack_num (tr_sender T) = ts_num (last (received_states T))"

lemma process_instruction_newest:
  assumes "acks_newest T" and "process_instruction rops T inst nq now = (r, T')"
  shows "acks_newest T'" and "ts_num (last (received_states T)) \<le> ts_num (last (received_states T'))"
    and "set (accepted r) \<subseteq> nums (received_states T')"
proof -
  have inv: "rx_inv (received_states T)" and n: "sender_ack_num (tr_sender T) = ts_num (last (received_states T))"
    using assms(1) by (simp_all add: acks_newest_def)
  have "acks_newest T' \<and> ts_num (last (received_states T)) \<le> ts_num (last (received_states T')) \<and>
      set (accepted r) \<subseteq> nums (received_states T')"
  proof (cases "protocol_version inst = Some MORSH_PROTOCOL_VERSION")
    case False
    then show ?thesis using assms by (auto simp: process_instruction_mismatch)
  next
    case True
    from process_instruction_cases [OF assms(2) True] show ?thesis
    proof
      assume s: "rx_skip T inst r T'"
      then have "sender_ack_num (tr_sender T') = sender_ack_num (tr_sender T)" "accepted r = []"
        by (simp_all add: rx_skip_def)
      then show ?thesis using rx_skip_nums [OF inv s] n by (simp add: acks_newest_def)
    next
      assume b: "rx_build rops T inst now r T'"
      note nx = rx_build_next [OF inv b]
      define m where "m = or0 (new_num inst)"
      note ack = rx_build_ack [OF b, folded m_def]
      show ?thesis
      proof (cases "\<exists>e. r = Inl (StateError e)")
        case True
        then obtain e where e: "r = Inl (StateError e)" by blast
        from rx_build_refused [OF inv b e] show ?thesis
          using nx(1) ack n e by (simp add: acks_newest_def)
      next
        case False
        then have filed: "m \<in> nums (received_states T')"
          and res: "if ts_num (last (received_states T)) < m
            then r = Inr (NewState m) \<and> ts_num (last (received_states T')) = m
            else r = Inr (OutOfOrderState m) \<and>
              ts_num (last (received_states T')) = ts_num (last (received_states T))"
          using nx(4) unfolding m_def [symmetric] by auto
        show ?thesis
          by (cases "ts_num (last (received_states T)) < m")
             (use res filed ack n nx(1) in \<open>simp_all add: acks_newest_def\<close>)
      qed
    qed
  qed
  then show "acks_newest T'" "ts_num (last (received_states T)) \<le> ts_num (last (received_states T'))"
    "set (accepted r) \<subseteq> nums (received_states T')" by simp_all
qed

interpretation rx: machine "rx_init mops rops" "rx_step rops" acks_newest for mops rops
proof unfold_locales
  show "acks_newest T" if "rx_init mops rops T" for T
    using that by (auto simp: rx_init_def acks_newest_def rx_inv_def transport_new_def sender_new_def)
  show "acks_newest T'" if inv: "acks_newest T" and st: "rx_step rops T e T'" for T e T'
  proof (cases e)
    case (Process inst nq now)
    then show ?thesis
      using st process_instruction_newest(1) [OF inv] by (auto simp: rx_step_def) (metis prod.collapse)
  next
    case TakeDiff
    have i: "rx_inv (received_states T)" using inv by (simp add: acks_newest_def)
    note g = get_remote_diff_rx_inv [OF i, of rops]
    have "ts_num (last (received_states (snd (get_remote_diff rops T)))) = ts_num (last (received_states T))"
      using g i by (metis last_map rx_inv_def)
    moreover have "tr_sender (snd (get_remote_diff rops T)) = tr_sender T"
      by (simp add: get_remote_diff_def Let_def)
    ultimately show ?thesis using TakeDiff st inv g(2) by (simp add: rx_step_def acks_newest_def)
  qed
qed

end
