(* ===== verification/Protobuf.thy ===== *)
theory Protobuf
  imports Morsh_Prelude
begin

text \<open>
  The wire format of Protocol Buffers, as far as the schemas in \<open>proto/\<close> use it: base-128 varints,
  varint fields and length-delimited fields. The Rust code is generated from the schemas by
  \<open>prost\<close>, which is a parameter of the components that use it; this theory is the documented format,
  and shows that what those components assume of the generated code is consistent.
\<close>

datatype field = VarintF nat nat | BytesF nat bytes

function varint :: "nat \<Rightarrow> bytes" where
  "varint n = (if n < 128 then [word_of_nat n] else word_of_nat (n mod 128 + 128) # varint (n div 128))"
  by pat_completeness auto
termination
  by (relation "measure id") auto

declare varint.simps [simp del]

fun unvarint :: "bytes \<Rightarrow> (nat \<times> bytes) option" where
  "unvarint [] = None"
| "unvarint (b # bs) =
     (if unat b < 128 then Some (unat b, bs)
      else case unvarint bs of
             None \<Rightarrow> None
           | Some (n, rest) \<Rightarrow> Some (unat b - 128 + 128 * n, rest))"

fun enc_field :: "field \<Rightarrow> bytes" where
  "enc_field (VarintF k v) = varint (8 * k) @ varint v"
| "enc_field (BytesF k b) = varint (8 * k + 2) @ varint (length b) @ b"

definition enc_fields :: "field list \<Rightarrow> bytes" where
  "enc_fields fs = concat (map enc_field fs)"

lemma unvarint_length: "unvarint bs = Some (n, rest) \<Longrightarrow> length rest < length bs"
  by (induction bs arbitrary: n) (fastforce split: if_splits option.splits)+

function dec_fields :: "bytes \<Rightarrow> field list option" where
  "dec_fields bs =
     (if bs = [] then Some []
      else case unvarint bs of
        None \<Rightarrow> None
      | Some (key, r1) \<Rightarrow>
          (case unvarint r1 of
             None \<Rightarrow> None
           | Some (v, r2) \<Rightarrow>
               if key mod 8 = 0 then map_option ((#) (VarintF (key div 8) v)) (dec_fields r2)
               else if key mod 8 = 2 \<and> v \<le> length r2
               then map_option ((#) (BytesF (key div 8) (take v r2))) (dec_fields (drop v r2))
               else None))"
  by pat_completeness auto
termination
  by (relation "measure length") (fastforce dest: unvarint_length)+

declare dec_fields.simps [simp del]

text \<open>The last occurrence of a scalar field wins.\<close>

definition varint_of :: "nat \<Rightarrow> field list \<Rightarrow> nat option" where
  "varint_of k fs = fold (\<lambda>f r. case f of VarintF j v \<Rightarrow> if j = k then Some v else r | _ \<Rightarrow> r) fs None"

definition bytes_of :: "nat \<Rightarrow> field list \<Rightarrow> bytes option" where
  "bytes_of k fs = fold (\<lambda>f r. case f of BytesF j v \<Rightarrow> if j = k then Some v else r | _ \<Rightarrow> r) fs None"

definition all_bytes_of :: "nat \<Rightarrow> field list \<Rightarrow> bytes list" where
  "all_bytes_of k fs =
     concat (map (\<lambda>f. case f of BytesF j v \<Rightarrow> if j = k then [v] else [] | _ \<Rightarrow> []) fs)"

definition opt_field :: "('a \<Rightarrow> field) \<Rightarrow> 'a option \<Rightarrow> field list" where
  "opt_field f v = (case v of None \<Rightarrow> [] | Some x \<Rightarrow> [f x])"

fun traverse :: "('a \<Rightarrow> 'b option) \<Rightarrow> 'a list \<Rightarrow> 'b list option" where
  "traverse f [] = Some []"
| "traverse f (x # xs) =
     (case f x of None \<Rightarrow> None | Some y \<Rightarrow> map_option ((#) y) (traverse f xs))"

section \<open>Round trips\<close>

lemma unat_small: "n < 256 \<Longrightarrow> unat (word_of_nat n :: u8) = n"
  by (simp add: unat_of_nat)

lemma unvarint_varint [simp]: "unvarint (varint n @ r) = Some (n, r)"
proof (induction n rule: varint.induct)
  case (1 n)
  show ?case
  proof (cases "n < 128")
    case True
    then show ?thesis by (subst varint.simps) (simp add: unat_small)
  next
    case False
    have "n mod 128 + 128 < 256" by (simp add: less_trans [OF add_strict_right_mono [of _ 128]])
    then have "unat (word_of_nat (n mod 128 + 128) :: u8) = n mod 128 + 128" by (rule unat_small)
    then show ?thesis using False 1 by (subst varint.simps) simp
  qed
qed

lemma varint_ne [simp]: "varint n \<noteq> []"
  by (subst varint.simps) simp

lemma enc_field_ne [simp]: "enc_field f \<noteq> []"
  by (cases f) simp_all

lemma enc_fields_Nil [simp]: "enc_fields [] = []"
  and enc_fields_Cons: "enc_fields (f # fs) = enc_field f @ enc_fields fs"
  by (simp_all add: enc_fields_def)

lemma enc_fields_empty [simp]: "enc_fields fs = [] \<longleftrightarrow> fs = []"
  by (cases fs) (simp_all add: enc_fields_Cons)

lemma bytes_key: "Suc (Suc (8 * k)) mod 8 = 2" "Suc (Suc (8 * k)) div 8 = k"
  by presburger+

lemma dec_fields_Nil [simp]: "dec_fields [] = Some []"
  by (subst dec_fields.simps) simp

lemma dec_enc_fields [simp]: "dec_fields (enc_fields fs) = Some fs"
proof (induction fs)
  case Nil
  then show ?case by simp
next
  case (Cons f fs)
  then show ?case
    by (cases f; subst dec_fields.simps) (simp_all add: enc_fields_Cons bytes_key)
qed

lemma traverse_map: "(\<And>x. x \<in> set xs \<Longrightarrow> f (g x) = Some x) \<Longrightarrow> traverse f (map g xs) = Some xs"
  by (induction xs) auto

lemma all_bytes_map [simp]: "all_bytes_of k (map (BytesF k) bs) = bs"
  by (induction bs) (simp_all add: all_bytes_of_def)

interpretation fields_wire: wire_format enc_fields dec_fields "\<lambda>_. True"
  by unfold_locales simp

end
