(* ===== verification/Network_Properties.thy ===== *)
theory Network_Properties
  imports Transport_Laws Protobuf
begin

text \<open>
  The properties of the network crate and of the cryptography below it: keys and sessions, the
  fragment layer, the datagram connection, the sender's schedule, and the receiving half.

  The first section holds concrete functions for the parameters of the model, at which the
  hypotheses about them hold: an authenticated cipher with a constant tag, the documented Protocol
  Buffers form of \<open>proto/transportinstruction.proto\<close> with stored (uncompressed) payloads, and
  base64 of 16 octets with the standard alphabet.
\<close>

section \<open>Instances of the parameters\<close>

definition plain_ocb :: ocb where
  "plain_ocb = \<lparr>ocb_encrypt = (\<lambda>k n p. Some (p, replicate 16 0)), ocb_decrypt = (\<lambda>k n c t. Some c)\<rparr>"

lemma plain_ocb_laws: "ocb_laws plain_ocb"
  by (simp add: ocb_laws_def plain_ocb_def)

definition u64_field :: "nat \<Rightarrow> u64 \<Rightarrow> field" where
  "u64_field k v = VarintF k (unat v)"

definition pb_instruction :: "instruction \<Rightarrow> bytes" where
  "pb_instruction i = enc_fields
     (opt_field (\<lambda>v. VarintF 1 (unat v)) (protocol_version i) @
      opt_field (u64_field 2) (old_num i) @ opt_field (u64_field 3) (new_num i) @
      opt_field (u64_field 4) (ack_num i) @ opt_field (u64_field 5) (throwaway_num i) @
      opt_field (BytesF 6) (diff i) @ opt_field (BytesF 7) (chaff i))"

definition unpb_instruction :: "bytes \<Rightarrow> instruction option" where
  "unpb_instruction bs = map_option (\<lambda>fs.
     \<lparr>protocol_version = map_option word_of_nat (varint_of 1 fs),
      old_num = map_option word_of_nat (varint_of 2 fs),
      new_num = map_option word_of_nat (varint_of 3 fs),
      ack_num = map_option word_of_nat (varint_of 4 fs),
      throwaway_num = map_option word_of_nat (varint_of 5 fs),
      diff = bytes_of 6 fs, chaff = bytes_of 7 fs\<rparr>) (dec_fields bs)"

definition pb_codec :: codec where
  "pb_codec = \<lparr>encode_inst = pb_instruction, decode_inst = unpb_instruction,
     zlib_deflate = Some, zlib_inflate = Some\<rparr>"

lemma opt_field_simps [simp]: "opt_field f None = []" "opt_field f (Some x) = [f x]"
  by (simp_all add: opt_field_def)

lemma varint_of_append: "varint_of k (fs @ gs) = (case varint_of k gs of None \<Rightarrow> varint_of k fs | v \<Rightarrow> v)"
proof (induction gs rule: rev_induct)
  case (snoc g gs)
  then show ?case by (cases g) (auto simp: varint_of_def split: option.splits)
qed (simp add: varint_of_def)

lemma bytes_of_append: "bytes_of k (fs @ gs) = (case bytes_of k gs of None \<Rightarrow> bytes_of k fs | v \<Rightarrow> v)"
proof (induction gs rule: rev_induct)
  case (snoc g gs)
  then show ?case by (cases g) (auto simp: bytes_of_def split: option.splits)
qed (simp add: bytes_of_def)

lemma varint_of_opt:
  "varint_of k (opt_field (\<lambda>v. VarintF j (g v)) x) = (if j = k then map_option g x else None)"
  "varint_of k (opt_field (BytesF j) y) = None"
  by (cases x; simp add: varint_of_def) (cases y; simp add: varint_of_def)

lemma bytes_of_opt:
  "bytes_of k (opt_field (\<lambda>v. VarintF j (g v)) x) = None"
  "bytes_of k (opt_field (BytesF j) y) = (if j = k then y else None)"
  by (cases x; simp add: bytes_of_def) (cases y; simp add: bytes_of_def)

lemma unpb_pb_instruction: "unpb_instruction (pb_instruction i) = Some i"
proof -
  have f: "u64_field k = (\<lambda>v. VarintF k (unat v))" for k by (rule ext) (simp add: u64_field_def)
  have w: "map_option (word_of_nat \<circ> unat) x = (x :: 'b::len word option)" for x
    by (cases x) simp_all
  show ?thesis
    unfolding unpb_instruction_def pb_instruction_def f
    by (simp add: varint_of_append bytes_of_append varint_of_opt bytes_of_opt option.map_comp w
        split: option.splits)
qed

lemma pb_codec_laws: "codec_laws pb_codec"
  by (simp add: codec_laws_def pb_codec_def unpb_pb_instruction)

text \<open>Base64 of 128 bits: 22 digits of the number, shifted by the four bits of padding.\<close>

fun digits64 :: "nat \<Rightarrow> nat \<Rightarrow> nat list" where
  "digits64 0 n = []"
| "digits64 (Suc k) n = digits64 k (n div 64) @ [n mod 64]"

definition undigits64 :: "nat list \<Rightarrow> nat" where
  "undigits64 ds = foldl (\<lambda>a d. a * 64 + d) 0 ds"

definition alphabet :: string where
  "alphabet = ''ABCDEFGHIJKLMNOPQRSTUVWXYZabcdefghijklmnopqrstuvwxyz0123456789+/''"

definition std_b64 :: b64 where
  "std_b64 =
     \<lparr>b64_encode = (\<lambda>k. map ((!) alphabet) (digits64 22 (from_be k * 16)) @ ''==''),
      b64_decode = (\<lambda>s.
        if length s \<noteq> 24 \<or> drop 22 s \<noteq> ''=='' then None
        else (case traverse (\<lambda>c. position (\<lambda>x. x = c) alphabet) (take 22 s) of
                None \<Rightarrow> None
              | Some ds \<Rightarrow> if undigits64 ds mod 16 \<noteq> 0 then None
                            else Some (to_be 16 (undigits64 ds div 16))))\<rparr>"

lemma length_digits64 [simp]: "length (digits64 k n) = k"
  by (induction k arbitrary: n) auto

lemma digits64_less: "d \<in> set (digits64 k n) \<Longrightarrow> d < 64"
  by (induction k arbitrary: n) auto

lemma undigits_digits: "undigits64 (digits64 k n) = n mod 64 ^ k"
proof (induction k arbitrary: n)
  case (Suc k)
  have "n mod (64 * 64 ^ k) = 64 * (n div 64 mod 64 ^ k) + n mod 64" by (rule mod_mult2_eq)
  with Suc show ?case by (simp add: undigits64_def mult.commute)
qed (simp add: undigits64_def)

lemma alphabet_distinct: "distinct alphabet" and alphabet_length: "length alphabet = 64"
  unfolding alphabet_def by code_simp+

lemma alphabet_position: "d < 64 \<Longrightarrow> position (\<lambda>x. x = alphabet ! d) alphabet = Some d"
  using alphabet_distinct alphabet_length by (auto simp: position_Some nth_eq_iff_index_eq)

lemma std_b64_laws: "b64_laws std_b64"
  unfolding b64_laws_def
proof (intro allI impI)
  fix k :: bytes assume k: "length k = 16"
  let ?ds = "digits64 22 (from_be k * 16)"
  have lt: "from_be k < 256 ^ 16" using from_be_less [of k] k by simp
  then have "from_be k * 16 < 64 ^ 22" by simp
  then have u: "undigits64 ?ds = from_be k * 16" by (simp add: undigits_digits)
  have t: "traverse (\<lambda>c. position (\<lambda>x. x = c) alphabet) (map ((!) alphabet) ?ds) = Some ?ds"
    by (rule traverse_map) (rule alphabet_position, rule digits64_less)
  have "to_be 16 (from_be k) = k" using to_be_from_be [of k] k by simp
  then have "b64_decode std_b64 (map ((!) alphabet) ?ds @ ''=='') = Some k"
    by (simp add: std_b64_def t u del: digits64.simps)
  then show "\<exists>s. length s = 22 \<and> b64_encode std_b64 k = s @ ''=='' \<and> b64_decode std_b64 (s @ ''=='') = Some k"
    by (intro exI [of _ "map ((!) alphabet) ?ds"]) (simp add: std_b64_def del: digits64.simps)
qed

section \<open>Keys and sessions\<close>

text \<open>
  A session key survives being printed and read back, the printed form has 22 characters, and it
  is the only string that reads as that key.
\<close>

theorem printed_key_reads_back:
  assumes "b64_laws B" and "length key = 16"
  shows "\<exists>p. printable_key B key = Some p \<and> length p = 22 \<and> from_printable B p = Some (Inr key) \<and>
    (\<forall>p'. from_printable B p' = Some (Inr key) \<longrightarrow> p' = p)"
proof -
  obtain s where s: "length s = 22" "b64_encode B key = s @ ''==''" "b64_decode B (s @ ''=='') = Some key"
    using assms unfolding b64_laws_def by blast
  have p: "printable_key B key = Some s" using s by (simp add: printable_key_def)
  have "p' = s" if "from_printable B p' = Some (Inr key)" for p'
    using that p by (auto simp: from_printable_def split: if_splits option.splits)
  then show ?thesis using s p assms(2) by (auto simp: from_printable_def)
qed

theorem printed_key_reads_back_witness:
  "\<exists>p. printable_key std_b64 (replicate 16 7) = Some p \<and> length p = 22 \<and>
     from_printable std_b64 p = Some (Inr (replicate 16 7))"
  using printed_key_reads_back [OF std_b64_laws, of "replicate 16 7"] by auto

text \<open>
  A sealed message opens to itself at every session with the same key, costs 24 bytes more than its
  text, and advances the block counter by the blocks of the text; sealing panics exactly when the
  counter would reach \<open>2 ^ 47\<close>.
\<close>

theorem seal_opens:
  assumes "ocb_laws C" and "length (cipher_key s) = 16" and "nonce_inv (msg_nonce m)"
  shows "let blocks = blocks_encrypted s + div_ceil (length (msg_text m)) 16 in
    if blocks < 2 ^ 47
    then \<exists>wire. session_encrypt C s m = Some (wire, s\<lparr>blocks_encrypted := blocks\<rparr>) \<and>
           length wire = length (msg_text m) + 24 \<and>
           (\<forall>peer. cipher_key peer = cipher_key s \<longrightarrow> session_decrypt C peer wire = Inr m)
    else session_encrypt C s m = None"
proof -
  let ?b = "blocks_encrypted s + div_ceil (length (msg_text m)) 16"
  have m: "m = \<lparr>msg_nonce = msg_nonce m, msg_text = msg_text m\<rparr>" by simp
  have nl: "length (cc_str (msg_nonce m)) = 8" using assms(3) by (simp add: nonce_inv_def cc_str_def)
  show ?thesis
  proof (cases "?b < 2 ^ 47")
    case True
    obtain c t where e: "session_encrypt C s m =
        Some (cc_str (msg_nonce m) @ c @ t, s\<lparr>blocks_encrypted := ?b\<rparr>)"
      "length c = length (msg_text m)" "length t = 16"
      "ocb_decrypt C (cipher_key s) (nonce_data (msg_nonce m)) c t = Some (msg_text m)"
      using session_encrypt_Some [OF assms True] by blast
    have "session_decrypt C peer (cc_str (msg_nonce m) @ c @ t) = Inr m"
      if "cipher_key peer = cipher_key s" for peer
      using session_decrypt_wire [OF assms(3) e(3), of C peer c "msg_text m"] e(4) that m by simp
    then show ?thesis using True e nl by (auto simp: Let_def)
  next
    case False
    then have "?b div 2 ^ 47 \<noteq> 0" by (simp add: div_eq_0_iff)
    then show ?thesis
      using False by (auto simp: session_encrypt_def Let_def split: option.splits prod.splits)
  qed
qed

theorem seal_opens_witness:
  "\<exists>wire. session_encrypt plain_ocb (session_new (replicate 16 3)) \<lparr>msg_nonce = from_val 5, msg_text = [1, 2]\<rparr> =
       Some (wire, (session_new (replicate 16 3))\<lparr>blocks_encrypted := 1\<rparr>) \<and>
     session_decrypt plain_ocb (session_new (replicate 16 3)) wire = Inr \<lparr>msg_nonce = from_val 5, msg_text = [1, 2]\<rparr>"
  using seal_opens [OF plain_ocb_laws, of "session_new (replicate 16 3)"
      "\<lparr>msg_nonce = from_val 5, msg_text = [1, 2]\<rparr>"]
  by (auto simp: session_new_def div_ceil_def Let_def)

section \<open>Fragments\<close>

lemma make_fragments_Inr:
  assumes "make_fragments Z F inst mp = (Inr fs, F')" and "codec_laws Z"
  shows "0 < mp \<and> (\<exists>c. zlib_inflate Z c = Some (encode_inst Z inst) \<and>
    fs = cut_fragments (next_instruction_id F') mp c)"
proof -
  obtain c where c: "zlib_deflate Z (encode_inst Z inst) = Some c" "zlib_inflate Z c = Some (encode_inst Z inst)"
    using assms(2) unfolding codec_laws_def by blast
  with assms(1) show ?thesis
    by (auto simp: make_fragments_def compress_def Let_def split: if_splits)
qed

lemma cut_numbers:
  assumes "0 < mp" and "length (cut_fragments fid mp c) \<le> 32768" and "f \<in> set (cut_fragments fid mp c)"
  shows "fragment_num f < 0x8000"
proof -
  obtain i where i: "i < length (cut_fragments fid mp c)" "f = cut_fragments fid mp c ! i"
    using assms(3) by (auto simp: in_set_conv_nth)
  have "wf_frags (cut_fragments fid mp c)" using assms(1,2) by (intro wf_cut) auto
  then have "unat (fragment_num f) = i" using i by (simp add: wf_frags_def)
  then show ?thesis using i(1) assms(2) by (simp add: word_less_nat_alt)
qed

lemma cut_payload_length: "f \<in> set (cut_fragments fid mp c) \<Longrightarrow> length (payload f) \<le> mp"
  by (auto simp: cut_fragments_def Let_def dest!: set_zip_rightD chunk_length split: if_splits)

lemma make_fragments_decode:
  assumes "make_fragments Z F inst mp = (Inr fs, F')" and "codec_laws Z" and "length fs \<le> 32768"
  shows "wf_frags fs" and "\<forall>f\<in>set fs. fragment_num f < 0x8000" and "frag_id (hd fs) = next_instruction_id F'"
    and "decode_payload Z (concat (map payload fs)) = Inr inst"
proof -
  obtain c where mp: "0 < mp" and c: "zlib_inflate Z c = Some (encode_inst Z inst)"
    and fs: "fs = cut_fragments (next_instruction_id F') mp c"
    using make_fragments_Inr [OF assms(1,2)] by blast
  show wf: "wf_frags fs" unfolding fs using mp assms(3) fs by (intro wf_cut) auto
  show "\<forall>f\<in>set fs. fragment_num f < 0x8000" using cut_numbers [OF mp] assms(3) fs by blast
  have "fs \<noteq> []" using wf by (simp add: wf_frags_def)
  then show "frag_id (hd fs) = next_instruction_id F'"
    using cut_nth [OF mp, of 0 "next_instruction_id F'" c] fs by (simp add: hd_conv_nth)
  show "decode_payload Z (concat (map payload fs)) = Inr inst"
    using cut_payloads [OF mp] c assms(2) unfolding fs
    by (simp add: decode_payload_def decompress_def codec_laws_def)
qed

lemma send_fragments_frame:
  assumes "send_fragments C os wall now c fs = Some (r, ws, c')"
  shows "fragger c' = fragger c" and "\<forall>w\<in>set ws. \<exists>f\<in>set fs.
    length w = ADDED_BYTES + SESSION_ADDED_BYTES + FRAG_HEADER_LEN + length (payload f)"
  using assms
proof (induction fs arbitrary: c r ws)
  case (Cons f fs)
  {
    case 1
    then show ?case using Cons(1) by (auto simp: encrypt_fragment_def Let_def split: option.splits if_splits)
  next
    case 2
    then show ?case
      using Cons(2) encrypt_fragment_length by (fastforce split: option.splits if_splits)
  }
qed auto

lemma send_all_length:
  "send_fragments C (\<lambda>_. True) wall now c fs = Some (r, ws, c') \<Longrightarrow> length ws = length fs"
  by (induction fs arbitrary: c r ws) (auto split: option.splits)

lemma conn_send_parts:
  assumes "conn_send C Z os wall now c inst = Some (r, wires, c')"
  shows "wires = [] \<or> (\<exists>fs F. make_fragments Z (fragger c) inst (max_fragment_payload MTU_IPV4) = (Inr fs, F) \<and>
     send_fragments C os wall now (c\<lparr>fragger := F\<rparr>) fs = Some (r, wires, c'))"
  using assms by (auto simp: conn_send_def split: option.splits prod.splits sum.splits)

lemma instruction_crosses:
  assumes laws: "ocb_laws C" "codec_laws Z" and key: "length (cipher_key (conn_session c)) = 16"
    and send: "conn_send C Z (\<lambda>_. True) wall now c inst = Some (Inr (), wires, c')"
    and small: "length wires \<le> 32768" "unat (send_seq c) + length wires \<le> 2 ^ 63"
    and peer: "cipher_key (conn_session p) = cipher_key (conn_session c)" "is_server p \<noteq> is_server c"
      "current_id (assembler p) \<noteq> Some (next_instruction_id (fragger c'))"
    and order: "set is = {..<length wires} - {k}" "k < length wires"
  shows "fst (receive_all C Z wall' now' addr p (map ((!) wires) (is @ [k]))) =
      replicate (length is) (Inr None) @ [Inr (Some inst)]"
proof -
  have "wires \<noteq> []" using order(2) by auto
  then obtain fs F where mk: "make_fragments Z (fragger c) inst (max_fragment_payload MTU_IPV4) = (Inr fs, F)"
    and sf: "send_fragments C (\<lambda>_. True) wall now (c\<lparr>fragger := F\<rparr>) fs = Some (Inr (), wires, c')"
    using conn_send_parts [OF send] by blast
  have F: "fragger c' = F" using send_fragments_frame(1) [OF sf] by simp
  have len: "length wires = length fs" by (rule send_all_length [OF sf])
  note d = make_fragments_decode [OF mk laws(2)]
  have all: "list_all2 (carries C (cipher_key (conn_session c)) (is_server c)) wires fs"
    using send_fragments_carries [OF sf] small len d laws key by simp
  let ?js = "is @ [k]"
  have js: "\<forall>i\<in>set ?js. i < length wires" using order by auto
  have pick: "list_all2 (carries C (cipher_key (conn_session c)) (is_server c))
      (map ((!) wires) ?js) (map ((!) fs) ?js)"
    by (rule list_all2_pick [OF all js])
  have "fst (receive_all C Z wall' now' addr p (map ((!) wires) ?js)) =
      map lift_frag (fst (deliver Z (assembler p) (map ((!) fs) ?js)))"
    by (rule receive_all_deliver [OF laws(1) key pick peer(1,2)])
  moreover have "\<exists>A'. deliver Z (assembler p) (map ((!) fs) ?js) =
      (replicate (length is) (Inr None) @ [Inr (Some inst)], A')"
    using deliver_all [of fs "assembler p" "is" k Z] d peer(3) F order len small(1) by simp
  ultimately show ?thesis by (auto simp: lift_frag_def)
qed

text \<open>
  C8. An instruction that one end sends comes out of the other end's assembler unchanged, exactly when
  the last missing datagram arrives, whatever the order in which the datagrams arrive and however
  often they are repeated before; until then every datagram is reported as incomplete.
\<close>

theorem instruction_crosses_the_wire:
  assumes laws: "ocb_laws C" "codec_laws Z" and key: "length (cipher_key (conn_session c)) = 16"
    and send: "conn_send C Z (\<lambda>_. True) wall now c inst = Some (Inr (), wires, c')"
    and small: "length wires \<le> 32768" "unat (send_seq c) + length wires \<le> 2 ^ 63"
    and peer: "cipher_key (conn_session p) = cipher_key (conn_session c)" "is_server p \<noteq> is_server c"
      "current_id (assembler p) \<noteq> Some (next_instruction_id (fragger c'))"
    and order: "set is = {..<length wires} - {k}" "k < length wires"
  shows "fst (receive_all C Z wall' now' addr p (map ((!) wires) (is @ [k]))) =
      replicate (length is) (Inr None) @ [Inr (Some inst)]"
  by (rule instruction_crosses [OF assms])

text \<open>A small instruction and a client connection that has an address to send to.\<close>

definition demo_instruction :: instruction where
  "demo_instruction = \<lparr>protocol_version = Some 2, old_num = Some 0, new_num = Some 1, ack_num = Some 0,
     throwaway_num = Some 0, diff = Some [104, 105], chaff = None\<rparr>"

definition demo_end :: "bool \<Rightarrow> connection" where
  "demo_end server = set_remote_addr (connection_build 3 (session_new (replicate 16 9)) server 0) 7"

lemma small_send:
  assumes ne: "pb_instruction i \<noteq> []" and len: "length (pb_instruction i) \<le> 1214"
  shows "\<exists>w c'. conn_send plain_ocb pb_codec (\<lambda>_. True) 0 0
      (set_remote_addr (connection_build s (session_new key) server t) a) i = Some (Inr (), [w], c') \<and>
    next_instruction_id (fragger c') = 1"
proof -
  let ?c = "pb_instruction i"
  have ch: "chunks 1214 ?c = [?c]" using ne len by (simp add: chunks.simps)
  have dc: "div_ceil (length ?c) 1214 \<le> 1" using len by (simp add: div_ceil_le_iff)
  have m: "make_fragments pb_codec fragmenter_new i 1214 =
     (Inr [\<lparr>frag_id = 1, final_flag = True, fragment_num = 0, payload = ?c\<rparr>],
      \<lparr>next_instruction_id = 1, last_instruction = Some i, last_max_payload = Some 1214\<rparr>)"
    using ch dc by (simp add: make_fragments_def is_new_instruction_def fragmenter_new_def compress_def
        pb_codec_def cut_fragments_def Let_def)
  have "div_ceil (14 + length ?c) 16 \<le> 77" using len by (simp add: div_ceil_le_iff)
  then have "div_ceil (14 + length ?c) 16 div 140737488355328 = 0" by (simp add: div_eq_0_iff)
  then show ?thesis
    unfolding conn_send_def max_fragment_payload_IPV4
    by (simp add: set_remote_addr_def connection_build_def m encrypt_fragment_def session_encrypt_def
        plain_ocb_def session_new_def TAG_BYTES_def length_to_bytes const_defs Let_def)
qed

lemma demo_send: "\<exists>w c'. conn_send plain_ocb pb_codec (\<lambda>_. True) 0 0 (demo_end False) demo_instruction =
    Some (Inr (), [w], c') \<and> next_instruction_id (fragger c') = 1"
  unfolding demo_end_def
proof (rule small_send)
  show "pb_instruction demo_instruction \<noteq> []" by (simp add: pb_instruction_def demo_instruction_def)
  show "length (pb_instruction demo_instruction) \<le> 1214"
    unfolding pb_instruction_def demo_instruction_def
    by (simp add: enc_fields_def u64_field_def varint.simps)
qed

theorem instruction_crosses_the_wire_witness:
  "\<exists>w c'. conn_send plain_ocb pb_codec (\<lambda>_. True) 0 0 (demo_end False) demo_instruction = Some (Inr (), [w], c') \<and>
     fst (receive_all plain_ocb pb_codec 0 0 7 (demo_end True) [w]) = [Inr (Some demo_instruction)]"
proof -
  obtain w c' where s: "conn_send plain_ocb pb_codec (\<lambda>_. True) 0 0 (demo_end False) demo_instruction =
      Some (Inr (), [w], c')" "next_instruction_id (fragger c') = 1" using demo_send by blast
  have "fst (receive_all plain_ocb pb_codec 0 0 7 (demo_end True) (map ((!) [w]) ([] @ [0]))) =
      replicate (length ([] :: nat list)) (Inr None) @ [Inr (Some demo_instruction)]"
    by (rule instruction_crosses_the_wire [OF plain_ocb_laws pb_codec_laws _ s(1)])
       (auto simp: s(2) demo_end_def set_remote_addr_def connection_build_def session_new_def assembly_new_def)
  then show ?thesis using s(1) by auto
qed

text \<open>
  C15. No datagram is longer than the IPv4 MTU the fragmenter was given, header, timestamps, nonce and
  tag included.
\<close>

theorem datagrams_fit_the_mtu:
  assumes "codec_laws Z" and "conn_send C Z os wall now c inst = Some (r, wires, c')"
  shows "\<forall>w\<in>set wires. length w \<le> MTU_IPV4"
proof -
  have "length w \<le> MTU_IPV4" if w: "w \<in> set wires" for w
  proof -
    obtain fs F where mk: "make_fragments Z (fragger c) inst (max_fragment_payload MTU_IPV4) = (Inr fs, F)"
      and sf: "send_fragments C os wall now (c\<lparr>fragger := F\<rparr>) fs = Some (r, wires, c')"
      using conn_send_parts [OF assms(2)] w by auto
    obtain d where mp: "0 < max_fragment_payload MTU_IPV4"
      and fs: "fs = cut_fragments (next_instruction_id F) (max_fragment_payload MTU_IPV4) d"
      using make_fragments_Inr [OF mk assms(1)] by blast
    have "length (payload f) \<le> max_fragment_payload MTU_IPV4" if "f \<in> set fs" for f
      using that cut_payload_length unfolding fs by blast
    then show ?thesis
      using send_fragments_frame(2) [OF sf] w by (fastforce simp: max_fragment_payload_def const_defs)
  qed
  then show ?thesis by blast
qed

theorem datagrams_fit_the_mtu_witness:
  "\<exists>w c'. conn_send plain_ocb pb_codec (\<lambda>_. True) 0 0 (demo_end False) demo_instruction = Some (Inr (), [w], c') \<and>
     length w \<le> 1252"
  using demo_send datagrams_fit_the_mtu [OF pb_codec_laws]
  by (fastforce simp: const_defs)

text \<open>
  Whatever fragments a peer sends, the internal inconsistency that \<open>assemble\<close> guards against (a
  complete count with a slot still empty) never arises.
\<close>

theorem no_fragment_goes_missing:
  assumes "reach assembly_init (assembly_step Z) A"
  shows "fst (add_fragment Z A f) \<noteq> Inl MissingFragment"
  by (rule add_fragment_not_missing [OF asm.reach_inv [OF assms]])

theorem no_fragment_goes_missing_witness:
  "fst (add_fragment pb_codec assembly_new \<lparr>frag_id = 4, final_flag = True, fragment_num = 2, payload = [1]\<rparr>)
     \<noteq> Inl MissingFragment"
  by (rule no_fragment_goes_missing, rule reach_init) (simp add: assembly_init_def)

section \<open>Round-trip times\<close>

text \<open>
  C16. Whatever samples arrive, the retransmission timeout stays between 50 ms and 1 s, the send
  interval between 20 ms and 250 ms, and no intermediate value of an update comes near the
  range of \<open>u64\<close>, so the unbounded arithmetic of the model is the arithmetic of the code.
\<close>

theorem rtt_bounded:
  assumes "reach rtt_init rtt_step r"
  shows "50 \<le> rto_ms r \<and> rto_ms r \<le> 1000 \<and>
    20 \<le> rtt_send_interval_ms r \<and> rtt_send_interval_ms r \<le> 250 \<and>
    3 * rttvar_ms r + abs_diff (srtt_ms r) 5000 < 2 ^ 64 \<and> 7 * srtt_ms r + 5000 < 2 ^ 64 \<and>
    srtt_ms r + 4 * rttvar_ms r < 2 ^ 64"
proof -
  have "rtt_inv r" by (rule rtt.reach_inv [OF assms])
  then have "srtt_ms r \<le> 5000" "rttvar_ms r \<le> 5000" by (simp_all add: rtt_inv_def)
  moreover have "50 \<le> rto_ms r \<and> rto_ms r \<le> 1000"
    unfolding rto_ms_def using clamp_bounds [of MIN_RTO_MS MAX_RTO_MS] by (simp add: const_defs)
  moreover have "20 \<le> rtt_send_interval_ms r \<and> rtt_send_interval_ms r \<le> 250"
    unfolding rtt_send_interval_ms_def using clamp_bounds [of SEND_INTERVAL_MIN_MS SEND_INTERVAL_MAX_MS]
    by (simp add: const_defs)
  ultimately show ?thesis by (simp add: abs_diff_def) linarith
qed

theorem rtt_bounded_witness:
  "rto_ms (rtt_update rtt_new 3000) = 1000 \<and> 50 \<le> rto_ms (rtt_update rtt_new 3000)"
proof -
  have "reach rtt_init rtt_step rtt_new" by (rule reach_init) (simp add: rtt_init_def)
  then have "reach rtt_init rtt_step (rtt_update rtt_new 3000)"
    by (rule reach_step [of _ _ _ 3000]) (simp add: rtt_step_def)
  from rtt_bounded [OF this] show ?thesis
    by (simp add: rto_ms_def rtt_update_def rtt_new_def clamp_def const_defs)
qed

section \<open>The connection\<close>

text \<open>
  C14. A datagram that one end made is refused when it is reflected back at an end of the same role,
  and refusing it changes nothing.
\<close>

theorem reflected_packets_refused:
  assumes "ocb_laws C" and "length (cipher_key (conn_session c)) = 16"
    and "encrypt_fragment C c wall now f = Some (wire, c')" and "send_seq c < TO_CLIENT_BIT"
    and "cipher_key (conn_session p) = cipher_key (conn_session c)" and "is_server p = is_server c"
  shows "process_incoming C Z p wall' n1 n2 wire peer =
    (Inl (WrongDirection (is_server p) (is_server p)), p)"
  by (rule process_incoming_reflected [OF assms])

definition demo_fragment :: fragment where
  "demo_fragment = \<lparr>frag_id = 1, final_flag = True, fragment_num = 0, payload = [5]\<rparr>"

lemma demo_encrypt: "\<exists>w c'. encrypt_fragment plain_ocb (demo_end sv) 0 0 demo_fragment = Some (w, c')"
  by (simp add: demo_end_def demo_fragment_def set_remote_addr_def connection_build_def encrypt_fragment_def
      session_encrypt_def plain_ocb_def session_new_def TAG_BYTES_def length_to_bytes const_defs
      div_ceil_def Let_def)

theorem reflected_packets_refused_witness:
  "\<exists>w c'. encrypt_fragment plain_ocb (demo_end True) 0 0 demo_fragment = Some (w, c') \<and>
     process_incoming plain_ocb pb_codec (demo_end True) 0 0 0 w 1 = (Inl (WrongDirection True True), demo_end True)"
proof -
  obtain w c' where e: "encrypt_fragment plain_ocb (demo_end True) 0 0 demo_fragment = Some (w, c')"
    using demo_encrypt by blast
  have "is_server (demo_end True)" "length (cipher_key (conn_session (demo_end True))) = 16"
    "send_seq (demo_end True) < TO_CLIENT_BIT"
    by (simp_all add: demo_end_def set_remote_addr_def connection_build_def session_new_def TO_CLIENT_BIT_def
        word_gt_0)
  then show ?thesis
    using e reflected_packets_refused [OF plain_ocb_laws _ e, of "demo_end True" pb_codec 0 0 0 1] by auto
qed

text \<open>
  C13. Only an authentic packet of the peer that is not older than the newest one moves anything but
  the assembler: a datagram that does not decrypt, travels in the wrong direction or is malformed
  leaves the connection as it was, and one that is late reaches only the assembler, so a replayed
  packet can neither redirect the server's replies nor disturb the round-trip estimate.
\<close>

theorem replays_do_not_redirect:
  "case session_decrypt C (conn_session c) data of
     Inl e \<Rightarrow> snd (process_incoming C Z c wall n1 n2 data peer) = c
   | Inr msg \<Rightarrow>
       nonce_val (msg_nonce msg) AND NOT TO_CLIENT_BIT < expected_receiver_seq c \<longrightarrow>
       (\<exists>A. snd (process_incoming C Z c wall n1 n2 data peer) = c\<lparr>assembler := A\<rparr>)"
proof (cases "session_decrypt C (conn_session c) data")
  case (Inl e)
  then show ?thesis by (simp add: process_incoming_def)
next
  case (Inr msg)
  have same: "\<exists>A. c = c\<lparr>assembler := A\<rparr>" by (rule exI [of _ "assembler c"]) simp
  show ?thesis
    using Inr same conn_assemble_frame [of Z c]
    by (auto simp: process_incoming_def Let_def split: sum.splits)
qed

theorem replays_do_not_redirect_witness:
  "\<exists>w c' A. encrypt_fragment plain_ocb (demo_end False) 0 0 demo_fragment = Some (w, c') \<and>
     snd (process_incoming plain_ocb pb_codec ((demo_end True)\<lparr>expected_receiver_seq := 5\<rparr>) 0 0 0 w 3) =
       (demo_end True)\<lparr>expected_receiver_seq := 5, assembler := A\<rparr>"
proof -
  let ?p = "(demo_end True)\<lparr>expected_receiver_seq := 5\<rparr>"
  obtain w c' where e: "encrypt_fragment plain_ocb (demo_end False) 0 0 demo_fragment = Some (w, c')"
    using demo_encrypt by blast
  have d: "session_decrypt plain_ocb (conn_session ?p) w =
      Inr \<lparr>msg_nonce = from_val (send_nonce (demo_end False)), msg_text = wire_text (demo_end False) 0 0 demo_fragment\<rparr>"
    by (rule encrypt_fragment_decrypts(1) [OF plain_ocb_laws _ e])
       (simp_all add: demo_end_def set_remote_addr_def connection_build_def session_new_def)
  have "send_nonce (demo_end False) = 0"
    by (simp add: demo_end_def set_remote_addr_def connection_build_def send_nonce_def)
  then show ?thesis
    using e replays_do_not_redirect [where C = plain_ocb and c = ?p and data = w and Z = pb_codec and wall = 0
        and ?n1.0 = 0 and ?n2.0 = 0 and peer = 3] by (auto simp: d [simplified])
qed

text \<open>
  C12. Nonces are never reused. Take the whole lives of two ends of opposite roles: instructions sent,
  datagrams received, ports hopped, sends the socket refuses, in any order. Each datagram that left
  either end was sealed by the cipher under the very nonce in its first eight octets, and these are
  pairwise distinct over all datagrams of both ends, as long as each end sends fewer than \<open>2 ^ 63\<close>.
\<close>

theorem nonces_never_repeat:
  assumes life: "conn_life C Z c es = Some (ws, c')" "conn_life C' Z' d fs = Some (ws', d')"
    and room: "unat (send_seq c) + length ws + length es \<le> 2 ^ 63" "unat (send_seq d) + length ws' + length fs \<le> 2 ^ 63"
    and roles: "is_server d \<noteq> is_server c"
  shows "distinct (map (take 8) (ws @ ws')) \<and>
    (\<forall>w\<in>set ws. \<exists>p ct tag. ocb_encrypt C (cipher_key (conn_session c)) (replicate 4 0 @ take 8 w) p = Some (ct, tag) \<and>
       drop 8 w = ct @ tag)"
proof -
  have s: "from_seqs C c c' ws" "unat (send_seq c') \<le> 2 ^ 63" "from_seqs C' d d' ws'" "unat (send_seq d') \<le> 2 ^ 63"
    using conn_life_sealed [OF life(1) room(1)] conn_life_sealed [OF life(2) room(2)] room by auto
  obtain vs where vs: "map (take 8) ws = map u64_to_be_bytes vs" "distinct vs"
    "\<forall>v\<in>set vs. (v AND TO_CLIENT_BIT \<noteq> 0) = is_server c" using seqs_nonces [OF s(1,2)] by blast
  obtain us where us: "map (take 8) ws' = map u64_to_be_bytes us" "distinct us"
    "\<forall>v\<in>set us. (v AND TO_CLIENT_BIT \<noteq> 0) = is_server d" using seqs_nonces [OF s(3,4)] by blast
  have "inj u64_to_be_bytes" by (rule inj_on_inverseI) (rule u64_be_roundtrip)
  moreover have "distinct (vs @ us)" using vs us roles by auto
  moreover have "map (take 8) (ws @ ws') = map u64_to_be_bytes (vs @ us)" using vs us by simp
  ultimately have "distinct (map (take 8) (ws @ ws'))" by (simp only: distinct_map) (blast intro: inj_on_subset)
  moreover have "\<exists>p ct tag. ocb_encrypt C (cipher_key (conn_session c)) (replicate 4 0 @ take 8 w) p = Some (ct, tag) \<and>
      drop 8 w = ct @ tag" if w: "w \<in> set ws" for w
  proof -
    obtain v where "sealed_under C (cipher_key (conn_session c)) v w"
      using s(1) w by (auto simp: from_seqs_def list_all2_conv_all_nth in_set_conv_nth)
    then show ?thesis by (rule sealed_under_nonce(2))
  qed
  ultimately show ?thesis by blast
qed

lemma small_send_on:
  assumes ne: "pb_instruction i \<noteq> []" and len: "length (pb_instruction i) \<le> 1214"
    and c: "remote_addr c = Some a" "blocks_encrypted (conn_session c) \<le> 1000"
  shows "\<exists>w c'. conn_send plain_ocb pb_codec (\<lambda>_. True) 0 0 c i = Some (Inr (), [w], c') \<and>
    remote_addr c' = Some a \<and> blocks_encrypted (conn_session c') \<le> blocks_encrypted (conn_session c) + 77"
proof -
  let ?p = "pb_instruction i"
  have ch: "chunks 1214 ?p = [?p]" using ne len by (simp add: chunks.simps)
  have dc: "div_ceil (length ?p) 1214 \<le> 1" using len by (simp add: div_ceil_le_iff)
  obtain n F where m: "make_fragments pb_codec (fragger c) i 1214 =
     (Inr [\<lparr>frag_id = n, final_flag = True, fragment_num = 0, payload = ?p\<rparr>], F)"
    using ch dc by (auto simp: make_fragments_def compress_def pb_codec_def cut_fragments_def Let_def)
  have k: "div_ceil (14 + length ?p) 16 \<le> 77" using len by (simp add: div_ceil_le_iff)
  then have "(blocks_encrypted (conn_session c) + div_ceil (14 + length ?p) 16) div 140737488355328 = 0"
    using c(2) by (simp add: div_eq_0_iff)
  with k show ?thesis
    unfolding conn_send_def max_fragment_payload_IPV4
    by (simp add: c m encrypt_fragment_def session_encrypt_def plain_ocb_def TAG_BYTES_def length_to_bytes FRAG_HEADER_LEN_def Let_def)
qed

lemma demo_life:
  assumes "i = demo_instruction" and "e = Sends (\<lambda>_. True) 0 0 i"
  shows "\<exists>ws c'. conn_life plain_ocb pb_codec (demo_end server) [e, Hops (Some 4) 5, e] = Some (ws, c') \<and> length ws = 2"
proof -
  have i: "pb_instruction i \<noteq> []" "length (pb_instruction i) \<le> 1214"
    unfolding pb_instruction_def demo_instruction_def assms by (simp_all add: enc_fields_def u64_field_def varint.simps)
  have d: "remote_addr (demo_end server) = Some 7" "blocks_encrypted (conn_session (demo_end server)) = 0"
    by (simp_all add: demo_end_def set_remote_addr_def connection_build_def session_new_def)
  obtain w c1 where s: "conn_send plain_ocb pb_codec (\<lambda>_. True) 0 0 (demo_end server) i = Some (Inr (), [w], c1)"
    "remote_addr c1 = Some 7" "blocks_encrypted (conn_session c1) \<le> 77"
    using small_send_on [OF i d(1)] d(2) by auto
  obtain h where h: "snd (hop_port c1 (Some 4) 5) = h" "remote_addr h = Some 7" "blocks_encrypted (conn_session h) \<le> 77"
    using s(2,3) by (simp add: hop_port_def)
  obtain w' c2 where "conn_send plain_ocb pb_codec (\<lambda>_. True) 0 0 h i = Some (Inr (), [w'], c2)"
    using small_send_on [OF i h(2)] h(3) by auto
  then show ?thesis using s(1) h(1) by (simp add: assms(2))
qed

text \<open>Two lives: each end sends, hops and sends again; the four datagrams carry four nonces.\<close>

theorem nonces_never_repeat_witness:
  "\<exists>ws ws' c' d' e. length ws = 2 \<and> length ws' = 2 \<and>
     conn_life plain_ocb pb_codec (demo_end True) [e, Hops (Some 4) 5, e] = Some (ws, c') \<and>
     conn_life plain_ocb pb_codec (demo_end False) [e, Hops (Some 4) 5, e] = Some (ws', d') \<and>
     distinct (map (take 8) (ws @ ws'))"
proof -
  let ?e = "Sends (\<lambda>_. True) 0 0 demo_instruction"
  obtain ws c' where a: "conn_life plain_ocb pb_codec (demo_end True) [?e, Hops (Some 4) 5, ?e] = Some (ws, c')" "length ws = 2"
    using demo_life by blast
  obtain ws' d' where b: "conn_life plain_ocb pb_codec (demo_end False) [?e, Hops (Some 4) 5, ?e] = Some (ws', d')" "length ws' = 2"
    using demo_life by blast
  have "unat (send_seq (demo_end sv)) = 0" "is_server (demo_end sv) = sv" for sv
    by (simp_all add: demo_end_def set_remote_addr_def connection_build_def)
  with nonces_never_repeat [OF a(1) b(1)] a b show ?thesis by (intro exI [of _ ws] exI [of _ ws'] exI [of _ c'] exI [of _ d'] exI [of _ ?e]) auto
qed

text \<open>
  Hopping ports keeps the new socket and at most ten of them, the most recent ones in order, and
  happens only on a client that has neither chosen a port nor completed a round trip for ten seconds.
\<close>

theorem hop_port_keeps_recent:
  assumes "hop_port c bound now = (r, c')"
  shows "case bound of
      None \<Rightarrow> r = Inl BindError \<and> c' = c
    | Some s \<Rightarrow> r = Inr () \<and> length (sockets c') \<le> 10 \<and> last (sockets c') = s \<and>
        suffix (sockets c') (sockets c @ [s]) \<and> last_port_choice c' = now \<and>
        \<not> should_hop_port c' (now + ms PORT_HOP_INTERVAL_MS)"
proof (cases bound)
  case None
  then show ?thesis using assms by (auto simp: hop_port_def)
next
  case (Some s)
  then have c': "c' = c\<lparr>sockets := drop (length (sockets c @ [s]) - MAX_PORTS_OPEN) (sockets c @ [s]),
      last_port_choice := now\<rparr>" and r: "r = Inr ()"
    using assms by (auto simp: hop_port_def prune_loop_eq)
  have "last (drop (length (sockets c @ [s]) - MAX_PORTS_OPEN) (sockets c @ [s])) = s"
    by (subst last_drop) (auto simp: const_defs)
  then show ?thesis using Some r unfolding c'
    by (auto simp: const_defs should_hop_port_def suffix_drop)
qed

theorem hop_port_keeps_recent_witness:
  "\<exists>r c'. hop_port (demo_end False) (Some 12) 50 = (r, c') \<and> last (sockets c') = 12 \<and>
     length (sockets c') \<le> 10"
proof -
  obtain r c' where h: "hop_port (demo_end False) (Some 12) 50 = (r, c')" by fastforce
  from hop_port_keeps_recent [OF h] h show ?thesis by auto
qed

section \<open>The sender\<close>

text \<open>A sender to run: bytes that are only ever appended to, sent whole.\<close>

definition byte_ops :: "bytes state_ops" where
  "byte_ops = \<lparr>has_prefix = False, state_clone = (\<lambda>s. s),
     diff_from = (\<lambda>s t. drop (length t) s), apply_string = (\<lambda>s d. Inr (s @ d)),
     subtract = (\<lambda>s t. s), state_equal = (\<lambda>s t. s = t), adopt_from = (\<lambda>s t. (s, t))\<rparr>"

lemma sender_new_reach: "reach (sender_init ops) (sender_step ops) (now, sender_new ops now s)"
  by (rule reach_init) (auto simp: sender_init_def)

text \<open>
  C11. After any sequence of calls the sender's history is not empty, at most 32 states long and in
  order of number and of time, and the assumed index is inside it: none of the accesses
  \<open>sent_states[0]\<close>, \<open>last().unwrap()\<close> and \<open>sent_states[assumed_receiver_state]\<close> can panic.
\<close>

theorem sender_history_sound:
  assumes "reach (sender_init ops) (sender_step ops) (now, S)"
  shows "sent_states S \<noteq> [] \<and> length (sent_states S) \<le> 32 \<and>
    assumed_receiver_state S < length (sent_states S) \<and>
    sorted_wrt (\<lambda>a b. ts_num a \<le> ts_num b \<and> timestamp a \<le> timestamp b) (sent_states S) \<and>
    (\<not> shutdown_in_progress S \<longrightarrow> distinct (map ts_num (sent_states S)) \<and> \<not> shutdown_acknowledged S)"
proof -
  have inv: "sender_inv now S" using sender.reach_inv [OF assms] by (simp add: sender_ok_def)
  then have h: "hist_inv now (shutdown_in_progress S) (sent_states S)" by (simp add: sender_inv_def)
  have "sorted_wrt (\<lambda>a b. ts_num a \<le> ts_num b \<and> timestamp a \<le> timestamp b) (sent_states S)"
    using h num_before_le unfolding hist_inv_def sorted_wrt_iff_nth_less by blast
  moreover have "distinct (map ts_num (sent_states S)) \<and> \<not> shutdown_acknowledged S"
    if run: "\<not> shutdown_in_progress S"
  proof -
    have "sorted_wrt (<) (map ts_num (sent_states S))"
      using h run unfolding hist_inv_def num_before_def sorted_wrt_map
      by (auto simp: sorted_wrt_iff_nth_less)
    moreover have "\<not> shutdown_acknowledged S"
      using h run by (auto simp: hist_inv_def shutdown_acknowledged_def)
    ultimately show ?thesis using strict_sorted_iff by blast
  qed
  ultimately show ?thesis
    using inv h by (auto simp: sender_inv_def hist_inv_def SENT_STATES_MAX_def)
qed

theorem sender_history_sound_witness:
  "sent_states (sender_new byte_ops 5 [1, 2]) \<noteq> [] \<and>
   assumed_receiver_state (sender_new byte_ops 5 [1, 2]) < length (sent_states (sender_new byte_ops 5 [1, 2])) \<and>
   \<not> shutdown_acknowledged (sender_new byte_ops 5 [1, 2])"
  using sender_history_sound [OF sender_new_reach, of byte_ops 5 "[1, 2]"]
  by (simp add: sender_new_def)

text \<open>
  C9. Every instruction a tick sends is a diff from the very state its \<open>old_num\<close> names in the
  sender's history to the current state, tells the receiver to keep what the sender may still diff
  from, and acknowledges what the sender was told to acknowledge; it is recorded as the last sent state.
\<close>

theorem tick_diffs_from_old_num:
  assumes "reach (sender_init ops) (sender_step ops) (clk, S)"
    and "sender_tick ops S now timeout srtt remote pad = (Some inst, S')"
  shows "\<exists>t\<in>set (sent_states (calculate_timers ops S now timeout srtt)).
      old_num inst = Some (ts_num t) \<and> diff inst = Some (diff_from ops (current_state S') (ts_state t)) \<and>
      new_num inst = Some (sent_state_last S') \<and> throwaway_num inst = Some (sent_state_acked S') \<and>
      ack_num inst = Some (sender_ack_num S') \<and> sent_state_acked S' \<le> ts_num t"
proof -
  let ?S1 = "calculate_timers ops S now timeout srtt"
  have inv: "sender_inv clk S" using sender.reach_inv [OF assms(1)] by (simp add: sender_ok_def)
  have inv1: "sender_inv clk ?S1" by (rule calculate_timers_inv [OF inv])
  then have ne: "sent_states ?S1 \<noteq> []" by (simp add: sender_inv_def hist_inv_def)
  obtain t d where t: "t \<in> set (sent_states ?S1)" and d: "d = diff_from ops (current_state ?S1) (ts_state t)"
    and i: "inst = emit_inst ops ?S1 t d pad" and h: "sent_states S' = emit_hist ops ?S1 d now"
    and k: "keeps ?S1 S'"
    using sender_tick_cases [OF assms(2) inv refl] by (auto simp: Let_def)
  have "sent_state_last S' = emit_num ops ?S1 d"
    using h ne by (auto simp: sent_state_last_def emit_hist_def)
  moreover have a: "sent_state_acked S' = ts_num (hd (sent_states ?S1))"
    using h ne by (auto simp: sent_state_acked_def emit_hist_def)
  moreover have "ts_num (hd (sent_states ?S1)) \<le> ts_num t"
    using hist_hd_num_le t inv1 by (auto simp: sender_inv_def)
  ultimately show ?thesis
    using t d i k by (auto simp: emit_inst_def keeps_def)
qed

definition demo_sender :: "bytes sender" where
  "demo_sender = set_current_state (sender_new byte_ops 0 []) [104, 105]"

lemma demo_sender_reach: "reach (sender_init byte_ops) (sender_step byte_ops) (0, demo_sender)"
  unfolding demo_sender_def by (rule reach_step [OF sender_new_reach]) (rule sender_step.intros)

lemmas sender_eval = sender_tick_def calculate_timers_def update_assumed_receiver_state_def
  rationalize_states_def schedule_send_def attempt_prospective_resend_optimization_def
  send_to_receiver_def build_instruction_def add_sent_state_def sent_state_last_def Let_def

lemma demo_sender_tick: "\<exists>inst S'. sender_tick byte_ops demo_sender 0 0 0 True [] = (Some inst, S') \<and>
    old_num inst = Some 0 \<and> diff inst = Some [104, 105]"
  by (simp add: sender_eval demo_sender_def byte_ops_def sender_new_def set_current_state_def
      SENT_STATES_MAX_def SHUTDOWN_NUM_def)

theorem tick_diffs_from_old_num_witness:
  "\<exists>inst S'. sender_tick byte_ops demo_sender 0 0 0 True [] = (Some inst, S') \<and>
     diff inst = Some [104, 105] \<and> new_num inst = Some (sent_state_last S')"
proof -
  obtain inst S' where t: "sender_tick byte_ops demo_sender 0 0 0 True [] = (Some inst, S')"
    and d: "diff inst = Some [104, 105]" using demo_sender_tick by blast
  show ?thesis using t d tick_diffs_from_old_num [OF demo_sender_reach t] by auto
qed

text \<open>
  Loss recovery: once the oldest unacknowledged state is older than the timeout plus the delay
  allowed for its acknowledgement, whatever a tick sends is a diff from the acknowledged state.
\<close>

lemma tick_from_first:
  assumes tick: "sender_tick ops S now timeout srtt remote pad = (Some inst, S')"
    and inv: "sender_inv clk S"
    and first: "assumed_receiver_state (calculate_timers ops S now timeout srtt) = 0"
  shows "old_num inst = Some (sent_state_acked S)"
proof -
  let ?S1 = "calculate_timers ops S now timeout srtt"
  have inv1: "sender_inv clk ?S1" by (rule calculate_timers_inv [OF inv])
  then have ne: "sent_states ?S1 \<noteq> []" and len: "length (sent_states ?S1) \<le> SENT_STATES_MAX"
    by (simp_all add: sender_inv_def hist_inv_def)
  have fl: "assumed_receiver_state ?S1 \<in> {0, length (sent_states ?S1) - 1}" using first by simp
  have sh: "shape (sent_states ?S1) = shape (sent_states S)" by (simp add: calculate_timers_fields)
  have hd: "ts_num (sent_states ?S1 ! assumed_receiver_state ?S1) = sent_state_acked S"
    using shape_hd_num [OF sh ne] first ne by (simp add: hd_conv_nth sent_state_acked_def)
  let ?d = "diff_from ops (current_state ?S1) (ts_state (sent_states ?S1 ! assumed_receiver_state ?S1))"
  have p: "attempt_prospective_resend_optimization ops ?S1 ?d = (?d, ?S1)"
    using first by (simp add: attempt_prospective_resend_optimization_def)
  obtain i1 A where a: "send_empty_ack ops ?S1 now pad = (i1, A)" by fastforce
  obtain i2 B where b: "send_to_receiver ops ?S1 ?d now pad = (i2, B)" by fastforce
  have "inst = i1 \<or> ?d \<noteq> [] \<and> inst = i2"
    using tick unfolding sender_tick_def Let_def p prod.case a b by (auto split: if_splits)
  then show ?thesis
    using send_empty_ack_emit(1) [OF a len ne fl] send_to_receiver_emit(1) [OF b _ len ne fl] hd
    by (auto simp: emit_inst_def)
qed

theorem recovery_diffs_from_acknowledged:
  assumes "reach (sender_init ops) (sender_step ops) (clk, S)"
    and late: "2 \<le> length (sent_states S)" "timestamp (sent_states S ! 1) + timeout + ms ACK_DELAY_MS \<le> now"
    and tick: "sender_tick ops S now timeout srtt remote pad = (Some inst, S')"
  shows "old_num inst = Some (sent_state_acked S)"
proof -
  have inv: "sender_inv clk S" using sender.reach_inv [OF assms(1)] by (simp add: sender_ok_def)
  obtain x y xs where xs: "sent_states S = x # y # xs"
    using late(1) by (metis Suc_le_length_iff numeral_2_eq_2)
  then have "\<not> now - timestamp y < timeout + ms ACK_DELAY_MS" using late(2) by simp
  then have "assumed_loop now (timeout + ms ACK_DELAY_MS) (tl (sent_states S)) 1 0 = 0"
    using xs by simp
  then show ?thesis
    by (intro tick_from_first [OF tick inv]) (simp add: calculate_timers_fields)
qed

text \<open>The same sender after it has sent, and lost, its first packet.\<close>

definition demo_waiting :: "bytes sender" where
  "demo_waiting = snd (sender_tick byte_ops demo_sender 0 0 0 True [])"

lemma demo_waiting_reach: "reach (sender_init byte_ops) (sender_step byte_ops) (0, demo_waiting)"
proof -
  have "num_room demo_sender"
    by (simp add: demo_sender_def num_room_def sent_state_last_def set_current_state_def sender_new_def
        SHUTDOWN_NUM_def word_gt_0)
  then have "sender_step byte_ops (0, demo_sender) (Tick 0 0 0 True []) (0, demo_waiting)"
    unfolding demo_waiting_def by (intro sender_step.intros) simp_all
  then show ?thesis by (rule reach_step [OF demo_sender_reach])
qed

lemma demo_waiting_states: "sent_states demo_waiting =
   [\<lparr>timestamp = 0, ts_num = 0, ts_state = []\<rparr>, \<lparr>timestamp = 0, ts_num = 1, ts_state = [104, 105]\<rparr>]"
  by (simp add: demo_waiting_def sender_eval demo_sender_def byte_ops_def sender_new_def
      set_current_state_def SENT_STATES_MAX_def SHUTDOWN_NUM_def)

theorem recovery_diffs_from_acknowledged_witness:
  "\<exists>inst S'. sender_tick byte_ops demo_waiting (ms 5000) (ms 50) 50 True [] = (Some inst, S') \<and>
     old_num inst = Some 0"
proof -
  have d: "demo_waiting = \<lparr>current_state = [104, 105],
     sent_states = [\<lparr>timestamp = 0, ts_num = 0, ts_state = []\<rparr>, \<lparr>timestamp = 0, ts_num = 1, ts_state = [104, 105]\<rparr>],
     assumed_receiver_state = 1, next_ack_time = ms ACK_INTERVAL_MS, next_send_time = None,
     shutdown_in_progress = False, shutdown_tries = 0, shutdown_start = None, sender_ack_num = 0,
     pending_data_ack = False, send_mindelay = ms SEND_MINDELAY_MS, last_heard = None, mindelay_clock = None\<rparr>"
    by (simp add: demo_waiting_def sender_eval demo_sender_def byte_ops_def sender_new_def
      set_current_state_def SENT_STATES_MAX_def SHUTDOWN_NUM_def)
  have "\<exists>inst S'. sender_tick byte_ops demo_waiting (ms 5000) (ms 50) 50 True [] = (Some inst, S')"
    unfolding d by (simp add: sender_eval byte_ops_def SENT_STATES_MAX_def SHUTDOWN_NUM_def const_defs ms_def
        sender_active_def)
  then obtain inst S' where t: "sender_tick byte_ops demo_waiting (ms 5000) (ms 50) 50 True [] = (Some inst, S')"
    by blast
  have "old_num inst = Some (sent_state_acked demo_waiting)"
    by (rule recovery_diffs_from_acknowledged [OF demo_waiting_reach _ _ t])
       (simp_all add: demo_waiting_states const_defs ms_def)
  then show ?thesis using t by (auto simp: sent_state_acked_def demo_waiting_states)
qed

text \<open>
  Shutdown is considered acknowledged only by an acknowledgement of the sentinel number, received
  by a sender that is itself shutting down: no other call can turn \<open>shutdown_acknowledged\<close> on.
\<close>

lemma acked_num_step:
  assumes "sender_inv clk S" and "sender_step ops (clk, S) e (clk', S')"
  shows "sent_state_acked S' = sent_state_acked S \<or>
    (\<exists>t\<in>set (sent_states S). e = AckThrough (ts_num t) \<and> sent_state_acked S' = ts_num t)"
  using assms(2)
proof cases
  case (6 timeout srtt remote)
  then show ?thesis
    using shape_hd_num [of "sent_states S'" "sent_states S"] assms(1) calculate_timers_inv [OF assms(1)]
    by (auto simp: wait_time_state sent_state_acked_def calculate_timers_fields sender_inv_def hist_inv_def)
next
  case (7 timeout srtt remote pad)
  let ?S1 = "calculate_timers ops S clk' timeout srtt"
  obtain r where t: "sender_tick ops S clk' timeout srtt remote pad = (r, S')" using 7 by (metis prod.collapse)
  have ne: "sent_states ?S1 \<noteq> []"
    using calculate_timers_inv [OF assms(1)] by (simp add: sender_inv_def hist_inv_def)
  have "sent_states S' = sent_states ?S1 \<or> (\<exists>d. sent_states S' = emit_hist ops ?S1 d clk')"
    using sender_tick_cases [OF t assms(1) refl] by (auto simp: Let_def)
  then have "ts_num (hd (sent_states S')) = ts_num (hd (sent_states ?S1))"
    using ne by (auto simp: emit_hist_def)
  also have "\<dots> = ts_num (hd (sent_states S))"
    by (rule shape_hd_num [OF _ ne]) (simp add: calculate_timers_fields)
  finally show ?thesis by (simp add: sent_state_acked_def)
next
  case (8 a)
  then show ?thesis
    using process_ack_hd [OF assms(1), of a]
    by (auto simp: sent_state_acked_def process_acknowledgment_through_def)
qed (auto simp: sent_state_acked_def set_current_state_def set_ack_num_def set_data_ack_def remote_heard_def
    sender_start_shutdown_def)

theorem shutdown_acknowledged_by_sentinel:
  assumes "reach (sender_init ops) (sender_step ops) (clk, S)" and "sender_step ops (clk, S) e (clk', S')"
    and "\<not> shutdown_acknowledged S" and "shutdown_acknowledged S'"
  shows "e = AckThrough SHUTDOWN_NUM \<and> shutdown_in_progress S"
proof -
  have inv: "sender_inv clk S" using sender.reach_inv [OF assms(1)] by (simp add: sender_ok_def)
  obtain t where t: "t \<in> set (sent_states S)" "e = AckThrough (ts_num t)" "ts_num t = SHUTDOWN_NUM"
    using acked_num_step [OF inv assms(2)] assms(3,4)
    by (auto simp: shutdown_acknowledged_def sent_state_acked_def)
  then show ?thesis using inv by (auto simp: sender_inv_def hist_inv_def)
qed

definition demo_shutdown :: "bytes sender" where
  "demo_shutdown = snd (sender_tick byte_ops (sender_start_shutdown demo_sender 0) (ms 100) 0 0 True [])"

lemma demo_shutdown_reach: "reach (sender_init byte_ops) (sender_step byte_ops) (ms 100, demo_shutdown)"
proof -
  have 1: "sender_step byte_ops (0, demo_sender) (StartShutdown 0) (0, sender_start_shutdown demo_sender 0)"
    by (rule sender_step.intros) simp
  have "num_room (sender_start_shutdown demo_sender 0)"
    by (simp add: num_room_def sender_start_shutdown_def)
  then have "sender_step byte_ops (0, sender_start_shutdown demo_sender 0) (Tick (ms 100) 0 0 True []) (ms 100, demo_shutdown)"
    unfolding demo_shutdown_def by (intro sender_step.intros) simp_all
  then show ?thesis by (rule reach_step [OF reach_step [OF demo_sender_reach 1]])
qed

lemma demo_shutdown_states: "sent_states demo_shutdown =
   [\<lparr>timestamp = 0, ts_num = 0, ts_state = []\<rparr>, \<lparr>timestamp = ms 100, ts_num = SHUTDOWN_NUM, ts_state = [104, 105]\<rparr>]"
  by (simp add: demo_shutdown_def sender_eval demo_sender_def byte_ops_def sender_new_def sender_start_shutdown_def
      set_current_state_def SENT_STATES_MAX_def SHUTDOWN_NUM_def ms_def const_defs send_interval_def clamp_def)

theorem shutdown_acknowledged_by_sentinel_witness:
  "\<not> shutdown_acknowledged demo_shutdown \<and>
   shutdown_acknowledged (process_acknowledgment_through demo_shutdown SHUTDOWN_NUM) \<and>
   shutdown_in_progress demo_shutdown"
proof -
  let ?S' = "process_acknowledgment_through demo_shutdown SHUTDOWN_NUM"
  have s: "sender_step byte_ops (ms 100, demo_shutdown) (AckThrough SHUTDOWN_NUM) (ms 100, ?S')"
    by (rule sender_step.intros)
  have b: "\<not> shutdown_acknowledged demo_shutdown"
    by (simp add: shutdown_acknowledged_def demo_shutdown_states SHUTDOWN_NUM_def)
  have a: "shutdown_acknowledged ?S'"
    by (simp add: shutdown_acknowledged_def process_ack_states demo_shutdown_states SHUTDOWN_NUM_def)
  show ?thesis using a b shutdown_acknowledged_by_sentinel [OF demo_shutdown_reach s b a] by simp
qed

section \<open>The receiving half\<close>

definition demo_rx :: "(bytes, bytes) transport" where
  "demo_rx = transport_new byte_ops byte_ops 0 0 (demo_end True) [] []"

lemma demo_rx_twice: "\<exists>T. process_all byte_ops demo_rx
    [(demo_instruction, 0, 0), (demo_instruction, 0, 0)] = ([Inr (NewState 1), Inr Ignored], T)"
  by (simp add: demo_rx_def transport_new_def process_instruction_def demo_instruction_def const_defs Let_def
      process_acknowledgment_through_def process_throwaway_until_def quench_def RECEIVED_STATES_MAX_def
      byte_ops_def file_state_def sender_new_def set_ack_num_def remote_heard_def set_data_ack_def)

text \<open>
  A peer that sends a diff from a newer state to an older one makes the receiver take a number twice:
  the diffs 0 to 5, 5 to 3, 5 to 4 (which throws away everything below 5) and 5 to 3 again are taken as
  5, 3, 4 and 3. The sender of this program never does that (\<open>Synchronization.sent_forward\<close>).
\<close>

definition backward_instruction :: "u64 \<Rightarrow> u64 \<Rightarrow> u64 \<Rightarrow> instruction" where
  "backward_instruction old new throwaway = \<lparr>protocol_version = Some 2, old_num = Some old, new_num = Some new,
     ack_num = Some 0, throwaway_num = Some throwaway, diff = Some [1], chaff = None\<rparr>"

theorem backward_accepted_twice:
  "concat (map accepted (fst (process_all byte_ops demo_rx
     [(backward_instruction 0 5 0, 0, 0), (backward_instruction 5 3 0, 0, 0),
      (backward_instruction 5 4 5, 0, 0), (backward_instruction 5 3 5, 0, 0)]))) = [5, 3, 4, 3]"
  by (simp add: demo_rx_def transport_new_def process_instruction_def backward_instruction_def const_defs Let_def
      process_acknowledgment_through_def process_throwaway_until_def quench_def RECEIVED_STATES_MAX_def
      byte_ops_def file_state_def sender_new_def set_ack_num_def remote_heard_def set_data_ack_def vec_insert_def)

text \<open>
  Whatever instructions arrive, the received states are never empty and strictly increasing in
  number, so \<open>last().unwrap()\<close> cannot panic; the number acknowledged to the peer is always that of the
  newest state held, and the newest number never goes back.
\<close>

theorem receiver_sound:
  assumes "reach (rx_init mops rops) (rx_step rops) T"
    and "process_instruction rops T inst nq now = (r, T')"
  shows "received_states T' \<noteq> [] \<and> sorted_wrt (<) (map ts_num (received_states T')) \<and>
    sender_ack_num (tr_sender T') = get_remote_state_num T' \<and>
    get_remote_state_num T \<le> get_remote_state_num T'"
proof -
  have "acks_newest T" by (rule rx.reach_inv [OF assms(1)])
  from process_instruction_newest(1,2) [OF this assms(2)] show ?thesis
    by (simp add: acks_newest_def rx_inv_def get_remote_state_num_def)
qed

theorem receiver_sound_witness:
  "received_states (snd (process_instruction byte_ops demo_rx demo_instruction 0 0)) \<noteq> []"
proof -
  obtain r T' where p: "process_instruction byte_ops demo_rx demo_instruction 0 0 = (r, T')" by fastforce
  have "reach (rx_init byte_ops byte_ops) (rx_step byte_ops) demo_rx"
    by (rule reach_init) (unfold rx_init_def demo_rx_def, blast)
  from receiver_sound [OF this p] show ?thesis by (simp add: p)
qed

end
