(* ===== verification/Synchronization.thy ===== *)
theory Synchronization
  imports Transport_Laws
begin

text \<open>
  The State Synchronization Protocol between two ends. \<open>net\<close> is a client \<open>end_a\<close> and a server
  \<open>end_b\<close>, the instructions each has ever put on the wire, and two ghosts: \<open>made\<close>, everything that was done to
  the client's state, and \<open>delivered\<close>, what the server's callers were handed by \<open>get_remote_diff\<close>.
  The network may deliver any instruction that was ever sent, in any order, any number of times, or
  never. Neither end trusts the clock of the other.

  The proofs use only the contract \<open>sync_state\<close> of the synchronized state, for the direction from
  \<open>end_a\<close> to \<open>end_b\<close>; the state that travels the other way is arbitrary. With the roles exchanged
  the same results hold for the other direction.
\<close>

record ('s, 'c, 'h) net =
  net_clock :: instant
  end_a :: "('s, 'c) transport"
  end_b :: "('c, 's) transport"
  wire_ab :: "instruction set"
  wire_ba :: "instruction set"
  made :: 'h
  delivered :: 's

datatype ('a, 'c) net_event =
    Act 'a
  | TickA instant
  | TimersA instant
  | ShutdownA instant
  | RecvA instruction
  | ActB 'c
  | TickB instant
  | TimersB instant
  | ShutdownB instant
  | RecvB instruction
  | Consume
  | ConnA
  | ConnB

definition emitted :: "instruction option \<Rightarrow> instruction set" where
  "emitted r = (case r of None \<Rightarrow> {} | Some i \<Rightarrow> {i})"

text \<open>
  The steps. \<open>act\<close> is a mutation of the client's state through \<open>current_state_mut\<close>, which asserts
  that no shutdown is in progress, and \<open>hact\<close> what it means to the history. The connection layer
  below (timeouts, addresses, sockets) is arbitrary.
\<close>

inductive net_step ::
  "'s state_ops \<Rightarrow> 'c state_ops \<Rightarrow> ('a \<Rightarrow> 's \<Rightarrow> 's) \<Rightarrow> ('a \<Rightarrow> 'h \<Rightarrow> 'h) \<Rightarrow>
     ('s, 'c, 'h) net \<Rightarrow> ('a, 'c) net_event \<Rightarrow> ('s, 'c, 'h) net \<Rightarrow> bool"
  for ops cops act hact where
  step_act: "\<not> shutdown_in_progress (tr_sender (end_a N)) \<Longrightarrow>
    net_step ops cops act hact N (Act a)
      (N\<lparr>end_a := (end_a N)\<lparr>tr_sender := set_current_state (tr_sender (end_a N))
            (act a (current_state (tr_sender (end_a N))))\<rparr>,
         made := hact a (made N)\<rparr>)"
| step_tick_a: "net_clock N \<le> now \<Longrightarrow> num_room (tr_sender (end_a N)) \<Longrightarrow>
    sender_tick ops (tr_sender (end_a N)) now timeout srtt remote pad = (r, S') \<Longrightarrow>
    net_step ops cops act hact N (TickA now)
      (N\<lparr>net_clock := now, end_a := (end_a N)\<lparr>tr_sender := S', tr_connection := c\<rparr>,
         wire_ab := wire_ab N \<union> emitted r\<rparr>)"
| step_timers_a: "net_clock N \<le> now \<Longrightarrow>
    net_step ops cops act hact N (TimersA now)
      (N\<lparr>net_clock := now, end_a := (end_a N)\<lparr>tr_sender :=
            snd (sender_wait_time_ms ops (tr_sender (end_a N)) now timeout srtt remote),
            tr_connection := c\<rparr>\<rparr>)"
| step_shutdown_a: "net_clock N \<le> now \<Longrightarrow>
    net_step ops cops act hact N (ShutdownA now)
      (N\<lparr>net_clock := now, end_a := transport_start_shutdown (end_a N) now\<rparr>)"
| step_recv_a: "inst \<in> wire_ba N \<Longrightarrow>
    process_instruction cops ((end_a N)\<lparr>tr_connection := c\<rparr>) inst nq now = (r, T) \<Longrightarrow>
    net_step ops cops act hact N (RecvA inst) (N\<lparr>end_a := T\<rparr>)"
| step_act_b: "net_step ops cops act hact N (ActB x)
      (N\<lparr>end_b := (end_b N)\<lparr>tr_sender := set_current_state (tr_sender (end_b N)) x\<rparr>\<rparr>)"
| step_tick_b: "net_clock N \<le> now \<Longrightarrow> num_room (tr_sender (end_b N)) \<Longrightarrow>
    sender_tick cops (tr_sender (end_b N)) now timeout srtt remote pad = (r, S') \<Longrightarrow>
    net_step ops cops act hact N (TickB now)
      (N\<lparr>net_clock := now, end_b := (end_b N)\<lparr>tr_sender := S', tr_connection := c\<rparr>,
         wire_ba := wire_ba N \<union> emitted r\<rparr>)"
| step_timers_b: "net_clock N \<le> now \<Longrightarrow>
    net_step ops cops act hact N (TimersB now)
      (N\<lparr>net_clock := now, end_b := (end_b N)\<lparr>tr_sender :=
            snd (sender_wait_time_ms cops (tr_sender (end_b N)) now timeout srtt remote),
            tr_connection := c\<rparr>\<rparr>)"
| step_shutdown_b: "net_clock N \<le> now \<Longrightarrow>
    net_step ops cops act hact N (ShutdownB now)
      (N\<lparr>net_clock := now, end_b := transport_start_shutdown (end_b N) now\<rparr>)"
| step_recv_b: "inst \<in> wire_ab N \<Longrightarrow>
    process_instruction ops ((end_b N)\<lparr>tr_connection := c\<rparr>) inst nq now = (r, T) \<Longrightarrow>
    net_step ops cops act hact N (RecvB inst) (N\<lparr>end_b := T\<rparr>)"
| step_consume: "get_remote_diff ops (end_b N) = (d, T) \<Longrightarrow>
    net_step ops cops act hact N Consume
      (N\<lparr>end_b := T, delivered :=
          (if d = [] then delivered N
           else case apply_string ops (delivered N) d of Inl e \<Rightarrow> delivered N | Inr s \<Rightarrow> s)\<rparr>)"
| step_conn_a: "net_step ops cops act hact N ConnA (N\<lparr>end_a := (end_a N)\<lparr>tr_connection := c\<rparr>\<rparr>)"
| step_conn_b: "net_step ops cops act hact N ConnB (N\<lparr>end_b := (end_b N)\<lparr>tr_connection := c\<rparr>\<rparr>)"

definition net_init :: "'s state_ops \<Rightarrow> 'c state_ops \<Rightarrow> ('s, 'c, 'h) net \<Rightarrow> bool" where
  "net_init ops cops N \<longleftrightarrow> wire_ab N = {} \<and> wire_ba N = {} \<and>
     (\<exists>ca cb sa sb ra t1 t2.
        end_a N = transport_new ops cops (net_clock N) t1 ca sa ra \<and>
        end_b N = transport_new cops ops (net_clock N) t2 cb sb (delivered N))"

section \<open>The sending end\<close>

locale source = sync_source ops rep le cut
  for ops :: "'s state_ops" and rep :: "'p \<Rightarrow> 'h \<Rightarrow> 's \<Rightarrow> bool" and le :: "'h \<Rightarrow> 'h \<Rightarrow> bool"
    and cut :: "'h \<Rightarrow> 'p" +
  fixes home :: "'p \<Rightarrow> bool" and act :: "'a \<Rightarrow> 's \<Rightarrow> 's" and hact :: "'a \<Rightarrow> 'h \<Rightarrow> 'h"
  assumes rep_act: "home p \<Longrightarrow> rep p h s \<Longrightarrow> rep p (hact a h) (act a s)"
    and le_act: "le h (hact a h)"
    and home_cut: "has_prefix ops \<Longrightarrow> home (cut g)"
begin

text \<open>
  \<open>M n\<close> is the history the client's state number \<open>n\<close> stood for. The client's own states are under a mark
  that is \<open>home\<close>.
\<close>

definition tx_ok :: "(u64 \<Rightarrow> 'h option) \<Rightarrow> 'p \<Rightarrow> 'h \<Rightarrow> 's sender \<Rightarrow> bool" where
  "tx_ok M p H S \<longleftrightarrow> home p \<and> rep p H (current_state S) \<and>
     (\<forall>t\<in>set (sent_states S). \<exists>h. M (ts_num t) = Some h \<and> rep p h (ts_state t)) \<and>
     (\<forall>n h. M n = Some h \<longrightarrow> le h H \<and> n \<le> sent_state_last S) \<and>
     (\<forall>n m g h. M n = Some g \<longrightarrow> M m = Some h \<longrightarrow> n \<le> m \<longrightarrow> le g h) \<and>
     (\<forall>h. M SHUTDOWN_NUM = Some h \<longrightarrow> shutdown_in_progress S \<and> h = H)"

definition inst_ok :: "(u64 \<Rightarrow> 'h option) \<Rightarrow> u64 \<Rightarrow> instruction \<Rightarrow> bool" where
  "inst_ok M a inst \<longleftrightarrow> protocol_version inst = Some MORSH_PROTOCOL_VERSION \<and> forward inst \<and>
     or0 (throwaway_num inst) \<le> a \<and> diff inst \<noteq> None \<and>
     (\<exists>g h q x y. M (or0 (old_num inst)) = Some g \<and> M (or0 (new_num inst)) = Some h \<and> le g h \<and>
        rep q h x \<and> rep q g y \<and> inst_diff inst = diff_from ops x y)"

lemma tx_hd:
  assumes "tx_ok M p H S" and "sender_inv clk S"
  obtains g where "M (sent_state_acked S) = Some g" and "rep p g (ts_state (hd (sent_states S)))"
    and "le g H"
proof -
  have "hd (sent_states S) \<in> set (sent_states S)"
    using assms(2) by (simp add: sender_inv_def hist_inv_def)
  then obtain g where g: "M (sent_state_acked S) = Some g" "rep p g (ts_state (hd (sent_states S)))"
    using assms(1) unfolding tx_ok_def sent_state_acked_def by blast
  moreover from g have "le g H" using assms(1) unfolding tx_ok_def by blast
  ultimately show thesis by (rule that)
qed

lemma tx_rationalize:
  assumes tx: "tx_ok M p H S" and inv: "sender_inv clk S"
  shows "\<exists>p'. tx_ok M p' H (rationalize_states ops S)"
proof (cases "has_prefix ops")
  case False
  then have "rationalize_states ops S = S" by (simp add: rationalize_states_def)
  with tx show ?thesis by auto
next
  case True
  from tx_hd [OF tx inv] obtain g where g: "M (sent_state_acked S) = Some g"
    and kg: "rep p g (ts_state (hd (sent_states S)))" and gH: "le g H" .
  let ?k = "state_clone ops (ts_state (hd (sent_states S)))"
  have k: "rep p g ?k" by (rule rep_clone [OF kg])
  have R: "rationalize_states ops S = S\<lparr>current_state := subtract ops (current_state S) ?k,
      sent_states := map (\<lambda>t. t\<lparr>ts_state := subtract ops (ts_state t) ?k\<rparr>) (sent_states S)\<rparr>"
    using True by (simp add: rationalize_states_def Let_def)
  have "rep (cut g) H (subtract ops (current_state S) ?k)"
    using tx by (intro rep_subtract [OF True gH _ k]) (simp add: tx_ok_def)
  moreover have "\<exists>h. M (ts_num t) = Some h \<and> rep (cut g) h (subtract ops (ts_state t) ?k)"
    if t: "t \<in> set (sent_states S)" for t
  proof -
    obtain h where h: "M (ts_num t) = Some h" "rep p h (ts_state t)"
      using tx t unfolding tx_ok_def by blast
    have "sent_state_acked S \<le> ts_num t"
      using hist_hd_num_le t inv unfolding sent_state_acked_def sender_inv_def by blast
    then have "le g h" using tx g h unfolding tx_ok_def by blast
    then show ?thesis using rep_subtract [OF True _ h(2) k] h(1) by blast
  qed
  moreover have "sent_state_last (rationalize_states ops S) = sent_state_last S"
    using shape_last_num [OF rationalize_fields(1), of ops S] inv shape_length [OF rationalize_fields(1), of ops S]
    by (force simp: sent_state_last_def sender_inv_def hist_inv_def)
  ultimately have "tx_ok M (cut g) H (rationalize_states ops S)"
    using tx home_cut [OF True] unfolding tx_ok_def rationalize_fields(2) by (simp add: R)
  then show ?thesis by blast
qed

lemma tx_cong:
  assumes "tx_ok M p H S" and "current_state S' = current_state S" and "sent_states S' = sent_states S"
    and "shutdown_in_progress S \<longrightarrow> shutdown_in_progress S'"
  shows "tx_ok M p H S'"
  using assms by (auto simp: tx_ok_def sent_state_last_def)

lemma tx_timers:
  assumes "tx_ok M p H S" and "sender_inv clk S"
  shows "\<exists>p'. tx_ok M p' H (calculate_timers ops S now timeout srtt)"
  using tx_rationalize [OF assms] tx_cong calculate_timers_fields(1,2,4) rationalize_fields(2)
  by metis

text \<open>
  The number of a packet: no earlier number is above it, and if it was used before it was for the
  same history.
\<close>

lemma emit_num_fresh:
  assumes tx: "tx_ok M p H S" and inv: "sender_inv clk S" and room: "num_room S"
    and used: "M n = Some h" and n: "n = emit_num ops S d"
  shows "h = H"
proof (cases "shutdown_in_progress S")
  case True
  then show ?thesis using tx used n unfolding tx_ok_def emit_num_def by simp
next
  case False
  let ?l = "last (sent_states S)"
  have l: "?l \<in> set (sent_states S)" using inv by (simp add: sender_inv_def hist_inv_def)
  have le_last: "n \<le> sent_state_last S" using tx used unfolding tx_ok_def by blast
  have "sent_state_last S < sent_state_last S + 1"
    using room False room_succ(1) by (simp add: num_room_def)
  then have eq: "n = sent_state_last S" "state_equal ops (current_state S) (ts_state ?l)"
    using le_last n False by (auto simp: emit_num_def split: if_splits)
  obtain g where g: "M (sent_state_last S) = Some g" "rep p g (ts_state ?l)"
    using tx l unfolding tx_ok_def sent_state_last_def by blast
  moreover have "le g H" "rep p H (current_state S)" using tx g unfolding tx_ok_def by blast+
  ultimately have "H = g" using rep_equal eq(2) by blast
  then show ?thesis using g eq(1) used by simp
qed

lemma emit_num_ge:
  assumes "sender_inv clk S" and "num_room S"
  shows "sent_state_last S \<le> emit_num ops S d"
  using assms room_succ(1) [of "sent_state_last S"] num_le_MAX [of "sent_state_last S"]
  by (auto simp: emit_num_def num_room_def)

lemma emit_hist_last: "sent_states S \<noteq> [] \<Longrightarrow> ts_num (last (emit_hist ops S d now)) = emit_num ops S d"
  by (auto simp: emit_hist_def sent_state_last_def)

lemma emit_hist_hd: "sent_states S \<noteq> [] \<Longrightarrow> ts_num (hd (emit_hist ops S d now)) = ts_num (hd (sent_states S))"
  by (auto simp: emit_hist_def)

lemma emit_hist_entries:
  assumes "sent_states S \<noteq> []" and "t \<in> set (emit_hist ops S d now)"
  shows "(\<exists>u\<in>set (sent_states S). ts_num u = ts_num t \<and> ts_state u = ts_state t) \<or>
    ts_num t = emit_num ops S d \<and> ts_state t = state_clone ops (current_state S)"
proof (cases "d \<noteq> [] \<and> emit_num ops S d = sent_state_last S")
  case True
  then have "t \<in> set (touch_last now (sent_states S))" using assms(2) by (simp add: emit_hist_def)
  then have "t \<in> set (butlast (sent_states S)) \<or> t = (last (sent_states S))\<lparr>timestamp := now\<rparr>"
    by (auto simp: touch_last_def)
  moreover have "last (sent_states S) \<in> set (sent_states S)" using assms(1) by simp
  ultimately show ?thesis
    by (metis in_set_butlastD timestamped.select_convs(2,3) timestamped.surjective
        timestamped.update_convs(1))
next
  case False
  then have "t \<in> set (capped_push (sent_states S) \<lparr>timestamp = now, ts_num = emit_num ops S d,
      ts_state = state_clone ops (current_state S)\<rparr>)" using assms(2) by (auto simp: emit_hist_def)
  then have "t \<in> set (sent_states S) \<or> t = \<lparr>timestamp = now, ts_num = emit_num ops S d,
      ts_state = state_clone ops (current_state S)\<rparr>" using capped_push_set by fastforce
  then show ?thesis by auto
qed

lemma tx_emit:
  assumes tx: "tx_ok M p H S" and inv: "sender_inv clk S" and room: "num_room S"
    and k: "keeps S S'" and h: "sent_states S' = emit_hist ops S d now" and n: "n = emit_num ops S d"
  shows "tx_ok (M(n \<mapsto> H)) p H S'" and "M \<subseteq>\<^sub>m M(n \<mapsto> H)"
proof -
  have ne: "sent_states S \<noteq> []" using inv by (simp add: sender_inv_def hist_inv_def)
  have same: "current_state S' = current_state S" "shutdown_in_progress S' = shutdown_in_progress S"
    using k by (simp_all add: keeps_def)
  have old: "g = H" if "M n = Some g" for g by (rule emit_num_fresh [OF tx inv room that n])
  then show "M \<subseteq>\<^sub>m M(n \<mapsto> H)" by (auto simp: map_le_def)
  have last: "sent_state_last S' = n"
    using emit_hist_last [OF ne] h n by (simp add: sent_state_last_def)
  have below: "m \<le> n" and leH: "le g H" if "M m = Some g" for m g
    using tx that emit_num_ge [OF inv room, of d] n unfolding tx_ok_def
    by (blast intro: order_trans)+
  have "\<exists>h. (M(n \<mapsto> H)) (ts_num t) = Some h \<and> rep p h (ts_state t)" if t: "t \<in> set (sent_states S')" for t
  proof -
    have H: "rep p H (state_clone ops (current_state S))"
      using tx rep_clone unfolding tx_ok_def by blast
    from emit_hist_entries [OF ne t [unfolded h]] show ?thesis
    proof
      assume "\<exists>u\<in>set (sent_states S). ts_num u = ts_num t \<and> ts_state u = ts_state t"
      then obtain g where "M (ts_num t) = Some g" "rep p g (ts_state t)"
        using tx unfolding tx_ok_def by metis
      then show ?thesis using old by auto
    next
      assume "ts_num t = emit_num ops S d \<and> ts_state t = state_clone ops (current_state S)"
      then show ?thesis using H n by auto
    qed
  qed
  moreover have "le g h" if "(M(n \<mapsto> H)) a = Some g" "(M(n \<mapsto> H)) b = Some h" "a \<le> b" for a b g h
  proof (cases "b = n")
    case True
    then show ?thesis using that leH le_refl by (auto split: if_splits)
  next
    case False
    then have b: "M b = Some h" using that by simp
    have "b < n" using below [OF b] False by (simp add: order_le_less)
    then have "M a = Some g" using that False by (auto split: if_splits)
    then show ?thesis using tx b that(3) unfolding tx_ok_def by blast
  qed
  moreover have "shutdown_in_progress S \<and> h = H" if "(M(n \<mapsto> H)) SHUTDOWN_NUM = Some h" for h
  proof (cases "SHUTDOWN_NUM = n")
    case True
    have "shutdown_in_progress S"
    proof (rule ccontr)
      assume run: "\<not> shutdown_in_progress S"
      have "sent_state_last S \<noteq> SHUTDOWN_NUM"
        using inv run ne by (auto simp: sender_inv_def hist_inv_def sent_state_last_def)
      moreover have "sent_state_last S + 1 \<noteq> SHUTDOWN_NUM"
        using room run room_succ(2) by (simp add: num_room_def)
      ultimately show False using True n run by (auto simp: emit_num_def split: if_splits)
    qed
    then show ?thesis using that True by auto
  next
    case False
    then show ?thesis using that tx unfolding tx_ok_def by auto
  qed
  ultimately show "tx_ok (M(n \<mapsto> H)) p H S'"
    using tx below leH le_refl unfolding tx_ok_def same last by auto
qed

lemma map_le_Some: "M \<subseteq>\<^sub>m M' \<Longrightarrow> M n = Some h \<Longrightarrow> M' n = Some h"
  by (metis domI map_le_def)

lemma inst_ok_mono: "inst_ok M a i \<Longrightarrow> M \<subseteq>\<^sub>m M' \<Longrightarrow> a \<le> a' \<Longrightarrow> inst_ok M' a' i"
  unfolding inst_ok_def by (blast intro: map_le_Some order_trans)

lemma tx_tick:
  assumes tick: "sender_tick ops S now timeout srtt remote pad = (r, S')"
    and tx: "tx_ok M p H S" and inv: "sender_inv clk S" and room: "num_room S"
  shows "\<exists>M' p'. M \<subseteq>\<^sub>m M' \<and> tx_ok M' p' H S' \<and> sent_state_acked S' = sent_state_acked S \<and>
    (\<forall>i\<in>emitted r. inst_ok M' (sent_state_acked S') i \<and> M' (or0 (new_num i)) = Some H)"
proof -
  define S1 where "S1 = calculate_timers ops S now timeout srtt"
  obtain p1 where tx1: "tx_ok M p1 H S1" using tx_timers [OF tx inv] unfolding S1_def by blast
  have inv1: "sender_inv clk S1" unfolding S1_def by (rule calculate_timers_inv [OF inv])
  have room1: "num_room S1" unfolding S1_def by (rule calculate_timers_room [OF inv room])
  have ne1: "sent_states S1 \<noteq> []" using inv1 by (simp add: sender_inv_def hist_inv_def)
  have sh: "shape (sent_states S1) = shape (sent_states S)"
    unfolding S1_def calculate_timers_fields by simp
  have ack: "sent_state_acked S1 = sent_state_acked S"
    unfolding sent_state_acked_def by (rule shape_hd_num [OF sh ne1])
  have k: "keeps S1 S'" and c: "r = None \<and> sent_states S' = sent_states S1 \<or>
     (\<exists>t\<in>set (sent_states S1). let d = diff_from ops (current_state S1) (ts_state t) in
        remote \<and> r = Some (emit_inst ops S1 t d pad) \<and> sent_states S' = emit_hist ops S1 d now)"
    using sender_tick_cases [OF tick inv S1_def] by blast+
  from c show ?thesis
  proof
    assume quiet: "r = None \<and> sent_states S' = sent_states S1"
    then have "tx_ok M p1 H S'" using tx_cong [OF tx1] k by (simp add: keeps_def)
    then show ?thesis
      using quiet ack by (auto simp: emitted_def sent_state_acked_def intro: map_le_refl)
  next
    assume "\<exists>t\<in>set (sent_states S1). let d = diff_from ops (current_state S1) (ts_state t) in
        remote \<and> r = Some (emit_inst ops S1 t d pad) \<and> sent_states S' = emit_hist ops S1 d now"
    then obtain t d where t: "t \<in> set (sent_states S1)" and d: "d = diff_from ops (current_state S1) (ts_state t)"
      and r: "r = Some (emit_inst ops S1 t d pad)" and h: "sent_states S' = emit_hist ops S1 d now"
      by (auto simp: Let_def)
    define n where "n = emit_num ops S1 d"
    note e = tx_emit [OF tx1 inv1 room1 k h n_def]
    have ack': "sent_state_acked S' = sent_state_acked S1"
      using emit_hist_hd [OF ne1] h by (simp add: sent_state_acked_def)
    obtain g where g: "M (ts_num t) = Some g" "rep p1 g (ts_state t)" "le g H"
      using tx1 t unfolding tx_ok_def by blast
    have "ts_num t \<le> n"
      using hist_num_le_last [OF _ t] inv1 emit_num_ge [OF inv1 room1, of d]
      unfolding n_def sent_state_last_def sender_inv_def by (blast intro: order_trans)
    moreover have "(M(n \<mapsto> H)) (ts_num t) = Some g"
      by (rule map_le_Some [OF e(2) g(1)])
    moreover have "rep p1 H (current_state S1)" using tx1 unfolding tx_ok_def by blast
    ultimately have "inst_ok (M(n \<mapsto> H)) (sent_state_acked S') (emit_inst ops S1 t d pad)"
      using g d ack' unfolding inst_ok_def emit_inst_def forward_def sent_state_acked_def n_def
      by (auto intro!: exI [of _ p1])
    moreover have "(M(n \<mapsto> H)) (or0 (new_num (emit_inst ops S1 t d pad))) = Some H"
      by (simp add: emit_inst_def n_def)
    ultimately show ?thesis using e r ack ack' by (auto simp: emitted_def)
  qed
qed

text \<open>Acknowledgements and shutdown.\<close>

lemma tx_ack:
  assumes tx: "tx_ok M p H S" and inv: "sender_inv clk S"
  shows "tx_ok M p H (process_acknowledgment_through S a)"
proof -
  let ?S' = "process_acknowledgment_through S a"
  have sub: "set (sent_states ?S') \<subseteq> set (sent_states S)" by (auto simp: process_ack_states)
  have "sent_state_last ?S' = sent_state_last S"
  proof (cases "\<exists>t\<in>set (sent_states S). ts_num t = a")
    case True
    let ?l = "last (sent_states S)"
    have xs: "sent_states S = butlast (sent_states S) @ [?l]"
      using inv by (simp add: sender_inv_def hist_inv_def)
    have "a \<le> ts_num ?l" using True hist_num_le_last inv by (fastforce simp: sender_inv_def)
    then have "filter (\<lambda>t. a \<le> ts_num t) (sent_states S) =
        filter (\<lambda>t. a \<le> ts_num t) (butlast (sent_states S)) @ [?l]"
      by (subst xs) (simp del: append_butlast_last_id)
    then show ?thesis using True by (simp add: process_ack_states sent_state_last_def)
  next
    case False
    then show ?thesis by (simp add: process_ack_states sent_state_last_def)
  qed
  then show ?thesis using tx sub unfolding tx_ok_def process_ack_fields by auto
qed

lemma tx_act:
  assumes "tx_ok M p H S" and "\<not> shutdown_in_progress S"
  shows "tx_ok M p (hact a H) (set_current_state S (act a (current_state S)))"
proof -
  have "le h (hact a H)" if "M n = Some h" for n h
    using assms(1) that le_act [of H a] le_trans unfolding tx_ok_def by blast
  moreover have "M SHUTDOWN_NUM = None"
    using assms unfolding tx_ok_def by (cases "M SHUTDOWN_NUM") auto
  moreover have "rep p (hact a H) (act a (current_state S))"
    using assms(1) rep_act unfolding tx_ok_def by blast
  ultimately show ?thesis
    using assms(1) by (auto simp: tx_ok_def set_current_state_def sent_state_last_def)
qed

lemma same_history_tx: "same_history S S' \<Longrightarrow> tx_ok M p H S \<Longrightarrow> tx_ok M p H S'"
  by (rule tx_cong) (auto simp: same_history_def)

lemma same_history_acked: "same_history S S' \<Longrightarrow> sent_state_acked S' = sent_state_acked S"
  by (simp add: same_history_def sent_state_acked_def)

lemma shutdown_sender:
  "tr_sender (transport_start_shutdown T now) = sender_start_shutdown (tr_sender T) now"
  by (simp add: transport_start_shutdown_def)

lemma start_shutdown_fields [simp]:
  "sent_states (sender_start_shutdown S now) = sent_states S"
  "current_state (sender_start_shutdown S now) = current_state S"
  "sender_ack_num (sender_start_shutdown S now) = sender_ack_num S"
  by (simp_all add: sender_start_shutdown_def)

lemma tx_shutdown: "tx_ok M p H S \<Longrightarrow> tx_ok M p H (sender_start_shutdown S now)"
  by (erule tx_cong) (auto simp: sender_start_shutdown_def)

lemma sender_tick_ack:
  assumes "sender_tick ops' S now timeout srtt remote pad = (r, S')" and "sender_inv clk S"
  shows "sender_ack_num S' = sender_ack_num S" and "\<forall>i\<in>emitted r. or0 (ack_num i) = sender_ack_num S"
  using sender_tick_cases [OF assms refl]
  by (auto simp: keeps_def calculate_timers_fields emitted_def Let_def emit_inst_def)

lemma timers_acked: "sender_inv clk S \<Longrightarrow>
   sent_state_acked (calculate_timers ops S now timeout srtt) = sent_state_acked S"
  unfolding sent_state_acked_def
  by (rule shape_hd_num) (use calculate_timers_inv [of clk S ops now timeout srtt] in
      \<open>auto simp: calculate_timers_fields sender_inv_def hist_inv_def\<close>)

end

section \<open>Both ends\<close>

locale ssp = sync_state ops rep le cut live + source ops rep le cut home act hact
  for ops :: "'s state_ops" and rep :: "'p \<Rightarrow> 'h \<Rightarrow> 's \<Rightarrow> bool" and le :: "'h \<Rightarrow> 'h \<Rightarrow> bool"
    and cut :: "'h \<Rightarrow> 'p" and live :: "'p \<Rightarrow> bool" and home :: "'p \<Rightarrow> bool"
    and act :: "'a \<Rightarrow> 's \<Rightarrow> 's" and hact :: "'a \<Rightarrow> 'h \<Rightarrow> 'h"
begin

definition rx_ok :: "(u64 \<Rightarrow> 'h option) \<Rightarrow> 'p \<Rightarrow> 's timestamped list \<Rightarrow> bool" where
  "rx_ok M q rs \<longleftrightarrow> live q \<and> rx_inv rs \<and> (\<forall>t\<in>set rs. \<exists>h. M (ts_num t) = Some h \<and> rep q h (ts_state t))"

text \<open>What the server's callers have: a history no later than the newest state held.\<close>

definition out_ok :: "(u64 \<Rightarrow> 'h option) \<Rightarrow> 'p \<Rightarrow> 'p \<Rightarrow> u64 \<Rightarrow> 's \<Rightarrow> 's \<Rightarrow> bool" where
  "out_ok M q0 q n l x \<longleftrightarrow> live q0 \<and> (\<exists>g h. M n = Some h \<and> le g h \<and> rep q g l \<and> rep q0 g x)"

text \<open>Acknowledgements on the wire name states the server holds, or ones already superseded.\<close>

definition ack_ok :: "u64 \<Rightarrow> u64 set \<Rightarrow> u64 \<Rightarrow> bool" where
  "ack_ok a held n \<longleftrightarrow> n \<in> held \<or> n < a"

definition net_inv :: "'p \<Rightarrow> ('s, 'c, 'h) net \<Rightarrow> bool" where
  "net_inv q0 N \<longleftrightarrow>
     sender_inv (net_clock N) (tr_sender (end_a N)) \<and> sender_inv (net_clock N) (tr_sender (end_b N)) \<and>
     (\<exists>M p q.
        tx_ok M p (made N) (tr_sender (end_a N)) \<and>
        (\<forall>i\<in>wire_ab N. inst_ok M (sent_state_acked (tr_sender (end_a N))) i) \<and>
        rx_ok M q (received_states (end_b N)) \<and>
        out_ok M q0 q (ts_num (last (received_states (end_b N)))) (last_receiver_state (end_b N))
          (delivered N)) \<and>
     sent_state_acked (tr_sender (end_a N)) \<in> nums (received_states (end_b N)) \<and>
     (\<forall>n\<in>insert (sender_ack_num (tr_sender (end_b N))) ((\<lambda>i. or0 (ack_num i)) ` wire_ba N).
        ack_ok (sent_state_acked (tr_sender (end_a N))) (nums (received_states (end_b N))) n)"

subsection \<open>The receiving side\<close>

lemma rx_cull: "rx_ok M q rs \<Longrightarrow> rx_ok M q (process_throwaway_until rs c)"
  using cull_inv cull_subset unfolding rx_ok_def by blast

lemma rx_mono: "rx_ok M q rs \<Longrightarrow> M \<subseteq>\<^sub>m M' \<Longrightarrow> rx_ok M' q rs"
  unfolding rx_ok_def by (blast intro: map_le_Some)

text \<open>
  An instruction of an honest peer is never refused by the diff, and the state it files stands for
  the history its number stands for at the sender.
\<close>

lemma rx_build_ok:
  assumes rx: "rx_ok M q (received_states T)" and i: "inst_ok M a inst"
    and b: "rx_build ops T inst now r T'"
  shows "rx_ok M q (received_states T')" and "\<exists>r'. r = Inr r'"
proof -
  define rs where "rs = process_throwaway_until (received_states T) (or0 (throwaway_num inst))"
  define n where "n = or0 (new_num inst)"
  obtain j where j: "j < length rs" "ts_num (rs ! j) = or0 (old_num inst)"
    and res: "let ad = adopt_from ops (state_clone ops (ts_state (rs ! j))) (ts_state (rs ! j));
         rs' = rs[j := (rs ! j)\<lparr>ts_state := snd ad\<rparr>]
       in (\<exists>e. inst_diff inst \<noteq> [] \<and> apply_string ops (fst ad) (inst_diff inst) = Inl e \<and> r = Inl (StateError e)) \<or>
          (\<exists>s r'. (if inst_diff inst = [] then s = fst ad
               else apply_string ops (fst ad) (inst_diff inst) = Inr s) \<and>
             file_state rs' \<lparr>timestamp = now, ts_num = n, ts_state = s\<rparr> = (r', received_states T') \<and>
             r = Inr r')"
    using b unfolding rx_build_def Let_def rs_def [symmetric] n_def [symmetric] by blast
  let ?ad = "adopt_from ops (state_clone ops (ts_state (rs ! j))) (ts_state (rs ! j))"
  let ?rs' = "rs[j := (rs ! j)\<lparr>ts_state := snd ?ad\<rparr>]"
  have rs: "rx_ok M q rs" unfolding rs_def by (rule rx_cull [OF rx])
  obtain g h p x y where M: "M (or0 (old_num inst)) = Some g" "M n = Some h" "le g h"
    and d: "rep p h x" "rep p g y" "inst_diff inst = diff_from ops x y"
    using i unfolding inst_ok_def n_def by blast
  have "rs ! j \<in> set rs" using j(1) by simp
  then have gj: "rep q g (ts_state (rs ! j))" using rs M(1) j(2) unfolding rx_ok_def by auto
  then have ad: "rep q g (fst ?ad)" "rep q g (snd ?ad)"
    using rep_adopt rep_clone by blast+
  have live: "live q" using rx by (simp add: rx_ok_def)
  note D = rep_diff [OF live M(3) d(1,2) ad(1), folded d(3)]
  obtain s r' where s: "if inst_diff inst = [] then s = fst ?ad
      else apply_string ops (fst ?ad) (inst_diff inst) = Inr s"
    and f: "file_state ?rs' \<lparr>timestamp = now, ts_num = n, ts_state = s\<rparr> = (r', received_states T')"
    and r: "r = Inr r'"
    using res D unfolding Let_def by (auto split: if_splits)
  have hs: "rep q h s" using s D by (auto split: if_splits)
  have inv: "rx_inv rs" using rs by (simp add: rx_ok_def)
  have inv': "rx_inv ?rs'" by (rule rx_inv_states [OF map_num_update [OF j(1), symmetric] inv])
  have all: "\<forall>t\<in>set ?rs'. \<exists>h. M (ts_num t) = Some h \<and> rep q h (ts_state t)"
  proof
    fix t assume "t \<in> set ?rs'"
    then have "t \<in> set rs \<or> t = (rs ! j)\<lparr>ts_state := snd ?ad\<rparr>"
      using set_update_subset_insert by fastforce
    then show "\<exists>h. M (ts_num t) = Some h \<and> rep q h (ts_state t)"
      using rs M(1) j(2) ad(2) unfolding rx_ok_def by auto
  qed
  have sub: "nums rs \<subseteq> nums (received_states T)"
    unfolding rs_def using cull_subset by (fastforce simp: nums_def)
  have "n \<notin> nums ?rs'"
    using b sub nums_map [OF map_num_update [OF j(1)]] unfolding rx_build_def n_def by blast
  then have c: "set (received_states T') = insert \<lparr>timestamp = now, ts_num = n, ts_state = s\<rparr> (set ?rs')"
    "rx_inv (received_states T')"
    using file_state_cases(1,2) [OF inv' _ f] by simp_all
  show "rx_ok M q (received_states T')"
    using c all M(2) hs live unfolding rx_ok_def by simp
  show "\<exists>r'. r = Inr r'" using r by blast
qed

definition rx_keeps :: "u64 \<Rightarrow> ('c, 's) transport \<Rightarrow> ('c, 's) transport \<Rightarrow> bool" where
  "rx_keeps a T T' \<longleftrightarrow> last_receiver_state T' = last_receiver_state T \<and>
     {n \<in> nums (received_states T). a \<le> n} \<subseteq> nums (received_states T') \<and>
     ts_num (last (received_states T)) \<le> ts_num (last (received_states T')) \<and>
     (sender_ack_num (tr_sender T') = sender_ack_num (tr_sender T) \<or>
      sender_ack_num (tr_sender T') \<in> nums (received_states T'))"

lemma cull_keeps:
  assumes "rx_inv rs" and "c \<le> a"
  shows "{n \<in> nums rs. a \<le> n} \<subseteq> nums (process_throwaway_until rs c)"
  using assms by (auto simp: cull_nums intro: order_trans min.coboundedI1)

lemma rx_instruction:
  assumes rx: "rx_ok M q (received_states T)" and i: "inst_ok M a inst"
    and pi: "process_instruction ops T inst nq now = (r, T')"
  shows "rx_ok M q (received_states T') \<and> (\<exists>r'. r = Inr r') \<and> rx_keeps a T T'"
proof -
  have v: "protocol_version inst = Some MORSH_PROTOCOL_VERSION" and c: "or0 (throwaway_num inst) \<le> a"
    using i by (simp_all add: inst_ok_def)
  have inv: "rx_inv (received_states T)" using rx by (simp add: rx_ok_def)
  note cull = cull_keeps [OF inv c]
  from process_instruction_cases [OF pi v] show ?thesis
  proof
    assume s: "rx_skip T inst r T'"
    have "rx_ok M q (received_states T')" using s rx rx_cull [OF rx] by (auto simp: rx_skip_def)
    moreover have "{n \<in> nums (received_states T). a \<le> n} \<subseteq> nums (received_states T')"
      using rx_skip_nums(2) [OF inv s] cull by auto
    moreover have "sender_ack_num (tr_sender T') = sender_ack_num (tr_sender T)"
      "r = Inr Ignored" "last_receiver_state T' = last_receiver_state T"
      using s by (simp_all add: rx_skip_def)
    ultimately show ?thesis
      using rx_skip_nums(3) [OF inv s] by (simp add: rx_keeps_def)
  next
    assume b: "rx_build ops T inst now r T'"
    note ok = rx_build_ok [OF rx i b] and nx = rx_build_next [OF inv b]
    have "\<not> (\<exists>e. r = Inl (StateError e))" using ok(2) by auto
    then have filed: "nums (received_states T') = insert (or0 (new_num inst))
          (nums (process_throwaway_until (received_states T) (or0 (throwaway_num inst))))"
      and lst: "ts_num (last (received_states T)) \<le> ts_num (last (received_states T'))"
      using nx(4) by (auto split: if_splits)
    have "sender_ack_num (tr_sender T') = sender_ack_num (tr_sender T) \<or>
        sender_ack_num (tr_sender T') = ts_num (last (received_states T'))"
      using rx_build_sender [OF b] by auto
    then have "sender_ack_num (tr_sender T') = sender_ack_num (tr_sender T) \<or>
        sender_ack_num (tr_sender T') \<in> nums (received_states T')"
      using rx_last_in [OF nx(1)] by auto
    moreover have "last_receiver_state T' = last_receiver_state T" using b by (simp add: rx_build_def)
    ultimately show ?thesis using ok filed lst cull by (auto simp: rx_keeps_def)
  qed
qed

lemma rx_consume:
  assumes rx: "rx_ok M q (received_states T)" and tx: "tx_ok M p H S"
    and out: "out_ok M q0 q (ts_num (last (received_states T))) (last_receiver_state T) x"
    and grd: "get_remote_diff ops T = (d, T')"
    and x': "x' = (if d = [] then x else case apply_string ops x d of Inl e \<Rightarrow> x | Inr s \<Rightarrow> s)"
  shows "\<exists>q'. rx_ok M q' (received_states T') \<and>
    out_ok M q0 q' (ts_num (last (received_states T'))) (last_receiver_state T') x'"
proof -
  let ?rs = "received_states T" and ?l = "last (received_states T)"
  have inv: "rx_inv ?rs" and ne: "?rs \<noteq> []" using rx by (simp_all add: rx_ok_def rx_inv_def)
  have reps: "\<exists>h. M (ts_num t) = Some h \<and> rep q h (ts_state t)" if "t \<in> set ?rs" for t
    using rx that by (simp add: rx_ok_def)
  obtain g h where gh: "M (ts_num ?l) = Some h" "le g h" "rep q g (last_receiver_state T)" "rep q0 g x"
    and live: "live q0" using out by (auto simp: out_ok_def)
  have hl: "rep q h (ts_state ?l)" using reps [of ?l] ne gh(1) by auto
  have d: "d = diff_from ops (ts_state ?l) (last_receiver_state T)"
    using grd by (auto simp: get_remote_diff_def Let_def)
  have x: "rep q0 h x'"
    using rep_diff [OF live gh(2) hl gh(3,4)] unfolding x' d by (auto split: if_splits)
  have nums': "map ts_num (received_states T') = map ts_num ?rs" and inv': "rx_inv (received_states T')"
    using get_remote_diff_rx_inv [OF inv, of ops] grd by simp_all
  have last': "ts_num (last (received_states T')) = ts_num ?l"
    using nums' inv' inv by (metis last_map rx_inv_def)
  have "\<exists>q'. live q' \<and> (\<forall>t\<in>set (received_states T'). \<exists>h. M (ts_num t) = Some h \<and> rep q' h (ts_state t))"
  proof (cases "has_prefix ops")
    case False
    then have "received_states T' = ?rs" using grd by (auto simp: get_remote_diff_def Let_def)
    then show ?thesis using reps rx by (auto simp: rx_ok_def)
  next
    case True
    let ?o = "state_clone ops (ts_state (hd ?rs))"
    have rs': "received_states T' = map (\<lambda>t. t\<lparr>ts_state := subtract ops (ts_state t) ?o\<rparr>) ?rs"
      using grd True by (auto simp: get_remote_diff_def Let_def)
    obtain f where f: "M (ts_num (hd ?rs)) = Some f" "rep q f (ts_state (hd ?rs))"
      using reps [of "hd ?rs"] ne by auto
    have o: "rep q f ?o" by (rule rep_clone [OF f(2)])
    have "\<exists>h. M (ts_num t) = Some h \<and> rep (cut f) h (subtract ops (ts_state t) ?o)"
      if t: "t \<in> set ?rs" for t
    proof -
      obtain h' where h': "M (ts_num t) = Some h'" "rep q h' (ts_state t)" using reps [OF t] by blast
      have "ts_num (hd ?rs) \<le> ts_num t"
        using inv t by (cases ?rs) (auto simp: rx_inv_def)
      then have "le f h'" using tx f h' unfolding tx_ok_def by blast
      then show ?thesis using rep_subtract [OF True _ h'(2) o] h'(1) by blast
    qed
    then show ?thesis unfolding rs' using live_cut [OF True] by (auto intro!: exI [of _ "cut f"])
  qed
  then obtain q' where q': "\<forall>t\<in>set (received_states T'). \<exists>h. M (ts_num t) = Some h \<and> rep q' h (ts_state t)"
    and live': "live q'" by blast
  have "last (received_states T') \<in> set (received_states T')" using inv' by (simp add: rx_inv_def)
  then have "rep q' h (ts_state (last (received_states T')))" using q' last' gh(1) by force
  moreover have "last_receiver_state T' = state_clone ops (ts_state (last (received_states T')))"
    using grd by (auto simp: get_remote_diff_def Let_def)
  ultimately have "out_ok M q0 q' (ts_num (last (received_states T'))) (last_receiver_state T') x'"
    using gh(1) le_refl rep_clone x last' live unfolding out_ok_def by (auto intro!: exI [of _ h])
  then show ?thesis using q' inv' live' unfolding rx_ok_def by blast
qed

lemma out_mono:
  assumes "out_ok M q0 q n l x" and "M \<subseteq>\<^sub>m M'"
  shows "out_ok M' q0 q n l x"
  using assms unfolding out_ok_def by (blast intro: map_le_Some)

lemma out_later:
  assumes "out_ok M q0 q n l x" and "n \<le> m" and "M m = Some h" and "tx_ok M p H S"
  shows "out_ok M q0 q m l x"
  using assms le_trans unfolding out_ok_def tx_ok_def by metis

subsection \<open>The invariant\<close>

text \<open>The parts of \<open>net_inv\<close> that the two directions share.\<close>

definition dir_ok :: "'p \<Rightarrow> (u64 \<Rightarrow> 'h option) \<Rightarrow> 'p \<Rightarrow> 'p \<Rightarrow> ('s, 'c, 'h) net \<Rightarrow> bool" where
  "dir_ok q0 M p q N \<longleftrightarrow>
     tx_ok M p (made N) (tr_sender (end_a N)) \<and>
     (\<forall>i\<in>wire_ab N. inst_ok M (sent_state_acked (tr_sender (end_a N))) i) \<and>
     rx_ok M q (received_states (end_b N)) \<and>
     out_ok M q0 q (ts_num (last (received_states (end_b N)))) (last_receiver_state (end_b N)) (delivered N)"

definition acks_ok :: "('s, 'c, 'h) net \<Rightarrow> bool" where
  "acks_ok N \<longleftrightarrow>
     sent_state_acked (tr_sender (end_a N)) \<in> nums (received_states (end_b N)) \<and>
     ack_ok (sent_state_acked (tr_sender (end_a N))) (nums (received_states (end_b N)))
       (sender_ack_num (tr_sender (end_b N))) \<and>
     (\<forall>i\<in>wire_ba N. ack_ok (sent_state_acked (tr_sender (end_a N))) (nums (received_states (end_b N)))
       (or0 (ack_num i)))"

definition senders_ok :: "('s, 'c, 'h) net \<Rightarrow> bool" where
  "senders_ok N \<longleftrightarrow> sender_inv (net_clock N) (tr_sender (end_a N)) \<and>
     sender_inv (net_clock N) (tr_sender (end_b N))"

lemma net_inv_parts:
  "net_inv q0 N \<longleftrightarrow> senders_ok N \<and> (\<exists>M p q. dir_ok q0 M p q N) \<and> acks_ok N"
  by (auto simp: net_inv_def senders_ok_def dir_ok_def acks_ok_def)

text \<open>\<open>net_at M\<close> fixes what the numbers stand for.\<close>

definition net_at :: "(u64 \<Rightarrow> 'h option) \<Rightarrow> 'p \<Rightarrow> ('s, 'c, 'h) net \<Rightarrow> bool" where
  "net_at M q0 N \<longleftrightarrow> senders_ok N \<and> (\<exists>p q. dir_ok q0 M p q N) \<and> acks_ok N"

lemma net_inv_at: "net_inv q0 N \<longleftrightarrow> (\<exists>M. net_at M q0 N)"
  by (auto simp: net_inv_parts net_at_def)

text \<open>A client step that sends nothing, keeps the acknowledged state and what was made.\<close>

lemma dir_ok_client:
  assumes "dir_ok q0 M p q N" and "M \<subseteq>\<^sub>m M'" and "tx_ok M' p' (made N') (tr_sender (end_a N'))"
    and "sent_state_acked (tr_sender (end_a N)) \<le> sent_state_acked (tr_sender (end_a N'))"
    and "\<forall>i\<in>wire_ab N' - wire_ab N. inst_ok M' (sent_state_acked (tr_sender (end_a N'))) i"
    and "end_b N' = end_b N" and "delivered N' = delivered N"
  shows "dir_ok q0 M' p' q N'"
  using assms rx_mono out_mono inst_ok_mono unfolding dir_ok_def by (metis DiffI)

lemma acks_ok_client:
  assumes "acks_ok N" and "end_b N' = end_b N" and "wire_ba N' = wire_ba N"
    and "sent_state_acked (tr_sender (end_a N')) = sent_state_acked (tr_sender (end_a N))"
  shows "acks_ok N'"
  using assms by (simp add: acks_ok_def)

lemma step_tick_a_at:
  assumes inv: "net_at M q0 N" and "net_clock N \<le> now" and room: "num_room (tr_sender (end_a N))"
    and tick: "sender_tick ops (tr_sender (end_a N)) now timeout srtt remote pad = (r, S')"
    and N': "N' = N\<lparr>net_clock := now, end_a := (end_a N)\<lparr>tr_sender := S', tr_connection := c\<rparr>,
         wire_ab := wire_ab N \<union> emitted r\<rparr>"
  shows "\<exists>M'. M \<subseteq>\<^sub>m M' \<and> net_at M' q0 N' \<and> (\<forall>i\<in>emitted r. M' (or0 (new_num i)) = Some (made N))"
proof -
  from inv obtain p q where d: "dir_ok q0 M p q N" and s: "senders_ok N" and a: "acks_ok N"
    by (auto simp: net_at_def)
  have tx: "tx_ok M p (made N) (tr_sender (end_a N))" using d by (simp add: dir_ok_def)
  have i: "sender_inv (net_clock N) (tr_sender (end_a N))" using s by (simp add: senders_ok_def)
  obtain M' p' where t: "M \<subseteq>\<^sub>m M'" "tx_ok M' p' (made N) S'"
    "sent_state_acked S' = sent_state_acked (tr_sender (end_a N))"
    "\<forall>i\<in>emitted r. inst_ok M' (sent_state_acked S') i \<and> M' (or0 (new_num i)) = Some (made N)"
    using tx_tick [OF tick tx i room] by blast
  have "dir_ok q0 M' p' q N'" by (rule dir_ok_client [OF d t(1)]) (use t N' in auto)
  moreover have "acks_ok N'" by (rule acks_ok_client [OF a]) (use t N' in auto)
  moreover have "senders_ok N'"
    using sender_tick_inv [OF tick i assms(2) room] s sender_inv_later [OF _ assms(2)]
    by (auto simp: senders_ok_def N')
  ultimately show ?thesis using t(1,4) by (auto simp: net_at_def)
qed

lemma step_recv_a_at:
  assumes inv: "net_at M q0 N" and w: "inst \<in> wire_ba N"
    and pi: "process_instruction cops ((end_a N)\<lparr>tr_connection := c\<rparr>) inst nq now = (r, T)"
  shows "net_at M q0 (N\<lparr>end_a := T\<rparr>)"
proof -
  let ?S = "tr_sender (end_a N)" and ?n = "or0 (ack_num inst)"
  from inv obtain p q where d: "dir_ok q0 M p q N" and s: "senders_ok N" and a: "acks_ok N"
    by (auto simp: net_at_def)
  have tx: "tx_ok M p (made N) ?S" using d by (simp add: dir_ok_def)
  have i: "sender_inv (net_clock N) ?S" using s by (simp add: senders_ok_def)
  have iT: "sender_inv (net_clock N) (tr_sender T)"
    using process_instruction_sender_inv [OF pi] i by simp
  have hist: "same_history ?S (tr_sender T) \<or>
      same_history (process_acknowledgment_through ?S ?n) (tr_sender T)"
    using process_instruction_sender [OF pi] by simp
  then have txT: "tx_ok M p (made N) (tr_sender T)"
    using tx tx_ack [OF tx i] same_history_tx by blast
  have ge: "sent_state_acked ?S \<le> sent_state_acked (tr_sender T)"
    using hist process_ack_hd_mono [OF i] same_history_acked
    unfolding sent_state_acked_def by (metis order_refl)
  have held: "sent_state_acked (tr_sender T) \<in> nums (received_states (end_b N))"
  proof (cases "\<exists>t\<in>set (sent_states ?S). ts_num t = ?n")
    case False
    then have "sent_state_acked (tr_sender T) = sent_state_acked ?S"
      using hist by (auto simp: same_history_def sent_state_acked_def process_ack_states)
    then show ?thesis using a by (simp add: acks_ok_def)
  next
    case True
    then have "sent_state_acked ?S \<le> ?n"
      using hist_hd_num_le i unfolding sent_state_acked_def sender_inv_def by metis
    then have "?n \<in> nums (received_states (end_b N))"
      using a w unfolding acks_ok_def ack_ok_def by auto
    then show ?thesis
      using hist a process_ack_hd [OF i True] by (auto simp: same_history_def sent_state_acked_def acks_ok_def)
  qed
  have "dir_ok q0 M p q (N\<lparr>end_a := T\<rparr>)"
    by (rule dir_ok_client [OF d map_le_refl]) (use txT ge in auto)
  moreover have "acks_ok (N\<lparr>end_a := T\<rparr>)"
    using a held ge unfolding acks_ok_def ack_ok_def by (auto intro: less_le_trans)
  moreover have "senders_ok (N\<lparr>end_a := T\<rparr>)" using s iT by (simp add: senders_ok_def)
  ultimately show ?thesis by (auto simp: net_at_def)
qed

lemma step_recv_b_at:
  assumes inv: "net_at M q0 N" and w: "inst \<in> wire_ab N"
    and pi: "process_instruction ops ((end_b N)\<lparr>tr_connection := c\<rparr>) inst nq now = (r, T)"
  shows "net_at M q0 (N\<lparr>end_b := T\<rparr>)" and "\<exists>r'. r = Inr r'"
proof -
  let ?a = "sent_state_acked (tr_sender (end_a N))"
  from inv obtain p q where d: "dir_ok q0 M p q N" and s: "senders_ok N" and a: "acks_ok N"
    by (auto simp: net_at_def)
  have tx: "tx_ok M p (made N) (tr_sender (end_a N))" using d by (simp add: dir_ok_def)
  have rx: "rx_ok M q (received_states ((end_b N)\<lparr>tr_connection := c\<rparr>))" using d by (simp add: dir_ok_def)
  have i: "inst_ok M ?a inst" using d w by (simp add: dir_ok_def)
  note R = rx_instruction [OF rx i pi]
  then have rxT: "rx_ok M q (received_states T)" and k: "rx_keeps ?a ((end_b N)\<lparr>tr_connection := c\<rparr>) T"
    by simp_all
  show "\<exists>r'. r = Inr r'" using R by simp
  have "last (received_states T) \<in> set (received_states T)" using rxT by (simp add: rx_ok_def rx_inv_def)
  then obtain h where h: "M (ts_num (last (received_states T))) = Some h"
    using rxT unfolding rx_ok_def by blast
  have "out_ok M q0 q (ts_num (last (received_states T))) (last_receiver_state T) (delivered N)"
    using out_later [OF _ _ h tx] d k unfolding dir_ok_def rx_keeps_def by auto
  then have "dir_ok q0 M p q (N\<lparr>end_b := T\<rparr>)" using d rxT by (simp add: dir_ok_def)
  moreover have "ack_ok ?a (nums (received_states T)) n"
    if "ack_ok ?a (nums (received_states (end_b N))) n" for n
    using that k by (auto simp: ack_ok_def rx_keeps_def not_less)
  then have "acks_ok (N\<lparr>end_b := T\<rparr>)"
    using a k by (auto simp: acks_ok_def rx_keeps_def) (auto simp: ack_ok_def)
  moreover have "senders_ok (N\<lparr>end_b := T\<rparr>)"
    using s process_instruction_sender_inv [OF pi] by (simp add: senders_ok_def)
  ultimately show "net_at M q0 (N\<lparr>end_b := T\<rparr>)" by (auto simp: net_at_def)
qed

lemma step_consume_at:
  assumes inv: "net_at M q0 N" and g: "get_remote_diff ops (end_b N) = (d, T)"
    and x: "x = (if d = [] then delivered N
           else case apply_string ops (delivered N) d of Inl e \<Rightarrow> delivered N | Inr s \<Rightarrow> s)"
  shows "net_at M q0 (N\<lparr>end_b := T, delivered := x\<rparr>)"
proof -
  from inv obtain p q where d: "dir_ok q0 M p q N" and s: "senders_ok N" and a: "acks_ok N"
    by (auto simp: net_at_def)
  have rx: "rx_ok M q (received_states (end_b N))"
    and tx: "tx_ok M p (made N) (tr_sender (end_a N))"
    and out: "out_ok M q0 q (ts_num (last (received_states (end_b N)))) (last_receiver_state (end_b N))
        (delivered N)"
    using d by (simp_all add: dir_ok_def)
  obtain q' where q': "rx_ok M q' (received_states T)"
    "out_ok M q0 q' (ts_num (last (received_states T))) (last_receiver_state T) x"
    using rx_consume [OF rx tx out g x] by blast
  have S: "tr_sender T = tr_sender (end_b N)" using g by (auto simp: get_remote_diff_def Let_def)
  have "nums (received_states T) = nums (received_states (end_b N))"
    using get_remote_diff_rx_inv(1) [of "end_b N" ops] rx g nums_map
    by (metis rx_ok_def snd_conv)
  then have "acks_ok (N\<lparr>end_b := T, delivered := x\<rparr>)" using a S by (simp add: acks_ok_def)
  moreover have "dir_ok q0 M p q' (N\<lparr>end_b := T, delivered := x\<rparr>)" using d q' by (simp add: dir_ok_def)
  moreover have "senders_ok (N\<lparr>end_b := T, delivered := x\<rparr>)" using s S by (simp add: senders_ok_def)
  ultimately show ?thesis by (auto simp: net_at_def)
qed

text \<open>A server step that leaves the received states alone.\<close>

lemma server_sender_at:
  assumes inv: "net_at M q0 N" and b: "sender_inv now S'" and "net_clock N \<le> now"
    and n: "sender_ack_num S' = sender_ack_num (tr_sender (end_b N))"
    and w: "\<forall>i\<in>W. or0 (ack_num i) = sender_ack_num (tr_sender (end_b N))"
  shows "net_at M q0 (N\<lparr>net_clock := now, end_b := (end_b N)\<lparr>tr_sender := S', tr_connection := c\<rparr>,
      wire_ba := wire_ba N \<union> W\<rparr>)"
  using assms sender_inv_later [of "net_clock N" "tr_sender (end_a N)" now]
  by (auto simp: net_at_def senders_ok_def dir_ok_def acks_ok_def)

lemma client_sender_at:
  assumes inv: "net_at M q0 N" and i: "sender_inv now S'" and "net_clock N \<le> now"
    and n: "sent_state_acked S' = sent_state_acked (tr_sender (end_a N))"
    and tx: "\<And>p. tx_ok M p (made N) (tr_sender (end_a N)) \<Longrightarrow> \<exists>p'. tx_ok M p' H S'"
  shows "net_at M q0 (N\<lparr>net_clock := now, end_a := (end_a N)\<lparr>tr_sender := S', tr_connection := c\<rparr>,
      made := H\<rparr>)"
proof -
  from inv obtain p q where d: "dir_ok q0 M p q N" and s: "senders_ok N" and a: "acks_ok N"
    by (auto simp: net_at_def)
  obtain p' where "tx_ok M p' H S'" using d tx [of p] by (auto simp: dir_ok_def)
  then have "dir_ok q0 M p' q (N\<lparr>net_clock := now,
      end_a := (end_a N)\<lparr>tr_sender := S', tr_connection := c\<rparr>, made := H\<rparr>)"
    using d n by (simp add: dir_ok_def)
  then show ?thesis
    using s i a n sender_inv_later [OF _ assms(3)]
    by (auto simp: net_at_def senders_ok_def acks_ok_def)
qed

lemma quiet_step_at:
  assumes "net_at M q0 N" and "net_step ops cops act hact N e N'" and "\<And>t. e \<noteq> TickA t"
  shows "net_at M q0 N'"
  using assms(2,1)
proof cases
  case (step_act x)
  have i: "sender_inv (net_clock N) (tr_sender (end_a N))" using assms(1) by (simp add: net_at_def senders_ok_def)
  let ?S' = "set_current_state (tr_sender (end_a N)) (act x (current_state (tr_sender (end_a N))))"
  have "net_at M q0 (N\<lparr>net_clock := net_clock N, end_a := (end_a N)\<lparr>tr_sender := ?S',
      tr_connection := tr_connection (end_a N)\<rparr>, made := hact x (made N)\<rparr>)"
    by (rule client_sender_at [OF assms(1)])
       (use i step_act(3) in \<open>auto simp: set_current_state_def sender_inv_def sent_state_acked_def
         intro!: exI tx_act [unfolded set_current_state_def]\<close>)
  then show ?thesis using step_act by simp
next
  case (step_tick_a now timeout srtt remote pad r S' c)
  with assms(3) show ?thesis by blast
next
  case (step_timers_a now c timeout srtt remote)
  have i: "sender_inv (net_clock N) (tr_sender (end_a N))" using assms(1) by (simp add: net_at_def senders_ok_def)
  have "net_at M q0 (N\<lparr>net_clock := now, end_a := (end_a N)\<lparr>tr_sender :=
      calculate_timers ops (tr_sender (end_a N)) now timeout srtt, tr_connection := c\<rparr>, made := made N\<rparr>)"
    by (rule client_sender_at [OF assms(1) _ step_timers_a(3)])
       (use i tx_timers timers_acked calculate_timers_inv sender_inv_later [OF _ step_timers_a(3)] in \<open>blast+\<close>)
  then show ?thesis using step_timers_a by (simp add: wait_time_state)
next
  case (step_shutdown_a now)
  have "sender_inv now (tr_sender (end_a N))"
    using assms(1) sender_inv_later [OF _ step_shutdown_a(3)] unfolding net_at_def senders_ok_def by blast
  then have i: "sender_inv now (sender_start_shutdown (tr_sender (end_a N)) now)"
    by (auto simp: sender_inv_def sender_start_shutdown_def intro: hist_inv_later)
  have "net_at M q0 (N\<lparr>net_clock := now, end_a := (end_a N)\<lparr>tr_sender :=
      sender_start_shutdown (tr_sender (end_a N)) now, tr_connection := tr_connection (end_a N)\<rparr>, made := made N\<rparr>)"
    by (rule client_sender_at [OF assms(1) i step_shutdown_a(3)])
       (auto simp: sent_state_acked_def dest: tx_shutdown)
  then show ?thesis using step_shutdown_a by (simp add: transport_start_shutdown_def)
next
  case (step_recv_a inst c nq now r T)
  then show ?thesis using step_recv_a_at [OF assms(1)] by blast
next
  case (step_act_b x)
  then show ?thesis
    using assms(1) by (auto simp: net_at_def senders_ok_def dir_ok_def acks_ok_def set_current_state_def sender_inv_def)
next
  case (step_tick_b now timeout srtt remote pad r S' c)
  have i: "sender_inv (net_clock N) (tr_sender (end_b N))" using assms(1) by (simp add: net_at_def senders_ok_def)
  show ?thesis
    unfolding step_tick_b(2)
    by (rule server_sender_at [OF assms(1) sender_tick_inv [OF step_tick_b(5) i step_tick_b(3,4)]
          step_tick_b(3)]) (use sender_tick_ack [OF step_tick_b(5) i] in auto)
next
  case (step_timers_b now c timeout srtt remote)
  have i: "sender_inv now (tr_sender (end_b N))"
    using assms(1) sender_inv_later [OF _ step_timers_b(3)] unfolding net_at_def senders_ok_def by blast
  have "net_at M q0 (N\<lparr>net_clock := now, end_b := (end_b N)\<lparr>tr_sender :=
      calculate_timers cops (tr_sender (end_b N)) now timeout srtt, tr_connection := c\<rparr>,
      wire_ba := wire_ba N \<union> {}\<rparr>)"
    by (rule server_sender_at [OF assms(1) calculate_timers_inv [OF i] step_timers_b(3)])
       (auto simp: calculate_timers_fields)
  then show ?thesis using step_timers_b by (simp add: wait_time_state)
next
  case (step_shutdown_b now)
  have "sender_inv now (tr_sender (end_b N))"
    using assms(1) sender_inv_later [OF _ step_shutdown_b(3)] unfolding net_at_def senders_ok_def by blast
  then have i: "sender_inv now (sender_start_shutdown (tr_sender (end_b N)) now)"
    by (auto simp: sender_inv_def sender_start_shutdown_def intro: hist_inv_later)
  have "net_at M q0 (N\<lparr>net_clock := now, end_b := (end_b N)\<lparr>tr_sender :=
      sender_start_shutdown (tr_sender (end_b N)) now, tr_connection := tr_connection (end_b N)\<rparr>,
      wire_ba := wire_ba N \<union> {}\<rparr>)"
    by (rule server_sender_at [OF assms(1) i step_shutdown_b(3)]) auto
  then show ?thesis using step_shutdown_b by (simp add: transport_start_shutdown_def)
next
  case (step_recv_b inst c nq now r T)
  then show ?thesis using step_recv_b_at(1) [OF assms(1)] by blast
next
  case (step_consume d T)
  then show ?thesis using step_consume_at [OF assms(1) step_consume(3) refl] by simp
next
  case (step_conn_a c)
  then show ?thesis using assms(1) by (simp add: net_at_def senders_ok_def dir_ok_def acks_ok_def)
next
  case (step_conn_b c)
  then show ?thesis using assms(1) by (simp add: net_at_def senders_ok_def dir_ok_def acks_ok_def)
qed

text \<open>A step keeps what the numbers stand for, and a number that is sent stands for what is made.\<close>

lemma net_step_at:
  assumes "net_at M q0 N" and "net_step ops cops act hact N e N'"
  shows "\<exists>M'. M \<subseteq>\<^sub>m M' \<and> net_at M' q0 N' \<and> (\<forall>i\<in>wire_ab N' - wire_ab N. M' (or0 (new_num i)) = Some (made N'))"
proof (cases "\<exists>t. e = TickA t")
  case True
  from assms(2) True show ?thesis
  proof cases
    case (step_tick_a now timeout srtt remote pad r S' c)
    from step_tick_a_at [OF assms(1) step_tick_a(3,4,5,2)] show ?thesis by (simp add: step_tick_a(2)) blast
  qed auto
next
  case False
  then have "net_at M q0 N'" using quiet_step_at [OF assms] by blast
  moreover have "wire_ab N' = wire_ab N" using assms(2) False by cases auto
  ultimately show ?thesis by (auto intro: map_le_refl)
qed

lemma net_step_inv:
  assumes "net_inv q0 N" and "net_step ops cops act hact N e N'"
  shows "net_inv q0 N'"
  using assms net_step_at unfolding net_inv_at by blast

lemma step_recv_b_inv:
  assumes "net_inv q0 N" and "inst \<in> wire_ab N"
    and "process_instruction ops ((end_b N)\<lparr>tr_connection := c\<rparr>) inst nq now = (r, T)"
  shows "net_inv q0 (N\<lparr>end_b := T\<rparr>)" and "\<exists>r'. r = Inr r'"
  using assms step_recv_b_at unfolding net_inv_at by blast+

text \<open>
  What processing a packet that was sent comes to: the state filed under its number stands for what
  that number stands for; and it is filed when the server lacks it, has the state it starts from
  and has room.
\<close>

lemma recv_b_version:
  assumes inv: "net_at M q0 N" and w: "inst \<in> wire_ab N"
    and pi: "process_instruction ops ((end_b N)\<lparr>tr_connection := c\<rparr>) inst nq now = (r, T)"
  shows "\<exists>q g. rep q g (last_receiver_state (end_b N)) \<and> rep q0 g (delivered N) \<and> le g (made N) \<and>
      (\<forall>t\<in>set (received_states T). \<exists>h. M (ts_num t) = Some h \<and> le h (made N) \<and> rep q h (ts_state t))"
    and "set (accepted r) \<subseteq> {or0 (new_num inst)} \<inter> nums (received_states T)"
    and "or0 (new_num inst) \<notin> nums (received_states (end_b N)) \<Longrightarrow> or0 (old_num inst) \<in> nums (received_states (end_b N)) \<Longrightarrow>
      or0 (throwaway_num inst) \<le> or0 (old_num inst) \<Longrightarrow> length (received_states (end_b N)) \<le> RECEIVED_STATES_MAX \<Longrightarrow>
      accepted r = [or0 (new_num inst)]"
proof -
  let ?b = "(end_b N)\<lparr>tr_connection := c\<rparr>"
  from inv obtain p q where d: "dir_ok q0 M p q N" by (auto simp: net_at_def)
  have rx: "rx_ok M q (received_states ?b)" and i: "inst_ok M (sent_state_acked (tr_sender (end_a N))) inst"
    using d w by (simp_all add: dir_ok_def)
  have v: "protocol_version inst = Some MORSH_PROTOCOL_VERSION" using i by (simp add: inst_ok_def)
  have rinv: "rx_inv (received_states ?b)" using rx by (simp add: rx_ok_def)
  note R = rx_instruction [OF rx i pi]
  have T: "\<forall>t\<in>set (received_states T). \<exists>h. M (ts_num t) = Some h \<and> rep q h (ts_state t)"
    using R by (simp add: rx_ok_def)
  have le: "le h (made N)" if "M n = Some h" for n h using d that by (auto simp: dir_ok_def tx_ok_def)
  then have "\<exists>g. rep q g (last_receiver_state (end_b N)) \<and> rep q0 g (delivered N) \<and> le g (made N)"
    using d le_trans unfolding dir_ok_def out_ok_def by blast
  with T le show "\<exists>q g. rep q g (last_receiver_state (end_b N)) \<and> rep q0 g (delivered N) \<and> le g (made N) \<and>
      (\<forall>t\<in>set (received_states T). \<exists>h. M (ts_num t) = Some h \<and> le h (made N) \<and> rep q h (ts_state t))" by blast
  have built: "accepted r = [or0 (new_num inst)] \<and> or0 (new_num inst) \<in> nums (received_states T)"
    if b: "rx_build ops ?b inst now r T"
    using rx_build_next(4) [OF rinv b] R by (auto split: if_splits)
  have "accepted r = []" if "rx_skip ?b inst r T" using that by (simp add: rx_skip_def)
  with built show "set (accepted r) \<subseteq> {or0 (new_num inst)} \<inter> nums (received_states T)"
    using process_instruction_cases [OF pi v] by auto
  show "accepted r = [or0 (new_num inst)]"
    if "or0 (new_num inst) \<notin> nums (received_states (end_b N))" "or0 (old_num inst) \<in> nums (received_states (end_b N))"
      "or0 (throwaway_num inst) \<le> or0 (old_num inst)" "length (received_states (end_b N)) \<le> RECEIVED_STATES_MAX"
    using built process_instruction_builds [OF pi v rinv] that by simp
qed

text \<open>The packets of an honest sender go forward, so none of their numbers is accepted twice.\<close>

lemma sent_forward: "net_inv q0 N \<Longrightarrow> inst \<in> wire_ab N \<Longrightarrow> forward inst"
  by (auto simp: net_inv_def inst_ok_def)

text \<open>
  A start: both ends fresh, the client's state and what the server starts from standing for the
  same history (they may have discarded different prefixes of it).
\<close>

definition net_start :: "'c state_ops \<Rightarrow> 'p \<Rightarrow> ('s, 'c, 'h) net \<Rightarrow> bool" where
  "net_start cops q0 N \<longleftrightarrow> live q0 \<and> net_init ops cops N \<and> rep q0 (made N) (delivered N) \<and>
     (\<exists>p. home p \<and> rep p (made N) (current_state (tr_sender (end_a N))))"

lemma net_start_inv:
  assumes "net_start cops q0 N"
  shows "net_inv q0 N"
proof -
  let ?S = "tr_sender (end_a N)" and ?M = "[0 \<mapsto> made N]"
  obtain p where p: "rep p (made N) (current_state ?S)" and home: "home p" and q: "rep q0 (made N) (delivered N)"
    and init: "net_init ops cops N" and live: "live q0" using assms by (auto simp: net_start_def)
  then obtain ca cb sa sb ra t1 t2 where
    a: "end_a N = transport_new ops cops (net_clock N) t1 ca sa ra" and
    b: "end_b N = transport_new cops ops (net_clock N) t2 cb sb (delivered N)" and
    w: "wire_ab N = {}" "wire_ba N = {}" unfolding net_init_def by blast
  have S: "?S = sender_new ops (net_clock N) sa" by (simp add: a transport_new_def)
  have sa: "rep p (made N) sa" using p by (simp add: S sender_new_def)
  have "SHUTDOWN_NUM \<noteq> 0" by (simp add: SHUTDOWN_NUM_def)
  then have "tx_ok ?M p (made N) ?S"
    using sa rep_clone [OF sa] le_refl home
    by (auto simp: tx_ok_def S sender_new_def sent_state_last_def split: if_splits)
  moreover have "rx_ok ?M q0 (received_states (end_b N))"
    using rep_clone [OF q] live by (simp add: b transport_new_def rx_ok_def rx_inv_def)
  moreover have "out_ok ?M q0 q0 (ts_num (last (received_states (end_b N)))) (last_receiver_state (end_b N))
      (delivered N)"
    using q le_refl live by (auto simp: b transport_new_def out_ok_def)
  ultimately have "dir_ok q0 ?M p q0 N" using w by (simp add: dir_ok_def)
  moreover have "senders_ok N"
    by (simp add: senders_ok_def a b transport_new_def sender_new_inv)
  moreover have "acks_ok N"
    using w by (simp add: acks_ok_def ack_ok_def a b transport_new_def sender_new_def sent_state_acked_def)
  ultimately show ?thesis by (auto simp: net_inv_parts)
qed

end

sublocale ssp \<subseteq> run: machine "net_start cops q0" "net_step ops cops act hact" "net_inv q0"
  for cops q0
  by unfold_locales (auto intro: net_start_inv net_step_inv)

section \<open>What the protocol guarantees\<close>

context ssp
begin

text \<open>What was delivered stands for a version of what was made.\<close>

lemma delivered_version:
  assumes "net_inv q0 N"
  shows "\<exists>h. le h (made N) \<and> rep q0 h (delivered N)"
  using assms le_trans unfolding net_inv_def out_ok_def tx_ok_def by metis

lemma held_versions:
  assumes "net_inv q0 N"
  shows "\<exists>q. \<forall>t\<in>set (received_states (end_b N)). \<exists>h. le h (made N) \<and> rep q h (ts_state t)"
  using assms unfolding net_inv_def rx_ok_def tx_ok_def by metis

lemma acked_held:
  "net_inv q0 N \<Longrightarrow> sent_state_acked (tr_sender (end_a N)) \<in> nums (received_states (end_b N))"
  by (simp add: net_inv_def)

text \<open>
  The newest state held, once it carries the number of the client's newest packet, stands for the
  history that packet stood for; if the client has made nothing since, that is everything.
\<close>

lemma newest_held:
  assumes inv: "net_inv q0 N"
    and num: "get_remote_state_num (end_b N) = sent_state_last (tr_sender (end_a N))"
    and eq: "state_equal ops (current_state (tr_sender (end_a N)))
        (ts_state (last (sent_states (tr_sender (end_a N)))))"
  shows "\<exists>g q. live q \<and> live q0 \<and> le g (made N) \<and> rep q (made N) (ts_state (last (received_states (end_b N)))) \<and>
    rep q g (last_receiver_state (end_b N)) \<and> rep q0 g (delivered N)"
proof -
  let ?S = "tr_sender (end_a N)" and ?l = "last (received_states (end_b N))"
  from inv obtain M p q where dir: "dir_ok q0 M p q N" and s: "senders_ok N"
    by (auto simp: net_inv_parts)
  have tx: "tx_ok M p (made N) ?S" and rx: "rx_ok M q (received_states (end_b N))"
    using dir by (simp_all add: dir_ok_def)
  obtain g' h where gh: "M (ts_num ?l) = Some h" "le g' h" "rep q g' (last_receiver_state (end_b N))"
    "rep q0 g' (delivered N)" and live: "live q0" using dir by (auto simp: dir_ok_def out_ok_def)
  have "last (sent_states ?S) \<in> set (sent_states ?S)"
    using s by (simp add: senders_ok_def sender_inv_def hist_inv_def)
  then have "rep p h (ts_state (last (sent_states ?S)))"
    using tx gh(1) num unfolding tx_ok_def get_remote_state_num_def sent_state_last_def by auto
  moreover have "rep p (made N) (current_state ?S)" "le h (made N)"
    using tx gh(1) unfolding tx_ok_def by blast+
  ultimately have hm: "made N = h" using rep_equal eq by blast
  have "?l \<in> set (received_states (end_b N))" using rx by (simp add: rx_ok_def rx_inv_def)
  then have "rep q h (ts_state ?l)" "live q" using rx gh(1) unfolding rx_ok_def by auto
  then show ?thesis using gh live unfolding hm by blast
qed

lemma newest_version:
  assumes inv: "net_inv q0 N"
    and num: "get_remote_state_num (end_b N) = sent_state_last (tr_sender (end_a N))"
    and eq: "state_equal ops (current_state (tr_sender (end_a N)))
        (ts_state (last (sent_states (tr_sender (end_a N)))))"
    and g: "get_remote_diff ops (end_b N) = (d, T)"
  shows "if d = [] then rep q0 (made N) (delivered N)
    else \<exists>s. apply_string ops (delivered N) d = Inr s \<and> rep q0 (made N) s"
proof -
  obtain g' q where h: "live q0" "le g' (made N)" "rep q (made N) (ts_state (last (received_states (end_b N))))"
    "rep q g' (last_receiver_state (end_b N))" "rep q0 g' (delivered N)"
    using newest_held [OF inv num eq] by blast
  have "d = diff_from ops (ts_state (last (received_states (end_b N)))) (last_receiver_state (end_b N))"
    using g by (auto simp: get_remote_diff_def Let_def)
  then show ?thesis using rep_diff [OF h] by simp
qed

text \<open>
  One packet is enough: when a tick sends a diff from the acknowledged state and that packet
  arrives, the server's newest state is the client's current one, whatever else was lost.
\<close>

lemma tick_last:
  assumes "sender_tick ops S now timeout srtt remote pad = (Some inst, S')" and "sender_inv clk S"
  shows "new_num inst = Some (sent_state_last S')" and "throwaway_num inst = Some (sent_state_acked S)"
proof -
  let ?S1 = "calculate_timers ops S now timeout srtt"
  have inv1: "sender_inv clk ?S1" by (rule calculate_timers_inv [OF assms(2)])
  then have ne: "sent_states ?S1 \<noteq> []" by (simp add: sender_inv_def hist_inv_def)
  obtain t d where i: "inst = emit_inst ops ?S1 t d pad" and h: "sent_states S' = emit_hist ops ?S1 d now"
    using sender_tick_cases [OF assms refl] by (auto simp: Let_def)
  show "new_num inst = Some (sent_state_last S')"
    using i h emit_hist_last [OF ne] by (simp add: emit_inst_def sent_state_last_def)
  show "throwaway_num inst = Some (sent_state_acked S)"
    using i timers_acked [OF assms(2), of now timeout srtt] by (simp add: emit_inst_def sent_state_acked_def)
qed

text \<open>The newest number the server holds: no later than the client's, and it never falls.\<close>

lemma newest_bounded:
  assumes "net_inv q0 N"
  shows "get_remote_state_num (end_b N) \<le> sent_state_last (tr_sender (end_a N))"
proof -
  from assms obtain M p q where d: "dir_ok q0 M p q N" by (auto simp: net_inv_parts)
  then have rx: "rx_ok M q (received_states (end_b N))" and tx: "tx_ok M p (made N) (tr_sender (end_a N))"
    by (simp_all add: dir_ok_def)
  have "last (received_states (end_b N)) \<in> set (received_states (end_b N))" using rx by (simp add: rx_ok_def rx_inv_def)
  then show ?thesis using rx tx unfolding rx_ok_def tx_ok_def get_remote_state_num_def by blast
qed

lemma newest_grows:
  assumes "net_inv q0 N" and "inst \<in> wire_ab N"
    and "process_instruction ops ((end_b N)\<lparr>tr_connection := c\<rparr>) inst nq now = (r, T)"
  shows "get_remote_state_num (end_b N) \<le> get_remote_state_num T"
proof -
  from assms(1) obtain M p q where d: "dir_ok q0 M p q N" by (auto simp: net_inv_parts)
  then have "rx_ok M q (received_states ((end_b N)\<lparr>tr_connection := c\<rparr>))"
    and "inst_ok M (sent_state_acked (tr_sender (end_a N))) inst"
    using assms(2) by (simp_all add: dir_ok_def)
  from rx_instruction [OF this assms(3)] show ?thesis by (simp add: rx_keeps_def get_remote_state_num_def)
qed

lemma deliver_newest:
  assumes inv: "net_inv q0 N" and w: "inst \<in> wire_ab N"
    and new: "or0 (new_num inst) = sent_state_last (tr_sender (end_a N))"
    and old: "or0 (old_num inst) = sent_state_acked (tr_sender (end_a N))"
    and room: "length (received_states (end_b N)) \<le> RECEIVED_STATES_MAX"
    and pi: "process_instruction ops ((end_b N)\<lparr>tr_connection := c\<rparr>) inst nq now = (r, T)"
  shows "get_remote_state_num T = sent_state_last (tr_sender (end_a N))"
proof -
  let ?T = "(end_b N)\<lparr>tr_connection := c\<rparr>" and ?n = "or0 (new_num inst)"
  from inv obtain M p q where dir: "dir_ok q0 M p q N" and a: "acks_ok N"
    by (auto simp: net_inv_parts)
  have tx: "tx_ok M p (made N) (tr_sender (end_a N))" and rx: "rx_ok M q (received_states ?T)"
    and i: "inst_ok M (sent_state_acked (tr_sender (end_a N))) inst"
    using dir w by (simp_all add: dir_ok_def)
  have v: "protocol_version inst = Some MORSH_PROTOCOL_VERSION"
    and thr: "or0 (throwaway_num inst) \<le> or0 (old_num inst)"
    using i old by (simp_all add: inst_ok_def)
  have rinv: "rx_inv (received_states ?T)" using rx by (simp add: rx_ok_def)
  have top: "m \<le> ?n" if "m \<in> nums (received_states ?T)" for m
    using that rx tx new unfolding rx_ok_def tx_ok_def nums_iff by metis
  have last: "ts_num (last (received_states ?T)) \<le> ?n" by (rule top [OF rx_last_in [OF rinv]])
  show ?thesis
  proof (cases "?n \<in> nums (received_states ?T)")
    case True
    then have eq: "ts_num (last (received_states ?T)) = ?n" using rx_last_max [OF rinv] last by fastforce
    have "\<not> rx_build ops ?T inst now r T" using True by (simp add: rx_build_def)
    then have s: "rx_skip ?T inst r T" using process_instruction_cases [OF pi v] by blast
    show ?thesis using rx_skip_nums(3) [OF rinv s] eq new by (simp add: get_remote_state_num_def)
  next
    case False
    have o: "or0 (old_num inst) \<in> nums (received_states ?T)" using a old by (simp add: acks_ok_def)
    have b: "rx_build ops ?T inst now r T"
      using process_instruction_builds [OF pi v rinv False o thr] room by simp
    have "ts_num (last (received_states ?T)) < ?n"
      using last False rx_last_in [OF rinv] by (metis order_le_less)
    moreover have "\<not> (\<exists>e. r = Inl (StateError e))" using rx_build_ok(2) [OF rx i b] by auto
    ultimately have "ts_num (last (received_states T)) = ?n"
      using rx_build_next(4) [OF rinv b] by simp
    then show ?thesis using new by (simp add: get_remote_state_num_def)
  qed
qed

text \<open>After a tick that sent a packet, the last sent state is the current one.\<close>

lemma tick_current:
  assumes tick: "sender_tick ops S now timeout srtt remote pad = (Some inst, S')"
    and inv: "sender_inv clk S" and tx: "tx_ok M p H S" and room: "num_room S"
  shows "state_equal ops (current_state S') (ts_state (last (sent_states S')))"
proof -
  obtain M' p' where tx': "tx_ok M' p' H S'" using tx_tick [OF tick tx inv room] by blast
  let ?S1 = "calculate_timers ops S now timeout srtt"
  obtain p1 where tx1: "tx_ok M p1 H ?S1" using tx_timers [OF tx inv] by blast
  have inv1: "sender_inv clk ?S1" by (rule calculate_timers_inv [OF inv])
  then have ne: "sent_states ?S1 \<noteq> []" by (simp add: sender_inv_def hist_inv_def)
  obtain d where k: "keeps ?S1 S'" and h: "sent_states S' = emit_hist ops ?S1 d now"
    using sender_tick_cases [OF tick inv refl] by (auto simp: Let_def)
  have H: "rep p1 H (current_state ?S1)" using tx1 by (simp add: tx_ok_def)
  note e = tx_emit [OF tx1 inv1 calculate_timers_room [OF inv room] k h refl]
  have "last (sent_states S') \<in> set (sent_states S')"
    using sender_tick_cases [OF tick inv refl] h by (simp add: emit_hist_def)
  moreover have "ts_num (last (sent_states S')) = emit_num ops ?S1 d"
    using emit_hist_last [OF ne] h by simp
  ultimately have "rep p1 H (ts_state (last (sent_states S')))"
    using e(1) unfolding tx_ok_def by (metis fun_upd_same option.inject)
  then show ?thesis using H k rep_equal_refl by (simp add: keeps_def)
qed

text \<open>
  Everything together: whatever was lost before, when one packet that a tick sends as a diff from the
  acknowledged state arrives, the server's callers get the whole history.
\<close>

lemma one_packet:
  assumes inv: "net_inv q0 N" and clk: "net_clock N \<le> now" and nr: "num_room (tr_sender (end_a N))"
    and tick: "sender_tick ops (tr_sender (end_a N)) now timeout srtt remote pad = (Some inst, S')"
    and old: "old_num inst = Some (sent_state_acked (tr_sender (end_a N)))"
    and room: "length (received_states (end_b N)) \<le> RECEIVED_STATES_MAX"
    and recv: "process_instruction ops (end_b N) inst nq now' = (r, T)"
  shows "\<exists>q. rep q (made N) (ts_state (last (received_states T)))"
    and "get_remote_diff ops T = (d, T') \<Longrightarrow>
      (if d = [] then rep q0 (made N) (delivered N)
       else \<exists>s. apply_string ops (delivered N) d = Inr s \<and> rep q0 (made N) s)"
proof -
  let ?a = "(end_a N)\<lparr>tr_sender := S', tr_connection := tr_connection (end_a N)\<rparr>"
  define N1 where "N1 = N\<lparr>net_clock := now, end_a := ?a, wire_ab := wire_ab N \<union> emitted (Some inst)\<rparr>"
  have i1: "net_inv q0 N1" using inv step_tick_a_at [OF _ clk nr tick N1_def] unfolding net_inv_at by blast
  have w: "inst \<in> wire_ab N1" by (simp add: N1_def emitted_def)
  have si: "sender_inv (net_clock N) (tr_sender (end_a N))" using inv unfolding net_inv_def by blast
  obtain M p where tx: "tx_ok M p (made N) (tr_sender (end_a N))" using inv unfolding net_inv_def by blast
  have ack: "sent_state_acked S' = sent_state_acked (tr_sender (end_a N))"
    using tx_tick [OF tick tx si nr] by blast
  have S1: "tr_sender (end_a N1) = S'" and b1: "(end_b N1)\<lparr>tr_connection := tr_connection (end_b N)\<rparr> = end_b N"
    by (simp_all add: N1_def)
  define N2 where "N2 = N1\<lparr>end_b := T\<rparr>"
  have recv1: "process_instruction ops ((end_b N1)\<lparr>tr_connection := tr_connection (end_b N)\<rparr>)
      inst nq now' = (r, T)" unfolding b1 by (rule recv)
  have i2: "net_inv q0 N2" unfolding N2_def by (rule step_recv_b_inv(1) [OF i1 w recv1])
  have num: "get_remote_state_num (end_b N2) = sent_state_last (tr_sender (end_a N2))"
    using deliver_newest [OF i1 w _ _ _ recv1] tick_last [OF tick si] old ack room S1
    by (simp add: N1_def N2_def)
  have eq: "state_equal ops (current_state (tr_sender (end_a N2))) (ts_state (last (sent_states (tr_sender (end_a N2)))))"
    using tick_current [OF tick si tx nr] S1 by (simp add: N2_def)
  have same: "made N2 = made N" "delivered N2 = delivered N" "end_b N2 = T" by (simp_all add: N1_def N2_def)
  show "\<exists>q. rep q (made N) (ts_state (last (received_states T)))"
    using newest_held [OF i2 num eq] same by auto
  show "if d = [] then rep q0 (made N) (delivered N)
      else \<exists>s. apply_string ops (delivered N) d = Inr s \<and> rep q0 (made N) s" if "get_remote_diff ops T = (d, T')"
    using newest_version [OF i2 num eq] that unfolding same .
qed

text \<open>
  Unsent changes: when versions that are each later than the other are equal, a state that differs
  from the last sent one differs from every sent one, so its diff is never empty.
\<close>

lemma unsent_diff:
  assumes anti: "\<And>g h. le g h \<Longrightarrow> le h g \<Longrightarrow> g = h"
    and tx: "tx_ok M p H S" and inv: "sender_inv clk S"
    and ne: "\<not> state_equal ops (current_state S) (ts_state (last (sent_states S)))"
    and t: "t \<in> set (sent_states S)"
  shows "diff_from ops (current_state S) (ts_state t) \<noteq> []"
proof
  assume emp: "diff_from ops (current_state S) (ts_state t) = []"
  let ?l = "last (sent_states S)"
  have l: "?l \<in> set (sent_states S)" using inv by (simp add: sender_inv_def hist_inv_def)
  obtain g where g: "M (ts_num t) = Some g" "rep p g (ts_state t)" using tx t unfolding tx_ok_def by blast
  obtain h where h: "M (ts_num ?l) = Some h" "rep p h (ts_state ?l)" using tx l unfolding tx_ok_def by blast
  have H: "rep p H (current_state S)" "le g H" "le h H" using tx g h unfolding tx_ok_def by blast+
  have "ts_num t \<le> ts_num ?l" using hist_num_le_last [OF _ t] inv by (auto simp: sender_inv_def)
  then have gh: "le g h" using tx g h unfolding tx_ok_def by blast
  have "state_equal ops (current_state S) (ts_state t)" by (rule diff_empty [OF H(2,1) g(2) emp])
  then have "H = g" using rep_equal [OF H(2,1) g(2)] by blast
  then have "H = h" using gh anti [OF _ H(3)] by blast
  then show False using ne rep_equal [OF H(3,1) h(2)] by blast
qed

lemma timers_unequal:
  assumes tx: "tx_ok M p H S" and inv: "sender_inv clk S"
    and ne: "\<not> state_equal ops (current_state S) (ts_state (last (sent_states S)))"
    and S1: "S1 = calculate_timers ops S now timeout srtt"
  shows "\<not> state_equal ops (current_state S1) (ts_state (last (sent_states S1)))"
proof -
  obtain p1 where tx1: "tx_ok M p1 H S1" using tx_timers [OF tx inv] unfolding S1 by blast
  have inv1: "sender_inv clk S1" unfolding S1 by (rule calculate_timers_inv [OF inv])
  have l: "last (sent_states S) \<in> set (sent_states S)" and l1: "last (sent_states S1) \<in> set (sent_states S1)"
    using inv inv1 by (simp_all add: sender_inv_def hist_inv_def)
  have num: "ts_num (last (sent_states S1)) = ts_num (last (sent_states S))"
    unfolding S1 by (rule shape_last_num)
      (use inv1 S1 in \<open>auto simp: calculate_timers_fields sender_inv_def hist_inv_def\<close>)
  obtain h where h: "M (ts_num (last (sent_states S))) = Some h" "rep p h (ts_state (last (sent_states S)))"
    using tx l unfolding tx_ok_def by blast
  have h1: "rep p1 h (ts_state (last (sent_states S1)))"
    using tx1 l1 num h(1) unfolding tx_ok_def by fastforce
  have H: "rep p H (current_state S)" "rep p1 H (current_state S1)" "le h H"
    using tx tx1 h(1) unfolding tx_ok_def by blast+
  show ?thesis using ne rep_equal [OF H(3) H(1) h(2)] rep_equal [OF H(3) H(2) h1] by blast
qed

lemma unsent_goes_out:
  assumes anti: "\<And>g h. le g h \<Longrightarrow> le h g \<Longrightarrow> g = h"
    and tx: "tx_ok M p H S" and inv: "sender_inv clk S"
    and ne: "\<not> state_equal ops (current_state S) (ts_state (last (sent_states S)))"
    and clock: "mindelay_clock S = Some c" "c + send_mindelay S \<le> now"
    and last: "timestamp (last (sent_states S)) + send_interval srtt \<le> now"
  shows "\<exists>inst S'. sender_tick ops S now timeout srtt True pad = (Some inst, S') \<and> inst_diff inst \<noteq> []"
proof -
  define S1 where "S1 = calculate_timers ops S now timeout srtt"
  obtain p1 where tx1: "tx_ok M p1 H S1" using tx_timers [OF tx inv] unfolding S1_def by blast
  have inv1: "sender_inv clk S1" unfolding S1_def by (rule calculate_timers_inv [OF inv])
  note ne1 = timers_unequal [OF tx inv ne S1_def]
  have ne': "sent_states S \<noteq> []" "sent_states S1 \<noteq> []"
    using inv inv1 by (simp_all add: sender_inv_def hist_inv_def)
  have due: "\<exists>t. next_send_time S1 = Some t \<and> t \<le> now"
    using timers_next_send [OF ne'(1) clock(1)] ne1 clock(2) last unfolding S1_def by simp
  let ?d0 = "diff_from ops (current_state S1) (ts_state (sent_states S1 ! assumed_receiver_state S1))"
  obtain d S2 where pr: "attempt_prospective_resend_optimization ops S1 ?d0 = (d, S2)" by fastforce
  note P = prospective_fields [OF pr ne'(2)]
  have "assumed_receiver_state S2 < length (sent_states S1)"
    using P(2) inv1 ne'(2) by (auto simp: sender_inv_def)
  then have d: "d \<noteq> []" using unsent_diff [OF anti tx1 inv1 ne1] P(3) by simp
  obtain r S' where tick: "sender_tick ops S now timeout srtt True pad = (r, S')" by fastforce
  have "r \<noteq> None"
    using tick due d unfolding sender_tick_def Let_def S1_def [symmetric] pr prod.case
    by (auto split: prod.splits)
  then obtain inst where r: "r = Some inst" by blast
  then obtain t where "t \<in> set (sent_states S1)" "inst_diff inst = diff_from ops (current_state S1) (ts_state t)"
    using sender_tick_cases [OF tick inv S1_def] by (auto simp: Let_def emit_inst_def)
  then have "inst_diff inst \<noteq> []" using unsent_diff [OF anti tx1 inv1 ne1] by simp
  then show ?thesis using tick r by blast
qed

end

end
