(* ===== verification/User_Stream.thy ===== *)
theory User_Stream
  imports State_Trait Protobuf
begin

text \<open>
  \<open>crates/morsh-statesync/src/user_stream.rs\<close>: the queue of keystrokes and resizes that travels from
  the client to the server. The serialization of \<open>ClientBuffers::UserMessage\<close> is generated by
  \<open>prost\<close> and is the parameter \<open>user_codec\<close>; \<open>pb_user\<close> is the documented format of
  \<open>proto/userinput.proto\<close>.
\<close>

type_synonym i32 = "32 word"

datatype user_event = UserByte u8 | Resize i32 i32

record user_stream =
  events :: "user_event list"

record client_instruction =
  keystroke_keys :: "bytes option option"
  resize_dims :: "(i32 option \<times> i32 option) option"

type_synonym user_message = "client_instruction list"

record user_codec =
  um_encode :: "user_message \<Rightarrow> bytes"
  um_decode :: "bytes \<Rightarrow> string + user_message"

definition user_codec_laws :: "user_codec \<Rightarrow> bool" where
  "user_codec_laws U \<longleftrightarrow> (\<forall>m. um_decode U (um_encode U m) = Inr m) \<and>
     (\<forall>m. um_encode U m = [] \<longleftrightarrow> m = [])"

definition user_stream_new :: user_stream where
  "user_stream_new = \<lparr>events = []\<rparr>"

definition push_key :: "u8 \<Rightarrow> user_stream \<Rightarrow> user_stream" where
  "push_key b s = s\<lparr>events := events s @ [UserByte b]\<rparr>"

definition push_resize :: "i32 \<Rightarrow> i32 \<Rightarrow> user_stream \<Rightarrow> user_stream" where
  "push_resize w h s = s\<lparr>events := events s @ [Resize w h]\<rparr>"

fun common_prefix :: "user_event list \<Rightarrow> user_event list \<Rightarrow> nat" where
  "common_prefix (x # xs) (y # ys) = (if x \<noteq> y then 0 else Suc (common_prefix xs ys))"
| "common_prefix xs ys = 0"

definition common_prefix_len :: "user_stream \<Rightarrow> user_stream \<Rightarrow> nat" where
  "common_prefix_len s other = common_prefix (events s) (events other)"

text \<open>The inner loop of the grouping: the run of keystrokes at the front, and what follows it.\<close>

fun take_keys :: "user_event list \<Rightarrow> bytes \<times> user_event list" where
  "take_keys (UserByte b # es) = (case take_keys es of (keys, rest) \<Rightarrow> (b # keys, rest))"
| "take_keys es = ([], es)"

lemma take_keys_length: "take_keys es = (keys, rest) \<Longrightarrow> length rest \<le> length es"
  by (induction es arbitrary: keys rule: take_keys.induct) (fastforce split: prod.splits)+

function group_events :: "user_event list \<Rightarrow> user_message" where
  "group_events [] = []"
| "group_events (UserByte b # es) =
     (case take_keys es of (keys, rest) \<Rightarrow>
        \<lparr>keystroke_keys = Some (Some (b # keys)), resize_dims = None\<rparr> # group_events rest)"
| "group_events (Resize w h # es) =
     \<lparr>keystroke_keys = None, resize_dims = Some (Some w, Some h)\<rparr> # group_events es"
  by pat_completeness auto
termination
  by (relation "measure length") (auto dest: take_keys_length [OF sym] simp: le_imp_less_Suc)

definition encode_diff_from :: "user_codec \<Rightarrow> user_stream \<Rightarrow> user_stream \<Rightarrow> bytes" where
  "encode_diff_from U s existing =
     um_encode U (group_events (drop (common_prefix_len s existing) (events s)))"

definition apply_instruction :: "client_instruction \<Rightarrow> user_event list" where
  "apply_instruction inst =
     (case keystroke_keys inst of Some (Some keys) \<Rightarrow> map UserByte keys | _ \<Rightarrow> []) @
     (case resize_dims inst of
        Some (w, h) \<Rightarrow> [Resize (case_option 80 id w) (case_option 24 id h)]
      | None \<Rightarrow> [])"

definition decode_and_apply :: "user_codec \<Rightarrow> user_stream \<Rightarrow> bytes \<Rightarrow> string + user_stream" where
  "decode_and_apply U s d =
     (case um_decode U d of
        Inl e \<Rightarrow> Inl (''Malformed UserMessage from peer: '' @ e)
      | Inr msg \<Rightarrow> Inr (foldl (\<lambda>s inst. s\<lparr>events := events s @ apply_instruction inst\<rparr>) s msg))"

definition user_subtract :: "user_stream \<Rightarrow> user_stream \<Rightarrow> user_stream" where
  "user_subtract s pre = s\<lparr>events := drop (common_prefix_len s pre) (events s)\<rparr>"

text \<open>The implementation of the trait; \<open>adopt_from\<close> is the default of \<open>state.rs\<close>, which does nothing.\<close>

definition user_ops :: "user_codec \<Rightarrow> user_stream state_ops" where
  "user_ops U =
     \<lparr>has_prefix = True,
      state_clone = (\<lambda>s. s),
      diff_from = encode_diff_from U,
      apply_string = decode_and_apply U,
      subtract = user_subtract,
      state_equal = (\<lambda>s t. events s = events t),
      adopt_from = (\<lambda>s t. (s, t))\<rparr>"

section \<open>Lemmas\<close>

lemma common_prefix_append [simp]: "common_prefix (xs @ ys) xs = length xs"
  by (induction xs) (auto elim: common_prefix.elims)

lemma take_keys_split: "take_keys es = (keys, rest) \<Longrightarrow> es = map UserByte keys @ rest"
  by (induction es arbitrary: keys rule: take_keys.induct) (fastforce split: prod.splits)+

text \<open>Grouping loses nothing.\<close>

lemma apply_instruction_simps [simp]:
  "apply_instruction \<lparr>keystroke_keys = Some (Some keys), resize_dims = None\<rparr> = map UserByte keys"
  "apply_instruction \<lparr>keystroke_keys = None, resize_dims = Some (Some w, Some h)\<rparr> = [Resize w h]"
  by (simp_all add: apply_instruction_def)

lemma apply_group: "concat (map apply_instruction (group_events es)) = es"
proof (induction es rule: group_events.induct)
  case (2 b es)
  obtain keys rest where t: "take_keys es = (keys, rest)" by fastforce
  have "concat (map apply_instruction (group_events rest)) = rest" by (rule "2.IH") (use t in auto)
  then show ?case using t take_keys_split [OF t] by simp
qed simp_all

lemma group_events_empty [simp]: "group_events es = [] \<longleftrightarrow> es = []"
  by (cases es rule: group_events.cases) (auto split: prod.splits)

lemma apply_all: "events (foldl (\<lambda>s inst. s\<lparr>events := events s @ apply_instruction inst\<rparr>) s msg) =
    events s @ concat (map apply_instruction msg)"
  by (induction msg arbitrary: s) auto

text \<open>A stream stands for everything that was ever pushed, less a prefix that is already known.\<close>

definition user_rep :: "nat \<Rightarrow> user_event list \<Rightarrow> user_stream \<Rightarrow> bool" where
  "user_rep p h s \<longleftrightarrow> p \<le> length h \<and> events s = drop p h"

definition user_act :: "user_event \<Rightarrow> user_stream \<Rightarrow> user_stream" where
  "user_act e s = (case e of UserByte b \<Rightarrow> push_key b s | Resize w h \<Rightarrow> push_resize w h s)"

lemma common_prefix_drop:
  assumes "prefix g h" and "p \<le> length g"
  shows "common_prefix (drop p h) (drop p g) = length g - p"
proof -
  obtain k where "h = g @ k" using assms(1) by (auto simp: prefix_def)
  then have "drop p h = drop p g @ k" using assms(2) by simp
  then show ?thesis by simp
qed

lemma user_diff:
  assumes "user_codec_laws U" and "prefix g h" and "user_rep q h c" and "user_rep q g a"
  shows "diff_from (user_ops U) c a = um_encode U (group_events (drop (length g) h))"
  using assms common_prefix_drop [of g h q]
  by (auto simp: user_ops_def encode_diff_from_def common_prefix_len_def user_rep_def)

lemma user_apply:
  assumes "user_codec_laws U"
  shows "apply_string (user_ops U) s (um_encode U (group_events es)) = Inr (s\<lparr>events := events s @ es\<rparr>)"
proof -
  have "events (foldl (\<lambda>s inst. s\<lparr>events := events s @ apply_instruction inst\<rparr>) s (group_events es)) =
      events s @ es" by (simp add: apply_all apply_group)
  then have "foldl (\<lambda>s inst. s\<lparr>events := events s @ apply_instruction inst\<rparr>) s (group_events es) =
      s\<lparr>events := events s @ es\<rparr>" by simp
  then show ?thesis using assms by (simp add: user_ops_def decode_and_apply_def user_codec_laws_def)
qed

lemma user_stream_sync:
  assumes U: "user_codec_laws U"
  shows "sync_state (user_ops U) user_rep prefix length (\<lambda>_. True)"
proof
  fix f g h :: "user_event list" and p q :: nat and a b c s t :: user_stream
  show "prefix h h" by simp
  show "prefix f g \<Longrightarrow> prefix g h \<Longrightarrow> prefix f h" by (rule prefix_order.trans)
  show "user_rep p h s \<Longrightarrow> user_rep p h (state_clone (user_ops U) s)" by (simp add: user_ops_def)
  show "user_rep p h s \<Longrightarrow> user_rep p h t \<Longrightarrow>
     user_rep p h (fst (adopt_from (user_ops U) s t)) \<and> user_rep p h (snd (adopt_from (user_ops U) s t))"
    by (simp add: user_ops_def)
  show "if diff_from (user_ops U) c a = [] then user_rep p h b
      else \<exists>s. apply_string (user_ops U) b (diff_from (user_ops U) c a) = Inr s \<and> user_rep p h s"
    if le: "prefix g h" and c: "user_rep q h c" and a: "user_rep q g a" and b: "user_rep p g b"
  proof -
    obtain k where k: "h = g @ k" using le by (auto simp: prefix_def)
    have "um_encode U (group_events k) = [] \<longleftrightarrow> k = []" using U by (simp add: user_codec_laws_def)
    then show ?thesis
      using user_diff [OF U le c a] user_apply [OF U, of b k] b by (auto simp: k user_rep_def)
  qed
  show "state_equal (user_ops U) c a"
    if le: "prefix g h" and c: "user_rep q h c" and a: "user_rep q g a" and d: "diff_from (user_ops U) c a = []"
  proof -
    obtain k where k: "h = g @ k" using le by (auto simp: prefix_def)
    have "um_encode U (group_events k) = [] \<longleftrightarrow> k = []" using U by (simp add: user_codec_laws_def)
    then show ?thesis using user_diff [OF U le c a] d a c by (auto simp: k user_rep_def user_ops_def)
  qed
  show "user_rep (length g) h (subtract (user_ops U) s t)"
    if "prefix g h" "user_rep p h s" "user_rep p g t"
    using that common_prefix_drop [of g h p] prefix_length_le [of g h]
    by (auto simp: user_ops_def user_subtract_def common_prefix_len_def user_rep_def)
  show "state_equal (user_ops U) s t \<longleftrightarrow> h = g"
    if le: "prefix g h" and "user_rep p h s" "user_rep p g t"
  proof -
    obtain k where "h = g @ k" using le by (auto simp: prefix_def)
    then show ?thesis using that by (auto simp: user_ops_def user_rep_def)
  qed
  show "diff_from (user_ops U) s t = diff_from (user_ops U) a b"
    if "prefix g h" "user_rep p h s" "user_rep p g t" "user_rep q h a" "user_rep q g b"
    using user_diff [OF U that(1-3)] user_diff [OF U that(1,4,5)] by simp
qed (rule TrueI)

section \<open>The documented serialization\<close>

text \<open>A negative \<open>int32\<close> travels sign-extended to 64 bits.\<close>

definition int32_field :: "nat \<Rightarrow> i32 \<Rightarrow> field" where
  "int32_field k v = VarintF k (unat (scast v :: u64))"

definition int32_of :: "nat \<Rightarrow> field list \<Rightarrow> i32 option" where
  "int32_of k fs = map_option word_of_nat (varint_of k fs)"

definition pb_keystroke :: "bytes option \<Rightarrow> bytes" where
  "pb_keystroke k = enc_fields (opt_field (BytesF 4) k)"

definition unpb_keystroke :: "bytes \<Rightarrow> bytes option option" where
  "unpb_keystroke bs = map_option (bytes_of 4) (dec_fields bs)"

definition pb_resize :: "i32 option \<times> i32 option \<Rightarrow> bytes" where
  "pb_resize d = enc_fields (opt_field (int32_field 5) (fst d) @ opt_field (int32_field 6) (snd d))"

definition unpb_resize :: "bytes \<Rightarrow> (i32 option \<times> i32 option) option" where
  "unpb_resize bs = map_option (\<lambda>fs. (int32_of 5 fs, int32_of 6 fs)) (dec_fields bs)"

text \<open>An absent submessage is absent; a present one has to parse.\<close>

definition submessage :: "(bytes \<Rightarrow> 'a option) \<Rightarrow> bytes option \<Rightarrow> 'a option option" where
  "submessage f b = (case b of None \<Rightarrow> Some None | Some bs \<Rightarrow> map_option Some (f bs))"

definition pb_client_instruction :: "client_instruction \<Rightarrow> bytes" where
  "pb_client_instruction i = enc_fields
     (opt_field (\<lambda>k. BytesF 2 (pb_keystroke k)) (keystroke_keys i) @
      opt_field (\<lambda>d. BytesF 3 (pb_resize d)) (resize_dims i))"

definition unpb_client_instruction :: "bytes \<Rightarrow> client_instruction option" where
  "unpb_client_instruction bs =
     (case dec_fields bs of
        None \<Rightarrow> None
      | Some fs \<Rightarrow>
          (case (submessage unpb_keystroke (bytes_of 2 fs), submessage unpb_resize (bytes_of 3 fs)) of
             (Some k, Some r) \<Rightarrow> Some \<lparr>keystroke_keys = k, resize_dims = r\<rparr>
           | _ \<Rightarrow> None))"

definition pb_user :: user_codec where
  "pb_user =
     \<lparr>um_encode = (\<lambda>m. enc_fields (map (\<lambda>i. BytesF 1 (pb_client_instruction i)) m)),
      um_decode = (\<lambda>bs.
        case dec_fields bs of
          None \<Rightarrow> Inl ''failed to decode Protobuf message''
        | Some fs \<Rightarrow>
            (case traverse unpb_client_instruction (all_bytes_of 1 fs) of
               None \<Rightarrow> Inl ''failed to decode Protobuf message''
             | Some m \<Rightarrow> Inr m))\<rparr>"

lemma int32_trip: "ucast (scast v :: u64) = (v :: i32)"
  by (rule bit_word_eqI) (auto simp: bit_ucast_iff bit_signed_iff)

lemma unpb_keystroke_pb: "unpb_keystroke (pb_keystroke k) = Some k"
  by (cases k) (simp_all add: unpb_keystroke_def pb_keystroke_def opt_field_def bytes_of_def)

lemma unpb_resize_pb: "unpb_resize (pb_resize d) = Some d"
  by (cases d; cases "fst d"; cases "snd d")
     (simp_all add: unpb_resize_def pb_resize_def opt_field_def int32_field_def int32_of_def
       varint_of_def int32_trip)

lemma unpb_client_pb: "unpb_client_instruction (pb_client_instruction i) = Some i"
  by (cases i; cases "keystroke_keys i"; cases "resize_dims i")
     (simp_all add: unpb_client_instruction_def pb_client_instruction_def opt_field_def bytes_of_def
       submessage_def unpb_keystroke_pb unpb_resize_pb)

lemma pb_user_laws: "user_codec_laws pb_user"
proof -
  have "traverse unpb_client_instruction (map pb_client_instruction m) = Some m" for m
    by (rule traverse_map) (rule unpb_client_pb)
  moreover have "map (\<lambda>i. BytesF 1 (pb_client_instruction i)) m =
      map (BytesF 1) (map pb_client_instruction m)" for m by simp
  ultimately show ?thesis
    unfolding user_codec_laws_def pb_user_def by (simp del: map_map)
qed

interpretation user_pb: sync_state "user_ops pb_user" user_rep prefix length "\<lambda>_. True"
  by (rule user_stream_sync [OF pb_user_laws])

end
