(* ===== verification/Keystrokes.thy ===== *)
theory Keystrokes
  imports Synchronization User_Stream
begin

text \<open>
  The protocol instantiated with the user stream: what a server is handed of what the user typed.
  \<open>session_start\<close> is how \<open>main\<close> of the client and \<open>bind_transport\<close> of the server set the two ends up:
  the client's stream already holds the window size when the transport is built from it, the
  server starts from an empty stream.
\<close>

definition hist_act :: "user_event \<Rightarrow> user_event list \<Rightarrow> user_event list" where
  "hist_act e h = h @ [e]"

definition session_start ::
  "user_codec \<Rightarrow> 'c state_ops \<Rightarrow> i32 \<Rightarrow> i32 \<Rightarrow> (user_stream, 'c, user_event list) net \<Rightarrow> bool" where
  "session_start U cops cols rows N \<longleftrightarrow>
     wire_ab N = {} \<and> wire_ba N = {} \<and> made N = [Resize cols rows] \<and> delivered N = user_stream_new \<and>
     (\<exists>ca cb sb ra t1 t2.
        end_a N = transport_new (user_ops U) cops (net_clock N) t1 ca
                    (push_resize cols rows user_stream_new) ra \<and>
        end_b N = transport_new cops (user_ops U) (net_clock N) t2 cb sb user_stream_new)"

lemma user_source:
  assumes "user_codec_laws U"
  shows "source (user_ops U) user_rep prefix length (\<lambda>_. True) user_act hist_act"
  by (rule source.intro [OF sync_state.axioms(1) [OF user_stream_sync [OF assms]]], unfold_locales)
     (auto simp: user_rep_def user_act_def hist_act_def push_key_def push_resize_def
        split: user_event.splits)

lemma user_ssp:
  assumes "user_codec_laws U"
  shows "ssp (user_ops U) user_rep prefix length (\<lambda>_. True) (\<lambda>_. True) user_act hist_act"
  by (rule ssp.intro [OF user_stream_sync [OF assms] user_source [OF assms]])

interpretation user_net: ssp "user_ops pb_user" user_rep prefix length "\<lambda>_. True" "\<lambda>_. True" user_act hist_act
  by (rule user_ssp [OF pb_user_laws])

lemma session_start_net:
  assumes "user_codec_laws U" and "session_start U cops cols rows N"
  shows "ssp.net_start (user_ops U) user_rep (\<lambda>_. True) (\<lambda>_. True) cops 1 N"
  unfolding ssp.net_start_def [OF user_ssp [OF assms(1)]]
  using assms(2)
  by (auto simp: session_start_def net_init_def user_rep_def transport_new_def sender_new_def
      push_resize_def user_stream_new_def intro!: exI [of _ 0])

definition session_step ::
  "user_codec \<Rightarrow> 'c state_ops \<Rightarrow> (user_stream, 'c, user_event list) net \<Rightarrow> (user_event, 'c) net_event \<Rightarrow>
     (user_stream, 'c, user_event list) net \<Rightarrow> bool" where
  "session_step U cops = net_step (user_ops U) cops user_act hist_act"

definition session_reach ::
  "user_codec \<Rightarrow> 'c state_ops \<Rightarrow> i32 \<Rightarrow> i32 \<Rightarrow> (user_stream, 'c, user_event list) net \<Rightarrow> bool" where
  "session_reach U cops cols rows = reach (session_start U cops cols rows) (session_step U cops)"

abbreviation session_inv :: "user_codec \<Rightarrow> (user_stream, 'c, user_event list) net \<Rightarrow> bool" where
  "session_inv U \<equiv> ssp.net_inv (user_ops U) user_rep prefix (\<lambda>_. True) (\<lambda>_. True) 1"

lemma session_reach_inv:
  assumes U: "user_codec_laws U" and "session_reach U cops cols rows N"
  shows "session_inv U N"
  using assms(2) unfolding session_reach_def session_step_def
proof (induction rule: reach.induct)
  case (reach_init N)
  then show ?case using ssp.net_start_inv [OF user_ssp [OF U] session_start_net [OF U]] by blast
next
  case (reach_step N e N')
  then show ?case using ssp.net_step_inv [OF user_ssp [OF U]] by blast
qed

lemma made_grows: "net_step ops cops act hist_act N e N' \<Longrightarrow> prefix (made N) (made N')"
  by (erule net_step.cases) (auto simp: hist_act_def)

lemma session_made:
  assumes "session_reach U cops cols rows N"
  shows "prefix [Resize cols rows] (made N)"
  using assms unfolding session_reach_def session_step_def
proof (induction rule: reach.induct)
  case (reach_init N)
  then show ?case by (simp add: session_start_def)
next
  case (reach_step N e N')
  then show ?case using made_grows prefix_order.trans by blast
qed

lemma delivered_typed:
  assumes "user_codec_laws U" and "session_reach U cops cols rows N"
  shows "\<exists>typed. made N = Resize cols rows # typed \<and> prefix (events (delivered N)) typed"
proof -
  obtain typed where t: "made N = Resize cols rows # typed"
    using session_made [OF assms(2)] by (auto simp: prefix_def)
  obtain h where "prefix h (made N)" "user_rep 1 h (delivered N)"
    using ssp.delivered_version [OF user_ssp [OF assms(1)] session_reach_inv [OF assms]] by blast
  then have "prefix (events (delivered N)) typed"
    by (cases h) (auto simp: t user_rep_def)
  with t show ?thesis by blast
qed

section \<open>A session to run\<close>

text \<open>
  A concrete session for the witnesses: a client with an 80x24 window, a server whose screen state is
  trivial, and a clock at zero.
\<close>

definition unit_ops :: "unit state_ops" where
  "unit_ops = \<lparr>has_prefix = False, state_clone = (\<lambda>s. s), diff_from = (\<lambda>s t. []),
     apply_string = (\<lambda>s d. Inr s), subtract = (\<lambda>s t. s), state_equal = (\<lambda>s t. True),
     adopt_from = (\<lambda>s t. (s, t))\<rparr>"

definition demo_conn :: "bool \<Rightarrow> connection" where
  "demo_conn server = connection_build 0 (session_new (replicate 16 0)) server 0"

definition demo_start :: "(user_stream, unit, user_event list) net" where
  "demo_start =
     \<lparr>net_clock = 0,
      end_a = transport_new (user_ops pb_user) unit_ops 0 0 (demo_conn False)
                (push_resize 80 24 user_stream_new) (),
      end_b = transport_new unit_ops (user_ops pb_user) 0 0 (demo_conn True) () user_stream_new,
      wire_ab = {}, wire_ba = {}, made = [Resize 80 24], delivered = user_stream_new\<rparr>"

definition demo_typed :: "(user_stream, unit, user_event list) net" where
  "demo_typed =
     demo_start\<lparr>end_a := (end_a demo_start)\<lparr>tr_sender := set_current_state (tr_sender (end_a demo_start))
         (user_act (UserByte 108) (current_state (tr_sender (end_a demo_start))))\<rparr>,
       made := hist_act (UserByte 108) (made demo_start)\<rparr>"

lemma demo_start_reach: "session_reach pb_user unit_ops 80 24 demo_start"
proof -
  have "session_start pb_user unit_ops 80 24 demo_start"
    by (auto simp: session_start_def demo_start_def)
  then show ?thesis unfolding session_reach_def by (rule reach_init)
qed

lemma demo_typed_reach: "session_reach pb_user unit_ops 80 24 demo_typed"
proof -
  have "\<not> shutdown_in_progress (tr_sender (end_a demo_start))"
    by (simp add: demo_start_def transport_new_def sender_new_def)
  then have "session_step pb_user unit_ops demo_start (Act (UserByte 108)) demo_typed"
    unfolding session_step_def demo_typed_def by (rule step_act)
  then show ?thesis using demo_start_reach unfolding session_reach_def by (blast intro: reach_step)
qed

text \<open>The first tick of that client, and the network once it has happened.\<close>

definition demo_tick :: "instruction option \<times> user_stream sender" where
  "demo_tick = sender_tick (user_ops pb_user) (tr_sender (end_a demo_typed)) 0 0 0 True []"

definition demo_inst :: instruction where
  "demo_inst = (case fst demo_tick of Some i \<Rightarrow> i | None \<Rightarrow> \<lparr>protocol_version = None, old_num = None, new_num = None, ack_num = None,
     throwaway_num = None, diff = None, chaff = None\<rparr>)"

definition demo_sent :: "(user_stream, unit, user_event list) net" where
  "demo_sent = demo_typed\<lparr>net_clock := 0,
     end_a := (end_a demo_typed)\<lparr>tr_sender := snd demo_tick, tr_connection := tr_connection (end_a demo_typed)\<rparr>,
     wire_ab := wire_ab demo_typed \<union> emitted (fst demo_tick)\<rparr>"

lemmas demo_defs = demo_typed_def demo_start_def transport_new_def sender_new_def user_act_def
  push_key_def push_resize_def user_stream_new_def hist_act_def set_current_state_def

lemmas tick_defs = sender_tick_def calculate_timers_def update_assumed_receiver_state_def
  rationalize_states_def schedule_send_def attempt_prospective_resend_optimization_def
  send_to_receiver_def build_instruction_def add_sent_state_def sent_state_last_def Let_def

lemma demo_sender: "tr_sender (end_a demo_typed) =
    (sender_new (user_ops pb_user) 0 \<lparr>events = [Resize 80 24]\<rparr>)
      \<lparr>current_state := \<lparr>events = [Resize 80 24, UserByte 108]\<rparr>\<rparr>"
  by (simp add: demo_defs)

lemma demo_tick_some: "\<exists>i. fst demo_tick = Some i \<and> old_num i = Some 0"
  unfolding demo_tick_def demo_sender
  by (simp add: tick_defs sender_new_def user_ops_def user_subtract_def common_prefix_len_def
      encode_diff_from_def pb_user_def ms_def SENT_STATES_MAX_def SHUTDOWN_NUM_def)

lemma demo_tick_sends: "demo_tick = (Some demo_inst, snd demo_tick)" "old_num demo_inst = Some 0"
  using demo_tick_some by (auto simp: demo_inst_def prod_eq_iff split: option.splits)

lemma demo_inst_nums:
  "or0 (new_num demo_inst) = 1" "or0 (old_num demo_inst) = 0" "or0 (throwaway_num demo_inst) = 0"
proof -
  have "\<exists>i. fst demo_tick = Some i \<and> or0 (new_num i) = 1 \<and> or0 (old_num i) = 0 \<and> or0 (throwaway_num i) = 0"
    unfolding demo_tick_def demo_sender
    by (simp add: tick_defs sender_new_def user_ops_def user_subtract_def common_prefix_len_def
        encode_diff_from_def pb_user_def ms_def SENT_STATES_MAX_def SHUTDOWN_NUM_def)
  then show "or0 (new_num demo_inst) = 1" "or0 (old_num demo_inst) = 0" "or0 (throwaway_num demo_inst) = 0"
    by (auto simp: demo_inst_def)
qed

lemma demo_room: "num_room (tr_sender (end_a demo_typed))"
  by (simp add: demo_sender num_room_def sent_state_last_def sender_new_def SHUTDOWN_NUM_def
      word_gt_0)

lemma demo_sent_reach: "session_reach pb_user unit_ops 80 24 demo_sent"
proof -
  have "net_clock demo_typed \<le> 0" by (simp add: demo_typed_def demo_start_def)
  then have "session_step pb_user unit_ops demo_typed (TickA 0) demo_sent"
    unfolding session_step_def demo_sent_def
    by (rule step_tick_a [OF _ demo_room]) (simp add: demo_tick_def)
  then show ?thesis using demo_typed_reach unfolding session_reach_def by (blast intro: reach_step)
qed

section \<open>Properties\<close>

text \<open>
  In every run of a session, over a network that loses, repeats and reorders packets at will,
  what the server's callers have been handed is an initial piece of what the user typed since the
  transport was created: no keystroke is lost, repeated, reordered or altered. (The initial window size
  is not part of it: the client pushes it before it builds the transport, so that state number 0
  already holds it and no diff ever carries it.)
\<close>

theorem keystrokes_in_order:
  assumes "user_codec_laws U" and "session_reach U cops cols rows N"
  shows "\<exists>typed. made N = Resize cols rows # typed \<and> prefix (events (delivered N)) typed"
  by (rule delivered_typed [OF assms])

theorem keystrokes_in_order_witness:
  "\<exists>typed. made demo_typed = Resize 80 24 # typed \<and> prefix (events (delivered demo_typed)) typed"
  by (rule keystrokes_in_order [OF pb_user_laws demo_typed_reach])

text \<open>
  C5. The server always holds the state the client believes acknowledged, so the state that every
  retransmission is a diff from is never one the server has thrown away.
\<close>

theorem acknowledged_is_held:
  assumes "user_codec_laws U" and "session_reach U cops cols rows N"
  shows "\<exists>t\<in>set (received_states (end_b N)). ts_num t = sent_state_acked (tr_sender (end_a N))"
  using ssp.acked_held [OF user_ssp [OF assms(1)] session_reach_inv [OF assms]]
  by (simp add: nums_iff)

theorem acknowledged_is_held_witness:
  "\<exists>t\<in>set (received_states (end_b demo_typed)).
     ts_num t = sent_state_acked (tr_sender (end_a demo_typed))"
  by (rule acknowledged_is_held [OF pb_user_laws demo_typed_reach])

text \<open>
  The log of a session: each packet the client ever put on the wire, with everything the client had
  made when it first did. Ticks extend the wire, and only they do.
\<close>

inductive session_log ::
  "user_codec \<Rightarrow> 'c state_ops \<Rightarrow> i32 \<Rightarrow> i32 \<Rightarrow> (user_stream, 'c, user_event list) net \<Rightarrow>
     (instruction \<times> user_event list) set \<Rightarrow> bool"
  for U cops cols rows where
  log_start: "session_start U cops cols rows N \<Longrightarrow> session_log U cops cols rows N {}"
| log_step: "session_log U cops cols rows N L \<Longrightarrow> session_step U cops N e N' \<Longrightarrow>
    session_log U cops cols rows N' (L \<union> (\<lambda>i. (i, made N')) ` (wire_ab N' - wire_ab N))"

lemma session_log_reach: "session_log U cops cols rows N L \<Longrightarrow> session_reach U cops cols rows N"
  by (induction rule: session_log.induct) (auto simp: session_reach_def intro: reach.intros)

abbreviation session_at :: "user_codec \<Rightarrow> (u64 \<Rightarrow> user_event list option) \<Rightarrow> (user_stream, 'c, user_event list) net \<Rightarrow> bool" where
  "session_at U M \<equiv> ssp.net_at (user_ops U) user_rep prefix (\<lambda>_. True) (\<lambda>_. True) M 1"

text \<open>Each number stands for what the client had made when it sent the number, throughout.\<close>

lemma session_log_at:
  assumes U: "user_codec_laws U" and "session_log U cops cols rows N L"
  shows "\<exists>M. session_at U M N \<and> (\<forall>(i, h)\<in>L. i \<in> wire_ab N \<and> M (or0 (new_num i)) = Some h)"
  using assms(2)
proof (induction rule: session_log.induct)
  case (log_start N)
  then have "session_reach U cops cols rows N" unfolding session_reach_def by (rule reach_init)
  from session_reach_inv [OF U this] show ?case unfolding ssp.net_inv_at [OF user_ssp [OF U]] by simp
next
  case (log_step N L e N')
  then obtain M where M: "session_at U M N" "\<forall>(i, h)\<in>L. i \<in> wire_ab N \<and> M (or0 (new_num i)) = Some h" by blast
  obtain M' where M': "M \<subseteq>\<^sub>m M'" "session_at U M' N'" "\<forall>i\<in>wire_ab N' - wire_ab N. M' (or0 (new_num i)) = Some (made N')"
    using ssp.net_step_at [OF user_ssp [OF U] M(1) log_step.hyps(2) [unfolded session_step_def]] by blast
  have "wire_ab N \<subseteq> wire_ab N'" using log_step.hyps(2) unfolding session_step_def by cases auto
  moreover have "M' (or0 (new_num i)) = Some h" if "M (or0 (new_num i)) = Some h" for i h
    using M'(1) that by (rule source.map_le_Some [OF user_source [OF U]])
  ultimately show ?case using M(2) M'(2,3) by (intro exI [of _ M']) fastforce
qed

lemma prefix_take: "prefix g h \<Longrightarrow> n \<le> length g \<Longrightarrow> take n g = take n h"
  by (auto simp: prefix_def)

text \<open>
  C6. A packet of the client rebuilds at the server exactly what the client had when it sent it. Let
  \<open>made\<close> be everything the client had made (window size first) when a packet was first sent. However
  late, often or out of order the packet arrives, the server takes it without an error and files at
  most the packet's own number. The state it then holds under that number is \<open>made\<close> without the
  initial piece \<open>gone\<close>, which is what the server's callers already got and the server has since dropped.
  And the packet is filed whenever the server does not have the number, still has the state the diff
  starts from (which the packet itself does not throw away) and has room.
\<close>

theorem client_diffs_apply:
  assumes U: "user_codec_laws U" and log: "session_log U cops cols rows N L" "(inst, made_then) \<in> L"
    and recv: "process_instruction (user_ops U) ((end_b N)\<lparr>tr_connection := c\<rparr>) inst nq now = (r, T)"
  shows "(\<exists>outcome. r = Inr outcome) \<and> set (accepted r) \<subseteq> {or0 (new_num inst)} \<inter> nums (received_states T) \<and>
    (\<exists>gone. Resize cols rows # events (delivered N) = gone @ events (last_receiver_state (end_b N)) \<and>
       (\<forall>t\<in>set (received_states T). ts_num t = or0 (new_num inst) \<longrightarrow> made_then = gone @ events (ts_state t))) \<and>
    (or0 (new_num inst) \<notin> nums (received_states (end_b N)) \<and> or0 (old_num inst) \<in> nums (received_states (end_b N)) \<and>
       or0 (throwaway_num inst) \<le> or0 (old_num inst) \<and> length (received_states (end_b N)) \<le> RECEIVED_STATES_MAX \<longrightarrow>
       accepted r = [or0 (new_num inst)])"
proof (intro conjI)
  note ssp = user_ssp [OF U]
  obtain M where M: "session_at U M N" "inst \<in> wire_ab N" "M (or0 (new_num inst)) = Some made_then"
    using session_log_at [OF U log(1)] log(2) by blast
  note v = ssp.recv_b_version [OF ssp M(1,2) recv]
  show "\<exists>outcome. r = Inr outcome" by (rule ssp.step_recv_b_at(2) [OF ssp M(1,2) recv])
  show "set (accepted r) \<subseteq> {or0 (new_num inst)} \<inter> nums (received_states T)" by (rule v(2))
  show "or0 (new_num inst) \<notin> nums (received_states (end_b N)) \<and> or0 (old_num inst) \<in> nums (received_states (end_b N)) \<and>
       or0 (throwaway_num inst) \<le> or0 (old_num inst) \<and> length (received_states (end_b N)) \<le> RECEIVED_STATES_MAX \<longrightarrow>
       accepted r = [or0 (new_num inst)]" using v(3) by blast
  obtain q g where q: "user_rep q g (last_receiver_state (end_b N))" "user_rep 1 g (delivered N)" "prefix g (made N)"
    "\<forall>t\<in>set (received_states T). \<exists>h. M (ts_num t) = Some h \<and> prefix h (made N) \<and> user_rep q h (ts_state t)"
    using v(1) by blast
  have "prefix [Resize cols rows] (made N)" by (rule session_made [OF session_log_reach [OF log(1)]])
  then have g: "g = Resize cols rows # events (delivered N)"
    using q(2,3) by (cases g) (auto simp: user_rep_def prefix_def)
  have "made_then = take q g @ events (ts_state t)" if "t \<in> set (received_states T)" "ts_num t = or0 (new_num inst)" for t
  proof -
    have h: "prefix made_then (made N)" "user_rep q made_then (ts_state t)" using q(4) that M(3) by auto
    then have "take q made_then = take q (made N)" "take q g = take q (made N)"
      using q(1,3) prefix_take by (auto simp: user_rep_def)
    then show ?thesis using h(2) append_take_drop_id [of q made_then] by (simp add: user_rep_def)
  qed
  moreover have "Resize cols rows # events (delivered N) = take q g @ events (last_receiver_state (end_b N))"
    using q(1) append_take_drop_id [of q g] by (simp add: user_rep_def flip: g)
  ultimately show "\<exists>gone. Resize cols rows # events (delivered N) = gone @ events (last_receiver_state (end_b N)) \<and>
       (\<forall>t\<in>set (received_states T). ts_num t = or0 (new_num inst) \<longrightarrow> made_then = gone @ events (ts_state t))" by blast
qed

text \<open>The demo session with its log: one packet, sent when a window size and a keystroke had been made.\<close>

lemma demo_sent_log: "\<exists>L. session_log pb_user unit_ops 80 24 demo_sent L \<and> (demo_inst, [Resize 80 24, UserByte 108]) \<in> L"
proof -
  have "session_start pb_user unit_ops 80 24 demo_start" by (auto simp: session_start_def demo_start_def)
  then have "session_log pb_user unit_ops 80 24 demo_start {}" by (rule log_start)
  moreover have "session_step pb_user unit_ops demo_start (Act (UserByte 108)) demo_typed"
    unfolding session_step_def demo_typed_def by (rule step_act) (simp add: demo_start_def transport_new_def sender_new_def)
  ultimately obtain L where "session_log pb_user unit_ops 80 24 demo_typed L" using log_step by blast
  moreover have "session_step pb_user unit_ops demo_typed (TickA 0) demo_sent"
    unfolding session_step_def demo_sent_def
    by (rule step_tick_a [OF _ demo_room]) (simp_all add: demo_tick_def demo_typed_def demo_start_def)
  moreover have "demo_inst \<in> wire_ab demo_sent - wire_ab demo_typed" "made demo_sent = [Resize 80 24, UserByte 108]"
    using arg_cong [OF demo_tick_sends(1), of fst]
    by (simp_all add: demo_sent_def emitted_def demo_typed_def demo_start_def hist_act_def)
  ultimately show ?thesis using log_step by (metis UnI2 image_eqI)
qed

theorem client_diffs_apply_witness:
  "\<exists>r T. process_instruction (user_ops pb_user) ((end_b demo_sent)\<lparr>tr_connection := demo_conn True\<rparr>) demo_inst 0 0 = (r, T) \<and>
     accepted r = [or0 (new_num demo_inst)] \<and>
     (\<exists>t\<in>set (received_states T). ts_num t = or0 (new_num demo_inst) \<and> events (ts_state t) = [UserByte 108])"
proof -
  obtain r T where p: "process_instruction (user_ops pb_user)
      ((end_b demo_sent)\<lparr>tr_connection := demo_conn True\<rparr>) demo_inst 0 0 = (r, T)" by fastforce
  obtain L where L: "session_log pb_user unit_ops 80 24 demo_sent L" "(demo_inst, [Resize 80 24, UserByte 108]) \<in> L"
    using demo_sent_log by blast
  have b: "received_states (end_b demo_sent) = [\<lparr>timestamp = 0, ts_num = 0, ts_state = \<lparr>events = []\<rparr>\<rparr>]"
    "events (delivered demo_sent) = []" "events (last_receiver_state (end_b demo_sent)) = []"
    by (simp_all add: demo_sent_def demo_typed_def demo_start_def transport_new_def user_stream_new_def user_ops_def)
  note C = client_diffs_apply [OF pb_user_laws L p]
  have "accepted r = [or0 (new_num demo_inst)]"
    using C demo_inst_nums by (simp add: b nums_def RECEIVED_STATES_MAX_def)
  moreover from this C have "or0 (new_num demo_inst) \<in> nums (received_states T)" by simp
  then obtain t where "t \<in> set (received_states T)" "ts_num t = or0 (new_num demo_inst)" by (auto simp: nums_iff)
  ultimately show ?thesis using C p by (auto simp: b)
qed

text \<open>
  C7. No packet is taken twice: whatever instructions of the client reach the server, repeated and in
  whatever order, and whatever the server hands out or acknowledges meanwhile, a freshly started
  receiver accepts each state number at most once. This rests on the client only ever sending diffs
  from older to newer numbers (\<open>backward_accepted_twice\<close>).
\<close>

theorem no_state_accepted_twice:
  assumes "user_codec_laws U" and "session_reach U cops cols rows N"
    and "\<forall>(inst, nq, now)\<in>set xs. inst \<in> wire_ab N"
    and "process_all (user_ops U) (transport_new cops (user_ops U) t1 t2 c s b) xs = (outcomes, T)"
  shows "distinct (concat (map accepted outcomes))"
proof -
  have "rx_inv (received_states (transport_new cops (user_ops U) t1 t2 c s b))"
    by (simp add: transport_new_def rx_inv_def)
  moreover have "\<forall>(inst, nq, now)\<in>set xs. forward inst"
    using assms(3) ssp.sent_forward [OF user_ssp [OF assms(1)] session_reach_inv [OF assms(1,2)]] by blast
  ultimately show ?thesis using process_all_accepted [OF _ assms(4)] by blast
qed

text \<open>The demo packet arrives twice: its number is taken the first time and not the second.\<close>

lemma demo_inst_taken: "accepted (fst (process_instruction (user_ops pb_user) (end_b demo_start) demo_inst 0 0)) = [1]"
proof -
  obtain r T where p: "process_instruction (user_ops pb_user) ((end_b demo_sent)\<lparr>tr_connection := demo_conn True\<rparr>) demo_inst 0 0 = (r, T)"
    by fastforce
  obtain M where M: "session_at pb_user M demo_sent" "demo_inst \<in> wire_ab demo_sent"
    using demo_sent_log session_log_at [OF pb_user_laws] by blast
  have e: "(end_b demo_sent)\<lparr>tr_connection := demo_conn True\<rparr> = end_b demo_start"
    and b: "received_states (end_b demo_sent) = [\<lparr>timestamp = 0, ts_num = 0, ts_state = \<lparr>events = []\<rparr>\<rparr>]"
    by (simp_all add: demo_sent_def demo_typed_def demo_start_def transport_new_def user_stream_new_def user_ops_def)
  have "accepted r = [or0 (new_num demo_inst)]"
    by (rule ssp.recv_b_version(3) [OF user_ssp [OF pb_user_laws] M p])
      (simp_all add: b nums_def demo_inst_nums RECEIVED_STATES_MAX_def)
  then show ?thesis using p by (simp add: e demo_inst_nums)
qed

theorem no_state_accepted_twice_witness:
  "\<exists>r r' T. process_all (user_ops pb_user) (end_b demo_start) [(demo_inst, 0, 0), (demo_inst, 0, 0)] = ([r, r'], T) \<and>
     accepted r = [1] \<and> 1 \<notin> set (accepted r')"
proof -
  obtain r T1 where p: "process_instruction (user_ops pb_user) (end_b demo_start) demo_inst 0 0 = (r, T1)" by fastforce
  obtain r' T where p': "process_instruction (user_ops pb_user) T1 demo_inst 0 0 = (r', T)" by fastforce
  have all: "process_all (user_ops pb_user) (end_b demo_start) [(demo_inst, 0, 0), (demo_inst, 0, 0)] = ([r, r'], T)"
    by (simp add: p p')
  have start: "end_b demo_start = transport_new unit_ops (user_ops pb_user) 0 0 (demo_conn True) () user_stream_new"
    by (simp add: demo_start_def)
  have "demo_inst \<in> wire_ab demo_sent"
    using arg_cong [OF demo_tick_sends(1), of fst] by (simp add: demo_sent_def emitted_def)
  then have "distinct (concat (map accepted [r, r']))"
    using no_state_accepted_twice [OF pb_user_laws demo_sent_reach _ all [unfolded start]] by simp
  moreover have "accepted r = [1]" using demo_inst_taken p by simp
  ultimately show ?thesis using all by simp
qed

text \<open>
  One packet is enough to catch up: whatever was lost before, when the client ticks and sends a
  diff from the acknowledged state, and that one packet arrives while the server has room for a state,
  then the server's callers hold everything the user typed.
\<close>

theorem one_packet_catches_up:
  assumes U: "user_codec_laws U" and N: "session_reach U cops cols rows N"
    and clk: "net_clock N \<le> now" and nr: "num_room (tr_sender (end_a N))"
    and tick: "sender_tick (user_ops U) (tr_sender (end_a N)) now timeout srtt remote pad = (Some inst, S')"
    and old: "old_num inst = Some (sent_state_acked (tr_sender (end_a N)))"
    and room: "length (received_states (end_b N)) \<le> RECEIVED_STATES_MAX"
    and recv: "process_instruction (user_ops U) (end_b N) inst nq now' = (r, T)"
    and out: "get_remote_diff (user_ops U) T = (d, T')"
  shows "\<exists>s. (if d = [] then s = delivered N else apply_string (user_ops U) (delivered N) d = Inr s) \<and>
    made N = Resize cols rows # events s"
proof -
  have "if d = [] then user_rep 1 (made N) (delivered N)
      else \<exists>s. apply_string (user_ops U) (delivered N) d = Inr s \<and> user_rep 1 (made N) s"
    by (rule ssp.one_packet(2) [OF user_ssp [OF U] session_reach_inv [OF U N] clk nr tick old room recv out])
  moreover obtain typed where "made N = Resize cols rows # typed"
    using session_made [OF N] by (auto simp: prefix_def)
  ultimately show ?thesis by (auto simp: user_rep_def split: if_splits)
qed

theorem one_packet_catches_up_witness:
  "\<exists>s. (let d = fst (get_remote_diff (user_ops pb_user)
              (snd (process_instruction (user_ops pb_user) (end_b demo_typed) demo_inst 0 0)))
        in if d = [] then s = delivered demo_typed
           else apply_string (user_ops pb_user) (delivered demo_typed) d = Inr s) \<and>
       events s = [UserByte 108]"
proof -
  obtain r T where p: "process_instruction (user_ops pb_user) (end_b demo_typed) demo_inst 0 0 = (r, T)"
    by fastforce
  obtain d T' where g: "get_remote_diff (user_ops pb_user) T = (d, T')" by fastforce
  have "old_num demo_inst = Some (sent_state_acked (tr_sender (end_a demo_typed)))"
    by (simp add: demo_tick_sends demo_sender sent_state_acked_def sender_new_def)
  moreover have "length (received_states (end_b demo_typed)) \<le> RECEIVED_STATES_MAX"
    "net_clock demo_typed \<le> 0" "made demo_typed = [Resize 80 24, UserByte 108]"
    by (simp_all add: demo_defs RECEIVED_STATES_MAX_def)
  ultimately show ?thesis
    using one_packet_catches_up [OF pb_user_laws demo_typed_reach _ demo_room
        demo_tick_sends(1) [unfolded demo_tick_def] _ _ p g]
    by (simp add: p g) (metis list.inject)
qed

text \<open>
  C10. Typed input does not wait for anything but the timers: when the client's stream differs from the
  last state it sent, a tick after the collection delay and the send interval sends a packet that
  carries a non-empty diff.
\<close>

theorem typed_input_goes_out:
  assumes U: "user_codec_laws U" and N: "session_reach U cops cols rows N"
    and S: "S = tr_sender (end_a N)"
    and unsent: "events (current_state S) \<noteq> events (ts_state (last (sent_states S)))"
    and clock: "mindelay_clock S = Some c" "c + send_mindelay S \<le> now"
    and last: "timestamp (last (sent_states S)) + send_interval srtt \<le> now"
  shows "\<exists>inst S'. sender_tick (user_ops U) S now timeout srtt True pad = (Some inst, S') \<and>
    (\<exists>d. diff inst = Some d \<and> d \<noteq> [])"
proof -
  note ssp = user_ssp [OF U] and inv = session_reach_inv [OF U N]
  have si: "sender_inv (net_clock N) S" using inv unfolding ssp.net_inv_def [OF ssp] S by blast
  obtain M p where tx: "source.tx_ok user_rep prefix (\<lambda>_. True) M p (made N) S"
    using inv unfolding ssp.net_inv_def [OF ssp] S by blast
  have ne: "\<not> state_equal (user_ops U) (current_state S) (ts_state (last (sent_states S)))"
    using unsent by (simp add: user_ops_def)
  obtain inst S' where t: "sender_tick (user_ops U) S now timeout srtt True pad = (Some inst, S')"
    "inst_diff inst \<noteq> []"
    using ssp.unsent_goes_out [OF ssp prefix_order.antisym tx si ne clock last] by blast
  then show ?thesis by (cases "diff inst") auto
qed

text \<open>The same session after its timers have noticed the keystroke.\<close>

definition demo_noticed :: "(user_stream, unit, user_event list) net" where
  "demo_noticed = demo_typed\<lparr>net_clock := 0, end_a := (end_a demo_typed)\<lparr>tr_sender :=
     snd (sender_wait_time_ms (user_ops pb_user) (tr_sender (end_a demo_typed)) 0 0 0 True),
     tr_connection := tr_connection (end_a demo_typed)\<rparr>\<rparr>"

lemma demo_noticed_reach: "session_reach pb_user unit_ops 80 24 demo_noticed"
proof -
  have "net_clock demo_typed \<le> 0" by (simp add: demo_typed_def demo_start_def)
  then have "session_step pb_user unit_ops demo_typed (TimersA 0) demo_noticed"
    unfolding session_step_def demo_noticed_def by (rule step_timers_a)
  then show ?thesis using demo_typed_reach unfolding session_reach_def by (blast intro: reach_step)
qed

lemma demo_noticed_sender:
  "mindelay_clock (tr_sender (end_a demo_noticed)) = Some 0"
  "send_mindelay (tr_sender (end_a demo_noticed)) = ms 8"
  "events (current_state (tr_sender (end_a demo_noticed))) = [UserByte 108]"
  "sent_states (tr_sender (end_a demo_noticed)) = [\<lparr>timestamp = 0, ts_num = 0, ts_state = \<lparr>events = []\<rparr>\<rparr>]"
  by (simp_all add: demo_noticed_def wait_time_state demo_sender tick_defs sender_new_def user_ops_def
      user_subtract_def common_prefix_len_def SHUTDOWN_NUM_def const_defs)

theorem typed_input_goes_out_witness:
  "\<exists>inst S'. sender_tick (user_ops pb_user) (tr_sender (end_a demo_noticed)) (ms 300) 0 0 True [] = (Some inst, S')"
proof -
  have "send_interval 0 \<le> ms 300" by (simp add: send_interval_def clamp_def const_defs)
  then show ?thesis
    using typed_input_goes_out [OF pb_user_laws demo_noticed_reach refl _ demo_noticed_sender(1), of "ms 300" 0 0 "[]"]
    by (auto simp: demo_noticed_sender)
qed

end
