(* ===== verification/Snapshot.thy ===== *)
theory Snapshot
  imports Morsh_Prelude
begin

text \<open>
  \<open>crates/morsh-terminal/src/snapshot.rs\<close>: what the protocol synchronizes about a terminal. Text is
  a list of code points. Dimensions and cursor positions are \<open>u16\<close> in the code and \<open>nat\<close> here;
  where the code casts to \<open>u16\<close> the cast is written out.
\<close>

type_synonym rchar = nat
type_synonym rtext = "rchar list"

record rgb_color =
  red :: u8
  green :: u8
  blue :: u8

definition rgb :: "u8 \<Rightarrow> u8 \<Rightarrow> u8 \<Rightarrow> rgb_color" where
  "rgb r g b = \<lparr>red = r, green = g, blue = b\<rparr>"

datatype style_color = DefaultColor | Rgb rgb_color | Palette u8

definition color_is_default :: "style_color \<Rightarrow> bool" where
  "color_is_default c = (case c of DefaultColor \<Rightarrow> True | _ \<Rightarrow> False)"

record cell_style =
  style_fg :: style_color
  style_bg :: style_color
  bold :: bool
  italic :: bool
  faint :: bool
  blink :: bool
  inverse_video :: bool
  invisible :: bool
  strikethrough :: bool
  overline :: bool
  underline :: bool

definition default_style :: cell_style where
  "default_style =
     \<lparr>style_fg = DefaultColor, style_bg = DefaultColor, bold = False, italic = False, faint = False,
      blink = False, inverse_video = False, invisible = False, strikethrough = False,
      overline = False, underline = False\<rparr>"

definition style_is_default :: "cell_style \<Rightarrow> bool" where
  "style_is_default s \<longleftrightarrow> s = default_style"

record cell_data =
  cell_text :: rtext
  wide :: bool
  spacer :: bool
  cell_sgr :: cell_style

definition cell_empty :: cell_data where
  "cell_empty = \<lparr>cell_text = [], wide = False, spacer = False, cell_sgr = default_style\<rparr>"

definition cell_is_empty :: "cell_data \<Rightarrow> bool" where
  "cell_is_empty c \<longleftrightarrow> cell_text c = []"

datatype mouse_reporting = NoReporting | X10 | VT200 | ButtonEvent | AnyEvent

fun reporting_mode :: "mouse_reporting \<Rightarrow> nat" where
  "reporting_mode NoReporting = 0"
| "reporting_mode X10 = 9"
| "reporting_mode VT200 = 1000"
| "reporting_mode ButtonEvent = 1002"
| "reporting_mode AnyEvent = 1003"

datatype mouse_encoding = DefaultEncoding | Utf8 | Sgr | Urxvt

fun encoding_mode :: "mouse_encoding \<Rightarrow> nat" where
  "encoding_mode DefaultEncoding = 0"
| "encoding_mode Utf8 = 1005"
| "encoding_mode Sgr = 1006"
| "encoding_mode Urxvt = 1015"

record screen_snapshot =
  grid :: "cell_data list list"
  cols :: nat
  rows_count :: nat
  cursor_x :: nat
  cursor_y :: nat
  cursor_visible :: bool
  title :: rtext
  bracketed_paste :: bool
  mouse_mode :: mouse_reporting
  mouse_enc :: mouse_encoding
  mouse_focus_event :: bool
  mouse_alternate_scroll :: bool
  snap_fg :: rgb_color
  snap_bg :: rgb_color
  palette :: "rgb_color list"

definition standard_colors :: "(u8 \<times> u8 \<times> u8) list" where
  "standard_colors =
     [(0, 0, 0), (205, 49, 49), (13, 188, 121), (229, 229, 16), (36, 114, 200), (188, 63, 188),
      (17, 168, 205), (229, 229, 229), (102, 102, 102), (241, 76, 76), (35, 209, 139),
      (245, 245, 67), (59, 142, 234), (214, 112, 214), (41, 184, 219), (255, 255, 255)]"

definition default_palette :: "rgb_color list" where
  "default_palette =
     map (\<lambda>(r, g, b). rgb r g b) standard_colors
     @ map (\<lambda>i. rgb (word_of_nat (i div 36 * 51)) (word_of_nat (i div 6 mod 6 * 51))
                 (word_of_nat (i mod 6 * 51))) [0..<216]
     @ map (\<lambda>i. let v = word_of_nat (8 + i * 10) in rgb v v v) [0..<24]"

definition snapshot_new :: "nat \<Rightarrow> nat \<Rightarrow> screen_snapshot" where
  "snapshot_new w h =
     \<lparr>grid = replicate h (replicate w cell_empty), cols = w, rows_count = h, cursor_x = 0, cursor_y = 0,
      cursor_visible = True, title = [], bracketed_paste = False, mouse_mode = NoReporting,
      mouse_enc = DefaultEncoding, mouse_focus_event = False, mouse_alternate_scroll = False,
      snap_fg = rgb 255 255 255, snap_bg = rgb 0 0 0, palette = default_palette\<rparr>"

definition snap_cell :: "screen_snapshot \<Rightarrow> nat \<Rightarrow> nat \<Rightarrow> cell_data option" where
  "snap_cell S x y = (case vec_get y (grid S) of None \<Rightarrow> None | Some row \<Rightarrow> vec_get x row)"

text \<open>\<open>cell_mut\<close> followed by an update of the cell it returns; nothing happens out of bounds.\<close>

definition cell_mut :: "screen_snapshot \<Rightarrow> nat \<Rightarrow> nat \<Rightarrow> (cell_data \<Rightarrow> cell_data) \<Rightarrow> screen_snapshot" where
  "cell_mut S x y f =
     (if y < length (grid S) \<and> x < length (grid S ! y)
      then S\<lparr>grid := (grid S)[y := (grid S ! y)[x := f (grid S ! y ! x)]]\<rparr> else S)"

section \<open>Shape\<close>

text \<open>A snapshot's grid has \<open>rows_count\<close> rows of \<open>cols\<close> cells.\<close>

definition snap_ok :: "screen_snapshot \<Rightarrow> bool" where
  "snap_ok S \<longleftrightarrow> length (grid S) = rows_count S \<and> (\<forall>row\<in>set (grid S). length row = cols S)"

lemma snapshot_new_ok [simp]: "snap_ok (snapshot_new w h)"
  by (auto simp: snap_ok_def snapshot_new_def)

lemma length_default_palette: "length default_palette = 256"
  by (simp add: default_palette_def standard_colors_def)

lemma snap_cell_Some:
  "snap_cell S x y = Some c \<longleftrightarrow> y < length (grid S) \<and> x < length (grid S ! y) \<and> c = grid S ! y ! x"
  by (auto simp: snap_cell_def vec_get_def split: if_splits)

lemma snap_cell_ok: "snap_ok S \<Longrightarrow> snap_cell S x y =
    (if y < rows_count S \<and> x < cols S then Some (grid S ! y ! x) else None)"
  by (auto simp: snap_ok_def snap_cell_def vec_get_def)

lemma snap_cell_mut:
  "snap_cell (cell_mut S x y f) x' y' =
     (if x' = x \<and> y' = y then map_option f (snap_cell S x y) else snap_cell S x' y')"
  by (auto simp: snap_cell_def cell_mut_def vec_get_def nth_list_update)

lemma cell_mut_ok: "snap_ok S \<Longrightarrow> snap_ok (cell_mut S x y f)"
  by (auto simp: snap_ok_def cell_mut_def all_set_conv_all_nth nth_list_update)

lemma cell_mut_fields [simp]:
  "cols (cell_mut S x y f) = cols S" "rows_count (cell_mut S x y f) = rows_count S"
  "cursor_x (cell_mut S x y f) = cursor_x S" "cursor_y (cell_mut S x y f) = cursor_y S"
  by (simp_all add: cell_mut_def)

end
