(* ===== verification/Display.thy ===== *)
theory Display
  imports Snapshot
begin

text \<open>
  \<open>crates/morsh-terminal/src/display.rs\<close>: the escape sequences that turn one screen into another. The
  code appends strings to a buffer; here the buffer is the list of the control functions it holds,
  and \<open>vt_text\<close> gives the characters of each, as the code writes them. Grids are indexed as in the
  code, which panics on a snapshot whose grid is smaller than its dimensions say.
\<close>

section \<open>Control functions and their characters\<close>

datatype vt =
    Mode nat bool
  | Title rtext
  | Cup nat nat
  | Home
  | EraseAll
  | SetSgr "nat list"
  | Print rtext
  | CarriageReturn
  | LineFeed
  | SetRegion nat
  | ResetRegion

fun decimal :: "nat \<Rightarrow> rtext" where
  "decimal n = (if n < 10 then [48 + n] else decimal (n div 10) @ [48 + n mod 10])"

declare decimal.simps [simp del]

fun join_semicolon :: "rtext list \<Rightarrow> rtext" where
  "join_semicolon [] = []"
| "join_semicolon [p] = p"
| "join_semicolon (p # q # ps) = p @ 59 # join_semicolon (q # ps)"

abbreviation CSI :: rtext where
  "CSI \<equiv> [27, 91]"

fun vt_text :: "vt \<Rightarrow> rtext" where
  "vt_text (Mode n on) = CSI @ [63] @ decimal n @ [if on then 104 else 108]"
| "vt_text (Title t) = [27, 93, 48, 59] @ t @ [7]"
| "vt_text (Cup y x) = CSI @ decimal y @ [59] @ decimal x @ [72]"
| "vt_text Home = CSI @ [72]"
| "vt_text EraseAll = CSI @ [50, 74]"
| "vt_text (SetSgr ps) = CSI @ join_semicolon (map decimal ps) @ [109]"
| "vt_text (Print t) = t"
| "vt_text CarriageReturn = [13]"
| "vt_text LineFeed = [10]"
| "vt_text (SetRegion b) = CSI @ [49, 59] @ decimal b @ [114]"
| "vt_text ResetRegion = CSI @ [114]"

definition vt_string :: "vt list \<Rightarrow> rtext" where
  "vt_string out = concat (map vt_text out)"

section \<open>Styles\<close>

definition color_params :: "nat \<Rightarrow> style_color \<Rightarrow> nat list" where
  "color_params base c =
     (case c of
        Rgb k \<Rightarrow> [base, 2, unat (red k), unat (green k), unat (blue k)]
      | Palette idx \<Rightarrow> [base, 5, unat idx]
      | DefaultColor \<Rightarrow> [])"

definition style_params :: "cell_style \<Rightarrow> nat list" where
  "style_params s =
     (if bold s then [1] else []) @ (if faint s then [2] else []) @ (if italic s then [3] else [])
     @ (if underline s then [4] else []) @ (if blink s then [5] else [])
     @ (if inverse_video s then [7] else []) @ (if invisible s then [8] else [])
     @ (if strikethrough s then [9] else []) @ (if overline s then [53] else [])
     @ color_params 38 (style_fg s) @ color_params 48 (style_bg s)"

definition style_on :: "cell_style \<Rightarrow> vt list" where
  "style_on s = (if style_params s = [] then [] else [SetSgr (style_params s)])"

section \<open>Modes\<close>

definition state_changes :: "screen_snapshot option \<Rightarrow> screen_snapshot \<Rightarrow> vt list" where
  "state_changes old new =
     (let changed = (\<lambda>f. map_option f old \<noteq> Some (f new))
      in (case old of
            Some o' \<Rightarrow> if title o' = title new then [] else [Title (title new)]
          | None \<Rightarrow> if title new = [] then [] else [Title (title new)])
         @ (if changed bracketed_paste then [Mode 2004 (bracketed_paste new)] else [])
         @ (if changed mouse_focus_event then [Mode 1004 (mouse_focus_event new)] else [])
         @ (if changed mouse_alternate_scroll then [Mode 1007 (mouse_alternate_scroll new)] else [])
         @ (if map_option mouse_mode old \<noteq> Some (mouse_mode new) then
              map (\<lambda>m. Mode (reporting_mode m) False)
                (filter (\<lambda>m. m \<noteq> mouse_mode new) [X10, VT200, ButtonEvent, AnyEvent])
              @ (if mouse_mode new \<noteq> NoReporting then [Mode (reporting_mode (mouse_mode new)) True] else [])
            else [])
         @ (if map_option mouse_enc old \<noteq> Some (mouse_enc new) then
              map (\<lambda>m. Mode (encoding_mode m) False)
                (filter (\<lambda>m. m \<noteq> mouse_enc new) [Utf8, Sgr, Urxvt])
              @ (if mouse_enc new \<noteq> DefaultEncoding then [Mode (encoding_mode (mouse_enc new)) True] else [])
            else []))"

section \<open>Scrolling\<close>

record scroll =
  scroll_lines :: nat
  scroll_height :: nat

text \<open>The \<open>while\<close> loop that extends the scrolled region downwards.\<close>

function region_loop ::
  "cell_data list list \<Rightarrow> cell_data list list \<Rightarrow> nat \<Rightarrow> nat \<Rightarrow> nat \<Rightarrow> nat \<Rightarrow> nat" where
  "region_loop old_rows new_rows height lines sheight rheight =
     (if lines + rheight < height then
        (if new_rows ! rheight = old_rows ! (lines + rheight)
         then region_loop old_rows new_rows height lines (rheight + 1) (rheight + 1) else sheight)
      else sheight)"
  by pat_completeness auto
termination
  by (relation "measure (\<lambda>(_, _, height, lines, _, rheight). height - (lines + rheight))") auto

declare region_loop.simps [simp del]

definition detect_scroll :: "cell_data list list \<Rightarrow> screen_snapshot \<Rightarrow> scroll option" where
  "detect_scroll old_rows new =
     (let height = rows_count new
      in if height = 0 \<or> length old_rows < height then None
         else
           (case position (\<lambda>r. grid new ! 0 = r) (take height old_rows) of
              None \<Rightarrow> None
            | Some row \<Rightarrow>
                if row = 0 then None
                else Some \<lparr>scroll_lines = row,
                           scroll_height = region_loop old_rows (grid new) height row 1 1\<rparr>))"

definition emit_scroll :: "scroll \<Rightarrow> screen_snapshot \<Rightarrow> nat \<Rightarrow> vt list" where
  "emit_scroll s new old_cursor_y =
     (let height = rows_count new; bottom = scroll_lines s + scroll_height s - 1
      in SetSgr [0] #
         (if bottom + 1 = height \<and> old_cursor_y + 1 = height then
            CarriageReturn # replicate (scroll_lines s) LineFeed
          else
            [SetRegion (bottom + 1), Cup (bottom + 1) 1] @ replicate (scroll_lines s) LineFeed @ [ResetRegion]))"

definition shift_rows :: "cell_data list list \<Rightarrow> scroll \<Rightarrow> screen_snapshot \<Rightarrow> cell_data list list" where
  "shift_rows old_rows s new =
     (let bottom = scroll_lines s + scroll_height s - 1;
          blank = replicate (cols new) cell_empty
      in fold (\<lambda>i rs. rs[i := (if i + scroll_lines s \<le> bottom then rs ! (i + scroll_lines s) else blank)])
           [0..<bottom + 1] old_rows)"

section \<open>Redrawing\<close>

definition cell_print :: "cell_data \<Rightarrow> vt" where
  "cell_print c = Print (if cell_text c = [] then [32] else cell_text c)"

function redraw_row :: "cell_data list \<Rightarrow> nat \<Rightarrow> cell_style \<Rightarrow> vt list \<times> cell_style" where
  "redraw_row row x last_style =
     (if x < length row then
        (let cell = row ! x;
             style = (if cell_sgr cell \<noteq> last_style
                      then SetSgr [0] # (if \<not> style_is_default (cell_sgr cell) then style_on (cell_sgr cell) else [])
                      else []);
             (out, s) = redraw_row row (x + (if wide cell then 2 else 1)) (cell_sgr cell)
         in (style @ cell_print cell # out, s))
      else ([], last_style))"
  by pat_completeness auto
termination
  by (relation "measure (\<lambda>(row, x, _). length row - x)") auto

declare redraw_row.simps [simp del]

fun redraw_rows :: "nat \<Rightarrow> cell_data list list \<Rightarrow> cell_style \<Rightarrow> vt list" where
  "redraw_rows y [] last_style = []"
| "redraw_rows y (row # rest) last_style =
     (let (out, s) = redraw_row row 0 last_style
      in Cup (y + 1) 1 # out @
         (if \<not> style_is_default s then SetSgr [0] # redraw_rows (y + 1) rest default_style
          else redraw_rows (y + 1) rest s))"

definition full_redraw :: "screen_snapshot \<Rightarrow> vt list" where
  "full_redraw snap =
     [Mode 25 False, ResetRegion, SetSgr [0], Home, EraseAll]
     @ state_changes None snap
     @ redraw_rows 0 (grid snap) default_style
     @ [Cup (cursor_y snap + 1) (cursor_x snap + 1)]
     @ (if cursor_visible snap then [Mode 25 True] else [])"

function diff_row ::
  "nat \<Rightarrow> nat \<Rightarrow> cell_data list \<Rightarrow> cell_data list \<Rightarrow> nat \<Rightarrow> cell_style \<Rightarrow> (nat \<times> nat) option \<Rightarrow> vt list" where
  "diff_row ncols y old_row new_row x pen_state pos =
     (if x < ncols then
        (let cell = new_row ! x;
             is_changed = (vec_get x old_row \<noteq> vec_get x new_row);
             restyle = (pen_state \<noteq> cell_sgr cell);
             out1 = (if restyle then Cup (y + 1) (x + 1) # SetSgr [0]
                       # (if \<not> style_is_default (cell_sgr cell) then style_on (cell_sgr cell) else [])
                     else []);
             pos1 = (if restyle then Some (y + 1, x + 1) else pos);
             out2 = (if is_changed then
                       (if pos1 \<noteq> Some (y + 1, x + 1) then [Cup (y + 1) (x + 1)] else []) @ [cell_print cell]
                     else []);
             pos2 = (if is_changed then Some (y + 1, x + 1 + (if wide cell then 2 else 1)) else None);
             rest = (if wide cell \<and> x + 1 < ncols
                     then diff_row ncols y old_row new_row (x + 2) (cell_sgr (new_row ! (x + 1))) pos2
                     else diff_row ncols y old_row new_row (x + 1) (cell_sgr cell) pos2)
         in out1 @ out2 @ rest)
      else [])"
  by pat_completeness auto
termination
  by (relation "measure (\<lambda>(ncols, _, _, _, x, _). ncols - x)") auto

declare diff_row.simps [simp del]

definition diff_rows :: "nat \<Rightarrow> nat \<Rightarrow> nat \<Rightarrow> cell_data list list \<Rightarrow> cell_data list list \<Rightarrow> vt list" where
  "diff_rows ncols first nrows old_rows new_rows =
     concat (map (\<lambda>y. if old_rows ! y = new_rows ! y then []
                      else SetSgr [0] # diff_row ncols y (old_rows ! y) (new_rows ! y) 0 default_style None)
               [first..<nrows])"

definition display_diff :: "screen_snapshot \<Rightarrow> screen_snapshot \<Rightarrow> vt list" where
  "display_diff old new =
     (if cols old \<noteq> cols new \<or> rows_count old \<noteq> rows_count new then full_redraw new
      else
        (let changes = state_changes (Some old) new;
             (scrolling, old_rows, first_row) =
               (case detect_scroll (grid old) new of
                  Some s \<Rightarrow> (emit_scroll s new (cursor_y old), shift_rows (grid old) s new, scroll_height s)
                | None \<Rightarrow> ([], grid old, 0));
             out = changes @ scrolling @ diff_rows (cols new) first_row (rows_count new) old_rows (grid new);
             place = (if out \<noteq> [] \<or> cursor_y old \<noteq> cursor_y new \<or> cursor_x old \<noteq> cursor_x new
                      then [Cup (cursor_y new + 1) (cursor_x new + 1)] else []);
             visibility = (if cursor_visible old \<noteq> cursor_visible new
                           then [Mode 25 (cursor_visible new)] else [])
         in out @ place @ visibility))"

end
