(* ===== verification/Vt.thy ===== *)
theory Vt
  imports Display
begin

text \<open>
  The meaning of the control functions that \<open>display.rs\<close> writes, as ECMA-48 and the DEC manuals give
  it: the abstract terminal against which the output of \<open>display.rs\<close> is judged. Where the standards leave
  the effect open or terminals differ, it is \<open>None\<close> (text at the right margin, a position outside the
  screen) or a cell that is \<open>Open\<close> (what an erase or a scroll leaves when the pen is not the default one,
  what is left of a wide glyph that is half overwritten). The theorems show that the program stays clear
  of the first and leaves none of the second on the screen. Whether a grapheme is two columns wide is the
  terminal's knowledge, the argument \<open>ww\<close>.
\<close>

datatype vcell = Tail | Glyph rtext bool cell_style | Open

record vterm =
  vt_rows :: nat
  vt_cols :: nat
  scr :: "nat \<Rightarrow> nat \<Rightarrow> vcell"
  vt_y :: nat
  vt_x :: nat
  pen :: cell_style
  bottom_margin :: nat
  modes :: "nat \<Rightarrow> bool"
  vt_title :: rtext

definition erased :: "cell_style \<Rightarrow> vcell" where
  "erased s = (if s = default_style then Glyph [32] False s else Open)"

text \<open>SGR: the parameters from left to right. 38 and 48 take the colour that follows.\<close>

fun apply_sgr :: "nat list \<Rightarrow> cell_style \<Rightarrow> cell_style" where
  "apply_sgr [] s = s"
| "apply_sgr (p # ps) s =
     (if p = 38 \<or> p = 48 then
        (case ps of
           k # r # qs \<Rightarrow>
             if k = 5 then
               apply_sgr qs (if p = 38 then s\<lparr>style_fg := Palette (word_of_nat r)\<rparr> else s\<lparr>style_bg := Palette (word_of_nat r)\<rparr>)
             else if k = 2 then
               (case qs of
                  g # b # rest \<Rightarrow>
                    let c = Rgb (rgb (word_of_nat r) (word_of_nat g) (word_of_nat b))
                    in apply_sgr rest (if p = 38 then s\<lparr>style_fg := c\<rparr> else s\<lparr>style_bg := c\<rparr>)
                | _ \<Rightarrow> s)
             else s
         | _ \<Rightarrow> s)
      else
        apply_sgr ps
          (if p = 0 then default_style
           else if p = 1 then s\<lparr>bold := True\<rparr> else if p = 2 then s\<lparr>faint := True\<rparr>
           else if p = 3 then s\<lparr>italic := True\<rparr> else if p = 4 then s\<lparr>underline := True\<rparr>
           else if p = 5 then s\<lparr>blink := True\<rparr> else if p = 7 then s\<lparr>inverse_video := True\<rparr>
           else if p = 8 then s\<lparr>invisible := True\<rparr> else if p = 9 then s\<lparr>strikethrough := True\<rparr>
           else if p = 53 then s\<lparr>overline := True\<rparr> else s))"

text \<open>
  A glyph of width \<open>n\<close> at column \<open>x\<close>. What half of a wide glyph that is left over becomes is open.
\<close>

definition put_glyph :: "nat \<Rightarrow> rtext \<Rightarrow> cell_style \<Rightarrow> nat \<Rightarrow> (nat \<Rightarrow> vcell) \<Rightarrow> nat \<Rightarrow> vcell" where
  "put_glyph n t s x row i =
     (if i = x then Glyph t (n = 2) s
      else if x < i \<and> i < x + n then Tail
      else if i + 1 = x \<and> row x = Tail then Open
      else if i = x + n \<and> row i = Tail then Open
      else row i)"

fun vt_step :: "(rtext \<Rightarrow> bool) \<Rightarrow> vterm \<Rightarrow> vt \<Rightarrow> vterm option" where
  "vt_step ww T (Mode n on) = Some (T\<lparr>modes := (modes T)(n := on)\<rparr>)"
| "vt_step ww T (Title t) = Some (T\<lparr>vt_title := t\<rparr>)"
| "vt_step ww T (Cup y x) =
     (if 0 < y \<and> y \<le> vt_rows T \<and> 0 < x \<and> x \<le> vt_cols T then Some (T\<lparr>vt_y := y - 1, vt_x := x - 1\<rparr>) else None)"
| "vt_step ww T Home = Some (T\<lparr>vt_y := 0, vt_x := 0\<rparr>)"
| "vt_step ww T EraseAll = Some (T\<lparr>scr := (\<lambda>_ _. erased (pen T))\<rparr>)"
| "vt_step ww T (SetSgr ps) = Some (T\<lparr>pen := apply_sgr ps (pen T)\<rparr>)"
| "vt_step ww T (Print t) =
     (let n = (if ww t then 2 else 1)
      in if vt_x T + n \<le> vt_cols T
         then Some (T\<lparr>scr := (scr T)(vt_y T := put_glyph n t (pen T) (vt_x T) (scr T (vt_y T))), vt_x := vt_x T + n\<rparr>)
         else None)"
| "vt_step ww T CarriageReturn = Some (T\<lparr>vt_x := 0\<rparr>)"
| "vt_step ww T LineFeed =
     (if vt_y T + 1 = bottom_margin T then
        Some (T\<lparr>scr := (\<lambda>y. if y + 1 < bottom_margin T then scr T (y + 1)
                            else if y + 1 = bottom_margin T then (\<lambda>_. erased (pen T)) else scr T y)\<rparr>)
      else if vt_y T + 1 < vt_rows T then Some (T\<lparr>vt_y := vt_y T + 1\<rparr>)
      else None)"
| "vt_step ww T (SetRegion b) =
     (if 1 < b \<and> b \<le> vt_rows T then Some (T\<lparr>bottom_margin := b, vt_y := 0, vt_x := 0\<rparr>) else None)"
| "vt_step ww T ResetRegion = Some (T\<lparr>bottom_margin := vt_rows T, vt_y := 0, vt_x := 0\<rparr>)"

fun vt_exec :: "(rtext \<Rightarrow> bool) \<Rightarrow> vt list \<Rightarrow> vterm \<Rightarrow> vterm option" where
  "vt_exec ww [] T = Some T"
| "vt_exec ww (op # ops) T = (case vt_step ww T op of None \<Rightarrow> None | Some T' \<Rightarrow> vt_exec ww ops T')"

lemma vt_exec_append [simp]:
  "vt_exec ww (a @ b) T = (case vt_exec ww a T of None \<Rightarrow> None | Some T' \<Rightarrow> vt_exec ww b T')"
  by (induction a arbitrary: T) (auto split: option.splits)

section \<open>What a snapshot looks like\<close>

definition glyph :: "cell_data \<Rightarrow> rtext" where
  "glyph c = (if cell_text c = [] then [32] else cell_text c)"

definition show_cell :: "cell_data \<Rightarrow> vcell" where
  "show_cell c = (if spacer c then Tail else Glyph (glyph c) (wide c) (cell_sgr c))"

text \<open>
  Rows as an emulator reports them: a wide cell is followed by its spacer, which has its style, a
  spacer follows a wide cell, and a glyph is marked wide exactly if the terminal draws it so.
\<close>

definition row_wf :: "(rtext \<Rightarrow> bool) \<Rightarrow> cell_data list \<Rightarrow> bool" where
  "row_wf ww row \<longleftrightarrow> (\<forall>x<length row.
     (wide (row ! x) \<longrightarrow> x + 1 < length row \<and> spacer (row ! (x + 1)) \<and> cell_sgr (row ! (x + 1)) = cell_sgr (row ! x))
     \<and> (spacer (row ! x) \<longrightarrow> 0 < x \<and> wide (row ! (x - 1)) \<and> \<not> wide (row ! x))
     \<and> (\<not> spacer (row ! x) \<longrightarrow> wide (row ! x) = ww (glyph (row ! x))))"

definition snap_wf :: "(rtext \<Rightarrow> bool) \<Rightarrow> screen_snapshot \<Rightarrow> bool" where
  "snap_wf ww S \<longleftrightarrow> snap_ok S \<and> (\<forall>row\<in>set (grid S). row_wf ww row)
     \<and> cursor_y S < rows_count S \<and> cursor_x S < cols S"

definition shows_modes :: "vterm \<Rightarrow> screen_snapshot \<Rightarrow> bool" where
  "shows_modes T S \<longleftrightarrow> modes T 2004 = bracketed_paste S \<and> modes T 1004 = mouse_focus_event S
     \<and> modes T 1007 = mouse_alternate_scroll S
     \<and> (\<forall>m\<in>{X10, VT200, ButtonEvent, AnyEvent}. modes T (reporting_mode m) = (mouse_mode S = m))
     \<and> (\<forall>m\<in>{Utf8, Sgr, Urxvt}. modes T (encoding_mode m) = (mouse_enc S = m))"

definition shows_grid :: "vterm \<Rightarrow> cell_data list list \<Rightarrow> bool" where
  "shows_grid T rows \<longleftrightarrow> (\<forall>y<length rows. \<forall>x<vt_cols T. scr T y x = show_cell (rows ! y ! x))"

text \<open>The terminal displays the snapshot, with no scrolling region left set.\<close>

definition displays :: "vterm \<Rightarrow> screen_snapshot \<Rightarrow> bool" where
  "displays T S \<longleftrightarrow> vt_rows T = rows_count S \<and> vt_cols T = cols S \<and> shows_grid T (grid S)
     \<and> vt_y T = cursor_y S \<and> vt_x T = cursor_x S \<and> bottom_margin T = rows_count S
     \<and> modes T 25 = cursor_visible S \<and> vt_title T = title S \<and> shows_modes T S"

end
