(* ===== verification/Display_Laws.thy ===== *)
theory Display_Laws
  imports Vt
begin

text \<open>
  The output of \<open>display.rs\<close> executed by the abstract terminal: styles, rows, scrolling, modes, and
  then whole frames.
\<close>

section \<open>Styles\<close>

lemma apply_flag:
  "\<not> bold s \<Longrightarrow> apply_sgr ((if b then [1] else []) @ ps) s = apply_sgr ps (s\<lparr>bold := b\<rparr>)" 
  "\<not> faint s \<Longrightarrow> apply_sgr ((if b then [2] else []) @ ps) s = apply_sgr ps (s\<lparr>faint := b\<rparr>)" 
  "\<not> italic s \<Longrightarrow> apply_sgr ((if b then [3] else []) @ ps) s = apply_sgr ps (s\<lparr>italic := b\<rparr>)" 
  "\<not> underline s \<Longrightarrow> apply_sgr ((if b then [4] else []) @ ps) s = apply_sgr ps (s\<lparr>underline := b\<rparr>)" 
  "\<not> blink s \<Longrightarrow> apply_sgr ((if b then [5] else []) @ ps) s = apply_sgr ps (s\<lparr>blink := b\<rparr>)" 
  "\<not> inverse_video s \<Longrightarrow> apply_sgr ((if b then [7] else []) @ ps) s = apply_sgr ps (s\<lparr>inverse_video := b\<rparr>)" 
  "\<not> invisible s \<Longrightarrow> apply_sgr ((if b then [8] else []) @ ps) s = apply_sgr ps (s\<lparr>invisible := b\<rparr>)" 
  "\<not> strikethrough s \<Longrightarrow> apply_sgr ((if b then [9] else []) @ ps) s = apply_sgr ps (s\<lparr>strikethrough := b\<rparr>)" 
  "\<not> overline s \<Longrightarrow> apply_sgr ((if b then [53] else []) @ ps) s = apply_sgr ps (s\<lparr>overline := b\<rparr>)"
  by (cases b; cases s; simp)+

lemma apply_color_cons:
  "apply_sgr (38 # 5 # i # ps) s = apply_sgr ps (s\<lparr>style_fg := Palette (word_of_nat i)\<rparr>)"
  "apply_sgr (48 # 5 # i # ps) s = apply_sgr ps (s\<lparr>style_bg := Palette (word_of_nat i)\<rparr>)"
  "apply_sgr (38 # 2 # r # g # b # ps) s =
     apply_sgr ps (s\<lparr>style_fg := Rgb (rgb (word_of_nat r) (word_of_nat g) (word_of_nat b))\<rparr>)"
  "apply_sgr (48 # 2 # r # g # b # ps) s =
     apply_sgr ps (s\<lparr>style_bg := Rgb (rgb (word_of_nat r) (word_of_nat g) (word_of_nat b))\<rparr>)"
  by (subst apply_sgr.simps, simp add: Let_def)+

lemma rgb_parts: "rgb (red k) (green k) (blue k) = k"
  by (simp add: rgb_def)

lemma default_color_idle:
  "style_fg s = DefaultColor \<Longrightarrow> s\<lparr>style_fg := DefaultColor\<rparr> = s"
  "style_bg s = DefaultColor \<Longrightarrow> s\<lparr>style_bg := DefaultColor\<rparr> = s"
  by (cases s, simp)+

lemma apply_color:
  "style_fg s = DefaultColor \<Longrightarrow> apply_sgr (color_params 38 c @ ps) s = apply_sgr ps (s\<lparr>style_fg := c\<rparr>)"
  "style_bg s = DefaultColor \<Longrightarrow> apply_sgr (color_params 48 c @ ps) s = apply_sgr ps (s\<lparr>style_bg := c\<rparr>)"
  by (cases c, simp_all add: color_params_def apply_color_cons rgb_parts default_color_idle del: apply_sgr.simps)+

lemma apply_style_params: "apply_sgr (style_params s) default_style = s"
proof -
  have bg: "apply_sgr (color_params 48 c) t = t\<lparr>style_bg := c\<rparr>" if "style_bg t = DefaultColor" for c t
    using apply_color(2) [OF that, of c "[]"] by simp
  show ?thesis
    unfolding style_params_def by (simp only: append_assoc apply_flag apply_color bg default_style_def cell_style.select_convs
        cell_style.update_convs not_False_eq_True) simp
qed

text \<open>A reset followed by \<open>style_on\<close> leaves the pen with exactly that style.\<close>

lemma restyle_exec:
  "vt_exec ww (SetSgr [0] # (if \<not> style_is_default s then style_on s else []) @ ops) T = vt_exec ww ops (T\<lparr>pen := s\<rparr>)"
proof (cases "style_params s = []")
  case True
  then have "s = default_style" using apply_style_params [of s] by simp
  then show ?thesis by (simp add: style_is_default_def)
next
  case False
  then show ?thesis
    by (auto simp: style_on_def apply_style_params style_is_default_def)
qed

lemma restyle_at:
  assumes "y < vt_rows T" and "x < vt_cols T"
  shows "vt_exec ww ((if p \<noteq> s then Cup (y + 1) (x + 1) # SetSgr [0] # (if \<not> style_is_default s then style_on s else [])
       else []) @ ops) T = vt_exec ww ops (if p \<noteq> s then T\<lparr>vt_y := y, vt_x := x, pen := s\<rparr> else T)"
proof (cases "p = s")
  case False
  have "vt_exec ww (Cup (y + 1) (x + 1) # L) T = vt_exec ww L (T\<lparr>vt_y := y, vt_x := x\<rparr>)" for L
    using assms by simp
  then show ?thesis using False restyle_exec [of ww s ops "T\<lparr>vt_y := y, vt_x := x\<rparr>"]
    by (simp only: append_Cons if_True not_False_eq_True)
qed simp

section \<open>One row\<close>

definition only_row :: "nat \<Rightarrow> vterm \<Rightarrow> vterm \<Rightarrow> bool" where
  "only_row y T T' \<longleftrightarrow> vt_rows T' = vt_rows T \<and> vt_cols T' = vt_cols T \<and> bottom_margin T' = bottom_margin T
     \<and> modes T' = modes T \<and> vt_title T' = vt_title T \<and> (\<forall>z. z \<noteq> y \<longrightarrow> scr T' z = scr T z)"

lemma only_row_refl [simp]: "only_row y T T"
  by (simp add: only_row_def)

lemma only_row_trans: "only_row y A B \<Longrightarrow> only_row y B C \<Longrightarrow> only_row y A C"
  by (simp add: only_row_def)

text \<open>The row up to column \<open>x\<close> is the new one, from there on the old one.\<close>

definition row_at :: "nat \<Rightarrow> cell_data list \<Rightarrow> cell_data list \<Rightarrow> nat \<Rightarrow> vterm \<Rightarrow> bool" where
  "row_at y old new x T \<longleftrightarrow>
     (\<forall>i<length new. i < x \<longrightarrow> scr T y i = show_cell (new ! i))
     \<and> (\<forall>i<length new. x < i \<longrightarrow> scr T y i = show_cell (old ! i))
     \<and> (x < length new \<longrightarrow> \<not> spacer (new ! x) \<and> scr T y x \<noteq> Tail
          \<and> (scr T y x = show_cell (old ! x) \<or> spacer (old ! x)))"

lemma row_at_start:
  assumes "row_wf ww old" and "row_wf ww new" and "length old = length new"
    and "\<forall>i<length new. scr T y i = show_cell (old ! i)"
  shows "row_at y old new 0 T"
  using assms by (auto simp: row_at_def row_wf_def show_cell_def)

definition cell_width :: "cell_data \<Rightarrow> nat" where
  "cell_width c = (if wide c then 2 else 1)"

lemma within_cell: "i < x + cell_width c \<Longrightarrow> i < x \<or> i = x \<or> i = x + 1 \<and> wide c"
  by (auto simp: cell_width_def split: if_splits)

text \<open>The column after a cell of a well-formed row is not a spacer, and the cell fits.\<close>

lemma after_cell:
  assumes "row_wf ww row" and "x < length row" and "\<not> spacer (row ! x)"
  shows "x + cell_width (row ! x) \<le> length row"
    and "x + cell_width (row ! x) < length row \<Longrightarrow> \<not> spacer (row ! (x + cell_width (row ! x)))"
    and "wide (row ! x) \<Longrightarrow> spacer (row ! (x + 1)) \<and> cell_sgr (row ! (x + 1)) = cell_sgr (row ! x)"
    and "wide (row ! x) = ww (glyph (row ! x))"
proof -
  note wf = assms(1) [unfolded row_wf_def, rule_format]
  show "wide (row ! x) = ww (glyph (row ! x))" using wf [OF assms(2)] assms(3) by blast
  show w: "wide (row ! x) \<Longrightarrow> spacer (row ! (x + 1)) \<and> cell_sgr (row ! (x + 1)) = cell_sgr (row ! x)"
    using wf [OF assms(2)] by blast
  show "x + cell_width (row ! x) \<le> length row"
    using wf [OF assms(2)] assms(2) by (auto simp: cell_width_def)
  show "\<not> spacer (row ! (x + cell_width (row ! x)))" if lt: "x + cell_width (row ! x) < length row"
  proof
    assume sp: "spacer (row ! (x + cell_width (row ! x)))"
    then have prev: "wide (row ! (x + cell_width (row ! x) - 1))" using wf [OF lt] by blast
    show False
    proof (cases "wide (row ! x)")
      case True
      then have "spacer (row ! (x + 1))" "x + 1 < length row" using wf [OF assms(2)] by blast+
      then have "\<not> wide (row ! (x + 1))" using wf by blast
      then show False using True prev by (simp add: cell_width_def)
    qed (use prev in \<open>simp add: cell_width_def\<close>)
  qed
qed

text \<open>A cell that is printed where it belongs.\<close>

lemma row_at_print:
  assumes at: "row_at y old new x T" and wf: "row_wf ww old" "row_wf ww new" "length old = length new"
    and x: "x < length new" and T: "vt_cols T = length new" "vt_y T = y" "vt_x T = x" "pen T = cell_sgr (new ! x)"
  shows "\<exists>T'. vt_step ww T (cell_print (new ! x)) = Some T' \<and> only_row y T T' \<and> vt_y T' = y
     \<and> vt_x T' = x + cell_width (new ! x) \<and> pen T' = pen T \<and> row_at y old new (x + cell_width (new ! x)) T'"
proof -
  let ?c = "new ! x" and ?n = "cell_width (new ! x)"
  have sp: "\<not> spacer ?c" and nt: "scr T y x \<noteq> Tail" using at x by (auto simp: row_at_def)
  note a = after_cell [OF wf(2) x sp]
  define T' where "T' = T\<lparr>scr := (scr T)(y := put_glyph ?n (glyph ?c) (pen T) x (scr T y)), vt_x := x + ?n\<rparr>"
  have step: "vt_step ww T (cell_print ?c) = Some T'"
    using a(1,4) T by (simp add: cell_print_def glyph_def [symmetric] cell_width_def T'_def)
  have row: "scr T' y i = (if i = x then show_cell ?c else if x < i \<and> i < x + ?n then Tail
      else if i = x + ?n \<and> scr T y i = Tail then Open else scr T y i)" for i
  proof -
    have "(?n = 2) = wide ?c" by (simp add: cell_width_def)
    then show ?thesis using sp nt T by (auto simp: T'_def put_glyph_def show_cell_def)
  qed
  have "row_at y old new (x + ?n) T'"
    unfolding row_at_def
  proof (intro conjI allI impI)
    fix i assume i: "i < length new" "i < x + ?n"
    consider "i < x" | "i = x" | "i = x + 1" "wide ?c" using within_cell [OF i(2)] by blast
    then show "scr T' y i = show_cell (new ! i)"
      using at i a(3) by cases (auto simp: row row_at_def show_cell_def cell_width_def)
  next
    fix i assume "i < length new" "x + ?n < i"
    then show "scr T' y i = show_cell (old ! i)" using at by (auto simp: row row_at_def)
  next
    assume lt: "x + ?n < length new"
    show "\<not> spacer (new ! (x + ?n))" by (rule a(2) [OF lt])
    show "scr T' y (x + ?n) \<noteq> Tail"
      by (auto simp: row erased_def cell_width_def)
    show "scr T' y (x + ?n) = show_cell (old ! (x + ?n)) \<or> spacer (old ! (x + ?n))"
      using at lt by (auto simp: row row_at_def show_cell_def cell_width_def)
  qed
  then show ?thesis using step T by (auto simp: T'_def only_row_def)
qed

text \<open>A cell that is left as it is.\<close>

lemma row_at_skip:
  assumes at: "row_at y old new x T" and wf: "row_wf ww old" "row_wf ww new" "length old = length new"
    and x: "x < length new" and same: "old ! x = new ! x"
  shows "row_at y old new (x + cell_width (new ! x)) T"
proof -
  let ?n = "cell_width (new ! x)"
  have sp: "\<not> spacer (new ! x)" "\<not> spacer (old ! x)" using at x same by (auto simp: row_at_def)
  have xo: "x < length old" using x wf(3) by simp
  note a = after_cell [OF wf(2) x sp(1)] and b = after_cell [OF wf(1) xo sp(2)]
  show ?thesis
    unfolding row_at_def
  proof (intro conjI allI impI)
    fix i assume i: "i < length new" "i < x + ?n"
    consider "i < x" | "i = x" | "i = x + 1" "wide (new ! x)" using within_cell [OF i(2)] by blast
    then show "scr T y i = show_cell (new ! i)"
      using at i sp same a(3) b(3) by cases (auto simp: row_at_def show_cell_def)
  next
    fix i assume "i < length new" "x + ?n < i"
    then show "scr T y i = show_cell (old ! i)" using at by (auto simp: row_at_def)
  next
    assume lt: "x + ?n < length new"
    have "x < x + ?n" by (simp add: cell_width_def)
    then have eq: "scr T y (x + ?n) = show_cell (old ! (x + ?n))" using at lt unfolding row_at_def by blast
    show "\<not> spacer (new ! (x + ?n))" by (rule a(2) [OF lt])
    have "\<not> spacer (old ! (x + ?n))" using b(2) lt wf(3) same by simp
    then show "scr T y (x + ?n) \<noteq> Tail" using eq by (simp add: show_cell_def)
    show "scr T y (x + ?n) = show_cell (old ! (x + ?n)) \<or> spacer (old ! (x + ?n))" using eq by blast
  qed
qed

text \<open>The two pieces of output for one column, as \<open>diff_row\<close> computes them.\<close>

definition cell_out :: "nat \<Rightarrow> nat \<Rightarrow> cell_data \<Rightarrow> cell_data \<Rightarrow> cell_style \<Rightarrow> (nat \<times> nat) option \<Rightarrow> vt list" where
  "cell_out y x old new p pos =
     (if p \<noteq> cell_sgr new
      then Cup (y + 1) (x + 1) # SetSgr [0] # (if \<not> style_is_default (cell_sgr new) then style_on (cell_sgr new) else [])
      else [])
     @ (if old \<noteq> new
        then (if (if p \<noteq> cell_sgr new then Some (y + 1, x + 1) else pos) \<noteq> Some (y + 1, x + 1)
              then [Cup (y + 1) (x + 1)] else []) @ [cell_print new]
        else [])"

lemma diff_row_step:
  assumes wf: "row_wf ww new" and len: "length old = length new" "x < length new" and sp: "\<not> spacer (new ! x)"
  shows "diff_row (length new) y old new x p pos =
     cell_out y x (old ! x) (new ! x) p pos @
     diff_row (length new) y old new (x + cell_width (new ! x)) (cell_sgr (new ! x))
       (if old ! x \<noteq> new ! x then Some (y + 1, x + 1 + cell_width (new ! x)) else None)"
proof (cases "wide (new ! x)")
  case True
  then have "x + 1 < length new" "cell_sgr (new ! (x + 1)) = cell_sgr (new ! x)"
    using after_cell [OF wf len(2) sp] by (simp_all add: cell_width_def)
  then show ?thesis using True len
    by (subst diff_row.simps) (simp add: cell_out_def cell_width_def vec_get_def Let_def)
next
  case False
  then show ?thesis using len
    by (subst diff_row.simps) (simp add: cell_out_def cell_width_def vec_get_def Let_def)
qed

lemma cell_out_exec:
  assumes at: "row_at y old new x T" and wf: "row_wf ww old" "row_wf ww new" "length old = length new"
    and x: "x < length new" and T: "vt_cols T = length new" "y < vt_rows T" "pen T = p"
    and pos: "pos = Some (y + 1, x + 1) \<longrightarrow> vt_y T = y \<and> vt_x T = x"
  shows "\<exists>T'. vt_exec ww (cell_out y x (old ! x) (new ! x) p pos) T = Some T' \<and> only_row y T T'
     \<and> pen T' = cell_sgr (new ! x) \<and> row_at y old new (x + cell_width (new ! x)) T'
     \<and> (old ! x \<noteq> new ! x \<longrightarrow> vt_y T' = y \<and> vt_x T' = x + cell_width (new ! x))"
proof -
  let ?c = "new ! x"
  define T1 where "T1 = (if p \<noteq> cell_sgr ?c then T\<lparr>vt_y := y, vt_x := x, pen := cell_sgr ?c\<rparr> else T)"
  define pos1 where "pos1 = (if p \<noteq> cell_sgr ?c then Some (y + 1, x + 1) else pos)"
  have restyled: "vt_exec ww (cell_out y x (old ! x) ?c p pos) T =
      vt_exec ww (if old ! x \<noteq> ?c then (if pos1 \<noteq> Some (y + 1, x + 1) then [Cup (y + 1) (x + 1)] else []) @ [cell_print ?c] else []) T1"
    using T x unfolding cell_out_def T1_def pos1_def by (intro restyle_at) simp_all
  have at1: "row_at y old new x T1" using at by (simp add: T1_def row_at_def)
  have or1: "only_row y T T1" and p1: "pen T1 = cell_sgr ?c" using T by (simp_all add: T1_def only_row_def)
  show ?thesis
  proof (cases "old ! x = ?c")
    case True
    then show ?thesis using restyled or1 p1 row_at_skip [OF at1 wf x True] by auto
  next
    case False
    define T2 where "T2 = (if pos1 \<noteq> Some (y + 1, x + 1) then T1\<lparr>vt_y := y, vt_x := x\<rparr> else T1)"
    have T2: "vt_cols T2 = length new" "vt_y T2 = y" "vt_x T2 = x" "pen T2 = cell_sgr ?c" "row_at y old new x T2"
      "only_row y T1 T2"
      using T pos p1 at1 by (auto simp: T2_def T1_def pos1_def row_at_def only_row_def split: if_splits)
    obtain T' where T': "vt_step ww T2 (cell_print ?c) = Some T'" "only_row y T2 T'" "vt_y T' = y"
        "vt_x T' = x + cell_width ?c" "pen T' = pen T2" "row_at y old new (x + cell_width ?c) T'"
      using row_at_print [OF T2(5) wf x T2(1-4)] by blast
    have "vt_rows T1 = vt_rows T" "vt_cols T1 = vt_cols T" using or1 by (simp_all add: only_row_def)
    then have "vt_exec ww (cell_out y x (old ! x) ?c p pos) T = Some T'"
      using restyled False T'(1) T x by (simp add: T2_def split: if_splits)
    then show ?thesis using T' T2 only_row_trans [OF or1 only_row_trans [OF T2(6) T'(2)]] by auto
  qed
qed

lemma diff_row_exec:
  assumes "row_at y old new x T" and wf: "row_wf ww old" "row_wf ww new" "length old = length new"
    and "vt_cols T = length new" "y < vt_rows T" "pen T = p"
    and "pos = Some (y + 1, x + 1) \<longrightarrow> vt_y T = y \<and> vt_x T = x"
  shows "\<exists>T'. vt_exec ww (diff_row (length new) y old new x p pos) T = Some T' \<and> only_row y T T'
     \<and> (\<forall>i<length new. scr T' y i = show_cell (new ! i))"
  using assms
proof (induction "length new - x" arbitrary: x p pos T rule: less_induct)
  case less
  show ?case
  proof (cases "x < length new")
    case False
    then show ?thesis using less.prems(1) by (subst diff_row.simps) (auto simp: row_at_def)
  next
    case True
    let ?x = "x + cell_width (new ! x)"
    let ?pos = "if old ! x \<noteq> new ! x then Some (y + 1, x + 1 + cell_width (new ! x)) else None"
    have sp: "\<not> spacer (new ! x)" using less.prems(1) True by (auto simp: row_at_def)
    obtain T1 where T1: "vt_exec ww (cell_out y x (old ! x) (new ! x) p pos) T = Some T1" "only_row y T T1"
        "pen T1 = cell_sgr (new ! x)" "row_at y old new ?x T1"
        "old ! x \<noteq> new ! x \<longrightarrow> vt_y T1 = y \<and> vt_x T1 = ?x"
      using cell_out_exec [OF less.prems(1) wf True less.prems(5-8)] by blast
    have smaller: "length new - ?x < length new - x" using True by (auto simp: cell_width_def)
    have dims: "vt_cols T1 = length new" "y < vt_rows T1"
      using T1(2) less.prems by (simp_all add: only_row_def)
    have "?pos = Some (y + 1, ?x + 1) \<longrightarrow> vt_y T1 = y \<and> vt_x T1 = ?x" using T1(5) by simp
    from less.hyps [OF smaller T1(4) wf dims T1(3) this] obtain T2 where
      "vt_exec ww (diff_row (length new) y old new ?x (cell_sgr (new ! x)) ?pos) T1 = Some T2" "only_row y T1 T2"
      "\<forall>i<length new. scr T2 y i = show_cell (new ! i)" by blast
    then show ?thesis
      using T1(1,2) diff_row_step [OF wf(2,3) True sp] only_row_trans by (metis (no_types, lifting) option.simps(5) vt_exec_append)
  qed
qed

section \<open>Several rows\<close>

definition same_setup :: "vterm \<Rightarrow> vterm \<Rightarrow> bool" where
  "same_setup T T' \<longleftrightarrow> vt_rows T' = vt_rows T \<and> vt_cols T' = vt_cols T \<and> bottom_margin T' = bottom_margin T
     \<and> modes T' = modes T \<and> vt_title T' = vt_title T"

lemma only_row_setup: "only_row y T T' \<Longrightarrow> same_setup T T'"
  by (simp add: only_row_def same_setup_def)

lemma same_setup_trans: "same_setup A B \<Longrightarrow> same_setup B C \<Longrightarrow> same_setup A C"
  by (simp add: same_setup_def)

definition row_shown :: "vterm \<Rightarrow> nat \<Rightarrow> cell_data list \<Rightarrow> bool" where
  "row_shown T y row \<longleftrightarrow> (\<forall>x<length row. scr T y x = show_cell (row ! x))"

lemma diff_one_row:
  assumes "row_shown T y old" and "row_wf ww old" "row_wf ww new" "length old = length new"
    and "vt_cols T = length new" "y < vt_rows T"
  shows "\<exists>T'. vt_exec ww (if old = new then [] else SetSgr [0] # diff_row (length new) y old new 0 default_style None) T
     = Some T' \<and> only_row y T T' \<and> row_shown T' y new"
proof (cases "old = new")
  case True
  then show ?thesis using assms(1) by auto
next
  case False
  let ?T = "T\<lparr>pen := default_style\<rparr>"
  have "row_at y old new 0 ?T"
    using assms row_at_start [OF assms(2-4), of ?T y] by (simp add: row_shown_def)
  then obtain T' where "vt_exec ww (diff_row (length new) y old new 0 default_style None) ?T = Some T'"
      "only_row y ?T T'" "\<forall>i<length new. scr T' y i = show_cell (new ! i)"
    using diff_row_exec [of y old new 0 ?T ww default_style None] assms by auto
  then show ?thesis using False by (auto simp: only_row_def row_shown_def)
qed

lemma diff_rows_exec:
  assumes "a \<le> b" "b \<le> vt_rows T"
    and "\<And>y. a \<le> y \<Longrightarrow> y < b \<Longrightarrow> row_shown T y (old ! y) \<and> row_wf ww (old ! y) \<and> row_wf ww (new ! y)
       \<and> length (old ! y) = vt_cols T \<and> length (new ! y) = vt_cols T"
  shows "\<exists>T'. vt_exec ww (diff_rows (vt_cols T) a b old new) T = Some T' \<and> same_setup T T'
     \<and> (\<forall>y. a \<le> y \<and> y < b \<longrightarrow> row_shown T' y (new ! y)) \<and> (\<forall>y. y < a \<or> b \<le> y \<longrightarrow> scr T' y = scr T y)"
  using assms
proof (induction "b - a" arbitrary: a T)
  case 0
  then show ?case by (auto simp: diff_rows_def same_setup_def)
next
  case (Suc n)
  then have ab: "a < b" by simp
  note row = Suc.prems(3) [OF order_refl ab]
  have len: "vt_cols T = length (new ! a)" using row by simp
  have ops: "diff_rows w a b old new = (if old ! a = new ! a then [] else SetSgr [0]
      # diff_row w a (old ! a) (new ! a) 0 default_style None) @ diff_rows w (Suc a) b old new" for w
    using ab by (simp add: diff_rows_def upt_conv_Cons)
  have "\<exists>T'. vt_exec ww (if old ! a = new ! a then [] else SetSgr [0]
      # diff_row (length (new ! a)) a (old ! a) (new ! a) 0 default_style None) T
     = Some T' \<and> only_row a T T' \<and> row_shown T' a (new ! a)"
    using row ab Suc.prems(2) by (intro diff_one_row) simp_all
  then obtain T1 where T1: "vt_exec ww (if old ! a = new ! a then [] else SetSgr [0]
      # diff_row (vt_cols T) a (old ! a) (new ! a) 0 default_style None) T = Some T1"
      "only_row a T T1" "row_shown T1 a (new ! a)"
    unfolding len by blast
  have dims: "vt_cols T1 = vt_cols T" "vt_rows T1 = vt_rows T" using T1(2) by (simp_all add: only_row_def)
  have keep: "scr T1 z = scr T z" if "z \<noteq> a" for z using T1(2) that by (simp add: only_row_def)
  have "\<exists>T2. vt_exec ww (diff_rows (vt_cols T1) (Suc a) b old new) T1 = Some T2 \<and> same_setup T1 T2
      \<and> (\<forall>y. Suc a \<le> y \<and> y < b \<longrightarrow> row_shown T2 y (new ! y)) \<and> (\<forall>y. y < Suc a \<or> b \<le> y \<longrightarrow> scr T2 y = scr T1 y)"
  proof (rule Suc.hyps(1))
    show "n = b - Suc a" using Suc.hyps(2) by simp
    fix y assume y: "Suc a \<le> y" "y < b"
    then show "row_shown T1 y (old ! y) \<and> row_wf ww (old ! y) \<and> row_wf ww (new ! y)
       \<and> length (old ! y) = vt_cols T1 \<and> length (new ! y) = vt_cols T1"
      using Suc.prems(3) [of y] dims keep [of y] by (simp add: row_shown_def)
  qed (use ab Suc.prems(2) dims in simp_all)
  then obtain T2 where T2: "vt_exec ww (diff_rows (vt_cols T1) (Suc a) b old new) T1 = Some T2" "same_setup T1 T2"
      "\<forall>y. Suc a \<le> y \<and> y < b \<longrightarrow> row_shown T2 y (new ! y)" "\<forall>y. y < Suc a \<or> b \<le> y \<longrightarrow> scr T2 y = scr T1 y"
    by blast
  have "row_shown T2 a (new ! a)" using T1(3) T2(4) by (simp add: row_shown_def)
  then have "\<forall>y. a \<le> y \<and> y < b \<longrightarrow> row_shown T2 y (new ! y)"
    using T2(3) by (metis Suc_leI le_neq_implies_less)
  then show ?case
    using T1 T2 ops dims keep same_setup_trans [OF only_row_setup [OF T1(2)] T2(2)] ab by auto
qed

section \<open>Scrolling\<close>

text \<open>The loop that moves the rows up is the same as moving them all at once.\<close>

lemma shift_loop:
  assumes "0 < k" and "n \<le> length rs" and "m \<le> n"
  shows "fold (\<lambda>i rs. rs[i := (if i + k < n then rs ! (i + k) else blank)]) [0..<m] rs =
     map (\<lambda>i. if i < m then (if i + k < n then rs ! (i + k) else blank) else rs ! i) [0..<length rs]"
  using assms(3)
proof (induction m)
  case 0
  then show ?case by (simp add: map_nth)
next
  case (Suc m)
  let ?f = "\<lambda>m i. if i < m then (if i + k < n then rs ! (i + k) else blank) else rs ! i"
  have IH: "fold (\<lambda>i rs. rs[i := (if i + k < n then rs ! (i + k) else blank)]) [0..<m] rs =
      map (?f m) [0..<length rs]" using Suc by simp
  show ?case
    unfolding upt_Suc_append [OF le0] fold_append comp_def IH
    using Suc.prems assms(1,2) by (intro nth_equalityI) (auto simp: nth_list_update less_Suc_eq)
qed

lemma shift_rows_eq:
  assumes "0 < scroll_lines s" "0 < scroll_height s" "scroll_lines s + scroll_height s \<le> length rs"
  shows "shift_rows rs s new = map (\<lambda>i. if i < scroll_height s then rs ! (i + scroll_lines s)
      else if i < scroll_lines s + scroll_height s then replicate (cols new) cell_empty else rs ! i) [0..<length rs]"
proof -
  let ?k = "scroll_lines s" and ?n = "scroll_lines s + scroll_height s"
  have b: "?n - 1 + 1 = ?n" and le: "i + ?k \<le> ?n - 1 \<longleftrightarrow> i + ?k < ?n" for i using assms(2) by auto
  show ?thesis
    unfolding shift_rows_def Let_def b le
    by (subst shift_loop [OF assms(1,3) order_refl]) (auto simp: add.commute)
qed

text \<open>\<open>detect_scroll\<close> only reports rows that are really there in the old frame.\<close>

lemma region_loop_sound:
  assumes "sh = rh" "0 < rh" "lines + rh \<le> height" "\<forall>i<rh. new ! i = old ! (lines + i)"
  shows "rh \<le> region_loop old new height lines sh rh \<and> lines + region_loop old new height lines sh rh \<le> height
     \<and> (\<forall>i<region_loop old new height lines sh rh. new ! i = old ! (lines + i))"
  using assms
proof (induction old new height lines sh rh rule: region_loop.induct)
  case (1 old new height lines sh rh)
  show ?case
  proof (cases "lines + rh < height \<and> new ! rh = old ! (lines + rh)")
    case True
    then have "\<forall>i<rh + 1. new ! i = old ! (lines + i)" using "1.prems"(4) by (auto simp: less_Suc_eq)
    then show ?thesis using True "1.IH" by (subst region_loop.simps) (auto simp: region_loop.simps [of old new height lines sh rh])
  next
    case False
    then have "region_loop old new height lines sh rh = sh" by (subst region_loop.simps) auto
    then show ?thesis using "1.prems" by simp
  qed
qed

lemma detect_scroll_sound:
  assumes "detect_scroll old new = Some s"
  shows "0 < scroll_lines s \<and> 0 < scroll_height s \<and> scroll_lines s + scroll_height s \<le> rows_count new
     \<and> rows_count new \<le> length old \<and> (\<forall>i < scroll_height s. grid new ! i = old ! (scroll_lines s + i))"
proof -
  let ?h = "rows_count new"
  have h: "0 < ?h" "?h \<le> length old"
    using assms by (auto simp: detect_scroll_def Let_def split: if_splits)
  then obtain k where k: "position (\<lambda>r. grid new ! 0 = r) (take ?h old) = Some k" "k \<noteq> 0"
      and s: "s = \<lparr>scroll_lines = k, scroll_height = region_loop old (grid new) ?h k 1 1\<rparr>"
    using assms by (auto simp: detect_scroll_def Let_def split: if_splits option.splits)
  have "k < ?h" "grid new ! 0 = old ! k" using position_SomeD [OF k(1)] h by auto
  then have "1 \<le> region_loop old (grid new) ?h k 1 1 \<and> k + region_loop old (grid new) ?h k 1 1 \<le> ?h
     \<and> (\<forall>i<region_loop old (grid new) ?h k 1 1. grid new ! i = old ! (k + i))"
    by (intro region_loop_sound) auto
  then show ?thesis using k s h by simp
qed

definition scrolled :: "nat \<Rightarrow> nat \<Rightarrow> cell_style \<Rightarrow> (nat \<Rightarrow> nat \<Rightarrow> vcell) \<Rightarrow> nat \<Rightarrow> nat \<Rightarrow> vcell" where
  "scrolled b k p f = (\<lambda>y. if y + k < b then f (y + k) else if y < b then (\<lambda>_. erased p) else f y)"

lemma scrolled_0: "scrolled b 0 p f = f"
  by (rule ext) (simp add: scrolled_def)

lemma scrolled_Suc: "scrolled b k p (scrolled b (Suc 0) p f) = scrolled b (Suc k) p f"
  by (rule ext) (auto simp: scrolled_def)

lemma line_feed_step:
  "vt_y T + 1 = bottom_margin T \<Longrightarrow>
     vt_step ww T LineFeed = Some (T\<lparr>scr := scrolled (bottom_margin T) 1 (pen T) (scr T)\<rparr>)"
  by (auto simp: scrolled_def intro!: vterm.fold_congs(3) ext)

lemma line_feeds_exec:
  assumes "vt_y T + 1 = bottom_margin T"
  shows "vt_exec ww (replicate k LineFeed) T = Some (T\<lparr>scr := scrolled (bottom_margin T) k (pen T) (scr T)\<rparr>)"
  using assms
proof (induction k arbitrary: T)
  case 0
  then show ?case by (simp add: scrolled_0)
next
  case (Suc k)
  then show ?case by (simp add: line_feed_step scrolled_Suc del: vt_step.simps)
qed

lemma emit_scroll_exec:
  assumes s: "0 < scroll_lines s" "0 < scroll_height s" "scroll_lines s + scroll_height s \<le> rows_count new"
    and T: "vt_rows T = rows_count new" "bottom_margin T = rows_count new" "vt_y T = cy" "0 < vt_cols T"
  shows "\<exists>T'. vt_exec ww (emit_scroll s new cy) T = Some T' \<and> same_setup T T'
     \<and> scr T' = scrolled (scroll_lines s + scroll_height s) (scroll_lines s) default_style (scr T)"
proof -
  let ?k = "scroll_lines s" and ?b = "scroll_lines s + scroll_height s"
  have b: "?b - 1 + 1 = ?b" using s by simp
  show ?thesis
  proof (cases "?b = rows_count new \<and> cy + 1 = rows_count new")
    case True
    then have "vt_exec ww (emit_scroll s new cy) T = vt_exec ww (replicate ?k LineFeed) (T\<lparr>pen := default_style, vt_x := 0\<rparr>)"
      using b by (simp add: emit_scroll_def Let_def)
    then show ?thesis using True T by (simp add: line_feeds_exec same_setup_def)
  next
    case False
    let ?T = "T\<lparr>pen := default_style, bottom_margin := ?b, vt_y := ?b - 1, vt_x := 0\<rparr>"
    have "vt_exec ww (emit_scroll s new cy) T = vt_exec ww (replicate ?k LineFeed @ [ResetRegion]) ?T"
      using False s T b by (auto simp: emit_scroll_def Let_def)
    then show ?thesis using T s by (simp add: line_feeds_exec same_setup_def)
  qed
qed

section \<open>Modes and title\<close>

fun modes_after :: "vt list \<Rightarrow> (nat \<Rightarrow> bool) \<Rightarrow> nat \<Rightarrow> bool" where
  "modes_after (Mode n b # ops) f = modes_after ops (f(n := b))"
| "modes_after (_ # ops) f = modes_after ops f"
| "modes_after [] f = f"

lemma modes_after_append [simp]: "modes_after (a @ b) f = modes_after b (modes_after a f)"
  by (induction a f rule: modes_after.induct) (simp_all add: fun_upd_def)

lemma modes_exec:
  "\<forall>op\<in>set ops. \<exists>n b. op = Mode n b \<Longrightarrow> vt_exec ww ops T = Some (T\<lparr>modes := modes_after ops (modes T)\<rparr>)"
  by (induction ops arbitrary: T) auto

text \<open>The three parts of the mode changes, each with the modes it owns.\<close>

definition flag_changes :: "screen_snapshot option \<Rightarrow> screen_snapshot \<Rightarrow> vt list" where
  "flag_changes old new =
     (if map_option bracketed_paste old \<noteq> Some (bracketed_paste new) then [Mode 2004 (bracketed_paste new)] else [])
     @ (if map_option mouse_focus_event old \<noteq> Some (mouse_focus_event new) then [Mode 1004 (mouse_focus_event new)] else [])
     @ (if map_option mouse_alternate_scroll old \<noteq> Some (mouse_alternate_scroll new)
        then [Mode 1007 (mouse_alternate_scroll new)] else [])"

definition reporting_changes :: "screen_snapshot option \<Rightarrow> screen_snapshot \<Rightarrow> vt list" where
  "reporting_changes old new =
     (if map_option mouse_mode old \<noteq> Some (mouse_mode new) then
        map (\<lambda>m. Mode (reporting_mode m) False)
          (filter (\<lambda>m. m \<noteq> mouse_mode new) [X10, VT200, ButtonEvent, AnyEvent])
        @ (if mouse_mode new \<noteq> NoReporting then [Mode (reporting_mode (mouse_mode new)) True] else [])
      else [])"

definition encoding_changes :: "screen_snapshot option \<Rightarrow> screen_snapshot \<Rightarrow> vt list" where
  "encoding_changes old new =
     (if map_option mouse_enc old \<noteq> Some (mouse_enc new) then
        map (\<lambda>m. Mode (encoding_mode m) False)
          (filter (\<lambda>m. m \<noteq> mouse_enc new) [Utf8, Sgr, Urxvt])
        @ (if mouse_enc new \<noteq> DefaultEncoding then [Mode (encoding_mode (mouse_enc new)) True] else [])
      else [])"

definition title_changes :: "screen_snapshot option \<Rightarrow> screen_snapshot \<Rightarrow> vt list" where
  "title_changes old new =
     (if map_option title old = Some (title new) \<or> old = None \<and> title new = [] then [] else [Title (title new)])"

lemma state_changes_parts:
  "state_changes old new =
     title_changes old new @ flag_changes old new @ reporting_changes old new @ encoding_changes old new"
  unfolding state_changes_def title_changes_def flag_changes_def reporting_changes_def encoding_changes_def Let_def
  by (cases old) auto

definition modes_known :: "vterm \<Rightarrow> screen_snapshot option \<Rightarrow> bool" where
  "modes_known T old \<longleftrightarrow> (\<forall>o'. old = Some o' \<longrightarrow> shows_modes T o' \<and> vt_title T = title o')"

definition own_modes :: "nat set" where
  "own_modes = {2004, 1004, 1007, 9, 1000, 1002, 1003, 1005, 1006, 1015}"

lemma reporting_after:
  assumes "modes_known T old"
  shows "m \<noteq> NoReporting \<Longrightarrow> (\<And>n. n \<in> {9, 1000, 1002, 1003} \<Longrightarrow> f n = modes T n) \<Longrightarrow>
      modes_after (reporting_changes old new) f (reporting_mode m) = (mouse_mode new = m)"
    and "n \<notin> {9, 1000, 1002, 1003} \<Longrightarrow> modes_after (reporting_changes old new) f n = f n"
proof -
  show "modes_after (reporting_changes old new) f (reporting_mode m) = (mouse_mode new = m)"
    if "m \<noteq> NoReporting" "\<And>n. n \<in> {9, 1000, 1002, 1003} \<Longrightarrow> f n = modes T n"
  proof (cases "map_option mouse_mode old = Some (mouse_mode new)")
    case True
    then obtain o' where "old = Some o'" "mouse_mode o' = mouse_mode new" by (cases old) auto
    then show ?thesis using assms that True by (cases m) (auto simp: reporting_changes_def modes_known_def shows_modes_def)
  next
    case False
    then show ?thesis using that by (cases m; cases "mouse_mode new") (simp_all add: reporting_changes_def)
  qed
  show "n \<notin> {9, 1000, 1002, 1003} \<Longrightarrow> modes_after (reporting_changes old new) f n = f n"
    by (cases "mouse_mode new") (simp_all add: reporting_changes_def)
qed

lemma encoding_after:
  assumes "modes_known T old"
  shows "m \<noteq> DefaultEncoding \<Longrightarrow> (\<And>n. n \<in> {1005, 1006, 1015} \<Longrightarrow> f n = modes T n) \<Longrightarrow>
      modes_after (encoding_changes old new) f (encoding_mode m) = (mouse_enc new = m)"
    and "n \<notin> {1005, 1006, 1015} \<Longrightarrow> modes_after (encoding_changes old new) f n = f n"
proof -
  show "modes_after (encoding_changes old new) f (encoding_mode m) = (mouse_enc new = m)"
    if "m \<noteq> DefaultEncoding" "\<And>n. n \<in> {1005, 1006, 1015} \<Longrightarrow> f n = modes T n"
  proof (cases "map_option mouse_enc old = Some (mouse_enc new)")
    case True
    then obtain o' where "old = Some o'" "mouse_enc o' = mouse_enc new" by (cases old) auto
    then show ?thesis using assms that True by (cases m) (auto simp: encoding_changes_def modes_known_def shows_modes_def)
  next
    case False
    then show ?thesis using that by (cases m; cases "mouse_enc new") (simp_all add: encoding_changes_def)
  qed
  show "n \<notin> {1005, 1006, 1015} \<Longrightarrow> modes_after (encoding_changes old new) f n = f n"
    by (cases "mouse_enc new") (simp_all add: encoding_changes_def)
qed

definition same_screen :: "vterm \<Rightarrow> vterm \<Rightarrow> bool" where
  "same_screen T T' \<longleftrightarrow> vt_rows T' = vt_rows T \<and> vt_cols T' = vt_cols T \<and> scr T' = scr T \<and> vt_y T' = vt_y T
     \<and> vt_x T' = vt_x T \<and> pen T' = pen T \<and> bottom_margin T' = bottom_margin T"

lemma mode_changes_only:
  "\<forall>op\<in>set (flag_changes old new @ reporting_changes old new @ encoding_changes old new). \<exists>n b. op = Mode n b"
  by (auto simp: flag_changes_def reporting_changes_def encoding_changes_def split: if_splits)

lemma state_changes_exec:
  assumes "modes_known T old"
  shows "\<exists>T'. vt_exec ww (state_changes old new) T = Some T' \<and> shows_modes T' new
     \<and> vt_title T' = (if old = None \<and> title new = [] then vt_title T else title new)
     \<and> modes T' 25 = modes T 25 \<and> same_screen T T'"
proof -
  let ?t = "if old = None \<and> title new = [] then vt_title T else title new"
  let ?f1 = "modes_after (flag_changes old new) (modes T)"
  let ?f2 = "modes_after (reporting_changes old new) ?f1"
  let ?f3 = "modes_after (encoding_changes old new) ?f2"
  have "vt_exec ww (title_changes old new) T = Some (T\<lparr>vt_title := ?t\<rparr>)"
    using assms by (cases old) (auto simp: title_changes_def modes_known_def)
  then have run: "vt_exec ww (state_changes old new) T = Some (T\<lparr>modes := ?f3, vt_title := ?t\<rparr>)"
    using modes_exec [OF mode_changes_only] unfolding state_changes_parts by (simp del: vt_exec_append add: vt_exec_append [of _ "title_changes old new"])
  have f1: "?f1 n = modes T n" if "n \<notin> {2004, 1004, 1007}" for n using that by (simp add: flag_changes_def)
  have flags: "?f1 2004 = bracketed_paste new" "?f1 1004 = mouse_focus_event new" "?f1 1007 = mouse_alternate_scroll new"
    using assms by (cases old; auto simp: flag_changes_def modes_known_def shows_modes_def)+
  note rep = reporting_after [OF assms] and enc = encoding_after [OF assms]
  have "?f3 (encoding_mode m) = (mouse_enc new = m)" if "m \<noteq> DefaultEncoding" for m
    using that f1 by (intro enc(1)) (auto simp: rep(2))
  moreover have "?f3 (reporting_mode m) = (mouse_mode new = m)" if "m \<noteq> NoReporting" for m
  proof -
    have "reporting_mode m \<notin> {1005, 1006, 1015}" by (cases m) simp_all
    then have "?f3 (reporting_mode m) = ?f2 (reporting_mode m)" by (rule enc(2))
    also have "\<dots> = (mouse_mode new = m)" using that f1 by (intro rep(1)) auto
    finally show ?thesis .
  qed
  ultimately have "shows_modes (T\<lparr>modes := ?f3, vt_title := ?t\<rparr>) new"
    using flags by (simp add: shows_modes_def enc(2) rep(2) del: reporting_mode.simps encoding_mode.simps)
  moreover have "?f3 25 = modes T 25" using f1 by (simp add: enc(2) rep(2))
  ultimately show ?thesis using run by (auto simp: same_screen_def)
qed

section \<open>Redrawing everything\<close>

abbreviation blank_row :: "nat \<Rightarrow> cell_data list" where
  "blank_row n \<equiv> replicate n cell_empty"

lemma show_cell_empty [simp]: "show_cell cell_empty = erased default_style"
  by (simp add: show_cell_def cell_empty_def erased_def glyph_def)

lemma row_wf_blank: "\<not> ww [32] \<Longrightarrow> row_wf ww (blank_row n)"
  by (simp add: row_wf_def cell_empty_def glyph_def)

lemma restyle_if:
  assumes "pen T = p"
  shows "vt_exec ww ((if s \<noteq> p then SetSgr [0] # (if \<not> style_is_default s then style_on s else []) else []) @ ops) T
     = vt_exec ww ops (T\<lparr>pen := s\<rparr>)"
proof (cases "s = p")
  case True
  then have "T\<lparr>pen := s\<rparr> = T" using assms by simp
  then show ?thesis using True by simp
next
  case False
  then show ?thesis using restyle_exec [of ww s ops T] by (simp only: append_Cons if_True not_False_eq_True)
qed

lemma redraw_row_step:
  assumes "row_wf ww row" "x < length row" "\<not> spacer (row ! x)"
  shows "redraw_row row x p =
     ((if cell_sgr (row ! x) \<noteq> p
       then SetSgr [0] # (if \<not> style_is_default (cell_sgr (row ! x)) then style_on (cell_sgr (row ! x)) else []) else [])
      @ cell_print (row ! x) # fst (redraw_row row (x + cell_width (row ! x)) (cell_sgr (row ! x))),
      snd (redraw_row row (x + cell_width (row ! x)) (cell_sgr (row ! x))))"
  using assms by (subst redraw_row.simps) (simp add: cell_width_def Let_def split_beta)

lemma redraw_row_exec:
  assumes "row_at y (blank_row (length new)) new x T" and wf: "row_wf ww new" "\<not> ww [32]"
    and "vt_cols T = length new" "vt_y T = y" "vt_x T = x" "pen T = p"
  shows "\<exists>T'. vt_exec ww (fst (redraw_row new x p)) T = Some T' \<and> only_row y T T'
     \<and> row_shown T' y new \<and> pen T' = snd (redraw_row new x p)"
  using assms
proof (induction "length new - x" arbitrary: x p T rule: less_induct)
  case less
  show ?case
  proof (cases "x < length new")
    case False
    then show ?thesis using less.prems by (subst (1 2) redraw_row.simps) (auto simp: row_at_def row_shown_def)
  next
    case True
    let ?c = "new ! x" and ?x = "x + cell_width (new ! x)" and ?T = "T\<lparr>pen := cell_sgr (new ! x)\<rparr>"
    have sp: "\<not> spacer ?c" using less.prems(1) True by (auto simp: row_at_def)
    have at: "row_at y (blank_row (length new)) new x ?T" using less.prems(1) by (simp add: row_at_def)
    obtain T1 where T1: "vt_step ww ?T (cell_print ?c) = Some T1" "only_row y ?T T1" "vt_y T1 = y" "vt_x T1 = ?x"
        "pen T1 = cell_sgr ?c" "row_at y (blank_row (length new)) new ?x T1"
      using row_at_print [OF at row_wf_blank [of ww, OF wf(2)] wf(1) _ True] less.prems by auto
    have "length new - ?x < length new - x" using True by (auto simp: cell_width_def)
    moreover have "vt_cols T1 = length new" using T1(2) less.prems(4) by (simp add: only_row_def)
    ultimately obtain T2 where T2: "vt_exec ww (fst (redraw_row new ?x (cell_sgr ?c))) T1 = Some T2" "only_row y T1 T2"
        "row_shown T2 y new" "pen T2 = snd (redraw_row new ?x (cell_sgr ?c))"
      using less.hyps [OF _ T1(6) wf _ T1(3,4,5)] by blast
    have "vt_exec ww (fst (redraw_row new x p)) T =
        vt_exec ww (cell_print ?c # fst (redraw_row new ?x (cell_sgr ?c))) ?T"
      unfolding redraw_row_step [OF wf(1) True sp] fst_conv by (rule restyle_if [OF less.prems(7)])
    also have "\<dots> = Some T2" using T1(1) T2(1) by simp
    finally show ?thesis
      using T2 only_row_trans [OF T1(2) T2(2)] redraw_row_step [OF wf(1) True sp, of p] by (auto simp: only_row_def)
  qed
qed

lemma redraw_rows_exec:
  assumes "\<forall>row\<in>set rows. row_wf ww row \<and> length row = vt_cols T" and "\<not> ww [32]" and "0 < vt_cols T"
    and "y + length rows \<le> vt_rows T" and "pen T = p"
    and "\<forall>i<length rows. row_shown T (y + i) (blank_row (vt_cols T))"
  shows "\<exists>T'. vt_exec ww (redraw_rows y rows p) T = Some T' \<and> same_setup T T'
     \<and> (\<forall>i<length rows. row_shown T' (y + i) (rows ! i)) \<and> (\<forall>z<y. scr T' z = scr T z)"
  using assms
proof (induction rows arbitrary: y p T)
  case Nil
  then show ?case by (simp add: same_setup_def)
next
  case (Cons row rows)
  let ?T = "T\<lparr>vt_y := y, vt_x := 0\<rparr>"
  have wf: "row_wf ww row" and len: "length row = vt_cols T" using Cons.prems(1) by auto
  have "row_shown T y (blank_row (vt_cols T))" using Cons.prems(6) by force
  then have at: "row_at y (blank_row (length row)) row 0 ?T"
    using len by (intro row_at_start [OF row_wf_blank [of ww, OF Cons.prems(2)] wf]) (auto simp: row_shown_def)
  obtain T1 where T1: "vt_exec ww (fst (redraw_row row 0 p)) ?T = Some T1" "only_row y ?T T1" "row_shown T1 y row"
      "pen T1 = snd (redraw_row row 0 p)"
    using redraw_row_exec [OF at wf Cons.prems(2)] len Cons.prems(5) by auto
  define q where "q = (if \<not> style_is_default (pen T1) then default_style else pen T1)"
  let ?T1 = "T1\<lparr>pen := q\<rparr>"
  have run: "vt_exec ww (redraw_rows y (row # rows) p) T = vt_exec ww (redraw_rows (y + 1) rows q) ?T1"
  proof -
    have "vt_exec ww (Cup (y + 1) 1 # ops) T = vt_exec ww ops ?T" for ops using Cons.prems(3,4) by simp
    moreover have "T1\<lparr>pen := pen T1\<rparr> = T1" by simp
    ultimately show ?thesis using T1(1) by (simp add: split_beta q_def T1(4) [symmetric] del: vt_step.simps(3))
  qed
  have keep: "scr ?T1 z = scr T z" if "z \<noteq> y" for z using T1(2) that by (simp add: only_row_def)
  have dims: "vt_cols ?T1 = vt_cols T" "vt_rows ?T1 = vt_rows T" using T1(2) by (simp_all add: only_row_def)
  have rest: "\<forall>i<length rows. row_shown ?T1 (y + 1 + i) (blank_row (vt_cols ?T1))"
  proof (intro allI impI)
    fix i assume "i < length rows"
    then have "row_shown T (y + Suc i) (blank_row (vt_cols T))" using Cons.prems(6) [rule_format, of "Suc i"] by simp
    then show "row_shown ?T1 (y + 1 + i) (blank_row (vt_cols ?T1))"
      using keep [of "y + Suc i"] dims by (simp add: row_shown_def)
  qed
  obtain T2 where T2: "vt_exec ww (redraw_rows (y + 1) rows q) ?T1 = Some T2" "same_setup ?T1 T2"
      "\<forall>i<length rows. row_shown T2 (y + 1 + i) (rows ! i)" "\<forall>z<y + 1. scr T2 z = scr ?T1 z"
    using Cons.IH [OF _ Cons.prems(2) _ _ _ rest] Cons.prems dims by auto
  have "row_shown T2 (y + i) ((row # rows) ! i)" if "i < length (row # rows)" for i
    using that T1(3) T2(3,4) by (cases i) (auto simp: row_shown_def)
  moreover have "same_setup T T2" using T1(2) T2(2) by (simp add: only_row_def same_setup_def)
  ultimately show ?case using run T2(1,4) keep by auto
qed

lemma snap_wf_rows:
  assumes "snap_wf ww S"
  shows "length (grid S) = rows_count S" "\<forall>row\<in>set (grid S). row_wf ww row \<and> length row = cols S"
    "0 < cols S" "cursor_y S < rows_count S" "cursor_x S < cols S"
  using assms by (auto simp: snap_wf_def snap_ok_def)

lemma shows_grid_rows:
  assumes "snap_wf ww S" "vt_cols T = cols S"
  shows "shows_grid T (grid S) \<longleftrightarrow> (\<forall>y<rows_count S. row_shown T y (grid S ! y))"
  using assms snap_wf_rows [OF assms(1)] by (auto simp: shows_grid_def row_shown_def)

lemma full_redraw_exec:
  assumes wf: "snap_wf ww S" "\<not> ww [32]" and T: "vt_rows T = rows_count S" "vt_cols T = cols S"
    and title: "title S \<noteq> [] \<or> vt_title T = []"
  shows "\<exists>T'. vt_exec ww (full_redraw S) T = Some T' \<and> displays T' S"
proof -
  note S = snap_wf_rows [OF wf(1)]
  define T0 where "T0 = T\<lparr>modes := (modes T)(25 := False), bottom_margin := vt_rows T, pen := default_style,
      vt_y := 0, vt_x := 0, scr := (\<lambda>_ _. erased default_style)\<rparr>"
  have 0: "vt_exec ww [Mode 25 False, ResetRegion, SetSgr [0], Home, EraseAll] T = Some T0" by (simp add: T0_def)
  obtain T1 where T1: "vt_exec ww (state_changes None S) T0 = Some T1" "shows_modes T1 S"
      "vt_title T1 = title S" "modes T1 25 = False" "same_screen T0 T1"
    using state_changes_exec [of T0 None ww S] title by (auto simp: modes_known_def T0_def)
  have dims: "vt_rows T1 = rows_count S" "vt_cols T1 = cols S" "pen T1 = default_style" "bottom_margin T1 = rows_count S"
      "scr T1 = (\<lambda>_ _. erased default_style)"
    using T1(5) T by (simp_all add: same_screen_def T0_def)
  obtain T2 where T2: "vt_exec ww (redraw_rows 0 (grid S) default_style) T1 = Some T2" "same_setup T1 T2"
      "\<forall>i<length (grid S). row_shown T2 (0 + i) (grid S ! i)"
    using redraw_rows_exec [of "grid S" ww T1 0 default_style] S wf(2) dims by (auto simp: row_shown_def)
  have dims2: "vt_rows T2 = rows_count S" "vt_cols T2 = cols S" "bottom_margin T2 = rows_count S" "modes T2 = modes T1"
      "vt_title T2 = title S"
    using T2(2) dims T1(3) by (simp_all add: same_setup_def)
  let ?T = "T2\<lparr>vt_y := cursor_y S, vt_x := cursor_x S, modes := (modes T2)(25 := cursor_visible S)\<rparr>"
  have hidden: "(modes T2)(25 := False) = modes T2" using T1(4) dims2(4) by (intro ext) simp
  have "vt_exec ww ([Cup (cursor_y S + 1) (cursor_x S + 1)] @ (if cursor_visible S then [Mode 25 True] else [])) T2 = Some ?T"
    using S dims2(1,2) hidden by (cases T2) simp
  then have "vt_exec ww (full_redraw S) T = Some ?T"
    unfolding full_redraw_def by (simp only: vt_exec_append 0 T1(1) T2(1) option.case)
  moreover have "shows_grid ?T (grid S)" using T2(3) S dims2 by (auto simp: shows_grid_def row_shown_def)
  then have "displays ?T S"
    using dims2 T1(2) by (auto simp: displays_def shows_modes_def)
  ultimately show ?thesis by blast
qed

section \<open>Frames\<close>

definition scroll_stage :: "screen_snapshot \<Rightarrow> screen_snapshot \<Rightarrow> vt list \<times> cell_data list list \<times> nat" where
  "scroll_stage old new =
     (case detect_scroll (grid old) new of
        Some s \<Rightarrow> (emit_scroll s new (cursor_y old), shift_rows (grid old) s new, scroll_height s)
      | None \<Rightarrow> ([], grid old, 0))"

text \<open>
  After the scrolling stage the terminal shows exactly the rows that the row-by-row pass then takes
  for the old frame, and the rows it skips are already the new ones.
\<close>

lemma scroll_stage_exec:
  assumes wf: "snap_wf ww old" "\<not> ww [32]" and dims: "cols new = cols old" "rows_count new = rows_count old"
    and T: "vt_rows T = rows_count old" "vt_cols T = cols old" "bottom_margin T = rows_count old"
      "vt_y T = cursor_y old" "\<forall>y<rows_count old. row_shown T y (grid old ! y)"
    and stage: "scroll_stage old new = (ops, rows, first)"
  shows "\<exists>T'. vt_exec ww ops T = Some T' \<and> same_setup T T' \<and> first \<le> rows_count old
     \<and> (\<forall>y<rows_count old. row_shown T' y (rows ! y) \<and> row_wf ww (rows ! y) \<and> length (rows ! y) = cols old)
     \<and> (\<forall>y<first. rows ! y = grid new ! y)"
proof (cases "detect_scroll (grid old) new")
  case None
  then show ?thesis using stage T snap_wf_rows [OF wf(1)] by (auto simp: scroll_stage_def same_setup_def)
next
  case (Some s)
  note S = snap_wf_rows [OF wf(1)] and d = detect_scroll_sound [OF Some, unfolded dims]
  let ?k = "scroll_lines s" and ?b = "scroll_lines s + scroll_height s"
  have stage': "ops = emit_scroll s new (cursor_y old)" "first = scroll_height s" "rows = shift_rows (grid old) s new"
    using stage Some by (simp_all add: scroll_stage_def)
  have rows: "rows ! y = (if y < scroll_height s then grid old ! (y + ?k)
      else if y < ?b then blank_row (cols old) else grid old ! y)" if "y < rows_count old" for y
    using that d S(1) dims unfolding stage'(3) by (subst shift_rows_eq) auto
  obtain T' where T': "vt_exec ww ops T = Some T'" "same_setup T T'"
      "scr T' = scrolled ?b ?k default_style (scr T)"
    using emit_scroll_exec [of s new T "cursor_y old" ww] d T S dims stage'(1) by auto
  have "row_shown T' y (rows ! y) \<and> row_wf ww (rows ! y) \<and> length (rows ! y) = cols old" if y: "y < rows_count old" for y
  proof -
    consider "y < scroll_height s" | "scroll_height s \<le> y" "y < ?b" | "?b \<le> y" by linarith
    then show ?thesis
    proof cases
      case 1
      then have "y + ?k < rows_count old" using d by simp
      moreover have "scr T' y = scr T (y + ?k)" using 1 T'(3) by (simp add: scrolled_def)
      ultimately show ?thesis using 1 rows [OF y] T(5) S(1,2) by (simp add: row_shown_def)
    next
      case 2
      then have "scr T' y = (\<lambda>_. erased default_style)" using T'(3) by (simp add: scrolled_def)
      then show ?thesis using 2 rows [OF y] row_wf_blank [of ww, OF wf(2)] by (simp add: row_shown_def)
    next
      case 3
      then have "scr T' y = scr T y" using T'(3) by (simp add: scrolled_def)
      then show ?thesis using 3 rows [OF y] T(5) S(1,2) y by (simp add: row_shown_def)
    qed
  qed
  moreover have "\<forall>y<first. rows ! y = grid new ! y" using d rows stage'(2) by (auto simp: add.commute)
  ultimately show ?thesis using T'(1,2) d stage'(2) by auto
qed

lemma display_diff_stages:
  assumes "cols old = cols new" "rows_count old = rows_count new" "scroll_stage old new = (ops, rows, first)"
  shows "display_diff old new =
     (let out = state_changes (Some old) new @ ops @ diff_rows (cols new) first (rows_count new) rows (grid new)
      in out @ (if out \<noteq> [] \<or> cursor_y old \<noteq> cursor_y new \<or> cursor_x old \<noteq> cursor_x new
                then [Cup (cursor_y new + 1) (cursor_x new + 1)] else [])
             @ (if cursor_visible old \<noteq> cursor_visible new then [Mode 25 (cursor_visible new)] else []))"
  using assms unfolding display_diff_def scroll_stage_def [symmetric] Let_def by simp

text \<open>The cells, modes and title of the new frame are in place before the cursor is.\<close>

lemma diff_body_exec:
  assumes wf: "snap_wf ww old" "snap_wf ww new" "\<not> ww [32]" and dims: "cols old = cols new" "rows_count old = rows_count new"
    and T: "displays T old" and stage: "scroll_stage old new = (ops, rows, first)"
  shows "\<exists>T'. vt_exec ww (state_changes (Some old) new @ ops @ diff_rows (cols new) first (rows_count new) rows (grid new)) T
       = Some T' \<and> vt_rows T' = rows_count new \<and> vt_cols T' = cols new \<and> bottom_margin T' = rows_count new
     \<and> shows_grid T' (grid new) \<and> shows_modes T' new \<and> vt_title T' = title new \<and> modes T' 25 = modes T 25"
proof -
  note N = snap_wf_rows [OF wf(2)]
  have T_old: "vt_rows T = rows_count old" "vt_cols T = cols old" "bottom_margin T = rows_count old" "vt_y T = cursor_y old"
    "\<forall>y<rows_count old. row_shown T y (grid old ! y)"
    using T shows_grid_rows [OF wf(1), of T] by (simp_all add: displays_def)
  have "modes_known T (Some old)" using T by (simp add: modes_known_def displays_def)
  from state_changes_exec [OF this, of ww new] obtain T1 where
    T1: "vt_exec ww (state_changes (Some old) new) T = Some T1" "shows_modes T1 new" "vt_title T1 = title new"
      "modes T1 25 = modes T 25" "same_screen T T1" by auto
  have "vt_rows T1 = rows_count old" "vt_cols T1 = cols old" "bottom_margin T1 = rows_count old" "vt_y T1 = cursor_y old"
    "\<forall>y<rows_count old. row_shown T1 y (grid old ! y)"
    using T_old T1(5) by (simp_all add: same_screen_def row_shown_def)
  from scroll_stage_exec [OF wf(1,3) dims(1) [symmetric] dims(2) [symmetric] this stage] obtain T2 where
    T2: "vt_exec ww ops T1 = Some T2" "same_setup T1 T2" "first \<le> rows_count old"
      "\<forall>y<rows_count old. row_shown T2 y (rows ! y) \<and> row_wf ww (rows ! y) \<and> length (rows ! y) = cols old"
      "\<forall>y<first. rows ! y = grid new ! y" by blast
  have d2: "vt_cols T2 = cols new" "vt_rows T2 = rows_count new" "bottom_margin T2 = rows_count new"
    using T2(2) T1(5) T_old dims by (simp_all add: same_setup_def same_screen_def)
  have "\<exists>T3. vt_exec ww (diff_rows (vt_cols T2) first (rows_count new) rows (grid new)) T2 = Some T3 \<and> same_setup T2 T3
     \<and> (\<forall>y. first \<le> y \<and> y < rows_count new \<longrightarrow> row_shown T3 y (grid new ! y))
     \<and> (\<forall>y. y < first \<or> rows_count new \<le> y \<longrightarrow> scr T3 y = scr T2 y)"
    using T2(3,4) d2 N dims by (intro diff_rows_exec) auto
  then obtain T3 where T3: "vt_exec ww (diff_rows (cols new) first (rows_count new) rows (grid new)) T2 = Some T3"
      "same_setup T2 T3" "\<forall>y. first \<le> y \<and> y < rows_count new \<longrightarrow> row_shown T3 y (grid new ! y)"
      "\<forall>y. y < first \<or> rows_count new \<le> y \<longrightarrow> scr T3 y = scr T2 y" unfolding d2(1) by blast
  have "row_shown T3 y (grid new ! y)" if "y < rows_count new" for y
    using that T3(3,4) T2(3,4,5) dims by (cases "first \<le> y") (auto simp: row_shown_def)
  then have "shows_grid T3 (grid new)"
    using shows_grid_rows [OF wf(2), of T3] T3(2) d2 by (simp add: same_setup_def)
  then show ?thesis
    using T1 T2(1,2) T3(1,2) d2 by (auto simp: same_setup_def shows_modes_def)
qed

lemma display_diff_exec:
  assumes wf: "snap_wf ww old" "snap_wf ww new" "\<not> ww [32]" and dims: "cols old = cols new" "rows_count old = rows_count new"
    and T: "displays T old"
  shows "\<exists>T'. vt_exec ww (display_diff old new) T = Some T' \<and> displays T' new"
proof -
  obtain ops rows first where stage: "scroll_stage old new = (ops, rows, first)" by (metis prod_cases3)
  define out where "out = state_changes (Some old) new @ ops @ diff_rows (cols new) first (rows_count new) rows (grid new)"
  obtain T1 where T1: "vt_exec ww out T = Some T1" "vt_rows T1 = rows_count new" "vt_cols T1 = cols new"
      "bottom_margin T1 = rows_count new" "shows_grid T1 (grid new)" "shows_modes T1 new" "vt_title T1 = title new"
      "modes T1 25 = modes T 25"
    using diff_body_exec [OF wf dims T stage] unfolding out_def by blast
  define T2 where "T2 = (if out \<noteq> [] \<or> cursor_y old \<noteq> cursor_y new \<or> cursor_x old \<noteq> cursor_x new
      then T1\<lparr>vt_y := cursor_y new, vt_x := cursor_x new\<rparr> else T1)"
  have at: "vt_y T2 = cursor_y new \<and> vt_x T2 = cursor_x new"
    using T T1(1) by (auto simp: T2_def displays_def)
  define T3 where "T3 = (if cursor_visible old \<noteq> cursor_visible new then T2\<lparr>modes := (modes T2)(25 := cursor_visible new)\<rparr> else T2)"
  have "vt_exec ww (display_diff old new) T = Some T3"
    using T1(1-3) snap_wf_rows [OF wf(2)]
    by (simp add: display_diff_stages [OF dims stage] out_def [symmetric] Let_def T2_def T3_def)
  moreover have "displays T3 new"
  proof -
    have "modes T 25 = cursor_visible old" using T by (simp add: displays_def)
    then have "modes T3 25 = cursor_visible new" using T1(8) by (auto simp: T3_def T2_def)
    then show ?thesis
      using T1 at by (auto simp: displays_def T3_def T2_def shows_modes_def shows_grid_def)
  qed
  ultimately show ?thesis by blast
qed

end
