(* ===== verification/Overlay.thy ===== *)
theory Overlay
  imports Snapshot
begin

text \<open>
  \<open>crates/morsh-prediction/src/overlay.rs\<close>: predicted cells and cursor positions, and the overlay
  that holds them by row. A Rust \<open>char\<close> is its code point. The \<open>HashMap\<close> from row numbers to rows is
  the list of its rows in order of number, which is also the order in which the code visits them.
\<close>

abbreviation BLANK :: rchar where
  "BLANK \<equiv> 32"

datatype validity = Pending | Correct | CorrectNoCredit | IncorrectOrExpired | Inactive

record overlay_cell =
  expiration_frame :: u64
  cell_col :: nat
  cell_active :: bool
  tentative_until_epoch :: u64
  prediction_time :: instant
  replacement :: rchar
  cell_unknown :: bool
  original_contents :: "rchar list"

definition cell_new :: "instant \<Rightarrow> nat \<Rightarrow> u64 \<Rightarrow> overlay_cell" where
  "cell_new now col epoch =
     \<lparr>expiration_frame = 0, cell_col = col, cell_active = False, tentative_until_epoch = epoch,
      prediction_time = now, replacement = BLANK, cell_unknown = False, original_contents = []\<rparr>"

definition is_tentative :: "overlay_cell \<Rightarrow> u64 \<Rightarrow> bool" where
  "is_tentative c confirmed_epoch \<longleftrightarrow> tentative_until_epoch c > confirmed_epoch"

definition cell_reset :: "overlay_cell \<Rightarrow> overlay_cell" where
  "cell_reset c = c\<lparr>cell_active := False, expiration_frame := u64_MAX, tentative_until_epoch := u64_MAX,
     cell_unknown := False, original_contents := []\<rparr>"

definition reset_with_orig :: "overlay_cell \<Rightarrow> overlay_cell" where
  "reset_with_orig c =
     (if \<not> cell_active c \<or> cell_unknown c then cell_reset c
      else c\<lparr>original_contents := original_contents c @ [replacement c], cell_active := False,
             expiration_frame := u64_MAX, tentative_until_epoch := u64_MAX\<rparr>)"

definition cell_expire :: "overlay_cell \<Rightarrow> u64 \<Rightarrow> instant \<Rightarrow> overlay_cell" where
  "cell_expire c frame time = c\<lparr>expiration_frame := frame, prediction_time := time\<rparr>"

definition cell_validity :: "overlay_cell \<Rightarrow> rchar \<Rightarrow> nat \<Rightarrow> nat \<Rightarrow> u64 \<Rightarrow> validity" where
  "cell_validity c actual row_height col_width late_ack =
     (if \<not> cell_active c then Inactive
      else if row_height = 0 \<or> cell_col c \<ge> col_width then IncorrectOrExpired
      else if late_ack < expiration_frame c then Pending
      else if cell_unknown c then CorrectNoCredit
      else if replacement c = BLANK \<and> actual = BLANK then CorrectNoCredit
      else if actual = replacement c then
        (if actual \<in> set (original_contents c) then CorrectNoCredit else Correct)
      else IncorrectOrExpired)"

record cursor_move =
  cursor_expiration :: u64
  cursor_row :: nat
  cursor_col :: nat
  cursor_active :: bool
  cursor_epoch :: u64

definition cursor_new :: "nat \<Rightarrow> nat \<Rightarrow> u64 \<Rightarrow> cursor_move" where
  "cursor_new row col epoch =
     \<lparr>cursor_expiration = 0, cursor_row = row, cursor_col = col, cursor_active = False,
      cursor_epoch = epoch\<rparr>"

definition cursor_tentative :: "cursor_move \<Rightarrow> u64 \<Rightarrow> bool" where
  "cursor_tentative c confirmed_epoch \<longleftrightarrow> cursor_epoch c > confirmed_epoch"

definition cursor_validity :: "cursor_move \<Rightarrow> nat \<Rightarrow> nat \<Rightarrow> nat \<Rightarrow> nat \<Rightarrow> u64 \<Rightarrow> validity" where
  "cursor_validity c actual_row actual_col row_height col_width late_ack =
     (if \<not> cursor_active c then Inactive
      else if cursor_row c \<ge> row_height \<or> cursor_col c \<ge> col_width then IncorrectOrExpired
      else if late_ack \<ge> cursor_expiration c then
        (if actual_row = cursor_row c \<and> actual_col = cursor_col c then Correct else IncorrectOrExpired)
      else Pending)"

record overlay_row =
  row_num :: nat
  row_cells :: "overlay_cell list"

definition row_new :: "instant \<Rightarrow> nat \<Rightarrow> nat \<Rightarrow> u64 \<Rightarrow> overlay_row" where
  "row_new now n num_cols epoch =
     \<lparr>row_num = n, row_cells = map (\<lambda>col. cell_new now col epoch) [0..<num_cols]\<rparr>"

type_synonym overlay = "overlay_row list"

definition overlay_new :: overlay where
  "overlay_new = []"

fun get_row :: "overlay \<Rightarrow> nat \<Rightarrow> overlay_row option" where
  "get_row [] n = None"
| "get_row (r # rs) n = (if row_num r = n then Some r else get_row rs n)"

text \<open>Storing a row under its number: the entry of the map is replaced or created.\<close>

fun put_row :: "overlay \<Rightarrow> overlay_row \<Rightarrow> overlay" where
  "put_row [] r = [r]"
| "put_row (x # xs) r =
     (if row_num r < row_num x then r # x # xs
      else if row_num r = row_num x then r # xs
      else x # put_row xs r)"

definition get_or_make_row ::
  "instant \<Rightarrow> overlay \<Rightarrow> nat \<Rightarrow> nat \<Rightarrow> u64 \<Rightarrow> overlay_row \<times> overlay" where
  "get_or_make_row now ov n num_cols epoch =
     (case get_row ov n of
        Some r \<Rightarrow> (r, ov)
      | None \<Rightarrow> (let r = row_new now n num_cols epoch in (r, put_row ov r)))"

definition overlay_prune :: "overlay \<Rightarrow> nat \<Rightarrow> overlay" where
  "overlay_prune ov max_row = filter (\<lambda>r. row_num r < max_row) ov"

definition kill_epoch :: "overlay \<Rightarrow> u64 \<Rightarrow> overlay" where
  "kill_epoch ov epoch =
     map (\<lambda>r. r\<lparr>row_cells := map (\<lambda>c. if cell_active c \<and> tentative_until_epoch c \<le> epoch
                                        then cell_reset c else c) (row_cells r)\<rparr>) ov"

definition reset_all :: "overlay \<Rightarrow> overlay" where
  "reset_all ov = map (\<lambda>r. r\<lparr>row_cells := map cell_reset (row_cells r)\<rparr>) ov"

definition overlay_is_empty :: "overlay \<Rightarrow> bool" where
  "overlay_is_empty ov \<longleftrightarrow> ov = [] \<or> (\<forall>r\<in>set ov. \<forall>c\<in>set (row_cells r). \<not> cell_active c)"

section \<open>Rows of a fixed width\<close>

text \<open>Every row is as wide as the screen it was made for, and every cell knows its column.\<close>

definition row_ok :: "nat \<Rightarrow> overlay_row \<Rightarrow> bool" where
  "row_ok w r \<longleftrightarrow> length (row_cells r) = w \<and> (\<forall>i<w. cell_col (row_cells r ! i) = i)"

definition overlay_ok :: "nat \<Rightarrow> overlay \<Rightarrow> bool" where
  "overlay_ok w ov \<longleftrightarrow> sorted_wrt (<) (map row_num ov) \<and> (\<forall>r\<in>set ov. row_ok w r)"

text \<open>The map laws of the list of rows.\<close>

locale row_map =
  fixes get :: "'m \<Rightarrow> nat \<Rightarrow> 'r option"
    and put :: "'m \<Rightarrow> 'r \<Rightarrow> 'm"
    and key :: "'r \<Rightarrow> nat"
    and ok :: "'m \<Rightarrow> bool"
  assumes get_put: "ok m \<Longrightarrow> get (put m r) n = (if n = key r then Some r else get m n)"
    and ok_put: "ok m \<Longrightarrow> ok (put m r)"
    and get_key: "get m n = Some r \<Longrightarrow> key r = n"
begin

lemma get_put_same: "ok m \<Longrightarrow> get (put m r) (key r) = Some r"
  by (simp add: get_put)

lemma get_put_other: "ok m \<Longrightarrow> n \<noteq> key r \<Longrightarrow> get (put m r) n = get m n"
  by (simp add: get_put)

lemma put_put_same: "ok m \<Longrightarrow> key r = key s \<Longrightarrow> get (put (put m r) s) n = get (put m s) n"
  by (simp add: get_put ok_put)

end

lemma put_row_nums: "set (map row_num (put_row ov r)) = insert (row_num r) (set (map row_num ov))"
  by (induction ov r rule: put_row.induct) auto

lemma put_row_sorted: "sorted_wrt (<) (map row_num ov) \<Longrightarrow> sorted_wrt (<) (map row_num (put_row ov r))"
proof (induction ov r rule: put_row.induct)
  case (2 x xs r)
  then show ?case
    using put_row_nums [of xs r] by (auto intro: less_trans)
qed simp

lemma get_row_put:
  "sorted_wrt (<) (map row_num ov) \<Longrightarrow>
     get_row (put_row ov r) n = (if n = row_num r then Some r else get_row ov n)"
  by (induction ov r rule: put_row.induct) auto

lemma get_row_Some: "get_row ov n = Some r \<Longrightarrow> r \<in> set ov \<and> row_num r = n"
  by (induction ov) (auto split: if_splits)

interpretation rows: row_map get_row put_row row_num "\<lambda>ov. sorted_wrt (<) (map row_num ov)"
  by unfold_locales (auto simp: get_row_put dest: get_row_Some intro: put_row_sorted)

lemma put_row_set: "set (put_row ov r) \<subseteq> insert r (set ov)"
  by (induction ov r rule: put_row.induct) auto

lemma overlay_ok_put: "overlay_ok w ov \<Longrightarrow> row_ok w r \<Longrightarrow> overlay_ok w (put_row ov r)"
  using put_row_set by (auto simp: overlay_ok_def intro: rows.ok_put)

lemma row_new_ok: "row_ok w (row_new now n w epoch)"
  by (simp add: row_ok_def row_new_def cell_new_def)

lemma get_or_make_row_ok:
  assumes "overlay_ok w ov" and "get_or_make_row now ov n w epoch = (r, ov')"
  shows "overlay_ok w ov' \<and> row_ok w r \<and> row_num r = n \<and> get_row ov' n = Some r"
proof (cases "get_row ov n")
  case None
  let ?r = "row_new now n w epoch"
  have "row_num ?r = n" by (simp add: row_new_def)
  then show ?thesis
    using None assms row_new_ok [of w now n epoch] overlay_ok_put [OF assms(1)] rows.get_put_same [of ov ?r]
    by (auto simp: get_or_make_row_def Let_def overlay_ok_def)
next
  case (Some r')
  then show ?thesis
    using assms get_row_Some [OF Some] by (auto simp: get_or_make_row_def overlay_ok_def)
qed

lemma overlay_ok_map:
  assumes "overlay_ok w ov" and "\<And>r. row_ok w r \<Longrightarrow> row_ok w (f r) \<and> row_num (f r) = row_num r"
  shows "overlay_ok w (map f ov)"
proof -
  have "map row_num (map f ov) = map row_num ov"
    using assms by (auto simp: overlay_ok_def)
  then show ?thesis using assms by (auto simp: overlay_ok_def simp del: map_map)
qed

lemma overlay_ok_prune: "overlay_ok w ov \<Longrightarrow> overlay_ok w (overlay_prune ov n)"
  by (auto simp: overlay_ok_def overlay_prune_def sorted_wrt_map sorted_wrt_filter)

lemma cell_col_reset [simp]: "cell_col (cell_reset c) = cell_col c"
  "cell_col (reset_with_orig c) = cell_col c" "cell_col (cell_expire c f t) = cell_col c"
  by (simp_all add: cell_reset_def reset_with_orig_def cell_expire_def)

end
