(* ===== verification/Prediction.thy ===== *)
theory Prediction
  imports Overlay
begin

text \<open>
  \<open>crates/morsh-prediction/src/prediction.rs\<close>: speculative local echo. A keystroke becomes predicted
  cells and a predicted cursor; the server's states confirm or refute them. Reads of the clock are
  the argument \<open>now\<close>; \<open>cell_at\<close> and \<open>get_cell\<close> read the server's screen. The result \<open>None\<close> of
  \<open>new_user_byte\<close> is a panic (an index out of range, or an underflow of \<open>num_cols - 1\<close>).
\<close>

datatype display_preference = Always | Never | Adaptive

datatype input_state = Ground | Escape | Csi | Ss3

record engine =
  pe_overlay :: overlay
  pe_cursors :: "cursor_move list"
  local_frame_sent :: u64
  local_frame_acked :: u64
  local_frame_late_acked :: u64
  prediction_epoch :: u64
  confirmed_epoch :: u64
  pe_flagging :: bool
  srtt_trigger :: bool
  glitch_trigger :: nat
  last_quick_confirmation :: instant
  pe_send_interval_ms :: nat
  pe_preference :: display_preference
  predict_overwrite :: bool
  last_height :: nat
  last_width :: nat
  pe_input_state :: input_state

definition SRTT_TRIGGER_LOW :: nat where "SRTT_TRIGGER_LOW = 20"
definition SRTT_TRIGGER_HIGH :: nat where "SRTT_TRIGGER_HIGH = 30"
definition FLAG_TRIGGER_LOW :: nat where "FLAG_TRIGGER_LOW = 50"
definition FLAG_TRIGGER_HIGH :: nat where "FLAG_TRIGGER_HIGH = 80"
definition GLITCH_THRESHOLD_MS :: nat where "GLITCH_THRESHOLD_MS = 250"
definition GLITCH_REPAIR_COUNT :: nat where "GLITCH_REPAIR_COUNT = 10"
definition GLITCH_REPAIR_MININTERVAL_MS :: nat where "GLITCH_REPAIR_MININTERVAL_MS = 150"
definition GLITCH_FLAG_THRESHOLD_MS :: nat where "GLITCH_FLAG_THRESHOLD_MS = 5000"

definition engine_new :: "instant \<Rightarrow> engine" where
  "engine_new now =
     \<lparr>pe_overlay = overlay_new, pe_cursors = [], local_frame_sent = 0, local_frame_acked = 0,
      local_frame_late_acked = 0, prediction_epoch = 1, confirmed_epoch = 0, pe_flagging = False,
      srtt_trigger = False, glitch_trigger = 0, last_quick_confirmation = now,
      pe_send_interval_ms = 250, pe_preference = Adaptive, predict_overwrite = False,
      last_height = 0, last_width = 0, pe_input_state = Ground\<rparr>"

definition set_display_preference :: "display_preference \<Rightarrow> engine \<Rightarrow> engine" where
  "set_display_preference p E = E\<lparr>pe_preference := p\<rparr>"

definition set_predict_overwrite :: "bool \<Rightarrow> engine \<Rightarrow> engine" where
  "set_predict_overwrite b E = E\<lparr>predict_overwrite := b\<rparr>"

definition set_send_interval :: "nat \<Rightarrow> engine \<Rightarrow> engine" where
  "set_send_interval n E = E\<lparr>pe_send_interval_ms := n\<rparr>"

definition set_local_frame_sent :: "u64 \<Rightarrow> engine \<Rightarrow> engine" where
  "set_local_frame_sent frame E = E\<lparr>local_frame_sent := frame\<rparr>"

definition set_local_frame_acked :: "u64 \<Rightarrow> engine \<Rightarrow> engine" where
  "set_local_frame_acked frame E = E\<lparr>local_frame_acked := frame\<rparr>"

definition set_local_frame_late_acked :: "u64 \<Rightarrow> engine \<Rightarrow> engine" where
  "set_local_frame_late_acked frame E = E\<lparr>local_frame_late_acked := frame\<rparr>"

definition pe_is_active :: "engine \<Rightarrow> bool" where
  "pe_is_active E \<longleftrightarrow> (\<exists>r\<in>set (pe_overlay E). \<exists>c\<in>set (row_cells r). cell_active c)"

definition timing_tests_necessary :: "engine \<Rightarrow> bool" where
  "timing_tests_necessary E \<longleftrightarrow> \<not> (glitch_trigger E > 0 \<and> pe_flagging E)"

text \<open>\<open>None\<close> is \<open>u64::MAX\<close>.\<close>

definition pe_wait_time_ms :: "engine \<Rightarrow> nat option" where
  "pe_wait_time_ms E = (if timing_tests_necessary E \<and> pe_is_active E then Some 50 else None)"

definition should_display :: "engine \<Rightarrow> bool" where
  "should_display E =
     (case pe_preference E of
        Never \<Rightarrow> False
      | Always \<Rightarrow> True
      | Adaptive \<Rightarrow> srtt_trigger E \<or> glitch_trigger E > 0)"

definition become_tentative :: "engine \<Rightarrow> engine" where
  "become_tentative E = E\<lparr>prediction_epoch := prediction_epoch E + 1\<rparr>"

definition unknown_input :: "engine \<Rightarrow> engine" where
  "unknown_input E = become_tentative (E\<lparr>pe_cursors := []\<rparr>)"

definition init_cursor :: "engine \<Rightarrow> nat \<Rightarrow> nat \<Rightarrow> engine" where
  "init_cursor E cr cc =
     (let dominated = (pe_cursors E \<noteq> [] \<and> cursor_epoch (last (pe_cursors E)) = prediction_epoch E)
      in if pe_cursors E = [] \<or> \<not> dominated then
           E\<lparr>pe_cursors := pe_cursors E @
               [(cursor_new cr cc (prediction_epoch E))
                  \<lparr>cursor_active := True, cursor_expiration := local_frame_sent E + 1\<rparr>]\<rparr>
         else E)"

definition cursor_pos :: "engine \<Rightarrow> (nat \<times> nat) option" where
  "cursor_pos E =
     (if pe_cursors E \<noteq> [] \<and> cursor_active (last (pe_cursors E))
      then Some (cursor_row (last (pe_cursors E)), cursor_col (last (pe_cursors E))) else None)"

definition display_cursor :: "engine \<Rightarrow> (nat \<times> nat) option" where
  "display_cursor E =
     (if \<not> should_display E then None
      else if pe_cursors E \<noteq> [] \<and> cursor_active (last (pe_cursors E)) \<and>
              \<not> cursor_tentative (last (pe_cursors E)) (confirmed_epoch E)
      then Some (cursor_row (last (pe_cursors E)), cursor_col (last (pe_cursors E))) else None)"

definition pe_reset :: "engine \<Rightarrow> engine" where
  "pe_reset E = become_tentative (E\<lparr>pe_cursors := [], pe_overlay := overlay_new\<rparr>)"

text \<open>An update of the last predicted cursor, if there is one.\<close>

definition on_last :: "(cursor_move \<Rightarrow> cursor_move) \<Rightarrow> engine \<Rightarrow> engine" where
  "on_last f E = (if pe_cursors E = [] then E
     else E\<lparr>pe_cursors := butlast (pe_cursors E) @ [f (last (pe_cursors E))]\<rparr>)"

definition predict_cursor_key :: "engine \<Rightarrow> rchar \<Rightarrow> nat \<Rightarrow> engine" where
  "predict_cursor_key E final_byte num_cols =
     (let frame = local_frame_sent E + 1
      in if final_byte = 67 \<and> pe_cursors E \<noteq> [] then
           on_last (\<lambda>c. if cursor_col c + 1 < num_cols
             then c\<lparr>cursor_col := cursor_col c + 1, cursor_expiration := frame\<rparr> else c) E
         else if final_byte = 68 \<and> pe_cursors E \<noteq> [] then
           on_last (\<lambda>c. if cursor_col c > 0
             then c\<lparr>cursor_col := cursor_col c - 1, cursor_expiration := frame\<rparr> else c) E
         else unknown_input E)"

text \<open>The blank prediction of a whole row.\<close>

definition blank_cells :: "u64 \<Rightarrow> u64 \<Rightarrow> instant \<Rightarrow> overlay_cell list \<Rightarrow> overlay_cell list" where
  "blank_cells epoch frame now cells =
     map (\<lambda>cell. (cell_expire (cell\<lparr>cell_active := True, tentative_until_epoch := epoch\<rparr>) frame now)
                   \<lparr>cell_unknown := False, replacement := BLANK\<rparr>) cells"

definition newline_carriage_return :: "engine \<Rightarrow> instant \<Rightarrow> nat \<Rightarrow> nat \<Rightarrow> nat \<Rightarrow> engine" where
  "newline_carriage_return E now cr num_cols num_rows =
     (let frame = local_frame_sent E + 1;
          epoch = prediction_epoch E;
          E1 = on_last (\<lambda>c. (if cursor_row c + 1 < num_rows
                 then c\<lparr>cursor_col := 0, cursor_row := cursor_row c + 1\<rparr> else c\<lparr>cursor_col := 0\<rparr>)
                 \<lparr>cursor_expiration := frame\<rparr>) E
      in if cr + 1 \<ge> num_rows then
           (let (row, ov) = get_or_make_row now (pe_overlay E1) cr num_cols epoch
            in E1\<lparr>pe_overlay := put_row ov (row\<lparr>row_cells := blank_cells epoch frame now (row_cells row)\<rparr>)\<rparr>)
         else E1)"

text \<open>The four assignments that every predicted cell gets.\<close>

definition predict_cell :: "u64 \<Rightarrow> u64 \<Rightarrow> instant \<Rightarrow> overlay_cell \<Rightarrow> overlay_cell" where
  "predict_cell epoch frame now c =
     cell_expire ((reset_with_orig c)\<lparr>cell_active := True, tentative_until_epoch := epoch\<rparr>) frame now"

text \<open>
  A predicted cell that takes over what its neighbour shows: the neighbour's prediction, or the
  character \<open>actual\<close> that the server has there.
\<close>

definition take_over :: "overlay_cell \<Rightarrow> rchar \<Rightarrow> overlay_cell \<Rightarrow> overlay_cell" where
  "take_over neighbour actual p =
     (if cell_active neighbour then
        (if cell_unknown neighbour then p\<lparr>cell_unknown := True\<rparr>
         else p\<lparr>cell_unknown := False, replacement := replacement neighbour\<rparr>)
      else p\<lparr>cell_unknown := False, replacement := actual\<rparr>)"

text \<open>The cell to the left of the cursor cleared (overwrite mode).\<close>

definition clear_cell :: "u64 \<Rightarrow> u64 \<Rightarrow> instant \<Rightarrow> nat \<Rightarrow> overlay_cell list \<Rightarrow> overlay_cell list" where
  "clear_cell epoch frame now new_col cells =
     cells[new_col := (predict_cell epoch frame now (cells ! new_col))
                        \<lparr>cell_unknown := False, replacement := BLANK\<rparr>]"

text \<open>
  The rest of the line shifted left over the deleted cell. The code reads all right-hand neighbours
  before it changes a cell, so every cell sees the old neighbour.
\<close>

definition shift_left ::
  "u64 \<Rightarrow> u64 \<Rightarrow> instant \<Rightarrow> nat \<Rightarrow> nat \<Rightarrow> nat \<Rightarrow> (nat \<Rightarrow> nat \<Rightarrow> rchar) \<Rightarrow> overlay_cell list \<Rightarrow> overlay_cell list" where
  "shift_left epoch frame now cr new_col num_cols cell_at cells =
     map (\<lambda>i. if i < new_col \<or> num_cols \<le> i then cells ! i
              else if i + 2 < num_cols then
                take_over (cells ! (i + 1)) (cell_at cr (i + 1)) (predict_cell epoch frame now (cells ! i))
              else (predict_cell epoch frame now (cells ! i))\<lparr>cell_unknown := True\<rparr>)
         [0..<length cells]"

definition predict_backspace ::
  "engine \<Rightarrow> instant \<Rightarrow> nat \<Rightarrow> nat \<Rightarrow> nat \<Rightarrow> (nat \<Rightarrow> nat \<Rightarrow> rchar) \<Rightarrow> engine option" where
  "predict_backspace E now cr cc num_cols cell_at =
     (if cc = 0 then Some E
      else
        (let new_col = cc - 1;
             frame = local_frame_sent E + 1;
             epoch = prediction_epoch E;
             E1 = on_last (\<lambda>c. c\<lparr>cursor_col := new_col, cursor_expiration := frame\<rparr>) E;
             (row, ov) = get_or_make_row now (pe_overlay E1) cr num_cols epoch;
             cells = row_cells row
         in if predict_overwrite E then
              (if new_col \<ge> length cells then None
               else Some (E1\<lparr>pe_overlay :=
                      put_row ov (row\<lparr>row_cells := clear_cell epoch frame now new_col cells\<rparr>)\<rparr>))
            else if length cells < num_cols \<and> (1 < num_cols \<or> new_col < num_cols) then None
            else Some (E1\<lparr>pe_overlay := put_row ov
                   (row\<lparr>row_cells := shift_left epoch frame now cr new_col num_cols cell_at cells\<rparr>)\<rparr>)))"

text \<open>
  The line shifted right from the cursor up to \<open>rightmost\<close>, and the character put at the cursor.
\<close>

definition shift_right ::
  "u64 \<Rightarrow> u64 \<Rightarrow> instant \<Rightarrow> rchar \<Rightarrow> nat \<Rightarrow> nat \<Rightarrow> nat \<Rightarrow> nat \<Rightarrow> (nat \<Rightarrow> nat \<Rightarrow> rchar) \<Rightarrow>
     overlay_cell list \<Rightarrow> overlay_cell list" where
  "shift_right epoch frame now ch cr cc num_cols rightmost cell_at cells =
     map (\<lambda>i. if i = cc then
                (predict_cell epoch frame now (cells ! i))\<lparr>cell_unknown := False, replacement := ch\<rparr>
              else if cc < i \<and> i \<le> rightmost then
                (if i = num_cols - 1 then (predict_cell epoch frame now (cells ! i))\<lparr>cell_unknown := True\<rparr>
                 else take_over (cells ! (i - 1)) (cell_at cr (i - 1)) (predict_cell epoch frame now (cells ! i)))
              else cells ! i)
         [0..<length cells]"

definition predict_insert ::
  "engine \<Rightarrow> instant \<Rightarrow> rchar \<Rightarrow> nat \<Rightarrow> nat \<Rightarrow> nat \<Rightarrow> nat \<Rightarrow> (nat \<Rightarrow> nat \<Rightarrow> rchar) \<Rightarrow> engine option" where
  "predict_insert E now ch cr cc num_cols num_rows cell_at =
     (let E0 = (if cc + 1 \<ge> num_cols then become_tentative E else E)
      in if \<not> predict_overwrite E0 \<and> num_cols = 0 then None
         else
           (let rightmost = (if predict_overwrite E0 then cc else num_cols - 1);
                epoch = prediction_epoch E0;
                frame = local_frame_sent E0 + 1;
                (row, ov) = get_or_make_row now (pe_overlay E0) cr num_cols epoch;
                cells = row_cells row
            in if length cells \<le> max cc rightmost then None
               else
                 (let E1 = E0\<lparr>pe_overlay := put_row ov (row\<lparr>row_cells :=
                             shift_right epoch frame now ch cr cc num_cols rightmost cell_at cells\<rparr>)\<rparr>
                  in if cc + 1 < num_cols then
                       Some (on_last (\<lambda>c. c\<lparr>cursor_col := cc + 1, cursor_expiration := frame\<rparr>) E1)
                     else
                       Some (newline_carriage_return (become_tentative E1) now cr num_cols num_rows))))"

definition cull :: "engine \<Rightarrow> nat \<Rightarrow> engine" where
  "cull E num_rows =
     (if pe_preference E = Never then E
      else
        (let E1 = (if pe_send_interval_ms E > SRTT_TRIGGER_HIGH then E\<lparr>srtt_trigger := True\<rparr>
                   else if srtt_trigger E \<and> pe_send_interval_ms E \<le> SRTT_TRIGGER_LOW \<and> \<not> pe_is_active E
                   then E\<lparr>srtt_trigger := False\<rparr> else E);
             E2 = (if pe_send_interval_ms E1 > FLAG_TRIGGER_HIGH then E1\<lparr>pe_flagging := True\<rparr>
                   else if pe_send_interval_ms E1 \<le> FLAG_TRIGGER_LOW then E1\<lparr>pe_flagging := False\<rparr> else E1);
             E3 = (if glitch_trigger E2 > GLITCH_REPAIR_COUNT then E2\<lparr>pe_flagging := True\<rparr> else E2)
         in E3\<lparr>pe_overlay := overlay_prune (pe_overlay E3) num_rows\<rparr>))"

text \<open>\<open>char::is_control\<close> and \<open>char::is_ascii_graphic\<close>.\<close>

definition is_control :: "rchar \<Rightarrow> bool" where
  "is_control ch \<longleftrightarrow> ch < 32 \<or> 127 \<le> ch \<and> ch < 160"

definition is_ascii_graphic :: "rchar \<Rightarrow> bool" where
  "is_ascii_graphic ch \<longleftrightarrow> 33 \<le> ch \<and> ch \<le> 126"

definition new_user_byte ::
  "engine \<Rightarrow> instant \<Rightarrow> rchar \<Rightarrow> nat \<Rightarrow> nat \<Rightarrow> nat \<Rightarrow> nat \<Rightarrow> (nat \<Rightarrow> nat \<Rightarrow> rchar) \<Rightarrow> engine option" where
  "new_user_byte E now ch cr cc num_cols num_rows cell_at =
     (if pe_preference E = Never then Some E
      else
        (let E1 = (if last_height E \<noteq> num_rows \<or> last_width E \<noteq> num_cols
                   then pe_reset (E\<lparr>last_height := num_rows, last_width := num_cols\<rparr>) else E);
             E2 = init_cursor (cull E1 num_rows) cr cc
         in case pe_input_state E2 of
              Escape \<Rightarrow>
                Some (if ch = 91 then E2\<lparr>pe_input_state := Csi\<rparr>
                      else if ch = 79 then E2\<lparr>pe_input_state := Ss3\<rparr>
                      else (unknown_input E2)\<lparr>pe_input_state := Ground\<rparr>)
            | Csi \<Rightarrow>
                Some (if 64 \<le> ch \<and> ch \<le> 126
                      then predict_cursor_key (E2\<lparr>pe_input_state := Ground\<rparr>) ch num_cols else E2)
            | Ss3 \<Rightarrow> Some (predict_cursor_key (E2\<lparr>pe_input_state := Ground\<rparr>) ch num_cols)
            | Ground \<Rightarrow>
                if ch = 27 then Some (E2\<lparr>pe_input_state := Escape\<rparr>)
                else if ch = 127 then predict_backspace E2 now cr cc num_cols cell_at
                else if is_control ch \<or> \<not> is_ascii_graphic ch \<and> ch \<noteq> BLANK then Some (unknown_input E2)
                else predict_insert E2 now ch cr cc num_cols num_rows cell_at))"

section \<open>Validation\<close>

text \<open>What the walk over the cells accumulates besides the cells.\<close>

record vstate =
  vs_reset :: bool
  vs_confirmed :: u64
  vs_glitch :: nat
  vs_quick :: instant

definition validate_cell ::
  "engine \<Rightarrow> instant \<Rightarrow> (nat \<Rightarrow> nat \<Rightarrow> rchar) \<Rightarrow> nat \<Rightarrow> vstate \<Rightarrow> overlay_cell \<Rightarrow> vstate \<times> overlay_cell" where
  "validate_cell E now get_cell rn v cell =
     (let elapsed = as_millis (now - prediction_time cell)
      in case cell_validity cell (get_cell rn (cell_col cell)) (last_height E) (last_width E)
                (local_frame_late_acked E) of
           IncorrectOrExpired \<Rightarrow> (v\<lparr>vs_reset := True\<rparr>, cell)
         | Correct \<Rightarrow>
             (let v1 = (if tentative_until_epoch cell > vs_confirmed v
                        then v\<lparr>vs_confirmed := tentative_until_epoch cell\<rparr> else v);
                  v2 = (if elapsed < GLITCH_THRESHOLD_MS \<and> vs_glitch v1 > 0 \<and>
                           as_millis (now - vs_quick v1) \<ge> GLITCH_REPAIR_MININTERVAL_MS
                        then v1\<lparr>vs_glitch := vs_glitch v1 - 1, vs_quick := now\<rparr> else v1)
              in (v2, cell_reset cell))
         | CorrectNoCredit \<Rightarrow> (v, cell_reset cell)
         | Pending \<Rightarrow>
             (if elapsed \<ge> GLITCH_FLAG_THRESHOLD_MS then v\<lparr>vs_glitch := GLITCH_REPAIR_COUNT * 2\<rparr>
              else if elapsed \<ge> GLITCH_THRESHOLD_MS \<and> vs_glitch v < GLITCH_REPAIR_COUNT
              then v\<lparr>vs_glitch := GLITCH_REPAIR_COUNT\<rparr> else v,
              cell)
         | Inactive \<Rightarrow> (v, cell))"

fun validate_cells ::
  "engine \<Rightarrow> instant \<Rightarrow> (nat \<Rightarrow> nat \<Rightarrow> rchar) \<Rightarrow> nat \<Rightarrow> vstate \<Rightarrow> overlay_cell list \<Rightarrow>
     vstate \<times> overlay_cell list" where
  "validate_cells E now get_cell rn v [] = (v, [])"
| "validate_cells E now get_cell rn v (c # cs) =
     (let (v1, c') = validate_cell E now get_cell rn v c;
          (v2, cs') = validate_cells E now get_cell rn v1 cs
      in (v2, c' # cs'))"

fun validate_rows ::
  "engine \<Rightarrow> instant \<Rightarrow> (nat \<Rightarrow> nat \<Rightarrow> rchar) \<Rightarrow> vstate \<Rightarrow> overlay \<Rightarrow> vstate \<times> overlay" where
  "validate_rows E now get_cell v [] = (v, [])"
| "validate_rows E now get_cell v (r # rs) =
     (let (v1, cs) = validate_cells E now get_cell (row_num r) v (row_cells r);
          (v2, rs') = validate_rows E now get_cell v1 rs
      in (v2, r\<lparr>row_cells := cs\<rparr> # rs'))"

definition validate_predictions ::
  "engine \<Rightarrow> instant \<Rightarrow> (nat \<Rightarrow> nat \<Rightarrow> rchar) \<Rightarrow> nat \<Rightarrow> nat \<Rightarrow> engine" where
  "validate_predictions E now get_cell cr cc =
     (let (v, ov) = validate_rows E now get_cell
            \<lparr>vs_reset = False, vs_confirmed = confirmed_epoch E, vs_glitch = glitch_trigger E,
             vs_quick = last_quick_confirmation E\<rparr> (pe_overlay E);
          check = (\<lambda>c. cursor_validity c cr cc (last_height E) (last_width E) (local_frame_late_acked E));
          reset = (vs_reset v \<or>
                   pe_cursors E \<noteq> [] \<and> cursor_active (last (pe_cursors E)) \<and>
                   check (last (pe_cursors E)) = IncorrectOrExpired);
          E1 = E\<lparr>pe_overlay := ov, glitch_trigger := vs_glitch v, last_quick_confirmation := vs_quick v,
                 confirmed_epoch := vs_confirmed v,
                 pe_cursors := filter (\<lambda>c. check c = Pending) (pe_cursors E)\<rparr>
      in if reset then pe_reset E1 else E1)"

end
