(* ===== verification/Frame.thy ===== *)
theory Frame
  imports Prediction Display
begin

text \<open>
  \<open>crates/morsh-client/src/frame.rs\<close>: predictions folded into the frame that is about to be painted,
  and the painting of the difference from what the user is looking at.
\<close>

definition as_u16 :: "nat \<Rightarrow> nat" where
  "as_u16 n = n mod 65536"

definition overlay_cell_onto ::
  "bool \<Rightarrow> u64 \<Rightarrow> u64 \<Rightarrow> nat \<Rightarrow> nat \<Rightarrow> overlay_cell \<Rightarrow> screen_snapshot \<Rightarrow> screen_snapshot" where
  "overlay_cell_onto flagging late_acked confirmed ncols rn c S =
     (if \<not> cell_active c \<or> is_tentative c confirmed \<or> cell_col c + 1 \<ge> ncols then S
      else
        (let pending = (late_acked < expiration_frame c)
         in cell_mut S (as_u16 (cell_col c)) (as_u16 rn)
              (\<lambda>target.
                 if cell_unknown c then
                   (if flagging \<and> pending
                    then target\<lparr>cell_sgr := (cell_sgr target)\<lparr>underline := True\<rparr>\<rparr> else target)
                 else
                   (let t = target\<lparr>cell_text := [replacement c], wide := False, spacer := False\<rparr>
                    in if flagging \<and> pending
                       then t\<lparr>cell_sgr := (cell_sgr t)\<lparr>underline := True\<rparr>\<rparr> else t))))"

definition overlay_row_onto ::
  "bool \<Rightarrow> u64 \<Rightarrow> u64 \<Rightarrow> nat \<Rightarrow> nat \<Rightarrow> overlay_row \<Rightarrow> screen_snapshot \<Rightarrow> screen_snapshot" where
  "overlay_row_onto flagging late_acked confirmed ncols nrows r S =
     (if row_num r \<ge> nrows then S
      else fold (overlay_cell_onto flagging late_acked confirmed ncols (row_num r)) (row_cells r) S)"

definition apply_overlay :: "screen_snapshot \<Rightarrow> engine \<Rightarrow> screen_snapshot" where
  "apply_overlay S E =
     (if \<not> should_display E then S
      else
        (let ncols = cols S; nrows = rows_count S;
             S1 = fold (overlay_row_onto (pe_flagging E) (local_frame_late_acked E) (confirmed_epoch E)
                          ncols nrows) (pe_overlay E) S
         in case display_cursor E of
              Some (row, col) \<Rightarrow>
                if row < nrows \<and> col < ncols
                then S1\<lparr>cursor_y := as_u16 row, cursor_x := as_u16 col\<rparr> else S1
            | None \<Rightarrow> S1))"

text \<open>
  \<open>latest\<close> is the snapshot of the newest state received from the server. The result is what is
  written to the user's terminal, and the new local frame buffer.
\<close>

definition output_new_frame ::
  "screen_snapshot \<Rightarrow> engine \<Rightarrow> screen_snapshot \<Rightarrow> vt list \<times> screen_snapshot" where
  "output_new_frame latest E local =
     (let target = apply_overlay latest E;
          d = display_diff local target;
          out = (if d = [] then []
                 else if grid local \<noteq> grid target then
                   [Mode 2026 True, Mode 25 False] @ d
                   @ (if cursor_visible target then [Mode 25 True] else []) @ [Mode 2026 False]
                 else d)
      in (out, target))"

end
