(* ===== verification/Prediction_Laws.thy ===== *)
theory Prediction_Laws
  imports Frame
begin

text \<open>
  The laws of the prediction engine: its overlay stays well formed, a keystroke edits one row of the
  overlay the way a line editor would, and only touches cells of the current epoch.
\<close>

section \<open>Reading the overlay\<close>

definition ocell :: "overlay \<Rightarrow> nat \<Rightarrow> nat \<Rightarrow> overlay_cell option" where
  "ocell ov rn i = (case get_row ov rn of None \<Rightarrow> None | Some r \<Rightarrow> vec_get i (row_cells r))"

text \<open>
  What a cell stands for over the character the server has there: \<open>None\<close> is a prediction that
  something will be there which the engine does not know.
\<close>

definition vis :: "rchar \<Rightarrow> overlay_cell \<Rightarrow> rchar option" where
  "vis actual c = (if \<not> cell_active c then Some actual
     else if cell_unknown c then None else Some (replacement c))"

definition shown :: "overlay \<Rightarrow> (nat \<Rightarrow> nat \<Rightarrow> rchar) \<Rightarrow> nat \<Rightarrow> nat \<Rightarrow> rchar option" where
  "shown ov cell_at rn i =
     (case ocell ov rn i of None \<Rightarrow> Some (cell_at rn i) | Some c \<Rightarrow> vis (cell_at rn i) c)"

text \<open>From \<open>ov\<close> to \<open>ov'\<close> no prediction of an epoch before \<open>e\<close> was added.\<close>

definition quiet :: "u64 \<Rightarrow> overlay \<Rightarrow> overlay \<Rightarrow> bool" where
  "quiet e ov ov' \<longleftrightarrow> (\<forall>rn i c. ocell ov' rn i = Some c \<and> cell_active c \<and> tentative_until_epoch c < e
     \<longrightarrow> ocell ov rn i = Some c)"

lemma quiet_refl [simp]: "quiet e ov ov"
  by (simp add: quiet_def)

lemma quiet_trans: "quiet e a b \<Longrightarrow> quiet e b c \<Longrightarrow> quiet e a c"
  unfolding quiet_def by blast

lemma quiet_empty [simp]: "quiet e ov overlay_new"
  by (simp add: quiet_def ocell_def overlay_new_def)

lemma get_row_filter:
  "get_row (filter (\<lambda>r. P (row_num r)) ov) n = (if P n then get_row ov n else None)"
  by (induction ov) auto

lemma ocell_prune: "ocell (overlay_prune ov h) rn i = (if rn < h then ocell ov rn i else None)"
  using get_row_filter [of "\<lambda>n. n < h"] by (simp add: ocell_def overlay_prune_def)

lemma quiet_prune: "quiet e ov (overlay_prune ov h)"
  by (simp add: quiet_def ocell_prune)

lemma prune_new [simp]: "overlay_prune overlay_new h = overlay_new"
  by (simp add: overlay_prune_def overlay_new_def)

lemma overlay_new_ok [simp]: "overlay_ok w overlay_new"
  by (simp add: overlay_ok_def overlay_new_def)

section \<open>Editing one row\<close>

lemma made_cell:
  assumes "overlay_ok w ov" and "get_or_make_row now ov n w ep = (r, ov')" and "i < w"
  shows "ocell ov n i = Some (row_cells r ! i) \<or> ocell ov n i = None \<and> \<not> cell_active (row_cells r ! i)"
proof (cases "get_row ov n")
  case None
  then have "r = row_new now n w ep" using assms(2) by (simp add: get_or_make_row_def Let_def)
  then show ?thesis using None assms(3) by (simp add: ocell_def row_new_def cell_new_def)
next
  case (Some r')
  then have "row_ok w r" "r' = r" using assms get_row_Some [OF Some]
    by (auto simp: get_or_make_row_def overlay_ok_def)
  then show ?thesis using Some assms(3) by (simp add: ocell_def vec_get_def row_ok_def)
qed

lemma made_other_rows:
  assumes "overlay_ok w ov" and "get_or_make_row now ov n w ep = (r, ov')" and "rn \<noteq> n"
  shows "get_row ov' rn = get_row ov rn"
  using assms rows.get_put_other [of ov rn "row_new now n w ep"]
  by (auto simp: get_or_make_row_def overlay_ok_def Let_def row_new_def split: option.splits)

lemma made_vis:
  assumes "overlay_ok w ov" and "get_or_make_row now ov n w ep = (r, ov')" and "i < w"
  shows "vis (cell_at n i) (row_cells r ! i) = shown ov cell_at n i"
  using made_cell [OF assms] by (auto simp: shown_def vis_def)

text \<open>
  What the four edits of a row have in common: they keep the width of the row and the columns of its
  cells, and a cell they change belongs to the current epoch afterwards.
\<close>

locale row_editor =
  fixes f :: "overlay_cell list \<Rightarrow> overlay_cell list" and e :: u64
  assumes edit_length: "length (f cs) = length cs"
    and edit_col: "i < length cs \<Longrightarrow> cell_col (f cs ! i) = cell_col (cs ! i)"
    and edit_epoch: "i < length cs \<Longrightarrow> f cs ! i = cs ! i \<or> tentative_until_epoch (f cs ! i) = e"
begin

definition edited :: "overlay \<Rightarrow> overlay_row \<Rightarrow> overlay" where
  "edited ov r = put_row ov (r\<lparr>row_cells := f (row_cells r)\<rparr>)"

lemma edited_ok:
  assumes "overlay_ok w ov" and "get_or_make_row now ov n w ep = (r, ov')"
  shows "overlay_ok w (edited ov' r)"
proof -
  have "row_ok w (r\<lparr>row_cells := f (row_cells r)\<rparr>)"
    using get_or_make_row_ok [OF assms] by (simp add: row_ok_def edit_length edit_col)
  then show ?thesis using overlay_ok_put get_or_make_row_ok [OF assms] by (simp add: edited_def)
qed

lemma edited_cell:
  assumes "overlay_ok w ov" and "get_or_make_row now ov n w ep = (r, ov')"
  shows "ocell (edited ov' r) rn i =
     (if rn = n then (if i < w then Some (f (row_cells r) ! i) else None) else ocell ov rn i)"
proof -
  have ok: "overlay_ok w ov'" "row_ok w r" "row_num r = n"
    using get_or_make_row_ok [OF assms] by auto
  then have "get_row (edited ov' r) rn =
      (if rn = n then Some (r\<lparr>row_cells := f (row_cells r)\<rparr>) else get_row ov rn)"
    using made_other_rows [OF assms] rows.get_put [of ov' _ rn] by (simp add: overlay_ok_def edited_def)
  then show ?thesis using ok by (simp add: ocell_def vec_get_def edit_length row_ok_def)
qed

lemma edited_quiet:
  assumes "overlay_ok w ov" and "get_or_make_row now ov n w ep = (r, ov')" and "d \<le> e"
  shows "quiet d ov (edited ov' r)"
  unfolding quiet_def
proof (intro allI impI, elim conjE)
  fix rn i c
  assume c: "ocell (edited ov' r) rn i = Some c" "cell_active c" "tentative_until_epoch c < d"
  show "ocell ov rn i = Some c"
  proof (cases "rn = n")
    case True
    then have i: "i < w" "c = f (row_cells r) ! i"
      using c(1) by (auto simp: edited_cell [OF assms(1,2)] split: if_splits)
    then have "c = row_cells r ! i"
      using edit_epoch [of i "row_cells r"] get_or_make_row_ok [OF assms(1,2)] c(3) assms(3)
      by (auto simp: row_ok_def)
    then show ?thesis using made_cell [OF assms(1,2) i(1)] c(2) True by auto
  qed (use c in \<open>simp add: edited_cell [OF assms(1,2)]\<close>)
qed

lemma edited_shown:
  assumes "overlay_ok w ov" and "get_or_make_row now ov n w ep = (r, ov')" and "i < w"
  shows "shown (edited ov' r) cell_at n i = vis (cell_at n i) (f (row_cells r) ! i)"
  by (simp add: shown_def edited_cell [OF assms(1,2)] assms(3))

lemma edited_shown_other:
  assumes "overlay_ok w ov" and "get_or_make_row now ov n w ep = (r, ov')" and "rn \<noteq> n"
  shows "shown (edited ov' r) cell_at rn i = shown ov cell_at rn i"
  by (simp add: shown_def edited_cell [OF assms(1,2)] assms(3))

end

lemma predict_cell_simps [simp]:
  "cell_col (predict_cell e fr now c) = cell_col c" "cell_active (predict_cell e fr now c)"
  "tentative_until_epoch (predict_cell e fr now c) = e"
  by (simp_all add: predict_cell_def cell_expire_def reset_with_orig_def cell_reset_def)

lemma take_over_simps [simp]:
  "cell_col (take_over c a p) = cell_col p"
  "cell_active (take_over c a p) = cell_active p"
  "tentative_until_epoch (take_over c a p) = tentative_until_epoch p"
  by (simp_all add: take_over_def)

lemma vis_take_over: "cell_active p \<Longrightarrow> vis x (take_over c a p) = vis a c"
  by (simp add: vis_def take_over_def)

interpretation blank: row_editor "blank_cells epoch frame now" epoch for epoch frame now
  by unfold_locales (auto simp: blank_cells_def cell_expire_def)

lemma nth_update_read: "i < length xs \<Longrightarrow> xs[k := x] ! i = (if k = i then x else xs ! i)"
  by (cases "k = i") auto

interpretation clear: row_editor "clear_cell epoch frame now k" epoch for epoch frame now k
  by unfold_locales (auto simp: clear_cell_def nth_update_read)

interpretation left: row_editor "shift_left epoch frame now cr k w cell_at" epoch
  for epoch frame now cr k w cell_at
  by unfold_locales (auto simp: shift_left_def)

interpretation right: row_editor "shift_right epoch frame now ch cr cc w m cell_at" epoch
  for epoch frame now ch cr cc w m cell_at
  by unfold_locales (auto simp: shift_right_def)

lemmas edited_defs = blank.edited_def clear.edited_def left.edited_def right.edited_def

section \<open>Keystrokes\<close>

lemma on_last_simps [simp]:
  "pe_overlay (on_last f E) = pe_overlay E" "prediction_epoch (on_last f E) = prediction_epoch E"
  "confirmed_epoch (on_last f E) = confirmed_epoch E" "last_width (on_last f E) = last_width E"
  "last_height (on_last f E) = last_height E" "local_frame_sent (on_last f E) = local_frame_sent E"
  "predict_overwrite (on_last f E) = predict_overwrite E" "glitch_trigger (on_last f E) = glitch_trigger E"
  "pe_preference (on_last f E) = pe_preference E" "pe_input_state (on_last f E) = pe_input_state E"
  by (simp_all add: on_last_def)

lemma set_on_last: "set (pe_cursors (on_last f E)) \<subseteq> set (pe_cursors E) \<union> f ` set (pe_cursors E)"
  by (auto simp: on_last_def dest: in_set_butlastD)

lemma last_on_last: "pe_cursors E \<noteq> [] \<Longrightarrow>
    pe_cursors (on_last f E) \<noteq> [] \<and> last (pe_cursors (on_last f E)) = f (last (pe_cursors E))"
  by (simp add: on_last_def)

text \<open>The invariant: a well-formed overlay, and every predicted cursor is active.\<close>

definition engine_ok :: "engine \<Rightarrow> bool" where
  "engine_ok E \<longleftrightarrow> overlay_ok (last_width E) (pe_overlay E) \<and> (\<forall>c\<in>set (pe_cursors E). cursor_active c)"

text \<open>
  What keystrokes do, seen from an epoch \<open>e\<close>: the invariant holds, nothing of an earlier epoch is
  added, what is confirmed stays, and the epoch counter rises by at most \<open>k\<close>.
\<close>

definition advances :: "nat \<Rightarrow> u64 \<Rightarrow> engine \<Rightarrow> engine \<Rightarrow> bool" where
  "advances k e E E' \<longleftrightarrow> engine_ok E' \<and> quiet e (pe_overlay E) (pe_overlay E')
     \<and> (\<forall>c\<in>set (pe_cursors E'). cursor_epoch c < e \<longrightarrow> (\<exists>d\<in>set (pe_cursors E). cursor_epoch d < e))
     \<and> confirmed_epoch E' = confirmed_epoch E \<and> glitch_trigger E' = glitch_trigger E
     \<and> pe_preference E' = pe_preference E
     \<and> unat (prediction_epoch E) \<le> unat (prediction_epoch E')
     \<and> unat (prediction_epoch E') \<le> unat (prediction_epoch E) + k"

lemma advances_refl: "engine_ok E \<Longrightarrow> advances 0 e E E"
  by (auto simp: advances_def)

lemma advances_trans: "advances j e A B \<Longrightarrow> advances k e B C \<Longrightarrow> advances (j + k) e A C"
  unfolding advances_def by (auto intro: quiet_trans)

lemma advances_mono: "advances j e A B \<Longrightarrow> j \<le> k \<Longrightarrow> advances k e A B"
  unfolding advances_def by auto

lemma advances_ok: "advances k e A B \<Longrightarrow> engine_ok B"
  by (simp add: advances_def)

lemma advances_epoch:
  "advances k e A B \<Longrightarrow> e \<le> prediction_epoch A \<Longrightarrow> e \<le> prediction_epoch B"
  by (simp add: advances_def word_le_nat_alt)

lemma u64_inc: "unat (x :: u64) + 1 < 2 ^ 64 \<Longrightarrow> unat (x + 1) = unat x + 1"
  by (simp add: unat_word_ariths)

lemma become_tentative_advances:
  assumes "engine_ok E" and "unat (prediction_epoch E) + 1 < 2 ^ 64"
  shows "advances 1 e E (become_tentative E)"
  using assms u64_inc [OF assms(2)] by (auto simp: advances_def become_tentative_def engine_ok_def)

lemma unknown_input_advances:
  assumes "engine_ok E" and "unat (prediction_epoch E) + 1 < 2 ^ 64"
  shows "advances 1 e E (unknown_input E)"
  using assms u64_inc [OF assms(2)]
  by (auto simp: advances_def become_tentative_def engine_ok_def unknown_input_def)

lemma pe_reset_advances:
  assumes "unat (prediction_epoch E) + 1 < 2 ^ 64"
  shows "advances 1 e E (pe_reset (E\<lparr>last_height := h, last_width := w\<rparr>))"
  using assms u64_inc [OF assms] by (auto simp: advances_def become_tentative_def engine_ok_def pe_reset_def)

lemma on_last_advances:
  assumes "engine_ok E" and "\<And>c. cursor_epoch (f c) = cursor_epoch c \<and> cursor_active (f c) = cursor_active c"
  shows "advances 0 e E (on_last f E)"
  using assms set_on_last [of f E] unfolding advances_def engine_ok_def by fastforce

lemma init_cursor_advances:
  assumes "engine_ok E" and "e \<le> prediction_epoch E"
  shows "advances 0 e E (init_cursor E cr cc)"
  using assms by (auto simp: advances_def engine_ok_def init_cursor_def cursor_new_def Let_def)

lemma cull_simps [simp]:
  "prediction_epoch (cull E h) = prediction_epoch E" "last_width (cull E h) = last_width E"
  "last_height (cull E h) = last_height E" "pe_cursors (cull E h) = pe_cursors E"
  "pe_input_state (cull E h) = pe_input_state E" "confirmed_epoch (cull E h) = confirmed_epoch E"
  "predict_overwrite (cull E h) = predict_overwrite E" "pe_preference (cull E h) = pe_preference E"
  "glitch_trigger (cull E h) = glitch_trigger E"
  "pe_overlay (cull E h) = (if pe_preference E = Never then pe_overlay E else overlay_prune (pe_overlay E) h)"
  by (simp_all add: cull_def Let_def)

lemma cull_advances: "engine_ok E \<Longrightarrow> advances 0 e E (cull E h)"
  by (auto simp: advances_def engine_ok_def quiet_prune overlay_ok_prune)

lemma init_cursor_simps [simp]:
  "prediction_epoch (init_cursor E r c) = prediction_epoch E" "last_width (init_cursor E r c) = last_width E"
  "last_height (init_cursor E r c) = last_height E" "pe_overlay (init_cursor E r c) = pe_overlay E"
  "pe_input_state (init_cursor E r c) = pe_input_state E"
  "predict_overwrite (init_cursor E r c) = predict_overwrite E" "pe_preference (init_cursor E r c) = pe_preference E"
  by (simp_all add: init_cursor_def Let_def)

lemma predict_cursor_key_advances:
  assumes "engine_ok E" and "unat (prediction_epoch E) + 1 < 2 ^ 64"
  shows "advances 1 e E (predict_cursor_key E ch w)"
proof -
  have "advances 1 e E (on_last f E)"
    if "\<And>c. cursor_epoch (f c) = cursor_epoch c \<and> cursor_active (f c) = cursor_active c" for f
    using advances_mono [OF on_last_advances [OF assms(1) that]] by simp
  then show ?thesis
    using unknown_input_advances [OF assms, of e] by (simp add: predict_cursor_key_def Let_def)
qed

text \<open>Any edit of a row of the current epoch.\<close>

context row_editor
begin

lemma edit_advances:
  assumes "engine_ok E" and "last_width E = w"
    and "get_or_make_row now (pe_overlay E) n w ep = (r, ov)" and "d \<le> e"
  shows "advances 0 d E (E\<lparr>pe_overlay := put_row ov (r\<lparr>row_cells := f (row_cells r)\<rparr>)\<rparr>)"
proof -
  have "overlay_ok w (pe_overlay E)" using assms(1,2) by (simp add: engine_ok_def)
  note e = edited_ok [OF this assms(3)] edited_quiet [OF this assms(3,4)]
  show ?thesis using e assms(1,2) by (auto simp: advances_def engine_ok_def edited_def)
qed

end

lemma newline_advances:
  assumes "engine_ok E" and "last_width E = w" and "e \<le> prediction_epoch E"
  shows "advances 0 e E (newline_carriage_return E now cr w h)"
proof -
  let ?f = "\<lambda>c. (if cursor_row c + 1 < h then c\<lparr>cursor_col := 0, cursor_row := cursor_row c + 1\<rparr>
                  else c\<lparr>cursor_col := 0\<rparr>)\<lparr>cursor_expiration := local_frame_sent E + 1\<rparr>"
  have 1: "advances 0 e E (on_last ?f E)" using assms(1) by (rule on_last_advances) simp
  obtain r ov where m: "get_or_make_row now (pe_overlay (on_last ?f E)) cr w (prediction_epoch E) = (r, ov)"
    by fastforce
  have 2: "advances 0 e (on_last ?f E) ((on_last ?f E)\<lparr>pe_overlay :=
      put_row ov (r\<lparr>row_cells := blank_cells (prediction_epoch E) (local_frame_sent E + 1) now (row_cells r)\<rparr>)\<rparr>)"
    using advances_ok [OF 1] assms(2,3) by (intro blank.edit_advances [OF _ _ m]) simp_all
  show ?thesis
    using 1 advances_trans [OF 1 2] m by (simp add: newline_carriage_return_def Let_def)
qed

text \<open>The row an operation works on, and its width.\<close>

lemma made_row_width:
  assumes "engine_ok E" and "last_width E = w" and "get_or_make_row now (pe_overlay E) n w ep = (r, ov)"
  shows "length (row_cells r) = w"
  using get_or_make_row_ok [of w "pe_overlay E" now n ep r ov] assms
  by (simp add: engine_ok_def row_ok_def)

lemma backspace_advances:
  assumes "engine_ok E" and "last_width E = w" and "e \<le> prediction_epoch E" and "cc \<le> w"
  shows "\<exists>E'. predict_backspace E now cr cc w cell_at = Some E' \<and> advances 0 e E E'"
proof (cases "cc = 0")
  case True
  then show ?thesis using advances_refl [OF assms(1)] by (simp add: predict_backspace_def)
next
  case False
  let ?fr = "local_frame_sent E + 1" and ?ep = "prediction_epoch E"
  let ?f = "\<lambda>c. c\<lparr>cursor_col := cc - 1, cursor_expiration := ?fr\<rparr>"
  let ?E = "on_last ?f E"
  have 1: "advances 0 e E ?E" using assms(1) by (rule on_last_advances) simp
  obtain r ov where m: "get_or_make_row now (pe_overlay ?E) cr w ?ep = (r, ov)" by fastforce
  have len: "length (row_cells r) = w"
    using made_row_width [OF advances_ok [OF 1] _ m] assms(2) by simp
  have "advances 0 e ?E (?E\<lparr>pe_overlay := put_row ov (r\<lparr>row_cells := clear_cell ?ep ?fr now (cc - 1) (row_cells r)\<rparr>)\<rparr>)"
    using advances_ok [OF 1] assms(2,3) by (intro clear.edit_advances [OF _ _ m]) simp_all
  moreover have "advances 0 e ?E (?E\<lparr>pe_overlay :=
      put_row ov (r\<lparr>row_cells := shift_left ?ep ?fr now cr (cc - 1) w cell_at (row_cells r)\<rparr>)\<rparr>)"
    using advances_ok [OF 1] assms(2,3) by (intro left.edit_advances [OF _ _ m]) simp_all
  ultimately show ?thesis
    using False m len assms(4) advances_trans [OF 1] by (auto simp: predict_backspace_def Let_def)
qed

lemma become_tentative_simps [simp]:
  "pe_overlay (become_tentative E) = pe_overlay E" "last_width (become_tentative E) = last_width E"
  "last_height (become_tentative E) = last_height E" "predict_overwrite (become_tentative E) = predict_overwrite E"
  "local_frame_sent (become_tentative E) = local_frame_sent E"
  by (simp_all add: become_tentative_def)

lemma insert_advances:
  assumes "engine_ok E" and "last_width E = w" and "e \<le> prediction_epoch E" and "cc < w"
    and room: "unat (prediction_epoch E) + 2 < 2 ^ 64"
  shows "\<exists>E'. predict_insert E now ch cr cc w h cell_at = Some E' \<and> advances 2 e E E'"
proof -
  define E0 where "E0 = (if cc + 1 \<ge> w then become_tentative E else E)"
  let ?m = "if predict_overwrite E0 then cc else w - 1" and ?fr = "local_frame_sent E0 + 1"
    and ?ep = "prediction_epoch E0"
  have 0: "advances 1 e E E0"
    using become_tentative_advances [OF assms(1), of e] room advances_mono [OF advances_refl [OF assms(1)]]
    by (simp add: E0_def)
  obtain r ov where m: "get_or_make_row now (pe_overlay E0) cr w ?ep = (r, ov)" by fastforce
  have w0: "last_width E0 = w" and e0: "e \<le> ?ep"
    using assms(2) advances_epoch [OF 0 assms(3)] by (simp_all add: E0_def)
  define E1 where "E1 = E0\<lparr>pe_overlay := put_row ov
     (r\<lparr>row_cells := shift_right ?ep ?fr now ch cr cc w ?m cell_at (row_cells r)\<rparr>)\<rparr>"
  have 1: "advances 0 e E0 E1"
    unfolding E1_def by (rule right.edit_advances [OF advances_ok [OF 0] w0 m e0])
  note 01 = advances_trans [OF 0 1]
  have len: "length (row_cells r) = w" by (rule made_row_width [OF advances_ok [OF 0] w0 m])
  show ?thesis
  proof (cases "cc + 1 < w")
    case True
    have "advances 0 e E1 (on_last (\<lambda>c. c\<lparr>cursor_col := cc + 1, cursor_expiration := ?fr\<rparr>) E1)"
      using advances_ok [OF 1] by (rule on_last_advances) simp
    then have "advances 1 e E (on_last (\<lambda>c. c\<lparr>cursor_col := cc + 1, cursor_expiration := ?fr\<rparr>) E1)"
      using advances_trans [OF 01] by simp
    then show ?thesis using True m len advances_mono [of 1 e E _ 2]
      by (auto simp: predict_insert_def E1_def E0_def Let_def)
  next
    case False
    have pe: "unat (prediction_epoch E1) \<le> unat (prediction_epoch E) + 1" "e \<le> prediction_epoch E1"
      using 01 advances_epoch [OF 01 assms(3)] by (simp_all add: advances_def)
    have 2: "advances 1 e E1 (become_tentative E1)"
      using advances_ok [OF 1] pe room by (intro become_tentative_advances) simp_all
    have 3: "advances 0 e (become_tentative E1) (newline_carriage_return (become_tentative E1) now cr w h)"
      using advances_ok [OF 2] w0 advances_epoch [OF 2 pe(2)] by (intro newline_advances) (simp_all add: E1_def)
    have "advances 2 e E (newline_carriage_return (become_tentative E1) now cr w h)"
      using advances_trans [OF 01 advances_trans [OF 2 3]] by (simp add: numeral_2_eq_2)
    then show ?thesis using False m len assms(4)
      by (simp add: predict_insert_def E1_def E0_def Let_def split: if_splits)
  qed
qed

text \<open>A keystroke with the cursor on the screen never panics, and advances by at most three epochs.\<close>

definition fits :: "engine \<Rightarrow> nat \<Rightarrow> nat \<Rightarrow> engine" where
  "fits E w h = (if last_height E \<noteq> h \<or> last_width E \<noteq> w
     then pe_reset (E\<lparr>last_height := h, last_width := w\<rparr>) else E)"

lemma fits_advances:
  assumes "engine_ok E" and "unat (prediction_epoch E) + 1 < 2 ^ 64"
  shows "advances 1 e E (fits E w h)" and "last_width (fits E w h) = w"
  using pe_reset_advances [OF assms(2)] advances_mono [OF advances_refl [OF assms(1)]]
  by (auto simp: fits_def pe_reset_def become_tentative_def)

lemma engine_ok_input_state [simp]: "engine_ok (E\<lparr>pe_input_state := s\<rparr>) = engine_ok E"
  by (simp add: engine_ok_def)

lemma advances_input_state [simp]:
  "advances k e E (E'\<lparr>pe_input_state := s\<rparr>) = advances k e E E'"
  "advances k e (E\<lparr>pe_input_state := s\<rparr>) E' = advances k e E E'"
  by (simp_all add: advances_def)

text \<open>The part of \<open>new_user_byte\<close> that follows the adjustment to the screen size.\<close>

definition dispatch ::
  "engine \<Rightarrow> instant \<Rightarrow> rchar \<Rightarrow> nat \<Rightarrow> nat \<Rightarrow> nat \<Rightarrow> nat \<Rightarrow> (nat \<Rightarrow> nat \<Rightarrow> rchar) \<Rightarrow> engine option" where
  "dispatch E2 now ch cr cc w h cell_at =
     (case pe_input_state E2 of
        Escape \<Rightarrow>
          Some (if ch = 91 then E2\<lparr>pe_input_state := Csi\<rparr>
                else if ch = 79 then E2\<lparr>pe_input_state := Ss3\<rparr>
                else (unknown_input E2)\<lparr>pe_input_state := Ground\<rparr>)
      | Csi \<Rightarrow>
          Some (if 64 \<le> ch \<and> ch \<le> 126
                then predict_cursor_key (E2\<lparr>pe_input_state := Ground\<rparr>) ch w else E2)
      | Ss3 \<Rightarrow> Some (predict_cursor_key (E2\<lparr>pe_input_state := Ground\<rparr>) ch w)
      | Ground \<Rightarrow>
          if ch = 27 then Some (E2\<lparr>pe_input_state := Escape\<rparr>)
          else if ch = 127 then predict_backspace E2 now cr cc w cell_at
          else if is_control ch \<or> \<not> is_ascii_graphic ch \<and> ch \<noteq> BLANK then Some (unknown_input E2)
          else predict_insert E2 now ch cr cc w h cell_at)"

lemma new_user_byte_dispatch:
  "pe_preference E \<noteq> Never \<Longrightarrow> new_user_byte E now ch cr cc w h cell_at =
     dispatch (init_cursor (cull (fits E w h) h) cr cc) now ch cr cc w h cell_at"
  unfolding new_user_byte_def dispatch_def fits_def Let_def by (simp only: if_False)

lemma key_advances:
  assumes ok: "engine_ok E" and e: "e \<le> prediction_epoch E" and cc: "cc < w"
    and room: "unat (prediction_epoch E) + 3 < 2 ^ 64"
  shows "\<exists>E'. new_user_byte E now ch cr cc w h cell_at = Some E' \<and> advances 3 e E E'"
proof (cases "pe_preference E = Never")
  case True
  then show ?thesis
    using advances_mono [OF advances_refl [OF ok], of 3] by (simp add: new_user_byte_def)
next
  case False
  define E2 where "E2 = init_cursor (cull (fits E w h) h) cr cc"
  have 1: "advances 1 e E (fits E w h)" using ok room by (intro fits_advances) simp_all
  have 2: "advances 0 e (fits E w h) (cull (fits E w h) h)" by (rule cull_advances [OF advances_ok [OF 1]])
  have 3: "advances 0 e (cull (fits E w h) h) E2"
    unfolding E2_def using advances_ok [OF 2] advances_epoch [OF 1 e] by (intro init_cursor_advances) simp_all
  have adv: "advances 1 e E E2"
    using advances_trans [OF 1 advances_trans [OF 2 3]] by simp
  have w2: "last_width E2 = w" using fits_advances(2) [OF ok] room by (simp add: E2_def)
  have pe: "unat (prediction_epoch E2) \<le> unat (prediction_epoch E) + 1"
    using adv by (simp add: advances_def)
  note ok2 = advances_ok [OF adv] and e2 = advances_epoch [OF adv e]
  have step: "advances 3 e E E'" if "advances k e E2 E'" "k \<le> 2" for k E'
    using advances_mono [OF advances_trans [OF adv that(1)]] that(2) by simp
  have same: "advances 0 e E2 E2" using ok2 by (rule advances_refl)
  have unk: "advances 1 e E2 (unknown_input E2)" using ok2 pe room by (intro unknown_input_advances) simp_all
  have key: "advances 1 e E2 (predict_cursor_key (E2\<lparr>pe_input_state := Ground\<rparr>) ch w)"
    using predict_cursor_key_advances [of "E2\<lparr>pe_input_state := Ground\<rparr>" e ch w] ok2 pe room by simp
  obtain B where bs: "predict_backspace E2 now cr cc w cell_at = Some B" "advances 0 e E2 B"
    using backspace_advances [OF ok2 w2 e2 less_imp_le [OF cc]] by blast
  obtain I where ins: "predict_insert E2 now ch cr cc w h cell_at = Some I" "advances 2 e E2 I"
    using insert_advances [OF ok2 w2 e2 cc] pe room by fastforce
  have "\<exists>E'. dispatch E2 now ch cr cc w h cell_at = Some E' \<and> advances 3 e E E'"
    using bs ins step [OF same] step [OF unk] step [OF key] step [OF bs(2)] step [OF ins(2)]
    by (cases "pe_input_state E2") (simp_all add: dispatch_def)
  then show ?thesis using new_user_byte_dispatch [OF False] by (simp add: E2_def)
qed

section \<open>A line of text\<close>

text \<open>
  Inserting \<open>x\<close> at column \<open>k\<close> of a line of width \<open>w\<close>, and deleting column \<open>k\<close>, as a line editor does
  it. What falls into the last column (two columns, when deleting) is not predictable.
\<close>

definition line_insert :: "nat \<Rightarrow> nat \<Rightarrow> rchar \<Rightarrow> (nat \<Rightarrow> rchar option) \<Rightarrow> nat \<Rightarrow> rchar option" where
  "line_insert w k x line i =
     (if i < k then line i else if i = k then Some x else if i = w - 1 then None else line (i - 1))"

definition line_delete :: "nat \<Rightarrow> nat \<Rightarrow> (nat \<Rightarrow> rchar option) \<Rightarrow> nat \<Rightarrow> rchar option" where
  "line_delete w k line i = (if i < k then line i else if i + 2 < w then line (i + 1) else None)"

lemma insert_shown:
  assumes ok: "engine_ok E" "last_width E = w" and "\<not> predict_overwrite E" and cc: "cc + 1 < w"
    and run: "predict_insert E now ch cr cc w h cell_at = Some E'"
  shows "i < w \<Longrightarrow> shown (pe_overlay E') cell_at cr i = line_insert w cc ch (shown (pe_overlay E) cell_at cr) i"
    and "rn \<noteq> cr \<Longrightarrow> shown (pe_overlay E') cell_at rn j = shown (pe_overlay E) cell_at rn j"
    and "pe_cursors E \<noteq> [] \<Longrightarrow> pe_cursors E' \<noteq> [] \<and> cursor_col (last (pe_cursors E')) = cc + 1
      \<and> cursor_row (last (pe_cursors E')) = cursor_row (last (pe_cursors E))"
proof -
  let ?ep = "prediction_epoch E" and ?fr = "local_frame_sent E + 1"
  obtain r ov where m: "get_or_make_row now (pe_overlay E) cr w ?ep = (r, ov)" by fastforce
  have len: "length (row_cells r) = w" by (rule made_row_width [OF ok m])
  have oo: "overlay_ok w (pe_overlay E)" using ok by (simp add: engine_ok_def)
  have E': "E' = on_last (\<lambda>c. c\<lparr>cursor_col := cc + 1, cursor_expiration := ?fr\<rparr>)
      (E\<lparr>pe_overlay := right.edited ?ep ?fr now ch cr cc w (w - 1) cell_at ov r\<rparr>)"
    using run m len assms(3) cc by (auto simp: predict_insert_def right.edited_def Let_def split: if_splits)
  show "shown (pe_overlay E') cell_at cr i = line_insert w cc ch (shown (pe_overlay E) cell_at cr) i" if i: "i < w"
  proof -
    have "shown (pe_overlay E') cell_at cr i =
        vis (cell_at cr i) (shift_right ?ep ?fr now ch cr cc w (w - 1) cell_at (row_cells r) ! i)"
      by (simp add: E' right.edited_shown [OF oo m i])
    also have "\<dots> = line_insert w cc ch (shown (pe_overlay E) cell_at cr) i"
    proof -
      have le: "i \<le> w - 1" using i by simp
      have at: "shift_right ?ep ?fr now ch cr cc w (w - 1) cell_at (row_cells r) ! i =
          (if i = cc then (predict_cell ?ep ?fr now (row_cells r ! i))\<lparr>cell_unknown := False, replacement := ch\<rparr>
           else if i < cc then row_cells r ! i
           else if i = w - 1 then (predict_cell ?ep ?fr now (row_cells r ! i))\<lparr>cell_unknown := True\<rparr>
           else take_over (row_cells r ! (i - 1)) (cell_at cr (i - 1)) (predict_cell ?ep ?fr now (row_cells r ! i)))"
        using i len le by (simp add: shift_right_def)
      consider "i = cc" | "i < cc" | "cc < i" "i = w - 1" | "cc < i" "i \<noteq> w - 1" by linarith
      then show ?thesis
        using made_vis [OF oo m, of i cell_at] made_vis [OF oo m, of "i - 1" cell_at] i
        unfolding at by cases (simp_all add: line_insert_def vis_take_over, simp_all add: vis_def)
    qed
    finally show ?thesis .
  qed
  show "rn \<noteq> cr \<Longrightarrow> shown (pe_overlay E') cell_at rn j = shown (pe_overlay E) cell_at rn j"
    by (simp add: E' right.edited_shown_other [OF oo m])
  show "pe_cursors E \<noteq> [] \<Longrightarrow> pe_cursors E' \<noteq> [] \<and> cursor_col (last (pe_cursors E')) = cc + 1
      \<and> cursor_row (last (pe_cursors E')) = cursor_row (last (pe_cursors E))"
    by (simp add: E' on_last_def)
qed

lemma backspace_shown:
  assumes ok: "engine_ok E" "last_width E = w" and "\<not> predict_overwrite E" and cc: "0 < cc" "cc \<le> w"
    and run: "predict_backspace E now cr cc w cell_at = Some E'"
  shows "i < w \<Longrightarrow> shown (pe_overlay E') cell_at cr i = line_delete w (cc - 1) (shown (pe_overlay E) cell_at cr) i"
    and "rn \<noteq> cr \<Longrightarrow> shown (pe_overlay E') cell_at rn j = shown (pe_overlay E) cell_at rn j"
    and "pe_cursors E \<noteq> [] \<Longrightarrow> pe_cursors E' \<noteq> [] \<and> cursor_col (last (pe_cursors E')) = cc - 1
      \<and> cursor_row (last (pe_cursors E')) = cursor_row (last (pe_cursors E))"
proof -
  let ?ep = "prediction_epoch E" and ?fr = "local_frame_sent E + 1"
  obtain r ov where m: "get_or_make_row now (pe_overlay E) cr w ?ep = (r, ov)" by fastforce
  have len: "length (row_cells r) = w" by (rule made_row_width [OF ok m])
  have oo: "overlay_ok w (pe_overlay E)" using ok by (simp add: engine_ok_def)
  have E': "E' = (on_last (\<lambda>c. c\<lparr>cursor_col := cc - 1, cursor_expiration := ?fr\<rparr>) E)
      \<lparr>pe_overlay := left.edited ?ep ?fr now cr (cc - 1) w cell_at ov r\<rparr>"
    using run m len assms(3) cc by (simp add: predict_backspace_def left.edited_def Let_def)
  show "shown (pe_overlay E') cell_at cr i = line_delete w (cc - 1) (shown (pe_overlay E) cell_at cr) i" if i: "i < w"
  proof -
    have "shown (pe_overlay E') cell_at cr i =
        vis (cell_at cr i) (shift_left ?ep ?fr now cr (cc - 1) w cell_at (row_cells r) ! i)"
      by (simp add: E' left.edited_shown [OF oo m i])
    also have "\<dots> = line_delete w (cc - 1) (shown (pe_overlay E) cell_at cr) i"
      using i len made_vis [OF oo m, of i cell_at] made_vis [OF oo m, of "i + 1" cell_at]
      by (simp add: shift_left_def line_delete_def vis_take_over) (simp add: vis_def)
    finally show ?thesis .
  qed
  show "rn \<noteq> cr \<Longrightarrow> shown (pe_overlay E') cell_at rn j = shown (pe_overlay E) cell_at rn j"
    by (simp add: E' left.edited_shown_other [OF oo m])
  show "pe_cursors E \<noteq> [] \<Longrightarrow> pe_cursors E' \<noteq> [] \<and> cursor_col (last (pe_cursors E')) = cc - 1
      \<and> cursor_row (last (pe_cursors E')) = cursor_row (last (pe_cursors E))"
    by (simp add: E' on_last_def)
qed

section \<open>The engine before a keystroke is applied\<close>

text \<open>
  The client passes the predicted cursor when there is one. Then \<open>init_cursor\<close> leaves the last
  predicted cursor there.
\<close>

definition at_cursor :: "engine \<Rightarrow> nat \<Rightarrow> nat \<Rightarrow> bool" where
  "at_cursor E cr cc \<longleftrightarrow> cursor_pos E = None \<or> cursor_pos E = Some (cr, cc)"

lemma cursor_pos_ok: "engine_ok E \<Longrightarrow> cursor_pos E =
    (if pe_cursors E = [] then None
     else Some (cursor_row (last (pe_cursors E)), cursor_col (last (pe_cursors E))))"
  by (auto simp: cursor_pos_def engine_ok_def)

lemma init_cursor_at:
  assumes "engine_ok E" and "at_cursor E cr cc"
  shows "pe_cursors (init_cursor E cr cc) \<noteq> [] \<and> cursor_row (last (pe_cursors (init_cursor E cr cc))) = cr
    \<and> cursor_col (last (pe_cursors (init_cursor E cr cc))) = cc"
  using assms by (auto simp: init_cursor_def at_cursor_def cursor_pos_ok cursor_new_def Let_def)

lemma shown_prune: "rn < h \<Longrightarrow> shown (overlay_prune ov h) cell_at rn i = shown ov cell_at rn i"
  by (simp add: shown_def ocell_prune)

end
