(* ===== verification/Speculation.thy ===== *)
theory Speculation
  imports Prediction_Laws
begin

text \<open>
  The properties of speculative local echo: what a keystroke predicts, what of it the user gets to
  see, and what the server's answer does to it.
\<close>

section \<open>What is painted\<close>

text \<open>The condition under which \<open>apply_overlay\<close> looks at a cell, and what it does to the target.\<close>

definition displayed :: "engine \<Rightarrow> nat \<Rightarrow> overlay_cell \<Rightarrow> bool" where
  "displayed E ncols c \<longleftrightarrow>
     cell_active c \<and> \<not> is_tentative c (confirmed_epoch E) \<and> cell_col c + 1 < ncols"

definition paint :: "engine \<Rightarrow> overlay_cell \<Rightarrow> cell_data \<Rightarrow> cell_data" where
  "paint E c target =
     (let t = (if cell_unknown c then target
               else target\<lparr>cell_text := [replacement c], wide := False, spacer := False\<rparr>)
      in if pe_flagging E \<and> local_frame_late_acked E < expiration_frame c
         then t\<lparr>cell_sgr := (cell_sgr t)\<lparr>underline := True\<rparr>\<rparr> else t)"

lemma overlay_cell_onto_eq:
  assumes "ncols \<le> 65536" and "rn < 65536"
  shows "overlay_cell_onto (pe_flagging E) (local_frame_late_acked E) (confirmed_epoch E) ncols rn c S =
     (if displayed E ncols c then cell_mut S (cell_col c) rn (paint E c) else S)"
proof -
  have "as_u16 (cell_col c) = cell_col c" if "cell_col c + 1 < ncols" using that assms by (simp add: as_u16_def)
  moreover have "as_u16 rn = rn" using assms by (simp add: as_u16_def)
  ultimately show ?thesis
    by (auto simp: overlay_cell_onto_def displayed_def paint_def Let_def intro!: arg_cong [where f = "cell_mut S _ _"])
qed

lemma fold_pick:
  assumes "i < length cs" and "\<And>j. j < length cs \<Longrightarrow> j \<noteq> i \<Longrightarrow> \<not> P (cs ! j)" and "P (cs ! i)"
  shows "fold (\<lambda>c t. if P c then g c t else t) cs t = g (cs ! i) t"
proof -
  have idle: "fold (\<lambda>c t. if P c then g c t else t) ds t = t" if "\<forall>d\<in>set ds. \<not> P d" for ds t
    using that by (induction ds arbitrary: t) auto
  have cs: "cs = take i cs @ cs ! i # drop (Suc i) cs" using assms(1) by (simp add: id_take_nth_drop)
  have "\<forall>d\<in>set (take i cs). \<not> P d" "\<forall>d\<in>set (drop (Suc i) cs). \<not> P d"
    using assms(2) by (auto simp: in_set_conv_nth)
  then show ?thesis using assms(3) by (subst cs) (simp add: idle)
qed

lemma fold_none: "\<forall>c\<in>set cs. \<not> P c \<Longrightarrow> fold (\<lambda>c t. if P c then g c t else t) cs t = t"
  by (induction cs arbitrary: t) auto

lemma row_onto_cell:
  "snap_cell (fold (\<lambda>c T. if D c then cell_mut T (cell_col c) rn (f c) else T) cs S) x y =
     map_option (fold (\<lambda>c t. if D c \<and> cell_col c = x \<and> rn = y then f c t else t) cs) (snap_cell S x y)"
proof (induction cs arbitrary: S)
  case Nil
  then show ?case by (simp add: option.map_ident)
next
  case (Cons c cs)
  then show ?case
    by (auto simp: snap_cell_mut option.map_comp comp_def)
qed

lemma row_onto_fields:
  "cols (fold (\<lambda>c T. if D c then cell_mut T (cell_col c) rn (f c) else T) cs S) = cols S"
  "rows_count (fold (\<lambda>c T. if D c then cell_mut T (cell_col c) rn (f c) else T) cs S) = rows_count S"
  by (induction cs arbitrary: S) auto

text \<open>One row of the overlay painted onto a frame.\<close>

lemma overlay_row_onto_cell:
  assumes "row_ok w r" and "cols S \<le> 65536" and "rows_count S \<le> 65536" and "snap_ok S"
  shows "snap_cell (overlay_row_onto (pe_flagging E) (local_frame_late_acked E) (confirmed_epoch E)
            (cols S) (rows_count S) r S') x y =
    (if row_num r = y \<and> y < rows_count S \<and> x < w \<and> displayed E (cols S) (row_cells r ! x)
     then map_option (paint E (row_cells r ! x)) (snap_cell S' x y) else snap_cell S' x y)"
proof (cases "row_num r < rows_count S")
  case False
  then show ?thesis by (auto simp: overlay_row_onto_def)
next
  case True
  let ?g = "\<lambda>c t. if displayed E (cols S) c \<and> cell_col c = x \<and> row_num r = y then paint E c t else t"
  have eq: "overlay_row_onto (pe_flagging E) (local_frame_late_acked E) (confirmed_epoch E)
        (cols S) (rows_count S) r S' =
      fold (\<lambda>c T. if displayed E (cols S) c then cell_mut T (cell_col c) (row_num r) (paint E c) else T)
        (row_cells r) S'"
    using True assms(2,3) by (auto simp: overlay_row_onto_def overlay_cell_onto_eq intro!: fold_cong)
  have col: "cell_col (row_cells r ! i) = i" if "i < length (row_cells r)" for i
    using assms(1) that by (simp add: row_ok_def)
  have "fold ?g (row_cells r) t =
      (if row_num r = y \<and> x < w \<and> displayed E (cols S) (row_cells r ! x) then paint E (row_cells r ! x) t else t)" for t
  proof (cases "row_num r = y \<and> x < w \<and> displayed E (cols S) (row_cells r ! x)")
    case True
    then show ?thesis
      using assms(1) col by (subst fold_pick [of x]) (auto simp: row_ok_def)
  next
    case False
    then have "\<forall>c\<in>set (row_cells r). \<not> (displayed E (cols S) c \<and> cell_col c = x \<and> row_num r = y)"
      using assms(1) col by (auto simp: row_ok_def in_set_conv_nth)
    from fold_none [OF this] show ?thesis using False by auto
  qed
  then show ?thesis using True
    by (auto simp: eq row_onto_cell option.map_ident cong: option.map_cong)
qed


text \<open>The whole overlay.\<close>

lemma overlay_onto_cell:
  assumes "overlay_ok w ov" and "cols S \<le> 65536" and "rows_count S \<le> 65536" and "snap_ok S"
  shows "snap_cell (fold (overlay_row_onto (pe_flagging E) (local_frame_late_acked E) (confirmed_epoch E)
            (cols S) (rows_count S)) ov S') x y =
    (case ocell ov y x of
       Some c \<Rightarrow> if y < rows_count S \<and> displayed E (cols S) c
                then map_option (paint E c) (snap_cell S' x y) else snap_cell S' x y
     | None \<Rightarrow> snap_cell S' x y)"
  using assms(1)
proof (induction ov arbitrary: S')
  case Nil
  then show ?case by (simp add: ocell_def)
next
  case (Cons r ov)
  note r = overlay_row_onto_cell [of w r S E _ x y] 
  have ok: "row_ok w r" "overlay_ok w ov" using Cons.prems by (auto simp: overlay_ok_def)
  have none: "ocell ov (row_num r) x = None"
  proof -
    have "get_row ov (row_num r) \<noteq> Some r'" for r'
    proof
      assume "get_row ov (row_num r) = Some r'"
      then have "r' \<in> set ov" "row_num r' = row_num r" using get_row_Some by blast+
      then show False using Cons.prems by (force simp: overlay_ok_def)
    qed
    then have "get_row ov (row_num r) = None" by (cases "get_row ov (row_num r)") blast+
    then show ?thesis by (simp add: ocell_def)
  qed
  have here: "ocell (r # ov) y x = (if row_num r = y then (if x < w then Some (row_cells r ! x) else None) else ocell ov y x)"
    using ok(1) by (auto simp: ocell_def vec_get_def row_ok_def)
  show ?case
  proof (cases "row_num r = y")
    case True
    then have "ocell ov y x = None" using none by simp
    then show ?thesis using True by (simp add: Cons.IH [OF ok(2)] r [OF ok(1) assms(2,3,4)] here)
  next
    case False
    then show ?thesis
      by (cases "ocell ov y x") (simp_all add: Cons.IH [OF ok(2)] r [OF ok(1) assms(2,3,4)] here)
  qed
qed

lemma apply_overlay_cell:
  assumes "overlay_ok w (pe_overlay E)" and "cols S \<le> 65536" and "rows_count S \<le> 65536" and "snap_ok S"
  shows "snap_cell (apply_overlay S E) x y =
    (case ocell (pe_overlay E) y x of
       Some c \<Rightarrow> if should_display E \<and> displayed E (cols S) c
                then map_option (paint E c) (snap_cell S x y) else snap_cell S x y
     | None \<Rightarrow> snap_cell S x y)"
proof -
  have "snap_cell (apply_overlay S E) x y =
      (if should_display E then snap_cell (fold (overlay_row_onto (pe_flagging E) (local_frame_late_acked E)
         (confirmed_epoch E) (cols S) (rows_count S)) (pe_overlay E) S) x y else snap_cell S x y)"
    by (auto simp: apply_overlay_def Let_def snap_cell_def split: option.splits prod.splits)
  moreover have "snap_cell S x y = None" if "\<not> y < rows_count S" using that assms(4) by (simp add: snap_cell_ok)
  ultimately show ?thesis
    using overlay_onto_cell [OF assms, of E S x y] by (auto split: option.splits)
qed

lemma fold_cursor:
  "cursor_x (fold (overlay_row_onto b l c n m) ov S) = cursor_x S
   \<and> cursor_y (fold (overlay_row_onto b l c n m) ov S) = cursor_y S"
proof (induction ov arbitrary: S)
  case (Cons r ov)
  have "cursor_x (fold (overlay_cell_onto b l c n k) cs S) = cursor_x S
      \<and> cursor_y (fold (overlay_cell_onto b l c n k) cs S) = cursor_y S" for k cs S
    by (induction cs arbitrary: S) (simp_all add: overlay_cell_onto_def Let_def)
  then show ?case using Cons.IH by (simp add: overlay_row_onto_def)
qed simp

section \<open>Sequences of keystrokes\<close>

record keystroke =
  key_time :: instant
  key_char :: rchar
  key_row :: nat
  key_col :: nat

definition press :: "nat \<Rightarrow> nat \<Rightarrow> (nat \<Rightarrow> nat \<Rightarrow> rchar) \<Rightarrow> engine \<Rightarrow> keystroke \<Rightarrow> engine option" where
  "press w h cell_at E k = new_user_byte E (key_time k) (key_char k) (key_row k) (key_col k) w h cell_at"

fun type_keys :: "nat \<Rightarrow> nat \<Rightarrow> (nat \<Rightarrow> nat \<Rightarrow> rchar) \<Rightarrow> engine \<Rightarrow> keystroke list \<Rightarrow> engine option" where
  "type_keys w h cell_at E [] = Some E"
| "type_keys w h cell_at E (k # ks) =
     (case press w h cell_at E k of None \<Rightarrow> None | Some E' \<Rightarrow> type_keys w h cell_at E' ks)"

lemma type_keys_advances:
  assumes "engine_ok E" and "e \<le> prediction_epoch E" and "\<forall>k\<in>set ks. key_col k < w"
    and "unat (prediction_epoch E) + 3 * length ks < 2 ^ 64"
  shows "\<exists>E'. type_keys w h cell_at E ks = Some E' \<and> advances (3 * length ks) e E E'"
  using assms
proof (induction ks arbitrary: E)
  case Nil
  then show ?case by (simp add: advances_refl)
next
  case (Cons k ks)
  have cc: "key_col k < w" and room: "unat (prediction_epoch E) + 3 < 2 ^ 64" using Cons.prems by auto
  from key_advances [OF Cons.prems(1,2) cc room]
  obtain E1 where 1: "press w h cell_at E k = Some E1" "advances 3 e E E1"
    unfolding press_def by blast
  then have "unat (prediction_epoch E1) \<le> unat (prediction_epoch E) + 3" by (simp add: advances_def)
  then have "unat (prediction_epoch E1) + 3 * length ks < 2 ^ 64" using Cons.prems(4) by simp
  then obtain E2 where 2: "type_keys w h cell_at E1 ks = Some E2" "advances (3 * length ks) e E1 E2"
    using Cons.IH [OF advances_ok [OF 1(2)] advances_epoch [OF 1(2) Cons.prems(2)]] Cons.prems(3) by auto
  show ?case using 1(1) 2(1) advances_trans [OF 1(2) 2(2)] by simp
qed

section \<open>The walk over the cells\<close>

definition verdict :: "engine \<Rightarrow> (nat \<Rightarrow> nat \<Rightarrow> rchar) \<Rightarrow> nat \<Rightarrow> overlay_cell \<Rightarrow> validity" where
  "verdict E get_cell rn c = cell_validity c (get_cell rn (cell_col c)) (last_height E) (last_width E)
     (local_frame_late_acked E)"

definition settle :: "engine \<Rightarrow> (nat \<Rightarrow> nat \<Rightarrow> rchar) \<Rightarrow> nat \<Rightarrow> overlay_cell \<Rightarrow> overlay_cell" where
  "settle E get_cell rn c =
     (if verdict E get_cell rn c \<in> {Correct, CorrectNoCredit} then cell_reset c else c)"

text \<open>What one step, and then the whole walk, does to the accumulated values.\<close>

definition walked :: "bool \<Rightarrow> u64 set \<Rightarrow> vstate \<Rightarrow> vstate \<Rightarrow> bool" where
  "walked wrong epochs v v' \<longleftrightarrow>
     vs_reset v' = (vs_reset v \<or> wrong) \<and> vs_confirmed v \<le> vs_confirmed v'
     \<and> vs_confirmed v' \<in> insert (vs_confirmed v) epochs \<and> (\<forall>e\<in>epochs. e \<le> vs_confirmed v')
     \<and> vs_glitch v' \<le> max (vs_glitch v) (2 * GLITCH_REPAIR_COUNT)"

lemma walked_trans:
  assumes "walked a A u v" and "walked b B v w"
  shows "walked (a \<or> b) (A \<union> B) u w"
proof -
  note uv = assms(1) [unfolded walked_def] and vw = assms(2) [unfolded walked_def]
  have "vs_confirmed u \<le> vs_confirmed w" using uv vw order_trans by blast
  moreover have "\<forall>e\<in>A \<union> B. e \<le> vs_confirmed w" using uv vw order_trans by blast
  moreover have "vs_glitch w \<le> max (vs_glitch u) (2 * GLITCH_REPAIR_COUNT)" using uv vw by linarith
  moreover have "vs_reset w = (vs_reset u \<or> a \<or> b)" "vs_confirmed w \<in> insert (vs_confirmed u) (A \<union> B)"
    using uv vw by auto
  ultimately show ?thesis unfolding walked_def by blast
qed

lemma walked_refl: "walked False {} v v"
  by (simp add: walked_def)

definition credits :: "engine \<Rightarrow> (nat \<Rightarrow> nat \<Rightarrow> rchar) \<Rightarrow> nat \<Rightarrow> overlay_cell list \<Rightarrow> u64 set" where
  "credits E get_cell rn cs = tentative_until_epoch ` {c \<in> set cs. verdict E get_cell rn c = Correct}"

lemma validate_cell_walked:
  "snd (validate_cell E now get_cell rn v c) = settle E get_cell rn c"
  "walked (verdict E get_cell rn c = IncorrectOrExpired) (credits E get_cell rn [c]) v
     (fst (validate_cell E now get_cell rn v c))"
proof -
  obtain k where k: "cell_validity c (get_cell rn (cell_col c)) (last_height E) (last_width E)
      (local_frame_late_acked E) = k" by blast
  show "snd (validate_cell E now get_cell rn v c) = settle E get_cell rn c"
    by (cases k) (simp_all add: validate_cell_def settle_def verdict_def k Let_def)
  have "credits E get_cell rn [c] = (if k = Correct then {tentative_until_epoch c} else {})"
    by (auto simp: credits_def verdict_def k)
  then show "walked (verdict E get_cell rn c = IncorrectOrExpired) (credits E get_cell rn [c]) v
     (fst (validate_cell E now get_cell rn v c))"
    by (cases k) (auto simp: validate_cell_def walked_def verdict_def k Let_def GLITCH_REPAIR_COUNT_def)
qed

lemma validate_cells_walked:
  "snd (validate_cells E now get_cell rn v cs) = map (settle E get_cell rn) cs \<and>
   walked (\<exists>c\<in>set cs. verdict E get_cell rn c = IncorrectOrExpired) (credits E get_cell rn cs) v
     (fst (validate_cells E now get_cell rn v cs))"
proof (induction cs arbitrary: v)
  case Nil
  then show ?case by (simp add: walked_refl credits_def)
next
  case (Cons c cs)
  obtain v1 c' where 1: "validate_cell E now get_cell rn v c = (v1, c')" by fastforce
  obtain v2 cs' where 2: "validate_cells E now get_cell rn v1 cs = (v2, cs')" by fastforce
  have "credits E get_cell rn (c # cs) = credits E get_cell rn [c] \<union> credits E get_cell rn cs"
    by (auto simp: credits_def)
  then show ?case
    using 1 2 Cons.IH [of v1] validate_cell_walked [where v = v and c = c and E = E and now = now
        and get_cell = get_cell and rn = rn] walked_trans
    by fastforce
qed

lemma validate_rows_walked:
  "snd (validate_rows E now get_cell v ov) =
     map (\<lambda>r. r\<lparr>row_cells := map (settle E get_cell (row_num r)) (row_cells r)\<rparr>) ov \<and>
   walked (\<exists>r\<in>set ov. \<exists>c\<in>set (row_cells r). verdict E get_cell (row_num r) c = IncorrectOrExpired)
     (\<Union>r\<in>set ov. credits E get_cell (row_num r) (row_cells r)) v
     (fst (validate_rows E now get_cell v ov))"
proof (induction ov arbitrary: v)
  case Nil
  then show ?case by (simp add: walked_refl)
next
  case (Cons r ov)
  obtain v1 cs where 1: "validate_cells E now get_cell (row_num r) v (row_cells r) = (v1, cs)" by fastforce
  obtain v2 ov' where 2: "validate_rows E now get_cell v1 ov = (v2, ov')" by fastforce
  show ?case
    using 1 2 Cons.IH [of v1] validate_cells_walked [where v = v and cs = "row_cells r" and E = E and now = now
        and get_cell = get_cell and rn = "row_num r"] walked_trans
    by fastforce
qed

definition cursor_verdict :: "engine \<Rightarrow> nat \<Rightarrow> nat \<Rightarrow> cursor_move \<Rightarrow> validity" where
  "cursor_verdict E cr cc c =
     cursor_validity c cr cc (last_height E) (last_width E) (local_frame_late_acked E)"

text \<open>The server's state contradicts a predicted cell or the predicted cursor.\<close>

definition refuted :: "engine \<Rightarrow> (nat \<Rightarrow> nat \<Rightarrow> rchar) \<Rightarrow> nat \<Rightarrow> nat \<Rightarrow> bool" where
  "refuted E get_cell cr cc \<longleftrightarrow>
     (\<exists>r\<in>set (pe_overlay E). \<exists>c\<in>set (row_cells r). verdict E get_cell (row_num r) c = IncorrectOrExpired)
     \<or> pe_cursors E \<noteq> [] \<and> cursor_verdict E cr cc (last (pe_cursors E)) = IncorrectOrExpired"

lemma validate_facts:
  fixes E now get_cell cr cc
  defines "E' \<equiv> validate_predictions E now get_cell cr cc"
  defines "epochs \<equiv> \<Union>r\<in>set (pe_overlay E). credits E get_cell (row_num r) (row_cells r)"
  shows "pe_overlay E' = (if refuted E get_cell cr cc then []
       else map (\<lambda>r. r\<lparr>row_cells := map (settle E get_cell (row_num r)) (row_cells r)\<rparr>) (pe_overlay E))"
    and "pe_cursors E' = (if refuted E get_cell cr cc then []
       else filter (\<lambda>c. cursor_verdict E cr cc c = Pending) (pe_cursors E))"
    and "prediction_epoch E' = (if refuted E get_cell cr cc then prediction_epoch E + 1 else prediction_epoch E)"
    and "last_width E' = last_width E" "last_height E' = last_height E"
    and "local_frame_late_acked E' = local_frame_late_acked E"
    and "confirmed_epoch E \<le> confirmed_epoch E'" "confirmed_epoch E' \<in> insert (confirmed_epoch E) epochs"
    and "\<forall>e\<in>epochs. e \<le> confirmed_epoch E'"
    and "glitch_trigger E' \<le> max (glitch_trigger E) (2 * GLITCH_REPAIR_COUNT)"
proof -
  let ?v = "\<lparr>vs_reset = False, vs_confirmed = confirmed_epoch E, vs_glitch = glitch_trigger E,
             vs_quick = last_quick_confirmation E\<rparr>"
  obtain v ov where w: "validate_rows E now get_cell ?v (pe_overlay E) = (v, ov)" by fastforce
  note walk = validate_rows_walked [of E now get_cell ?v "pe_overlay E", unfolded w, simplified]
  have inactive: "cursor_active c" if "cursor_verdict E cr cc c = IncorrectOrExpired" for c
    using that by (auto simp: cursor_verdict_def cursor_validity_def split: if_splits)
  have reset: "(vs_reset v \<or> pe_cursors E \<noteq> [] \<and> cursor_active (last (pe_cursors E)) \<and>
      cursor_verdict E cr cc (last (pe_cursors E)) = IncorrectOrExpired) = refuted E get_cell cr cc"
    using walk inactive unfolding refuted_def walked_def by auto
  have E': "E' = (let E1 = E\<lparr>pe_overlay := ov, glitch_trigger := vs_glitch v, last_quick_confirmation := vs_quick v,
                 confirmed_epoch := vs_confirmed v,
                 pe_cursors := filter (\<lambda>c. cursor_verdict E cr cc c = Pending) (pe_cursors E)\<rparr>
      in if refuted E get_cell cr cc then pe_reset E1 else E1)"
    unfolding E'_def validate_predictions_def w reset [symmetric] cursor_verdict_def Let_def by simp
  show "pe_overlay E' = (if refuted E get_cell cr cc then []
       else map (\<lambda>r. r\<lparr>row_cells := map (settle E get_cell (row_num r)) (row_cells r)\<rparr>) (pe_overlay E))"
    "pe_cursors E' = (if refuted E get_cell cr cc then []
       else filter (\<lambda>c. cursor_verdict E cr cc c = Pending) (pe_cursors E))"
    "prediction_epoch E' = (if refuted E get_cell cr cc then prediction_epoch E + 1 else prediction_epoch E)"
    "last_width E' = last_width E" "last_height E' = last_height E"
    "local_frame_late_acked E' = local_frame_late_acked E"
    using walk by (simp_all add: E' Let_def pe_reset_def become_tentative_def overlay_new_def)
  have "confirmed_epoch E' = vs_confirmed v" "glitch_trigger E' = vs_glitch v"
    by (simp_all add: E' Let_def pe_reset_def become_tentative_def)
  then show "confirmed_epoch E \<le> confirmed_epoch E'" "confirmed_epoch E' \<in> insert (confirmed_epoch E) epochs"
    "\<forall>e\<in>epochs. e \<le> confirmed_epoch E'" "glitch_trigger E' \<le> max (glitch_trigger E) (2 * GLITCH_REPAIR_COUNT)"
    using walk by (simp_all add: walked_def epochs_def)
qed

lemma settle_col [simp]: "cell_col (settle E get_cell rn c) = cell_col c"
  by (simp add: settle_def)

lemma validate_ok:
  assumes "engine_ok E"
  shows "engine_ok (validate_predictions E now get_cell cr cc)"
proof -
  have "overlay_ok (last_width E)
      (map (\<lambda>r. r\<lparr>row_cells := map (settle E get_cell (row_num r)) (row_cells r)\<rparr>) (pe_overlay E))"
    using assms by (intro overlay_ok_map) (auto simp: engine_ok_def row_ok_def)
  then show ?thesis
    using assms by (auto simp: engine_ok_def validate_facts overlay_ok_def)
qed

lemma verdict_Correct:
  "verdict E get_cell rn c = Correct \<Longrightarrow> cell_active c \<and> \<not> cell_unknown c
     \<and> get_cell rn (cell_col c) = replacement c \<and> replacement c \<notin> set (original_contents c)
     \<and> expiration_frame c \<le> local_frame_late_acked E"
  by (auto simp: verdict_def cell_validity_def split: if_splits)

lemma settle_active:
  assumes "verdict E get_cell rn c \<noteq> IncorrectOrExpired" and "cell_active (settle E get_cell rn c)"
  shows "settle E get_cell rn c = c \<and> local_frame_late_acked E < expiration_frame c"
  using assms by (auto simp: settle_def cell_reset_def verdict_def cell_validity_def split: if_splits)

section \<open>Every use of the engine keeps the invariant\<close>

datatype engine_event =
    Press keystroke nat nat "nat \<Rightarrow> nat \<Rightarrow> rchar"
  | Validate instant "nat \<Rightarrow> nat \<Rightarrow> rchar" nat nat
  | Cull nat
  | Configure display_preference bool nat
  | Frames u64 u64 u64

inductive engine_step :: "engine \<Rightarrow> engine_event \<Rightarrow> engine \<Rightarrow> bool" where
  step_press: "press w h cell_at E k = Some E' \<Longrightarrow> key_col k < w \<Longrightarrow>
    unat (prediction_epoch E) + 3 < 2 ^ 64 \<Longrightarrow> engine_step E (Press k w h cell_at) E'"
| step_validate: "engine_step E (Validate now get_cell cr cc) (validate_predictions E now get_cell cr cc)"
| step_cull: "engine_step E (Cull h) (cull E h)"
| step_configure: "engine_step E (Configure pref overwrite interval)
    (set_send_interval interval (set_predict_overwrite overwrite (set_display_preference pref E)))"
| step_frames: "engine_step E (Frames sent acked late)
    (set_local_frame_late_acked late (set_local_frame_acked acked (set_local_frame_sent sent E)))"

definition engine_inv :: "engine \<Rightarrow> bool" where
  "engine_inv E \<longleftrightarrow> engine_ok E \<and> glitch_trigger E \<le> 2 * GLITCH_REPAIR_COUNT"

interpretation engine: machine "\<lambda>E. \<exists>now. E = engine_new now" engine_step engine_inv
proof
  fix E :: engine
  assume "\<exists>now. E = engine_new now"
  then show "engine_inv E" by (auto simp: engine_inv_def engine_ok_def engine_new_def)
next
  fix E e E'
  assume inv: "engine_inv E" and step: "engine_step E e E'"
  from step show "engine_inv E'"
  proof cases
    case (step_press w h cell_at k)
    have ok: "engine_ok E" using inv by (simp add: engine_inv_def)
    from key_advances [OF ok order_refl step_press(3,4)] obtain E2 where
      "press w h cell_at E k = Some E2" "advances 3 (prediction_epoch E) E E2"
      unfolding press_def by blast
    then show ?thesis using step_press(2) inv by (simp add: engine_inv_def advances_def)
  next
    case (step_validate now get_cell cr cc)
    have "engine_ok E'" using validate_ok inv step_validate(2) by (simp add: engine_inv_def)
    then show ?thesis
      using validate_facts(10) [of E now get_cell cr cc] inv step_validate(2) by (simp add: engine_inv_def)
  next
    case (step_cull h)
    then show ?thesis using inv advances_ok [OF cull_advances] by (auto simp: engine_inv_def)
  qed (use inv in \<open>auto simp: engine_inv_def engine_ok_def set_send_interval_def set_predict_overwrite_def
      set_display_preference_def set_local_frame_late_acked_def set_local_frame_acked_def set_local_frame_sent_def\<close>)
qed

section \<open>Properties\<close>

lemma fits_idle [simp]: "last_height E = h \<Longrightarrow> last_width E = w \<Longrightarrow> fits E w h = E"
  by (simp add: fits_def)

text \<open>
  The engine that a keystroke in the ground state finds, on a screen of unchanged size: the same
  predictions on the screen, and the last predicted cursor is where the keystroke happens.
\<close>

definition ready :: "engine \<Rightarrow> nat \<Rightarrow> nat \<Rightarrow> bool" where
  "ready E w h \<longleftrightarrow> engine_ok E \<and> pe_preference E \<noteq> Never \<and> pe_input_state E = Ground
     \<and> \<not> predict_overwrite E \<and> last_width E = w \<and> last_height E = h"

lemma ready_step:
  assumes "ready E w h" and "at_cursor E cr cc"
  defines "E2 \<equiv> init_cursor (cull E h) cr cc"
  shows "new_user_byte E now ch cr cc w h cell_at = dispatch E2 now ch cr cc w h cell_at"
    and "ready E2 w h" and "rn < h \<Longrightarrow> shown (pe_overlay E2) cell_at rn i = shown (pe_overlay E) cell_at rn i"
    and "pe_cursors E2 \<noteq> []" "cursor_row (last (pe_cursors E2)) = cr" "cursor_col (last (pe_cursors E2)) = cc"
    and "prediction_epoch E2 = prediction_epoch E"
proof -
  have ok: "engine_ok E" using assms(1) by (simp add: ready_def)
  have okc: "engine_ok (cull E h)" by (rule advances_ok [OF cull_advances [OF ok]])
  have "cursor_pos (cull E h) = cursor_pos E" by (simp add: cursor_pos_def)
  then have atc: "at_cursor (cull E h) cr cc" using assms(2) by (simp add: at_cursor_def)
  show "new_user_byte E now ch cr cc w h cell_at = dispatch E2 now ch cr cc w h cell_at"
    using assms(1) by (simp add: new_user_byte_dispatch E2_def ready_def)
  show "ready E2 w h"
    using assms(1) advances_ok [OF init_cursor_advances [OF okc order_refl]]
    by (simp add: ready_def E2_def)
  show "rn < h \<Longrightarrow> shown (pe_overlay E2) cell_at rn i = shown (pe_overlay E) cell_at rn i"
    using assms(1) by (simp add: E2_def ready_def shown_prune)
  show "pe_cursors E2 \<noteq> []" "cursor_row (last (pe_cursors E2)) = cr" "cursor_col (last (pe_cursors E2)) = cc"
    using init_cursor_at [OF okc atc] by (simp_all add: E2_def)
  show "prediction_epoch E2 = prediction_epoch E" by (simp add: E2_def)
qed

definition printable :: "rchar \<Rightarrow> bool" where
  "printable ch \<longleftrightarrow> is_ascii_graphic ch \<or> ch = BLANK"

lemma dispatch_insert: "pe_input_state E = Ground \<Longrightarrow> printable ch \<Longrightarrow>
    dispatch E now ch cr cc w h cell_at = predict_insert E now ch cr cc w h cell_at"
  by (auto simp: dispatch_def printable_def is_ascii_graphic_def is_control_def)

lemma dispatch_backspace: "pe_input_state E = Ground \<Longrightarrow>
    dispatch E now 127 cr cc w h cell_at = predict_backspace E now cr cc w cell_at"
  by (simp add: dispatch_def)

lemma insert_fields:
  assumes "predict_insert E now ch cr cc w h cell_at = Some E'" and "cc + 1 < w"
  shows "pe_input_state E' = pe_input_state E" "predict_overwrite E' = predict_overwrite E"
    "last_width E' = last_width E" "last_height E' = last_height E" "pe_preference E' = pe_preference E"
    "prediction_epoch E' = prediction_epoch E"
  using assms by (auto simp: predict_insert_def Let_def split: prod.splits if_splits)

lemma ready_insert:
  assumes "ready E w h" and "at_cursor E cr cc" and "printable ch" and "cr < h" and "cc + 1 < w"
    and room: "unat (prediction_epoch E) + 2 < 2 ^ 64"
  obtains E' where "new_user_byte E now ch cr cc w h cell_at = Some E'" and "ready E' w h"
    and "cursor_pos E' = Some (cr, cc + 1)" and "prediction_epoch E' = prediction_epoch E"
    and "\<And>i. i < w \<Longrightarrow> shown (pe_overlay E') cell_at cr i = line_insert w cc ch (shown (pe_overlay E) cell_at cr) i"
    and "\<And>rn i. rn < h \<Longrightarrow> rn \<noteq> cr \<Longrightarrow> shown (pe_overlay E') cell_at rn i = shown (pe_overlay E) cell_at rn i"
proof -
  note r = ready_step [OF assms(1,2)]
  let ?E = "init_cursor (cull E h) cr cc"
  have ok: "engine_ok ?E" "last_width ?E = w" and ow: "\<not> predict_overwrite ?E" and g: "pe_input_state ?E = Ground"
    using r(2) unfolding ready_def by blast+
  obtain E' where E': "predict_insert ?E now ch cr cc w h cell_at = Some E'"
      and adv: "advances 2 (prediction_epoch ?E) ?E E'"
    using insert_advances [OF ok order_refl, of cc now ch cr h cell_at] assms(5) room r(7) by auto
  note sh = insert_shown [OF ok ow assms(5) E'] and fl = insert_fields [OF E' assms(5)]
  have "ready E' w h" using r(2) fl advances_ok [OF adv] by (simp add: ready_def)
  moreover have "cursor_pos E' = Some (cr, cc + 1)"
    using sh(3) [OF r(4)] r(5) advances_ok [OF adv] by (simp add: cursor_pos_ok)
  moreover have "shown (pe_overlay ?E) cell_at cr = shown (pe_overlay E) cell_at cr"
    using r(3) [OF assms(4)] by blast
  ultimately show thesis
    using that [of E'] r(1) [of now ch cell_at] dispatch_insert [OF g assms(3)] E' sh(1,2) fl(6) r(3,7) by simp
qed

lemma ready_backspace:
  assumes "ready E w h" and "at_cursor E cr cc" and "cr < h" and "0 < cc" and "cc \<le> w"
  obtains E' where "new_user_byte E now 127 cr cc w h cell_at = Some E'"
    and "cursor_pos E' = Some (cr, cc - 1)"
    and "\<And>i. i < w \<Longrightarrow> shown (pe_overlay E') cell_at cr i = line_delete w (cc - 1) (shown (pe_overlay E) cell_at cr) i"
    and "\<And>rn i. rn < h \<Longrightarrow> rn \<noteq> cr \<Longrightarrow> shown (pe_overlay E') cell_at rn i = shown (pe_overlay E) cell_at rn i"
proof -
  note r = ready_step [OF assms(1,2)]
  let ?E = "init_cursor (cull E h) cr cc"
  have ok: "engine_ok ?E" "last_width ?E = w" and ow: "\<not> predict_overwrite ?E" and g: "pe_input_state ?E = Ground"
    using r(2) unfolding ready_def by blast+
  obtain E' where E': "predict_backspace ?E now cr cc w cell_at = Some E'"
      and adv: "advances 0 (prediction_epoch ?E) ?E E'"
    using backspace_advances [OF ok order_refl, of cc now cr cell_at] assms(5) by auto
  note sh = backspace_shown [OF ok ow assms(4,5) E']
  have "cursor_pos E' = Some (cr, cc - 1)"
    using sh(3) [OF r(4)] r(5) advances_ok [OF adv] by (simp add: cursor_pos_ok)
  moreover have "shown (pe_overlay ?E) cell_at cr = shown (pe_overlay E) cell_at cr"
    using r(3) [OF assms(3)] by blast
  ultimately show thesis
    using that [of E'] r(1) [of now 127 cell_at] dispatch_backspace [OF g] E' sh(1,2) r(3) by simp
qed

definition demo_engine :: engine where
  "demo_engine = (engine_new 0)\<lparr>last_width := 10, last_height := 5\<rparr>"

lemma demo_engine_ready: "ready demo_engine 10 5" "at_cursor demo_engine cr cc"
  "unat (prediction_epoch demo_engine) = 1" "engine_ok demo_engine"
  by (simp_all add: demo_engine_def engine_new_def ready_def engine_ok_def at_cursor_def cursor_pos_def)

text \<open>
  C18. Typing a printable character at column \<open>cc\<close> (not in the last column) of a screen of unchanged
  size predicts exactly what a line editor in insert mode does: the line is shifted right from the
  cursor, the character appears at the cursor, the last column is unknown, every other row is as
  before, and the predicted cursor is one column further right.
\<close>

theorem typing_edits_the_line:
  assumes "ready E w h" and "at_cursor E cr cc" and "printable ch" and "cr < h" and "cc + 1 < w"
    and "unat (prediction_epoch E) + 2 < 2 ^ 64"
  shows "\<exists>E'. new_user_byte E now ch cr cc w h cell_at = Some E' \<and> ready E' w h
     \<and> cursor_pos E' = Some (cr, cc + 1)
     \<and> (\<forall>i<w. shown (pe_overlay E') cell_at cr i = line_insert w cc ch (shown (pe_overlay E) cell_at cr) i)
     \<and> (\<forall>rn<h. \<forall>i. rn \<noteq> cr \<longrightarrow> shown (pe_overlay E') cell_at rn i = shown (pe_overlay E) cell_at rn i)"
  using ready_insert [OF assms, of now cell_at] by metis

theorem typing_edits_the_line_witness:
  "\<exists>E'. new_user_byte demo_engine 7 97 2 3 10 5 (\<lambda>r c. 46) = Some E' \<and> shown (pe_overlay E') (\<lambda>r c. 46) 2 3 = Some 97"
proof -
  have p: "printable 97" and c: "(2::nat) < 5" "(3::nat) + 1 < 10"
      "unat (prediction_epoch demo_engine) + 2 < 2 ^ 64"
    using demo_engine_ready(3) by (simp_all add: printable_def is_ascii_graphic_def)
  show ?thesis
    using typing_edits_the_line [OF demo_engine_ready(1,2) p c, of 7 "\<lambda>r c. 46"] by (auto simp: line_insert_def)
qed

text \<open>
  C20. A backspace right after a character undoes it: the predicted cursor is back where it was and
  every column but the last two shows what it showed before.
\<close>

theorem backspace_undoes_typing:
  assumes "ready E w h" and "at_cursor E cr cc" and "printable ch" and "cr < h" and "cc + 1 < w"
    and "unat (prediction_epoch E) + 2 < 2 ^ 64"
  shows "\<exists>E1 E2. new_user_byte E now ch cr cc w h cell_at = Some E1
     \<and> new_user_byte E1 now' 127 cr (cc + 1) w h cell_at = Some E2
     \<and> cursor_pos E2 = Some (cr, cc)
     \<and> (\<forall>rn<h. \<forall>i. i + 2 < w \<longrightarrow> shown (pe_overlay E2) cell_at rn i = shown (pe_overlay E) cell_at rn i)"
proof -
  obtain E1 where E1: "new_user_byte E now ch cr cc w h cell_at = Some E1" "ready E1 w h"
      "cursor_pos E1 = Some (cr, cc + 1)"
    and s1: "\<And>i. i < w \<Longrightarrow> shown (pe_overlay E1) cell_at cr i = line_insert w cc ch (shown (pe_overlay E) cell_at cr) i"
      "\<And>rn i. rn < h \<Longrightarrow> rn \<noteq> cr \<Longrightarrow> shown (pe_overlay E1) cell_at rn i = shown (pe_overlay E) cell_at rn i"
    using ready_insert [OF assms] by metis
  have "at_cursor E1 cr (cc + 1)" "0 < cc + 1" "cc + 1 \<le> w" using E1(3) assms(5) by (simp_all add: at_cursor_def)
  then obtain E2 where E2: "new_user_byte E1 now' 127 cr (cc + 1) w h cell_at = Some E2"
      "cursor_pos E2 = Some (cr, cc)"
    and s2: "\<And>i. i < w \<Longrightarrow> shown (pe_overlay E2) cell_at cr i = line_delete w cc (shown (pe_overlay E1) cell_at cr) i"
      "\<And>rn i. rn < h \<Longrightarrow> rn \<noteq> cr \<Longrightarrow> shown (pe_overlay E2) cell_at rn i = shown (pe_overlay E1) cell_at rn i"
    using ready_backspace [OF E1(2) _ assms(4)] by (metis add_diff_cancel_right')
  have "shown (pe_overlay E2) cell_at cr i = shown (pe_overlay E) cell_at cr i" if "i + 2 < w" for i
  proof -
    have "i + 1 \<noteq> w - 1" using that by simp
    then show ?thesis
      using that s1(1) [of i] s1(1) [of "i + 1"] s2(1) [of i] by (simp add: line_insert_def line_delete_def)
  qed
  then show ?thesis using E1(1) E2 s1(2) s2(2) by metis
qed

theorem backspace_undoes_typing_witness:
  "\<exists>E1 E2. new_user_byte demo_engine 7 97 2 3 10 5 (\<lambda>r c. 46) = Some E1
     \<and> new_user_byte E1 9 127 2 4 10 5 (\<lambda>r c. 46) = Some E2 \<and> cursor_pos E2 = Some (2, 3)"
proof -
  have p: "printable 97" and c: "(2::nat) < 5" "(3::nat) + 1 < 10"
      "unat (prediction_epoch demo_engine) + 2 < 2 ^ 64"
    using demo_engine_ready(3) by (simp_all add: printable_def is_ascii_graphic_def)
  show ?thesis
    using backspace_undoes_typing [OF demo_engine_ready(1,2) p c, of 7 "\<lambda>r c. 46" 9] by auto
qed

text \<open>
  A control character of unknown effect starts an epoch above everything confirmed, with no predicted
  cursor, and adds no prediction.
\<close>

lemma enter_step:
  assumes ok: "engine_ok E" "confirmed_epoch E \<le> prediction_epoch E"
    and enter: "pe_preference E \<noteq> Never" "pe_input_state E = Ground" "is_control (key_char k)"
      "key_char k \<noteq> 27" "key_char k \<noteq> 127"
    and cc: "key_col k < w" and room: "unat (prediction_epoch E) + 3 < 2 ^ 64"
  obtains E1 where "press w h cell_at E k = Some E1" and "advances 3 (prediction_epoch E) E E1"
    and "confirmed_epoch E < prediction_epoch E1" and "pe_cursors E1 = []"
    and "quiet (prediction_epoch E1) (pe_overlay E) (pe_overlay E1)"
proof -
  let ?F = "init_cursor (cull (fits E w h) h) (key_row k) (key_col k)"
  define E1 where "E1 = unknown_input ?F"
  have "advances 1 0 E (fits E w h)" using room ok by (intro fits_advances) simp_all
  then have pf: "unat (prediction_epoch E) \<le> unat (prediction_epoch ?F)"
    and pf': "unat (prediction_epoch ?F) + 1 < 2 ^ 64"
    using room by (simp_all add: advances_def)
  have ground: "pe_input_state ?F = Ground"
    using enter(2) by (simp add: fits_def pe_reset_def become_tentative_def)
  have press: "press w h cell_at E k = Some E1"
    using enter ground by (simp add: press_def new_user_byte_dispatch dispatch_def E1_def)
  moreover have "advances 3 (prediction_epoch E) E E1"
    using key_advances [OF ok(1) order_refl cc room, of "key_time k" "key_char k" "key_row k" h cell_at] press
    by (simp add: press_def)
  moreover have "confirmed_epoch E < prediction_epoch E1"
    using u64_inc [OF pf'] ok(2) pf
    by (simp add: E1_def unknown_input_def become_tentative_def word_less_nat_alt word_le_nat_alt)
  moreover have "quiet (prediction_epoch E1) (pe_overlay E) (pe_overlay E1)"
    using quiet_prune by (auto simp: E1_def unknown_input_def become_tentative_def fits_def pe_reset_def)
  ultimately show thesis
    using that by (simp add: E1_def unknown_input_def become_tentative_def)
qed

text \<open>With no prediction at or below the confirmed epoch, the frame is the server's.\<close>

lemma hidden_frame:
  assumes ok: "engine_ok E2" and conf: "confirmed_epoch E2 < e" and q: "quiet e ov (pe_overlay E2)"
    and cur: "\<forall>c\<in>set (pe_cursors E2). e \<le> cursor_epoch c"
    and frame: "snap_ok S" "cols S \<le> 65536" "rows_count S \<le> 65536"
  shows "snap_cell (apply_overlay S E2) x y \<noteq> snap_cell S x y \<Longrightarrow>
      \<exists>c. cell_active c \<and> ocell ov y x = Some c \<and> ocell (pe_overlay E2) y x = Some c"
    and "cursor_x (apply_overlay S E2) = cursor_x S" "cursor_y (apply_overlay S E2) = cursor_y S"
proof -
  have ov: "overlay_ok (last_width E2) (pe_overlay E2)" using ok by (simp add: engine_ok_def)
  show "\<exists>c. cell_active c \<and> ocell ov y x = Some c \<and> ocell (pe_overlay E2) y x = Some c"
    if diff: "snap_cell (apply_overlay S E2) x y \<noteq> snap_cell S x y"
  proof -
    obtain c where c: "ocell (pe_overlay E2) y x = Some c" "displayed E2 (cols S) c"
      using diff apply_overlay_cell [OF ov frame(2,3,1), of x y] by (auto split: option.splits if_splits)
    then have "cell_active c" "tentative_until_epoch c < e"
      using conf by (auto simp: displayed_def is_tentative_def)
    then show ?thesis using q c(1) unfolding quiet_def by blast
  qed
  have "cursor_tentative (last (pe_cursors E2)) (confirmed_epoch E2)" if "pe_cursors E2 \<noteq> []"
    using cur conf last_in_set [OF that] by (auto simp: cursor_tentative_def)
  then have "display_cursor E2 = None" by (auto simp: display_cursor_def)
  then show "cursor_x (apply_overlay S E2) = cursor_x S" "cursor_y (apply_overlay S E2) = cursor_y S"
    using fold_cursor [of _ _ _ _ _ "pe_overlay E2" S] by (simp_all add: apply_overlay_def Let_def)
qed

text \<open>
  C17. What is typed after Enter stays hidden. From the moment a control character of unknown effect
  is typed, as long as the server confirms nothing, any keystrokes may follow: wherever the painted
  frame differs from the server's frame, the difference comes from a prediction made before that
  character, and the cursor is painted where the server put it. (At a password prompt, for example,
  nothing is echoed locally.)
\<close>

theorem nothing_typed_after_enter_is_shown:
  assumes ok: "engine_ok E" "confirmed_epoch E \<le> prediction_epoch E"
    and enter: "pe_preference E \<noteq> Never" "pe_input_state E = Ground" "is_control (key_char k)"
      "key_char k \<noteq> 27" "key_char k \<noteq> 127"
    and cc: "key_col k < w" "\<forall>k\<in>set ks. key_col k < w"
    and room: "unat (prediction_epoch E) + 3 * (length ks + 1) < 2 ^ 64"
    and frame: "snap_ok S" "cols S \<le> 65536" "rows_count S \<le> 65536"
  shows "\<exists>E2. type_keys w h cell_at E (k # ks) = Some E2
     \<and> (\<forall>x y. snap_cell (apply_overlay S E2) x y \<noteq> snap_cell S x y \<longrightarrow>
          (\<exists>c. cell_active c \<and> ocell (pe_overlay E) y x = Some c \<and> ocell (pe_overlay E2) y x = Some c))
     \<and> cursor_x (apply_overlay S E2) = cursor_x S \<and> cursor_y (apply_overlay S E2) = cursor_y S"
proof -
  have room3: "unat (prediction_epoch E) + 3 < 2 ^ 64" using room by simp
  obtain E1 where E1: "press w h cell_at E k = Some E1" and a1: "advances 3 (prediction_epoch E) E E1"
    and above: "confirmed_epoch E < prediction_epoch E1" and none: "pe_cursors E1 = []"
    and q1: "quiet (prediction_epoch E1) (pe_overlay E) (pe_overlay E1)"
    using enter_step [OF ok enter cc(1) room3] by blast
  have "unat (prediction_epoch E1) + 3 * length ks < 2 ^ 64" using a1 room by (simp add: advances_def)
  then obtain E2 where E2: "type_keys w h cell_at E1 ks = Some E2"
      and a2: "advances (3 * length ks) (prediction_epoch E1) E1 E2"
    using type_keys_advances [OF advances_ok [OF a1] order_refl cc(2)] by blast
  have "confirmed_epoch E2 < prediction_epoch E1" using a1 a2 above by (simp add: advances_def)
  moreover have "quiet (prediction_epoch E1) (pe_overlay E) (pe_overlay E2)"
    using quiet_trans [OF q1] a2 by (simp add: advances_def)
  moreover have "\<forall>c\<in>set (pe_cursors E2). prediction_epoch E1 \<le> cursor_epoch c"
    using a2 none unfolding advances_def by (auto simp: not_less [symmetric])
  ultimately show ?thesis
    using hidden_frame [OF advances_ok [OF a2] _ _ _ frame] E1 E2 by auto
qed

definition demo_keys :: "keystroke list" where
  "demo_keys = [\<lparr>key_time = 1, key_char = 13, key_row = 2, key_col = 3\<rparr>,
     \<lparr>key_time = 2, key_char = 115, key_row = 3, key_col = 0\<rparr>, \<lparr>key_time = 3, key_char = 101, key_row = 3, key_col = 1\<rparr>]"

theorem nothing_typed_after_enter_is_shown_witness:
  "\<exists>E2. type_keys 10 5 (\<lambda>r c. 46) demo_engine demo_keys = Some E2
     \<and> snap_cell (apply_overlay (snapshot_new 10 5) E2) 0 3 = snap_cell (snapshot_new 10 5) 0 3"
proof -
  have ok: "engine_ok demo_engine" "confirmed_epoch demo_engine \<le> prediction_epoch demo_engine"
    "pe_preference demo_engine \<noteq> Never" "pe_input_state demo_engine = Ground"
    by (simp_all add: demo_engine_def engine_new_def engine_ok_def)
  have k: "is_control (key_char (hd demo_keys))" "key_char (hd demo_keys) \<noteq> 27" "key_char (hd demo_keys) \<noteq> 127"
      "key_col (hd demo_keys) < 10" "\<forall>k\<in>set (tl demo_keys). key_col k < 10"
    by (simp_all add: demo_keys_def is_control_def)
  have room: "unat (prediction_epoch demo_engine) + 3 * (length (tl demo_keys) + 1) < 2 ^ 64"
    by (simp add: demo_engine_ready(3) demo_keys_def)
  have f: "snap_ok (snapshot_new 10 5)" "cols (snapshot_new 10 5) \<le> 65536" "rows_count (snapshot_new 10 5) \<le> 65536"
    by (simp_all add: snapshot_new_def snap_ok_def)
  have e: "hd demo_keys # tl demo_keys = demo_keys" by (simp add: demo_keys_def)
  obtain E2 where E2: "type_keys 10 5 (\<lambda>r c. 46) demo_engine demo_keys = Some E2"
    and hid: "snap_cell (apply_overlay (snapshot_new 10 5) E2) 0 3 \<noteq> snap_cell (snapshot_new 10 5) 0 3 \<longrightarrow>
      (\<exists>c. ocell (pe_overlay demo_engine) 3 0 = Some c)"
    using nothing_typed_after_enter_is_shown [OF ok k room f, of 5 "\<lambda>r c. 46", unfolded e] by blast
  have "snap_cell (apply_overlay (snapshot_new 10 5) E2) 0 3 = snap_cell (snapshot_new 10 5) 0 3"
    using hid by (auto simp: demo_engine_def engine_new_def overlay_new_def ocell_def)
  then show ?thesis using E2 by auto
qed

text \<open>
  C19. The server confirms an epoch only by showing it. When a server state raises the confirmed
  epoch (and so makes predictions visible), some prediction of exactly that epoch stood on the
  screen, had been acknowledged late enough, and the server's screen shows its character there,
  which is none of the characters the cell had shown before. The confirmed epoch never falls.
\<close>

theorem confirmed_only_by_echo:
  "confirmed_epoch E \<le> confirmed_epoch (validate_predictions E now get_cell cr cc)
   \<and> (confirmed_epoch (validate_predictions E now get_cell cr cc) \<noteq> confirmed_epoch E \<longrightarrow>
      (\<exists>r\<in>set (pe_overlay E). \<exists>c\<in>set (row_cells r). cell_active c \<and> \<not> cell_unknown c
         \<and> tentative_until_epoch c = confirmed_epoch (validate_predictions E now get_cell cr cc)
         \<and> expiration_frame c \<le> local_frame_late_acked E
         \<and> get_cell (row_num r) (cell_col c) = replacement c \<and> replacement c \<notin> set (original_contents c)))"
proof -
  let ?E = "validate_predictions E now get_cell cr cc"
  have "\<exists>r\<in>set (pe_overlay E). \<exists>c\<in>set (row_cells r). cell_active c \<and> \<not> cell_unknown c
      \<and> tentative_until_epoch c = confirmed_epoch ?E \<and> expiration_frame c \<le> local_frame_late_acked E
      \<and> get_cell (row_num r) (cell_col c) = replacement c \<and> replacement c \<notin> set (original_contents c)"
    if "confirmed_epoch ?E \<noteq> confirmed_epoch E"
  proof -
    have "confirmed_epoch ?E \<in> (\<Union>r\<in>set (pe_overlay E). credits E get_cell (row_num r) (row_cells r))"
      using that validate_facts(8) [of E now get_cell cr cc] by simp
    then show ?thesis unfolding credits_def using verdict_Correct by fastforce
  qed
  then show ?thesis using validate_facts(7) by blast
qed

definition demo_echo :: "u64 \<Rightarrow> engine" where
  "demo_echo late = demo_engine\<lparr>last_width := 1, local_frame_late_acked := late,
     pe_overlay := [\<lparr>row_num = 0, row_cells =
       [(cell_new 0 0 1)\<lparr>cell_active := True, replacement := 97, expiration_frame := 4\<rparr>]\<rparr>]\<rparr>"

lemmas demo_echo_simps = demo_echo_def demo_engine_def engine_new_def cell_new_def validate_predictions_def
  validate_cell_def cell_validity_def as_millis_def Let_def

theorem confirmed_only_by_echo_witness:
  "confirmed_epoch (validate_predictions (demo_echo 5) 0 (\<lambda>r c. 97) 0 0) = 1
   \<and> (\<exists>r\<in>set (pe_overlay (demo_echo 5)). \<exists>c\<in>set (row_cells r). tentative_until_epoch c = 1)"
proof -
  have *: "confirmed_epoch (validate_predictions (demo_echo 5) 0 (\<lambda>r c. 97) 0 0) = 1"
    "confirmed_epoch (demo_echo 5) = 0" by (simp_all add: demo_echo_simps)
  then show ?thesis using confirmed_only_by_echo [of "demo_echo 5" 0 "\<lambda>r c. 97" 0 0] by auto
qed

text \<open>
  A server state that contradicts one predicted cell or the predicted cursor discards every
  prediction; otherwise exactly the predictions that are not yet acknowledged stay, unchanged.
\<close>

theorem validation_keeps_only_pending:
  "(let E' = validate_predictions E now get_cell cr cc
    in if refuted E get_cell cr cc
     then pe_overlay E' = [] \<and> pe_cursors E' = [] \<and> prediction_epoch E' = prediction_epoch E + 1
     else map row_num (pe_overlay E') = map row_num (pe_overlay E)
       \<and> (\<forall>r\<in>set (pe_overlay E'). \<forall>c\<in>set (row_cells r). cell_active c \<longrightarrow>
            local_frame_late_acked E < expiration_frame c
            \<and> (\<exists>s\<in>set (pe_overlay E). row_num s = row_num r \<and> c \<in> set (row_cells s)))
       \<and> (\<forall>c\<in>set (pe_cursors E'). c \<in> set (pe_cursors E) \<and> local_frame_late_acked E < cursor_expiration c
            \<and> cursor_row c < last_height E \<and> cursor_col c < last_width E))"
proof (cases "refuted E get_cell cr cc")
  case True
  then show ?thesis by (simp add: validate_facts)
next
  case False
  have "cursor_validity c a b h w l = Pending \<Longrightarrow> l < cursor_expiration c \<and> cursor_row c < h \<and> cursor_col c < w" for c a b h w l
    by (auto simp: cursor_validity_def split: if_splits)
  moreover have "local_frame_late_acked E < expiration_frame d
       \<and> (\<exists>s\<in>set (pe_overlay E). row_num s = row_num r \<and> d \<in> set (row_cells s))"
    if "r \<in> set (pe_overlay E)" "c \<in> set (row_cells r)" "d = settle E get_cell (row_num r) c" "cell_active d" for r c d
    using settle_active [of E get_cell "row_num r" c] False that unfolding refuted_def by auto
  ultimately show ?thesis
    using False by (auto simp: validate_facts cursor_verdict_def)
qed

theorem validation_keeps_only_pending_witness:
  "refuted (demo_echo 5) (\<lambda>r c. 98) 0 0
   \<and> pe_overlay (validate_predictions (demo_echo 5) 0 (\<lambda>r c. 98) 0 0) = []
   \<and> \<not> refuted (demo_echo 1) (\<lambda>r c. 98) 0 0
   \<and> map row_num (pe_overlay (validate_predictions (demo_echo 1) 0 (\<lambda>r c. 98) 0 0)) = [0]"
proof -
  have "refuted (demo_echo 5) (\<lambda>r c. 98) 0 0" "\<not> refuted (demo_echo 1) (\<lambda>r c. 98) 0 0"
    "map row_num (pe_overlay (demo_echo 1)) = [0]"
    by (simp_all add: refuted_def verdict_def demo_echo_simps)
  then show ?thesis
    using validation_keeps_only_pending [of "demo_echo 5" 0 "\<lambda>r c. 98" 0 0]
      validation_keeps_only_pending [of "demo_echo 1" 0 "\<lambda>r c. 98" 0 0] by (simp add: Let_def)
qed

lemma insert_panics:
  assumes "engine_ok E" and "last_width E = w" and "w \<le> cc"
  shows "predict_insert E now ch cr cc w h cell_at = None"
proof -
  obtain r ov where m: "get_or_make_row now (pe_overlay E) cr w (prediction_epoch (become_tentative E)) = (r, ov)"
    by fastforce
  have "length (row_cells r) = w" using made_row_width [OF assms(1,2) m] .
  then show ?thesis using assms(3) m by (simp add: predict_insert_def Let_def)
qed

text \<open>
  A printable character panics the client (an index out of range) exactly when the cursor it is
  typed at lies right of the screen.
\<close>

theorem panics_iff_cursor_off_screen:
  assumes "ready E w h" and "at_cursor E cr cc" and "printable ch" and "cr < h"
    and "unat (prediction_epoch E) + 3 < 2 ^ 64"
  shows "new_user_byte E now ch cr cc w h cell_at = None \<longleftrightarrow> w \<le> cc"
proof
  assume "new_user_byte E now ch cr cc w h cell_at = None"
  then show "w \<le> cc"
    using key_advances [OF _ order_refl, of E cc w now ch cr h cell_at] assms(1,5)
    by (fastforce simp: ready_def not_less [symmetric])
next
  assume cc: "w \<le> cc"
  note r = ready_step [OF assms(1,2)]
  let ?E = "init_cursor (cull E h) cr cc"
  have ok: "engine_ok ?E" "last_width ?E = w" and g: "pe_input_state ?E = Ground"
    using r(2) unfolding ready_def by blast+
  have "predict_insert ?E now ch cr cc w h cell_at = None" by (rule insert_panics [OF ok cc])
  then show "new_user_byte E now ch cr cc w h cell_at = None"
    using r(1) [of now ch cell_at] dispatch_insert [OF g assms(3)] by simp
qed

theorem panics_iff_cursor_off_screen_witness:
  "new_user_byte demo_engine 7 97 2 12 10 5 (\<lambda>r c. 46) = None"
proof -
  have p: "printable 97" and c: "(2::nat) < 5" "unat (prediction_epoch demo_engine) + 3 < 2 ^ 64"
    using demo_engine_ready(3) by (simp_all add: printable_def is_ascii_graphic_def)
  show ?thesis
    using panics_iff_cursor_off_screen [OF demo_engine_ready(1,2) p c, where cc = 12 and now = 7 and cell_at = "\<lambda>r c. 46"] by simp
qed

text \<open>
  C21. Whatever sequence of keystrokes, server states and settings drives the engine from its start,
  the overlay stays well formed (rows in order and as wide as the screen, every cell at its own
  column), every predicted cursor is active, and the glitch counter never exceeds 20.
\<close>

theorem engine_always_sound:
  "reach (\<lambda>E. E = engine_new now) engine_step E \<longrightarrow>
     overlay_ok (last_width E) (pe_overlay E) \<and> (\<forall>c\<in>set (pe_cursors E). cursor_active c) \<and> glitch_trigger E \<le> 20"
proof
  assume "reach (\<lambda>E. E = engine_new now) engine_step E"
  then have "reach (\<lambda>E. \<exists>now. E = engine_new now) engine_step E"
    by (induction rule: reach.induct) (auto intro: reach.intros)
  from engine.reach_inv [OF this]
  show "overlay_ok (last_width E) (pe_overlay E) \<and> (\<forall>c\<in>set (pe_cursors E). cursor_active c) \<and> glitch_trigger E \<le> 20"
    by (simp add: engine_inv_def engine_ok_def GLITCH_REPAIR_COUNT_def)
qed

theorem engine_always_sound_witness:
  "glitch_trigger (validate_predictions (engine_new 3) 5 (\<lambda>r c. 46) 0 0) \<le> 20"
proof -
  have "reach (\<lambda>E. E = engine_new 3) engine_step (validate_predictions (engine_new 3) 5 (\<lambda>r c. 46) 0 0)"
    by (rule reach_step, rule reach_init, rule refl, rule step_validate)
  then show ?thesis using engine_always_sound by blast
qed

end
