(* ===== verification/Rendering.thy ===== *)
theory Rendering
  imports Display_Laws Speculation
begin

text \<open>
  The properties of painting: what the user's terminal shows after the program has written a frame
  to it.
\<close>

section \<open>Modes do not disturb the rest\<close>

lemma vt_step_modes:
  "vt_step ww (T\<lparr>modes := f\<rparr>) op = map_option (\<lambda>T'. T'\<lparr>modes := modes_after [op] f\<rparr>) (vt_step ww T op)"
  by (cases op) (auto simp: Let_def fun_upd_def cong: if_cong)

lemma modes_after_Cons: "modes_after (op # ops) f = modes_after ops (modes_after [op] f)"
  using modes_after_append [of "[op]" ops f] by simp

lemma vt_exec_modes:
  "vt_exec ww ops (T\<lparr>modes := f\<rparr>) = map_option (\<lambda>T'. T'\<lparr>modes := modes_after ops f\<rparr>) (vt_exec ww ops T)"
proof (induction ops arbitrary: T f)
  case (Cons op ops)
  have "vt_exec ww (op # ops) (T\<lparr>modes := f\<rparr>) =
      (case vt_step ww T op of None \<Rightarrow> None | Some T1 \<Rightarrow> vt_exec ww ops (T1\<lparr>modes := modes_after [op] f\<rparr>))"
    using vt_step_modes [where ww = ww and T = T and f = f and op = op] by (simp split: option.splits)
  also have "\<dots> = map_option (\<lambda>T'. T'\<lparr>modes := modes_after (op # ops) f\<rparr>) (vt_exec ww (op # ops) T)"
    unfolding modes_after_Cons [of op ops] by (simp add: Cons.IH split: option.splits)
  finally show ?case .
qed simp

lemma modes_after_local: "f n = g n \<Longrightarrow> modes_after ops f n = modes_after ops g n"
proof (induction ops arbitrary: f g)
  case (Cons op ops)
  show ?case
  proof (cases op)
    case (Mode k b)
    then show ?thesis using Cons.IH [of "f(k := b)" "g(k := b)"] Cons.prems by (simp add: fun_upd_def)
  qed (use Cons.IH [of f g] Cons.prems in simp_all)
qed simp

lemma modes_after_set_or_kept:
  "(\<exists>b. \<forall>f. modes_after ops f n = b) \<or> (\<forall>f. modes_after ops f n = f n)"
proof (induction ops)
  case (Cons op ops)
  show ?case
  proof (cases op)
    case (Mode k b)
    from Cons.IH show ?thesis
    proof
      assume "\<exists>c. \<forall>f. modes_after ops f n = c"
      then show ?thesis using Mode by auto
    next
      assume "\<forall>f. modes_after ops f n = f n"
      then have "modes_after (op # ops) f n = (if n = k then b else f n)" for f using Mode by simp
      then show ?thesis by (cases "n = k") auto
    qed
  qed (use Cons.IH in simp_all)
qed simp

lemma vt_exec_modes_after: "vt_exec ww ops T = Some T' \<Longrightarrow> modes T' = modes_after ops (modes T)"
proof (induction ops arbitrary: T)
  case (Cons op ops)
  then obtain T1 where T1: "vt_step ww T op = Some T1" "vt_exec ww ops T1 = Some T'" by (auto split: option.splits)
  have "modes T1 = modes_after [op] (modes T)" using T1(1) by (cases op) (auto simp: Let_def split: if_splits)
  then show ?case using Cons.IH [OF T1(2)] modes_after_Cons [of op ops] by simp
qed simp

lemma displays_modes:
  "displays (T\<lparr>modes := f\<rparr>) S \<Longrightarrow> (\<And>n. n \<noteq> 2026 \<Longrightarrow> g n = f n) \<Longrightarrow> displays (T\<lparr>modes := g\<rparr>) S"
  by (simp add: displays_def shows_modes_def shows_grid_def)

text \<open>What both kinds of frame (same size, other size) have in common.\<close>

definition can_paint :: "(rtext \<Rightarrow> bool) \<Rightarrow> vterm \<Rightarrow> screen_snapshot \<Rightarrow> screen_snapshot \<Rightarrow> bool" where
  "can_paint ww T old new \<longleftrightarrow> \<not> ww [32] \<and> snap_wf ww new \<and>
     (if cols old = cols new \<and> rows_count old = rows_count new then snap_wf ww old \<and> displays T old
      else vt_rows T = rows_count new \<and> vt_cols T = cols new \<and> (title new \<noteq> [] \<or> vt_title T = []))"

lemma can_paint_exec:
  assumes "can_paint ww T old new"
  shows "\<exists>T'. vt_exec ww (display_diff old new) T = Some T' \<and> displays T' new"
proof (cases "cols old = cols new \<and> rows_count old = rows_count new")
  case True
  then show ?thesis using assms by (intro display_diff_exec) (auto simp: can_paint_def)
next
  case False
  then have "display_diff old new = full_redraw new" by (auto simp: display_diff_def)
  then show ?thesis using assms False full_redraw_exec [of ww new T] by (auto simp: can_paint_def)
qed

text \<open>The synchronized update around a frame: hidden while it is drawn, then as the frame wants it.\<close>

lemma wrapped_paint_exec:
  assumes "can_paint ww T old new"
  shows "\<exists>T'. vt_exec ww ([Mode 2026 True, Mode 25 False] @ display_diff old new
       @ (if cursor_visible new then [Mode 25 True] else []) @ [Mode 2026 False]) T = Some T' \<and> displays T' new"
proof -
  let ?d = "display_diff old new" and ?f = "(modes T)(2026 := True, 25 := False)"
  obtain T1 where T1: "vt_exec ww ?d T = Some T1" "displays T1 new" using can_paint_exec [OF assms] by blast
  note m1 = vt_exec_modes_after [OF T1(1)]
  define m where "m = modes_after ?d ?f"
  define g where "g = (if cursor_visible new then m(25 := True) else m)(2026 := False)"
  have run: "vt_exec ww ([Mode 2026 True, Mode 25 False] @ ?d
       @ (if cursor_visible new then [Mode 25 True] else []) @ [Mode 2026 False]) T = Some (T1\<lparr>modes := g\<rparr>)"
    using T1(1) vt_exec_modes [of ww ?d ?f T] by (simp add: m_def g_def)
  have "g n = modes T1 n" if "n \<noteq> 2026" for n
  proof (cases "n = 25")
    case True
    have "modes T1 25 = cursor_visible new" using T1(2) by (simp add: displays_def)
    moreover have "m 25 = modes T1 25 \<or> \<not> m 25"
      using modes_after_set_or_kept [of ?d 25] unfolding m_def m1 by (metis fun_upd_same)
    ultimately show ?thesis using True by (auto simp: g_def)
  next
    case False
    then have "g n = modes_after ?d ?f n" using that by (simp add: g_def m_def)
    also have "\<dots> = modes_after ?d (modes T) n" using that False by (intro modes_after_local) simp
    finally show ?thesis by (simp add: m1)
  qed
  moreover have "displays (T1\<lparr>modes := modes T1\<rparr>) new" using T1(2) by simp
  ultimately have "displays (T1\<lparr>modes := g\<rparr>) new" using displays_modes by blast
  then show ?thesis using run by blast
qed

lemma output_new_frame_exec:
  assumes "can_paint ww T local (apply_overlay latest E)"
  shows "snd (output_new_frame latest E local) = apply_overlay latest E"
    and "\<exists>T'. vt_exec ww (fst (output_new_frame latest E local)) T = Some T' \<and> displays T' (apply_overlay latest E)"
proof -
  show "snd (output_new_frame latest E local) = apply_overlay latest E" by (simp add: output_new_frame_def Let_def)
  show "\<exists>T'. vt_exec ww (fst (output_new_frame latest E local)) T = Some T' \<and> displays T' (apply_overlay latest E)"
    using can_paint_exec [OF assms] wrapped_paint_exec [OF assms]
    by (simp add: output_new_frame_def Let_def del: vt_exec.simps vt_exec_append append.simps)
      (metis vt_exec.simps(1))
qed

section \<open>Empty output\<close>

lemma decimal_nonempty [simp]: "decimal n \<noteq> []"
  by (subst decimal.simps) simp

lemma detect_scroll_self: "length (grid S) = rows_count S \<Longrightarrow> detect_scroll (grid S) S = None"
proof -
  assume len: "length (grid S) = rows_count S"
  show ?thesis
  proof (cases "grid S")
    case Nil
    then show ?thesis using len by (simp add: detect_scroll_def)
  next
    case (Cons r rs)
    then have "position (\<lambda>x. grid S ! 0 = x) (take (rows_count S) (grid S)) = Some 0" using len by simp
    then show ?thesis by (simp add: detect_scroll_def Let_def)
  qed
qed

lemma display_diff_self: "length (grid S) = rows_count S \<Longrightarrow> display_diff S S = []"
  by (simp add: display_diff_def detect_scroll_self state_changes_def diff_rows_def Let_def)

section \<open>Titles\<close>

lemma vt_step_title:
  "\<forall>t. op \<noteq> Title t \<Longrightarrow> vt_step ww (T\<lparr>vt_title := u\<rparr>) op = map_option (\<lambda>T'. T'\<lparr>vt_title := u\<rparr>) (vt_step ww T op)"
  by (cases op) (auto simp: Let_def cong: if_cong)

lemma vt_exec_title:
  assumes "\<And>t. Title t \<notin> set ops"
  shows "vt_exec ww ops (T\<lparr>vt_title := u\<rparr>) = map_option (\<lambda>T'. T'\<lparr>vt_title := u\<rparr>) (vt_exec ww ops T)"
  using assms
proof (induction ops arbitrary: T)
  case (Cons op ops)
  then have "vt_step ww (T\<lparr>vt_title := u\<rparr>) op = map_option (\<lambda>T'. T'\<lparr>vt_title := u\<rparr>) (vt_step ww T op)"
    by (intro vt_step_title) auto
  then show ?case using Cons by (auto split: option.splits)
qed simp

lemma vt_exec_title_kept:
  assumes "vt_exec ww ops T \<noteq> None" and "\<And>t. Title t \<notin> set ops"
  shows "\<exists>T'. vt_exec ww ops T = Some T' \<and> vt_title T' = vt_title T"
proof -
  obtain T1 where T1: "vt_exec ww ops T = Some T1" using assms(1) by blast
  have "vt_exec ww ops T = map_option (\<lambda>T'. T'\<lparr>vt_title := vt_title T\<rparr>) (vt_exec ww ops T)"
    using vt_exec_title [OF assms(2), where ww = ww and T = T and u = "vt_title T"] by simp
  then have "vt_title T1 = vt_title (T1\<lparr>vt_title := vt_title T\<rparr>)" using T1 by simp
  then show ?thesis using T1 by simp
qed

lemma redraw_row_no_title: "Title t \<notin> set (fst (redraw_row row x p))"
proof (induction row x p rule: redraw_row.induct)
  case (1 row x p)
  then show ?case by (subst redraw_row.simps) (auto simp: Let_def style_on_def cell_print_def split_beta)
qed

lemma redraw_rows_no_title: "Title t \<notin> set (redraw_rows y rows p)"
  using redraw_row_no_title by (induction rows arbitrary: y p) (auto simp: split_beta)

lemma apply_overlay_fields:
  "cols (apply_overlay S E) = cols S" "rows_count (apply_overlay S E) = rows_count S" "title (apply_overlay S E) = title S"
proof -
  have c: "cols (fold (overlay_cell_onto b l c n k) cs S) = cols S
      \<and> rows_count (fold (overlay_cell_onto b l c n k) cs S) = rows_count S
      \<and> title (fold (overlay_cell_onto b l c n k) cs S) = title S" for b l c n k cs S
    by (induction cs arbitrary: S) (simp_all add: overlay_cell_onto_def Let_def cell_mut_def)
  have "cols (fold (overlay_row_onto b l c n m) ov S) = cols S
      \<and> rows_count (fold (overlay_row_onto b l c n m) ov S) = rows_count S
      \<and> title (fold (overlay_row_onto b l c n m) ov S) = title S" for b l c n m ov S
    by (induction ov arbitrary: S) (simp_all add: overlay_row_onto_def c)
  then show "cols (apply_overlay S E) = cols S" "rows_count (apply_overlay S E) = rows_count S"
    "title (apply_overlay S E) = title S"
    by (auto simp: apply_overlay_def Let_def split: option.splits prod.splits)
qed

section \<open>A terminal of one row\<close>

definition demo_term :: vterm where
  "demo_term = \<lparr>vt_rows = 1, vt_cols = 2, scr = (\<lambda>_ _. erased default_style), vt_y = 0, vt_x = 0,
     pen = default_style, bottom_margin = 1, modes = (\<lambda>n. n = 25), vt_title = []\<rparr>"

definition demo_frame :: screen_snapshot where
  "demo_frame = cell_mut (snapshot_new 2 1) 1 0 (\<lambda>c. c\<lparr>cell_text := [97]\<rparr>)"

lemmas demo_simps = demo_term_def demo_frame_def snapshot_new_def cell_mut_def snap_wf_def snap_ok_def row_wf_def
  cell_empty_def displays_def shows_grid_def shows_modes_def show_cell_def erased_def glyph_def

lemma demo_wf: "snap_wf (\<lambda>_. False) (snapshot_new 2 1)" "snap_wf (\<lambda>_. False) demo_frame"
  "displays demo_term (snapshot_new 2 1)"
  by (simp_all add: demo_simps nth_list_update less_Suc_eq numeral_2_eq_2)

section \<open>Properties\<close>

text \<open>
  C22. Writing \<open>DisplayDiff::diff(old, new)\<close> to a terminal that displays \<open>old\<close> makes it display \<open>new\<close>:
  every cell with its text, width and style, the cursor and its visibility, the title, and every
  input mode; the scrolling shortcut included. When the sizes differ, the terminal has the new size
  already and may show anything (but see the claim on titles).
\<close>

theorem diff_reproduces_the_frame:
  assumes "\<not> ww [32]" and "snap_wf ww new"
    and "if cols old = cols new \<and> rows_count old = rows_count new then snap_wf ww old \<and> displays T old
      else vt_rows T = rows_count new \<and> vt_cols T = cols new \<and> (title new \<noteq> [] \<or> vt_title T = [])"
  shows "\<exists>T'. vt_exec ww (display_diff old new) T = Some T' \<and> displays T' new"
  using assms can_paint_exec [of ww T old new] by (simp add: can_paint_def)

theorem diff_reproduces_the_frame_witness:
  "\<exists>T'. vt_exec (\<lambda>_. False) (display_diff (snapshot_new 2 1) demo_frame) demo_term = Some T' \<and> scr T' 0 1 = Glyph [97] False default_style"
proof -
  have "\<exists>T'. vt_exec (\<lambda>_. False) (display_diff (snapshot_new 2 1) demo_frame) demo_term = Some T' \<and> displays T' demo_frame"
    using demo_wf by (intro diff_reproduces_the_frame) (simp_all add: demo_frame_def snapshot_new_def)
  then show ?thesis by (auto simp: demo_simps)
qed

text \<open>
  A style printed by \<open>style_on\<close> and read back by a terminal that starts from its default style is
  the same style, for every combination of attributes and colours.
\<close>

theorem style_survives_sgr: "apply_sgr (style_params s) default_style = s"
  by (rule apply_style_params)

text \<open>A frame that does not change writes nothing at all.\<close>

theorem idle_frame_writes_nothing:
  assumes "snap_ok S"
  shows "display_diff S S = [] \<and> vt_string (display_diff S S) = []"
  using assms display_diff_self [of S] by (simp add: snap_ok_def vt_string_def)

theorem idle_frame_writes_nothing_witness:
  "display_diff (snapshot_new 80 24) (snapshot_new 80 24) = []"
  using idle_frame_writes_nothing [OF snapshot_new_ok] by blast

text \<open>
  C23. After the client paints a frame, the user's terminal displays the server's newest screen with
  the predictions folded in, and the local frame buffer says exactly that, so the next frame starts
  from the truth.
\<close>

theorem painting_shows_the_target:
  assumes "\<not> ww [32]" and "snap_wf ww (apply_overlay latest E)"
    and "if cols local = cols latest \<and> rows_count local = rows_count latest then snap_wf ww local \<and> displays T local
      else vt_rows T = rows_count latest \<and> vt_cols T = cols latest \<and> (title latest \<noteq> [] \<or> vt_title T = [])"
  shows "\<exists>T'. vt_exec ww (fst (output_new_frame latest E local)) T = Some T'
     \<and> displays T' (snd (output_new_frame latest E local))"
proof -
  have "can_paint ww T local (apply_overlay latest E)"
    unfolding can_paint_def apply_overlay_fields using assms by (intro conjI)
  then show ?thesis using output_new_frame_exec by metis
qed

theorem painting_shows_the_target_witness:
  "\<exists>T'. vt_exec (\<lambda>_. False) (fst (output_new_frame demo_frame (engine_new 0) (snapshot_new 2 1))) demo_term = Some T'
     \<and> displays T' demo_frame"
proof -
  have idle: "apply_overlay demo_frame (engine_new 0) = demo_frame"
    by (simp add: apply_overlay_def should_display_def engine_new_def)
  have "\<exists>T'. vt_exec (\<lambda>_. False) (fst (output_new_frame demo_frame (engine_new 0) (snapshot_new 2 1))) demo_term = Some T'
     \<and> displays T' (snd (output_new_frame demo_frame (engine_new 0) (snapshot_new 2 1)))"
    using demo_wf idle by (intro painting_shows_the_target) (simp_all add: demo_frame_def snapshot_new_def)
  then show ?thesis using idle by (simp add: output_new_frame_def Let_def)
qed

text \<open>
  A redraw never clears a window title: when the new frame has none, whatever title the terminal
  had stays, although the frame is supposed to be reproduced from scratch.
\<close>

theorem redraw_keeps_stale_title:
  assumes "snap_wf ww S" and "\<not> ww [32]" and "vt_rows T = rows_count S" and "vt_cols T = cols S" and "title S = []"
  shows "\<exists>T'. vt_exec ww (full_redraw S) T = Some T' \<and> vt_title T' = vt_title T"
proof -
  have none: "Title t \<notin> set (full_redraw S)" for t
    using assms(5) redraw_rows_no_title by (auto simp: full_redraw_def state_changes_def Let_def split: if_splits)
  obtain T' where "vt_exec ww (full_redraw S) (T\<lparr>vt_title := []\<rparr>) = Some T'"
    using full_redraw_exec [OF assms(1,2), of "T\<lparr>vt_title := []\<rparr>"] assms(3,4) by auto
  then have "vt_exec ww (full_redraw S) T \<noteq> None" using vt_exec_title [OF none, where ww = ww and T = T and u = "[]"] by auto
  then show ?thesis using vt_exec_title_kept none by blast
qed

theorem redraw_keeps_stale_title_witness:
  "\<exists>T'. vt_exec (\<lambda>_. False) (full_redraw demo_frame) (demo_term\<lparr>vt_title := [120]\<rparr>) = Some T' \<and> vt_title T' = [120]"
  using redraw_keeps_stale_title [OF demo_wf(2), of "demo_term\<lparr>vt_title := [120]\<rparr>"] by (simp add: demo_simps)

end
