(* ===== verification/Utf8.thy ===== *)
theory Utf8
  imports Snapshot
begin

text \<open>
  UTF-8 as Rust's \<open>String::as_bytes\<close>, \<open>char::encode_utf8\<close> and \<open>str::from_utf8\<close> give it, on the code
  points a Rust \<open>char\<close> can hold.
\<close>

definition is_char :: "rchar \<Rightarrow> bool" where
  "is_char c \<longleftrightarrow> c < 55296 \<or> 57344 \<le> c \<and> c < 1114112"

text \<open>A number as a byte.\<close>

definition byte :: "nat \<Rightarrow> u8" where
  "byte n = word_of_nat n"

definition encode_char :: "rchar \<Rightarrow> bytes" where
  "encode_char c =
     (if c < 128 then [byte c]
      else if c < 2048 then [byte (192 + c div 64), byte (128 + c mod 64)]
      else if c < 65536 then
        [byte (224 + c div 4096), byte (128 + c div 64 mod 64), byte (128 + c mod 64)]
      else
        [byte (240 + c div 262144), byte (128 + c div 4096 mod 64),
         byte (128 + c div 64 mod 64), byte (128 + c mod 64)])"

definition utf8 :: "rtext \<Rightarrow> bytes" where
  "utf8 s = concat (map encode_char s)"

text \<open>The decoder, for well-formed input: the lead byte tells the length.\<close>

fun decode_utf8 :: "bytes \<Rightarrow> rtext option" where
  "decode_utf8 [] = Some []"
| "decode_utf8 (b # bs) =
     (if unat b < 128 then map_option ((#) (unat b)) (decode_utf8 bs)
      else if unat b < 192 then None
      else if unat b < 224 then
        (case bs of
           b1 # rest \<Rightarrow> map_option ((#) ((unat b - 192) * 64 + (unat b1 - 128))) (decode_utf8 rest)
         | _ \<Rightarrow> None)
      else if unat b < 240 then
        (case bs of
           b1 # b2 # rest \<Rightarrow>
             map_option ((#) ((unat b - 224) * 4096 + (unat b1 - 128) * 64 + (unat b2 - 128))) (decode_utf8 rest)
         | _ \<Rightarrow> None)
      else
        (case bs of
           b1 # b2 # b3 # rest \<Rightarrow>
             map_option ((#) ((unat b - 240) * 262144 + (unat b1 - 128) * 4096 + (unat b2 - 128) * 64 + (unat b3 - 128)))
               (decode_utf8 rest)
         | _ \<Rightarrow> None))"

lemma unat_byte [simp]: "n < 256 \<Longrightarrow> unat (byte n) = n"
  by (simp add: byte_def unat_word_of_nat_u8)

lemma split_base64:
  fixes c :: nat
  shows "c div 64 * 64 + c mod 64 = c"
    and "c div 4096 * 4096 + c div 64 mod 64 * 64 + c mod 64 = c"
    and "c div 262144 * 262144 + c div 4096 mod 64 * 4096 + c div 64 mod 64 * 64 + c mod 64 = c"
proof -
  have 1: "c div 4096 = c div 64 div 64" and 2: "c div 262144 = c div 64 div 64 div 64"
    by (simp_all add: div_mult2_eq [symmetric])
  note eqs = div_mult_mod_eq [of c 64] div_mult_mod_eq [of "c div 64" 64] div_mult_mod_eq [of "c div 64 div 64" 64]
  show "c div 64 * 64 + c mod 64 = c" using eqs by linarith
  show "c div 4096 * 4096 + c div 64 mod 64 * 64 + c mod 64 = c" unfolding 1 using eqs by linarith
  show "c div 262144 * 262144 + c div 4096 mod 64 * 4096 + c div 64 mod 64 * 64 + c mod 64 = c"
    unfolding 1 2 using eqs by linarith
qed

lemma decode_encode_char:
  assumes "is_char c"
  shows "decode_utf8 (encode_char c @ rest) = map_option ((#) c) (decode_utf8 rest)"
proof -
  have c: "c < 1114112" using assms by (auto simp: is_char_def)
  consider "c < 128" | "128 \<le> c" "c < 2048" | "2048 \<le> c" "c < 65536" | "65536 \<le> c" by linarith
  then show ?thesis
  proof cases
    case 1
    then show ?thesis by (simp add: encode_char_def)
  next
    case 2
    then have "c div 64 < 32" "c mod 64 < 64" by (simp_all add: div_less_iff_less_mult)
    then show ?thesis using 2 split_base64(1) [of c] by (simp add: encode_char_def div_less_iff_less_mult)
  next
    case 3
    then have "c div 4096 < 16" "c div 64 mod 64 < 64" "c mod 64 < 64" by (simp_all add: div_less_iff_less_mult)
    then show ?thesis using 3 split_base64(2) [of c] by (simp add: encode_char_def div_less_iff_less_mult)
  next
    case 4
    then have "c div 262144 < 8" "c div 4096 mod 64 < 64" "c div 64 mod 64 < 64" "c mod 64 < 64"
      using c by (simp_all add: div_less_iff_less_mult)
    then show ?thesis using 4 split_base64(3) [of c] by (simp add: encode_char_def div_less_iff_less_mult)
  qed
qed

lemma decode_utf8_encode: "\<forall>c\<in>set s. is_char c \<Longrightarrow> decode_utf8 (utf8 s) = Some s"
  by (induction s) (simp_all add: utf8_def decode_encode_char)

interpretation utf8_wire: wire_format utf8 decode_utf8 "\<lambda>s. \<forall>c\<in>set s. is_char c"
  by unfold_locales (rule decode_utf8_encode)

end
