(* ===== verification/Complete.thy ===== *)
theory Complete
  imports State_Trait User_Stream Display Utf8
begin

text \<open>
  \<open>crates/morsh-statesync/src/complete.rs\<close>: the terminal state that travels from the server to the
  client. The emulator (\<open>MoshTerminal\<close>, a wrapper of a third-party library) and the serialization of
  \<open>HostBuffers::HostMessage\<close> (generated by \<open>prost\<close>) are the parameters \<open>emulator\<close> and \<open>host_codec\<close>. The
  buffer of an emulator that failed to resize is part of the result, as in the code.
\<close>

record 't emulator =
  em_new :: "nat \<Rightarrow> nat \<Rightarrow> string + 't"
  em_write :: "'t \<Rightarrow> bytes \<Rightarrow> 't"
  em_resize :: "'t \<Rightarrow> nat \<Rightarrow> nat \<Rightarrow> string option \<times> 't"
  em_snapshot :: "'t \<Rightarrow> string + screen_snapshot"

record host_instruction =
  hostbytes :: "bytes option option"
  host_resize :: "(i32 option \<times> i32 option) option"
  echoack :: "u64 option option"

type_synonym host_message = "host_instruction list"

record host_codec =
  hm_encode :: "host_message \<Rightarrow> bytes"
  hm_decode :: "bytes \<Rightarrow> string + host_message"

definition ECHO_TIMEOUT :: duration where
  "ECHO_TIMEOUT = ms 50"

record 't complete =
  terminal :: "'t option"
  screen :: screen_snapshot
  echo_ack :: u64
  input_history :: "(u64 \<times> instant) list"

definition complete_clone :: "'t complete \<Rightarrow> 't complete" where
  "complete_clone s = s\<lparr>terminal := None\<rparr>"

definition complete_new :: "'t emulator \<Rightarrow> nat \<Rightarrow> nat \<Rightarrow> string + 't complete" where
  "complete_new em w h =
     (case em_new em w h of
        Inl e \<Rightarrow> Inl e
      | Inr t \<Rightarrow>
          (case em_snapshot em t of
             Inl e \<Rightarrow> Inl e
           | Inr S \<Rightarrow> Inr \<lparr>terminal = Some t, screen = S, echo_ack = 0, input_history = []\<rparr>))"

text \<open>\<open>terminal_mut\<close>: the emulator, rebuilt from the screen if there is none.\<close>

definition terminal_mut :: "'t emulator \<Rightarrow> 't complete \<Rightarrow> string + 't" where
  "terminal_mut em s =
     (case terminal s of
        Some t \<Rightarrow> Inr t
      | None \<Rightarrow>
          (case em_new em (cols (screen s)) (rows_count (screen s)) of
             Inl e \<Rightarrow> Inl e
           | Inr t \<Rightarrow> Inr (em_write em t (utf8 (vt_string (full_redraw (screen s)))))))"

definition refresh :: "'t emulator \<Rightarrow> 't complete \<Rightarrow> 't complete" where
  "refresh em s =
     (case terminal s of
        None \<Rightarrow> s
      | Some t \<Rightarrow> (case em_snapshot em t of Inl e \<Rightarrow> s | Inr S \<Rightarrow> s\<lparr>screen := S\<rparr>))"

text \<open>The operations that can fail return the state they leave behind, and the error if there was one.\<close>

definition complete_act :: "'t emulator \<Rightarrow> bytes \<Rightarrow> 't complete \<Rightarrow> string option \<times> 't complete" where
  "complete_act em bs s =
     (case terminal_mut em s of
        Inl e \<Rightarrow> (Some e, s)
      | Inr t \<Rightarrow> (None, refresh em (s\<lparr>terminal := Some (em_write em t bs)\<rparr>)))"

definition complete_resize :: "'t emulator \<Rightarrow> nat \<Rightarrow> nat \<Rightarrow> 't complete \<Rightarrow> string option \<times> 't complete" where
  "complete_resize em w h s =
     (case terminal_mut em s of
        Inl e \<Rightarrow> (Some e, s)
      | Inr t \<Rightarrow>
          (case em_resize em t w h of
             (Some e, t') \<Rightarrow> (Some e, s\<lparr>terminal := Some t'\<rparr>)
           | (None, t') \<Rightarrow> (None, refresh em (s\<lparr>terminal := Some t'\<rparr>))))"

definition set_echo_ack_num :: "u64 \<Rightarrow> 't complete \<Rightarrow> 't complete" where
  "set_echo_ack_num ack s = s\<lparr>echo_ack := ack\<rparr>"

definition register_input_frame :: "u64 \<Rightarrow> instant \<Rightarrow> 't complete \<Rightarrow> 't complete" where
  "register_input_frame n now s = s\<lparr>input_history := input_history s @ [(n, now)]\<rparr>"

definition newest_echo_ack :: "instant \<Rightarrow> (u64 \<times> instant) list \<Rightarrow> u64" where
  "newest_echo_ack now hist = foldl (\<lambda>a (n, at). if now - at \<ge> ECHO_TIMEOUT then n else a) 0 hist"

definition set_echo_ack :: "instant \<Rightarrow> 't complete \<Rightarrow> bool \<times> 't complete" where
  "set_echo_ack now s =
     (let n = newest_echo_ack now (input_history s)
      in (echo_ack s \<noteq> n,
          s\<lparr>input_history := filter (\<lambda>(k, _). k \<ge> n) (input_history s), echo_ack := n\<rparr>))"

definition echo_wait_time_ms :: "instant \<Rightarrow> 't complete \<Rightarrow> nat option" where
  "echo_wait_time_ms now s =
     map_option (\<lambda>(_, at). as_millis (at + ECHO_TIMEOUT - now)) (vec_get 1 (input_history s))"

definition complete_dimensions :: "'t complete \<Rightarrow> nat \<times> nat" where
  "complete_dimensions s = (cols (screen s), rows_count (screen s))"

definition host_diff :: "screen_snapshot \<Rightarrow> u64 \<Rightarrow> screen_snapshot \<Rightarrow> u64 \<Rightarrow> host_message" where
  "host_diff new_screen new_ack old_screen old_ack =
     (if old_ack \<noteq> new_ack
      then [\<lparr>hostbytes = None, host_resize = None, echoack = Some (Some new_ack)\<rparr>] else [])
     @ (if old_screen \<noteq> new_screen then
          (if cols old_screen \<noteq> cols new_screen \<or> rows_count old_screen \<noteq> rows_count new_screen
           then [\<lparr>hostbytes = None,
                  host_resize = Some (Some (word_of_nat (cols new_screen)), Some (word_of_nat (rows_count new_screen))),
                  echoack = None\<rparr>] else [])
          @ (let update = vt_string (display_diff old_screen new_screen)
             in if update \<noteq> [] then [\<lparr>hostbytes = Some (Some (utf8 update)), host_resize = None, echoack = None\<rparr>] else [])
        else [])"

definition complete_diff_from :: "host_codec \<Rightarrow> 't complete \<Rightarrow> 't complete \<Rightarrow> bytes" where
  "complete_diff_from H s existing =
     hm_encode H (host_diff (screen s) (echo_ack s) (screen existing) (echo_ack existing))"

definition init_diff :: "'t emulator \<Rightarrow> host_codec \<Rightarrow> 't complete \<Rightarrow> string + bytes" where
  "init_diff em H s =
     (case complete_new em (cols (screen s)) (rows_count (screen s)) of
        Inl e \<Rightarrow> Inl e
      | Inr blank \<Rightarrow> Inr (complete_diff_from H s blank))"

text \<open>\<open>clamp(1, u16::MAX as i32) as u16\<close>.\<close>

definition clamp_u16 :: "i32 \<Rightarrow> nat" where
  "clamp_u16 w = nat (clamp 1 65535 (sint w))"

definition apply_host_instruction ::
  "'t emulator \<Rightarrow> host_instruction \<Rightarrow> 't complete \<Rightarrow> string option \<times> 't complete" where
  "apply_host_instruction em inst s =
     (case hostbytes inst of
        Some hb \<Rightarrow> (case hb of Some bs \<Rightarrow> complete_act em bs s | None \<Rightarrow> (None, s))
      | None \<Rightarrow>
          (case host_resize inst of
             Some (w, h) \<Rightarrow>
               complete_resize em (clamp_u16 (case_option 80 id w)) (clamp_u16 (case_option 24 id h)) s
           | None \<Rightarrow>
               (case echoack inst of
                  Some (Some num) \<Rightarrow> (None, s\<lparr>echo_ack := max (echo_ack s) num\<rparr>)
                | _ \<Rightarrow> (None, s))))"

fun apply_host_instructions ::
  "'t emulator \<Rightarrow> host_message \<Rightarrow> 't complete \<Rightarrow> string option \<times> 't complete" where
  "apply_host_instructions em [] s = (None, s)"
| "apply_host_instructions em (i # is) s =
     (case apply_host_instruction em i s of
        (Some e, s') \<Rightarrow> (Some e, s')
      | (None, s') \<Rightarrow> apply_host_instructions em is s')"

text \<open>
  \<open>apply_string\<close>. On an error the transport drops the copy it was applied to, so only the error is
  the result.
\<close>

definition complete_apply_string :: "'t emulator \<Rightarrow> host_codec \<Rightarrow> 't complete \<Rightarrow> bytes \<Rightarrow> string + 't complete" where
  "complete_apply_string em H s d =
     (case hm_decode H d of
        Inl e \<Rightarrow> Inl (''Malformed HostMessage from peer: '' @ e)
      | Inr msg \<Rightarrow>
          (case apply_host_instructions em msg s of
             (Some e, _) \<Rightarrow> Inl e
           | (None, s') \<Rightarrow> Inr s'))"

definition complete_state_equal :: "'t complete \<Rightarrow> 't complete \<Rightarrow> bool" where
  "complete_state_equal s other \<longleftrightarrow> echo_ack s = echo_ack other \<and> screen s = screen other"

definition complete_adopt_from :: "'t complete \<Rightarrow> 't complete \<Rightarrow> 't complete \<times> 't complete" where
  "complete_adopt_from s source =
     (if terminal s = None \<and> screen source = screen s
      then (s\<lparr>terminal := terminal source\<rparr>, source\<lparr>terminal := None\<rparr>) else (s, source))"

text \<open>The implementation of the trait; \<open>HAS_PREFIX\<close> and \<open>subtract\<close> are the defaults of \<open>state.rs\<close>.\<close>

definition complete_ops :: "'t emulator \<Rightarrow> host_codec \<Rightarrow> 't complete state_ops" where
  "complete_ops em H =
     \<lparr>has_prefix = False,
      state_clone = complete_clone,
      diff_from = complete_diff_from H,
      apply_string = complete_apply_string em H,
      subtract = (\<lambda>s _. s),
      state_equal = complete_state_equal,
      adopt_from = complete_adopt_from\<rparr>"

end
