(* ===== verification/Terminal.thy ===== *)
theory Terminal
  imports Complete
begin

text \<open>
  \<open>crates/morsh-terminal/src/terminal.rs\<close>: \<open>MoshTerminal\<close>, the wrapper of the emulator library
  \<open>libghostty-vt\<close>. The library is the parameter \<open>ghostty\<close>, with one field per call that the wrapper
  makes; a call that returns a \<open>Result\<close> gives an option where the wrapper drops the error and a sum
  where it reports it.
\<close>

section \<open>What the library returns\<close>

datatype cell_wide = Narrow | WideCell | SpacerTail | SpacerHead

datatype gh_color = NoColor | PaletteColor u8 | RgbColor rgb_color

datatype underline_kind = NoUnderline | SingleLine | DoubleLine | CurlyLine | DottedLine | DashedLine

record gh_style =
  fg_color :: gh_color
  bg_color :: gh_color
  gh_bold :: bool
  gh_italic :: bool
  gh_faint :: bool
  gh_blink :: bool
  gh_inverse :: bool
  gh_invisible :: bool
  gh_strikethrough :: bool
  gh_overline :: bool
  gh_underline :: underline_kind

record vt_cell =
  graphemes :: "rtext option"
  gh_cell_style :: "gh_style option"
  raw_wide :: "cell_wide option"

record render_view =
  cursor_viewport :: "(nat \<times> nat) option option"
  view_cursor_visible :: "bool option"
  view_colors :: "(rgb_color \<times> rgb_color \<times> rgb_color list) option"
  view_rows :: "string + (string + vt_cell list) list"

record 'g ghostty =
  gh_new :: "nat \<Rightarrow> nat \<Rightarrow> nat \<Rightarrow> string + 'g"
  vt_write :: "'g \<Rightarrow> bytes \<Rightarrow> 'g"
  gh_resize :: "'g \<Rightarrow> nat \<Rightarrow> nat \<Rightarrow> string option \<times> 'g"
  render_state_new :: "string option"
  render_update :: "'g \<Rightarrow> string + render_view"
  row_iterator_new :: "string option"
  cell_iterator_new :: "string option"
  gh_title :: "'g \<Rightarrow> rtext option"
  gh_mode :: "'g \<Rightarrow> nat \<Rightarrow> bool option"

section \<open>Conversions\<close>

definition convert_color :: "gh_color \<Rightarrow> style_color" where
  "convert_color c = (case c of NoColor \<Rightarrow> DefaultColor | PaletteColor i \<Rightarrow> Palette i | RgbColor k \<Rightarrow> Rgb k)"

definition convert_style :: "gh_style \<Rightarrow> cell_style" where
  "convert_style s =
     \<lparr>style_fg = convert_color (fg_color s), style_bg = convert_color (bg_color s), bold = gh_bold s,
      italic = gh_italic s, faint = gh_faint s, blink = gh_blink s, inverse_video = gh_inverse s,
      invisible = gh_invisible s, strikethrough = gh_strikethrough s, overline = gh_overline s,
      underline = (gh_underline s \<noteq> NoUnderline)\<rparr>"

text \<open>One cell: blanks are canonicalised, and a spacer has no text.\<close>

definition convert_cell :: "vt_cell \<Rightarrow> string + cell_data" where
  "convert_cell c =
     (case graphemes c of
        None \<Rightarrow> Inl ''Cell::graphemes failed''
      | Some t \<Rightarrow>
          (let style = (case gh_cell_style c of Some s \<Rightarrow> convert_style s | None \<Rightarrow> default_style);
               width = (case raw_wide c of Some w \<Rightarrow> w | None \<Rightarrow> Narrow);
               sp = (width = SpacerTail \<or> width = SpacerHead)
           in Inr \<lparr>cell_text = (if sp \<or> t = [32] then [] else t), wide = (width = WideCell), spacer = sp, cell_sgr = style\<rparr>))"

fun convert_cells :: "vt_cell list \<Rightarrow> string + cell_data list" where
  "convert_cells [] = Inr []"
| "convert_cells (c # cs) =
     (case convert_cell c of
        Inl e \<Rightarrow> Inl e
      | Inr d \<Rightarrow> (case convert_cells cs of Inl e \<Rightarrow> Inl e | Inr ds \<Rightarrow> Inr (d # ds)))"

text \<open>Short rows are padded, long ones kept.\<close>

definition pad_to :: "nat \<Rightarrow> 'a \<Rightarrow> 'a list \<Rightarrow> 'a list" where
  "pad_to n x xs = xs @ replicate (n - length xs) x"

fun convert_rows :: "nat \<Rightarrow> (string + vt_cell list) list \<Rightarrow> string + cell_data list list" where
  "convert_rows w [] = Inr []"
| "convert_rows w (r # rs) =
     (case r of
        Inl e \<Rightarrow> Inl (''CellIterator::update: '' @ e)
      | Inr cs \<Rightarrow>
          (case convert_cells cs of
             Inl e \<Rightarrow> Inl e
           | Inr ds \<Rightarrow>
               (case convert_rows w rs of Inl e \<Rightarrow> Inl e | Inr rest \<Rightarrow> Inr (pad_to w cell_empty ds # rest))))"

section \<open>\<open>MoshTerminal\<close>\<close>

record 'g mosh_terminal =
  gh :: 'g
  mt_cols :: nat
  mt_rows :: nat
  mt_frame :: u64

definition mosh_new :: "'g ghostty \<Rightarrow> nat \<Rightarrow> nat \<Rightarrow> nat \<Rightarrow> string + 'g mosh_terminal" where
  "mosh_new G w h max_scrollback =
     (case gh_new G w h max_scrollback of
        Inl e \<Rightarrow> Inl (''Failed to create terminal: '' @ e)
      | Inr g \<Rightarrow> Inr \<lparr>gh = g, mt_cols = w, mt_rows = h, mt_frame = 0\<rparr>)"

definition mosh_write :: "'g ghostty \<Rightarrow> 'g mosh_terminal \<Rightarrow> bytes \<Rightarrow> 'g mosh_terminal" where
  "mosh_write G t d = t\<lparr>gh := vt_write G (gh t) d\<rparr>"

text \<open>The wrapper notes the new size before it asks the library, and keeps it if the library refuses.\<close>

definition mosh_resize :: "'g ghostty \<Rightarrow> 'g mosh_terminal \<Rightarrow> nat \<Rightarrow> nat \<Rightarrow> string option \<times> 'g mosh_terminal" where
  "mosh_resize G t w h =
     (case gh_resize G (gh t) w h of
        (r, g) \<Rightarrow> (map_option (\<lambda>e. ''Resize failed: '' @ e) r, t\<lparr>gh := g, mt_cols := w, mt_rows := h\<rparr>))"

definition mosh_dimensions :: "'g mosh_terminal \<Rightarrow> nat \<times> nat" where
  "mosh_dimensions t = (mt_cols t, mt_rows t)"

definition next_frame :: "'g mosh_terminal \<Rightarrow> u64 \<times> 'g mosh_terminal" where
  "next_frame t = (mt_frame t, t\<lparr>mt_frame := mt_frame t + 1\<rparr>)"

definition mosh_mode :: "'g ghostty \<Rightarrow> 'g mosh_terminal \<Rightarrow> nat \<Rightarrow> bool" where
  "mosh_mode G t n = (case gh_mode G (gh t) n of Some b \<Rightarrow> b | None \<Rightarrow> False)"

definition mosh_mouse_reporting :: "'g ghostty \<Rightarrow> 'g mosh_terminal \<Rightarrow> mouse_reporting" where
  "mosh_mouse_reporting G t =
     (case find (\<lambda>(mode, _). mosh_mode G t mode)
             [(1003, AnyEvent), (1002, ButtonEvent), (1000, VT200), (9, X10)] of
        Some (_, v) \<Rightarrow> v
      | None \<Rightarrow> NoReporting)"

definition mosh_mouse_encoding :: "'g ghostty \<Rightarrow> 'g mosh_terminal \<Rightarrow> mouse_encoding" where
  "mosh_mouse_encoding G t =
     (case find (\<lambda>(mode, _). mosh_mode G t mode) [(1006, Sgr), (1015, Urxvt), (1005, Utf8)] of
        Some (_, v) \<Rightarrow> v
      | None \<Rightarrow> DefaultEncoding)"

definition snapshot_colors ::
  "(rgb_color \<times> rgb_color \<times> rgb_color list) option \<Rightarrow> rgb_color \<times> rgb_color \<times> rgb_color list" where
  "snapshot_colors c =
     (case c of
        Some (f, b, p) \<Rightarrow> (f, b, pad_to 256 (rgb 0 0 0) (take 256 p))
      | None \<Rightarrow> (rgb 255 255 255, rgb 0 0 0, replicate 256 (rgb 0 0 0)))"

text \<open>\<open>snapshot\<close>, once the library has delivered a view and its rows have been converted.\<close>

definition snapshot_of ::
  "'g ghostty \<Rightarrow> 'g mosh_terminal \<Rightarrow> render_view \<Rightarrow> cell_data list list \<Rightarrow> screen_snapshot" where
  "snapshot_of G t v rows =
     (let w = mt_cols t; h = mt_rows t;
          (x, y) = (case cursor_viewport v of
                      Some (Some (cx, cy)) \<Rightarrow> (min cx (w - 1), min cy (h - 1))
                    | _ \<Rightarrow> (0, 0));
          (f, b, p) = snapshot_colors (view_colors v)
      in \<lparr>grid = pad_to h (replicate w cell_empty) (take h rows), cols = w, rows_count = h,
          cursor_x = x, cursor_y = y,
          cursor_visible = (case view_cursor_visible v of Some b \<Rightarrow> b | None \<Rightarrow> True),
          title = (case gh_title G (gh t) of Some s \<Rightarrow> s | None \<Rightarrow> []),
          bracketed_paste = mosh_mode G t 2004, mouse_mode = mosh_mouse_reporting G t,
          mouse_enc = mosh_mouse_encoding G t, mouse_focus_event = mosh_mode G t 1004,
          mouse_alternate_scroll = mosh_mode G t 1007, snap_fg = f, snap_bg = b, palette = p\<rparr>)"

definition mosh_snapshot :: "'g ghostty \<Rightarrow> 'g mosh_terminal \<Rightarrow> string + screen_snapshot" where
  "mosh_snapshot G t =
     (case render_state_new G of
        Some e \<Rightarrow> Inl (''RenderState::new failed: '' @ e)
      | None \<Rightarrow>
          (case render_update G (gh t) of
             Inl e \<Rightarrow> Inl (''RenderState::update failed: '' @ e)
           | Inr v \<Rightarrow>
               (case row_iterator_new G of
                  Some e \<Rightarrow> Inl (''RowIterator::new: '' @ e)
                | None \<Rightarrow>
                    (case cell_iterator_new G of
                       Some e \<Rightarrow> Inl (''CellIterator::new: '' @ e)
                     | None \<Rightarrow>
                         (case view_rows v of
                            Inl e \<Rightarrow> Inl (''RowIterator::update: '' @ e)
                          | Inr rows \<Rightarrow>
                              (case convert_rows (mt_cols t) rows of
                                 Inl e \<Rightarrow> Inl e
                               | Inr rs \<Rightarrow> Inr (snapshot_of G t v rs)))))))"

text \<open>What \<open>complete.rs\<close> uses of a \<open>MoshTerminal\<close>, which it creates without scrollback.\<close>

definition mosh_emulator :: "'g ghostty \<Rightarrow> 'g mosh_terminal emulator" where
  "mosh_emulator G =
     \<lparr>em_new = (\<lambda>w h. mosh_new G w h 0), em_write = mosh_write G, em_resize = mosh_resize G,
      em_snapshot = mosh_snapshot G\<rparr>"

section \<open>Snapshots are well formed\<close>

lemma length_pad_to [simp]: "length (pad_to n x xs) = max n (length xs)"
  by (simp add: pad_to_def)

lemma pad_to_full [simp]: "length xs = n \<Longrightarrow> pad_to n x xs = xs"
  by (simp add: pad_to_def)

lemma set_pad_to: "y \<in> set (pad_to n x xs) \<Longrightarrow> y = x \<or> y \<in> set xs"
  by (auto simp: pad_to_def)

lemma snapshot_of_dims [simp]:
  "cols (snapshot_of G t v rows) = mt_cols t" "rows_count (snapshot_of G t v rows) = mt_rows t"
  "length (grid (snapshot_of G t v rows)) = mt_rows t"
  by (simp_all add: snapshot_of_def Let_def split_beta)

lemma snapshot_of_cursor:
  "mt_cols t > 0 \<Longrightarrow> cursor_x (snapshot_of G t v rows) < mt_cols t"
  "mt_rows t > 0 \<Longrightarrow> cursor_y (snapshot_of G t v rows) < mt_rows t"
  by (auto simp: snapshot_of_def Let_def split_beta split: option.splits prod.splits)

lemma convert_cells_length: "convert_cells cs = Inr ds \<Longrightarrow> length ds = length cs"
  by (induction cs arbitrary: ds) (auto split: sum.splits)

lemma convert_rows_all:
  assumes "convert_rows w rows = Inr rs"
  shows "length rs = length rows \<and> (\<forall>i<length rows. \<exists>cs ds. rows ! i = Inr cs \<and> convert_cells cs = Inr ds \<and> rs ! i = pad_to w cell_empty ds)"
  using assms
proof (induction rows arbitrary: rs)
  case (Cons r rows)
  then obtain cs ds rest where r: "r = Inr cs" "convert_cells cs = Inr ds" "convert_rows w rows = Inr rest"
    "rs = pad_to w cell_empty ds # rest" by (auto split: sum.splits)
  then show ?case using Cons.IH [OF r(3)] by (auto simp: nth_Cons split: nat.splits)
qed simp

end
