(* ===== verification/Emulator.thy ===== *)
theory Emulator
  imports Complete Display_Laws
begin

text \<open>
  What \<open>complete.rs\<close> relies on of the terminal emulator, as a locale, and what follows for the states
  it synchronizes. \<open>vw\<close> is the abstract terminal an emulator realizes. Its output is only asked to be
  right for what the program writes: one grapheme per \<open>Print\<close>, titles without control characters, the
  modes and graphic renditions that \<open>display.rs\<close> uses and no others.
\<close>

definition title_ok :: "rtext \<Rightarrow> bool" where
  "title_ok t \<longleftrightarrow> (\<forall>c\<in>set t. 32 \<le> c \<and> is_char c)"

text \<open>The parameters of SGR that \<open>style_params\<close> gives.\<close>

fun sgr_ok :: "nat list \<Rightarrow> bool" where
  "sgr_ok [] = True"
| "sgr_ok (p # ps) =
     (if p = 38 \<or> p = 48 then
        (case ps of
           k # r # qs \<Rightarrow>
             if k = 5 then r < 256 \<and> sgr_ok qs
             else if k = 2 then (case qs of g # b # rest \<Rightarrow> r < 256 \<and> g < 256 \<and> b < 256 \<and> sgr_ok rest | _ \<Rightarrow> False)
             else False
         | _ \<Rightarrow> False)
      else p \<in> {0, 1, 2, 3, 4, 5, 7, 8, 9, 53} \<and> sgr_ok ps)"

definition written_modes :: "nat set" where
  "written_modes = {25, 2004, 1004, 1007, 9, 1000, 1002, 1003, 1005, 1006, 1015}"

lemma written_modes_in [simp]:
  "25 \<in> written_modes" "2004 \<in> written_modes" "1004 \<in> written_modes" "1007 \<in> written_modes"
  "m \<noteq> NoReporting \<Longrightarrow> reporting_mode m \<in> written_modes" "m' \<noteq> DefaultEncoding \<Longrightarrow> encoding_mode m' \<in> written_modes"
  by (cases m; cases m'; simp add: written_modes_def)+

fun op_ok :: "(rtext \<Rightarrow> bool) \<Rightarrow> vt \<Rightarrow> bool" where
  "op_ok grapheme (Print t) = grapheme t"
| "op_ok grapheme (Title t) = title_ok t"
| "op_ok grapheme (SetSgr ps) = (ps \<noteq> [] \<and> sgr_ok ps)"
| "op_ok grapheme (Mode n on) = (n \<in> written_modes)"
| "op_ok grapheme _ = True"

text \<open>
  A screen as the emulator reports it: blank cells without text, the right half of a wide glyph
  empty, the colours of the palette unchanged, and dimensions that fit \<open>u16\<close>.
\<close>

definition cell_canon :: "(rtext \<Rightarrow> bool) \<Rightarrow> cell_data \<Rightarrow> bool" where
  "cell_canon grapheme c \<longleftrightarrow>
     (if spacer c then cell_text c = [] else cell_text c = [] \<or> cell_text c \<noteq> [32] \<and> grapheme (cell_text c))"

definition good_screen ::
  "(rtext \<Rightarrow> bool) \<Rightarrow> (rtext \<Rightarrow> bool) \<Rightarrow> rgb_color \<times> rgb_color \<times> rgb_color list \<Rightarrow> screen_snapshot \<Rightarrow> bool" where
  "good_screen ww grapheme colors S \<longleftrightarrow> snap_wf ww S \<and> (\<forall>row\<in>set (grid S). \<forall>c\<in>set row. cell_canon grapheme c)
     \<and> title_ok (title S) \<and> cols S \<le> 65535 \<and> rows_count S \<le> 65535
     \<and> (snap_fg S, snap_bg S, palette S) = colors"

section \<open>A terminal displays one good screen\<close>

lemma show_cell_canon:
  assumes "cell_canon g c" "cell_canon g d" "show_cell c = show_cell d"
  shows "spacer c = spacer d \<and> cell_text c = cell_text d \<and> (\<not> spacer c \<longrightarrow> c = d)"
proof (cases "spacer c")
  case True
  then have "spacer d" using assms(3) by (auto simp: show_cell_def split: if_splits)
  then show ?thesis using True assms by (simp add: cell_canon_def)
next
  case False
  then have d: "\<not> spacer d" using assms(3) by (auto simp: show_cell_def split: if_splits)
  have g: "glyph c = glyph d" "wide c = wide d" "cell_sgr c = cell_sgr d"
    using assms(3) False d by (simp_all add: show_cell_def)
  have "cell_text c = cell_text d"
    using g(1) assms(1,2) False d by (auto simp: glyph_def cell_canon_def split: if_splits)
  then show ?thesis using g False d by simp
qed

lemma row_canon_unique:
  assumes "row_wf ww r" "row_wf ww s" "length r = length s" "\<forall>c\<in>set r. cell_canon g c" "\<forall>c\<in>set s. cell_canon g c"
    and "\<forall>x<length s. show_cell (r ! x) = show_cell (s ! x)"
  shows "r = s"
proof (rule nth_equalityI [OF assms(3)])
  fix x assume x: "x < length r"
  have eq: "spacer (r ! y) = spacer (s ! y) \<and> cell_text (r ! y) = cell_text (s ! y) \<and> (\<not> spacer (r ! y) \<longrightarrow> r ! y = s ! y)"
    if "y < length r" for y
    using that assms(3-6) by (intro show_cell_canon [of g]) simp_all
  show "r ! x = s ! x"
  proof (cases "spacer (r ! x)")
    case False
    then show ?thesis using eq [OF x] by simp
  next
    case True
    note wr = assms(1) [unfolded row_wf_def, rule_format] and ws = assms(2) [unfolded row_wf_def, rule_format]
    have r: "0 < x" "wide (r ! (x - 1))" "\<not> wide (r ! x)" using wr [OF x] True by blast+
    have xs: "x < length s" and x1: "x - 1 < length r" "x - 1 < length s" using x assms(3) by simp_all
    have s: "spacer (s ! x)" using True eq [OF x] by simp
    then have sw: "\<not> wide (s ! x)" using ws [OF xs] by blast
    have "\<not> spacer (r ! (x - 1))" using r(2) wr [OF x1(1)] by blast
    then have prev: "r ! (x - 1) = s ! (x - 1)" using eq [OF x1(1)] by simp
    have "cell_sgr (r ! x) = cell_sgr (r ! (x - 1))" using wr [OF x1(1)] r(1,2) by simp
    moreover have "cell_sgr (s ! x) = cell_sgr (s ! (x - 1))" using ws [OF x1(2)] r(1,2) prev by simp
    ultimately show ?thesis using r(3) s sw True eq [OF x] prev by simp
  qed
qed

lemma mode_unique:
  assumes "shows_modes T S" "shows_modes T S'"
  shows "bracketed_paste S = bracketed_paste S'" "mouse_focus_event S = mouse_focus_event S'"
    "mouse_alternate_scroll S = mouse_alternate_scroll S'" "mouse_mode S = mouse_mode S'" "mouse_enc S = mouse_enc S'"
proof -
  show "mouse_mode S = mouse_mode S'"
    using assms by (cases "mouse_mode S"; cases "mouse_mode S'") (simp_all add: shows_modes_def)
  show "mouse_enc S = mouse_enc S'"
    using assms by (cases "mouse_enc S"; cases "mouse_enc S'") (simp_all add: shows_modes_def)
qed (use assms in \<open>simp_all add: shows_modes_def\<close>)

lemma display_unique:
  assumes "good_screen ww g cl S" "good_screen ww g cl S'" "displays T S" "displays T S'"
  shows "S = S'"
proof -
  note G = assms(1,2) [unfolded good_screen_def]
  have wf: "snap_wf ww S" "snap_wf ww S'" using G by simp_all
  note W = snap_wf_rows [OF wf(1)] snap_wf_rows [OF wf(2)]
  have dims: "cols S = cols S'" "rows_count S = rows_count S'" using assms(3,4) by (simp_all add: displays_def)
  have "grid S = grid S'"
  proof (rule nth_equalityI)
    show "length (grid S) = length (grid S')" using W dims by simp
    fix y assume y: "y < length (grid S)"
    have rows: "row_shown T y (grid S ! y)" "row_shown T y (grid S' ! y)"
      using assms(3,4) shows_grid_rows [OF wf(1), of T] shows_grid_rows [OF wf(2), of T] y W dims
      by (simp_all add: displays_def)
    have y': "y < length (grid S')" using y W dims by simp
    show "grid S ! y = grid S' ! y"
    proof (rule row_canon_unique [of ww _ _ g])
      show "length (grid S ! y) = length (grid S' ! y)" using W dims y y' by simp
      then show "\<forall>x<length (grid S' ! y). show_cell (grid S ! y ! x) = show_cell (grid S' ! y ! x)"
        using rows by (simp add: row_shown_def)
    qed (use G W nth_mem [OF y] nth_mem [OF y'] in \<open>blast+\<close>)
  qed
  moreover have "snap_fg S = snap_fg S'" "snap_bg S = snap_bg S'" "palette S = palette S'" using G by auto
  moreover have "cursor_x S = cursor_x S'" "cursor_y S = cursor_y S'" "cursor_visible S = cursor_visible S'"
      "title S = title S'" "shows_modes T S" "shows_modes T S'"
    using assms(3,4) by (simp_all add: displays_def)
  ultimately show ?thesis using dims mode_unique [of T S S'] by simp
qed

section \<open>What the program writes\<close>

lemma sgr_ok_append: "sgr_ok ps \<Longrightarrow> sgr_ok (ps @ qs) = sgr_ok qs"
proof (induction ps rule: sgr_ok.induct)
  case (2 p ps)
  show ?case
  proof (cases "p = 38 \<or> p = 48")
    case True
    then obtain k r rest where ps: "ps = k # r # rest" using 2(4) by (auto split: list.splits)
    show ?thesis
    proof (cases "k = 5")
      case True
      then show ?thesis using \<open>p = 38 \<or> p = 48\<close> 2 ps by auto
    next
      case False
      then obtain g b rest' where "k = 2" "rest = g # b # rest'" using 2(4) \<open>p = 38 \<or> p = 48\<close> ps by (auto split: if_splits list.splits)
      then show ?thesis using \<open>p = 38 \<or> p = 48\<close> 2 ps by auto
    qed
  next
    case False
    then show ?thesis using 2 by auto
  qed
qed simp

lemma byte_bound: "unat (b :: 8 word) < 256"
  using unsigned_less [of b] by simp

lemma color_params_ok: "sgr_ok (color_params 38 c)" "sgr_ok (color_params 48 c)"
  by (auto simp: color_params_def byte_bound split: style_color.splits)

lemma style_params_ok: "sgr_ok (style_params s)"
proof -
  have "sgr_ok (if b then [n] else [])" if "n \<in> {1, 2, 3, 4, 5, 7, 8, 9, 53}" for b n using that by auto
  then show ?thesis unfolding style_params_def by (simp add: sgr_ok_append color_params_ok)
qed

lemma style_on_ok: "op \<in> set (style_on s) \<Longrightarrow> op_ok g op"
  using style_params_ok by (auto simp: style_on_def split: if_splits)

lemma cell_print_ok: "cell_canon g c \<Longrightarrow> g [32] \<Longrightarrow> \<not> spacer c \<Longrightarrow> op_ok g (cell_print c)"
  by (auto simp: cell_print_def cell_canon_def)

lemma cell_print_spacer: "cell_canon g c \<Longrightarrow> g [32] \<Longrightarrow> op_ok g (cell_print c)"
  by (auto simp: cell_print_def cell_canon_def split: if_splits)

lemma redraw_row_ok:
  assumes "\<forall>c\<in>set row. cell_canon g c" and "g [32]"
  shows "\<forall>op\<in>set (fst (redraw_row row x p)). op_ok g op"
proof (induction "length row - x" arbitrary: x p rule: less_induct)
  case less
  show ?case
  proof (cases "x < length row")
    case True
    let ?x = "x + (if wide (row ! x) then 2 else 1)"
    have "op_ok g (cell_print (row ! x))" using assms True by (simp add: cell_print_spacer)
    moreover have "\<forall>op\<in>set (fst (redraw_row row ?x (cell_sgr (row ! x)))). op_ok g op"
      using True by (intro less.hyps) auto
    ultimately show ?thesis
      using True style_on_ok by (subst redraw_row.simps) (auto simp: Let_def split_beta)
  next
    case False
    then show ?thesis by (subst redraw_row.simps) simp
  qed
qed

lemma redraw_rows_ok:
  assumes "\<forall>row\<in>set rows. \<forall>c\<in>set row. cell_canon g c" and "g [32]"
  shows "\<forall>op\<in>set (redraw_rows y rows p). op_ok g op"
  using assms
proof (induction rows arbitrary: y p)
  case (Cons row rows)
  then have "\<forall>op\<in>set (fst (redraw_row row 0 p)). op_ok g op" by (intro redraw_row_ok) simp_all
  then show ?case using Cons by (auto simp: split_beta)
qed simp

lemma state_changes_ok:
  assumes "title_ok (title new)"
  shows "\<forall>op\<in>set (state_changes old new). op_ok g op"
proof -
  have "op_ok g op" if "op \<in> set (title_changes old new)" for op
    using that assms by (auto simp: title_changes_def split: if_splits)
  moreover have "op_ok g op" if "op \<in> set (flag_changes old new)" for op
    using that by (auto simp: flag_changes_def split: if_splits)
  moreover have "op_ok g op" if "op \<in> set (reporting_changes old new)" for op
    using that by (auto simp: reporting_changes_def simp del: reporting_mode.simps split: if_split_asm)
  moreover have "op_ok g op" if "op \<in> set (encoding_changes old new)" for op
    using that by (auto simp: encoding_changes_def simp del: encoding_mode.simps split: if_split_asm)
  ultimately show ?thesis unfolding state_changes_parts by auto
qed

lemma diff_row_ok:
  assumes "n \<le> length new" and "\<forall>c\<in>set new. cell_canon g c" and "g [32]"
  shows "\<forall>op\<in>set (diff_row n y old new x p pos). op_ok g op"
proof (induction "n - x" arbitrary: x p pos rule: less_induct)
  case less
  show ?case
  proof (cases "x < n")
    case True
    then have "op_ok g (cell_print (new ! x))" using assms by (simp add: cell_print_spacer)
    moreover have "\<forall>op\<in>set (diff_row n y old new (x + 2) q r). op_ok g op"
      "\<forall>op\<in>set (diff_row n y old new (x + 1) q r). op_ok g op" for q r
      using True by (intro less.hyps; simp)+
    ultimately show ?thesis
      using True style_on_ok by (subst diff_row.simps) (auto simp: Let_def)
  next
    case False
    then show ?thesis by (subst diff_row.simps) simp
  qed
qed

lemma full_redraw_ok:
  assumes "good_screen ww g cl S" and "g [32]"
  shows "\<forall>op\<in>set (full_redraw S). op_ok g op"
  using assms redraw_rows_ok [of "grid S" g 0 default_style] state_changes_ok [of S None g]
  by (auto simp: full_redraw_def good_screen_def)

lemma display_diff_ok:
  assumes new: "good_screen ww g cl new" and "g [32]"
  shows "\<forall>op\<in>set (display_diff old new). op_ok g op"
proof (cases "cols old = cols new \<and> rows_count old = rows_count new")
  case False
  then show ?thesis using full_redraw_ok [OF assms] by (auto simp: display_diff_def)
next
  case True
  have N: "snap_wf ww new" "\<forall>row\<in>set (grid new). \<forall>c\<in>set row. cell_canon g c" "title_ok (title new)"
    using new by (simp_all add: good_screen_def)
  obtain ops rows first where stage: "scroll_stage old new = (ops, rows, first)" by (metis prod_cases3)
  have "\<forall>op\<in>set ops. op_ok g op"
    using stage by (auto simp: scroll_stage_def emit_scroll_def Let_def split: option.splits if_splits)
  moreover have "\<forall>op\<in>set (diff_rows (cols new) first (rows_count new) rows (grid new)). op_ok g op"
  proof -
    have "\<forall>op\<in>set (diff_row (cols new) y o' (grid new ! y) 0 default_style None). op_ok g op" if "y < rows_count new" for y o'
      using that snap_wf_rows [OF N(1)] N(2) by (intro diff_row_ok [where g = g, OF _ _ assms(2)]) auto
    then show ?thesis by (auto simp: diff_rows_def)
  qed
  ultimately show ?thesis
    using True state_changes_ok [OF N(3), of "Some old" g]
    by (auto simp: display_diff_stages [OF _ _ stage] Let_def)
qed

lemma vt_text_nonempty: "op_ok g op \<Longrightarrow> \<not> g [] \<Longrightarrow> vt_text op \<noteq> []"
  by (cases op) auto

lemma vt_string_empty: "\<forall>op\<in>set ops. op_ok g op \<Longrightarrow> \<not> g [] \<Longrightarrow> vt_string ops = [] \<longleftrightarrow> ops = []"
  using vt_text_nonempty by (cases ops) (auto simp: vt_string_def)

section \<open>What is asked of the emulator\<close>

text \<open>
  \<open>vw t\<close> is the abstract terminal that the emulator \<open>t\<close> realizes; \<open>ok t\<close> says that \<open>t\<close> is consistent and has only
  ever been written to by this program. The laws speak about such emulators, about the control functions
  the program writes, and about a write only when it ends in a screen that the standards determine.
\<close>

locale terminal_emulator =
  fixes em :: "'t emulator" and vw :: "'t \<Rightarrow> vterm" and ok :: "'t \<Rightarrow> bool" and ww :: "rtext \<Rightarrow> bool"
    and grapheme :: "rtext \<Rightarrow> bool" and colors :: "rgb_color \<times> rgb_color \<times> rgb_color list"
  assumes space: "\<not> ww [32]" "grapheme [32]" "\<not> grapheme []"
    and new_ok: "0 < w \<Longrightarrow> w \<le> 65535 \<Longrightarrow> 0 < h \<Longrightarrow> h \<le> 65535 \<Longrightarrow>
      \<exists>t S. em_new em w h = Inr t \<and> ok t \<and> displays (vw t) S \<and> good_screen ww grapheme colors S
        \<and> cols S = w \<and> rows_count S = h \<and> title S = []"
    and write_ok: "ok t \<Longrightarrow> \<forall>op\<in>set ops. op_ok grapheme op \<Longrightarrow> vt_exec ww ops (vw t) = Some T \<Longrightarrow>
      displays T S \<Longrightarrow> good_screen ww grapheme colors S \<Longrightarrow>
      ok (em_write em t (utf8 (vt_string ops))) \<and> displays (vw (em_write em t (utf8 (vt_string ops)))) S"
    and resize_ok: "ok t \<Longrightarrow> 0 < w \<Longrightarrow> w \<le> 65535 \<Longrightarrow> 0 < h \<Longrightarrow> h \<le> 65535 \<Longrightarrow>
      \<exists>t'. em_resize em t w h = (None, t') \<and> ok t' \<and> vt_cols (vw t') = w \<and> vt_rows (vw t') = h
        \<and> vt_title (vw t') = vt_title (vw t)"
    and snapshot_ok: "ok t \<Longrightarrow> good_screen ww grapheme colors S \<Longrightarrow> displays (vw t) S \<Longrightarrow> em_snapshot em t = Inr S"
begin

abbreviation good :: "screen_snapshot \<Rightarrow> bool" where
  "good \<equiv> good_screen ww grapheme colors"

text \<open>A state whose screen is good and whose emulator, if it has one, displays it.\<close>

definition live_state :: "'t complete \<Rightarrow> bool" where
  "live_state s \<longleftrightarrow> good (screen s) \<and> (\<forall>t. terminal s = Some t \<longrightarrow> ok t \<and> displays (vw t) (screen s))"

lemma good_dims: "good S \<Longrightarrow> 0 < cols S \<and> cols S \<le> 65535 \<and> 0 < rows_count S \<and> rows_count S \<le> 65535"
  by (auto simp: good_screen_def snap_wf_def)

lemma good_wf: "good S \<Longrightarrow> snap_wf ww S"
  by (simp add: good_screen_def)

text \<open>Writing a redraw or a difference.\<close>

lemma write_redraw:
  assumes "good S" "ok t" "vt_cols (vw t) = cols S" "vt_rows (vw t) = rows_count S" "title S \<noteq> [] \<or> vt_title (vw t) = []"
  shows "ok (em_write em t (utf8 (vt_string (full_redraw S)))) \<and> displays (vw (em_write em t (utf8 (vt_string (full_redraw S))))) S"
proof -
  obtain T where "vt_exec ww (full_redraw S) (vw t) = Some T" "displays T S"
    using full_redraw_exec [OF good_wf [OF assms(1)] space(1) assms(4,3,5)] by blast
  then show ?thesis using write_ok [OF assms(2) full_redraw_ok [OF assms(1) space(2)] _ _ assms(1)] by simp
qed

lemma write_diff:
  assumes "good old" "good new" "ok t" "displays (vw t) old" "cols old = cols new" "rows_count old = rows_count new"
  shows "ok (em_write em t (utf8 (vt_string (display_diff old new)))) \<and> displays (vw (em_write em t (utf8 (vt_string (display_diff old new))))) new"
proof -
  obtain T where "vt_exec ww (display_diff old new) (vw t) = Some T" "displays T new"
    using display_diff_exec [OF good_wf [OF assms(1)] good_wf [OF assms(2)] space(1) assms(5,6,4)] by blast
  then show ?thesis using write_ok [OF assms(3) display_diff_ok [OF assms(2) space(2)] _ _ assms(2)] by simp
qed

lemma terminal_mut_live:
  assumes "live_state s"
  shows "\<exists>t. terminal_mut em s = Inr t \<and> ok t \<and> displays (vw t) (screen s)"
proof (cases "terminal s")
  case None
  have g: "good (screen s)" using assms by (simp add: live_state_def)
  obtain t S where t: "em_new em (cols (screen s)) (rows_count (screen s)) = Inr t" "ok t" "displays (vw t) S"
    "cols S = cols (screen s)" "rows_count S = rows_count (screen s)" "title S = []"
    using new_ok good_dims [OF g] by blast
  then have "vt_cols (vw t) = cols (screen s)" "vt_rows (vw t) = rows_count (screen s)" "vt_title (vw t) = []"
    by (simp_all add: displays_def)
  then show ?thesis using t None write_redraw [OF g, of t] by (simp add: terminal_mut_def)
next
  case (Some t)
  then show ?thesis using assms by (simp add: terminal_mut_def live_state_def)
qed

lemma diff_empty_same:
  assumes "good old" "good new" "vt_string (display_diff old new) = []"
  shows "old = new"
proof -
  have ops: "display_diff old new = []"
    using vt_string_empty [OF display_diff_ok [OF assms(2) space(2)] space(3)] assms(3) by blast
  then have dims: "cols old = cols new" "rows_count old = rows_count new"
    by (auto simp: display_diff_def full_redraw_def split: if_splits)
  have "live_state \<lparr>terminal = None, screen = old, echo_ack = 0, input_history = []\<rparr>"
    using assms(1) by (simp add: live_state_def)
  then obtain t where t: "ok t" "displays (vw t) old" using terminal_mut_live by fastforce
  obtain T where "vt_exec ww (display_diff old new) (vw t) = Some T" "displays T new"
    using display_diff_exec [OF good_wf [OF assms(1)] good_wf [OF assms(2)] space(1) dims t(2)] by blast
  then show ?thesis using ops t(2) display_unique [OF assms(1,2)] by simp
qed

end

end
