(* ===== verification/Terminal_Laws.thy ===== *)
theory Terminal_Laws
  imports Terminal Emulator
begin

text \<open>
  What \<open>terminal.rs\<close> relies on of \<open>libghostty-vt\<close>, and that a \<open>MoshTerminal\<close> on top of it is an emulator
  as \<open>complete.rs\<close> needs it.
\<close>

definition cell_shows :: "(nat \<Rightarrow> vcell) \<Rightarrow> nat \<Rightarrow> vt_cell \<Rightarrow> bool" where
  "cell_shows row x c \<longleftrightarrow>
     (case row x of
        Glyph t w s \<Rightarrow>
          (graphemes c = Some t \<or> t = [32] \<and> graphemes c = Some []) \<and> raw_wide c = Some (if w then WideCell else Narrow)
          \<and> map_option convert_style (gh_cell_style c) = Some s
      | Tail \<Rightarrow>
          graphemes c \<noteq> None \<and> raw_wide c = Some SpacerTail
          \<and> (\<forall>t w s. 0 < x \<and> row (x - 1) = Glyph t w s \<longrightarrow> map_option convert_style (gh_cell_style c) = Some s)
      | Open \<Rightarrow> True)"

text \<open>A view that renders the terminal \<open>T\<close>. Where the cursor is past the right margin nothing is said about it.\<close>

definition view_shows :: "rgb_color \<times> rgb_color \<times> rgb_color list \<Rightarrow> vterm \<Rightarrow> render_view \<Rightarrow> bool" where
  "view_shows colors T v \<longleftrightarrow>
     (vt_x T < vt_cols T \<longrightarrow> cursor_viewport v = Some (Some (vt_x T, vt_y T)))
     \<and> view_cursor_visible v = Some (modes T 25) \<and> view_colors v = Some colors
     \<and> (\<exists>rows. view_rows v = Inr (map Inr rows) \<and> length rows = vt_rows T
          \<and> (\<forall>y<vt_rows T. length (rows ! y) = vt_cols T \<and> (\<forall>x<vt_cols T. cell_shows (scr T y) x (rows ! y ! x))))"

lemma convert_cell_shows:
  assumes "cell_shows row x c" "row x = show_cell d" "cell_canon g d"
    and "spacer d \<longrightarrow> \<not> wide d \<and> 0 < x \<and> row (x - 1) = Glyph t w (cell_sgr d)"
  shows "convert_cell c = Inr d"
proof (cases "spacer d")
  case True
  then have "cell_text d = []" using assms(3) by (simp add: cell_canon_def)
  then show ?thesis using True assms by (auto simp: cell_shows_def show_cell_def convert_cell_def Let_def)
next
  case False
  then have t: "graphemes c = Some (glyph d) \<or> glyph d = [32] \<and> graphemes c = Some []"
    "raw_wide c = Some (if wide d then WideCell else Narrow)" "map_option convert_style (gh_cell_style c) = Some (cell_sgr d)"
    using assms(1,2) by (auto simp: cell_shows_def show_cell_def)
  have "cell_text d = [] \<or> cell_text d \<noteq> [32]" using assms(3) False by (auto simp: cell_canon_def)
  then show ?thesis using t False by (auto simp: convert_cell_def Let_def glyph_def split: if_splits)
qed

lemma convert_cells_shows:
  assumes "row_wf ww r" "\<forall>d\<in>set r. cell_canon g d" "length cs = length r"
    and "\<forall>x<length r. cell_shows row x (cs ! x) \<and> row x = show_cell (r ! x)"
  shows "convert_cells cs = Inr r"
proof -
  have each: "convert_cell (cs ! x) = Inr (r ! x)" if x: "x < length r" for x
  proof -
    have "\<exists>t w. spacer (r ! x) \<longrightarrow> \<not> wide (r ! x) \<and> 0 < x \<and> row (x - 1) = Glyph t w (cell_sgr (r ! x))"
    proof (cases "spacer (r ! x)")
      case True
      note wf = assms(1) [unfolded row_wf_def, rule_format]
      have p: "0 < x" "wide (r ! (x - 1))" "\<not> wide (r ! x)" using wf [OF x] True by blast+
      have x1: "x - 1 < length r" using x by simp
      have "\<not> spacer (r ! (x - 1))" "cell_sgr (r ! x) = cell_sgr (r ! (x - 1))"
        using wf [OF x1] p by auto
      then show ?thesis using assms(4) x1 p by (auto simp: show_cell_def)
    qed simp
    then show ?thesis using convert_cell_shows [of row x "cs ! x" "r ! x" g] assms(2,4) x by auto
  qed
  have "convert_cells cs = Inr r" if "length cs = length r" "\<And>x. x < length r \<Longrightarrow> convert_cell (cs ! x) = Inr (r ! x)" for cs r
    using that
  proof (induction cs arbitrary: r)
    case (Cons c cs)
    then obtain d ds where r: "r = d # ds" by (cases r) auto
    have "convert_cell c = Inr d" using Cons.prems(2) [of 0] r by simp
    moreover have "convert_cells cs = Inr ds"
    proof (rule Cons.IH)
      show "length cs = length ds" using Cons.prems(1) r by simp
      show "convert_cell (cs ! x) = Inr (ds ! x)" if "x < length ds" for x
        using Cons.prems(2) [of "Suc x"] that r by simp
    qed
    ultimately show ?case using r by simp
  qed simp
  then show ?thesis using assms(3) each by blast
qed

lemma convert_rows_shows:
  assumes "\<forall>i<length rs. length (rs ! i) = w \<and> convert_cells (rows ! i) = Inr (rs ! i)" "length rows = length rs"
  shows "convert_rows w (map Inr rows) = Inr rs"
  using assms
proof (induction rows arbitrary: rs)
  case (Cons r rows)
  then obtain d ds where rs: "rs = d # ds" by (cases rs) auto
  have "convert_rows w (map Inr rows) = Inr ds" using Cons.prems rs by (intro Cons.IH) auto
  moreover have "length d = w \<and> convert_cells r = Inr d" using Cons.prems(1) rs by auto
  ultimately show ?case using rs by simp
qed simp

text \<open>
  \<open>vw g\<close> is what the terminal \<open>g\<close> of the library shows. \<open>tame g\<close> says that \<open>g\<close> is as it was made but for the
  writes of this program and resizes: no alternate screen, no origin or insert mode, no changed palette, no
  half-read control sequence. Nothing is asked of any other terminal, such as the server's, which the
  shell writes to; nor of what a write leaves where the standards leave it open.
\<close>

locale ghostty_library =
  fixes G :: "'g ghostty" and vw :: "'g \<Rightarrow> vterm" and tame :: "'g \<Rightarrow> bool" and ww :: "rtext \<Rightarrow> bool" and grapheme :: "rtext \<Rightarrow> bool"
    and colors :: "rgb_color \<times> rgb_color \<times> rgb_color list"
  assumes gh_space: "\<not> ww [32]" "grapheme [32]" "\<not> grapheme []"
    and palette_full: "length (snd (snd colors)) = 256"
    and gh_new_ok: "0 < w \<Longrightarrow> w \<le> 65535 \<Longrightarrow> 0 < h \<Longrightarrow> h \<le> 65535 \<Longrightarrow>
      \<exists>g S. gh_new G w h 0 = Inr g \<and> tame g \<and> displays (vw g) S \<and> good_screen ww grapheme colors S
        \<and> cols S = w \<and> rows_count S = h \<and> title S = []"
    and gh_write_ok: "tame g \<Longrightarrow> \<forall>op\<in>set ops. op_ok grapheme op \<Longrightarrow> vt_exec ww ops (vw g) = Some T \<Longrightarrow>
      displays T S \<Longrightarrow> good_screen ww grapheme colors S \<Longrightarrow>
      tame (vt_write G g (utf8 (vt_string ops))) \<and> displays (vw (vt_write G g (utf8 (vt_string ops)))) S"
    and gh_resize_ok: "tame g \<Longrightarrow> 0 < w \<Longrightarrow> w \<le> 65535 \<Longrightarrow> 0 < h \<Longrightarrow> h \<le> 65535 \<Longrightarrow>
      \<exists>g'. gh_resize G g w h = (None, g') \<and> tame g' \<and> vt_cols (vw g') = w \<and> vt_rows (vw g') = h \<and> vt_title (vw g') = vt_title (vw g)"
    and gh_iterators: "render_state_new G = None" "row_iterator_new G = None" "cell_iterator_new G = None"
    and gh_view: "tame g \<Longrightarrow> \<exists>v. render_update G g = Inr v \<and> view_shows colors (vw g) v"
    and gh_title_ok: "tame g \<Longrightarrow> case_option [] (\<lambda>s. s) (gh_title G g) = vt_title (vw g)"
    and gh_mode_ok: "tame g \<Longrightarrow> n \<in> {2004, 1004, 1007, 9, 1000, 1002, 1003, 1005, 1006, 1015} \<Longrightarrow> gh_mode G g n = Some (modes (vw g) n)"
begin

text \<open>The wrapper is consistent when its terminal is tame and the size it remembers is the terminal's.\<close>

definition wrapper_ok :: "'g mosh_terminal \<Rightarrow> bool" where
  "wrapper_ok t \<longleftrightarrow> tame (gh t) \<and> mt_cols t = vt_cols (vw (gh t)) \<and> mt_rows t = vt_rows (vw (gh t))"

lemma mosh_mode_ok: "tame (gh t) \<Longrightarrow> n \<in> {2004, 1004, 1007, 9, 1000, 1002, 1003, 1005, 1006, 1015} \<Longrightarrow> mosh_mode G t n = modes (vw (gh t)) n"
  using gh_mode_ok [of "gh t" n] by (simp add: mosh_mode_def)

lemma mouse_reporting_ok: "tame (gh t) \<Longrightarrow> shows_modes (vw (gh t)) S \<Longrightarrow> mosh_mouse_reporting G t = mouse_mode S"
  by (cases "mouse_mode S") (simp_all add: mosh_mouse_reporting_def mosh_mode_ok shows_modes_def)

lemma mouse_encoding_ok: "tame (gh t) \<Longrightarrow> shows_modes (vw (gh t)) S \<Longrightarrow> mosh_mouse_encoding G t = mouse_enc S"
  by (cases "mouse_enc S") (simp_all add: mosh_mouse_encoding_def mosh_mode_ok shows_modes_def)

lemma converted_grid:
  assumes "good_screen ww grapheme colors S" "displays T S" "view_shows colors T v"
  shows "\<exists>rows. view_rows v = Inr rows \<and> convert_rows (cols S) rows = Inr (grid S)"
proof -
  obtain rows where r: "view_rows v = Inr (map Inr rows)" "length rows = vt_rows T"
    "\<forall>y<vt_rows T. length (rows ! y) = vt_cols T \<and> (\<forall>x<vt_cols T. cell_shows (scr T y) x (rows ! y ! x))"
    using assms(3) by (auto simp: view_shows_def)
  have wf: "snap_wf ww S" and canon: "\<forall>row\<in>set (grid S). \<forall>c\<in>set row. cell_canon grapheme c"
    using assms(1) by (simp_all add: good_screen_def)
  have dims: "vt_rows T = rows_count S" "vt_cols T = cols S" "length (grid S) = rows_count S"
    using assms(2) wf by (simp_all add: displays_def snap_wf_def snap_ok_def)
  have "length (grid S ! y) = cols S \<and> convert_cells (rows ! y) = Inr (grid S ! y)" if y: "y < length (grid S)" for y
  proof -
    have l: "length (grid S ! y) = cols S" using wf y by (simp add: snap_wf_def snap_ok_def)
    have "scr T y x = show_cell (grid S ! y ! x)" if "x < cols S" for x
      using assms(2) y that dims by (simp add: displays_def shows_grid_def)
    then have "convert_cells (rows ! y) = Inr (grid S ! y)"
      using wf canon r(3) y dims l
      by (intro convert_cells_shows [of ww _ grapheme _ "scr T y"]) (auto simp: snap_wf_def)
    then show ?thesis using l by simp
  qed
  then show ?thesis using r dims convert_rows_shows [of "grid S" "cols S" rows] by auto
qed

lemma mosh_snapshot_ok:
  assumes "wrapper_ok t" "good_screen ww grapheme colors S" "displays (vw (gh t)) S"
  shows "mosh_snapshot G t = Inr S"
proof -
  have tame: "tame (gh t)" using assms(1) by (simp add: wrapper_ok_def)
  obtain v where v: "render_update G (gh t) = Inr v" "view_shows colors (vw (gh t)) v" using gh_view [OF tame] by blast
  obtain rows where r: "view_rows v = Inr rows" "convert_rows (cols S) rows = Inr (grid S)"
    using converted_grid [OF assms(2,3) v(2)] by blast
  have d: "mt_cols t = cols S" "mt_rows t = rows_count S" using assms(1,3) by (simp_all add: wrapper_ok_def displays_def)
  have wf: "snap_wf ww S" "colors = (snap_fg S, snap_bg S, palette S)" using assms(2) by (simp_all add: good_screen_def)
  have sm: "shows_modes (vw (gh t)) S" and c: "vt_x (vw (gh t)) = cursor_x S" "vt_y (vw (gh t)) = cursor_y S"
    "vt_cols (vw (gh t)) = cols S" "modes (vw (gh t)) 25 = cursor_visible S" "vt_title (vw (gh t)) = title S"
    using assms(3) by (simp_all add: displays_def)
  have shape: "length (grid S) = rows_count S" "cursor_x S < cols S" "cursor_y S < rows_count S"
    using wf(1) by (simp_all add: snap_wf_def snap_ok_def)
  have view: "cursor_viewport v = Some (Some (cursor_x S, cursor_y S))" "view_cursor_visible v = Some (cursor_visible S)"
    "view_colors v = Some (snap_fg S, snap_bg S, palette S)"
    using v(2) c shape wf(2) by (simp_all add: view_shows_def)
  have colors: "snapshot_colors (view_colors v) = (snap_fg S, snap_bg S, palette S)"
    using view(3) palette_full wf(2) by (simp add: snapshot_colors_def)
  have flags: "mosh_mode G t 2004 = bracketed_paste S" "mosh_mode G t 1004 = mouse_focus_event S"
    "mosh_mode G t 1007 = mouse_alternate_scroll S" using sm tame by (simp_all add: mosh_mode_ok shows_modes_def)
  have title: "(case gh_title G (gh t) of Some s \<Rightarrow> s | None \<Rightarrow> []) = title S"
    using gh_title_ok [OF tame] c(5) by (simp split: option.splits)
  have cursor: "min (cursor_x S) (cols S - Suc 0) = cursor_x S" "min (cursor_y S) (rows_count S - Suc 0) = cursor_y S"
    using shape(2,3) by auto
  have "snapshot_of G t v (grid S) = S"
    unfolding snapshot_of_def colors title flags mouse_reporting_ok [OF tame sm] mouse_encoding_ok [OF tame sm] view(1,2) d
    using shape(1) by (simp add: cursor Let_def)
  then show ?thesis using v(1) r d gh_iterators by (simp add: mosh_snapshot_def)
qed

lemma vt_step_dims: "vt_step ww T op = Some T' \<Longrightarrow> vt_rows T' = vt_rows T \<and> vt_cols T' = vt_cols T"
  by (cases op) (auto simp: Let_def split: if_splits)

lemma vt_exec_dims: "vt_exec ww ops T = Some T' \<Longrightarrow> vt_rows T' = vt_rows T \<and> vt_cols T' = vt_cols T"
  by (induction ops arbitrary: T) (fastforce dest: vt_step_dims split: option.splits)+

end

sublocale ghostty_library \<subseteq> emulator: terminal_emulator "mosh_emulator G" "\<lambda>t. vw (gh t)" wrapper_ok ww grapheme colors
proof
  show "\<not> ww [32]" "grapheme [32]" "\<not> grapheme []" by (rule gh_space)+
  show "\<exists>t S. em_new (mosh_emulator G) w h = Inr t \<and> wrapper_ok t \<and> displays (vw (gh t)) S \<and> good_screen ww grapheme colors S
      \<and> cols S = w \<and> rows_count S = h \<and> title S = []" if dims: "0 < w" "w \<le> 65535" "0 < h" "h \<le> 65535" for w h
  proof -
    obtain g S where g: "gh_new G w h 0 = Inr g" "tame g" "displays (vw g) S" "good_screen ww grapheme colors S" "cols S = w"
      "rows_count S = h" "title S = []" using gh_new_ok [OF dims] by blast
    have "wrapper_ok \<lparr>gh = g, mt_cols = w, mt_rows = h, mt_frame = 0\<rparr>" using g by (simp add: wrapper_ok_def displays_def)
    then show ?thesis using g
      by (intro exI [of _ "\<lparr>gh = g, mt_cols = w, mt_rows = h, mt_frame = 0\<rparr>"] exI [of _ S])
         (simp add: mosh_emulator_def mosh_new_def)
  qed
  show "wrapper_ok (em_write (mosh_emulator G) t (utf8 (vt_string ops)))
      \<and> displays (vw (gh (em_write (mosh_emulator G) t (utf8 (vt_string ops))))) S"
    if "wrapper_ok t" "\<forall>op\<in>set ops. op_ok grapheme op" "vt_exec ww ops (vw (gh t)) = Some T"
      "displays T S" "good_screen ww grapheme colors S" for t ops T S
    using that gh_write_ok [OF _ that(2-5)] vt_exec_dims [OF that(3)]
    by (simp add: mosh_emulator_def mosh_write_def wrapper_ok_def displays_def)
  show "\<exists>t'. em_resize (mosh_emulator G) t w h = (None, t') \<and> wrapper_ok t' \<and> vt_cols (vw (gh t')) = w \<and> vt_rows (vw (gh t')) = h
      \<and> vt_title (vw (gh t')) = vt_title (vw (gh t))" if "wrapper_ok t" "0 < w" "w \<le> 65535" "0 < h" "h \<le> 65535" for t w h
    using gh_resize_ok [OF _ that(2-5), of "gh t"] that(1) by (auto simp: mosh_emulator_def mosh_resize_def wrapper_ok_def)
  show "em_snapshot (mosh_emulator G) t = Inr S"
    if "wrapper_ok t" "good_screen ww grapheme colors S" "displays (vw (gh t)) S" for t S
    using mosh_snapshot_ok [OF that] by (simp add: mosh_emulator_def)
qed

end
