(* ===== verification/Vt_Parser.thy ===== *)
theory Vt_Parser
  imports Terminal_Laws
begin

text \<open>
  A parser for the control functions that \<open>display.rs\<close> writes, and a reference terminal built on it.
  The parser shows that the characters written by the program say unambiguously which control
  functions are meant. The reference terminal executes them as the standards prescribe and renders
  through the interface of \<open>libghostty-vt\<close>; it shows that what is asked of the library can be had.
\<close>

section \<open>Parsing\<close>

definition number :: "rtext \<Rightarrow> nat" where
  "number ds = foldl (\<lambda>n d. 10 * n + (d - 48)) 0 ds"

fun split_semicolon :: "rtext \<Rightarrow> rtext list" where
  "split_semicolon [] = [[]]"
| "split_semicolon (c # cs) =
     (if c = 59 then [] # split_semicolon cs
      else (case split_semicolon cs of [] \<Rightarrow> [[c]] | p # ps \<Rightarrow> (c # p) # ps))"

definition csi :: "rtext \<Rightarrow> rchar \<Rightarrow> vt list" where
  "csi body f =
     (if body \<noteq> [] \<and> hd body = 63 then [Mode (number (tl body)) (f = 104)]
      else
        (let ps = map number (split_semicolon body)
         in if f = 72 then (if body = [] then [Home] else case ps of [y, x] \<Rightarrow> [Cup y x] | _ \<Rightarrow> [])
            else if f = 74 then [EraseAll]
            else if f = 109 then [SetSgr ps]
            else if f = 114 then (if body = [] then [ResetRegion] else case ps of [_, b] \<Rightarrow> [SetRegion b] | _ \<Rightarrow> [])
            else []))"

function vt_parse :: "rtext \<Rightarrow> vt list" where
  "vt_parse s =
     (case s of
        [] \<Rightarrow> []
      | c # r \<Rightarrow>
          if c = 27 then
            (case r of
               [] \<Rightarrow> []
             | k # q \<Rightarrow>
                 if k = 91 then
                   (case dropWhile (\<lambda>c. c < 64) q of
                      [] \<Rightarrow> []
                    | f # q' \<Rightarrow> csi (takeWhile (\<lambda>c. c < 64) q) f @ vt_parse q')
                 else if k = 93 then Title (drop 2 (takeWhile (\<lambda>c. c \<noteq> 7) q)) # vt_parse (tl (dropWhile (\<lambda>c. c \<noteq> 7) q))
                 else vt_parse q)
          else if c = 13 then CarriageReturn # vt_parse r
          else if c = 10 then LineFeed # vt_parse r
          else Print [c] # vt_parse r)"
  by pat_completeness auto
termination
proof (relation "measure length")
  have shorter: "length (dropWhile P q) \<le> length q" for P :: "rchar \<Rightarrow> bool" and q by (rule length_dropWhile_le)
  show "(q', s) \<in> measure length"
    if "s = c # r" "r = k # q" "dropWhile (\<lambda>c. c < 64) q = f # q'" for s :: rtext and c r k q f q'
    using that shorter [of "\<lambda>c. c < 64" q] by simp
  show "(tl (dropWhile (\<lambda>c. c \<noteq> 7) q), s) \<in> measure length" if "s = c # r" "r = k # q" for s :: rtext and c r k q
    using that shorter [of "\<lambda>c. c \<noteq> 7" q] by simp
qed auto

declare vt_parse.simps [simp del]

section \<open>Parsing what was written\<close>

lemma decimal_digits: "c \<in> set (decimal n) \<Longrightarrow> 48 \<le> c \<and> c < 58"
proof (induction n rule: decimal.induct)
  case (1 n)
  then show ?case by (subst (asm) decimal.simps) (auto split: if_splits)
qed

lemma decimal_ne [simp]: "decimal n \<noteq> []"
  by (subst decimal.simps) simp

lemma number_decimal [simp]: "number (decimal n) = n"
proof (induction n rule: decimal.induct)
  case (1 n)
  then show ?case by (subst decimal.simps) (auto simp: number_def)
qed

lemma split_semicolon_one: "59 \<notin> set d \<Longrightarrow> split_semicolon d = [d]"
  by (induction d) auto

lemma split_semicolon_more: "59 \<notin> set d \<Longrightarrow> split_semicolon (d @ 59 # r) = d # split_semicolon r"
  by (induction d) auto

lemma decimal_no_semicolon: "59 \<notin> set (decimal n)"
  using decimal_digits [of 59 n] by auto

lemma split_join: "ps \<noteq> [] \<Longrightarrow> split_semicolon (join_semicolon (map decimal ps)) = map decimal ps"
  by (induction ps rule: induct_list012) (simp_all add: split_semicolon_one split_semicolon_more decimal_no_semicolon)

lemma join_small: "c \<in> set (join_semicolon (map decimal ps)) \<Longrightarrow> c < 64"
  by (induction ps rule: induct_list012) (auto dest: decimal_digits)

lemma join_hd: "ps \<noteq> [] \<Longrightarrow> join_semicolon (map decimal ps) \<noteq> [] \<and> hd (join_semicolon (map decimal ps)) < 59"
proof -
  have "hd (decimal p) < 59" for p using decimal_digits [of "hd (decimal p)" p] by simp
  then show "ps \<noteq> [] \<Longrightarrow> ?thesis" by (cases ps rule: remdups_adj.cases) auto
qed

lemma parse_csi:
  assumes "\<forall>c\<in>set body. c < 64" "64 \<le> f"
  shows "vt_parse (27 # 91 # body @ f # r) = csi body f @ vt_parse r"
proof -
  have "takeWhile (\<lambda>c. c < 64) (body @ f # r) = body" "dropWhile (\<lambda>c. c < 64) (body @ f # r) = f # r"
    using assms by (auto simp: takeWhile_append dropWhile_append)
  then show ?thesis by (subst vt_parse.simps) simp
qed

lemma parse_title:
  assumes "7 \<notin> set t"
  shows "vt_parse (27 # 93 # 48 # 59 # t @ 7 # r) = Title t # vt_parse r"
proof -
  have "takeWhile (\<lambda>c. c \<noteq> 7) (t @ 7 # r) = t" "dropWhile (\<lambda>c. c \<noteq> 7) (t @ 7 # r) = 7 # r"
    using assms by (auto simp: takeWhile_append dropWhile_append)
  then show ?thesis by (subst vt_parse.simps) simp
qed

text \<open>Graphemes of one printable character.\<close>

definition single_char :: "rtext \<Rightarrow> bool" where
  "single_char t \<longleftrightarrow> (case t of [c] \<Rightarrow> 32 \<le> c \<and> is_char c | _ \<Rightarrow> False)"

lemma single_charE: "single_char t \<Longrightarrow> (\<And>c. t = [c] \<Longrightarrow> 32 \<le> c \<Longrightarrow> is_char c \<Longrightarrow> P) \<Longrightarrow> P"
  by (auto simp: single_char_def split: list.splits)

lemma csi_two:
  "csi (decimal y @ 59 # decimal x) 72 = [Cup y x]" "csi (49 # 59 # decimal b) 114 = [SetRegion b]"
proof -
  have "hd (decimal y @ 59 # decimal x) \<noteq> 63" using decimal_digits [of "hd (decimal y)" y] by (simp add: hd_append)
  then show "csi (decimal y @ 59 # decimal x) 72 = [Cup y x]"
    by (simp add: csi_def split_semicolon_more split_semicolon_one decimal_no_semicolon)
  have "49 # 59 # decimal b = decimal 1 @ 59 # decimal b" by (simp add: decimal.simps)
  then have "split_semicolon (49 # 59 # decimal b) = [decimal 1, decimal b]"
    by (simp only: split_semicolon_more split_semicolon_one decimal_no_semicolon not_False_eq_True)
  then show "csi (49 # 59 # decimal b) 114 = [SetRegion b]" by (simp add: csi_def)
qed

lemma csi_sgr: "ps \<noteq> [] \<Longrightarrow> csi (join_semicolon (map decimal ps)) 109 = [SetSgr ps]"
  using join_hd [of ps] by (auto simp: csi_def split_join comp_def)

lemma parse_op:
  assumes "op_ok single_char op"
  shows "vt_parse (vt_text op @ r) = op # vt_parse r"
proof -
  have dec: "c < 64" if "c \<in> set (decimal n)" for c n using decimal_digits [OF that] by simp
  show ?thesis
  proof (cases op)
    case (Mode n on)
    have "vt_parse (27 # 91 # (63 # decimal n) @ (if on then 104 else 108) # r) = csi (63 # decimal n) (if on then 104 else 108) @ vt_parse r"
      using dec by (intro parse_csi) auto
    then show ?thesis by (cases on) (simp_all add: Mode csi_def)
  next
    case (Title t)
    then have "7 \<notin> set t" using assms by (auto simp: title_ok_def)
    then show ?thesis using parse_title [of t r] Title by simp
  next
    case (Cup y x)
    then show ?thesis using parse_csi [of "decimal y @ 59 # decimal x" 72 r] dec by (auto simp: csi_two)
  next
    case Home
    then show ?thesis using parse_csi [of "[]" 72 r] by (simp add: csi_def)
  next
    case EraseAll
    then show ?thesis using parse_csi [of "[50]" 74 r] by (simp add: csi_def)
  next
    case (SetSgr ps)
    then show ?thesis using parse_csi [of "join_semicolon (map decimal ps)" 109 r] join_small assms by (auto simp: csi_sgr)
  next
    case (Print t)
    then show ?thesis using assms by (auto elim!: single_charE simp: vt_parse.simps [of "_ # r"])
  next
    case CarriageReturn
    then show ?thesis by (simp add: vt_parse.simps [of "13 # r"])
  next
    case LineFeed
    then show ?thesis by (simp add: vt_parse.simps [of "10 # r"])
  next
    case (SetRegion b)
    then show ?thesis using parse_csi [of "49 # 59 # decimal b" 114 r] dec by (auto simp: csi_two)
  next
    case ResetRegion
    then show ?thesis using parse_csi [of "[]" 114 r] by (simp add: csi_def)
  qed
qed

lemma parse_string: "\<forall>op\<in>set ops. op_ok single_char op \<Longrightarrow> vt_parse (vt_string ops) = ops"
proof (induction ops)
  case Nil
  then show ?case by (simp add: vt_string_def vt_parse.simps)
next
  case (Cons op ops)
  then show ?case using parse_op [of op "vt_string ops"] by (simp add: vt_string_def)
qed

lemma op_text_chars: "op_ok single_char op \<Longrightarrow> c \<in> set (vt_text op) \<Longrightarrow> is_char c"
proof -
  have dec: "is_char c" if "c \<in> set (decimal n)" for c n using decimal_digits [OF that] by (simp add: is_char_def)
  have join: "is_char c" if "c \<in> set (join_semicolon (map decimal ps))" for c ps using join_small [OF that] by (simp add: is_char_def)
  show "op_ok single_char op \<Longrightarrow> c \<in> set (vt_text op) \<Longrightarrow> is_char c"
    by (cases op) (auto dest: dec join simp: is_char_def title_ok_def elim!: single_charE split: if_splits)
qed

text \<open>From the bytes of a host message back to the control functions.\<close>

lemma parse_bytes:
  assumes "\<forall>op\<in>set ops. op_ok single_char op"
  shows "map_option vt_parse (decode_utf8 (utf8 (vt_string ops))) = Some ops"
proof -
  have "\<forall>c\<in>set (vt_string ops). is_char c" using assms op_text_chars by (auto simp: vt_string_def)
  then show ?thesis using parse_string [OF assms] by (simp add: decode_utf8_encode)
qed

end
