(* ===== verification/Screen_Sync.thy ===== *)
theory Screen_Sync
  imports Emulator Synchronization
begin

text \<open>
  The protocol instantiated with the terminal state: the screens a client holds are screens the server
  had. What matters of a state is its version, the screen and the echo acknowledgement. The contract
  \<open>sync_state\<close> is proved for the operations of \<open>complete.rs\<close> from the laws of the emulator and of the
  generated serialization.
\<close>

type_synonym version = "screen_snapshot \<times> u64"

definition version_of :: "'t complete \<Rightarrow> version" where
  "version_of s = (screen s, echo_ack s)"

text \<open>What is asked of \<open>prost\<close>.\<close>

definition host_codec_laws :: "host_codec \<Rightarrow> bool" where
  "host_codec_laws H \<longleftrightarrow> (\<forall>m. hm_decode H (hm_encode H m) = Inr m) \<and> (\<forall>m. hm_encode H m = [] \<longleftrightarrow> m = [])"

text \<open>
  The versions a diff can lead between: the echo acknowledgement does not fall, and a window title is
  not removed (a redraw cannot remove it).
\<close>

definition follows :: "version \<Rightarrow> version \<Rightarrow> bool" where
  "follows g h \<longleftrightarrow> snd g \<le> snd h \<and> (title (fst g) \<noteq> [] \<longrightarrow> title (fst h) \<noteq> [])"

definition later :: "version set \<Rightarrow> version \<Rightarrow> version \<Rightarrow> bool" where
  "later W g h \<longleftrightarrow> g = h \<or> g \<in> W \<and> h \<in> W \<and> follows g h"

lemma later_trans: "later W f g \<Longrightarrow> later W g h \<Longrightarrow> later W f h"
  by (auto simp: later_def follows_def)

section \<open>Applying a diff\<close>

lemma apply_host_append:
  "apply_host_instructions em (a @ b) s =
     (case apply_host_instructions em a s of (Some e, s') \<Rightarrow> (Some e, s') | (None, s') \<Rightarrow> apply_host_instructions em b s')"
  by (induction a arbitrary: s) (auto split: option.splits prod.splits)

lemma clamp_u16_of:
  assumes "0 < n" "n \<le> 65535"
  shows "clamp_u16 (word_of_nat n) = n"
proof -
  have "sint (word_of_nat n :: i32) = int n"
    using assms by (simp add: signed_of_nat signed_take_bit_int_eq_self_iff)
  then show ?thesis using assms by (simp add: clamp_u16_def clamp_def)
qed

lemma refresh_keeps [simp]: "terminal (refresh em s) = terminal s" "echo_ack (refresh em s) = echo_ack s"
  by (auto simp: refresh_def split: option.splits sum.splits)

context terminal_emulator
begin

text \<open>A write after which the emulator displays \<open>S\<close> makes \<open>S\<close> the screen.\<close>

lemma act_shows:
  assumes "terminal_mut em s = Inr t" "ok (em_write em t bs)" "displays (vw (em_write em t bs)) S" "good S"
  shows "\<exists>s'. complete_act em bs s = (None, s') \<and> live_state s' \<and> version_of s' = (S, echo_ack s)"
  using assms snapshot_ok [OF assms(2,4,3)]
  by (simp add: complete_act_def refresh_def live_state_def version_of_def)

lemma act_diff:
  assumes "live_state s" "good new" "cols (screen s) = cols new" "rows_count (screen s) = rows_count new"
  shows "\<exists>s'. complete_act em (utf8 (vt_string (display_diff (screen s) new))) s = (None, s')
    \<and> live_state s' \<and> version_of s' = (new, echo_ack s)"
proof -
  obtain t where t: "terminal_mut em s = Inr t" "ok t" "displays (vw t) (screen s)"
    using terminal_mut_live [OF assms(1)] by blast
  have "good (screen s)" using assms(1) by (simp add: live_state_def)
  from write_diff [OF this assms(2) t(2,3) assms(3,4)] show ?thesis
    by (intro act_shows [OF t(1)]) (use assms(2) in simp_all)
qed

lemma resize_redraw:
  assumes "live_state s" "good new" "title (screen s) \<noteq> [] \<longrightarrow> title new \<noteq> []"
  shows "\<exists>s1 s'. complete_resize em (cols new) (rows_count new) s = (None, s1)
    \<and> complete_act em (utf8 (vt_string (full_redraw new))) s1 = (None, s')
    \<and> live_state s' \<and> version_of s' = (new, echo_ack s)"
proof -
  obtain t where t: "terminal_mut em s = Inr t" "ok t" "displays (vw t) (screen s)"
    using terminal_mut_live [OF assms(1)] by blast
  obtain t' where t': "em_resize em t (cols new) (rows_count new) = (None, t')" "ok t'" "vt_cols (vw t') = cols new"
    "vt_rows (vw t') = rows_count new" "vt_title (vw t') = vt_title (vw t)"
    using resize_ok [OF t(2)] good_dims [OF assms(2)] by blast
  define s1 where "s1 = refresh em (s\<lparr>terminal := Some t'\<rparr>)"
  have s1: "complete_resize em (cols new) (rows_count new) s = (None, s1)"
    using t t' by (simp add: complete_resize_def s1_def)
  have m: "terminal_mut em s1 = Inr t'" and e: "echo_ack s1 = echo_ack s"
    by (simp_all add: s1_def terminal_mut_def)
  have "title new \<noteq> [] \<or> vt_title (vw t') = []" using assms(3) t(3) t'(5) by (auto simp: displays_def)
  from write_redraw [OF assms(2) t'(2-4) this] show ?thesis
    using s1 act_shows [OF m _ _ assms(2), of "utf8 (vt_string (full_redraw new))"] e by auto
qed

text \<open>A host message made of a diff leads from the version it was made against to the new one.\<close>

lemma apply_screen_part:
  assumes "live_state s" "good new" "screen s \<noteq> new" "title (screen s) \<noteq> [] \<longrightarrow> title new \<noteq> []"
  shows "\<exists>s'. apply_host_instructions em (host_diff new a (screen s) a) s = (None, s')
    \<and> live_state s' \<and> version_of s' = (new, echo_ack s)"
proof -
  have g: "good (screen s)" using assms(1) by (simp add: live_state_def)
  have ne: "vt_string (display_diff (screen s) new) \<noteq> []" using diff_empty_same [OF g assms(2)] assms(3) by blast
  show ?thesis
  proof (cases "cols (screen s) = cols new \<and> rows_count (screen s) = rows_count new")
    case True
    then obtain s' where "complete_act em (utf8 (vt_string (display_diff (screen s) new))) s = (None, s')"
      "live_state s'" "version_of s' = (new, echo_ack s)" using act_diff [OF assms(1,2)] by blast
    then show ?thesis using True assms(3) ne by (auto simp: host_diff_def apply_host_instruction_def Let_def)
  next
    case False
    then have d: "display_diff (screen s) new = full_redraw new" by (simp add: display_diff_def)
    have dims: "clamp_u16 (word_of_nat (cols new)) = cols new" "clamp_u16 (word_of_nat (rows_count new)) = rows_count new"
      using good_dims [OF assms(2)] by (simp_all add: clamp_u16_of)
    obtain s1 s' where "complete_resize em (cols new) (rows_count new) s = (None, s1)"
      "complete_act em (utf8 (vt_string (full_redraw new))) s1 = (None, s')" "live_state s'" "version_of s' = (new, echo_ack s)"
      using resize_redraw [OF assms(1,2,4)] by blast
    then show ?thesis using False assms(3) ne d by (auto simp: host_diff_def apply_host_instruction_def dims Let_def)
  qed
qed

lemma host_diff_split:
  "host_diff new na old oa =
     (if oa \<noteq> na then [\<lparr>hostbytes = None, host_resize = None, echoack = Some (Some na)\<rparr>] else []) @ host_diff new na old na"
  by (simp add: host_diff_def)

lemma apply_host_diff:
  assumes "live_state s" "good new" "follows (version_of s) (new, na)"
  shows "\<exists>s'. apply_host_instructions em (host_diff new na (screen s) (echo_ack s)) s = (None, s')
    \<and> live_state s' \<and> version_of s' = (new, na)"
proof -
  define s1 where "s1 = s\<lparr>echo_ack := na\<rparr>"
  have s1: "live_state s1" "screen s1 = screen s" "echo_ack s1 = na"
    using assms(1) by (simp_all add: s1_def live_state_def)
  have "max (echo_ack s) na = na" using assms(3) by (simp add: follows_def version_of_def max_def)
  then have pre: "apply_host_instructions em
     (if echo_ack s \<noteq> na then [\<lparr>hostbytes = None, host_resize = None, echoack = Some (Some na)\<rparr>] else []) s = (None, s1)"
    by (auto simp: apply_host_instruction_def s1_def)
  have title: "title (screen s1) \<noteq> [] \<longrightarrow> title new \<noteq> []" using assms(3) s1 by (simp add: follows_def version_of_def)
  show ?thesis
  proof (cases "screen s = new")
    case True
    then have "host_diff new na (screen s) na = []" by (simp add: host_diff_def)
    then show ?thesis using pre s1 True by (subst host_diff_split) (simp add: apply_host_append version_of_def)
  next
    case False
    then show ?thesis
      using pre s1 apply_screen_part [OF s1(1) assms(2) _ title, of na]
      by (subst host_diff_split) (auto simp: apply_host_append)
  qed
qed

lemma host_diff_empty:
  assumes "good new" "good old" "host_diff new na old oa = []"
  shows "new = old \<and> na = oa"
  using assms diff_empty_same [OF assms(2,1)]
  by (auto simp: host_diff_def Let_def split: if_splits)

section \<open>The contract\<close>

text \<open>Under the mark \<open>True\<close> (the client's states) the emulator must display the screen.\<close>

definition screen_rep :: "bool \<Rightarrow> version \<Rightarrow> 't complete \<Rightarrow> bool" where
  "screen_rep p v s \<longleftrightarrow> version_of s = v \<and> good (screen s) \<and> (p \<longrightarrow> live_state s)"

lemma complete_sync:
  assumes H: "host_codec_laws H"
  shows "sync_state (complete_ops em H) screen_rep (later W) (\<lambda>_. True) (\<lambda>p. p)"
proof
  fix f g h :: version and p q :: bool and a b c s t :: "'t complete"
  show "later W h h" by (simp add: later_def)
  show "later W f g \<Longrightarrow> later W g h \<Longrightarrow> later W f h" by (rule later_trans)
  show "screen_rep p h s \<Longrightarrow> screen_rep p h (state_clone (complete_ops em H) s)"
    by (auto simp: complete_ops_def complete_clone_def screen_rep_def version_of_def live_state_def)
  show "screen_rep p h s \<Longrightarrow> screen_rep p h t \<Longrightarrow> screen_rep p h (fst (adopt_from (complete_ops em H) s t))
     \<and> screen_rep p h (snd (adopt_from (complete_ops em H) s t))"
    by (auto simp: complete_ops_def complete_adopt_from_def screen_rep_def version_of_def live_state_def)
  show "if diff_from (complete_ops em H) c a = [] then screen_rep p h b
      else \<exists>s. apply_string (complete_ops em H) b (diff_from (complete_ops em H) c a) = Inr s \<and> screen_rep p h s"
    if p: p and le: "later W g h" and c: "screen_rep q h c" and a: "screen_rep q g a" and b: "screen_rep p g b"
  proof -
    have v: "h = (screen c, echo_ack c)" "g = (screen a, echo_ack a)" "screen b = screen a" "echo_ack b = echo_ack a"
      and good: "good (screen c)" "good (screen a)" and live: "live_state b"
      using c a b p by (auto simp: screen_rep_def version_of_def)
    let ?m = "host_diff (screen c) (echo_ack c) (screen a) (echo_ack a)"
    have f: "follows g h" using le by (auto simp: later_def follows_def)
    have d: "diff_from (complete_ops em H) c a = hm_encode H ?m" by (simp add: complete_ops_def complete_diff_from_def)
    have e: "hm_encode H ?m = [] \<longleftrightarrow> ?m = []" "hm_decode H (hm_encode H ?m) = Inr ?m"
      using H by (simp_all add: host_codec_laws_def)
    obtain s' where s': "apply_host_instructions em ?m b = (None, s')" "live_state s'" "version_of s' = h"
      using apply_host_diff [OF live good(1), of "echo_ack c"] f v by (auto simp: version_of_def)
    then have rep: "screen_rep p h s'" using good(1) v(1) by (auto simp: screen_rep_def version_of_def)
    show ?thesis
    proof (cases "?m = []")
      case True
      then show ?thesis using host_diff_empty [OF good True] b v e d by simp
    next
      case False
      then show ?thesis using e d s' rep by (simp add: complete_ops_def complete_apply_string_def)
    qed
  qed
  show "state_equal (complete_ops em H) c a"
    if "later W g h" "screen_rep q h c" "screen_rep q g a" and d: "diff_from (complete_ops em H) c a = []"
  proof -
    have "host_diff (screen c) (echo_ack c) (screen a) (echo_ack a) = []"
      using d H by (simp add: complete_ops_def complete_diff_from_def host_codec_laws_def)
    then show ?thesis using host_diff_empty [of "screen c" "screen a"] that
      by (auto simp: screen_rep_def complete_ops_def complete_state_equal_def)
  qed
  show "has_prefix (complete_ops em H) \<Longrightarrow> screen_rep True h (subtract (complete_ops em H) s t)"
    by (simp add: complete_ops_def)
  show "state_equal (complete_ops em H) s t \<longleftrightarrow> h = g" if "screen_rep p h s" "screen_rep p g t"
    using that by (auto simp: screen_rep_def complete_ops_def complete_state_equal_def version_of_def)
  show "diff_from (complete_ops em H) s t = diff_from (complete_ops em H) a b"
    if "screen_rep p h s" "screen_rep p g t" "screen_rep q h a" "screen_rep q g b"
    using that by (auto simp: screen_rep_def complete_ops_def complete_diff_from_def version_of_def)
qed simp

text \<open>
  The server's changes of its own state, as far as versions of \<open>W\<close> are concerned. A change replaces the
  state; under the mark \<open>False\<close> the emulator behind it may be in any condition.
\<close>

definition change :: "version set \<Rightarrow> 't complete \<Rightarrow> 't complete \<Rightarrow> 't complete" where
  "change W x s = (if later W (version_of s) (version_of x) \<and> good (screen x) then x else s)"

definition change_version :: "version set \<Rightarrow> 't complete \<Rightarrow> version \<Rightarrow> version" where
  "change_version W x v = (if later W v (version_of x) \<and> good (screen x) then version_of x else v)"

lemma complete_ssp:
  assumes "host_codec_laws H"
  shows "ssp (complete_ops em H) screen_rep (later W) (\<lambda>_. True) (\<lambda>p. p) Not (change W) (change_version W)"
  by (rule ssp.intro [OF complete_sync [OF assms] source.intro [OF sync_state.axioms(1) [OF complete_sync [OF assms]]]],
      unfold_locales)
     (auto simp: screen_rep_def change_def change_version_def complete_ops_def later_def)

lemma complete_new_live:
  assumes "0 < w" "w \<le> 65535" "0 < h" "h \<le> 65535"
  shows "\<exists>s. complete_new em w h = Inr s \<and> live_state s \<and> cols (screen s) = w \<and> rows_count (screen s) = h
    \<and> echo_ack s = 0 \<and> input_history s = []"
proof -
  obtain t S where t: "em_new em w h = Inr t" "ok t" "displays (vw t) S" "good S" "cols S = w" "rows_count S = h"
    using new_ok [OF assms] by blast
  then show ?thesis using snapshot_ok [of t S] by (simp add: complete_new_def live_state_def)
qed

end

section \<open>Sessions\<close>

text \<open>
  What \<open>server.rs\<close> does to the state it publishes: output of the shell, a new window size, the arrival
  of input, the echo timer.
\<close>

datatype server_event = PtyOutput bytes | WindowSize nat nat | InputFrame u64 instant | EchoTimer instant

definition server_act :: "'t emulator \<Rightarrow> server_event \<Rightarrow> 't complete \<Rightarrow> 't complete" where
  "server_act em e s =
     (case e of
        PtyOutput bs \<Rightarrow> snd (complete_act em bs s)
      | WindowSize w h \<Rightarrow> snd (complete_resize em w h s)
      | InputFrame n now \<Rightarrow> register_input_frame n now s
      | EchoTimer now \<Rightarrow> snd (set_echo_ack now s))"

text \<open>
  Here \<open>end_a\<close> is the server and \<open>end_b\<close> the client. Both start from the state \<open>Complete::new(80, 24)\<close>,
  which the client does only if its window has that size. \<open>vs\<close> collects every version of the server's
  state. The server's screens are asked to be well formed, not to lose their title, and the echo
  acknowledgement not to fall.
\<close>

definition screen_start :: "'t emulator \<Rightarrow> host_codec \<Rightarrow> 'c state_ops \<Rightarrow> ('t complete, 'c, version) net \<Rightarrow> bool" where
  "screen_start em H cops N \<longleftrightarrow> complete_new em 80 24 = Inr (delivered N) \<and> made N = version_of (delivered N) \<and>
     wire_ab N = {} \<and> wire_ba N = {} \<and>
     (\<exists>ca cb ra sb t1 t2.
        end_a N = transport_new (complete_ops em H) cops (net_clock N) t1 ca (delivered N) ra \<and>
        end_b N = transport_new cops (complete_ops em H) (net_clock N) t2 cb sb (delivered N))"

inductive screen_session ::
  "'t emulator \<Rightarrow> (screen_snapshot \<Rightarrow> bool) \<Rightarrow> host_codec \<Rightarrow> 'c state_ops \<Rightarrow>
     ('t complete, 'c, version) net \<Rightarrow> version list \<Rightarrow> bool"
  for em good H cops where
  session_start: "screen_start em H cops N \<Longrightarrow> screen_session em good H cops N [made N]"
| session_net: "screen_session em good H cops N vs \<Longrightarrow>
    net_step (complete_ops em H) cops (\<lambda>x _. x) (\<lambda>x _. version_of x) N e N' \<Longrightarrow> (\<forall>x. e \<noteq> Act x) \<Longrightarrow>
    screen_session em good H cops N' vs"
| session_act: "screen_session em good H cops N vs \<Longrightarrow>
    x = server_act em ev (current_state (tr_sender (end_a N))) \<Longrightarrow>
    good (screen x) \<Longrightarrow> follows (made N) (version_of x) \<Longrightarrow>
    net_step (complete_ops em H) cops (\<lambda>x _. x) (\<lambda>x _. version_of x) N (Act x) N' \<Longrightarrow>
    screen_session em good H cops N' (vs @ [version_of x])"

text \<open>A step that is not a change of the client's state does not depend on what changes mean.\<close>

lemma net_step_other:
  assumes "net_step ops cops act hact N e N'" and "\<forall>x. e \<noteq> Act x"
  shows "net_step ops cops act' hact' N e N'"
  using assms(1)
proof (cases rule: net_step.cases)
  case (step_consume d T)
  show ?thesis unfolding step_consume(1,2) by (rule net_step.step_consume [OF step_consume(3)])
qed (use assms(2) in \<open>auto intro: net_step.intros\<close>)

lemma net_step_made: "net_step ops cops act hact N e N' \<Longrightarrow> \<forall>x. e \<noteq> Act x \<Longrightarrow> made N' = made N"
  by (erule net_step.cases) auto

inductive_cases act_stepE: "net_step ops cops act hact N (Act x) N'"

context terminal_emulator
begin

abbreviation screen_inv :: "host_codec \<Rightarrow> version set \<Rightarrow> ('t complete, 'c, version) net \<Rightarrow> bool" where
  "screen_inv H W \<equiv> ssp.net_inv (complete_ops em H) screen_rep (later W) (\<lambda>p. p) Not True"

lemma screen_start_inv:
  assumes H: "host_codec_laws H" and "screen_start em H cops N"
  shows "screen_inv H W N"
proof -
  note ssp = complete_ssp [OF H, of W]
  obtain s where "complete_new em 80 24 = Inr s" "live_state s" using complete_new_live [of 80 24] by auto
  then have "live_state (delivered N)" "made N = version_of (delivered N)" using assms(2) by (simp_all add: screen_start_def)
  then have rep: "screen_rep p (made N) (delivered N)" for p by (simp add: screen_rep_def live_state_def)
  have "ssp.net_start (complete_ops em H) screen_rep (\<lambda>p. p) Not cops True N"
    unfolding ssp.net_start_def [OF ssp]
    using assms(2) rep by (auto simp: screen_start_def net_init_def transport_new_def sender_new_def)
  then show ?thesis by (rule ssp.net_start_inv [OF ssp])
qed

lemma act_inv:
  assumes H: "host_codec_laws H" and inv: "screen_inv H W N" and "made N \<in> W" "version_of x \<in> W"
    and "good (screen x)" "follows (made N) (version_of x)"
    and step: "net_step (complete_ops em H) cops (\<lambda>x _. x) (\<lambda>x _. version_of x) N (Act x) N'"
  shows "screen_inv H W N'"
proof -
  note ssp = complete_ssp [OF H, of W]
  have l: "later W (made N) (version_of x)" using assms by (simp add: later_def)
  have "version_of (current_state (tr_sender (end_a N))) = made N"
    using inv unfolding ssp.net_inv_def [OF ssp] source.tx_ok_def [OF ssp.axioms(2) [OF ssp]] screen_rep_def by blast
  then have same: "change W x (current_state (tr_sender (end_a N))) = x" "change_version W x (made N) = version_of x"
    using l assms(5) by (simp_all add: change_def change_version_def)
  have "net_step (complete_ops em H) cops (change W) (change_version W) N (Act x) N'"
    by (rule act_stepE [OF step], erule ssubst)
       (rule step_act [where N = N and act = "change W" and hact = "change_version W" and a = x, unfolded same])
  then show ?thesis by (rule ssp.net_step_inv [OF ssp inv])
qed

lemma screen_session_inv:
  assumes H: "host_codec_laws H" and "screen_session em good H cops N vs" and "set vs \<subseteq> W"
  shows "screen_inv H W N \<and> made N \<in> set vs"
  using assms(2,3)
proof (induction rule: screen_session.induct)
  case (session_start N)
  then show ?case using screen_start_inv [OF H] by simp
next
  case (session_net N vs e N')
  note ssp = complete_ssp [OF H, of W]
  from session_net have "screen_inv H W N'"
    using ssp.net_step_inv [OF ssp _ net_step_other] by blast
  then show ?case using net_step_made [OF session_net(2,3)] session_net by simp
next
  case (session_act N vs x ev N')
  have "made N' = version_of x" using session_act(5) by (rule act_stepE) (erule ssubst, simp)
  then show ?case using act_inv [OF H _ _ _ session_act(3,4,5), of W] session_act by auto
qed

lemma later_in: "later (set vs) v w \<Longrightarrow> w \<in> set vs \<Longrightarrow> v \<in> set vs"
  by (auto simp: later_def)

lemma session_versions:
  assumes H: "host_codec_laws H" and N: "screen_session em good H cops N vs"
  shows "version_of (delivered N) \<in> set vs" and "t \<in> set (received_states (end_b N)) \<Longrightarrow> version_of (ts_state t) \<in> set vs"
proof -
  note ssp = complete_ssp [OF H, of "set vs"] and inv = screen_session_inv [OF H N order_refl]
  show "version_of (delivered N) \<in> set vs"
  proof -
    obtain h where h: "later (set vs) h (made N)" "screen_rep True h (delivered N)"
      using ssp.delivered_version [OF ssp conjunct1 [OF inv]] by blast
    then have "h \<in> set vs" using inv later_in by blast
    then show ?thesis using h(2) by (simp add: screen_rep_def)
  qed
  show "version_of (ts_state t) \<in> set vs" if "t \<in> set (received_states (end_b N))"
  proof -
    from ssp.held_versions [OF ssp conjunct1 [OF inv]] obtain q where
      "\<forall>t\<in>set (received_states (end_b N)). \<exists>h. later (set vs) h (made N) \<and> screen_rep q h (ts_state t)" ..
    from bspec [OF this that] obtain h where h: "later (set vs) h (made N)" "screen_rep q h (ts_state t)" by blast
    then have "h \<in> set vs" using inv later_in by blast
    then show ?thesis using h(2) by (simp add: screen_rep_def)
  qed
qed

lemma session_latest:
  assumes H: "host_codec_laws H" and N: "screen_session em good H cops N vs"
  shows "version_of (ts_state (get_latest_remote_state (end_b N))) \<in> set vs"
proof -
  note ssp = complete_ssp [OF H, of "set vs"]
  have "received_states (end_b N) \<noteq> []"
    using conjunct1 [OF screen_session_inv [OF H N order_refl]]
    unfolding ssp.net_inv_def [OF ssp] ssp.rx_ok_def [OF ssp] rx_inv_def by blast
  then show ?thesis using session_versions(2) [OF H N last_in_set] by (simp add: get_latest_remote_state_def)
qed

lemma session_catches_up:
  assumes H: "host_codec_laws H" and N: "screen_session em good H cops N vs"
    and clk: "net_clock N \<le> now" and nr: "num_room (tr_sender (end_a N))"
    and tick: "sender_tick (complete_ops em H) (tr_sender (end_a N)) now timeout srtt remote pad = (Some inst, S')"
    and old: "old_num inst = Some (sent_state_acked (tr_sender (end_a N)))"
    and room: "length (received_states (end_b N)) \<le> RECEIVED_STATES_MAX"
    and recv: "process_instruction (complete_ops em H) (end_b N) inst nq now' = (r, T)"
  shows "version_of (ts_state (get_latest_remote_state T)) = version_of (current_state (tr_sender (end_a N)))"
proof -
  note ssp = complete_ssp [OF H, of "set vs"] and inv = conjunct1 [OF screen_session_inv [OF H N order_refl]]
  have "version_of (current_state (tr_sender (end_a N))) = made N"
    using inv unfolding ssp.net_inv_def [OF ssp] source.tx_ok_def [OF ssp.axioms(2) [OF ssp]] screen_rep_def by blast
  moreover from ssp.one_packet(1) [OF ssp inv clk nr tick old room recv] obtain q where
    "screen_rep q (made N) (ts_state (last (received_states T)))" ..
  ultimately show ?thesis by (simp add: screen_rep_def get_latest_remote_state_def)
qed

lemma session_diffs_apply:
  assumes H: "host_codec_laws H" and N: "screen_session em good H cops N vs" and w: "inst \<in> wire_ab N"
    and recv: "process_instruction (complete_ops em H) ((end_b N)\<lparr>tr_connection := c\<rparr>) inst nq now = (r, T)"
  shows "\<exists>outcome. r = Inr outcome"
proof -
  note ssp = complete_ssp [OF H, of "set vs"]
  show ?thesis using ssp.step_recv_b_inv(2) [OF ssp conjunct1 [OF screen_session_inv [OF H N order_refl]] w recv] .
qed

end

end
