(* ===== verification/Reference_Terminal.thy ===== *)
theory Reference_Terminal
  imports Vt_Parser Screen_Sync User_Stream
begin

text \<open>
  A terminal that behaves as \<open>Vt\<close> says, behind the interface of \<open>libghostty-vt\<close>, and the documented
  serialization of \<open>HostBuffers::HostMessage\<close>. With them the laws asked of the two libraries are seen
  to be consistent, and sessions can be run.
\<close>

section \<open>The terminal\<close>

text \<open>Characters of East Asian scripts take two columns.\<close>

definition wide_char :: "rtext \<Rightarrow> bool" where
  "wide_char t \<longleftrightarrow>
     (case t of
        [c] \<Rightarrow> 4352 \<le> c \<and> c \<le> 4447 \<or> 11904 \<le> c \<and> c \<le> 42191 \<or> 44032 \<le> c \<and> c \<le> 55203
          \<or> 65281 \<le> c \<and> c \<le> 65376 \<or> 131072 \<le> c \<and> c \<le> 262141
      | _ \<Rightarrow> False)"

definition ref_colors :: "rgb_color \<times> rgb_color \<times> rgb_color list" where
  "ref_colors = (rgb 255 255 255, rgb 0 0 0, default_palette)"

definition ref_blank :: "nat \<Rightarrow> nat \<Rightarrow> vterm" where
  "ref_blank w h =
     \<lparr>vt_rows = h, vt_cols = w, scr = (\<lambda>_ _. erased default_style), vt_y = 0, vt_x = 0,
      pen = default_style, bottom_margin = h, modes = (\<lambda>n. n = 25), vt_title = []\<rparr>"

definition ref_write :: "vterm \<Rightarrow> bytes \<Rightarrow> vterm" where
  "ref_write T bs =
     (case decode_utf8 bs of
        None \<Rightarrow> T
      | Some s \<Rightarrow> (case vt_exec wide_char (vt_parse s) T of None \<Rightarrow> T | Some T' \<Rightarrow> T'))"

text \<open>The reference terminal forgets its contents when it is resized, and keeps its modes and title.\<close>

definition ref_resize :: "vterm \<Rightarrow> nat \<Rightarrow> nat \<Rightarrow> vterm" where
  "ref_resize T w h = (ref_blank w h)\<lparr>modes := modes T, vt_title := vt_title T\<rparr>"

definition gh_color_of :: "style_color \<Rightarrow> gh_color" where
  "gh_color_of c = (case c of DefaultColor \<Rightarrow> NoColor | Palette i \<Rightarrow> PaletteColor i | Rgb k \<Rightarrow> RgbColor k)"

definition gh_style_of :: "cell_style \<Rightarrow> gh_style" where
  "gh_style_of s =
     \<lparr>fg_color = gh_color_of (style_fg s), bg_color = gh_color_of (style_bg s), gh_bold = bold s,
      gh_italic = italic s, gh_faint = faint s, gh_blink = blink s, gh_inverse = inverse_video s,
      gh_invisible = invisible s, gh_strikethrough = strikethrough s, gh_overline = overline s,
      gh_underline = (if underline s then SingleLine else NoUnderline)\<rparr>"

definition ref_cell :: "(nat \<Rightarrow> vcell) \<Rightarrow> nat \<Rightarrow> vt_cell" where
  "ref_cell row x =
     (case row x of
        Glyph t w s \<Rightarrow>
          \<lparr>graphemes = Some t, gh_cell_style = Some (gh_style_of s), raw_wide = Some (if w then WideCell else Narrow)\<rparr>
      | Tail \<Rightarrow>
          \<lparr>graphemes = Some [],
           gh_cell_style = Some (gh_style_of (case row (x - 1) of Glyph t w s \<Rightarrow> s | _ \<Rightarrow> default_style)),
           raw_wide = Some SpacerTail\<rparr>
      | Open \<Rightarrow> \<lparr>graphemes = Some [], gh_cell_style = Some (gh_style_of default_style), raw_wide = Some Narrow\<rparr>)"

definition ref_view :: "vterm \<Rightarrow> render_view" where
  "ref_view T =
     \<lparr>cursor_viewport = Some (Some (vt_x T, vt_y T)), view_cursor_visible = Some (modes T 25),
      view_colors = Some ref_colors,
      view_rows = Inr (map (\<lambda>y. Inr (map (ref_cell (scr T y)) [0..<vt_cols T])) [0..<vt_rows T])\<rparr>"

definition ref_ghostty :: "vterm ghostty" where
  "ref_ghostty =
     \<lparr>gh_new = (\<lambda>w h _. if 0 < w \<and> 0 < h then Inr (ref_blank w h) else Inl ''InvalidValue''),
      vt_write = ref_write, gh_resize = (\<lambda>T w h. (None, ref_resize T w h)),
      render_state_new = None, render_update = (\<lambda>T. Inr (ref_view T)), row_iterator_new = None, cell_iterator_new = None,
      gh_title = (\<lambda>T. Some (vt_title T)), gh_mode = (\<lambda>T n. Some (modes T n))\<rparr>"

lemma convert_gh_style: "convert_style (gh_style_of s) = s"
proof -
  have "convert_color (gh_color_of c) = c" for c by (cases c) (simp_all add: convert_color_def gh_color_of_def)
  then show ?thesis by (simp add: convert_style_def gh_style_of_def)
qed

lemma ref_cell_shows: "cell_shows row x (ref_cell row x)"
  by (auto simp: cell_shows_def ref_cell_def convert_gh_style split: vcell.splits)

lemma ref_view_shows: "view_shows ref_colors T (ref_view T)"
proof -
  have "view_rows (ref_view T) = Inr (map Inr (map (\<lambda>y. map (ref_cell (scr T y)) [0..<vt_cols T]) [0..<vt_rows T]))"
    by (simp add: ref_view_def comp_def)
  moreover have "view_colors (ref_view T) = Some ref_colors" "view_cursor_visible (ref_view T) = Some (modes T 25)"
    "cursor_viewport (ref_view T) = Some (Some (vt_x T, vt_y T))" by (simp_all add: ref_view_def)
  ultimately show ?thesis
    unfolding view_shows_def by (intro conjI exI [of _ "map (\<lambda>y. map (ref_cell (scr T y)) [0..<vt_cols T]) [0..<vt_rows T]"])
      (simp_all add: ref_cell_shows)
qed

lemma ref_blank_displays: "displays (ref_blank w h) (snapshot_new w h)"
  by (auto simp: displays_def ref_blank_def snapshot_new_def shows_grid_def shows_modes_def
      show_cell_def cell_empty_def glyph_def erased_def)

lemma ref_blank_good:
  assumes "0 < w" "w \<le> 65535" "0 < h" "h \<le> 65535"
  shows "good_screen wide_char single_char ref_colors (snapshot_new w h)"
proof -
  have "row_wf wide_char (replicate w cell_empty)"
    by (simp add: row_wf_def cell_empty_def glyph_def wide_char_def)
  then have "snap_wf wide_char (snapshot_new w h)"
    using assms by (simp add: snap_wf_def snapshot_new_def snap_ok_def)
  then show ?thesis using assms
    by (simp add: good_screen_def snapshot_new_def ref_colors_def title_ok_def cell_canon_def cell_empty_def)
qed

interpretation ref: ghostty_library ref_ghostty "\<lambda>T. T" "\<lambda>T. True" wide_char single_char ref_colors
proof
  show "\<not> wide_char [32]" "single_char [32]" "\<not> single_char []"
    by (simp_all add: wide_char_def single_char_def is_char_def)
  show "length (snd (snd ref_colors)) = 256" by (simp add: ref_colors_def length_default_palette)
  show "\<exists>g S. gh_new ref_ghostty w h 0 = Inr g \<and> True \<and> displays g S \<and> good_screen wide_char single_char ref_colors S
      \<and> cols S = w \<and> rows_count S = h \<and> title S = []" if dims: "0 < w" "w \<le> 65535" "0 < h" "h \<le> 65535" for w h
    using dims ref_blank_displays [of w h] ref_blank_good [OF dims]
    by (intro exI [of _ "ref_blank w h"] exI [of _ "snapshot_new w h"]) (simp add: ref_ghostty_def snapshot_new_def)
  show "True \<and> displays (vt_write ref_ghostty T (utf8 (vt_string ops))) S"
    if "\<forall>op\<in>set ops. op_ok single_char op" "vt_exec wide_char ops T = Some T'" "displays T' S" for ops T T' S
    using parse_bytes [OF that(1)] that(2,3) by (auto simp: ref_ghostty_def ref_write_def)
qed (auto simp: ref_ghostty_def ref_resize_def ref_blank_def ref_view_shows)

section \<open>The serialization\<close>

text \<open>
  The fields of \<open>hostinput.proto\<close>. \<open>HostBytes\<close> and \<open>ResizeMessage\<close> have the same fields as \<open>Keystroke\<close> and
  \<open>ResizeMessage\<close> of \<open>userinput.proto\<close>.
\<close>

definition pb_echoack :: "u64 option \<Rightarrow> bytes" where
  "pb_echoack n = enc_fields (opt_field (\<lambda>n. VarintF 8 (unat n)) n)"

definition unpb_echoack :: "bytes \<Rightarrow> u64 option option" where
  "unpb_echoack bs = map_option (\<lambda>fs. map_option word_of_nat (varint_of 8 fs)) (dec_fields bs)"

definition pb_host_instruction :: "host_instruction \<Rightarrow> bytes" where
  "pb_host_instruction i = enc_fields
     (opt_field (\<lambda>b. BytesF 2 (pb_keystroke b)) (hostbytes i) @
      opt_field (\<lambda>d. BytesF 3 (pb_resize d)) (host_resize i) @
      opt_field (\<lambda>n. BytesF 7 (pb_echoack n)) (echoack i))"

definition unpb_host_instruction :: "bytes \<Rightarrow> host_instruction option" where
  "unpb_host_instruction bs =
     (case dec_fields bs of
        None \<Rightarrow> None
      | Some fs \<Rightarrow>
          (case (submessage unpb_keystroke (bytes_of 2 fs), submessage unpb_resize (bytes_of 3 fs),
                 submessage unpb_echoack (bytes_of 7 fs)) of
             (Some b, Some r, Some e) \<Rightarrow> Some \<lparr>hostbytes = b, host_resize = r, echoack = e\<rparr>
           | _ \<Rightarrow> None))"

definition pb_host :: host_codec where
  "pb_host =
     \<lparr>hm_encode = (\<lambda>m. enc_fields (map (\<lambda>i. BytesF 1 (pb_host_instruction i)) m)),
      hm_decode = (\<lambda>bs.
        case dec_fields bs of
          None \<Rightarrow> Inl ''failed to decode Protobuf message''
        | Some fs \<Rightarrow>
            (case traverse unpb_host_instruction (all_bytes_of 1 fs) of
               None \<Rightarrow> Inl ''failed to decode Protobuf message''
             | Some m \<Rightarrow> Inr m))\<rparr>"

lemma unpb_echoack_pb: "unpb_echoack (pb_echoack n) = Some n"
  by (cases n) (simp_all add: unpb_echoack_def pb_echoack_def opt_field_def varint_of_def)

lemma unpb_host_pb: "unpb_host_instruction (pb_host_instruction i) = Some i"
  by (cases i; cases "hostbytes i"; cases "host_resize i"; cases "echoack i")
     (simp_all add: unpb_host_instruction_def pb_host_instruction_def opt_field_def bytes_of_def
       submessage_def unpb_keystroke_pb unpb_resize_pb unpb_echoack_pb)

lemma pb_host_laws: "host_codec_laws pb_host"
proof -
  have "traverse unpb_host_instruction (map pb_host_instruction m) = Some m" for m
    by (rule traverse_map) (rule unpb_host_pb)
  moreover have "map (\<lambda>i. BytesF 1 (pb_host_instruction i)) m =
      map (BytesF 1) (map pb_host_instruction m)" for m by simp
  ultimately show ?thesis
    unfolding host_codec_laws_def pb_host_def by (simp del: map_map)
qed

text \<open>The protocol on the wrapper over the reference terminal.\<close>

abbreviation ref_em :: "vterm mosh_terminal emulator" where
  "ref_em \<equiv> mosh_emulator ref_ghostty"

abbreviation ref_good :: "screen_snapshot \<Rightarrow> bool" where
  "ref_good \<equiv> good_screen wide_char single_char ref_colors"

interpretation ref_sync: sync_state "complete_ops ref_em pb_host" ref.emulator.screen_rep "later W" "\<lambda>_. True" "\<lambda>p. p" for W
  by (rule ref.emulator.complete_sync [OF pb_host_laws])

interpretation ref_net: ssp "complete_ops ref_em pb_host" ref.emulator.screen_rep "later W" "\<lambda>_. True" "\<lambda>p. p" Not
  "ref.emulator.change W" "ref.emulator.change_version W" for W
  by (rule ref.emulator.complete_ssp [OF pb_host_laws])

end
