(* ===== verification/Screens.thy ===== *)
theory Screens
  imports Reference_Terminal Keystrokes Rendering
begin

text \<open>
  Properties of the screens a client gets from a server: the composition of \<open>display.rs\<close>,
  \<open>terminal.rs\<close>, \<open>complete.rs\<close> and the protocol.
\<close>

section \<open>The echo acknowledgement\<close>

fun frame_of :: "server_event \<Rightarrow> (u64 \<times> instant) list" where
  "frame_of (InputFrame n t) = [(n, t)]"
| "frame_of _ = []"

definition frames :: "server_event list \<Rightarrow> (u64 \<times> instant) list" where
  "frames es = concat (map frame_of es)"

fun time_of :: "server_event \<Rightarrow> instant list" where
  "time_of (InputFrame n t) = [t]"
| "time_of (EchoTimer t) = [t]"
| "time_of _ = []"

definition times :: "server_event list \<Rightarrow> instant list" where
  "times es = concat (map time_of es)"

text \<open>The clock does not run backwards, and the numbers of input frames do not fall.\<close>

definition in_order :: "server_event list \<Rightarrow> bool" where
  "in_order es \<longleftrightarrow> sorted (times es) \<and> sorted (map fst (frames es))"

lemma frames_append [simp]: "frames (es @ fs) = frames es @ frames fs" "frames [] = []" "frames [e] = frame_of e"
  and times_append [simp]: "times (es @ fs) = times es @ times fs" "times [] = []" "times [e] = time_of e"
  by (simp_all add: frames_def times_def)

abbreviation aged :: "instant \<Rightarrow> u64 \<times> instant \<Rightarrow> bool" where
  "aged now \<equiv> (\<lambda>(n, t). now - t \<ge> ECHO_TIMEOUT)"

lemma newest_last: "newest_echo_ack now h = (if filter (aged now) h = [] then 0 else fst (last (filter (aged now) h)))"
proof (induction h rule: rev_induct)
  case (snoc x h)
  then show ?case by (cases x) (auto simp: newest_echo_ack_def)
qed (simp add: newest_echo_ack_def)

lemma filter_last: "xs \<noteq> [] \<Longrightarrow> P (last xs) \<Longrightarrow> filter P xs \<noteq> [] \<and> last (filter P xs) = last xs"
  by (induction xs rule: rev_induct) auto

lemma sorted_last: "sorted (map f xs) \<Longrightarrow> x \<in> set xs \<Longrightarrow> f x \<le> f (last xs)"
  by (induction xs rule: rev_induct) (auto simp: sorted_append)

text \<open>Dropping frames below one that is old enough does not matter.\<close>

lemma newest_filter:
  assumes "sorted (map fst h)" and "a = 0 \<or> (\<exists>t. (a, t) \<in> set h \<and> now - t \<ge> ECHO_TIMEOUT)"
  shows "newest_echo_ack now (filter (\<lambda>(n, _). n \<ge> a) h) = newest_echo_ack now h"
proof -
  let ?old = "filter (aged now) h"
  have swap: "filter (aged now) (filter (\<lambda>(n, _). n \<ge> a) h) = filter (\<lambda>(n, _). n \<ge> a) ?old"
    by (simp add: conj_commute case_prod_unfold)
  show ?thesis
  proof (cases "?old = []")
    case True
    then show ?thesis unfolding newest_last swap by simp
  next
    case False
    have "sorted (map fst ?old)" using assms(1) by (rule sorted_filter)
    then have "a \<le> fst (last ?old)" using assms(2) sorted_last [of fst ?old] by (fastforce simp: word_le_nat_alt)
    then have "filter (\<lambda>(n, _). n \<ge> a) ?old \<noteq> [] \<and> last (filter (\<lambda>(n, _). n \<ge> a) ?old) = last ?old"
      using False by (intro filter_last) (auto simp: case_prod_unfold)
    then show ?thesis unfolding newest_last swap using False by simp
  qed
qed

definition echo_inv :: "server_event list \<Rightarrow> 't complete \<Rightarrow> bool" where
  "echo_inv es s \<longleftrightarrow> input_history s = filter (\<lambda>(n, _). n \<ge> echo_ack s) (frames es) \<and>
     (echo_ack s = 0 \<or> (\<exists>t. (echo_ack s, t) \<in> set (frames es) \<and> (\<exists>u\<in>set (times es). u - t \<ge> ECHO_TIMEOUT)))"

lemma act_echo [simp]: "echo_ack (snd (complete_act em bs s)) = echo_ack s" "input_history (snd (complete_act em bs s)) = input_history s"
  "echo_ack (snd (complete_resize em w h s)) = echo_ack s" "input_history (snd (complete_resize em w h s)) = input_history s"
  by (auto simp: complete_act_def complete_resize_def refresh_def split: sum.splits option.splits prod.splits)

lemma newest_step:
  assumes "echo_inv es s" "in_order (es @ [EchoTimer now])"
  shows "newest_echo_ack now (input_history s) = newest_echo_ack now (frames es)"
proof -
  have "\<exists>t. (echo_ack s, t) \<in> set (frames es) \<and> now - t \<ge> ECHO_TIMEOUT" if ne: "echo_ack s \<noteq> 0"
  proof -
    obtain t u where t: "(echo_ack s, t) \<in> set (frames es)" "u \<in> set (times es)" "u - t \<ge> ECHO_TIMEOUT"
      using assms(1) ne by (auto simp: echo_inv_def)
    moreover have "u \<le> now" using assms(2) t(2) by (auto simp: in_order_def sorted_append)
    ultimately show ?thesis by (intro exI [of _ t]) (auto dest: diff_le_mono [of u now t])
  qed
  then show ?thesis
    using assms newest_filter [of "frames es" "echo_ack s" now] by (auto simp: echo_inv_def in_order_def)
qed

lemma newest_in: "newest_echo_ack now h = 0 \<or> (\<exists>t. (newest_echo_ack now h, t) \<in> set h \<and> now - t \<ge> ECHO_TIMEOUT)"
proof (cases "filter (aged now) h = []")
  case True
  then show ?thesis by (simp add: newest_last)
next
  case False
  obtain n t where l: "last (filter (aged now) h) = (n, t)" by (cases "last (filter (aged now) h)")
  have "(n, t) \<in> set (filter (aged now) h)" using last_in_set [OF False] unfolding l .
  then show ?thesis unfolding newest_last if_not_P [OF False] l by auto
qed

lemma newest_ge:
  assumes "echo_inv es s" "in_order (es @ [EchoTimer now])"
  shows "echo_ack s \<le> newest_echo_ack now (frames es)"
proof (cases "echo_ack s = 0")
  case False
  then obtain t u where t: "(echo_ack s, t) \<in> set (frames es)" "u \<in> set (times es)" "u - t \<ge> ECHO_TIMEOUT"
    using assms(1) by (auto simp: echo_inv_def)
  moreover have "u \<le> now" using assms(2) t(2) by (auto simp: in_order_def sorted_append)
  ultimately have m: "(echo_ack s, t) \<in> set (filter (aged now) (frames es))" by (auto dest: diff_le_mono [of u now t])
  have "sorted (map fst (filter (aged now) (frames es)))" using assms(2) by (auto simp: in_order_def intro: sorted_filter)
  then have "fst (echo_ack s, t) \<le> fst (last (filter (aged now) (frames es)))" using m by (rule sorted_last)
  moreover have "filter (aged now) (frames es) \<noteq> []" using m by (metis empty_iff empty_set)
  ultimately show ?thesis unfolding newest_last by simp
qed simp

lemma frames_times: "(n, t) \<in> set (frames es) \<Longrightarrow> t \<in> set (times es)"
proof -
  have "(n, t) \<in> set (frame_of e) \<Longrightarrow> t \<in> set (time_of e)" for e by (cases e) auto
  then show "(n, t) \<in> set (frames es) \<Longrightarrow> t \<in> set (times es)" by (auto simp: frames_def times_def)
qed

text \<open>On frames in order, the code's search finds the largest number that is fifty milliseconds old.\<close>

lemma newest_Max:
  assumes "sorted (map fst h)" and past: "\<forall>(n, t)\<in>set h. t \<le> now"
  shows "newest_echo_ack now h = Max (insert 0 {n. \<exists>t. (n, t) \<in> set h \<and> t + ms 50 \<le> now})"
proof -
  let ?old = "filter (aged now) h"
  have S: "{n. \<exists>t. (n, t) \<in> set h \<and> t + ms 50 \<le> now} = fst ` set ?old"
    using past by (force simp: ECHO_TIMEOUT_def)
  have "sorted (map fst ?old)" using assms(1) by (rule sorted_filter)
  then have le: "x \<in> set ?old \<Longrightarrow> fst x \<le> fst (last ?old)" for x by (rule sorted_last)
  show ?thesis
  proof (cases "?old = []")
    case True
    then show ?thesis unfolding newest_last S by simp
  next
    case False
    then have "fst (last ?old) \<in> insert 0 (fst ` set ?old)" using last_in_set by blast
    then have "Max (insert 0 (fst ` set ?old)) = fst (last ?old)" using le by (intro Max_eqI) auto
    then show ?thesis unfolding newest_last S if_not_P [OF False] by simp
  qed
qed

lemma echo_step:
  assumes inv: "echo_inv es s" and ord: "in_order (es @ [e])"
  shows "echo_inv (es @ [e]) (server_act em e s)"
proof (cases e)
  case (InputFrame n t)
  have "echo_ack s \<le> n"
    using inv ord InputFrame by (auto simp: echo_inv_def in_order_def sorted_append)
  then show ?thesis using inv InputFrame by (auto simp: echo_inv_def server_act_def register_input_frame_def)
next
  case (EchoTimer now)
  let ?n = "newest_echo_ack now (frames es)"
  have n: "newest_echo_ack now (input_history s) = ?n" and ge: "echo_ack s \<le> ?n"
    using newest_step [OF inv] newest_ge [OF inv] ord EchoTimer by auto
  have "filter (\<lambda>(k, _). k \<ge> ?n) (filter (\<lambda>(k, _). k \<ge> echo_ack s) (frames es)) = filter (\<lambda>(k, _). k \<ge> ?n) (frames es)"
    using ge by (auto simp: case_prod_unfold intro!: filter_cong)
  then show ?thesis using inv n newest_in [of now "frames es"] EchoTimer
    by (auto simp: echo_inv_def server_act_def set_echo_ack_def Let_def)
qed (use inv in \<open>auto simp: echo_inv_def server_act_def\<close>)

lemma echo_run:
  assumes "echo_ack s = 0" "input_history s = []" "in_order es"
  shows "echo_inv es (fold (server_act em) es s)"
  using assms(3)
proof (induction es rule: rev_induct)
  case (snoc e es)
  then have "echo_inv es (fold (server_act em) es s)" by (auto simp: in_order_def sorted_append)
  from echo_step [OF this snoc.prems, of em] show ?case by simp
qed (simp add: echo_inv_def assms)

section \<open>A session to run\<close>

text \<open>
  A server and a client on the reference terminal, both of size 80x24. The shell writes a prompt.
\<close>

definition ref_state0 :: "vterm mosh_terminal complete" where
  "ref_state0 =
     \<lparr>terminal = Some \<lparr>gh = ref_blank 80 24, mt_cols = 80, mt_rows = 24, mt_frame = 0\<rparr>,
      screen = snapshot_new 80 24, echo_ack = 0, input_history = []\<rparr>"

definition prompt_screen :: screen_snapshot where
  "prompt_screen = (cell_mut (snapshot_new 80 24) 0 0 (\<lambda>c. c\<lparr>cell_text := [36]\<rparr>))\<lparr>cursor_x := 1\<rparr>"

definition prompt_event :: server_event where
  "prompt_event = PtyOutput (utf8 (vt_string (display_diff (snapshot_new 80 24) prompt_screen)))"

definition prompt_state :: "vterm mosh_terminal complete" where
  "prompt_state = server_act ref_em prompt_event ref_state0"

abbreviation ref_ops :: "vterm mosh_terminal complete state_ops" where
  "ref_ops \<equiv> complete_ops ref_em pb_host"

definition screen_demo0 :: "(vterm mosh_terminal complete, unit, version) net" where
  "screen_demo0 =
     \<lparr>net_clock = 0,
      end_a = transport_new ref_ops unit_ops 0 0 (demo_conn True) ref_state0 (),
      end_b = transport_new unit_ops ref_ops 0 0 (demo_conn False) () ref_state0,
      wire_ab = {}, wire_ba = {}, made = version_of ref_state0, delivered = ref_state0\<rparr>"

definition screen_demo :: "(vterm mosh_terminal complete, unit, version) net" where
  "screen_demo =
     screen_demo0\<lparr>end_a := (end_a screen_demo0)\<lparr>tr_sender := set_current_state (tr_sender (end_a screen_demo0)) prompt_state\<rparr>,
       made := version_of prompt_state\<rparr>"

lemma ref_state0_live: "ref.emulator.live_state ref_state0"
  by (simp add: ref.emulator.live_state_def ref_state0_def ref_blank_good ref_blank_displays ref.wrapper_ok_def)
     (simp add: ref_blank_def)

lemma ref_state0_new: "complete_new ref_em 80 24 = Inr ref_state0"
proof -
  let ?t = "\<lparr>gh = ref_blank 80 24, mt_cols = 80, mt_rows = 24, mt_frame = 0\<rparr>"
  have "em_new ref_em 80 24 = Inr ?t" by (simp add: mosh_emulator_def mosh_new_def ref_ghostty_def)
  moreover have "em_snapshot ref_em ?t = Inr (snapshot_new 80 24)"
    using ref.mosh_snapshot_ok [of ?t "snapshot_new 80 24"] ref_blank_good [of 80 24] ref_blank_displays [of 80 24]
    by (simp add: ref.wrapper_ok_def mosh_emulator_def) (simp add: ref_blank_def)
  ultimately show ?thesis by (simp add: complete_new_def ref_state0_def)
qed

lemma row_wf_plain: "\<forall>c\<in>set row. \<not> wide c \<and> \<not> spacer c \<and> \<not> ww (glyph c) \<Longrightarrow> row_wf ww row"
  by (simp add: row_wf_def)

lemma prompt_good: "ref_good prompt_screen"
proof -
  let ?c = "cell_empty\<lparr>cell_text := [36]\<rparr>"
  have grid: "grid prompt_screen = (replicate 24 (replicate 80 cell_empty))[0 := (replicate 80 cell_empty)[0 := ?c]]"
    by (simp add: prompt_screen_def cell_mut_def snapshot_new_def)
  have rows: "row = replicate 80 cell_empty \<or> row = (replicate 80 cell_empty)[0 := ?c]" if "row \<in> set (grid prompt_screen)" for row
    using that set_update_subset_insert [of "replicate 24 (replicate 80 cell_empty)" 0 "(replicate 80 cell_empty)[0 := ?c]"]
    unfolding grid by auto
  have cells: "c = cell_empty \<or> c = ?c" if "row \<in> set (grid prompt_screen)" "c \<in> set row" for row c
    using rows [OF that(1)] that(2) set_update_subset_insert [of "replicate 80 cell_empty" 0 ?c] by auto
  have wf: "row_wf wide_char row" if "row \<in> set (grid prompt_screen)" for row
  proof (intro row_wf_plain ballI)
    fix c assume "c \<in> set row"
    from cells [OF that this] show "\<not> wide c \<and> \<not> spacer c \<and> \<not> wide_char (glyph c)"
      by (elim disjE) (simp_all add: cell_empty_def glyph_def wide_char_def)
  qed
  have canon: "cell_canon single_char c" if "row \<in> set (grid prompt_screen)" "c \<in> set row" for row c
    using cells [OF that] by (auto simp: cell_canon_def cell_empty_def single_char_def is_char_def)
  have "length row = 80" if "row \<in> set (grid prompt_screen)" for row using rows [OF that] by auto
  moreover have "length (grid prompt_screen) = 24" by (simp add: grid)
  ultimately have "snap_wf wide_char prompt_screen"
    using wf by (simp add: snap_wf_def snap_ok_def) (simp add: prompt_screen_def snapshot_new_def cell_mut_def)
  then show ?thesis using canon
    by (simp add: good_screen_def) (simp add: prompt_screen_def snapshot_new_def cell_mut_def title_ok_def ref_colors_def)
qed

lemma prompt_version: "version_of prompt_state = (prompt_screen, 0)"
proof -
  have "cols prompt_screen = 80" "rows_count prompt_screen = 24" by (simp_all add: prompt_screen_def snapshot_new_def)
  then obtain s' where "complete_act ref_em (utf8 (vt_string (display_diff (snapshot_new 80 24) prompt_screen))) ref_state0 = (None, s')"
    "version_of s' = (prompt_screen, 0)"
    using ref.emulator.act_diff [OF ref_state0_live prompt_good] by (auto simp: ref_state0_def snapshot_new_def)
  then show ?thesis by (simp add: prompt_state_def server_act_def prompt_event_def)
qed

lemma screen_demo_session:
  "screen_session ref_em ref_good pb_host unit_ops screen_demo [version_of ref_state0, (prompt_screen, 0)]"
proof -
  have "screen_session ref_em ref_good pb_host unit_ops screen_demo0 [made screen_demo0]"
    by (rule session_start) (auto simp: screen_start_def screen_demo0_def ref_state0_new)
  moreover have "prompt_state = server_act ref_em prompt_event (current_state (tr_sender (end_a screen_demo0)))"
    by (simp add: screen_demo0_def transport_new_def sender_new_def prompt_state_def)
  moreover have "ref_good (screen prompt_state)" using prompt_version prompt_good by (simp add: version_of_def)
  moreover have "follows (made screen_demo0) (version_of prompt_state)"
    by (simp add: prompt_version follows_def screen_demo0_def version_of_def ref_state0_def snapshot_new_def)
  moreover have "net_step ref_ops unit_ops (\<lambda>x _. x) (\<lambda>x _. version_of x) screen_demo0 (Act prompt_state) screen_demo"
    unfolding screen_demo_def by (rule step_act) (simp add: screen_demo0_def transport_new_def sender_new_def)
  ultimately have "screen_session ref_em ref_good pb_host unit_ops screen_demo ([made screen_demo0] @ [version_of prompt_state])"
    by (rule session_act)
  then show ?thesis by (simp add: prompt_version screen_demo0_def)
qed

section \<open>Sizes\<close>

text \<open>A state whose emulator, if it has one, has the size of its screen.\<close>

definition sized :: "nat \<Rightarrow> nat \<Rightarrow> 'g mosh_terminal complete \<Rightarrow> bool" where
  "sized w h s \<longleftrightarrow> complete_dimensions s = (w, h) \<and> (\<forall>t. terminal s = Some t \<longrightarrow> mosh_dimensions t = (w, h))"

lemma mosh_snapshot_shape:
  assumes "mosh_snapshot G t = Inr S"
  obtains v rows rs where "view_rows v = Inr rows" "convert_rows (mt_cols t) rows = Inr rs" "S = snapshot_of G t v rs"
  using assms by (auto simp: mosh_snapshot_def split: option.splits sum.splits)

lemma mosh_snapshot_dims: "mosh_snapshot G t = Inr S \<Longrightarrow> (cols S, rows_count S) = mosh_dimensions t"
  by (auto elim!: mosh_snapshot_shape simp: mosh_dimensions_def)

lemma act_sized:
  assumes "sized w h s" and "complete_act (mosh_emulator G) bs s = (r, s')"
  shows "sized w h s'"
proof -
  have t: "mosh_dimensions t = (w, h)" if "terminal_mut (mosh_emulator G) s = Inr t" for t
    using assms(1) that by (auto simp: terminal_mut_def sized_def complete_dimensions_def mosh_emulator_def mosh_new_def
        mosh_write_def mosh_dimensions_def split: option.splits sum.splits)
  show ?thesis
  proof (cases "terminal_mut (mosh_emulator G) s")
    case (Inl e)
    then show ?thesis using assms by (auto simp: complete_act_def)
  next
    case (Inr t)
    let ?t = "mosh_write G t bs"
    have d: "mosh_dimensions ?t = (w, h)" using t [OF Inr] by (simp add: mosh_write_def mosh_dimensions_def)
    have s': "s' = refresh (mosh_emulator G) (s\<lparr>terminal := Some ?t\<rparr>)"
      using assms(2) Inr by (simp add: complete_act_def mosh_emulator_def)
    show ?thesis
    proof (cases "mosh_snapshot G ?t")
      case (Inl e)
      then show ?thesis using s' d assms(1) by (simp add: refresh_def mosh_emulator_def sized_def complete_dimensions_def)
    next
      case (Inr S)
      then show ?thesis using s' d mosh_snapshot_dims [OF Inr]
        by (simp add: refresh_def mosh_emulator_def sized_def complete_dimensions_def)
    qed
  qed
qed

lemma echo_sized: "sized w h s \<Longrightarrow> sized w h (s\<lparr>echo_ack := a\<rparr>)"
  by (simp add: sized_def complete_dimensions_def)

lemma apply_sized:
  assumes "sized w h s" "\<forall>i\<in>set is. host_resize i = None" "apply_host_instructions (mosh_emulator G) is s = (r, s')"
  shows "sized w h s'"
  using assms
proof (induction "is" arbitrary: s)
  case (Cons i "is")
  obtain q s1 where q: "apply_host_instruction (mosh_emulator G) i s = (q, s1)" by fastforce
  have "sized w h s1"
    using q Cons.prems(1,2) act_sized [of w h s G] echo_sized [of w h s]
    by (auto simp: apply_host_instruction_def split: option.splits)
  then show ?case using Cons.IH [of s1] Cons.prems(2,3) q by (cases q) auto
qed simp

text \<open>The cells of a snapshot.\<close>

definition cell_canonical :: "nat \<Rightarrow> cell_data list \<Rightarrow> bool" where
  "cell_canonical w row \<longleftrightarrow> w \<le> length row \<and> (\<forall>c\<in>set row. cell_text c \<noteq> [32] \<and> (spacer c \<longrightarrow> cell_text c = []))"

lemma convert_cells_canonical:
  "convert_cells cs = Inr ds \<Longrightarrow> \<forall>d\<in>set ds. cell_text d \<noteq> [32] \<and> (spacer d \<longrightarrow> cell_text d = [])"
  by (induction cs arbitrary: ds) (auto simp: convert_cell_def Let_def split: sum.splits option.splits if_splits)

lemma snapshot_rows_canonical:
  assumes "convert_rows (mt_cols t) rows = Inr rs" and "row \<in> set (grid (snapshot_of G t v rs))"
  shows "cell_canonical (mt_cols t) row"
proof -
  have empty: "cell_text cell_empty = []" by (simp add: cell_empty_def)
  have "grid (snapshot_of G t v rs) = pad_to (mt_rows t) (replicate (mt_cols t) cell_empty) (take (mt_rows t) rs)"
    by (simp add: snapshot_of_def Let_def split_beta)
  then have "row = replicate (mt_cols t) cell_empty \<or> row \<in> set rs"
    using assms(2) by (auto dest!: set_pad_to in_set_takeD)
  then show ?thesis
  proof
    assume "row \<in> set rs"
    then obtain cs ds where "convert_cells cs = Inr ds" "row = pad_to (mt_cols t) cell_empty ds"
      using convert_rows_all [OF assms(1)] by (auto simp: in_set_conv_nth)
    then show ?thesis using convert_cells_canonical [of cs ds] empty by (auto simp: cell_canonical_def dest!: set_pad_to)
  qed (use empty in \<open>simp add: cell_canonical_def\<close>)
qed

section \<open>The protocol over the library\<close>

context ghostty_library
begin

lemma screens_genuine:
  assumes "host_codec_laws H" "screen_session (mosh_emulator G) (good_screen ww grapheme colors) H cops N vs"
  shows "version_of (ts_state (get_latest_remote_state (end_b N))) \<in> set vs \<and>
    (\<forall>t\<in>set (received_states (end_b N)). version_of (ts_state t) \<in> set vs)"
  using emulator.session_latest [OF assms] emulator.session_versions(2) [OF assms] by blast

lemmas screens_catch_up = emulator.session_catches_up

lemmas screen_diffs_accepted = emulator.session_diffs_apply

end

section \<open>Properties\<close>

text \<open>
  Over a network that loses, repeats and reorders packets, every screen and echo acknowledgement
  that the client holds, the one it shows included, is one that the server's terminal had at some
  moment: no mixture of screens is ever shown. \<open>ghostty_library\<close> is what is asked of the emulator
  library, \<open>host_codec_laws\<close> what is asked of \<open>prost\<close>. Both ends start from the same state, which they
  do when the client's window is 80x24.
\<close>

theorem client_screens_are_genuine:
  assumes "ghostty_library G vw tame ww grapheme colors" and "host_codec_laws H"
    and "screen_session (mosh_emulator G) (good_screen ww grapheme colors) H cops N vs"
  shows "version_of (ts_state (get_latest_remote_state (end_b N))) \<in> set vs \<and>
    (\<forall>t\<in>set (received_states (end_b N)). version_of (ts_state t) \<in> set vs)"
  by (rule ghostty_library.screens_genuine [OF assms])

theorem client_screens_are_genuine_witness:
  "version_of (ts_state (get_latest_remote_state (end_b screen_demo))) \<in> {version_of ref_state0, (prompt_screen, 0)}"
  using client_screens_are_genuine [OF ref.ghostty_library_axioms pb_host_laws screen_demo_session] by simp

text \<open>
  C25. One packet is enough for the client's screen to be the server's: when the server ticks and sends
  a diff from the acknowledged state, and that packet arrives while the client has room for a state,
  the newest state of the client has the screen and the echo acknowledgement of the server's current
  state, whatever was lost before. The session is one in which both ends start with an 80x24 screen, every
  screen of the server is well formed (\<open>good_screen\<close>), its window title is never removed once there is one,
  and its echo acknowledgement does not fall; of the emulator library only the behaviour of the client's
  terminals, which this program alone writes to, is assumed (\<open>ghostty_library\<close>). Where the ends start with
  different sizes the claim fails (\<open>equal_sizes_never_resize\<close>).
\<close>

theorem screen_catches_up:
  assumes "ghostty_library G vw tame ww grapheme colors" and "host_codec_laws H"
    and "screen_session (mosh_emulator G) (good_screen ww grapheme colors) H cops N vs"
    and "net_clock N \<le> now" and "num_room (tr_sender (end_a N))"
    and "sender_tick (complete_ops (mosh_emulator G) H) (tr_sender (end_a N)) now timeout srtt remote pad = (Some inst, S')"
    and "old_num inst = Some (sent_state_acked (tr_sender (end_a N)))"
    and "length (received_states (end_b N)) \<le> RECEIVED_STATES_MAX"
    and "process_instruction (complete_ops (mosh_emulator G) H) (end_b N) inst nq now' = (r, T)"
  shows "version_of (ts_state (get_latest_remote_state T)) = version_of (current_state (tr_sender (end_a N)))"
  by (rule ghostty_library.screens_catch_up [OF assms])

text \<open>The first tick of that server.\<close>

definition screen_tick :: "instruction option \<times> vterm mosh_terminal complete sender" where
  "screen_tick = sender_tick ref_ops (tr_sender (end_a screen_demo)) 0 0 0 True []"

lemma prompt_differs: "\<not> complete_state_equal prompt_state (complete_clone ref_state0)"
  "complete_diff_from pb_host prompt_state (complete_clone ref_state0) \<noteq> []"
proof -
  have "cursor_x prompt_screen \<noteq> cursor_x (snapshot_new 80 24)" by (simp add: prompt_screen_def snapshot_new_def)
  then have "screen prompt_state \<noteq> screen ref_state0"
    using prompt_version by (auto simp: version_of_def ref_state0_def)
  then show ne: "\<not> complete_state_equal prompt_state (complete_clone ref_state0)"
    by (simp add: complete_state_equal_def complete_clone_def)
  have "ref.emulator.screen_rep False (version_of prompt_state) prompt_state"
    "ref.emulator.screen_rep False (version_of ref_state0) (complete_clone ref_state0)"
    using prompt_version prompt_good ref_state0_live
    by (auto simp: ref.emulator.screen_rep_def version_of_def complete_clone_def ref.emulator.live_state_def)
  moreover have "later UNIV (version_of ref_state0) (version_of prompt_state)"
    by (simp add: later_def follows_def prompt_version version_of_def ref_state0_def snapshot_new_def)
  ultimately show "complete_diff_from pb_host prompt_state (complete_clone ref_state0) \<noteq> []"
    using ref_sync.diff_empty [of UNIV "version_of ref_state0" "version_of prompt_state" False prompt_state "complete_clone ref_state0"] ne
    by (auto simp: complete_ops_def)
qed

lemma screen_tick_some: "\<exists>i. fst screen_tick = Some i \<and> old_num i = Some 0"
  using prompt_differs
  by (simp add: screen_tick_def screen_demo_def screen_demo0_def transport_new_def set_current_state_def
      tick_defs sender_new_def complete_ops_def ms_def SENT_STATES_MAX_def SHUTDOWN_NUM_def)

theorem screen_catches_up_witness:
  "\<exists>inst. fst screen_tick = Some inst \<and>
     version_of (ts_state (get_latest_remote_state (snd (process_instruction ref_ops (end_b screen_demo) inst 0 0)))) = (prompt_screen, 0)"
proof -
  obtain inst where i: "fst screen_tick = Some inst" "old_num inst = Some 0" using screen_tick_some by blast
  obtain r T where p: "process_instruction ref_ops (end_b screen_demo) inst 0 0 = (r, T)" by fastforce
  have demo: "net_clock screen_demo \<le> 0" "sent_state_acked (tr_sender (end_a screen_demo)) = 0"
    "length (received_states (end_b screen_demo)) \<le> RECEIVED_STATES_MAX" "num_room (tr_sender (end_a screen_demo))"
    "current_state (tr_sender (end_a screen_demo)) = prompt_state"
    by (simp_all add: screen_demo_def screen_demo0_def transport_new_def sender_new_def set_current_state_def
        RECEIVED_STATES_MAX_def sent_state_acked_def sent_state_last_def num_room_def SHUTDOWN_NUM_def word_gt_0)
  have t: "sender_tick ref_ops (tr_sender (end_a screen_demo)) 0 0 0 True [] = (Some inst, snd screen_tick)"
    using i(1) by (simp add: screen_tick_def prod_eq_iff)
  from screen_catches_up [OF ref.ghostty_library_axioms pb_host_laws screen_demo_session demo(1,4) t _ demo(3) p]
  show ?thesis using i p demo by (simp add: prompt_version)
qed

text \<open>
  C39. After any sequence of shell output, resizes, input frames and echo timers, the echo
  acknowledgement that an echo timer sets is the largest number among all input frames that ever
  arrived at least fifty milliseconds before the timer (0 when there is none), although the terminal
  forgets old frames; a frame that is even a nanosecond younger does not count; and the
  acknowledgement never falls. The clock does not run backwards and the numbers of frames do not fall.
\<close>

theorem echo_ack_tracks_input:
  assumes "echo_ack s0 = 0" and "input_history s0 = []" and "in_order (es @ [EchoTimer now])"
  shows "echo_ack (fold (server_act em) (es @ [EchoTimer now]) s0) =
      Max (insert 0 {n. \<exists>t. (n, t) \<in> set (frames es) \<and> t + ms 50 \<le> now}) \<and>
    echo_ack (fold (server_act em) es s0) \<le> echo_ack (fold (server_act em) (es @ [EchoTimer now]) s0)"
proof -
  have "in_order es" "sorted (map fst (frames es))" "\<forall>(n, t)\<in>set (frames es). t \<le> now"
    using assms(3) frames_times [of _ _ es] by (auto simp: in_order_def sorted_append)
  with echo_run [OF assms(1,2) this(1), of em] show ?thesis
    using newest_step [OF _ assms(3)] newest_ge [OF _ assms(3)] newest_Max [of "frames es" now]
    by (auto simp: server_act_def set_echo_ack_def Let_def)
qed

text \<open>The witness sits on the boundary: of three frames the second is exactly fifty milliseconds old, the third a nanosecond less.\<close>

theorem echo_ack_tracks_input_witness:
  "echo_ack (fold (server_act ref_em) [InputFrame 1 0, InputFrame 2 (ms 10), InputFrame 3 (ms 10 + 1), EchoTimer (ms 60)] ref_state0) = 2"
proof -
  let ?es = "[InputFrame 1 0, InputFrame 2 (ms 10), InputFrame 3 (ms 10 + 1)]"
  have old: "{n. \<exists>t. (n, t) \<in> set (frames ?es) \<and> t + ms 50 \<le> ms 60} = {1, 2}"
    by (auto simp: frames_def ms_def)
  have "in_order (?es @ [EchoTimer (ms 60)])" by (simp add: in_order_def times_def frames_def ms_def)
  from echo_ack_tracks_input [OF _ _ this, of ref_state0 ref_em] show ?thesis
    unfolding old by (simp add: ref_state0_def)
qed

text \<open>
  The client's terminal changes its size only by a resize instruction, and a diff between two
  screens of one size has none. So a client whose window is not the 80x24 that the server starts with
  keeps a screen of another size than the server's through every diff, until the server's size changes.
\<close>

theorem equal_sizes_never_resize:
  assumes "complete_new (mosh_emulator G) w h = Inr b"
    and "complete_dimensions old = (w', h')" and "complete_dimensions new = (w', h')"
    and "apply_host_instructions (mosh_emulator G) (host_diff (screen new) na (screen old) oa) b = (r, b')"
  shows "complete_dimensions b' = (w, h)"
proof -
  have "sized w h b"
    using assms(1)
    by (auto simp: complete_new_def mosh_emulator_def mosh_new_def sized_def complete_dimensions_def mosh_dimensions_def
        dest: mosh_snapshot_dims split: sum.splits)
  moreover have "\<forall>i\<in>set (host_diff (screen new) na (screen old) oa). host_resize i = None"
    using assms(2,3) by (auto simp: host_diff_def complete_dimensions_def Let_def)
  ultimately show ?thesis using apply_sized [OF _ _ assms(4)] by (simp add: sized_def)
qed

theorem equal_sizes_never_resize_witness:
  "\<exists>b. complete_new ref_em 100 30 = Inr b \<and>
     complete_dimensions (snd (apply_host_instructions ref_em (host_diff prompt_screen 0 (snapshot_new 80 24) 0) b)) = (100, 30)"
proof -
  obtain b where b: "complete_new ref_em 100 30 = Inr b" using ref.emulator.complete_new_live [of 100 30] by auto
  obtain q b' where a: "apply_host_instructions ref_em (host_diff prompt_screen 0 (snapshot_new 80 24) 0) b = (q, b')" by fastforce
  have "complete_dimensions b' = (100, 30)"
    using equal_sizes_never_resize [OF b, of ref_state0 80 24 "ref_state0\<lparr>screen := prompt_screen\<rparr>" 0 0 q b'] a
    by (simp add: complete_dimensions_def ref_state0_def) (simp add: prompt_screen_def snapshot_new_def)
  then show ?thesis using b a by auto
qed

text \<open>
  C40. A snapshot that is taken has the size the wrapper remembers, rows at least as long as that, the
  cursor inside, 256 colours, and cells in canonical form: a blank cell never holds a space, and the
  right half of a wide character holds nothing.
\<close>

theorem snapshot_is_typed:
  assumes "mosh_snapshot G t = Inr S"
  shows "(cols S, rows_count S) = mosh_dimensions t \<and> length (grid S) = rows_count S \<and> length (palette S) = 256 \<and>
    (\<forall>row\<in>set (grid S). cols S \<le> length row \<and> (\<forall>c\<in>set row. cell_text c \<noteq> [32] \<and> (spacer c \<longrightarrow> cell_text c = []))) \<and>
    (0 < cols S \<longrightarrow> cursor_x S < cols S) \<and> (0 < rows_count S \<longrightarrow> cursor_y S < rows_count S)"
proof -
  obtain v rows rs where v: "convert_rows (mt_cols t) rows = Inr rs" "S = snapshot_of G t v rs"
    using assms by (rule mosh_snapshot_shape)
  have "cell_canonical (mt_cols t) row" if "row \<in> set (grid S)" for row
    using that snapshot_rows_canonical [OF v(1)] by (auto simp: v(2))
  moreover have "length (palette S) = 256" by (auto simp: v(2) snapshot_of_def Let_def split_beta snapshot_colors_def split: option.splits)
  ultimately show ?thesis using snapshot_of_cursor [of t G v rs] by (simp add: v(2) mosh_dimensions_def cell_canonical_def)
qed

theorem snapshot_is_typed_witness: "cursor_x (snapshot_new 80 24) < 80 \<and> length (palette (snapshot_new 80 24)) = 256"
proof -
  let ?t = "\<lparr>gh = ref_blank 80 24, mt_cols = 80, mt_rows = 24, mt_frame = 0\<rparr>"
  have "mosh_snapshot ref_ghostty ?t = Inr (snapshot_new 80 24)"
    using ref.mosh_snapshot_ok [of ?t "snapshot_new 80 24"] ref_blank_good [of 80 24] ref_blank_displays [of 80 24]
    by (simp add: ref.wrapper_ok_def) (simp add: ref_blank_def)
  from snapshot_is_typed [OF this] show ?thesis by (simp add: mosh_dimensions_def snapshot_new_def)
qed

text \<open>
  What is written for a screen says unambiguously what is meant: the bytes of a diff, decoded and
  parsed by a terminal, are the control functions of the diff.
\<close>

theorem diff_bytes_are_unambiguous:
  assumes "good_screen ww single_char colors new"
  shows "map_option vt_parse (decode_utf8 (utf8 (vt_string (display_diff old new)))) = Some (display_diff old new)"
  by (rule parse_bytes [OF display_diff_ok [OF assms]]) (simp add: single_char_def is_char_def)

theorem diff_bytes_are_unambiguous_witness:
  "map_option vt_parse (decode_utf8 (utf8 (vt_string (display_diff (snapshot_new 80 24) prompt_screen)))) =
     Some (display_diff (snapshot_new 80 24) prompt_screen)"
  by (rule diff_bytes_are_unambiguous [OF prompt_good])

end
