(* ===== verification/Server.thy ===== *)
theory Server
  imports Screen_Sync User_Stream "HOL-Library.Monad_Syntax"
begin

text \<open>
  \<open>crates/morsh-server/src/server.rs\<close>: the server's side of a session. The pseudo terminal is the list
  of what has been done to it (its errors are only logged), and the status of the child an input.
  \<open>None\<close> is a failed assertion: \<open>get_current_state_mut\<close> must not be called during a shutdown.
\<close>

type_synonym 't server_transport = "('t complete, user_stream) transport"

datatype pty_action = PtyWrite bytes | PtySize nat nat

datatype pty_event = Output bytes | Exited

record 't server_handler =
  srv_transport :: "'t server_transport"
  pty_log :: "pty_action list"
  last_remote_num :: u64

definition SERVER_MAX_WAIT_MS :: nat where
  "SERVER_MAX_WAIT_MS = 5000"

definition TIMEOUT_IF_NO_CLIENT :: duration where
  "TIMEOUT_IF_NO_CLIENT = ms 60000"

text \<open>\<open>get_current_state_mut\<close> and a change through the reference it returns.\<close>

definition edit_current :: "('s \<Rightarrow> 's) \<Rightarrow> ('s, 'r) transport \<Rightarrow> ('s, 'r) transport option" where
  "edit_current f T =
     (if shutdown_in_progress (tr_sender T) then None
      else Some (T\<lparr>tr_sender := set_current_state (tr_sender T) (f (current_state (tr_sender T)))\<rparr>))"

definition edit_server :: "('t complete \<Rightarrow> 't complete) \<Rightarrow> 't server_handler \<Rightarrow> 't server_handler option" where
  "edit_server f h = map_option (\<lambda>T. h\<lparr>srv_transport := T\<rparr>) (edit_current f (srv_transport h))"

definition srv_shutting_down :: "'t server_handler \<Rightarrow> bool" where
  "srv_shutting_down h \<longleftrightarrow> shutdown_in_progress (tr_sender (srv_transport h))"

section \<open>Waiting for the client\<close>

text \<open>
  The loop of \<open>wait_for_client\<close> over what arrives: each entry is a datagram with the clock readings and
  its sender, or a timeout. \<open>None\<close>: still waiting at the end of the list.
\<close>

datatype arrival = Datagram nat instant bytes socket_addr | Nothing instant

fun arrival_time :: "arrival \<Rightarrow> instant" where
  "arrival_time (Datagram wall now d peer) = now"
| "arrival_time (Nothing now) = now"

definition absorb ::
  "ocb \<Rightarrow> codec \<Rightarrow> user_codec \<Rightarrow> arrival \<Rightarrow> 't server_transport \<Rightarrow> 't server_transport" where
  "absorb C Z U a T =
     (case a of
        Datagram wall now d peer \<Rightarrow> snd (process_datagram C Z (user_ops U) T wall now d peer)
      | Nothing now \<Rightarrow> T)"

fun wait_loop ::
  "ocb \<Rightarrow> codec \<Rightarrow> user_codec \<Rightarrow> instant \<Rightarrow> arrival list \<Rightarrow> 't server_transport \<Rightarrow> (string + 't server_transport) option" where
  "wait_loop C Z U deadline as T =
     (if get_remote_state_num T \<noteq> 0 then Some (Inr T)
      else
        (case as of
           [] \<Rightarrow> None
         | a # rest \<Rightarrow>
             if deadline \<le> arrival_time a then Some (Inl ''No connection within 60 seconds'')
             else wait_loop C Z U deadline rest (absorb C Z U a T)))"

declare wait_loop.simps [simp del]

definition wait_for_client ::
  "ocb \<Rightarrow> codec \<Rightarrow> user_codec \<Rightarrow> instant \<Rightarrow> arrival list \<Rightarrow> 't server_transport \<Rightarrow> (string + 't server_transport) option" where
  "wait_for_client C Z U started = wait_loop C Z U (started + TIMEOUT_IF_NO_CLIENT)"

text \<open>The size of the window: the last resize in the client's first state. Keystrokes in it are dropped.\<close>

definition window_size :: "user_event list \<Rightarrow> nat \<times> nat" where
  "window_size es = fold (\<lambda>e sz. case e of Resize w h \<Rightarrow> (clamp_u16 w, clamp_u16 h) | UserByte b \<Rightarrow> sz) es (80, 24)"

definition first_state :: "user_codec \<Rightarrow> 't server_transport \<Rightarrow> (nat \<times> nat) \<times> 't server_transport" where
  "first_state U T =
     (case get_remote_diff (user_ops U) T of
        (d, T') \<Rightarrow> (window_size (case decode_and_apply U user_stream_new d of Inl e \<Rightarrow> [] | Inr s \<Rightarrow> events s), T'))"

text \<open>The rest of \<open>run_server\<close>: the terminal gets the window's size, and the handler is set up.\<close>

definition start_handler :: "'t emulator \<Rightarrow> user_codec \<Rightarrow> 't server_transport \<Rightarrow> (string + 't server_handler) option" where
  "start_handler em U T =
     (case first_state U T of
        ((w, h), T1) \<Rightarrow>
          if shutdown_in_progress (tr_sender T1) then None
          else
            (case complete_resize em w h (current_state (tr_sender T1)) of
               (Some e, s) \<Rightarrow> Some (Inl (''Failed to size terminal: '' @ e))
             | (None, s) \<Rightarrow>
                 Some (Inr \<lparr>srv_transport = T1\<lparr>tr_sender := set_current_state (tr_sender T1) s\<rparr>, pty_log = [],
                            last_remote_num = get_remote_state_num T1\<rparr>)))"

section \<open>The handlers\<close>

definition handle_pty_event :: "'t emulator \<Rightarrow> pty_event \<Rightarrow> instant \<Rightarrow> 't server_handler \<Rightarrow> 't server_handler option" where
  "handle_pty_event em ev now h =
     (case ev of
        Output d \<Rightarrow> if srv_shutting_down h then Some h else edit_server (\<lambda>s. snd (complete_act em d s)) h
      | Exited \<Rightarrow> Some (h\<lparr>srv_transport := transport_start_shutdown (srv_transport h) now\<rparr>))"

definition write_keys :: "bytes \<Rightarrow> 't server_handler \<Rightarrow> 't server_handler" where
  "write_keys keys h = (if keys = [] then h else h\<lparr>pty_log := pty_log h @ [PtyWrite keys]\<rparr>)"

definition apply_resize :: "'t emulator \<Rightarrow> i32 \<Rightarrow> i32 \<Rightarrow> 't server_handler \<Rightarrow> 't server_handler option" where
  "apply_resize em width height h =
     (let w = clamp_u16 width; ht = clamp_u16 height;
          h1 = h\<lparr>pty_log := pty_log h @ [PtySize w ht]\<rparr>
      in if srv_shutting_down h1 then Some h1
         else edit_server (\<lambda>s. snd (complete_resize em w ht s)) h1)"

text \<open>The loop over the events, with the keystrokes collected so far.\<close>

fun feed :: "'t emulator \<Rightarrow> user_event list \<Rightarrow> bytes \<Rightarrow> 't server_handler \<Rightarrow> 't server_handler option" where
  "feed em [] keys h = Some (write_keys keys h)"
| "feed em (UserByte b # es) keys h = feed em es (keys @ [b]) h"
| "feed em (Resize w ht # es) keys h =
     (case es of
        Resize _ _ # _ \<Rightarrow> feed em es keys h
      | _ \<Rightarrow> apply_resize em w ht (write_keys keys h) \<bind> feed em es [])"

definition handle_client_input ::
  "'t emulator \<Rightarrow> user_codec \<Rightarrow> instant \<Rightarrow> 't server_handler \<Rightarrow> 't server_handler option" where
  "handle_client_input em U now h =
     (let num = get_remote_state_num (srv_transport h)
      in if num = last_remote_num h then Some h
         else
           (case get_remote_diff (user_ops U) (srv_transport h) of
              (d, T) \<Rightarrow>
                let h1 = h\<lparr>srv_transport := T, last_remote_num := num\<rparr>
                in (case decode_and_apply U user_stream_new d of
                      Inl e \<Rightarrow> Some h1
                    | Inr s \<Rightarrow>
                        feed em (events s) [] h1 \<bind>
                        (\<lambda>h2. if events s \<noteq> [] \<and> \<not> srv_shutting_down h2
                              then edit_server (register_input_frame num now) h2 else Some h2))))"

text \<open>The result says whether to leave the loop.\<close>

definition housekeeping :: "bool \<Rightarrow> instant \<Rightarrow> 't server_handler \<Rightarrow> (bool \<times> 't server_handler) option" where
  "housekeeping child_exited now h =
     (let h1 = (if child_exited then h\<lparr>srv_transport := transport_start_shutdown (srv_transport h) now\<rparr> else h);
          S = tr_sender (srv_transport h1);
          rest = (\<lambda>h'. Some (counterparty_shutdown_ack_sent (srv_transport h'), h'))
      in if shutdown_in_progress S then
           (if shutdown_acknowledged S \<or> shutdown_ack_timed_out S now then Some (True, h1) else rest h1)
         else edit_server (\<lambda>s. snd (set_echo_ack now s)) h1 \<bind> rest)"

section \<open>The serve loop\<close>

text \<open>\<open>None\<close> is \<open>u64::MAX\<close>.\<close>

definition server_wait_time :: "'t emulator \<Rightarrow> host_codec \<Rightarrow> instant \<Rightarrow> 't server_handler \<Rightarrow> duration \<times> 't server_handler" where
  "server_wait_time em H now h =
     (case transport_wait_time_ms (complete_ops em H) (srv_transport h) now of
        (w, T) \<Rightarrow>
          let echo = echo_wait_time_ms now (current_state (tr_sender T));
              least = (case (w, echo) of (Some a, Some b) \<Rightarrow> Some (min a b) | (None, e) \<Rightarrow> e | (a, None) \<Rightarrow> a)
          in (ms (case least of Some a \<Rightarrow> min a SERVER_MAX_WAIT_MS | None \<Rightarrow> SERVER_MAX_WAIT_MS),
              h\<lparr>srv_transport := T\<rparr>))"

datatype server_input = FromPty pty_event | FromNet arrival

definition server_receive ::
  "ocb \<Rightarrow> codec \<Rightarrow> user_codec \<Rightarrow> 't emulator \<Rightarrow> server_input \<Rightarrow> instant \<Rightarrow> 't server_handler \<Rightarrow> 't server_handler option" where
  "server_receive C Z U em i now h =
     (case i of
        FromPty ev \<Rightarrow> handle_pty_event em ev now h
      | FromNet a \<Rightarrow> Some (h\<lparr>srv_transport := absorb C Z U a (srv_transport h)\<rparr>))"

text \<open>
  One turn of the loop, without the sending: what arrived, then the client's input, then the
  housekeeping. The tick that follows is \<open>transport_tick\<close>.
\<close>

definition server_turn ::
  "ocb \<Rightarrow> codec \<Rightarrow> user_codec \<Rightarrow> 't emulator \<Rightarrow> server_input \<Rightarrow> bool \<Rightarrow> instant \<Rightarrow> 't server_handler \<Rightarrow>
     (bool \<times> 't server_handler) option" where
  "server_turn C Z U em i child_exited now h =
     server_receive C Z U em i now h \<bind> handle_client_input em U now \<bind> housekeeping child_exited now"

definition server_loop_body ::
  "ocb \<Rightarrow> codec \<Rightarrow> (bytes \<Rightarrow> bool) \<Rightarrow> user_codec \<Rightarrow> 't emulator \<Rightarrow> host_codec \<Rightarrow> server_input \<Rightarrow> bool \<Rightarrow> nat \<Rightarrow> instant \<Rightarrow> bytes \<Rightarrow>
     't server_handler \<Rightarrow> (bool \<times> bytes list \<times> 't server_handler) option" where
  "server_loop_body C Z os U em H i child_exited wall now pad h =
     (case server_turn C Z U em i child_exited now h of
        None \<Rightarrow> None
      | Some (True, h1) \<Rightarrow> Some (True, [], h1)
      | Some (False, h1) \<Rightarrow>
          (case transport_tick C Z os (complete_ops em H) (srv_transport h1) wall now now pad of
             None \<Rightarrow> None
           | Some (r, wires, T) \<Rightarrow> Some (False, wires, h1\<lparr>srv_transport := T\<rparr>)))"

end
