(* ===== verification/Server_Laws.thy ===== *)
theory Server_Laws
  imports Server Screens
begin

text \<open>
  What the server makes of what arrives: the bytes and window sizes the pseudo terminal gets, the
  changes of the published state, and the composition with the protocol.
\<close>

section \<open>Feeding a run of events\<close>

text \<open>Of resizes that follow each other directly only the last counts.\<close>

fun settle :: "user_event list \<Rightarrow> user_event list" where
  "settle (Resize w h # Resize w' h' # es) = settle (Resize w' h' # es)"
| "settle (e # es) = e # settle es"
| "settle [] = []"

definition event_input :: "user_event \<Rightarrow> u8 + (nat \<times> nat)" where
  "event_input e = (case e of UserByte b \<Rightarrow> Inl b | Resize w h \<Rightarrow> Inr (clamp_u16 w, clamp_u16 h))"

fun action_inputs :: "pty_action \<Rightarrow> (u8 + (nat \<times> nat)) list" where
  "action_inputs (PtyWrite bs) = map Inl bs"
| "action_inputs (PtySize w h) = [Inr (w, h)]"

definition pty_inputs :: "pty_action list \<Rightarrow> (u8 + (nat \<times> nat)) list" where
  "pty_inputs acts = concat (map action_inputs acts)"

text \<open>No write is empty, and none is directly followed by another.\<close>

fun whole_writes :: "pty_action list \<Rightarrow> bool" where
  "whole_writes [] = True"
| "whole_writes (PtySize w h # as) = whole_writes as"
| "whole_writes (PtyWrite bs # as) = (bs \<noteq> [] \<and> whole_writes as \<and> (case as of PtyWrite _ # _ \<Rightarrow> False | _ \<Rightarrow> True))"

definition size_events :: "user_event list \<Rightarrow> server_event list" where
  "size_events es = concat (map (\<lambda>e. case e of Resize w h \<Rightarrow> [WindowSize (clamp_u16 w) (clamp_u16 h)] | UserByte b \<Rightarrow> []) es)"

lemma pty_inputs_simps [simp]:
  "pty_inputs [] = []" "pty_inputs (a # as) = action_inputs a @ pty_inputs as" "pty_inputs (as @ bs) = pty_inputs as @ pty_inputs bs"
  by (simp_all add: pty_inputs_def)

lemma size_events_simps [simp]:
  "size_events [] = []" "size_events (UserByte b # es) = size_events es"
  "size_events (Resize w h # es) = WindowSize (clamp_u16 w) (clamp_u16 h) # size_events es"
  by (simp_all add: size_events_def)

text \<open>What the state of a handler looks like after some server events: nothing else of it changes.\<close>

definition advanced :: "'t emulator \<Rightarrow> server_event list \<Rightarrow> pty_action list \<Rightarrow> 't server_handler \<Rightarrow> 't server_handler" where
  "advanced em es acts h = h\<lparr>pty_log := pty_log h @ acts,
     srv_transport := (srv_transport h)\<lparr>tr_sender := set_current_state (tr_sender (srv_transport h))
       (if srv_shutting_down h then current_state (tr_sender (srv_transport h))
        else fold (server_act em) es (current_state (tr_sender (srv_transport h))))\<rparr>\<rparr>"

lemma set_current_same [simp]: "set_current_state S (current_state S) = S"
  "set_current_state (set_current_state S a) b = set_current_state S b" "current_state (set_current_state S a) = a"
  "shutdown_in_progress (set_current_state S a) = shutdown_in_progress S"
  by (simp_all add: set_current_state_def)

lemma advanced_nothing [simp]: "advanced em [] [] h = h"
  by (simp add: advanced_def)

lemma advanced_shutting [simp]: "srv_shutting_down (advanced em es acts h) = srv_shutting_down h"
  by (simp add: advanced_def srv_shutting_down_def)

lemma advanced_twice: "advanced em fs bs (advanced em es as h) = advanced em (es @ fs) (as @ bs) h"
  by (simp add: advanced_def srv_shutting_down_def)

lemma advanced_fields [simp]:
  "pty_log (advanced em es acts h) = pty_log h @ acts" "last_remote_num (advanced em es acts h) = last_remote_num h"
  "received_states (srv_transport (advanced em es acts h)) = received_states (srv_transport h)"
  "tr_connection (srv_transport (advanced em es acts h)) = tr_connection (srv_transport h)"
  by (simp_all add: advanced_def)

lemma write_keys_advanced: "write_keys keys h = advanced em [] (if keys = [] then [] else [PtyWrite keys]) h"
  by (simp add: write_keys_def advanced_def)

lemma apply_resize_advanced:
  "apply_resize em w ht h = Some (advanced em [WindowSize (clamp_u16 w) (clamp_u16 ht)] [PtySize (clamp_u16 w) (clamp_u16 ht)] h)"
  by (simp add: apply_resize_def Let_def edit_server_def edit_current_def advanced_def srv_shutting_down_def server_act_def)

lemma feed_resize_last:
  assumes "es = [] \<or> (\<exists>b es'. es = UserByte b # es')"
  shows "feed em (Resize w ht # es) keys h =
      feed em es [] (advanced em [WindowSize (clamp_u16 w) (clamp_u16 ht)]
        ((if keys = [] then [] else [PtyWrite keys]) @ [PtySize (clamp_u16 w) (clamp_u16 ht)]) h)"
    and "settle (Resize w ht # es) = Resize w ht # settle es"
proof -
  have "apply_resize em w ht (write_keys keys h) = Some (advanced em [WindowSize (clamp_u16 w) (clamp_u16 ht)]
        ((if keys = [] then [] else [PtyWrite keys]) @ [PtySize (clamp_u16 w) (clamp_u16 ht)]) h)"
    unfolding apply_resize_advanced write_keys_advanced [of keys h em] advanced_twice by simp
  then show "feed em (Resize w ht # es) keys h =
      feed em es [] (advanced em [WindowSize (clamp_u16 w) (clamp_u16 ht)]
        ((if keys = [] then [] else [PtyWrite keys]) @ [PtySize (clamp_u16 w) (clamp_u16 ht)]) h)"
    using assms by (elim disjE exE) simp_all
  show "settle (Resize w ht # es) = Resize w ht # settle es" using assms by auto
qed

lemma whole_after_size: "whole_writes acts \<Longrightarrow> whole_writes ((if keys = [] then [] else [PtyWrite keys]) @ PtySize w h # acts)"
  by simp

lemma feed_advanced:
  "\<exists>acts. feed em es keys h = Some (advanced em (size_events (settle es)) acts h)
     \<and> pty_inputs acts = map Inl keys @ map event_input (settle es) \<and> whole_writes acts"
proof (induction "length es" arbitrary: es keys h rule: less_induct)
  case less
  consider "es = []" | b rest where "es = UserByte b # rest" | w ht w' ht' rest where "es = Resize w ht # Resize w' ht' # rest"
    | w ht rest where "es = Resize w ht # rest" "rest = [] \<or> (\<exists>b r. rest = UserByte b # r)"
    by (metis neq_Nil_conv user_event.exhaust)
  then show ?case
  proof cases
    case 1
    then show ?thesis
      by (intro exI [of _ "if keys = [] then [] else [PtyWrite keys]"]) (simp add: write_keys_advanced [of keys h em])
  next
    case (2 b rest)
    obtain acts where "feed em rest (keys @ [b]) h = Some (advanced em (size_events (settle rest)) acts h)"
      "pty_inputs acts = map Inl (keys @ [b]) @ map event_input (settle rest)" "whole_writes acts"
      using less [of rest "keys @ [b]" h] 2 by auto
    then show ?thesis by (auto simp: 2 event_input_def)
  next
    case (3 w ht w' ht' rest)
    then show ?thesis using less [of "Resize w' ht' # rest" keys h] by auto
  next
    case (4 w ht rest)
    let ?pre = "(if keys = [] then [] else [PtyWrite keys]) @ [PtySize (clamp_u16 w) (clamp_u16 ht)]"
    let ?h = "advanced em [WindowSize (clamp_u16 w) (clamp_u16 ht)] ?pre h"
    obtain acts where a: "feed em rest [] ?h = Some (advanced em (size_events (settle rest)) acts ?h)"
      "pty_inputs acts = map event_input (settle rest)" "whole_writes acts"
      using less [of rest "[]" ?h] 4 by auto
    have "pty_inputs (?pre @ acts) = map Inl keys @ map event_input (settle es)"
      using a(2) by (simp add: 4(1) feed_resize_last(2) [OF 4(2)] event_input_def)
    moreover have "whole_writes (?pre @ acts)" using whole_after_size [OF a(3)] by simp
    moreover have "feed em es keys h = Some (advanced em (size_events (settle es)) (?pre @ acts) h)"
      unfolding 4(1) feed_resize_last [OF 4(2)] a(1) advanced_twice by simp
    ultimately show ?thesis by blast
  qed
qed

section \<open>One turn of the loop\<close>

lemma advanced_frozen: "srv_shutting_down h \<Longrightarrow> advanced em es acts h = advanced em fs acts h"
  by (simp add: advanced_def)

lemma edit_server_advanced:
  "\<not> srv_shutting_down h \<Longrightarrow> f = server_act em e \<Longrightarrow> edit_server f h = Some (advanced em [e] [] h)"
  by (simp add: edit_server_def edit_current_def advanced_def srv_shutting_down_def)

lemma server_act_eqs:
  "server_act em (PtyOutput d) = (\<lambda>s. snd (complete_act em d s))" "server_act em (InputFrame n t) = register_input_frame n t"
  "server_act em (EchoTimer t) = (\<lambda>s. snd (set_echo_ack t s))"
  by (auto simp: server_act_def)

text \<open>What \<open>handle_client_input\<close> makes of a diff.\<close>

definition input_events :: "u64 \<Rightarrow> instant \<Rightarrow> user_event list \<Rightarrow> server_event list" where
  "input_events num now es = size_events (settle es) @ (if es = [] then [] else [InputFrame num now])"

lemma handle_client_input_new:
  assumes "get_remote_state_num (srv_transport h) \<noteq> last_remote_num h"
    and "get_remote_diff (user_ops U) (srv_transport h) = (d, T)"
    and "decode_and_apply U user_stream_new d = Inr s"
  shows "\<exists>acts. handle_client_input em U now h =
      Some (advanced em (input_events (get_remote_state_num (srv_transport h)) now (events s)) acts
        (h\<lparr>srv_transport := T, last_remote_num := get_remote_state_num (srv_transport h)\<rparr>))
    \<and> pty_inputs acts = map event_input (settle (events s)) \<and> whole_writes acts"
proof -
  let ?num = "get_remote_state_num (srv_transport h)"
  let ?h1 = "h\<lparr>srv_transport := T, last_remote_num := ?num\<rparr>"
  obtain acts where f: "feed em (events s) [] ?h1 = Some (advanced em (size_events (settle (events s))) acts ?h1)"
    "pty_inputs acts = map event_input (settle (events s))" "whole_writes acts"
    using feed_advanced [of em "events s" "[]" ?h1] by auto
  let ?h2 = "advanced em (size_events (settle (events s))) acts ?h1"
  have "(if events s \<noteq> [] \<and> \<not> srv_shutting_down ?h2 then edit_server (register_input_frame ?num now) ?h2 else Some ?h2) =
      Some (advanced em (input_events ?num now (events s)) acts ?h1)"
  proof (cases "events s = [] \<or> srv_shutting_down ?h2")
    case True
    then show ?thesis using advanced_frozen [of ?h1 em] by (auto simp: input_events_def)
  next
    case False
    then show ?thesis
      using edit_server_advanced [OF _ server_act_eqs(2) [symmetric], of ?h2 ?num now em]
      by (simp add: advanced_twice input_events_def)
  qed
  then show ?thesis using f assms by (intro exI [of _ acts]) (simp add: handle_client_input_def Let_def)
qed

lemma handle_client_input_cases:
  obtains (idle) "get_remote_state_num (srv_transport h) = last_remote_num h" "handle_client_input em U now h = Some h"
  | (refused) d T where "get_remote_state_num (srv_transport h) \<noteq> last_remote_num h"
      "get_remote_diff (user_ops U) (srv_transport h) = (d, T)" "\<exists>e. decode_and_apply U user_stream_new d = Inl e"
      "handle_client_input em U now h = Some (h\<lparr>srv_transport := T, last_remote_num := get_remote_state_num (srv_transport h)\<rparr>)"
  | (fed) d T s acts where "get_remote_state_num (srv_transport h) \<noteq> last_remote_num h"
      "get_remote_diff (user_ops U) (srv_transport h) = (d, T)" "decode_and_apply U user_stream_new d = Inr s"
      "handle_client_input em U now h = Some (advanced em (input_events (get_remote_state_num (srv_transport h)) now (events s)) acts
        (h\<lparr>srv_transport := T, last_remote_num := get_remote_state_num (srv_transport h)\<rparr>))"
      "pty_inputs acts = map event_input (settle (events s))" "whole_writes acts"
proof (cases "get_remote_state_num (srv_transport h) = last_remote_num h")
  case True
  then show thesis using idle by (simp add: handle_client_input_def)
next
  case False
  obtain d T where g: "get_remote_diff (user_ops U) (srv_transport h) = (d, T)" by fastforce
  show thesis
  proof (cases "decode_and_apply U user_stream_new d")
    case (Inl e)
    then show thesis using False g by (intro refused [of d T]) (simp_all add: handle_client_input_def Let_def)
  next
    case (Inr s)
    then show thesis using handle_client_input_new [OF False g Inr, of em now] fed [OF False g Inr] by blast
  qed
qed

text \<open>A datagram leaves the server's own state alone.\<close>

lemma process_instruction_state:
  "process_instruction rops T inst nq now = (r, T') \<Longrightarrow>
     current_state (tr_sender T') = current_state (tr_sender T)
     \<and> shutdown_in_progress (tr_sender T') = shutdown_in_progress (tr_sender T)"
proof (cases "protocol_version inst = Some MORSH_PROTOCOL_VERSION")
  case False
  moreover assume "process_instruction rops T inst nq now = (r, T')"
  ultimately show ?thesis by (auto simp: process_instruction_def)
next
  case True
  assume p: "process_instruction rops T inst nq now = (r, T')"
  from process_instruction_cases [OF p True] show ?thesis
  proof
    assume "rx_build rops T inst now r T'"
    from rx_build_sender [OF this] show ?thesis by auto
  qed (auto simp: rx_skip_def)
qed

lemma absorb_state [simp]:
  "current_state (tr_sender (absorb C Z U a T)) = current_state (tr_sender T)"
  "shutdown_in_progress (tr_sender (absorb C Z U a T)) = shutdown_in_progress (tr_sender T)"
proof -
  have "current_state (tr_sender (absorb C Z U a T)) = current_state (tr_sender T) \<and>
      shutdown_in_progress (tr_sender (absorb C Z U a T)) = shutdown_in_progress (tr_sender T)"
  proof (cases a)
    case (Datagram wall now d peer)
    obtain r c where i: "process_incoming C Z (tr_connection T) wall now now d peer = (r, c)" by fastforce
    consider e where "r = Inl e" | "r = Inr None" | inst where "r = Inr (Some inst)" by (cases r) (auto split: option.splits)
    then show ?thesis
    proof cases
      case (3 inst)
      obtain q T' where p: "process_instruction (user_ops U) (T\<lparr>tr_connection := c\<rparr>) inst now now = (q, T')" by fastforce
      then show ?thesis using process_instruction_state [OF p] i 3 by (simp add: absorb_def Datagram process_datagram_def)
    qed (use i in \<open>simp_all add: absorb_def Datagram process_datagram_def\<close>)
  qed (simp add: absorb_def)
  then show "current_state (tr_sender (absorb C Z U a T)) = current_state (tr_sender T)"
    "shutdown_in_progress (tr_sender (absorb C Z U a T)) = shutdown_in_progress (tr_sender T)" by blast+
qed

lemma remote_diff_state:
  "get_remote_diff rops T = (d, T') \<Longrightarrow> tr_sender T' = tr_sender T"
  by (auto simp: get_remote_diff_def Let_def)

text \<open>The published state after a handler, in terms of server events; none once a shutdown has begun.\<close>

definition moved :: "'t emulator \<Rightarrow> 't server_handler \<Rightarrow> 't server_handler \<Rightarrow> bool" where
  "moved em h h' \<longleftrightarrow> (srv_shutting_down h \<longrightarrow> srv_shutting_down h') \<and>
     (\<exists>es. current_state (tr_sender (srv_transport h')) =
        (if srv_shutting_down h then current_state (tr_sender (srv_transport h))
         else fold (server_act em) es (current_state (tr_sender (srv_transport h)))))"

lemma moved_advanced: "moved em h (advanced em es acts h)"
  by (simp add: moved_def) (simp add: advanced_def, blast)

lemma moved_same: "current_state (tr_sender (srv_transport h')) = current_state (tr_sender (srv_transport h)) \<Longrightarrow>
    (srv_shutting_down h \<longrightarrow> srv_shutting_down h') \<Longrightarrow> moved em h h'"
  unfolding moved_def by (intro conjI exI [of _ "[]"]) simp_all

lemma moved_trans:
  assumes "moved em f g" "moved em g h"
  shows "moved em f h"
proof -
  obtain es fs where "current_state (tr_sender (srv_transport g)) =
        (if srv_shutting_down f then current_state (tr_sender (srv_transport f)) else fold (server_act em) es (current_state (tr_sender (srv_transport f))))"
      "current_state (tr_sender (srv_transport h)) =
        (if srv_shutting_down g then current_state (tr_sender (srv_transport g)) else fold (server_act em) fs (current_state (tr_sender (srv_transport g))))"
    using assms unfolding moved_def by blast
  then show ?thesis using assms unfolding moved_def
    by (intro conjI exI [of _ "es @ (if srv_shutting_down g then [] else fs)"]) auto
qed

lemma shutdown_started: "moved em h (h\<lparr>srv_transport := transport_start_shutdown (srv_transport h) now\<rparr>)"
  by (rule moved_same) (auto simp: transport_start_shutdown_def srv_shutting_down_def sender_start_shutdown_def)

lemma receive_moved: "\<exists>h'. server_receive C Z U em i now h = Some h' \<and> moved em h h'"
proof (cases i)
  case (FromPty ev)
  show ?thesis
  proof (cases ev)
    case (Output d)
    then show ?thesis
      using FromPty edit_server_advanced [of h _ em "PtyOutput d", OF _ server_act_eqs(1) [symmetric]] moved_advanced [of em h] moved_same [of h h em]
      by (auto simp: server_receive_def handle_pty_event_def)
  next
    case Exited
    then show ?thesis using FromPty shutdown_started by (auto simp: server_receive_def handle_pty_event_def)
  qed
next
  case (FromNet a)
  then show ?thesis using moved_same [of "h\<lparr>srv_transport := absorb C Z U a (srv_transport h)\<rparr>" h em]
    by (auto simp: server_receive_def srv_shutting_down_def)
qed

lemma input_moved: "\<exists>h'. handle_client_input em U now h = Some h' \<and> moved em h h'"
proof (cases em U now h rule: handle_client_input_cases)
  case idle
  then show ?thesis using moved_same [of h h em] by auto
next
  case (refused d T)
  then show ?thesis using remote_diff_state [OF refused(2)]
    by (auto simp: srv_shutting_down_def intro!: moved_same)
next
  case (fed d T s acts)
  let ?h1 = "h\<lparr>srv_transport := T, last_remote_num := get_remote_state_num (srv_transport h)\<rparr>"
  have "moved em h ?h1" using remote_diff_state [OF fed(2)] by (intro moved_same) (simp_all add: srv_shutting_down_def)
  then show ?thesis using fed(4) moved_trans moved_advanced by blast
qed

lemma housekeeping_moved: "\<exists>b h'. housekeeping x now h = Some (b, h') \<and> moved em h h'"
proof -
  let ?h = "if x then h\<lparr>srv_transport := transport_start_shutdown (srv_transport h) now\<rparr> else h"
  have m: "moved em h ?h" using shutdown_started [of em h now] moved_same [of h h em] by auto
  show ?thesis
  proof (cases "srv_shutting_down ?h")
    case True
    then show ?thesis using m by (auto simp: housekeeping_def Let_def srv_shutting_down_def)
  next
    case False
    have "edit_server (\<lambda>s. snd (set_echo_ack now s)) ?h = Some (advanced em [EchoTimer now] [] ?h)"
      by (rule edit_server_advanced [OF False server_act_eqs(3) [symmetric]])
    then show ?thesis
      using False m moved_trans [OF m moved_advanced] by (simp add: housekeeping_def Let_def srv_shutting_down_def)
  qed
qed

end
