(* ===== verification/Serving.thy ===== *)
theory Serving
  imports Server_Laws
begin

text \<open>
  The server in a session: \<open>server_run\<close> follows the network of \<open>Synchronization\<close> and the handler of
  \<open>server.rs\<close> together. The network's \<open>end_b\<close> is the server's transport; the client's input leaves it only
  through \<open>start_handler\<close> (once) and \<open>handle_client_input\<close>.
\<close>

definition keys_of :: "user_event list \<Rightarrow> bytes" where
  "keys_of es = concat (map (\<lambda>e. case e of UserByte b \<Rightarrow> [b] | Resize w h \<Rightarrow> []) es)"

definition pty_keys :: "pty_action list \<Rightarrow> bytes" where
  "pty_keys log = concat (map (\<lambda>a. case a of PtyWrite bs \<Rightarrow> bs | PtySize w h \<Rightarrow> []) log)"

definition diff_events :: "user_codec \<Rightarrow> bytes \<Rightarrow> user_event list" where
  "diff_events U d = (case decode_and_apply U user_stream_new d of Inl e \<Rightarrow> [] | Inr s \<Rightarrow> events s)"

text \<open>The network after its server has taken a diff out and has gone on to the transport \<open>T\<close>.\<close>

definition taken :: "user_codec \<Rightarrow> 't server_transport \<Rightarrow> (user_stream, 't complete, user_event list) net \<Rightarrow>
    (user_stream, 't complete, user_event list) net" where
  "taken U T N =
     (let d = fst (get_remote_diff (user_ops U) (end_b N))
      in N\<lparr>end_b := T, delivered :=
          (if d = [] then delivered N
           else case apply_string (user_ops U) (delivered N) d of Inl e \<Rightarrow> delivered N | Inr s \<Rightarrow> s)\<rparr>)"

inductive server_run ::
  "'t emulator \<Rightarrow> host_codec \<Rightarrow> user_codec \<Rightarrow> i32 \<Rightarrow> i32 \<Rightarrow> (user_stream, 't complete, user_event list) net \<Rightarrow>
     user_event list option \<Rightarrow> pty_action list \<Rightarrow> u64 \<Rightarrow> bool"
  for em H U w h where
  run_start: "session_start U (complete_ops em H) w h N \<Longrightarrow> server_run em H U w h N None [] 0"
| run_net: "server_run em H U w h N f log n \<Longrightarrow> session_step U (complete_ops em H) N e N' \<Longrightarrow> e \<noteq> Consume \<Longrightarrow>
    server_run em H U w h N' f log n"
| run_first: "server_run em H U w h N None log n \<Longrightarrow> get_remote_state_num (end_b N) \<noteq> 0 \<Longrightarrow>
    start_handler em U (end_b N) = Some (Inr hdl) \<Longrightarrow>
    server_run em H U w h (taken U (srv_transport hdl) N)
      (Some (diff_events U (fst (get_remote_diff (user_ops U) (end_b N))))) (pty_log hdl) (last_remote_num hdl)"
| run_input: "server_run em H U w h N (Some f) log n \<Longrightarrow>
    handle_client_input em U now \<lparr>srv_transport = end_b N, pty_log = log, last_remote_num = n\<rparr> = Some hdl \<Longrightarrow>
    server_run em H U w h (if get_remote_state_num (end_b N) = n then N else taken U (srv_transport hdl) N)
      (Some f) (pty_log hdl) (last_remote_num hdl)"

lemma keys_of_simps [simp]: "keys_of [] = []" "keys_of (as @ bs) = keys_of as @ keys_of bs"
  "keys_of (UserByte b # es) = b # keys_of es" "keys_of (Resize a c # es) = keys_of es"
  by (simp_all add: keys_of_def)

lemma pty_keys_simps [simp]: "pty_keys [] = []" "pty_keys (as @ bs) = pty_keys as @ pty_keys bs"
  by (simp_all add: pty_keys_def)

lemma keys_settle: "keys_of (settle es) = keys_of es"
  by (induction es rule: settle.induct) (auto simp: keys_of_def split: user_event.splits)

definition lefts :: "('a + 'b) list \<Rightarrow> 'a list" where
  "lefts xs = concat (map (\<lambda>x. case x of Inl a \<Rightarrow> [a] | Inr b \<Rightarrow> []) xs)"

lemma lefts_simps [simp]: "lefts [] = []" "lefts (as @ bs) = lefts as @ lefts bs" "lefts (map Inl ks) = ks" "lefts (Inr b # as) = lefts as"
proof -
  show "lefts (map Inl ks) = ks" by (induction ks) (simp_all add: lefts_def)
qed (simp_all add: lefts_def)

lemma lefts_pty: "lefts (pty_inputs acts) = pty_keys acts"
proof (induction acts)
  case (Cons a acts)
  then show ?case by (cases a) (simp_all add: pty_keys_def)
qed simp

lemma lefts_events: "lefts (map event_input es) = keys_of es"
  by (induction es) (auto simp: lefts_def event_input_def keys_of_def split: user_event.splits)

lemma fed_keys: "pty_inputs acts = map event_input (settle es) \<Longrightarrow> pty_keys acts = keys_of es"
  by (metis lefts_pty lefts_events keys_settle)

text \<open>Applying a diff appends its events.\<close>

lemma diff_events_append:
  "apply_string (user_ops U) s d = Inr s' \<Longrightarrow> events s' = events s @ diff_events U d"
  "decode_and_apply U user_stream_new d = Inr x \<Longrightarrow> \<exists>s'. apply_string (user_ops U) s d = Inr s'"
  by (auto simp: user_ops_def diff_events_def decode_and_apply_def apply_all user_stream_new_def split: sum.splits)

lemma diff_events_refused: "apply_string (user_ops U) s d = Inl e \<Longrightarrow> diff_events U d = []"
  by (auto simp: user_ops_def diff_events_def decode_and_apply_def split: sum.splits)

lemma diff_events_empty: "user_codec_laws U \<Longrightarrow> diff_events U [] = []"
proof -
  assume U: "user_codec_laws U"
  then have "um_encode U [] = []" "um_decode U (um_encode U []) = Inr []" unfolding user_codec_laws_def by blast+
  then show ?thesis by (simp add: diff_events_def decode_and_apply_def user_stream_new_def)
qed

lemma taken_events:
  assumes "user_codec_laws U"
  shows "events (delivered (taken U T N)) = events (delivered N) @ diff_events U (fst (get_remote_diff (user_ops U) (end_b N)))"
  using diff_events_append(1) [of U "delivered N"] diff_events_refused [of U "delivered N"] diff_events_empty [OF assms]
  by (auto simp: taken_def Let_def split: sum.splits)

text \<open>Taking a diff out and then editing the server's state are two steps of the network.\<close>

lemma taken_reach:
  assumes "session_reach U cops w h N" and "get_remote_diff (user_ops U) (end_b N) = (d, T)"
    and "T' = T\<lparr>tr_sender := set_current_state (tr_sender T) x\<rparr>"
  shows "session_reach U cops w h (taken U T' N)"
proof -
  let ?N = "N\<lparr>end_b := T, delivered :=
          (if d = [] then delivered N
           else case apply_string (user_ops U) (delivered N) d of Inl e \<Rightarrow> delivered N | Inr s \<Rightarrow> s)\<rparr>"
  have "session_step U cops N Consume ?N" unfolding session_step_def by (rule step_consume [OF assms(2)])
  then have r: "session_reach U cops w h ?N" using assms(1) unfolding session_reach_def by (rule reach_step [rotated])
  have "session_step U cops ?N (ActB x) (?N\<lparr>end_b := (end_b ?N)\<lparr>tr_sender := set_current_state (tr_sender (end_b ?N)) x\<rparr>\<rparr>)"
    unfolding session_step_def by (rule step_act_b)
  moreover have "?N\<lparr>end_b := (end_b ?N)\<lparr>tr_sender := set_current_state (tr_sender (end_b ?N)) x\<rparr>\<rparr> = taken U T' N"
    using assms(2,3) by (simp add: taken_def Let_def)
  ultimately have "session_step U cops ?N (ActB x) (taken U T' N)" by simp
  then show ?thesis using r unfolding session_reach_def by (rule reach_step [rotated])
qed

lemma start_handler_cases:
  assumes "start_handler em U T = Some (Inr hdl)"
  obtains d T1 x where "get_remote_diff (user_ops U) T = (d, T1)" "pty_log hdl = []"
    "srv_transport hdl = T1\<lparr>tr_sender := set_current_state (tr_sender T1) x\<rparr>" "last_remote_num hdl = get_remote_state_num T1"
proof -
  obtain d T1 where g: "get_remote_diff (user_ops U) T = (d, T1)" by fastforce
  let ?sz = "window_size (case decode_and_apply U user_stream_new d of Inl e \<Rightarrow> [] | Inr s \<Rightarrow> events s)"
  obtain e s where c: "complete_resize em (fst ?sz) (snd ?sz) (current_state (tr_sender T1)) = (e, s)" by fastforce
  show thesis
    by (rule that [OF g, of s]) (use assms g c in \<open>auto simp: start_handler_def first_state_def split_beta split: if_splits option.splits\<close>)
qed

text \<open>The handler's transport after an input is the one after the diff, with an edited state.\<close>

lemma input_taken:
  assumes "handle_client_input em U now h = Some hdl" and "get_remote_state_num (srv_transport h) \<noteq> last_remote_num h"
  obtains d T1 x acts where "get_remote_diff (user_ops U) (srv_transport h) = (d, T1)"
    "srv_transport hdl = T1\<lparr>tr_sender := set_current_state (tr_sender T1) x\<rparr>" "pty_log hdl = pty_log h @ acts"
    "pty_keys acts = keys_of (diff_events U d)"
proof (cases em U now h rule: handle_client_input_cases)
  case idle
  then show thesis using assms(2) by simp
next
  case (refused d T)
  have d: "diff_events U d = []" using refused(3) by (auto simp: diff_events_def)
  show thesis
    by (rule that [OF refused(2), of "current_state (tr_sender T)" "[]"]) (use refused(4) assms(1) d in auto)
next
  case (fed d T s acts)
  have d: "diff_events U d = events s" using fed(3) by (simp add: diff_events_def)
  obtain x where "srv_transport hdl = T\<lparr>tr_sender := set_current_state (tr_sender T) x\<rparr>"
    using fed(4) assms(1) by (auto simp: advanced_def)
  moreover have "pty_log hdl = pty_log h @ acts" using fed(4) assms(1) by auto
  ultimately show thesis using that [OF fed(2)] fed_keys [OF fed(5)] d by auto
qed

lemma input_idle:
  "handle_client_input em U now h = Some hdl \<Longrightarrow> get_remote_state_num (srv_transport h) = last_remote_num h \<Longrightarrow> hdl = h"
  by (simp add: handle_client_input_def)

lemma not_consume_delivered: "net_step ops cops act hact N e N' \<Longrightarrow> e \<noteq> Consume \<Longrightarrow> delivered N' = delivered N"
  by (erule net_step.cases) auto

lemma server_run_inv:
  assumes U: "user_codec_laws U" and "server_run em H U w h N f log n"
  shows "session_reach U (complete_ops em H) w h N \<and>
    (\<exists>rest. events (delivered N) = case_option [] (\<lambda>es. es) f @ rest \<and> pty_keys log = keys_of rest) \<and> (f = None \<longrightarrow> events (delivered N) = [])"
  using assms(2)
proof (induction rule: server_run.induct)
  case (run_start N)
  have "session_reach U (complete_ops em H) w h N" using run_start unfolding session_reach_def by (rule reach_init)
  then show ?case using run_start by (simp add: session_start_def user_stream_new_def)
next
  case (run_net N f log n e N')
  have "delivered N' = delivered N"
    using run_net.hyps(2,3) not_consume_delivered unfolding session_step_def by blast
  moreover have "session_reach U (complete_ops em H) w h N'"
    using run_net.IH run_net.hyps(2) unfolding session_reach_def by (blast intro: reach_step)
  ultimately show ?case using run_net.IH by simp
next
  case (run_first N log n hdl)
  obtain d T1 x where t: "get_remote_diff (user_ops U) (end_b N) = (d, T1)" "pty_log hdl = []"
    "srv_transport hdl = T1\<lparr>tr_sender := set_current_state (tr_sender T1) x\<rparr>" "last_remote_num hdl = get_remote_state_num T1"
    using start_handler_cases [OF run_first.hyps(3)] by metis
  have "session_reach U (complete_ops em H) w h (taken U (srv_transport hdl) N)"
    using run_first.IH taken_reach [OF _ t(1,3)] by blast
  moreover have "events (delivered (taken U (srv_transport hdl) N)) = diff_events U d"
    using run_first.IH t(1) by (simp add: taken_events [OF U])
  ultimately show ?case using t by simp
next
  case (run_input N f log n now hdl)
  let ?h = "\<lparr>srv_transport = end_b N, pty_log = log, last_remote_num = n\<rparr>"
  show ?case
  proof (cases "get_remote_state_num (end_b N) = n")
    case True
    then have "hdl = ?h" using input_idle [OF run_input.hyps(2)] by simp
    then show ?thesis using run_input.IH True by simp
  next
    case False
    obtain d T1 x acts where t: "get_remote_diff (user_ops U) (end_b N) = (d, T1)"
      "srv_transport hdl = T1\<lparr>tr_sender := set_current_state (tr_sender T1) x\<rparr>" "pty_log hdl = log @ acts"
      "pty_keys acts = keys_of (diff_events U d)"
      by (rule input_taken [OF run_input.hyps(2), simplified, OF False])
    obtain rest where rest: "events (delivered N) = f @ rest" "pty_keys log = keys_of rest"
      using run_input.IH by auto
    have "session_reach U (complete_ops em H) w h (taken U (srv_transport hdl) N)"
      using run_input.IH taken_reach [OF _ t(1,2)] by blast
    moreover have "events (delivered (taken U (srv_transport hdl) N)) = f @ rest @ diff_events U d"
      using rest(1) t(1) by (simp add: taken_events [OF U])
    moreover have "pty_keys (pty_log hdl) = keys_of (rest @ diff_events U d)"
      using rest(2) t(3,4) by simp
    ultimately show ?thesis using False by auto
  qed
qed

section \<open>A server to run\<close>

text \<open>A server whose client has typed \<open>ls\<close>, resized its window twice and typed a line feed.\<close>

definition demo_input :: "user_event list" where
  "demo_input = [UserByte 108, UserByte 115, Resize 90 25, Resize 100 30, UserByte 10]"

definition demo_handler :: "vterm mosh_terminal server_handler" where
  "demo_handler =
     \<lparr>srv_transport = (transport_new ref_ops (user_ops pb_user) 0 0 (demo_conn True) ref_state0 user_stream_new)
        \<lparr>received_states := [\<lparr>timestamp = 0, ts_num = 0, ts_state = user_stream_new\<rparr>,
            \<lparr>timestamp = 0, ts_num = 1, ts_state = \<lparr>events = demo_input\<rparr>\<rparr>]\<rparr>,
      pty_log = [], last_remote_num = 0\<rparr>"

lemma demo_handler_fields:
  "get_remote_state_num (srv_transport demo_handler) = 1" "last_remote_num demo_handler = 0" "pty_log demo_handler = []"
  "events (last_receiver_state (srv_transport demo_handler)) = []" "\<not> srv_shutting_down demo_handler"
  "events (ts_state (get_latest_remote_state (srv_transport demo_handler))) = demo_input"
  by (simp_all add: demo_handler_def get_remote_state_num_def get_latest_remote_state_def transport_new_def user_stream_new_def
      srv_shutting_down_def sender_new_def)

section \<open>Properties\<close>

text \<open>
  C26. The shell gets exactly the new input: its bytes and the window sizes in the order they were
  made, of resizes in a row only the last, each size clamped, the bytes between two sizes in one write.
  The published state goes through the same sizes and notes the input frame, unless a shutdown is in
  progress.
\<close>

theorem client_input_reaches_pty:
  assumes U: "user_codec_laws U" and new: "get_remote_state_num (srv_transport h) \<noteq> last_remote_num h"
    and es: "events (ts_state (get_latest_remote_state (srv_transport h))) = events (last_receiver_state (srv_transport h)) @ es"
  shows "\<exists>h' acts. handle_client_input em U now h = Some h' \<and> pty_log h' = pty_log h @ acts \<and>
    pty_inputs acts = map event_input (settle es) \<and> whole_writes acts \<and>
    last_remote_num h' = get_remote_state_num (srv_transport h) \<and>
    current_state (tr_sender (srv_transport h')) =
      (if srv_shutting_down h then current_state (tr_sender (srv_transport h))
       else fold (server_act em) (input_events (get_remote_state_num (srv_transport h)) now es)
              (current_state (tr_sender (srv_transport h))))"
proof -
  obtain d T where g: "get_remote_diff (user_ops U) (srv_transport h) = (d, T)" by fastforce
  have "d = um_encode U (group_events es)"
    using g es user_diff [OF U, of "events (last_receiver_state (srv_transport h))"
        "events (ts_state (get_latest_remote_state (srv_transport h)))" 0
        "ts_state (get_latest_remote_state (srv_transport h))" "last_receiver_state (srv_transport h)"]
    by (auto simp: user_rep_def get_remote_diff_def get_latest_remote_state_def Let_def)
  moreover have "apply_string (user_ops U) user_stream_new (um_encode U (group_events es)) = Inr (user_stream_new\<lparr>events := events user_stream_new @ es\<rparr>)"
    by (rule user_apply [OF U])
  ultimately have "decode_and_apply U user_stream_new d = Inr \<lparr>events = es\<rparr>"
    by (simp add: user_ops_def user_stream_new_def)
  then obtain s where s: "decode_and_apply U user_stream_new d = Inr s" "events s = es" by fastforce
  show ?thesis
    using handle_client_input_new [OF new g s(1), of em now] s(2) remote_diff_state [OF g]
    by (auto simp: advanced_def srv_shutting_down_def)
qed

theorem client_input_reaches_pty_witness:
  "\<exists>h' acts. handle_client_input ref_em pb_user 0 demo_handler = Some h' \<and> pty_log h' = acts \<and>
     pty_inputs acts = [Inl 108, Inl 115, Inr (100, 30), Inl 10] \<and> whole_writes acts"
proof -
  have "map event_input (settle demo_input) = [Inl 108, Inl 115, Inr (100, 30), Inl 10]"
    by (simp add: demo_input_def event_input_def clamp_u16_def clamp_def)
  then show ?thesis
    using client_input_reaches_pty [OF pb_user_laws, of demo_handler demo_input ref_em 0] by (auto simp: demo_handler_fields)
qed

text \<open>
  C27. No turn of the serve loop fails the assertion that the published state is not edited during a
  shutdown, whatever arrives; the published state changes only by the events of the shell, the client's
  input and the echo timer, and not at all once a shutdown has begun.
\<close>

theorem server_turns_never_assert:
  "\<exists>stop h'. server_turn C Z U em i child_exited now h = Some (stop, h') \<and>
     (\<exists>es. current_state (tr_sender (srv_transport h')) =
        (if srv_shutting_down h then current_state (tr_sender (srv_transport h))
         else fold (server_act em) es (current_state (tr_sender (srv_transport h)))))"
proof -
  obtain h1 where 1: "server_receive C Z U em i now h = Some h1" "moved em h h1" using receive_moved by blast
  obtain h2 where 2: "handle_client_input em U now h1 = Some h2" "moved em h1 h2" using input_moved by blast
  obtain b h3 where 3: "housekeeping child_exited now h2 = Some (b, h3)" "moved em h2 h3" using housekeeping_moved by blast
  have "moved em h h3" using 1(2) 2(2) 3(2) moved_trans by blast
  then show ?thesis using 1 2 3 by (auto simp: server_turn_def moved_def)
qed

text \<open>
  Over a network that loses, repeats and reorders packets, the bytes the server writes to the
  shell are, in order, an initial piece of the keystrokes that the user typed after those in the first
  state the server received. (Those \<open>wait_for_client\<close> takes only the window size from: they never reach
  the shell.)
\<close>

theorem shell_gets_what_was_typed:
  assumes "user_codec_laws U" and "server_run em H U w h N f log n"
  shows "\<exists>typed rest. made N = Resize w h # typed \<and> prefix (case_option [] (\<lambda>es. es) f @ rest) typed \<and> pty_keys log = keys_of rest"
proof -
  note inv = server_run_inv [OF assms]
  then obtain rest where rest: "events (delivered N) = case_option [] (\<lambda>es. es) f @ rest" "pty_keys log = keys_of rest" by blast
  obtain typed where "made N = Resize w h # typed" "prefix (events (delivered N)) typed"
    using delivered_typed [OF assms(1) conjunct1 [OF inv]] by blast
  then show ?thesis using rest by auto
qed

definition demo_server0 :: "(user_stream, vterm mosh_terminal complete, user_event list) net" where
  "demo_server0 =
     \<lparr>net_clock = 0,
      end_a = transport_new (user_ops pb_user) ref_ops 0 0 (set_remote_addr (demo_conn False) 7)
                (push_resize 80 24 user_stream_new) ref_state0,
      end_b = transport_new ref_ops (user_ops pb_user) 0 0 (demo_conn True) ref_state0 user_stream_new,
      wire_ab = {}, wire_ba = {}, made = [Resize 80 24], delivered = user_stream_new\<rparr>"

definition demo_server :: "(user_stream, vterm mosh_terminal complete, user_event list) net" where
  "demo_server =
     demo_server0\<lparr>end_a := (end_a demo_server0)\<lparr>tr_sender := set_current_state (tr_sender (end_a demo_server0))
         (user_act (UserByte 108) (current_state (tr_sender (end_a demo_server0))))\<rparr>,
       made := hist_act (UserByte 108) (made demo_server0)\<rparr>"

lemma demo_server_run: "server_run ref_em pb_host pb_user 80 24 demo_server None [] 0"
proof -
  have "server_run ref_em pb_host pb_user 80 24 demo_server0 None [] 0"
    by (rule run_start) (auto simp: session_start_def demo_server0_def)
  moreover have "session_step pb_user ref_ops demo_server0 (Act (UserByte 108)) demo_server"
    unfolding session_step_def demo_server_def by (rule step_act) (simp add: demo_server0_def transport_new_def sender_new_def)
  ultimately show ?thesis by (rule run_net) simp
qed

theorem shell_gets_what_was_typed_witness:
  "\<exists>typed rest. made demo_server = Resize 80 24 # typed \<and> prefix rest typed \<and> pty_keys [] = keys_of rest"
  using shell_gets_what_was_typed [OF pb_user_laws demo_server_run] by simp

end
