(* ===== verification/Notification.thy ===== *)
theory Notification
  imports Display
begin

text \<open>
  \<open>crates/morsh-prediction/src/notification.rs\<close>: the status bar. The clock readings are arguments.
  Messages are strings of characters; \<open>render\<close> gives code points, like the rest of the display.
\<close>

record notifications =
  last_word_from_server :: instant
  last_acked_state :: instant
  message :: string
  message_is_network_error :: bool
  message_expiration :: "instant option"
  show_quit_keystroke :: bool
  escape_key_string :: string
  escape_key_help :: string

definition notifications_new :: "instant \<Rightarrow> notifications" where
  "notifications_new now =
     \<lparr>last_word_from_server = now, last_acked_state = now, message = '''', message_is_network_error = False,
      message_expiration = None, show_quit_keystroke = True, escape_key_string = '''', escape_key_help = ''''\<rparr>"

definition server_heard :: "instant \<Rightarrow> notifications \<Rightarrow> notifications" where
  "server_heard time n = n\<lparr>last_word_from_server := time\<rparr>"

definition server_acked :: "instant \<Rightarrow> notifications \<Rightarrow> notifications" where
  "server_acked time n = n\<lparr>last_acked_state := time\<rparr>"

definition set_escape_key_string :: "string \<Rightarrow> notifications \<Rightarrow> notifications" where
  "set_escape_key_string s n = n\<lparr>escape_key_string := s\<rparr>"

definition set_escape_key_help :: "string \<Rightarrow> notifications \<Rightarrow> notifications" where
  "set_escape_key_help s n = n\<lparr>escape_key_help := s\<rparr>"

definition set_notification :: "instant \<Rightarrow> string \<Rightarrow> bool \<Rightarrow> notifications \<Rightarrow> notifications" where
  "set_notification now msg permanent n =
     n\<lparr>message := msg, message_is_network_error := False, show_quit_keystroke := True,
       message_expiration := (if permanent then None else Some (now + ms 1000))\<rparr>"

definition show_escape_help :: "instant \<Rightarrow> notifications \<Rightarrow> notifications" where
  "show_escape_help now n = (set_notification now (escape_key_help n) True n)\<lparr>show_quit_keystroke := False\<rparr>"

definition hide_escape_help :: "notifications \<Rightarrow> notifications" where
  "hide_escape_help n =
     (if \<not> message_is_network_error n \<and> message n = escape_key_help n
      then n\<lparr>message := '''', show_quit_keystroke := True\<rparr> else n)"

definition set_network_error :: "instant \<Rightarrow> string \<Rightarrow> notifications \<Rightarrow> notifications" where
  "set_network_error now msg n =
     n\<lparr>message := msg, message_is_network_error := True, show_quit_keystroke := True,
       message_expiration := Some (now + ms 3100)\<rparr>"

definition clear_network_error :: "instant \<Rightarrow> notifications \<Rightarrow> notifications" where
  "clear_network_error now n =
     (if message_is_network_error n
      then n\<lparr>message_expiration := Some (min (case message_expiration n of Some t \<Rightarrow> t | None \<Rightarrow> now) (now + ms 1000))\<rparr>
      else n)"

definition server_late :: "instant \<Rightarrow> notifications \<Rightarrow> bool" where
  "server_late now n \<longleftrightarrow> as_millis (now - last_word_from_server n) > 6500"

definition reply_late :: "instant \<Rightarrow> notifications \<Rightarrow> bool" where
  "reply_late now n \<longleftrightarrow> as_millis (now - last_acked_state n) > 10000"

definition need_countup :: "instant \<Rightarrow> notifications \<Rightarrow> bool" where
  "need_countup now n \<longleftrightarrow> server_late now n \<or> reply_late now n"

definition seconds_since_heard :: "instant \<Rightarrow> notifications \<Rightarrow> nat" where
  "seconds_since_heard now n = as_secs (now - last_word_from_server n)"

definition seconds_since_acked :: "instant \<Rightarrow> notifications \<Rightarrow> nat" where
  "seconds_since_acked now n = as_secs (now - last_acked_state n)"

definition has_message :: "instant \<Rightarrow> notifications \<Rightarrow> bool" where
  "has_message now n \<longleftrightarrow> message n \<noteq> [] \<or> server_late now n \<and> seconds_since_heard now n > 10"

definition show_number :: "nat \<Rightarrow> string" where
  "show_number k = map char_of (decimal k)"

definition late_reason :: "instant \<Rightarrow> notifications \<Rightarrow> nat \<times> string" where
  "late_reason now n =
     (if reply_late now n \<and> \<not> server_late now n then (seconds_since_acked now n, ''reply'')
      else (seconds_since_heard now n, ''contact''))"

definition get_text :: "instant \<Rightarrow> notifications \<Rightarrow> string" where
  "get_text now n =
     (let time_expired = need_countup now n
      in if message n = [] \<and> \<not> time_expired then ''''
         else
           (let suffix = (if show_quit_keystroke n \<and> escape_key_string n \<noteq> []
                          then '' [To quit: '' @ escape_key_string n @ '']'' else '''');
                (elapsed, explanation) = late_reason now n
            in if message n = [] \<and> time_expired then
                 ''morsh: Last '' @ explanation @ '' '' @ show_number elapsed @ '' ago.'' @ suffix
               else if message n \<noteq> [] \<and> \<not> time_expired then ''morsh: '' @ message n @ suffix
               else ''morsh: '' @ message n @ '' ('' @ show_number elapsed @ ''s without '' @ explanation @ ''.)'' @ suffix))"

definition render :: "instant \<Rightarrow> notifications \<Rightarrow> rtext option" where
  "render now n =
     (if \<not> has_message now n then None
      else
        (let text = map of_char (get_text now n); width = 80
         in Some (CSI @ [115] @ CSI @ [49, 59, 49, 72] @ CSI @ [55, 109] @ replicate width 32
              @ CSI @ [49, 59, 49, 72] @ take (width - 1) text @ CSI @ [48, 109] @ CSI @ [117])))"

section \<open>What the bar shows\<close>

lemma shown_then_hidden:
  "hide_escape_help (show_escape_help now n) =
     n\<lparr>message := '''', message_is_network_error := False, message_expiration := None, show_quit_keystroke := True\<rparr>"
  by (simp add: hide_escape_help_def show_escape_help_def set_notification_def)

lemma hide_keeps_errors: "message_is_network_error n \<Longrightarrow> hide_escape_help n = n"
  by (simp add: hide_escape_help_def)

text \<open>Nothing that the client does when it hears from the server takes an error off the bar.\<close>

definition on_contact :: "instant \<Rightarrow> instant \<Rightarrow> notifications \<Rightarrow> notifications" where
  "on_contact now acked n = server_acked acked (server_heard now (clear_network_error now n))"

lemma on_contact_fields [simp]:
  "message (on_contact now acked n) = message n" "message_is_network_error (on_contact now acked n) = message_is_network_error n"
  by (simp_all add: on_contact_def clear_network_error_def server_heard_def server_acked_def)

lemma contacts_message: "message (fold (\<lambda>(now, acked). on_contact now acked) cs n) = message n"
  by (induction cs arbitrary: n) (auto simp: split_beta)

end
