(* ===== verification/Client_Input.thy ===== *)
theory Client_Input
  imports Frame Notification User_Stream Transport Utf8
begin

text \<open>
  \<open>crates/morsh-client/src/input.rs\<close>: the escape key, the conversion of the Windows console's UTF-16, and
  what an event of the terminal does to the transport, the predictor and the status bar. The threads
  that read the terminal only call \<open>publish\<close> and \<open>Utf16ToUtf8::push\<close> in a loop.
\<close>

section \<open>The escape key\<close>

definition DEFAULT_ESCAPE_KEY :: u8 where
  "DEFAULT_ESCAPE_KEY = 30"

definition PASTE_THRESHOLD :: nat where
  "PASTE_THRESHOLD = 100"

datatype term_event = Input bytes | ResizeTo i32 i32 | EscapeHelp bool | Quit

record escape_config =
  esc_key :: u8
  pass_key :: u8
  pass_key2 :: u8
  requires_lf :: bool

text \<open>\<open>to_ascii_lowercase\<close>.\<close>

definition ascii_lower :: "u8 \<Rightarrow> u8" where
  "ascii_lower b = (if 65 \<le> b \<and> b \<le> 90 then b + 32 else b)"

definition for_key :: "u8 \<Rightarrow> escape_config" where
  "for_key key =
     (let pk = (if key < 32 then key + 64 else key)
      in \<lparr>esc_key = key, pass_key = pk, pass_key2 = ascii_lower pk, requires_lf = key \<ge> 32\<rparr>)"

definition from_setting :: "bytes option \<Rightarrow> escape_config option" where
  "from_setting value =
     (if value = Some [] then None
      else
        (let key = (case value of
                      Some [k] \<Rightarrow> if 1 \<le> k \<and> k < 128 then k else DEFAULT_ESCAPE_KEY
                    | _ \<Rightarrow> DEFAULT_ESCAPE_KEY)
         in if key \<in> {3, 4, 10, 12, 13} then Some (for_key DEFAULT_ESCAPE_KEY) else Some (for_key key)))"

definition key_name :: "escape_config \<Rightarrow> string" where
  "key_name c =
     (if esc_key c < 32 then ''Ctrl-'' @ [char_of (unat (pass_key c))]
      else [CHR 0x22] @ [char_of (unat (esc_key c))] @ [CHR 0x22])"

definition quit_keystroke :: "escape_config \<Rightarrow> string" where
  "quit_keystroke c = key_name c @ '' .''"

definition escape_help :: "escape_config \<Rightarrow> string" where
  "escape_help c =
     ''Commands: Ctrl-Z suspends, '' @ [CHR 0x22] @ ''.'' @ [CHR 0x22] @ '' quits, '' @ [CHR 0x22]
     @ [char_of (unat (pass_key c))] @ [CHR 0x22] @ '' gives literal '' @ key_name c"

record filtered =
  flt_send :: bytes
  flt_help :: "bool option"
  flt_quit :: bool

record escape_filter =
  esc_config :: "escape_config option"
  armed :: bool
  lf_entered :: bool

definition filter_new :: "escape_config option \<Rightarrow> escape_filter" where
  "filter_new c = \<lparr>esc_config = c, armed = False, lf_entered = False\<rparr>"

definition armed_byte :: "escape_config \<Rightarrow> u8 \<Rightarrow> bytes" where
  "armed_byte c b =
     (if b = 26 then [] else if b = pass_key c \<or> b = pass_key2 c then [esc_key c] else [esc_key c, b])"

text \<open>The loop over the bytes: what is sent, whether the filter was armed, whether to quit.\<close>

fun filter_loop ::
  "escape_config \<Rightarrow> bytes \<Rightarrow> escape_filter \<Rightarrow> bytes \<Rightarrow> bool \<Rightarrow> bytes \<times> bool \<times> bool \<times> escape_filter" where
  "filter_loop c [] f sent was = (sent, was, False, f)"
| "filter_loop c (b # bs) f sent was =
     (if armed f then
        (let f1 = f\<lparr>armed := False\<rparr>
         in if b = 46 then (sent, was, True, f1) else filter_loop c bs f1 (sent @ armed_byte c b) was)
      else if b = esc_key c \<and> (lf_entered f \<or> \<not> requires_lf c) then
        filter_loop c bs (f\<lparr>armed := True, lf_entered := False\<rparr>) sent True
      else filter_loop c bs (f\<lparr>lf_entered := (b = 10 \<or> b = 13)\<rparr>) (sent @ [b]) was)"

definition filter_feed :: "escape_filter \<Rightarrow> bytes \<Rightarrow> filtered \<times> escape_filter" where
  "filter_feed f bs =
     (case esc_config f of
        None \<Rightarrow> (\<lparr>flt_send = bs, flt_help = None, flt_quit = False\<rparr>, f)
      | Some c \<Rightarrow>
          (case filter_loop c bs f [] (armed f) of
             (sent, was, True, f1) \<Rightarrow> (\<lparr>flt_send = sent, flt_help = None, flt_quit = True\<rparr>, f1)
           | (sent, was, False, f1) \<Rightarrow>
               (\<lparr>flt_send = sent, flt_help = (if armed f1 then Some True else if was then Some False else None),
                 flt_quit = False\<rparr>, f1)))"

text \<open>
  \<open>publish\<close> while there is somebody to receive: the events sent. (A receiver that is gone ends the
  reader's loop.)
\<close>

definition publish :: "escape_filter \<Rightarrow> bytes \<Rightarrow> term_event list \<times> escape_filter" where
  "publish f bs =
     (case filter_feed f bs of
        (out, f1) \<Rightarrow>
          ((if flt_send out \<noteq> [] then [Input (flt_send out)] else [])
           @ (case flt_help out of Some b \<Rightarrow> [EscapeHelp b] | None \<Rightarrow> [])
           @ (if flt_quit out then [Quit] else []), f1))"

section \<open>UTF-16\<close>

type_synonym u16 = "16 word"

record utf16_state =
  pending_high :: "u16 option"
  utf16_out :: bytes

definition utf16_new :: utf16_state where
  "utf16_new = \<lparr>pending_high = None, utf16_out = []\<rparr>"

definition is_high :: "u16 \<Rightarrow> bool" where
  "is_high u \<longleftrightarrow> 0xD800 \<le> u \<and> u \<le> 0xDBFF"

definition is_low :: "u16 \<Rightarrow> bool" where
  "is_low u \<longleftrightarrow> 0xDC00 \<le> u \<and> u \<le> 0xDFFF"

text \<open>\<open>char::decode_utf16\<close> with \<open>unwrap_or(REPLACEMENT_CHARACTER)\<close>.\<close>

fun decode_utf16 :: "u16 list \<Rightarrow> rtext" where
  "decode_utf16 [] = []"
| "decode_utf16 [u] = [if is_high u \<or> is_low u then 65533 else unat u]"
| "decode_utf16 (u # v # us) =
     (if \<not> is_high u then (if is_low u then 65533 else unat u) # decode_utf16 (v # us)
      else if is_low v then (65536 + (unat u - 55296) * 1024 + (unat v - 56320)) # decode_utf16 us
      else 65533 # decode_utf16 (v # us))"

definition utf16_encode :: "u16 list \<Rightarrow> utf16_state \<Rightarrow> utf16_state" where
  "utf16_encode units s = s\<lparr>utf16_out := utf16_out s @ utf8 (decode_utf16 units)\<rparr>"

text \<open>\<open>push\<close>. It calls itself once, with no surrogate pending.\<close>

definition push_plain :: "u16 \<Rightarrow> utf16_state \<Rightarrow> utf16_state" where
  "push_plain u s = (if is_high u then s\<lparr>pending_high := Some u\<rparr> else utf16_encode [u] s)"

definition utf16_push :: "u16 \<Rightarrow> utf16_state \<Rightarrow> utf16_state" where
  "utf16_push u s =
     (let s1 = s\<lparr>pending_high := None\<rparr>
      in case pending_high s of
           None \<Rightarrow> push_plain u s1
         | Some high \<Rightarrow>
             if is_low u then utf16_encode [high, u] s1 else push_plain u (utf16_encode [high] s1))"

definition utf16_take :: "utf16_state \<Rightarrow> bytes \<times> utf16_state" where
  "utf16_take s = (utf16_out s, s\<lparr>utf16_out := []\<rparr>)"

section \<open>Handling an event\<close>

text \<open>\<open>'r\<close> is the state that comes from the server, of which only the local frame is used here.\<close>

record 'r client =
  cl_transport :: "(user_stream, 'r) transport"
  cl_prediction :: engine
  cl_notifications :: notifications

text \<open>The first character of a cell of the local frame, or a space.\<close>

definition frame_char :: "screen_snapshot \<Rightarrow> nat \<Rightarrow> nat \<Rightarrow> rchar" where
  "frame_char S r c =
     (case snap_cell S (as_u16 c) (as_u16 r) of
        None \<Rightarrow> 32
      | Some d \<Rightarrow> (case cell_text d of [] \<Rightarrow> 32 | ch # _ \<Rightarrow> ch))"

definition predict_byte :: "screen_snapshot \<Rightarrow> instant \<Rightarrow> u8 \<Rightarrow> engine \<Rightarrow> engine option" where
  "predict_byte S now b E =
     (let (r, c) = (case cursor_pos E of Some rc \<Rightarrow> rc | None \<Rightarrow> (cursor_y S, cursor_x S))
      in new_user_byte E now (unat b) r c (cols S) (rows_count S) (frame_char S))"

definition edit_stream :: "(user_stream \<Rightarrow> user_stream) \<Rightarrow> 'r client \<Rightarrow> 'r client" where
  "edit_stream f cl =
     cl\<lparr>cl_transport := (cl_transport cl)\<lparr>tr_sender :=
        set_current_state (tr_sender (cl_transport cl)) (f (current_state (tr_sender (cl_transport cl))))\<rparr>\<rparr>"

text \<open>The loop over the bytes of one input. \<open>None\<close> is a panic of the predictor.\<close>

fun type_bytes :: "bool \<Rightarrow> screen_snapshot \<Rightarrow> instant \<Rightarrow> bytes \<Rightarrow> 'r client \<Rightarrow> 'r client option" where
  "type_bytes paste S now [] cl = Some cl"
| "type_bytes paste S now (b # bs) cl =
     (case (if paste then Some (cl_prediction cl) else predict_byte S now b (cl_prediction cl)) of
        None \<Rightarrow> None
      | Some E \<Rightarrow> type_bytes paste S now bs (edit_stream (push_key b) (cl\<lparr>cl_prediction := E\<rparr>)))"

definition handle_term_event ::
  "term_event \<Rightarrow> screen_snapshot \<Rightarrow> instant \<Rightarrow> 'r client \<Rightarrow> (bool \<times> 'r client) option" where
  "handle_term_event ev S now cl =
     (if shutdown_in_progress (tr_sender (cl_transport cl)) then Some (False, cl)
      else
        (case ev of
           Input bs \<Rightarrow>
             (let paste = (length bs > PASTE_THRESHOLD);
                  E1 = (if paste then pe_reset (cl_prediction cl) else cl_prediction cl);
                  E2 = set_local_frame_sent (sent_state_last (tr_sender (cl_transport cl))) E1
              in map_option (Pair False) (type_bytes paste S now bs (cl\<lparr>cl_prediction := E2\<rparr>)))
         | EscapeHelp show \<Rightarrow>
             Some (False, cl\<lparr>cl_notifications :=
               (if show then show_escape_help now (cl_notifications cl) else hide_escape_help (cl_notifications cl))\<rparr>)
         | ResizeTo w h \<Rightarrow>
             Some (False, (edit_stream (push_resize w h) cl)\<lparr>cl_prediction := pe_reset (cl_prediction cl)\<rparr>)
         | Quit \<Rightarrow>
             if has_remote_addr (tr_connection (cl_transport cl)) then
               Some (False, cl\<lparr>cl_notifications := set_notification now ''Exiting on user request...'' True (cl_notifications cl),
                               cl_transport := transport_start_shutdown (cl_transport cl) now\<rparr>)
             else Some (True, cl)))"

end
