(* ===== verification/Client.thy ===== *)
theory Client
  imports Client_Input Screen_Sync
begin

text \<open>
  \<open>crates/morsh-client/src/main.rs\<close>: setting the client up and its event loop. What the three branches of
  \<open>select!\<close> can deliver is the type \<open>client_event\<close>; the clock, the environment, the size of the terminal and
  the sockets are arguments. The \<open>Display\<close> text of an error is the argument \<open>show\<close>.
\<close>

definition MAX_WAIT :: duration where
  "MAX_WAIT = ms 250"

definition CONNECT_TIMEOUT :: duration where
  "CONNECT_TIMEOUT = ms 15000"

record 't client_loop =
  the_client :: "'t complete client"
  local_frame :: screen_snapshot
  loop_started :: instant

abbreviation cl_tr :: "'t client_loop \<Rightarrow> (user_stream, 't complete) transport" where
  "cl_tr L \<equiv> cl_transport (the_client L)"

section \<open>Setting up\<close>

definition window_of :: "(nat \<times> nat) option \<Rightarrow> nat \<times> nat" where
  "window_of sz =
     (case sz of Some (c, r) \<Rightarrow> if c > 0 \<and> r > 0 then (c, r) else (80, 24) | None \<Rightarrow> (80, 24))"

definition preference_of :: "string option \<Rightarrow> display_preference" where
  "preference_of v =
     (if v = Some ''always'' then Always else if v = Some ''never'' then Never else Adaptive)"

definition bar_start :: "instant \<Rightarrow> escape_config option \<Rightarrow> notifications" where
  "bar_start now esc =
     (case esc of
        None \<Rightarrow> notifications_new now
      | Some c \<Rightarrow> set_escape_key_help (escape_help c) (set_escape_key_string (quit_keystroke c) (notifications_new now)))"

definition client_start ::
  "'t emulator \<Rightarrow> user_codec \<Rightarrow> host_codec \<Rightarrow> connection \<Rightarrow> (nat \<times> nat) option \<Rightarrow> string option \<Rightarrow> escape_config option \<Rightarrow>
     instant \<Rightarrow> string + 't client_loop" where
  "client_start em U H c sz predict esc now =
     (let (w, h) = window_of sz
      in case complete_new em w h of
           Inl e \<Rightarrow> Inl e
         | Inr remote \<Rightarrow>
             let T = transport_new (user_ops U) (complete_ops em H) now now c
                       (push_resize (word_of_nat w) (word_of_nat h) user_stream_new) remote
             in (case complete_new em w h of
                   Inl e \<Rightarrow> Inl e
                 | Inr blank \<Rightarrow>
                     Inr \<lparr>the_client = \<lparr>cl_transport = T,
                            cl_prediction = set_send_interval (transport_send_interval_ms T)
                              (set_display_preference (preference_of predict) (engine_new now)),
                            cl_notifications = bar_start now esc\<rparr>,
                          local_frame = screen blank, loop_started = now\<rparr>))"

section \<open>One turn\<close>

definition client_paint :: "'t client_loop \<Rightarrow> vt list \<times> 't client_loop" where
  "client_paint L =
     (case output_new_frame (screen (ts_state (get_latest_remote_state (cl_tr L))))
             (cl_prediction (the_client L)) (local_frame L) of
        (out, target) \<Rightarrow> (out, L\<lparr>local_frame := target\<rparr>))"

text \<open>How long \<open>select!\<close> sleeps. \<open>None\<close> is \<open>u64::MAX\<close>.\<close>

definition least :: "nat option \<Rightarrow> nat option \<Rightarrow> nat option" where
  "least a b = (case (a, b) of (Some x, Some y) \<Rightarrow> Some (min x y) | (None, y) \<Rightarrow> y | (x, None) \<Rightarrow> x)"

definition client_wait :: "user_codec \<Rightarrow> instant \<Rightarrow> 't client_loop \<Rightarrow> duration \<times> 't client_loop" where
  "client_wait U now L =
     (case transport_wait_time_ms (user_ops U) (cl_tr L) now of
        (w, T) \<Rightarrow>
          let wait = least w (pe_wait_time_ms (cl_prediction (the_client L)));
              wait1 = (if get_remote_state_num T = 0 then least wait (Some 250) else wait)
          in (case wait1 of Some k \<Rightarrow> min (ms k) MAX_WAIT | None \<Rightarrow> MAX_WAIT,
              L\<lparr>the_client := (the_client L)\<lparr>cl_transport := T\<rparr>\<rparr>))"

datatype client_event =
    TermEvent term_event
  | Received nat bytes socket_addr
  | RecvFailed string
  | Slept

text \<open>The \<open>Ok\<close> branch of a received datagram.\<close>

definition client_heard :: "instant \<Rightarrow> 't complete client \<Rightarrow> 't complete client" where
  "client_heard now cl =
     (let S = tr_sender (cl_transport cl);
          remote = ts_state (get_latest_remote_state (cl_transport cl));
          E = set_local_frame_late_acked (echo_ack remote)
                (set_send_interval (transport_send_interval_ms (cl_transport cl))
                  (set_local_frame_acked (sent_state_acked S) (cl_prediction cl)))
      in cl\<lparr>cl_notifications := server_acked (sent_state_acked_timestamp S)
              (server_heard now (clear_network_error now (cl_notifications cl))),
            cl_prediction := validate_predictions E now (frame_char (screen remote))
              (cursor_y (screen remote)) (cursor_x (screen remote))\<rparr>)"

definition network_error :: "instant \<Rightarrow> string \<Rightarrow> 't complete client \<Rightarrow> 't complete client" where
  "network_error now e cl = cl\<lparr>cl_notifications := set_network_error now e (cl_notifications cl)\<rparr>"

text \<open>\<open>select!\<close>: whether to leave at once, and the client. \<open>None\<close> is a panic of the predictor.\<close>

definition client_select ::
  "ocb \<Rightarrow> codec \<Rightarrow> 't emulator \<Rightarrow> host_codec \<Rightarrow> (transport_error \<Rightarrow> string) \<Rightarrow> client_event \<Rightarrow> instant \<Rightarrow> screen_snapshot \<Rightarrow>
     't complete client \<Rightarrow> (bool \<times> 't complete client) option" where
  "client_select C Z em H show ev now S cl =
     (case ev of
        TermEvent t \<Rightarrow> handle_term_event t S now cl
      | Received wall data peer \<Rightarrow>
          (case process_datagram C Z (complete_ops em H) (cl_transport cl) wall now data peer of
             (Inr outcome, T) \<Rightarrow> Some (False, client_heard now (cl\<lparr>cl_transport := T\<rparr>))
           | (Inl e, T) \<Rightarrow> Some (False, network_error now (show e) (cl\<lparr>cl_transport := T\<rparr>)))
      | RecvFailed e \<Rightarrow> Some (False, network_error now e cl)
      | Slept \<Rightarrow> Some (False, cl))"

datatype verdict = Running | Done | NoServer

text \<open>The three tests after \<open>select!\<close>.\<close>

definition client_verdict :: "instant \<Rightarrow> instant \<Rightarrow> 't complete client \<Rightarrow> verdict \<times> 't complete client" where
  "client_verdict started now cl =
     (let T = cl_transport cl; S = tr_sender T
      in if shutdown_in_progress S \<and> (shutdown_acknowledged S \<or> shutdown_ack_timed_out S now) then (Done, cl)
         else if counterparty_shutdown_ack_sent T then (Done, cl)
         else if get_remote_state_num T = 0 \<and> now - started > CONNECT_TIMEOUT \<and> \<not> shutdown_in_progress S then
           (NoServer, cl\<lparr>cl_notifications := set_notification now ''Timed out waiting for server...'' True (cl_notifications cl)\<rparr>)
         else (Running, cl))"

definition client_turn ::
  "ocb \<Rightarrow> codec \<Rightarrow> 't emulator \<Rightarrow> host_codec \<Rightarrow> (transport_error \<Rightarrow> string) \<Rightarrow> client_event \<Rightarrow> instant \<Rightarrow>
     't client_loop \<Rightarrow> (verdict \<times> 't client_loop) option" where
  "client_turn C Z em H show ev now L =
     (case client_select C Z em H show ev now (local_frame L) (the_client L) of
        None \<Rightarrow> None
      | Some (True, cl) \<Rightarrow> Some (Done, L\<lparr>the_client := cl\<rparr>)
      | Some (False, cl) \<Rightarrow>
          (case client_verdict (loop_started L) now cl of (v, cl') \<Rightarrow> Some (v, L\<lparr>the_client := cl'\<rparr>)))"

text \<open>The tick and the port hop that end a turn. \<open>bound\<close> is the socket that binding gives.\<close>

definition client_send ::
  "ocb \<Rightarrow> codec \<Rightarrow> (bytes \<Rightarrow> bool) \<Rightarrow> user_codec \<Rightarrow> (conn_error \<Rightarrow> string) \<Rightarrow> socket option \<Rightarrow> nat \<Rightarrow> instant \<Rightarrow> bytes \<Rightarrow>
     't complete client \<Rightarrow> (bytes list \<times> 't complete client) option" where
  "client_send C Z os U show bound wall now pad cl =
     (case transport_tick C Z os (user_ops U) (cl_transport cl) wall now now pad of
        None \<Rightarrow> None
      | Some (r, wires, T) \<Rightarrow>
          let cl1 = cl\<lparr>cl_transport := T\<rparr>;
              cl2 = (case r of Inl e \<Rightarrow> network_error now (show e) cl1 | Inr _ \<Rightarrow> cl1);
              T2 = (if should_hop_port (tr_connection T) now then snd (transport_hop_port T bound now) else T)
          in Some (wires, cl2\<lparr>cl_transport := T2\<rparr>))"

record turn_input =
  ti_event :: client_event
  ti_now :: instant
  ti_wall :: nat
  ti_pad :: bytes
  ti_socket :: "socket option"

definition client_loop_body ::
  "ocb \<Rightarrow> codec \<Rightarrow> (bytes \<Rightarrow> bool) \<Rightarrow> user_codec \<Rightarrow> 't emulator \<Rightarrow> host_codec \<Rightarrow> (transport_error \<Rightarrow> string) \<Rightarrow> turn_input \<Rightarrow>
     't client_loop \<Rightarrow> (verdict \<times> vt list \<times> bytes list \<times> 't client_loop) option" where
  "client_loop_body C Z os U em H show i L =
     (case client_paint L of
        (out, L1) \<Rightarrow>
          (case client_turn C Z em H show (ti_event i) (ti_now i) (snd (client_wait U (ti_now i) L1)) of
             None \<Rightarrow> None
           | Some (Running, L2) \<Rightarrow>
               map_option (\<lambda>(wires, cl). (Running, out, wires, L2\<lparr>the_client := cl\<rparr>))
                 (client_send C Z os U (show \<circ> ConnError) (ti_socket i) (ti_wall i) (ti_now i) (ti_pad i) (the_client L2))
           | Some (v, L2) \<Rightarrow> Some (v, out, [], L2)))"

text \<open>The loop over the turns that happen: how it ended (\<open>Running\<close> if it has not yet), and the turns left.\<close>

fun client_run ::
  "ocb \<Rightarrow> codec \<Rightarrow> (bytes \<Rightarrow> bool) \<Rightarrow> user_codec \<Rightarrow> 't emulator \<Rightarrow> host_codec \<Rightarrow> (transport_error \<Rightarrow> string) \<Rightarrow> turn_input list \<Rightarrow>
     't client_loop \<Rightarrow> (verdict \<times> 't client_loop) option" where
  "client_run C Z os U em H show [] L = Some (Running, L)"
| "client_run C Z os U em H show (i # is) L =
     (case client_loop_body C Z os U em H show i L of
        None \<Rightarrow> None
      | Some (Running, out, wires, L1) \<Rightarrow> client_run C Z os U em H show is L1
      | Some (v, out, wires, L1) \<Rightarrow> Some (v, L1))"

end
