(* ===== verification/Client_Input_Laws.thy ===== *)
theory Client_Input_Laws
  imports Client_Input Keystrokes Speculation
begin

text \<open>
  Laws of the client's input side: the escape filter and the UTF-16 converter do not depend on how the
  reads cut their input, any bytes can be typed through the filter, and what the terminal delivers is
  what enters the user stream.
\<close>

section \<open>The escape filter over several reads\<close>

lemma filter_loop_append:
  "filter_loop c (as @ bs) f sent was =
     (case filter_loop c as f sent was of
        (sent1, was1, True, f1) \<Rightarrow> (sent1, was1, True, f1)
      | (sent1, was1, False, f1) \<Rightarrow> filter_loop c bs f1 sent1 was1)"
proof (induction as arbitrary: f sent was)
  case Nil
  show ?case by simp
next
  case (Cons b as)
  show ?case by (auto simp: Let_def Cons)
qed

lemma filter_loop_sent:
  "filter_loop c bs f sent was =
     (case filter_loop c bs f [] False of (s, w, q, f1) \<Rightarrow> (sent @ s, was \<or> w, q, f1))"
proof (induction bs arbitrary: f sent was)
  case Nil
  show ?case by simp
next
  case (Cons b bs)
  show ?case
  proof (cases "armed f")
    case True
    show ?thesis
      using Cons [of "f\<lparr>armed := False\<rparr>" "sent @ armed_byte c b" was] Cons [of "f\<lparr>armed := False\<rparr>" "armed_byte c b" False] True
      by (simp add: Let_def split: prod.splits)
  next
    case False
    show ?thesis
      using Cons [of "f\<lparr>armed := True, lf_entered := False\<rparr>" sent True]
        Cons [of "f\<lparr>armed := True, lf_entered := False\<rparr>" "[]" True]
        Cons [of "f\<lparr>lf_entered := b = 10 \<or> b = 13\<rparr>" "sent @ [b]" was]
        Cons [of "f\<lparr>lf_entered := b = 10 \<or> b = 13\<rparr>" "[b]" False] False
      by (auto split: prod.splits)
  qed
qed

lemma filter_loop_config: "esc_config (snd (snd (snd (filter_loop c bs f sent was)))) = esc_config f"
  by (induction bs arbitrary: f sent was) (auto simp: Let_def)

text \<open>The reader's loop: one \<open>publish\<close> per read.\<close>

primrec read_all :: "escape_filter \<Rightarrow> bytes list \<Rightarrow> term_event list \<times> escape_filter" where
  "read_all f [] = ([], f)"
| "read_all f (r # rs) =
     (case publish f r of (evs, f1) \<Rightarrow> case read_all f1 rs of (evs', f2) \<Rightarrow> (evs @ evs', f2))"

text \<open>What the events type before the first request to quit, and whether there is one.\<close>

fun typed_until_quit :: "term_event list \<Rightarrow> bytes \<times> bool" where
  "typed_until_quit [] = ([], False)"
| "typed_until_quit (Input bs # evs) = (case typed_until_quit evs of (t, q) \<Rightarrow> (bs @ t, q))"
| "typed_until_quit (Quit # evs) = ([], True)"
| "typed_until_quit (ResizeTo w h # evs) = typed_until_quit evs"
| "typed_until_quit (EscapeHelp b # evs) = typed_until_quit evs"

lemma typed_append:
  "typed_until_quit (as @ bs) =
     (case typed_until_quit as of (t, True) \<Rightarrow> (t, True)
      | (t, False) \<Rightarrow> (case typed_until_quit bs of (t', q) \<Rightarrow> (t @ t', q)))"
  by (induction as rule: typed_until_quit.induct) (auto split: prod.splits bool.splits)

text \<open>The same of a filter: what one run over some bytes sends and whether it quits.\<close>

definition filter_run :: "escape_filter \<Rightarrow> bytes \<Rightarrow> (bytes \<times> bool) \<times> escape_filter" where
  "filter_run f bs =
     (case esc_config f of None \<Rightarrow> ((bs, False), f)
      | Some c \<Rightarrow> (case filter_loop c bs f [] False of (s, w, q, f1) \<Rightarrow> ((s, q), f1)))"

lemma publish_run: "typed_until_quit (fst (publish f bs)) = fst (filter_run f bs) \<and> snd (publish f bs) = snd (filter_run f bs)"
proof (cases "esc_config f")
  case None
  then show ?thesis by (simp add: publish_def filter_feed_def filter_run_def)
next
  case (Some c)
  obtain s w q f1 where l: "filter_loop c bs f [] False = (s, w, q, f1)" by (metis prod_cases4)
  have "filter_loop c bs f [] (armed f) = (s, armed f \<or> w, q, f1)"
    using filter_loop_sent [of c bs f "[]" "armed f"] l by simp
  then show ?thesis using Some l
    by (cases q) (simp_all add: publish_def filter_feed_def filter_run_def typed_append split: option.splits)
qed

lemma filter_run_append:
  "filter_run f (as @ bs) =
     (case filter_run f as of ((s, True), f1) \<Rightarrow> ((s, True), f1)
      | ((s, False), f1) \<Rightarrow> (case filter_run f1 bs of ((s', q), f2) \<Rightarrow> ((s @ s', q), f2)))"
proof (cases "esc_config f")
  case None
  then show ?thesis by (simp add: filter_run_def)
next
  case (Some c)
  obtain s w q f1 where l: "filter_loop c as f [] False = (s, w, q, f1)" by (metis prod_cases4)
  have c1: "esc_config f1 = Some c" using filter_loop_config [of c as f "[]" False] l Some by simp
  show ?thesis
    using Some l c1 filter_loop_append [of c as bs f "[]" False] filter_loop_sent [of c bs f1 s w]
    by (cases q) (simp_all add: filter_run_def split: prod.splits)
qed

lemma filter_run_nil [simp]: "filter_run f [] = (([], False), f)"
  by (simp add: filter_run_def split: option.splits)

lemma read_all_run:
  "typed_until_quit (fst (read_all f rs)) = fst (filter_run f (concat rs))
   \<and> (\<not> snd (fst (filter_run f (concat rs))) \<longrightarrow> snd (read_all f rs) = snd (filter_run f (concat rs)))"
proof (induction rs arbitrary: f)
  case Nil
  show ?case by simp
next
  case (Cons r rs)
  obtain s q f1 where r: "filter_run f r = ((s, q), f1)" by (metis surj_pair)
  obtain evs where p: "publish f r = (evs, f1)" and t: "typed_until_quit evs = (s, q)"
    using publish_run [of f r] r by (metis fst_conv snd_conv surj_pair)
  show ?case
    using r p t Cons [of f1] by (cases q) (auto simp: typed_append filter_run_append split: prod.splits)
qed

section \<open>Typing the escape key\<close>

text \<open>
  How the help says to type given bytes: every escape key that the filter would take is followed by
  its pass key. \<open>lf\<close> says that the last byte ended a line.
\<close>

primrec quoted :: "escape_config \<Rightarrow> bool \<Rightarrow> bytes \<Rightarrow> bytes" where
  "quoted c lf [] = []"
| "quoted c lf (b # bs) =
     (if b = esc_key c \<and> (lf \<or> \<not> requires_lf c) then b # pass_key c # quoted c False bs
      else b # quoted c (b = 10 \<or> b = 13) bs)"

lemma quoted_loop:
  assumes "pass_key c \<noteq> 46" and "pass_key c \<noteq> 26" and "\<not> armed f"
  shows "\<exists>w f1. filter_loop c (quoted c (lf_entered f) bs) f [] False = (bs, w, False, f1) \<and> \<not> armed f1"
  using assms(3)
proof (induction bs arbitrary: f)
  case Nil
  then show ?case by (auto intro: exI [of _ False])
next
  case (Cons b bs)
  show ?case
  proof (cases "b = esc_key c \<and> (lf_entered f \<or> \<not> requires_lf c)")
    case True
    define g where "g = f\<lparr>armed := True, lf_entered := False\<rparr>\<lparr>armed := False\<rparr>"
    obtain w f1 where l: "filter_loop c (quoted c False bs) g [] False = (bs, w, False, f1)" "\<not> armed f1"
      using Cons(1) [of g] unfolding g_def by auto
    have "filter_loop c (quoted c (lf_entered f) (b # bs)) f [] False = filter_loop c (quoted c False bs) g [esc_key c] True"
      unfolding g_def using True Cons(2) assms(1,2) by (auto simp: Let_def armed_byte_def)
    then show ?thesis using l filter_loop_sent [of c "quoted c False bs" g "[esc_key c]" True] True by auto
  next
    case False
    from Cons(1) [of "f\<lparr>lf_entered := b = 10 \<or> b = 13\<rparr>"] Cons(2) obtain w f1 where
      "filter_loop c (quoted c (b = 10 \<or> b = 13) bs) (f\<lparr>lf_entered := b = 10 \<or> b = 13\<rparr>) [] False = (bs, w, False, f1)"
      "\<not> armed f1" by auto
    then show ?thesis
      using False Cons(2) filter_loop_sent [of c "quoted c (b = 10 \<or> b = 13) bs" "f\<lparr>lf_entered := b = 10 \<or> b = 13\<rparr>" "[b]" False]
      by auto
  qed
qed

lemma from_setting_pass_key:
  assumes "from_setting v = Some c" and "v \<noteq> Some [46]"
  shows "pass_key c \<noteq> 46 \<and> pass_key c \<noteq> 26"
proof -
  define key where "key = (case v of Some [k] \<Rightarrow> if 1 \<le> k \<and> k < 128 then k else DEFAULT_ESCAPE_KEY | _ \<Rightarrow> DEFAULT_ESCAPE_KEY)"
  have k: "key \<noteq> 46" using assms(2)
    by (auto simp: key_def DEFAULT_ESCAPE_KEY_def split: option.splits list.splits)
  have "c = for_key DEFAULT_ESCAPE_KEY \<or> c = for_key key"
    using assms(1) by (auto simp: from_setting_def key_def Let_def split: if_splits)
  moreover have "pass_key (for_key key) \<noteq> 46 \<and> pass_key (for_key key) \<noteq> 26"
  proof (cases "key < 32")
    case True
    have "unat (key + 64) = unat key + 64"
      using True by (subst unat_add_lem [THEN iffD1]) (simp_all add: word_less_nat_alt)
    then have "unat (key + 64) \<noteq> unat (46 :: u8)" "unat (key + 64) \<noteq> unat (26 :: u8)" by simp_all
    then have ne: "key + 64 \<noteq> 46" "key + 64 \<noteq> 26" by metis+
    have pk: "pass_key (for_key key) = key + 64" using True by (simp add: for_key_def Let_def)
    show ?thesis unfolding pk using ne by (rule conjI)
  next
    case False
    then show ?thesis using k by (auto simp: for_key_def Let_def)
  qed
  ultimately show ?thesis by (auto simp: for_key_def DEFAULT_ESCAPE_KEY_def)
qed


section \<open>UTF-16 over several reads\<close>

text \<open>The Windows reader: the bytes that each read of the console gives.\<close>

primrec console_reads :: "utf16_state \<Rightarrow> u16 list list \<Rightarrow> bytes list \<times> utf16_state" where
  "console_reads s [] = ([], s)"
| "console_reads s (us # rs) =
     (case utf16_take (fold utf16_push us s) of (bs, s1) \<Rightarrow>
        case console_reads s1 rs of (out, s2) \<Rightarrow> (bs # out, s2))"

text \<open>The code unit held back.\<close>

definition held :: "utf16_state \<Rightarrow> u16 list" where
  "held s = (case pending_high s of None \<Rightarrow> [] | Some u \<Rightarrow> [u])"

definition utf16_ok :: "utf16_state \<Rightarrow> bool" where
  "utf16_ok s \<longleftrightarrow> (\<forall>u. pending_high s = Some u \<longrightarrow> is_high u)"

lemma high_not_low: "is_high u \<Longrightarrow> \<not> is_low u"
  by (auto simp: is_high_def is_low_def word_le_nat_alt)

lemma decode_high: "is_high u \<Longrightarrow> \<not> is_low v \<Longrightarrow> decode_utf16 (u # v # us) = 65533 # decode_utf16 (v # us)"
  by simp

lemma decode_plain: "\<not> is_high u \<Longrightarrow> decode_utf16 (u # us) = decode_utf16 [u] @ decode_utf16 us"
  by (cases us) auto

lemma utf8_simps: "utf8 (a @ b) = utf8 a @ utf8 b" "utf8 [] = []"
  by (simp_all add: utf8_def)

lemma push_decodes:
  assumes "utf16_ok s"
  shows "utf16_ok (utf16_push u s)
       \<and> utf16_out (utf16_push u s) @ utf8 (decode_utf16 (held (utf16_push u s) @ us))
         = utf16_out s @ utf8 (decode_utf16 (held s @ u # us))"
proof (cases "pending_high s")
  case None
  then show ?thesis
    using decode_plain [of u us]
    by (simp add: utf16_push_def push_plain_def held_def utf16_encode_def utf16_ok_def utf8_simps Let_def del: decode_utf16.simps)
next
  case (Some h)
  then have h: "is_high h" "\<not> is_low h" using assms high_not_low by (auto simp: utf16_ok_def)
  show ?thesis
  proof (cases "is_low u")
    case True
    then show ?thesis using Some h by (simp add: utf16_push_def held_def utf16_encode_def utf16_ok_def utf8_def Let_def)
  next
    case False
    then have d: "decode_utf16 (h # u # us) = decode_utf16 [h] @ decode_utf16 (u # us)" using h by simp
    show ?thesis
      using Some False d decode_plain [of u us]
      by (simp add: utf16_push_def push_plain_def held_def utf16_encode_def utf16_ok_def utf8_simps Let_def del: decode_utf16.simps)
  qed
qed

lemma pushes_decode:
  "utf16_ok s \<Longrightarrow> utf16_ok (fold utf16_push us s)
     \<and> utf16_out (fold utf16_push us s) @ utf8 (decode_utf16 (held (fold utf16_push us s) @ vs))
       = utf16_out s @ utf8 (decode_utf16 (held s @ us @ vs))"
  by (induction us arbitrary: s) (simp_all add: push_decodes)

lemma take_fields [simp]:
  "fst (utf16_take s) = utf16_out s" "utf16_out (snd (utf16_take s)) = []"
  "held (snd (utf16_take s)) = held s" "utf16_ok (snd (utf16_take s)) = utf16_ok s"
  by (simp_all add: utf16_take_def held_def utf16_ok_def)

lemma reads_decode:
  assumes "utf16_ok s" and "utf16_out s = []"
  shows "concat (fst (console_reads s rs)) @ utf8 (decode_utf16 (held (snd (console_reads s rs))))
     = utf8 (decode_utf16 (held s @ concat rs))"
  using assms
proof (induction rs arbitrary: s)
  case Nil
  then show ?case by simp
next
  case (Cons us rs)
  let ?s = "fold utf16_push us s"
  have p: "utf16_ok ?s" "utf16_out ?s @ utf8 (decode_utf16 (held ?s @ concat rs)) = utf8 (decode_utf16 (held s @ us @ concat rs))"
    using pushes_decode [OF Cons(2), of us "concat rs"] Cons(3) by simp_all
  have "concat (fst (console_reads (snd (utf16_take ?s)) rs)) @ utf8 (decode_utf16 (held (snd (console_reads (snd (utf16_take ?s)) rs))))
      = utf8 (decode_utf16 (held ?s @ concat rs))"
    using Cons(1) [of "snd (utf16_take ?s)"] p(1) by simp
  then show ?case using p(2) by (simp add: split_beta)
qed

text \<open>\<open>char::encode_utf16\<close>.\<close>

definition utf16_units :: "rchar \<Rightarrow> u16 list" where
  "utf16_units ch =
     (if ch < 65536 then [word_of_nat ch]
      else [word_of_nat (55296 + (ch - 65536) div 1024), word_of_nat (56320 + (ch - 65536) mod 1024)])"

lemma unat_u16: "n < 65536 \<Longrightarrow> unat (word_of_nat n :: u16) = n"
  by (simp add: unat_of_nat take_bit_nat_eq_self)

lemma decode_units:
  assumes "is_char ch"
  shows "decode_utf16 (utf16_units ch @ us) = ch # decode_utf16 us"
proof (cases "ch < 65536")
  case True
  then have "\<not> is_high (word_of_nat ch)" "\<not> is_low (word_of_nat ch)"
    using assms by (auto simp: is_high_def is_low_def is_char_def word_le_nat_alt unat_u16)
  then show ?thesis using True decode_plain [of "word_of_nat ch" us] by (simp add: utf16_units_def unat_u16)
next
  case False
  then have q: "(ch - 65536) div 1024 < 1024" "(ch - 65536) mod 1024 < 1024"
    using assms by (auto simp: is_char_def div_less_iff_less_mult)
  then have "is_high (word_of_nat (55296 + (ch - 65536) div 1024))" "is_low (word_of_nat (56320 + (ch - 65536) mod 1024))"
    by (simp_all add: is_high_def is_low_def word_le_nat_alt unat_u16 del: of_nat_add)
  moreover have "65536 + ((ch - 65536) div 1024) * 1024 + (ch - 65536) mod 1024 = ch" using False by simp
  ultimately show ?thesis using False q by (simp add: utf16_units_def unat_u16 del: of_nat_add)
qed

lemma decode_text: "\<forall>ch\<in>set s. is_char ch \<Longrightarrow> decode_utf16 (concat (map utf16_units s)) = s"
  by (induction s) (simp_all add: decode_units)


section \<open>Predicted cursors stay on the screen\<close>

definition inside :: "nat \<Rightarrow> engine \<Rightarrow> bool" where
  "inside w E \<longleftrightarrow> (\<forall>c\<in>set (pe_cursors E). cursor_col c < w)"

lemma inside_simps [simp]:
  "inside w (E\<lparr>pe_overlay := ov\<rparr>) = inside w E" "inside w (E\<lparr>pe_input_state := st\<rparr>) = inside w E"
  "inside w (cull E h) = inside w E" "inside w (become_tentative E) = inside w E" "inside w (unknown_input E)"
  "inside w (pe_reset E)"
  by (simp_all add: inside_def become_tentative_def unknown_input_def pe_reset_def)

lemma inside_fits: "inside w E \<Longrightarrow> inside w (fits E w h)"
  by (simp add: fits_def)

lemma inside_init: "inside w E \<Longrightarrow> cc < w \<Longrightarrow> inside w (init_cursor E cr cc)"
  by (auto simp: inside_def init_cursor_def Let_def cursor_new_def)

lemma inside_on_last:
  "inside w E \<Longrightarrow> (\<And>c. cursor_col c < w \<Longrightarrow> cursor_col (f c) < w) \<Longrightarrow> inside w (on_last f E)"
  using set_on_last [of f E] unfolding inside_def by fastforce

lemma inside_cursor_key: "inside w E \<Longrightarrow> inside w (predict_cursor_key E ch w)"
  by (auto simp: predict_cursor_key_def Let_def intro!: inside_on_last)

lemma inside_newline: "inside w E \<Longrightarrow> 0 < w \<Longrightarrow> inside w (newline_carriage_return E now cr w h)"
  by (auto simp: newline_carriage_return_def Let_def split_beta intro!: inside_on_last)

lemma inside_backspace:
  "inside w E \<Longrightarrow> cc < w \<Longrightarrow> predict_backspace E now cr cc w cell_at = Some E' \<Longrightarrow> inside w E'"
  by (auto simp: predict_backspace_def Let_def split_beta split: if_splits intro!: inside_on_last)

lemma inside_insert:
  assumes "inside w E" and "cc < w" and "predict_insert E now ch cr cc w h cell_at = Some E'"
  shows "inside w E'"
  using assms by (auto simp: predict_insert_def Let_def split_beta split: if_splits intro!: inside_on_last inside_newline)

lemma key_inside:
  assumes "inside w E" and "cc < w" and "new_user_byte E now ch cr cc w h cell_at = Some E'"
  shows "inside w E'"
proof (cases "pe_preference E = Never")
  case True
  then show ?thesis using assms(1,3) by (simp add: new_user_byte_def)
next
  case False
  have i: "inside w (init_cursor (cull (fits E w h) h) cr cc)" (is "inside w ?E")
    by (intro inside_init) (simp_all add: inside_fits assms(1,2))
  have "dispatch ?E now ch cr cc w h cell_at = Some E'" using assms(3) new_user_byte_dispatch [OF False] by simp
  then show ?thesis using i inside_backspace [OF i assms(2)] inside_insert [OF i assms(2)]
    by (auto simp: dispatch_def inside_cursor_key split: input_state.splits if_splits)
qed

section \<open>What an event does to the transport\<close>

abbreviation cl_sender :: "'r client \<Rightarrow> user_stream sender" where
  "cl_sender cl \<equiv> tr_sender (cl_transport cl)"

text \<open>\<open>cl'\<close> is \<open>cl\<close> with \<open>es\<close> typed; predictions and the bar may differ.\<close>

definition typed_more :: "user_event list \<Rightarrow> 'r client \<Rightarrow> 'r client \<Rightarrow> bool" where
  "typed_more es cl cl' \<longleftrightarrow>
     cl_transport cl' = (cl_transport cl)\<lparr>tr_sender := (cl_sender cl)\<lparr>current_state :=
       fold user_act es (current_state (cl_sender cl))\<rparr>\<rparr>"

lemma typed_more_refl: "cl_transport cl' = cl_transport cl \<Longrightarrow> typed_more [] cl cl'"
  by (simp add: typed_more_def)

lemma typed_more_trans: "typed_more es cl cl' \<Longrightarrow> typed_more es' cl' cl'' \<Longrightarrow> typed_more (es @ es') cl cl''"
  by (simp add: typed_more_def)

lemma typed_more_shutdown: "typed_more es cl cl' \<Longrightarrow> shutdown_in_progress (cl_sender cl') = shutdown_in_progress (cl_sender cl)"
  by (simp add: typed_more_def)

lemma edit_stream_typed: "cl_transport cl1 = cl_transport cl \<Longrightarrow> typed_more [e] cl (edit_stream (user_act e) cl1)"
  by (simp add: typed_more_def edit_stream_def set_current_state_def)

lemma type_bytes_typed:
  "type_bytes paste S now bs cl = Some cl' \<Longrightarrow>
     typed_more (map UserByte bs) cl cl' \<and> cl_notifications cl' = cl_notifications cl"
proof (induction bs arbitrary: cl)
  case Nil
  then show ?case by (simp add: typed_more_def)
next
  case (Cons b bs)
  obtain E where E: "type_bytes paste S now bs (edit_stream (push_key b) (cl\<lparr>cl_prediction := E\<rparr>)) = Some cl'"
    using Cons(2) by (auto split: option.splits)
  have pk: "push_key b = user_act (UserByte b)" by (simp add: user_act_def fun_eq_iff)
  have "typed_more [UserByte b] cl (edit_stream (push_key b) (cl\<lparr>cl_prediction := E\<rparr>))"
    unfolding pk by (rule edit_stream_typed) simp
  then show ?case
    using Cons(1) [OF E] typed_more_trans by (fastforce simp: edit_stream_def)
qed

text \<open>A paste is not predicted, so it cannot fail.\<close>

lemma paste_total: "\<exists>cl'. type_bytes True S now bs cl = Some cl'"
  by (induction bs arbitrary: cl) simp_all

text \<open>Typing on a screen that holds the cursor, and all predicted ones, cannot fail either.\<close>

definition at_ease :: "screen_snapshot \<Rightarrow> 'r client \<Rightarrow> bool" where
  "at_ease S cl \<longleftrightarrow> engine_ok (cl_prediction cl) \<and> inside (cols S) (cl_prediction cl) \<and> cursor_x S < cols S"

lemma predict_byte_total:
  assumes "engine_ok E" and "inside (cols S) E" and "cursor_x S < cols S" and "unat (prediction_epoch E) + 3 < 2 ^ 64"
  shows "\<exists>E'. predict_byte S now b E = Some E' \<and> engine_ok E' \<and> inside (cols S) E'
    \<and> unat (prediction_epoch E') \<le> unat (prediction_epoch E) + 3"
proof -
  obtain r c where rc: "(case cursor_pos E of Some rc \<Rightarrow> rc | None \<Rightarrow> (cursor_y S, cursor_x S)) = (r, c)" by fastforce
  have c: "c < cols S"
    using rc assms(2,3) by (auto simp: cursor_pos_def inside_def split: if_splits)
  obtain E' where k: "new_user_byte E now (unat b) r c (cols S) (rows_count S) (frame_char S) = Some E'"
    "advances 3 (prediction_epoch E) E E'"
    using key_advances [OF assms(1) order_refl c assms(4)] by blast
  then show ?thesis
    using rc key_inside [OF assms(2) c k(1)] by (simp add: predict_byte_def advances_def)
qed

lemma type_bytes_total:
  assumes "at_ease S cl" and "unat (prediction_epoch (cl_prediction cl)) + 3 * length bs < 2 ^ 64"
  shows "\<exists>cl'. type_bytes paste S now bs cl = Some cl' \<and> at_ease S cl'"
  using assms
proof (induction bs arbitrary: cl)
  case Nil
  then show ?case by simp
next
  case (Cons b bs)
  let ?E = "cl_prediction cl"
  obtain E' where E': "(if paste then Some ?E else predict_byte S now b ?E) = Some E'"
    "engine_ok E'" "inside (cols S) E'" "unat (prediction_epoch E') \<le> unat (prediction_epoch ?E) + 3"
    using predict_byte_total [of ?E S now b] Cons(2,3) by (cases paste) (auto simp: at_ease_def)
  let ?cl = "edit_stream (push_key b) (cl\<lparr>cl_prediction := E'\<rparr>)"
  have "at_ease S ?cl" "unat (prediction_epoch (cl_prediction ?cl)) + 3 * length bs < 2 ^ 64"
    using E' Cons(2,3) by (simp_all add: at_ease_def edit_stream_def)
  then show ?case using Cons(1) [of ?cl] E'(1) by simp
qed

text \<open>The events that a terminal event types.\<close>

fun event_types :: "term_event \<Rightarrow> user_event list" where
  "event_types (Input bs) = map UserByte bs"
| "event_types (ResizeTo w h) = [Resize w h]"
| "event_types (EscapeHelp b) = []"
| "event_types Quit = []"

lemma handle_typed:
  assumes "handle_term_event ev S now cl = Some (stop, cl')"
    and "\<not> shutdown_in_progress (cl_sender cl)" and "ev \<noteq> Quit"
  shows "\<not> stop \<and> typed_more (event_types ev) cl cl'"
proof (cases ev)
  case (Input bs)
  then show ?thesis using assms(1,2) type_bytes_typed
    by (fastforce simp: handle_term_event_def Let_def typed_more_def)
next
  case (ResizeTo w h)
  have "push_resize w h = user_act (Resize w h)" by (simp add: user_act_def fun_eq_iff)
  then show ?thesis using ResizeTo assms(1,2) edit_stream_typed [of cl cl "Resize w h"]
    by (auto simp: handle_term_event_def typed_more_def)
qed (use assms in \<open>auto simp: handle_term_event_def typed_more_def\<close>)

lemma handle_quit:
  assumes "handle_term_event Quit S now cl = Some (stop, cl')"
  shows "typed_more [] cl cl' \<or> shutdown_in_progress (cl_sender cl')"
    and "stop \<or> shutdown_in_progress (cl_sender cl')"
    and "current_state (cl_sender cl') = current_state (cl_sender cl)"
  using assms
  by (auto simp: handle_term_event_def typed_more_def transport_start_shutdown_def sender_start_shutdown_def split: if_splits)

lemma handle_closing:
  "shutdown_in_progress (cl_sender cl) \<Longrightarrow> handle_term_event ev S now cl = Some (False, cl)"
  by (simp add: handle_term_event_def)

end
