(* ===== verification/Client_Laws.thy ===== *)
theory Client_Laws
  imports Client Client_Input_Laws Transport_Laws
begin

text \<open>
  Laws of the client's loop: what every part of a turn keeps of a shutdown that has begun, and how long
  a turn sleeps.
\<close>

section \<open>A shutdown stays begun\<close>

definition since :: "'s sender \<Rightarrow> bool \<times> instant option" where
  "since S = (shutdown_in_progress S, shutdown_start S)"

named_theorems since_simps \<open>what keeps the beginning of a shutdown\<close>

lemma since_schedule: "since (schedule_send ops S now timeout interval) = since S"
  by (simp add: since_def schedule_send_def Let_def)

lemma since_rationalize: "since (rationalize_states ops (update_assumed_receiver_state S now timeout)) = since S"
  by (simp add: since_def rationalize_states_def update_assumed_receiver_state_def Let_def)

lemma since_timers [since_simps]: "since (calculate_timers ops S now timeout srtt) = since S"
proof -
  have f: "since (S\<lparr>next_ack_time := t\<rparr>) = since S" for S :: "'s sender" and t by (simp add: since_def)
  show ?thesis unfolding calculate_timers_def Let_def by (simp only: if_distrib [of since] f since_schedule since_rationalize if_cancel)
qed

lemma since_wait [since_simps]: "since (snd (sender_wait_time_ms ops S now timeout srtt remote)) = since S"
  by (simp add: sender_wait_time_ms_def Let_def since_timers)

lemma since_add [since_simps]: "since (add_sent_state S now n s) = since S"
  by (simp add: since_def add_sent_state_def Let_def)

lemma since_empty_ack: "since (snd (send_empty_ack ops S now pad)) = since S"
  using since_add [of S now] by (simp add: since_def send_empty_ack_def build_instruction_def Let_def)

lemma since_send: "since (snd (send_to_receiver ops S d now pad)) = since S"
  using since_add [of S now] by (simp add: since_def send_to_receiver_def build_instruction_def Let_def)

lemma since_prospective: "since (snd (attempt_prospective_resend_optimization ops S d)) = since S"
  by (simp add: since_def attempt_prospective_resend_optimization_def Let_def)

lemma since_fields [simp]:
  "since (S\<lparr>mindelay_clock := c\<rparr>) = since S" "since (S\<lparr>next_send_time := t\<rparr>) = since S"
  by (simp_all add: since_def)

lemma since_tick [since_simps]: "since (snd (sender_tick ops S now timeout srtt remote pad)) = since S"
proof -
  let ?S1 = "calculate_timers ops S now timeout srtt"
  obtain d S2 where p: "attempt_prospective_resend_optimization ops ?S1
      (diff_from ops (current_state ?S1) (ts_state (sent_states ?S1 ! assumed_receiver_state ?S1))) = (d, S2)" by fastforce
  have 2: "since S2 = since S"
    using since_prospective [of ops ?S1] p since_timers by (metis snd_conv)
  obtain i S3 where e: "send_empty_ack ops S2 now pad = (i, S3)" by fastforce
  obtain i' S4 where s: "send_to_receiver ops S2 d now pad = (i', S4)" by fastforce
  have "since S3 = since S" "since S4 = since S"
    using since_empty_ack [of ops S2 now pad] since_send [of ops S2 d now pad] e s 2 by simp_all
  then show ?thesis using p 2 e s
    by (auto simp: sender_tick_def Let_def since_timers split: prod.splits)
qed

lemma since_process_ack: "since (process_acknowledgment_through S a) = since S"
  by (simp add: since_def process_acknowledgment_through_def Let_def)

lemma since_instruction [since_simps]: "since (tr_sender (snd (process_instruction rops T inst nq now))) = since (tr_sender T)"
proof (cases "protocol_version inst = Some MORSH_PROTOCOL_VERSION")
  case True
  obtain r T' where p: "process_instruction rops T inst nq now = (r, T')" by fastforce
  have f: "since (S\<lparr>sender_ack_num := a, last_heard := b, pending_data_ack := c\<rparr>) = since S" for S :: "'s sender" and a b c
    by (simp add: since_def)
  show ?thesis
    using process_instruction_cases [OF p True] rx_build_sender [of rops T inst now r T'] p
    by (auto simp: rx_skip_def since_process_ack f)
qed (simp add: process_instruction_mismatch)

lemma since_datagram [since_simps]:
  "since (tr_sender (snd (process_datagram C Z rops T wall now data peer))) = since (tr_sender T)"
proof -
  have "since (tr_sender (snd (process_instruction rops (T\<lparr>tr_connection := c\<rparr>) inst now now))) = since (tr_sender T)" for c inst
    using since_instruction [of rops "T\<lparr>tr_connection := c\<rparr>" inst now now] by simp
  then show ?thesis by (simp add: process_datagram_def split: prod.splits sum.splits option.splits)
qed

lemma since_transport_tick:
  "transport_tick C Z os mops T wall now now' pad = Some (r, ws, T') \<Longrightarrow> since (tr_sender T') = since (tr_sender T)"
  using since_tick [of mops "tr_sender T" now "conn_timeout (tr_connection T)" "srtt_ms (conn_rtt (tr_connection T))"
      "has_remote_addr (tr_connection T)" pad]
  by (auto simp: transport_tick_def Let_def split: prod.splits option.splits)

lemma hop_sender [simp]: "tr_sender (snd (transport_hop_port T bound now)) = tr_sender T"
  by (simp add: transport_hop_port_def split: prod.splits)

section \<open>The parts of a turn\<close>

abbreviation loop_sender :: "'t client_loop \<Rightarrow> user_stream sender" where
  "loop_sender L \<equiv> tr_sender (cl_tr L)"

lemma paint_client [simp]: "the_client (snd (client_paint L)) = the_client L" "loop_started (snd (client_paint L)) = loop_started L"
  by (simp_all add: client_paint_def split: prod.splits)

lemma wait_since: "since (loop_sender (snd (client_wait U now L))) = since (loop_sender L)"
  by (simp add: client_wait_def transport_wait_time_ms_def Let_def split_beta since_wait)

lemma wait_started [simp]: "loop_started (snd (client_wait U now L)) = loop_started L"
  by (simp add: client_wait_def Let_def split: prod.splits)

lemma wait_short: "fst (client_wait U now L) \<le> MAX_WAIT"
  by (auto simp: client_wait_def Let_def split: prod.splits option.splits)

lemma heard_transport [simp]: "cl_transport (client_heard now cl) = cl_transport cl"
  by (simp add: client_heard_def Let_def)

lemma error_transport [simp]: "cl_transport (network_error now e cl) = cl_transport cl"
  by (simp add: network_error_def)

lemma handle_since:
  assumes "shutdown_in_progress (cl_sender cl)" and "handle_term_event t S now cl = Some (b, cl')"
  shows "\<not> b \<and> since (cl_sender cl') = since (cl_sender cl)"
  using assms handle_closing [of cl t S now] by simp

text \<open>While a shutdown is in progress no event can make a turn fail or undo the shutdown.\<close>

lemma select_closing:
  assumes "shutdown_in_progress (cl_sender cl)"
  shows "\<exists>cl'. client_select C Z em H show ev now S cl = Some (False, cl') \<and> since (cl_sender cl') = since (cl_sender cl)"
proof (cases ev)
  case (TermEvent t)
  then show ?thesis using handle_closing [OF assms] by (simp add: client_select_def)
next
  case (Received wall data peer)
  then show ?thesis
    using since_datagram [of C Z "complete_ops em H" "cl_transport cl" wall now data peer]
    by (auto simp: client_select_def split: prod.splits sum.splits)
qed (simp_all add: client_select_def)

lemma verdict_sender [simp]: "cl_transport (snd (client_verdict started now cl)) = cl_transport cl"
  by (simp add: client_verdict_def Let_def)

lemma turn_closing:
  assumes "shutdown_in_progress (loop_sender L)"
  shows "\<exists>v L'. client_turn C Z em H show ev now L = Some (v, L') \<and> v \<noteq> NoServer \<and> since (loop_sender L') = since (loop_sender L)
    \<and> (v = Running \<longrightarrow> \<not> shutdown_ack_timed_out (loop_sender L') now \<and> \<not> shutdown_acknowledged (loop_sender L'))"
proof -
  obtain cl' where s: "client_select C Z em H show ev now (local_frame L) (the_client L) = Some (False, cl')"
    "since (cl_sender cl') = since (loop_sender L)" using select_closing [OF assms] by blast
  have sd: "shutdown_in_progress (cl_sender cl')" using s(2) assms by (simp add: since_def)
  obtain v cl'' where v: "client_verdict (loop_started L) now cl' = (v, cl'')" by fastforce
  have "cl_transport cl'' = cl_transport cl'" using verdict_sender [of "loop_started L" now cl'] v by simp
  moreover have "v \<noteq> NoServer" "v = Running \<Longrightarrow> \<not> (shutdown_acknowledged (cl_sender cl') \<or> shutdown_ack_timed_out (cl_sender cl') now)"
    using v sd by (auto simp: client_verdict_def Let_def split: if_splits)
  ultimately show ?thesis using s v by (auto simp: client_turn_def)
qed

lemma send_since:
  "client_send C Z os U show bound wall now pad cl = Some (ws, cl') \<Longrightarrow> since (cl_sender cl') = since (cl_sender cl)"
  by (auto simp: client_send_def Let_def since_transport_tick split: option.splits prod.splits sum.splits if_splits)

lemma body_cases:
  assumes "client_loop_body C Z os U em H show i L = Some (v, out, wires, L')"
  obtains L2 where "client_turn C Z em H show (ti_event i) (ti_now i) (snd (client_wait U (ti_now i) (snd (client_paint L)))) = Some (v, L2)"
    "v \<noteq> Running \<and> L' = L2 \<or> v = Running \<and> (\<exists>cl. L' = L2\<lparr>the_client := cl\<rparr> \<and>
       client_send C Z os U (show \<circ> ConnError) (ti_socket i) (ti_wall i) (ti_now i) (ti_pad i) (the_client L2) = Some (wires, cl))"
  using assms that by (fastforce simp: client_loop_body_def split: prod.splits option.splits verdict.splits)

lemma body_closing:
  assumes "shutdown_in_progress (loop_sender L)" and "client_loop_body C Z os U em H show i L = Some (Running, out, wires, L')"
  shows "since (loop_sender L') = since (loop_sender L)"
proof -
  let ?L = "snd (client_wait U (ti_now i) (snd (client_paint L)))"
  have sL: "since (loop_sender ?L) = since (loop_sender L)" by (simp add: wait_since)
  obtain L2 cl where 2: "client_turn C Z em H show (ti_event i) (ti_now i) ?L = Some (Running, L2)" "L' = L2\<lparr>the_client := cl\<rparr>"
    "client_send C Z os U (show \<circ> ConnError) (ti_socket i) (ti_wall i) (ti_now i) (ti_pad i) (the_client L2) = Some (wires, cl)"
    using body_cases [OF assms(2)] by blast
  have "shutdown_in_progress (loop_sender ?L)" using sL assms(1) by (simp add: since_def)
  from turn_closing [OF this, of C Z em H "show" "ti_event i" "ti_now i"] 2(1)
  have "since (loop_sender L2) = since (loop_sender ?L)" by auto
  then show ?thesis using 2(2) send_since [OF 2(3)] sL by simp
qed

lemma run_closing:
  assumes "shutdown_in_progress (loop_sender L)" and "client_run C Z os U em H show is L = Some (Running, L')"
  shows "since (loop_sender L') = since (loop_sender L)"
  using assms
proof (induction "is" arbitrary: L)
  case Nil
  then show ?case by simp
next
  case (Cons i "is")
  obtain out wires L1 where b: "client_loop_body C Z os U em H show i L = Some (Running, out, wires, L1)"
    "client_run C Z os U em H show is L1 = Some (Running, L')"
    using Cons(3) by (auto split: option.splits prod.splits verdict.splits)
  have s: "since (loop_sender L1) = since (loop_sender L)" by (rule body_closing [OF Cons(2) b(1)])
  then have "shutdown_in_progress (loop_sender L1)" using Cons(2) by (simp add: since_def)
  then show ?case using Cons(1) [OF _ b(2)] s by simp
qed

section \<open>Silence\<close>

text \<open>A client that holds nothing from its server leaves when the time for connecting is over.\<close>

lemma silent_verdict:
  assumes "get_remote_state_num (cl_transport cl) = 0" and "now - started > CONNECT_TIMEOUT"
    and "\<not> shutdown_in_progress (cl_sender cl)"
  shows "fst (client_verdict started now cl) \<noteq> Running"
  using assms by (simp add: client_verdict_def Let_def)

section \<open>The start\<close>

lemma start_fields:
  assumes "client_start em U H c sz predict esc now = Inr L"
  obtains remote where "complete_new em (fst (window_of sz)) (snd (window_of sz)) = Inr remote"
    "cl_tr L = transport_new (user_ops U) (complete_ops em H) now now c
       (push_resize (word_of_nat (fst (window_of sz))) (word_of_nat (snd (window_of sz))) user_stream_new) remote"
    "local_frame L = screen remote" "loop_started L = now" "pe_cursors (cl_prediction (the_client L)) = []"
proof -
  obtain w h where wh: "window_of sz = (w, h)" by fastforce
  show thesis using assms that wh
    by (auto simp: client_start_def Let_def engine_new_def set_send_interval_def set_display_preference_def split: sum.splits)
qed

end
