(* ===== verification/Keyboard.thy ===== *)
theory Keyboard
  imports Serving Client_Laws
begin

text \<open>
  From the keyboard to the shell: \<open>whole_run\<close> is \<open>server_run\<close> with the client's input handler in front. The
  client's stream changes only through \<open>handle_term_event\<close>, and only the user's request begins a
  shutdown of the client.
\<close>

definition client_with :: "(user_stream, 'r) transport \<Rightarrow> engine \<Rightarrow> notifications \<Rightarrow> 'r client" where
  "client_with T E nt = \<lparr>cl_transport = T, cl_prediction = E, cl_notifications = nt\<rparr>"

text \<open>The network after its client has handled an event.\<close>

definition after_event ::
  "term_event \<Rightarrow> instant \<Rightarrow> 'r client \<Rightarrow> (user_stream, 'r, user_event list) net \<Rightarrow> (user_stream, 'r, user_event list) net" where
  "after_event ev now cl N =
     (if shutdown_in_progress (tr_sender (end_a N)) then N
      else if ev = Quit then N\<lparr>net_clock := now, end_a := cl_transport cl\<rparr>
      else N\<lparr>end_a := cl_transport cl, made := made N @ event_types ev\<rparr>)"

inductive whole_run ::
  "'t emulator \<Rightarrow> host_codec \<Rightarrow> user_codec \<Rightarrow> i32 \<Rightarrow> i32 \<Rightarrow> (user_stream, 't complete, user_event list) net \<Rightarrow>
     user_event list option \<Rightarrow> pty_action list \<Rightarrow> u64 \<Rightarrow> term_event list \<Rightarrow> bool"
  for em H U w h where
  whole_start: "session_start U (complete_ops em H) w h N \<Longrightarrow> whole_run em H U w h N None [] 0 []"
| whole_net: "whole_run em H U w h N f log n evs \<Longrightarrow> session_step U (complete_ops em H) N e N' \<Longrightarrow>
    e \<noteq> Consume \<Longrightarrow> \<forall>a. e \<noteq> Act a \<Longrightarrow> \<forall>t. e \<noteq> ShutdownA t \<Longrightarrow> whole_run em H U w h N' f log n evs"
| whole_first: "whole_run em H U w h N None log n evs \<Longrightarrow> get_remote_state_num (end_b N) \<noteq> 0 \<Longrightarrow>
    start_handler em U (end_b N) = Some (Inr hdl) \<Longrightarrow>
    whole_run em H U w h (taken U (srv_transport hdl) N)
      (Some (diff_events U (fst (get_remote_diff (user_ops U) (end_b N))))) (pty_log hdl) (last_remote_num hdl) evs"
| whole_input: "whole_run em H U w h N (Some f) log n evs \<Longrightarrow>
    handle_client_input em U now \<lparr>srv_transport = end_b N, pty_log = log, last_remote_num = n\<rparr> = Some hdl \<Longrightarrow>
    whole_run em H U w h (if get_remote_state_num (end_b N) = n then N else taken U (srv_transport hdl) N)
      (Some f) (pty_log hdl) (last_remote_num hdl) evs"
| whole_event: "whole_run em H U w h N f log n evs \<Longrightarrow> net_clock N \<le> now \<Longrightarrow>
    handle_term_event ev S now (client_with (end_a N) E nt) = Some (False, cl) \<Longrightarrow>
    whole_run em H U w h (after_event ev now cl N) f log n (evs @ [ev])"

section \<open>An event is a few steps of the network\<close>

lemma client_with_simps [simp]: "cl_transport (client_with T E nt) = T"
  by (simp add: client_with_def)

text \<open>Typing the events one by one.\<close>

definition typed_net ::
  "user_event list \<Rightarrow> (user_stream, 'r, user_event list) net \<Rightarrow> (user_stream, 'r, user_event list) net" where
  "typed_net es N =
     N\<lparr>end_a := (end_a N)\<lparr>tr_sender := (tr_sender (end_a N))\<lparr>current_state := fold user_act es (current_state (tr_sender (end_a N)))\<rparr>\<rparr>,
       made := made N @ es\<rparr>"

lemma typed_net_nil [simp]: "typed_net [] N = N"
  by (simp add: typed_net_def)

lemma typed_net_cons: "typed_net (e # es) N = typed_net es (typed_net [e] N)"
  by (simp add: typed_net_def)

lemma typed_net_step:
  assumes "\<not> shutdown_in_progress (tr_sender (end_a N))"
  shows "session_step U cops N (Act e) (typed_net [e] N)"
proof -
  have "typed_net [e] N = N\<lparr>end_a := (end_a N)\<lparr>tr_sender := set_current_state (tr_sender (end_a N))
            (user_act e (current_state (tr_sender (end_a N))))\<rparr>, made := hist_act e (made N)\<rparr>"
    by (simp add: typed_net_def set_current_state_def hist_act_def)
  then show ?thesis unfolding session_step_def using step_act [OF assms] by metis
qed

lemma typed_run:
  "server_run em H U w h N f log n \<Longrightarrow> \<not> shutdown_in_progress (tr_sender (end_a N)) \<Longrightarrow>
     server_run em H U w h (typed_net es N) f log n"
proof (induction es arbitrary: N)
  case Nil
  then show ?case by simp
next
  case (Cons e es)
  have "session_step U (complete_ops em H) N (Act e) (typed_net [e] N)" using Cons(3) by (rule typed_net_step)
  then have "server_run em H U w h (typed_net [e] N) f log n" using Cons(2) by (blast intro: run_net)
  moreover have "\<not> shutdown_in_progress (tr_sender (end_a (typed_net [e] N)))" using Cons(3) by (simp add: typed_net_def)
  ultimately have "server_run em H U w h (typed_net es (typed_net [e] N)) f log n" by (rule Cons(1))
  then show ?case unfolding typed_net_cons [of e es] .
qed

lemma event_net:
  assumes "handle_term_event ev S now (client_with (end_a N) E nt) = Some (False, cl)"
    and "\<not> shutdown_in_progress (tr_sender (end_a N))" and "ev \<noteq> Quit"
  shows "after_event ev now cl N = typed_net (event_types ev) N"
proof -
  have "typed_more (event_types ev) (client_with (end_a N) E nt) cl"
    using handle_typed [OF assms(1)] assms(2,3) by simp
  then show ?thesis using assms(2,3) by (simp add: after_event_def typed_net_def typed_more_def)
qed

lemma quit_net:
  assumes "handle_term_event Quit S now (client_with (end_a N) E nt) = Some (False, cl)"
    and "\<not> shutdown_in_progress (tr_sender (end_a N))"
  shows "after_event Quit now cl N = N\<lparr>net_clock := now, end_a := transport_start_shutdown (end_a N) now\<rparr>"
  using assms by (auto simp: after_event_def handle_term_event_def split: if_splits)

text \<open>The other steps leave the client's input alone.\<close>

lemma net_keeps_client:
  assumes "net_step ops cops act hact N e N'" and "\<forall>a. e \<noteq> Act a" and "\<forall>t. e \<noteq> ShutdownA t"
  shows "made N' = made N \<and> since (tr_sender (end_a N')) = since (tr_sender (end_a N))"
  using assms(1)
proof cases
  case (step_tick_a now timeout srtt remote pad r S' c)
  then show ?thesis using since_tick [of ops "tr_sender (end_a N)" now timeout srtt remote pad] by simp
next
  case (step_timers_a now timeout srtt remote c)
  then show ?thesis by (simp add: since_wait)
next
  case (step_recv_a inst c nq now r T)
  then show ?thesis using since_instruction [of cops "(end_a N)\<lparr>tr_connection := c\<rparr>" inst nq now] by simp
qed (use assms(2,3) in auto)

section \<open>What the run has typed\<close>

lemma typed_event:
  "typed_until_quit [ev] = (keys_of (event_types ev), ev = Quit)"
proof -
  have "keys_of (map UserByte bs) = bs" for bs by (induction bs) simp_all
  then show ?thesis by (cases ev) simp_all
qed

definition typed_so_far :: "i32 \<Rightarrow> i32 \<Rightarrow> (user_stream, 'r, user_event list) net \<Rightarrow> term_event list \<Rightarrow> bool" where
  "typed_so_far w h N evs \<longleftrightarrow>
     (\<exists>typed. made N = Resize w h # typed \<and> typed_until_quit evs = (keys_of typed, shutdown_in_progress (tr_sender (end_a N))))"

lemma typed_so_far_eq:
  "made N' = made N \<Longrightarrow> shutdown_in_progress (tr_sender (end_a N')) = shutdown_in_progress (tr_sender (end_a N)) \<Longrightarrow>
     typed_so_far w h N' evs = typed_so_far w h N evs"
  by (simp add: typed_so_far_def)

lemma taken_client [simp]: "made (taken U T N) = made N" "end_a (taken U T N) = end_a N"
  by (simp_all add: taken_def Let_def)

lemma event_typed:
  assumes "handle_term_event ev S now (client_with (end_a N) E nt) = Some (False, cl)" and "typed_so_far w h N evs"
  shows "typed_so_far w h (after_event ev now cl N) (evs @ [ev])"
proof (cases "shutdown_in_progress (tr_sender (end_a N))")
  case True
  then have "after_event ev now cl N = N" by (simp add: after_event_def)
  then show ?thesis using assms(2) True by (auto simp: typed_so_far_def typed_append)
next
  case False
  show ?thesis
  proof (cases "ev = Quit")
    case True
    then show ?thesis
      using quit_net [of S now N E nt cl] assms False
      by (auto simp: typed_so_far_def typed_append transport_start_shutdown_def sender_start_shutdown_def)
  next
    case Q: False
    show ?thesis
      using assms(2) False Q unfolding event_net [OF assms(1) False Q]
      by (auto simp: typed_so_far_def typed_append typed_event typed_net_def)
  qed
qed

lemma whole_run_inv:
  "whole_run em H U w h N f log n evs \<Longrightarrow> server_run em H U w h N f log n \<and> typed_so_far w h N evs"
proof (induction rule: whole_run.induct)
  case (whole_start N)
  then show ?case
    by (auto intro: run_start simp: typed_so_far_def session_start_def transport_new_def sender_new_def)
next
  case (whole_net N f log n evs e N')
  have "made N' = made N \<and> since (tr_sender (end_a N')) = since (tr_sender (end_a N))"
    using net_keeps_client [OF whole_net.hyps(2) [unfolded session_step_def] whole_net.hyps(4,5)] .
  then have "typed_so_far w h N' evs" using whole_net.IH typed_so_far_eq [of N' N] by (simp add: since_def)
  then show ?case using whole_net.IH run_net [OF _ whole_net.hyps(2,3)] by blast
next
  case (whole_first N log n evs hdl)
  then show ?case using run_first [of em H U w h N log n hdl] typed_so_far_eq [of "taken U (srv_transport hdl) N" N] by simp
next
  case (whole_input N f log n evs now hdl)
  then show ?case
    using run_input [of em H U w h N f log n now hdl] typed_so_far_eq [of "taken U (srv_transport hdl) N" N] by simp
next
  case (whole_event N f log n evs now ev S E nt cl)
  have r: "server_run em H U w h N f log n" using whole_event.IH ..
  have "server_run em H U w h (after_event ev now cl N) f log n"
  proof (cases "shutdown_in_progress (tr_sender (end_a N))")
    case True
    then show ?thesis using r by (simp add: after_event_def)
  next
    case False
    show ?thesis
    proof (cases "ev = Quit")
      case True
      have "session_step U (complete_ops em H) N (ShutdownA now) (after_event Quit now cl N)"
        unfolding quit_net [OF whole_event.hyps(3) [unfolded True] False] session_step_def
        by (rule step_shutdown_a [OF whole_event.hyps(2)])
      then show ?thesis using r True by (blast intro: run_net)
    next
      case Q: False
      show ?thesis unfolding event_net [OF whole_event.hyps(3) False Q] by (rule typed_run [OF r False])
    qed
  qed
  then show ?case using whole_event.IH event_typed [OF whole_event.hyps(3)] by blast
qed

section \<open>What the reads published\<close>

definition is_resize :: "term_event \<Rightarrow> bool" where
  "is_resize ev \<longleftrightarrow> (case ev of ResizeTo w h \<Rightarrow> True | _ \<Rightarrow> False)"

lemma typed_resizes: "typed_until_quit (filter (\<lambda>ev. \<not> is_resize ev) evs) = typed_until_quit evs"
  by (induction evs rule: typed_until_quit.induct) (simp_all add: is_resize_def)

lemma typed_prefix: "prefix as bs \<Longrightarrow> prefix (fst (typed_until_quit as)) (fst (typed_until_quit bs))"
  by (auto simp: prefix_def typed_append split: prod.splits bool.splits)

lemma keys_prefix: "prefix as bs \<Longrightarrow> prefix (keys_of as) (keys_of bs)"
  by (auto simp: prefix_def)

end
