(* ===== verification/Client_Properties.thy ===== *)
theory Client_Properties
  imports Keyboard Network_Properties
begin

text \<open>
  What holds of the client as a whole: from the bytes that the terminal delivers to the shell, the escape
  key, the console's UTF-16, predictions while typing, and the end of the loop.
\<close>

section \<open>Things to run\<close>

definition demo_client :: "(user_stream, 'r) transport \<Rightarrow> 'r client" where
  "demo_client T = client_with T (set_display_preference Never (engine_new 0)) (notifications_new 0)"

definition demo_screen :: screen_snapshot where
  "demo_screen = screen ref_state0"

lemma demo_key:
  "handle_term_event (Input [108]) S 0 (demo_client (end_a demo_server0)) = Some (False,
     edit_stream (push_key 108) ((demo_client (end_a demo_server0))\<lparr>cl_prediction :=
       set_local_frame_sent (sent_state_last (tr_sender (end_a demo_server0))) (set_display_preference Never (engine_new 0))\<rparr>))"
proof -
  have "predict_byte S 0 108 (set_local_frame_sent n (set_display_preference Never (engine_new 0))) =
      Some (set_local_frame_sent n (set_display_preference Never (engine_new 0)))" for n
    by (simp add: predict_byte_def new_user_byte_def set_local_frame_sent_def set_display_preference_def split: prod.splits)
  moreover have "\<not> shutdown_in_progress (tr_sender (end_a demo_server0))"
    by (simp add: demo_server0_def transport_new_def sender_new_def)
  ultimately show ?thesis
    by (simp add: handle_term_event_def demo_client_def client_with_def PASTE_THRESHOLD_def Let_def)
qed

lemma demo_whole: "\<exists>N. whole_run ref_em pb_host pb_user 80 24 N None [] 0 [Input [108]]"
proof -
  have "whole_run ref_em pb_host pb_user 80 24 demo_server0 None [] 0 []"
    by (rule whole_start) (auto simp: session_start_def demo_server0_def)
  then have "whole_run ref_em pb_host pb_user 80 24 (after_event (Input [108]) 0
      (edit_stream (push_key 108) ((demo_client (end_a demo_server0))\<lparr>cl_prediction :=
       set_local_frame_sent (sent_state_last (tr_sender (end_a demo_server0))) (set_display_preference Never (engine_new 0))\<rparr>))
      demo_server0) None [] 0 ([] @ [Input [108]])"
    by (rule whole_event [OF _ _ demo_key [unfolded demo_client_def], folded demo_client_def])
      (simp add: demo_server0_def)
  then show ?thesis by auto
qed

section \<open>Properties\<close>

text \<open>
  From the keyboard to the shell, over a network that loses, repeats and reorders packets: what the
  server writes to the shell, after the keys of the first state it received (whose window size alone is
  used), is an initial piece of the bytes that the client read from the terminal, in order, filtered by
  the escape key as one stream whatever the reads were, up to the request to quit.
\<close>

theorem keyboard_reaches_shell:
  assumes U: "user_codec_laws U" and run: "whole_run em H U w h N f log n evs"
    and evs: "prefix (filter (\<lambda>ev. \<not> is_resize ev) evs) (fst (read_all (filter_new c) reads))"
  shows "prefix (keys_of (case_option [] (\<lambda>es. es) f) @ pty_keys log) (fst (fst (filter_run (filter_new c) (concat reads))))"
proof -
  have r: "server_run em H U w h N f log n" and t: "typed_so_far w h N evs" using whole_run_inv [OF run] by blast+
  note inv = server_run_inv [OF U r]
  then obtain rest where rest: "events (delivered N) = case_option [] (\<lambda>es. es) f @ rest" "pty_keys log = keys_of rest" by blast
  obtain typed where typed: "made N = Resize w h # typed" "prefix (events (delivered N)) typed"
    using delivered_typed [OF U conjunct1 [OF inv]] by blast
  have "keys_of typed = fst (typed_until_quit evs)" using t typed(1) by (auto simp: typed_so_far_def)
  moreover have "prefix (fst (typed_until_quit evs)) (fst (fst (filter_run (filter_new c) (concat reads))))"
    using typed_prefix [OF evs] read_all_run [of "filter_new c" reads] by (simp add: typed_resizes)
  moreover have "prefix (keys_of (case_option [] (\<lambda>es. es) f) @ pty_keys log) (keys_of typed)"
    using keys_prefix [OF typed(2)] rest by simp
  ultimately show ?thesis using prefix_order.trans by metis
qed

theorem keyboard_reaches_shell_witness:
  "prefix (keys_of [] @ pty_keys []) (fst (fst (filter_run (filter_new None) (concat [[108]]))))"
proof -
  obtain N where "whole_run ref_em pb_host pb_user 80 24 N None [] 0 [Input [108]]" using demo_whole by blast
  moreover have "prefix (filter (\<lambda>ev. \<not> is_resize ev) [Input [108]]) (fst (read_all (filter_new None) [[108]]))"
    by (simp add: is_resize_def publish_def filter_feed_def filter_new_def)
  ultimately show ?thesis using keyboard_reaches_shell [OF pb_user_laws] by fastforce
qed

text \<open>
  C28. How the reads cut the input does not matter: what is typed before the user asks to quit, and
  whether the user does, is what one read of everything would give, even when an escape sequence is cut
  in two.
\<close>

theorem reads_can_be_split:
  "typed_until_quit (fst (read_all f reads)) = typed_until_quit (fst (publish f (concat reads)))"
  using read_all_run [of f reads] publish_run [of f "concat reads"] by simp

text \<open>
  C29. Every byte string can be typed: with each escape key that would be taken followed by its pass
  key, as the help says, exactly the string is sent and nothing quits, for every setting of the escape
  key except the full stop.
\<close>

theorem escape_key_can_be_typed:
  assumes "from_setting v = Some c" and "v \<noteq> Some [46]" and "concat reads = quoted c False bs"
  shows "typed_until_quit (fst (read_all (filter_new (Some c)) reads)) = (bs, False)"
proof -
  have "pass_key c \<noteq> 46" "pass_key c \<noteq> 26" using from_setting_pass_key [OF assms(1,2)] by blast+
  then obtain w f1 where "filter_loop c (quoted c False bs) (filter_new (Some c)) [] False = (bs, w, False, f1)"
    using quoted_loop [of c "filter_new (Some c)" bs] by (auto simp: filter_new_def)
  then show ?thesis
    using read_all_run [of "filter_new (Some c)" reads] assms(3) by (simp add: filter_run_def filter_new_def)
qed

theorem escape_key_can_be_typed_witness:
  "typed_until_quit (fst (read_all (filter_new (Some (for_key 30))) [[97, 30], [94, 46]])) = ([97, 30, 46], False)"
proof -
  have c: "from_setting None = Some (for_key 30)" by (simp add: from_setting_def DEFAULT_ESCAPE_KEY_def Let_def)
  have "concat [[97, 30], [94, 46]] = quoted (for_key 30) False [97, 30, 46]"
    by (simp add: for_key_def Let_def)
  from escape_key_can_be_typed [OF c _ this] show ?thesis by simp
qed

text \<open>With the full stop as the escape key, what the help says quits.\<close>

lemma full_stop_quits:
  "from_setting (Some [46]) = Some c \<Longrightarrow> typed_until_quit (fst (read_all (filter_new (Some c)) [[10, 46, pass_key c]])) = ([10], True)"
  using read_all_run [of "filter_new (Some c)" "[[10, 46, pass_key c]]"]
  by (auto simp: from_setting_def for_key_def Let_def filter_run_def filter_new_def)

text \<open>
  C30. However the console's reads cut the UTF-16 input, the bytes that come out, with the code unit
  held back, are the UTF-8 of the whole input decoded at once: no surrogate pair is broken.
\<close>

theorem console_input_decoded_whole:
  "concat (fst (console_reads utf16_new rs)) @ utf8 (decode_utf16 (held (snd (console_reads utf16_new rs)))) =
     utf8 (decode_utf16 (concat rs))"
  using reads_decode [of utf16_new rs] by (simp add: utf16_new_def utf16_ok_def held_def)

text \<open>
  C31. Typing cannot panic while the screen holds the cursor and all predicted cursors, whatever bytes
  arrive, and it keeps it so.
\<close>

theorem typing_on_screen_never_panics:
  assumes "at_ease S cl"
    and "\<forall>bs. ev = Input bs \<longrightarrow> unat (prediction_epoch (cl_prediction cl)) + 3 * length bs + 1 < 2 ^ 64"
  shows "\<exists>stop cl'. handle_term_event ev S now cl = Some (stop, cl') \<and> at_ease S cl'"
proof (cases "shutdown_in_progress (cl_sender cl)")
  case True
  then show ?thesis using assms(1) by (auto simp: handle_term_event_def)
next
  case up: False
  show ?thesis
  proof (cases ev)
    case (Input bs)
    let ?paste = "length bs > PASTE_THRESHOLD"
    let ?E = "set_local_frame_sent (sent_state_last (cl_sender cl)) (if ?paste then pe_reset (cl_prediction cl) else cl_prediction cl)"
    have "engine_ok (pe_reset (cl_prediction cl))"
      by (simp add: engine_ok_def pe_reset_def become_tentative_def)
    then have ease: "at_ease S (cl\<lparr>cl_prediction := ?E\<rparr>)"
      using assms(1) inside_simps(6) [of "cols S" "cl_prediction cl"]
      by (simp add: at_ease_def set_local_frame_sent_def engine_ok_def inside_def)
    have "unat (x + 1) \<le> unat x + 1" for x :: u64
      using unsigned_less [of "x + 1", where ?'a = nat] u64_inc [of x] by (cases "unat x + 1 < 2 ^ 64") simp_all
    then have "unat (prediction_epoch ?E) \<le> unat (prediction_epoch (cl_prediction cl)) + 1"
      by (simp add: set_local_frame_sent_def pe_reset_def become_tentative_def)
    then have "unat (prediction_epoch (cl_prediction (cl\<lparr>cl_prediction := ?E\<rparr>))) + 3 * length bs < 2 ^ 64"
      using assms(2) Input by simp
    from type_bytes_total [OF ease this] obtain cl' where
      t: "type_bytes ?paste S now bs (cl\<lparr>cl_prediction := ?E\<rparr>) = Some cl'" "at_ease S cl'" by blast
    have "handle_term_event ev S now cl = map_option (Pair False) (type_bytes ?paste S now bs (cl\<lparr>cl_prediction := ?E\<rparr>))"
      using Input up by (simp only: handle_term_event_def Let_def term_event.case if_False)
    then show ?thesis using t by auto
  next
    case (ResizeTo w h)
    have "at_ease S (edit_stream (push_resize w h) cl\<lparr>cl_prediction := pe_reset (cl_prediction cl)\<rparr>)"
      using assms(1) inside_simps(6) [of "cols S" "cl_prediction cl"]
      by (simp add: at_ease_def engine_ok_def pe_reset_def become_tentative_def)
    then show ?thesis using ResizeTo up by (auto simp: handle_term_event_def)
  next
    case (EscapeHelp b)
    then show ?thesis using assms(1) up by (auto simp: handle_term_event_def at_ease_def)
  next
    case Quit
    then show ?thesis using assms(1) up by (auto simp: handle_term_event_def at_ease_def)
  qed
qed

text \<open>
  C32. A client that has begun to shut down leaves its loop: in the first turn after ten seconds, whatever
  the network does and whatever the user types.
\<close>

theorem shutdown_always_ends:
  assumes began: "loop_sender L = sender_start_shutdown S t" "\<not> shutdown_in_progress S"
    and run: "client_run C Z os U em H show turns L = Some (Running, L1)"
    and late: "t + ms ACTIVE_RETRY_TIMEOUT_MS \<le> ti_now i"
  shows "\<exists>out L2. client_loop_body C Z os U em H show i L1 = Some (Done, out, [], L2)"
proof -
  have s: "shutdown_in_progress (loop_sender L)" "since (loop_sender L) = (True, Some t)"
    using began by (simp_all add: sender_start_shutdown_def since_def)
  let ?L = "snd (client_wait U (ti_now i) (snd (client_paint L1)))"
  have 1: "since (loop_sender ?L) = (True, Some t)" using run_closing [OF s(1) run] s(2) by (simp add: wait_since)
  then have "shutdown_in_progress (loop_sender ?L)" by (simp add: since_def)
  from turn_closing [OF this, of C Z em H "show" "ti_event i" "ti_now i"] obtain v L2 where
    2: "client_turn C Z em H show (ti_event i) (ti_now i) ?L = Some (v, L2)" "v \<noteq> NoServer"
    "since (loop_sender L2) = (True, Some t)" "v = Running \<longrightarrow> \<not> shutdown_ack_timed_out (loop_sender L2) (ti_now i)"
    using 1 by auto
  have "shutdown_ack_timed_out (loop_sender L2) (ti_now i)"
    using 2(3) le_diff_conv2 [of t "ti_now i" "ms ACTIVE_RETRY_TIMEOUT_MS"] late
    by (simp add: shutdown_ack_timed_out_def since_def add.commute)
  then have "v = Done" using 2 by (cases v) auto
  then show ?thesis using 2(1) by (auto simp: client_loop_body_def split: prod.splits)
qed



theorem typing_on_screen_never_panics_witness:
  "\<exists>stop cl'. handle_term_event (Input [108, 13]) demo_screen 5 (client_with (end_a demo_server0) (engine_new 0) (notifications_new 0))
     = Some (stop, cl') \<and> at_ease demo_screen (cl' :: vterm mosh_terminal complete client)"
  by (rule typing_on_screen_never_panics)
    (simp_all add: at_ease_def client_with_def demo_screen_def ref_state0_def snapshot_new_def engine_new_def engine_ok_def inside_def)

definition demo_quit :: "vterm mosh_terminal client_loop" where
  "demo_quit =
     \<lparr>the_client = demo_client ((end_a demo_server0)\<lparr>tr_sender := sender_start_shutdown (tr_sender (end_a demo_server0)) 0\<rparr>),
      local_frame = demo_screen, loop_started = 0\<rparr>"

theorem shutdown_always_ends_witness:
  "\<exists>out L2. client_loop_body plain_ocb pb_codec (\<lambda>bs. True) pb_user ref_em pb_host (\<lambda>e. ''error'')
     \<lparr>ti_event = TermEvent (Input [97]), ti_now = 20000000000, ti_wall = 0, ti_pad = [], ti_socket = None\<rparr> demo_quit = Some (Done, out, [], L2)"
proof (rule shutdown_always_ends [where turns = "[]"])
  show "loop_sender demo_quit = sender_start_shutdown (tr_sender (end_a demo_server0)) 0"
    by (simp add: demo_quit_def demo_client_def)
  show "\<not> shutdown_in_progress (tr_sender (end_a demo_server0))"
    by (simp add: demo_server0_def transport_new_def sender_new_def)
qed (simp_all add: ms_def ACTIVE_RETRY_TIMEOUT_MS_def)

end
