(* ===== verification/Channel.thy ===== *)
theory Channel
  imports Network_Properties
begin

text \<open>
  One direction of a connection over a network that may do anything to datagrams: lose, repeat,
  reorder, reflect and forge them. \<open>chan_ok\<close> relates the instructions that were handed to one end
  (\<open>conn_send\<close> of \<open>connection.rs\<close>), the datagrams that left it, and the assembler of the other end;
  it is kept by sending and by receiving, and what a reception yields is an instruction that was
  sent.

  An id of the fragmenter stands for one instruction. The code reuses an id when the numbers, the
  padding and the version of the instruction are the same as last time, without comparing the diff
  (\<open>is\_new\_instruction\<close>), so sending keeps \<open>chan_ok\<close> only where equal numbers mean equal diffs.
\<close>

definition pieces :: "codec \<Rightarrow> u64 \<Rightarrow> instruction \<Rightarrow> fragment list" where
  "pieces Z n i =
     cut_fragments n (max_fragment_payload MTU_IPV4) (case_option [] id (zlib_deflate Z (encode_inst Z i)))"

definition chan_ok ::
  "ocb \<Rightarrow> codec \<Rightarrow> bytes \<Rightarrow> bool \<Rightarrow> instruction set \<Rightarrow> bytes set \<Rightarrow> fragmenter \<Rightarrow> assembly \<Rightarrow>
     (u64 \<Rightarrow> instruction option) \<Rightarrow> bool" where
  "chan_ok C Z key role W D F A K \<longleftrightarrow>
     (\<forall>n i. K n = Some i \<longrightarrow> i \<in> W \<and> n \<le> next_instruction_id F \<and> length (pieces Z n i) \<le> 32768) \<and>
     (\<forall>i. last_instruction F = Some i \<longrightarrow> K (next_instruction_id F) = Some i) \<and>
     (\<forall>d\<in>D. \<exists>n i f. K n = Some i \<and> f \<in> set (pieces Z n i) \<and> carries C key role d f) \<and>
     (current_id A = None \<or> (\<exists>n i S. K n = Some i \<and> asm_holds (pieces Z n i) S A))"

text \<open>The same numbers, acknowledgement, padding and version: all that the fragmenter compares.\<close>

definition same_header :: "instruction \<Rightarrow> instruction \<Rightarrow> bool" where
  "same_header i j \<longleftrightarrow> old_num i = old_num j \<and> new_num i = new_num j \<and> ack_num i = ack_num j \<and>
     throwaway_num i = throwaway_num j \<and> chaff i = chaff j \<and> protocol_version i = protocol_version j"

text \<open>Far from the ends: an id is free, and the instruction fits the fifteen bits of the fragment number.\<close>

definition frag_room :: "codec \<Rightarrow> connection \<Rightarrow> instruction \<Rightarrow> bool" where
  "frag_room Z c inst \<longleftrightarrow> next_instruction_id (fragger c) \<noteq> u64_MAX \<and>
     unat (send_seq c) + 32768 \<le> 2 ^ 63 \<and>
     (\<forall>n. length (pieces Z n inst) \<le> 32768)"

lemma mp_pos: "0 < max_fragment_payload MTU_IPV4"
  by (simp add: max_fragment_payload_def const_defs)

lemma pieces_wf: "length (pieces Z n i) \<le> 32768 \<Longrightarrow> wf_frags (pieces Z n i)"
  unfolding pieces_def using mp_pos by (intro wf_cut) auto

lemma pieces_id: "frag_id (hd (pieces Z n i)) = n"
proof -
  have "0 < length (pieces Z n i)" using cut_length [OF mp_pos] by (simp add: pieces_def)
  then show ?thesis using cut_nth [OF mp_pos, of 0 n] by (simp add: pieces_def hd_conv_nth)
qed

lemma pieces_decode:
  assumes "codec_laws Z"
  shows "decode_payload Z (concat (map payload (pieces Z n i))) = Inr i"
proof -
  obtain c where "zlib_deflate Z (encode_inst Z i) = Some c" "zlib_inflate Z c = Some (encode_inst Z i)"
    using assms unfolding codec_laws_def by blast
  then show ?thesis
    using assms cut_payloads [OF mp_pos] by (simp add: pieces_def decode_payload_def decompress_def codec_laws_def)
qed

section \<open>Sending\<close>

lemma chan_start: "chan_ok C Z key role W {} fragmenter_new assembly_new (\<lambda>_. None)"
  by (simp add: chan_ok_def fragmenter_new_def assembly_new_def)

lemma less_succ: "(x :: u64) \<noteq> u64_MAX \<Longrightarrow> x < x + 1"
proof -
  assume x: "x \<noteq> u64_MAX"
  have "unat x \<noteq> 2 ^ 64 - 1"
  proof
    assume "unat x = 2 ^ 64 - 1"
    also have "2 ^ 64 - 1 = unat u64_MAX"
      by (simp add: unsigned_minus_1_eq_mask mask_eq_exp_minus_1)
    finally show False using x unsigned_word_eqI by blast
  qed
  moreover have "unat x < 2 ^ 64" using unsigned_less [of x] by simp
  ultimately have "unat (x + 1) = unat x + 1" by (simp add: unat_word_ariths)
  then show ?thesis by (simp add: word_less_nat_alt)
qed

text \<open>What the fragmenter makes of an instruction, and how the instruction enters the channel.\<close>

lemma chan_fragment:
  assumes ch: "chan_ok C Z key role W D (fragger c) A K" and Z: "codec_laws Z" and room: "frag_room Z c inst"
    and det: "\<And>i. last_instruction (fragger c) = Some i \<Longrightarrow> same_header i inst \<Longrightarrow> i = inst"
    and mk: "make_fragments Z (fragger c) inst (max_fragment_payload MTU_IPV4) = (r, F)"
  shows "r = Inr (pieces Z (next_instruction_id F) inst) \<and>
    (\<exists>K'. chan_ok C Z key role (insert inst W) D F A K' \<and> K' (next_instruction_id F) = Some inst)"
proof -
  obtain z where z: "zlib_deflate Z (encode_inst Z inst) = Some z" using Z unfolding codec_laws_def by blast
  let ?new = "is_new_instruction (fragger c) inst (max_fragment_payload MTU_IPV4)"
  let ?n = "next_instruction_id (fragger c)"
  have F: "F = (fragger c)\<lparr>next_instruction_id := (if ?new then ?n + 1 else ?n),
      last_instruction := Some inst, last_max_payload := Some (max_fragment_payload MTU_IPV4)\<rparr>"
    and r: "r = Inr (pieces Z (next_instruction_id F) inst)"
    using mk mp_pos z by (auto simp: make_fragments_def Let_def compress_def pieces_def)
  have small: "length (pieces Z m inst) \<le> 32768" for m using room by (simp add: frag_room_def)
  have "\<exists>K'. chan_ok C Z key role (insert inst W) D F A K' \<and> K' (next_instruction_id F) = Some inst"
  proof (cases ?new)
    case True
    have up: "?n < ?n + 1" using room by (intro less_succ) (simp add: frag_room_def)
    have none: "K (?n + 1) = None" using ch up unfolding chan_ok_def by (metis not_None_eq not_less)
    have sub: "(K(?n + 1 \<mapsto> inst)) m = Some i" if "K m = Some i" for m i using that none by auto
    have "chan_ok C Z key role (insert inst W) D F A (K(?n + 1 \<mapsto> inst))"
      unfolding chan_ok_def
    proof (intro conjI)
      show "\<forall>m i. (K(?n + 1 \<mapsto> inst)) m = Some i \<longrightarrow>
          i \<in> insert inst W \<and> m \<le> next_instruction_id F \<and> length (pieces Z m i) \<le> 32768"
        using ch True order_trans [OF _ less_imp_le [OF up]] small unfolding F chan_ok_def by auto
      show "\<forall>i. last_instruction F = Some i \<longrightarrow> (K(?n + 1 \<mapsto> inst)) (next_instruction_id F) = Some i"
        using True by (simp add: F)
      show "\<forall>d\<in>D. \<exists>m i f. (K(?n + 1 \<mapsto> inst)) m = Some i \<and> f \<in> set (pieces Z m i) \<and> carries C key role d f"
        using ch sub unfolding chan_ok_def by meson
      show "current_id A = None \<or> (\<exists>m i S. (K(?n + 1 \<mapsto> inst)) m = Some i \<and> asm_holds (pieces Z m i) S A)"
        using ch sub unfolding chan_ok_def by meson
    qed
    then show ?thesis using True by (auto simp: F)
  next
    case False
    then obtain i where i: "last_instruction (fragger c) = Some i" "same_header i inst"
      by (auto simp: is_new_instruction_def same_header_def split: option.splits)
    then have eq: "i = inst" by (rule det)
    have "chan_ok C Z key role (insert inst W) D F A K"
      using ch i False unfolding chan_ok_def F by (auto simp: eq)
    moreover have "K (next_instruction_id F) = Some inst"
      using ch i False unfolding chan_ok_def by (simp add: F eq)
    ultimately show ?thesis by blast
  qed
  then show ?thesis using r by blast
qed

lemma chan_add:
  assumes "chan_ok C Z key role W D F A K" and "K n = Some i"
    and "\<forall>d\<in>D'. \<exists>f\<in>set (pieces Z n i). carries C key role d f"
  shows "chan_ok C Z key role W (D \<union> D') F A K"
proof -
  have "\<forall>d\<in>D'. \<exists>n i f. K n = Some i \<and> f \<in> set (pieces Z n i) \<and> carries C key role d f"
    using assms(2,3) by meson
  then show ?thesis using assms(1) unfolding chan_ok_def by (simp add: ball_Un)
qed

lemma chan_send:
  assumes ch: "chan_ok C Z (cipher_key (conn_session c)) (is_server c) W D (fragger c) A K"
    and laws: "ocb_laws C" "codec_laws Z" and key: "length (cipher_key (conn_session c)) = 16"
    and room: "frag_room Z c inst"
    and det: "\<And>i. last_instruction (fragger c) = Some i \<Longrightarrow> same_header i inst \<Longrightarrow> i = inst"
    and send: "conn_send C Z os wall now c inst = Some (r, wires, c')"
  shows "\<exists>K'. chan_ok C Z (cipher_key (conn_session c)) (is_server c) (insert inst W) (D \<union> set wires)
       (fragger c') A K' \<and>
    cipher_key (conn_session c') = cipher_key (conn_session c) \<and> is_server c' = is_server c \<and>
    assembler c' = assembler c"
proof (cases "remote_addr c")
  case None
  then have "c' = c" "wires = []" using send by (simp_all add: conn_send_def)
  then show ?thesis using ch unfolding chan_ok_def by auto
next
  case (Some a)
  obtain rf F where mk: "make_fragments Z (fragger c) inst (max_fragment_payload MTU_IPV4) = (rf, F)" by fastforce
  let ?fs = "pieces Z (next_instruction_id F) inst"
  from chan_fragment [OF ch laws(2) room det mk] obtain K' where rf: "rf = Inr ?fs"
    and ch': "chan_ok C Z (cipher_key (conn_session c)) (is_server c) (insert inst W) D F A K'"
    and K': "K' (next_instruction_id F) = Some inst" by blast
  have s: "send_fragments C os wall now (c\<lparr>fragger := F\<rparr>) ?fs = Some (r, wires, c')"
    using send Some mk rf by (simp add: conn_send_def)
  have small: "length ?fs \<le> 32768" using room by (simp add: frag_room_def)
  then have nums: "\<forall>f\<in>set ?fs. fragment_num f < 0x8000" unfolding pieces_def using cut_numbers [OF mp_pos] by blast
  have "unat (send_seq (c\<lparr>fragger := F\<rparr>)) + length ?fs \<le> 2 ^ 63"
    using small conjunct1 [OF conjunct2 [OF room [unfolded frag_room_def]]] by simp
  from send_fragments_carry [OF s this nums laws(1)] key
  have w: "\<forall>d\<in>set wires. \<exists>f\<in>set ?fs. carries C (cipher_key (conn_session c)) (is_server c) d f"
    and c': "cipher_key (conn_session c') = cipher_key (conn_session c)" "fragger c' = F"
      "assembler c' = assembler c" "is_server c' = is_server c" by simp_all
  have "chan_ok C Z (cipher_key (conn_session c)) (is_server c) (insert inst W) (D \<union> set wires) (fragger c') A K'"
    unfolding c' by (rule chan_add [OF ch' K' w])
  then show ?thesis using c' by blast
qed

section \<open>Receiving\<close>

lemma cleared_holds: "fs \<noteq> [] \<Longrightarrow> asm_holds fs S A \<Longrightarrow> asm_holds fs {} (cleared A)"
  by (auto simp: asm_holds_def cleared_def slot_def)

lemma chan_assemble:
  assumes ch: "chan_ok C Z key role W D F A K" and Z: "codec_laws Z"
    and K: "K n = Some i" and f: "f \<in> set (pieces Z n i)"
    and add: "add_fragment Z A f = (r, A')"
  shows "chan_ok C Z key role W D F A' K \<and> (r = Inr None \<or> r = Inr (Some i)) \<and> i \<in> W"
proof -
  let ?fs = "pieces Z n i"
  have i: "i \<in> W" "length ?fs \<le> 32768" using ch K unfolding chan_ok_def by blast+
  have wf: "wf_frags ?fs" by (rule pieces_wf [OF i(2)])
  then have ne: "?fs \<noteq> []" by (simp add: wf_frags_def)
  obtain j where j: "j < length ?fs" "f = ?fs ! j" using f by (auto simp: in_set_conv_nth)
  have "\<exists>S. asm_holds ?fs S (store_fragment A f)"
  proof (cases "current_id A = Some n")
    case False
    then show ?thesis using store_first [OF wf j(1), of A] j(2) by (auto simp: pieces_id)
  next
    case True
    then obtain m k S where m: "K m = Some k" "asm_holds (pieces Z m k) S A" using ch unfolding chan_ok_def by auto
    then have "m = n" using True by (simp add: asm_holds_def pieces_id)
    then have "asm_holds ?fs S A" using m K by simp
    then show ?thesis using store_next [OF wf j(1)] j(2) by blast
  qed
  then obtain S where S: "asm_holds ?fs S (store_fragment A f)" by blast
  have add': "add_fragment Z A f = (if S = {..<length ?fs} then (Inr (Some i), cleared (store_fragment A f))
      else (Inr None, store_fragment A f))"
    using add_fragment_holds [OF S ne, of Z] pieces_decode [OF Z, of n i] by simp
  have "\<exists>S'. asm_holds ?fs S' A'" and r: "r = Inr None \<or> r = Inr (Some i)"
    using add add' S cleared_holds [OF ne S] by (auto split: if_splits)
  then have "chan_ok C Z key role W D F A' K" using ch K unfolding chan_ok_def by blast
  then show ?thesis using r i by blast
qed

text \<open>
  A datagram of the peer, whenever it comes: the part of the connection that sends is left alone, the
  channel stays good, and an instruction that comes out is one that was sent.
\<close>

lemma chan_receive:
  assumes ch: "chan_ok C Z key role W D F (assembler p) K" and laws: "ocb_laws C" "codec_laws Z"
    and key: "length key = 16" "cipher_key (conn_session p) = key" and role: "is_server p \<noteq> role"
    and d: "data \<in> D" and recv: "process_incoming C Z p wall n1 n2 data peer = (r, p')"
  shows "chan_ok C Z key role W D F (assembler p') K \<and> same_sending p p' \<and>
    (r = Inr None \<or> (\<exists>i\<in>W. r = Inr (Some i)))"
proof -
  obtain n i f where K: "K n = Some i" and f: "f \<in> set (pieces Z n i)" and car: "carries C key role data f"
    using ch d unfolding chan_ok_def by meson
  then obtain c wall' now c' where e: "encrypt_fragment C c wall' now f = Some (data, c')"
    and c: "cipher_key (conn_session c) = key" "is_server c = role" "send_seq c < TO_CLIENT_BIT"
    and num: "fragment_num f < 0x8000" unfolding carries_def by blast
  obtain p1 where p1: "process_incoming C Z p wall n1 n2 data peer = conn_assemble Z p1 f"
    "assembler p1 = assembler p" "same_sending p p1"
    using process_incoming_peer [OF laws(1) _ e c(3) num, of p] key c(1,2) role by metis
  obtain rf A' where add: "add_fragment Z (assembler p) f = (rf, A')" by fastforce
  note a = chan_assemble [OF ch laws(2) K f add]
  have "p' = p1\<lparr>assembler := A'\<rparr>" "r = lift_frag rf"
    using recv p1(1,2) add by (auto simp: conn_assemble_def lift_frag_def split: sum.splits)
  then show ?thesis using a p1(3) by (auto simp: same_sending_def lift_frag_def)
qed

text \<open>A datagram of our own direction, or one that does not decrypt, is refused and changes nothing.\<close>

lemma chan_refuse:
  assumes laws: "ocb_laws C" and key: "length key = 16" "cipher_key (conn_session p) = key"
    and bad: "(\<exists>f. carries C key (is_server p) data f) \<or> (\<exists>e. session_decrypt C (conn_session p) data = Inl e)"
    and recv: "process_incoming C Z p wall n1 n2 data peer = (r, p')"
  shows "p' = p \<and> (\<exists>e. r = Inl e)"
  using bad
proof
  assume "\<exists>f. carries C key (is_server p) data f"
  then obtain f c wall' now c' where e: "encrypt_fragment C c wall' now f = Some (data, c')"
    and c: "cipher_key (conn_session c) = key" "is_server c = is_server p" "send_seq c < TO_CLIENT_BIT"
    unfolding carries_def by blast
  show ?thesis
    using process_incoming_reflected [OF laws _ e c(3), of p] key c(1,2) recv by auto
next
  assume "\<exists>e. session_decrypt C (conn_session p) data = Inl e"
  then show ?thesis using recv by (auto simp: process_incoming_def)
qed

lemma same_sending_chan:
  "same_sending c c' \<Longrightarrow> chan_ok C Z key (is_server c) W D (fragger c) A K \<Longrightarrow>
     chan_ok C Z key (is_server c') W D (fragger c') A K"
  by (simp add: same_sending_def)

lemma chan_mono: "chan_ok C Z key role W D F A K \<Longrightarrow> W \<subseteq> W' \<Longrightarrow> chan_ok C Z key role W' D F A K"
  unfolding chan_ok_def by blast

section \<open>A whole instruction\<close>

text \<open>A send that succeeds has put every piece of its instruction on the wire.\<close>

lemma send_pieces:
  assumes laws: "ocb_laws C" "codec_laws Z" and key: "length (cipher_key (conn_session c)) = 16"
    and room: "frag_room Z c inst" and send: "conn_send C Z os wall now c inst = Some (Inr (), wires, c')"
  shows "last_instruction (fragger c') = Some inst"
    and "list_all2 (carries C (cipher_key (conn_session c)) (is_server c)) wires
      (pieces Z (next_instruction_id (fragger c')) inst)"
proof -
  obtain z where z: "zlib_deflate Z (encode_inst Z inst) = Some z" using laws(2) unfolding codec_laws_def by blast
  obtain F where F: "make_fragments Z (fragger c) inst (max_fragment_payload MTU_IPV4) =
      (Inr (pieces Z (next_instruction_id F) inst), F)" "last_instruction F = Some inst"
    using mp_pos z by (simp add: make_fragments_def Let_def compress_def pieces_def)
  have s: "send_fragments C os wall now (c\<lparr>fragger := F\<rparr>) (pieces Z (next_instruction_id F) inst) = Some (Inr (), wires, c')"
    using send F(1) by (auto simp: conn_send_def split: option.splits)
  have small: "length (pieces Z (next_instruction_id F) inst) \<le> 32768" using room by (simp add: frag_room_def)
  then have nums: "\<forall>f\<in>set (pieces Z (next_instruction_id F) inst). fragment_num f < 0x8000"
    unfolding pieces_def using cut_numbers [OF mp_pos] by blast
  have "unat (send_seq c) + length (pieces Z (next_instruction_id F) inst) \<le> 2 ^ 63"
    using small conjunct1 [OF conjunct2 [OF room [unfolded frag_room_def]]] by simp
  from send_fragments_carry [OF s _ nums laws(1)] this key
  have "fragger c' = F" "list_all2 (carries C (cipher_key (conn_session c)) (is_server c)) wires
      (pieces Z (next_instruction_id F) inst)" by simp_all
  then show "last_instruction (fragger c') = Some inst"
    "list_all2 (carries C (cipher_key (conn_session c)) (is_server c)) wires
      (pieces Z (next_instruction_id (fragger c')) inst)" using F(2) by simp_all
qed

text \<open>The pieces of an instruction that an assembler holds: none, when it is at work on another.\<close>

definition holds_of :: "codec \<Rightarrow> u64 \<Rightarrow> instruction \<Rightarrow> nat set \<Rightarrow> assembly \<Rightarrow> bool" where
  "holds_of Z n i S A \<longleftrightarrow> (if current_id A = Some n then asm_holds (pieces Z n i) S A else S = {})"

lemma chan_holds:
  assumes "chan_ok C Z key role W D F A K" and "K n = Some i"
  shows "\<exists>S. holds_of Z n i S A"
proof (cases "current_id A = Some n")
  case False
  then show ?thesis by (simp add: holds_of_def)
next
  case True
  then obtain m k S where m: "K m = Some k" "asm_holds (pieces Z m k) S A" using assms(1) unfolding chan_ok_def by auto
  then have "m = n" using True by (simp add: asm_holds_def pieces_id)
  then show ?thesis using m assms(2) True by (auto simp: holds_of_def)
qed

lemma holds_add:
  assumes h: "holds_of Z n i S A" and Z: "codec_laws Z" and small: "length (pieces Z n i) \<le> 32768"
    and j: "j < length (pieces Z n i)" and add: "add_fragment Z A (pieces Z n i ! j) = (r, A')"
  shows "if insert j S = {..<length (pieces Z n i)} then r = Inr (Some i)
    else r = Inr None \<and> holds_of Z n i (insert j S) A'"
proof -
  let ?fs = "pieces Z n i"
  have wf: "wf_frags ?fs" by (rule pieces_wf [OF small])
  then have ne: "?fs \<noteq> []" by (simp add: wf_frags_def)
  have S: "asm_holds ?fs (insert j S) (store_fragment A (?fs ! j))"
  proof (cases "current_id A = Some n")
    case True
    then show ?thesis using h store_next [OF wf j] by (simp add: holds_of_def)
  next
    case False
    then show ?thesis using h store_first [OF wf j, of A] by (simp add: holds_of_def pieces_id)
  qed
  have "current_id (store_fragment A (?fs ! j)) = Some n" using S by (simp add: asm_holds_def pieces_id)
  then show ?thesis
    using add_fragment_holds [OF S ne, of Z] pieces_decode [OF Z, of n i] add S
    by (auto simp: holds_of_def split: if_splits)
qed

end
