(* ===== verification/Datagrams.thy ===== *)
theory Datagrams
  imports Synchronization Channel
begin

text \<open>
  The protocol over datagrams. \<open>net_step\<close> (theory \<open>Synchronization\<close>) hands over whole instructions; here the two
  ends are \<open>Transport::tick\<close> and the reception of \<open>transport.rs\<close> with fragments, compression, encryption and
  reassembly, and the network may deliver any octets at any time: a datagram that was sent, in either
  direction, or anything else that does not decrypt under the session key. \<open>dgram_step\<close> refines
  \<open>net_step\<close>: every run over datagrams is a run over instructions.
\<close>

section \<open>What an end has sent\<close>

lemma emit_inst_fields [simp]: "or0 (ack_num (emit_inst ops S t d pad)) = sender_ack_num S"
  by (simp add: emit_inst_def)

context source
begin

text \<open>The sending half is sound, and its packets mean what the history \<open>M\<close> says.\<close>

definition src_ok :: "instant \<Rightarrow> 'h \<Rightarrow> 's sender \<Rightarrow> instruction set \<Rightarrow> bool" where
  "src_ok clk H S W \<longleftrightarrow> sender_inv clk S \<and>
     (\<exists>M p. tx_ok M p H S \<and> (\<forall>i\<in>W. inst_ok M (sent_state_acked S) i))"

lemma src_later: "src_ok clk H S W \<Longrightarrow> clk \<le> now \<Longrightarrow> src_ok now H S W"
  unfolding src_ok_def using sender_inv_later by blast

lemma inst_ok_same:
  assumes "inst_ok M a i" and "inst_ok M b j" and "same_header i j"
  shows "i = j"
proof -
  from assms(1) obtain g h q x y where i: "M (or0 (old_num i)) = Some g" "M (or0 (new_num i)) = Some h"
    "le g h" "rep q h x" "rep q g y" "inst_diff i = diff_from ops x y" unfolding inst_ok_def by blast
  from assms(2) obtain g' h' q' x' y' where j: "M (or0 (old_num j)) = Some g'" "M (or0 (new_num j)) = Some h'"
    "le g' h'" "rep q' h' x'" "rep q' g' y'" "inst_diff j = diff_from ops x' y'" unfolding inst_ok_def by blast
  have hd: "old_num i = old_num j" "new_num i = new_num j" "ack_num i = ack_num j"
    "throwaway_num i = throwaway_num j" "chaff i = chaff j" "protocol_version i = protocol_version j"
    using assms(3) by (simp_all add: same_header_def)
  have "g' = g" "h' = h" using i(1,2) j(1,2) hd by simp_all
  then have "inst_diff i = inst_diff j" using diff_det [OF i(3-5)] i(6) j(4-6) by simp
  moreover have "diff i \<noteq> None" "diff j \<noteq> None" using assms(1,2) by (simp_all add: inst_ok_def)
  ultimately have "diff i = diff j" by auto
  with hd show ?thesis by simp
qed

lemma src_tick:
  assumes ok: "src_ok clk H S W" and clk: "clk \<le> now" and room: "num_room S"
    and tick: "sender_tick ops S now timeout srtt remote pad = (r, S')"
  shows "src_ok now H S' (W \<union> emitted r)"
    and "i \<in> W \<Longrightarrow> r = Some inst \<Longrightarrow> same_header i inst \<Longrightarrow> i = inst"
proof -
  from ok obtain M p where inv: "sender_inv clk S" and tx: "tx_ok M p H S"
    and W: "\<forall>i\<in>W. inst_ok M (sent_state_acked S) i" unfolding src_ok_def by blast
  obtain M' p' where m: "M \<subseteq>\<^sub>m M'" "tx_ok M' p' H S'" "sent_state_acked S' = sent_state_acked S"
    and e: "\<forall>i\<in>emitted r. inst_ok M' (sent_state_acked S') i" using tx_tick [OF tick tx inv room] by blast
  have W': "\<forall>i\<in>W. inst_ok M' (sent_state_acked S') i" unfolding m(3) using W inst_ok_mono [OF _ m(1) order_refl] by blast
  show "src_ok now H S' (W \<union> emitted r)"
    unfolding src_ok_def using sender_tick_inv [OF tick inv clk room] m(2) W' e by blast
  show "i = inst" if "i \<in> W" "r = Some inst" "same_header i inst"
    using inst_ok_same [OF _ _ that(3)] W' e that(1,2) by (auto simp: emitted_def)
qed

lemma src_frame:
  assumes "src_ok clk H S W" and "sender_inv clk' S'" and "sent_state_acked S' = sent_state_acked S"
    and "\<And>M p. tx_ok M p H S \<Longrightarrow> \<exists>p'. tx_ok M p' H' S'"
  shows "src_ok clk' H' S' W"
  using assms unfolding src_ok_def by metis

lemma src_timers:
  assumes "src_ok clk H S W" and "clk \<le> now"
  shows "src_ok now H (snd (sender_wait_time_ms ops S now timeout srtt remote)) W"
proof -
  have inv: "sender_inv clk S" using assms(1) by (simp add: src_ok_def)
  show ?thesis unfolding wait_time_state
    by (rule src_frame [OF assms(1) calculate_timers_inv [OF sender_inv_later [OF inv assms(2)]]])
       (use timers_acked [OF inv] tx_timers [OF _ inv] in blast)+
qed

lemma src_act:
  assumes "src_ok clk H S W" and "\<not> shutdown_in_progress S"
  shows "src_ok clk (hact x H) (set_current_state S (act x (current_state S))) W"
proof (rule src_frame [OF assms(1)])
  show "\<exists>p'. tx_ok M p' (hact x H) (set_current_state S (act x (current_state S)))" if "tx_ok M p H S" for M p
    using tx_act [OF that assms(2)] by blast
qed (use assms in \<open>auto simp: src_ok_def sender_inv_def set_current_state_def sent_state_acked_def\<close>)

lemma src_shutdown:
  assumes "src_ok clk H S W" and "clk \<le> now"
  shows "src_ok now H (sender_start_shutdown S now) W"
proof (rule src_frame [OF assms(1)])
  have "sender_inv now S" using assms sender_inv_later by (auto simp: src_ok_def)
  then show "sender_inv now (sender_start_shutdown S now)"
    by (auto simp: sender_inv_def sender_start_shutdown_def intro: hist_inv_later)
qed (auto simp: sent_state_acked_def dest: tx_shutdown)

lemma src_instruction:
  assumes ok: "src_ok clk H (tr_sender T) W" and pi: "process_instruction rops T inst nq now = (r, T')"
  shows "src_ok clk H (tr_sender T') W"
proof -
  let ?S = "tr_sender T" and ?a = "or0 (ack_num inst)"
  from ok obtain M p where inv: "sender_inv clk ?S" and tx: "tx_ok M p H ?S"
    and W: "\<forall>i\<in>W. inst_ok M (sent_state_acked ?S) i" unfolding src_ok_def by blast
  have h: "same_history ?S (tr_sender T') \<or> same_history (process_acknowledgment_through ?S ?a) (tr_sender T')"
    using process_instruction_sender [OF pi] .
  have "tx_ok M p H (tr_sender T')" using h tx tx_ack [OF tx inv] same_history_tx by blast
  moreover have "sent_state_acked ?S \<le> sent_state_acked (tr_sender T')"
    using h process_ack_hd_mono [OF inv] same_history_acked
    unfolding sent_state_acked_def by (metis order_refl)
  then have "\<forall>i\<in>W. inst_ok M (sent_state_acked (tr_sender T')) i"
    using W inst_ok_mono [OF _ map_le_refl] by blast
  ultimately show ?thesis
    unfolding src_ok_def using process_instruction_sender_inv [OF pi inv] by blast
qed

lemma src_new:
  assumes "home p" and "rep p H s"
  shows "src_ok now H (sender_new ops now s) {}"
proof -
  have "SHUTDOWN_NUM \<noteq> 0" by (simp add: SHUTDOWN_NUM_def)
  then have "tx_ok [0 \<mapsto> H] p H (sender_new ops now s)"
    using assms rep_clone [OF assms(2)] le_refl
    by (auto simp: tx_ok_def sender_new_def sent_state_last_def split: if_splits)
  then show ?thesis unfolding src_ok_def using sender_new_inv [of now ops s] by auto
qed

end

section \<open>The two ends and the network\<close>

text \<open>\<open>sent_ab\<close> and \<open>sent_ba\<close> are the datagrams each end has handed to its socket.\<close>

record ('s, 'c, 'h) dnet =
  the_net :: "('s, 'c, 'h) net"
  sent_ab :: "bytes set"
  sent_ba :: "bytes set"

datatype ('a, 'c) dgram_event =
    Local "('a, 'c) net_event"
  | SendA instant
  | SendB instant
  | DatagramA bytes socket_addr
  | DatagramB bytes socket_addr
  | HopA
  | HopB

text \<open>The instruction a tick hands to the connection.\<close>

definition tick_packet :: "'m state_ops \<Rightarrow> ('m, 'r) transport \<Rightarrow> instant \<Rightarrow> bytes \<Rightarrow> instruction option" where
  "tick_packet mops T now pad =
     fst (sender_tick mops (tr_sender T) now (conn_timeout (tr_connection T))
       (srtt_ms (conn_rtt (tr_connection T))) (has_remote_addr (tr_connection T)) pad)"

definition tick_room :: "codec \<Rightarrow> 'm state_ops \<Rightarrow> ('m, 'r) transport \<Rightarrow> instant \<Rightarrow> bytes \<Rightarrow> bool" where
  "tick_room Z mops T now pad \<longleftrightarrow> num_room (tr_sender T) \<and>
     (\<forall>inst. tick_packet mops T now pad = Some inst \<longrightarrow> frag_room Z (tr_connection T) inst)"

text \<open>
  What the network can come up with: it replays and reflects what it has seen, and without the key
  it produces nothing else that decrypts.
\<close>

definition can_arrive :: "ocb \<Rightarrow> bytes set \<Rightarrow> connection \<Rightarrow> bytes \<Rightarrow> bool" where
  "can_arrive C D c data \<longleftrightarrow> data \<in> D \<or> (\<exists>e. session_decrypt C (conn_session c) data = Inl e)"

text \<open>
  The steps of an end by itself: its state changes (never during a shutdown, which
  \<open>current_state_mut\<close> and \<open>set_current_state\<close> assert), its timers, its shutdown, its callers.
\<close>

definition local_step :: "('b \<Rightarrow> 'c \<Rightarrow> 'c) \<Rightarrow> ('s, 'c, 'h) net \<Rightarrow> ('a, 'c) net_event \<Rightarrow> ('s, 'c, 'h) net \<Rightarrow> bool" where
  "local_step bact N e N' \<longleftrightarrow>
     tr_connection (end_a N') = tr_connection (end_a N) \<and> tr_connection (end_b N') = tr_connection (end_b N) \<and>
     (case e of
        Act a \<Rightarrow> True | TimersA t \<Rightarrow> True | TimersB t \<Rightarrow> True | ShutdownA t \<Rightarrow> True | ShutdownB t \<Rightarrow> True
      | Consume \<Rightarrow> True
      | ActB x \<Rightarrow> \<not> shutdown_in_progress (tr_sender (end_b N)) \<and>
          (\<exists>y. x = bact y (current_state (tr_sender (end_b N))))
      | _ \<Rightarrow> False)"

inductive dgram_step ::
  "ocb \<Rightarrow> codec \<Rightarrow> 's state_ops \<Rightarrow> 'c state_ops \<Rightarrow> ('a \<Rightarrow> 's \<Rightarrow> 's) \<Rightarrow> ('a \<Rightarrow> 'h \<Rightarrow> 'h) \<Rightarrow> ('b \<Rightarrow> 'c \<Rightarrow> 'c) \<Rightarrow>
     ('s, 'c, 'h) dnet \<Rightarrow> ('a, 'c) dgram_event \<Rightarrow> ('s, 'c, 'h) dnet \<Rightarrow> bool"
  for C Z ops cops act hact bact where
  dgram_local: "net_step ops cops act hact (the_net W) e N' \<Longrightarrow> local_step bact (the_net W) e N' \<Longrightarrow>
    dgram_step C Z ops cops act hact bact W (Local e) (W\<lparr>the_net := N'\<rparr>)"
| dgram_send_a: "N = the_net W \<Longrightarrow> net_clock N \<le> now \<Longrightarrow> tick_room Z ops (end_a N) now pad \<Longrightarrow>
    transport_tick C Z os ops (end_a N) wall now now_send pad = Some (r, wires, T) \<Longrightarrow>
    dgram_step C Z ops cops act hact bact W (SendA now)
      (W\<lparr>the_net := N\<lparr>net_clock := now, end_a := T,
            wire_ab := wire_ab N \<union> emitted (tick_packet ops (end_a N) now pad)\<rparr>,
         sent_ab := sent_ab W \<union> set wires\<rparr>)"
| dgram_send_b: "N = the_net W \<Longrightarrow> net_clock N \<le> now \<Longrightarrow> tick_room Z cops (end_b N) now pad \<Longrightarrow>
    transport_tick C Z os cops (end_b N) wall now now_send pad = Some (r, wires, T) \<Longrightarrow>
    dgram_step C Z ops cops act hact bact W (SendB now)
      (W\<lparr>the_net := N\<lparr>net_clock := now, end_b := T,
            wire_ba := wire_ba N \<union> emitted (tick_packet cops (end_b N) now pad)\<rparr>,
         sent_ba := sent_ba W \<union> set wires\<rparr>)"
| dgram_receive_a: "N = the_net W \<Longrightarrow>
    can_arrive C (sent_ab W \<union> sent_ba W) (tr_connection (end_a N)) data \<Longrightarrow>
    process_datagram C Z cops (end_a N) wall now data peer = (r, T) \<Longrightarrow>
    dgram_step C Z ops cops act hact bact W (DatagramA data peer) (W\<lparr>the_net := N\<lparr>end_a := T\<rparr>\<rparr>)"
| dgram_receive_b: "N = the_net W \<Longrightarrow>
    can_arrive C (sent_ab W \<union> sent_ba W) (tr_connection (end_b N)) data \<Longrightarrow>
    process_datagram C Z ops (end_b N) wall now data peer = (r, T) \<Longrightarrow>
    dgram_step C Z ops cops act hact bact W (DatagramB data peer) (W\<lparr>the_net := N\<lparr>end_b := T\<rparr>\<rparr>)"
| dgram_hop_a: "N = the_net W \<Longrightarrow> transport_hop_port (end_a N) bound now = (r, T) \<Longrightarrow>
    dgram_step C Z ops cops act hact bact W HopA (W\<lparr>the_net := N\<lparr>end_a := T\<rparr>\<rparr>)"
| dgram_hop_b: "N = the_net W \<Longrightarrow> transport_hop_port (end_b N) bound now = (r, T) \<Longrightarrow>
    dgram_step C Z ops cops act hact bact W HopB (W\<lparr>the_net := N\<lparr>end_b := T\<rparr>\<rparr>)"

section \<open>The link below the transports\<close>

definition link_ok ::
  "ocb \<Rightarrow> codec \<Rightarrow> connection \<Rightarrow> instruction set \<Rightarrow> bytes set \<Rightarrow> connection \<Rightarrow> instruction set \<Rightarrow> bytes set \<Rightarrow> bool" where
  "link_ok C Z c W D c' W' D' \<longleftrightarrow>
     length (cipher_key (conn_session c)) = 16 \<and>
     cipher_key (conn_session c') = cipher_key (conn_session c) \<and> is_server c' \<noteq> is_server c \<and>
     (\<exists>K. chan_ok C Z (cipher_key (conn_session c)) (is_server c) W D (fragger c) (assembler c') K) \<and>
     (\<exists>K. chan_ok C Z (cipher_key (conn_session c)) (is_server c') W' D' (fragger c') (assembler c) K)"

lemma link_sym: "link_ok C Z c W D c' W' D' \<longleftrightarrow> link_ok C Z c' W' D' c W D"
  unfolding link_ok_def by metis

definition same_link :: "connection \<Rightarrow> connection \<Rightarrow> bool" where
  "same_link c c' \<longleftrightarrow> same_sending c c' \<and> assembler c' = assembler c"

lemma link_same: "link_ok C Z c W D c' W' D' \<Longrightarrow> same_link c e \<Longrightarrow> link_ok C Z e W D c' W' D'"
  unfolding link_ok_def same_link_def same_sending_def by (elim conjE) simp

lemma link_send:
  assumes ok: "link_ok C Z c W D c' W' D'" and laws: "ocb_laws C" "codec_laws Z" and room: "frag_room Z c inst"
    and det: "\<And>i. i \<in> W \<Longrightarrow> same_header i inst \<Longrightarrow> i = inst"
    and send: "conn_send C Z os wall now c inst = Some (r, wires, e)"
  shows "link_ok C Z e (insert inst W) (D \<union> set wires) c' W' D'"
proof -
  from ok obtain K where key: "length (cipher_key (conn_session c)) = 16"
    and ch: "chan_ok C Z (cipher_key (conn_session c)) (is_server c) W D (fragger c) (assembler c') K"
    unfolding link_ok_def by blast
  have "i = inst" if "last_instruction (fragger c) = Some i" "same_header i inst" for i
    using ch that det unfolding chan_ok_def by blast
  from chan_send [OF ch laws key room this send] ok show ?thesis unfolding link_ok_def by auto
qed

lemma link_receive:
  assumes ok: "link_ok C Z c W D c' W' D'" and laws: "ocb_laws C" "codec_laws Z"
    and arr: "can_arrive C (D \<union> D') c data"
    and recv: "process_incoming C Z c wall n1 n2 data peer = (r, e)"
  shows "link_ok C Z e W D c' W' D' \<and> (\<forall>i. r = Inr (Some i) \<longrightarrow> i \<in> W')"
proof -
  let ?key = "cipher_key (conn_session c)"
  from ok obtain K K' where key: "length ?key = 16" and role: "is_server c \<noteq> is_server c'"
    and ch: "chan_ok C Z ?key (is_server c) W D (fragger c) (assembler c') K"
    and ch': "chan_ok C Z ?key (is_server c') W' D' (fragger c') (assembler c) K'"
    unfolding link_ok_def by metis
  show ?thesis
  proof (cases "data \<in> D'")
    case True
    from chan_receive [OF ch' laws key refl role True recv]
    have e: "chan_ok C Z ?key (is_server c') W' D' (fragger c') (assembler e) K'" "same_sending c e"
      and r: "r = Inr None \<or> (\<exists>i\<in>W'. r = Inr (Some i))" by blast+
    have "link_ok C Z e W D c' W' D'"
      using ok e ch unfolding link_ok_def same_sending_def by auto
    then show ?thesis using r by auto
  next
    case False
    have "(\<exists>f. carries C ?key (is_server c) data f) \<or> (\<exists>x. session_decrypt C (conn_session c) data = Inl x)"
      using arr ch False unfolding can_arrive_def chan_ok_def by blast
    from chan_refuse [OF laws(1) key refl this recv] show ?thesis using ok by auto
  qed
qed

lemma process_instruction_link:
  assumes "process_instruction rops T inst nq now = (r, T')"
  shows "same_link (tr_connection T) (tr_connection T')"
proof -
  have "tr_connection T' = tr_connection T \<or> tr_connection T' = rx_conn T inst"
  proof (cases "protocol_version inst = Some MORSH_PROTOCOL_VERSION")
    case True
    then show ?thesis using process_instruction_cases [OF assms True] by (auto simp: rx_skip_def rx_build_def)
  next
    case False
    then show ?thesis using assms by (simp add: process_instruction_mismatch)
  qed
  then show ?thesis
    by (auto simp: same_link_def same_sending_def set_last_roundtrip_success_def rx_conn_def)
qed

lemma hop_link: "transport_hop_port T bound now = (r, T') \<Longrightarrow>
   T' = T\<lparr>tr_connection := tr_connection T'\<rparr> \<and> same_link (tr_connection T) (tr_connection T')"
  by (auto simp: transport_hop_port_def hop_port_def same_link_def same_sending_def split: option.splits)

text \<open>A tick, seen from the link and from the protocol above it.\<close>

lemma tick_cases:
  assumes "transport_tick C Z os mops T wall now now_send pad = Some (r, wires, T')"
  obtains S c' where
    "sender_tick mops (tr_sender T) now (conn_timeout (tr_connection T)) (srtt_ms (conn_rtt (tr_connection T)))
       (has_remote_addr (tr_connection T)) pad = (tick_packet mops T now pad, S)"
    "T' = T\<lparr>tr_sender := S, tr_connection := c'\<rparr>"
    "case tick_packet mops T now pad of None \<Rightarrow> c' = tr_connection T \<and> wires = []
     | Some inst \<Rightarrow> conn_send C Z os wall now_send (tr_connection T) inst = Some (r, wires, c')"
  using assms
  by (cases "sender_tick mops (tr_sender T) now (conn_timeout (tr_connection T))
        (srtt_ms (conn_rtt (tr_connection T))) (has_remote_addr (tr_connection T)) pad")
     (auto simp: transport_tick_def tick_packet_def Let_def split: option.splits)

lemma datagram_cases:
  assumes "process_datagram C Z rops T wall now data peer = (r, T')"
  obtains (conn) e c where "process_incoming C Z (tr_connection T) wall now now data peer = (e, c)"
      "T' = T\<lparr>tr_connection := c\<rparr>"
    | (inst) i c where "process_incoming C Z (tr_connection T) wall now now data peer = (Inr (Some i), c)"
      "process_instruction rops (T\<lparr>tr_connection := c\<rparr>) i now now = (r, T')"
  using assms by (auto simp: process_datagram_def split: prod.splits sum.splits option.splits)

lemma link_tick:
  assumes ok: "link_ok C Z (tr_connection T) W D c' W' D'" and laws: "ocb_laws C" "codec_laws Z"
    and room: "tick_room Z mops T now pad"
    and det: "\<And>i inst. i \<in> W \<Longrightarrow> tick_packet mops T now pad = Some inst \<Longrightarrow> same_header i inst \<Longrightarrow> i = inst"
    and tick: "transport_tick C Z os mops T wall now now_send pad = Some (r, wires, T')"
  shows "link_ok C Z (tr_connection T') (W \<union> emitted (tick_packet mops T now pad)) (D \<union> set wires) c' W' D'"
proof -
  from tick obtain S e where T': "T' = T\<lparr>tr_sender := S, tr_connection := e\<rparr>"
    and c: "case tick_packet mops T now pad of None \<Rightarrow> e = tr_connection T \<and> wires = []
     | Some inst \<Rightarrow> conn_send C Z os wall now_send (tr_connection T) inst = Some (r, wires, e)"
    by (rule tick_cases)
  show ?thesis
  proof (cases "tick_packet mops T now pad")
    case None
    then show ?thesis using c ok by (simp add: T' emitted_def)
  next
    case (Some inst)
    have s: "conn_send C Z os wall now_send (tr_connection T) inst = Some (r, wires, e)" using c Some by simp
    have fr: "frag_room Z (tr_connection T) inst" using room Some by (simp add: tick_room_def)
    show ?thesis using link_send [OF ok laws fr det [OF _ Some] s] Some by (simp add: T' emitted_def)
  qed
qed

lemma link_datagram:
  assumes ok: "link_ok C Z (tr_connection T) W D c' W' D'" and laws: "ocb_laws C" "codec_laws Z"
    and arr: "can_arrive C (D \<union> D') (tr_connection T) data"
    and dg: "process_datagram C Z rops T wall now data peer = (r, T')"
  shows "link_ok C Z (tr_connection T') W D c' W' D'"
    and "(\<exists>c. T' = T\<lparr>tr_connection := c\<rparr>) \<or>
      (\<exists>i\<in>W'. \<exists>c. process_instruction rops (T\<lparr>tr_connection := c\<rparr>) i now now = (r, T'))"
proof -
  show "link_ok C Z (tr_connection T') W D c' W' D'"
    using dg
  proof (cases rule: datagram_cases)
    case (conn e c)
    then show ?thesis using link_receive [OF ok laws arr conn(1)] by simp
  next
    case (inst i c)
    have "link_ok C Z c W D c' W' D'" using link_receive [OF ok laws arr inst(1)] by simp
    then show ?thesis using link_same process_instruction_link [OF inst(2)] by simp
  qed
  show "(\<exists>c. T' = T\<lparr>tr_connection := c\<rparr>) \<or>
      (\<exists>i\<in>W'. \<exists>c. process_instruction rops (T\<lparr>tr_connection := c\<rparr>) i now now = (r, T'))"
    using dg
  proof (cases rule: datagram_cases)
    case (inst i c)
    then show ?thesis using link_receive [OF ok laws arr inst(1)] by blast
  qed blast
qed

section \<open>Refinement\<close>

locale two_way = up: source ops rep le cut home act hact + down: source cops brep ble bcut bhome bact bhact
  for ops :: "'s state_ops" and rep :: "'p \<Rightarrow> 'h \<Rightarrow> 's \<Rightarrow> bool" and le :: "'h \<Rightarrow> 'h \<Rightarrow> bool"
    and cut :: "'h \<Rightarrow> 'p" and home :: "'p \<Rightarrow> bool" and act :: "'a \<Rightarrow> 's \<Rightarrow> 's" and hact :: "'a \<Rightarrow> 'h \<Rightarrow> 'h"
    and cops :: "'c state_ops" and brep :: "'bp \<Rightarrow> 'bh \<Rightarrow> 'c \<Rightarrow> bool" and ble :: "'bh \<Rightarrow> 'bh \<Rightarrow> bool"
    and bcut :: "'bh \<Rightarrow> 'bp" and bhome :: "'bp \<Rightarrow> bool" and bact :: "'b \<Rightarrow> 'c \<Rightarrow> 'c" and bhact :: "'b \<Rightarrow> 'bh \<Rightarrow> 'bh"
begin

definition two_ok :: "ocb \<Rightarrow> codec \<Rightarrow> ('s, 'c, 'h) dnet \<Rightarrow> bool" where
  "two_ok C Z W \<longleftrightarrow>
     link_ok C Z (tr_connection (end_a (the_net W))) (wire_ab (the_net W)) (sent_ab W)
       (tr_connection (end_b (the_net W))) (wire_ba (the_net W)) (sent_ba W) \<and>
     up.src_ok (net_clock (the_net W)) (made (the_net W)) (tr_sender (end_a (the_net W))) (wire_ab (the_net W)) \<and>
     (\<exists>H. down.src_ok (net_clock (the_net W)) H (tr_sender (end_b (the_net W))) (wire_ba (the_net W)))"

lemma local_ok:
  assumes ok: "two_ok C Z W" and net: "net_step ops cops act hact (the_net W) e N'"
    and loc: "local_step bact (the_net W) e N'"
  shows "two_ok C Z (W\<lparr>the_net := N'\<rparr>)"
proof -
  let ?N = "the_net W"
  from ok obtain H where l: "link_ok C Z (tr_connection (end_a ?N)) (wire_ab ?N) (sent_ab W)
       (tr_connection (end_b ?N)) (wire_ba ?N) (sent_ba W)"
    and a: "up.src_ok (net_clock ?N) (made ?N) (tr_sender (end_a ?N)) (wire_ab ?N)"
    and b: "down.src_ok (net_clock ?N) H (tr_sender (end_b ?N)) (wire_ba ?N)" unfolding two_ok_def by blast
  have c: "tr_connection (end_a N') = tr_connection (end_a ?N)" "tr_connection (end_b N') = tr_connection (end_b ?N)"
    using loc by (simp_all add: local_step_def)
  have "wire_ab N' = wire_ab ?N \<and> wire_ba N' = wire_ba ?N \<and>
      up.src_ok (net_clock N') (made N') (tr_sender (end_a N')) (wire_ab N') \<and>
      (\<exists>H. down.src_ok (net_clock N') H (tr_sender (end_b N')) (wire_ba N'))"
    using net
  proof cases
    case (step_act x)
    then show ?thesis using up.src_act [OF a step_act(3)] b by auto
  next
    case (step_timers_a now c timeout srtt remote)
    then show ?thesis using up.src_timers [OF a step_timers_a(3)] down.src_later [OF b step_timers_a(3)] by auto
  next
    case (step_shutdown_a now)
    then show ?thesis
      using up.src_shutdown [OF a step_shutdown_a(3)] down.src_later [OF b step_shutdown_a(3)]
      by (auto simp: up.shutdown_sender)
  next
    case (step_act_b x)
    then obtain y where x: "x = bact y (current_state (tr_sender (end_b ?N)))"
      and run: "\<not> shutdown_in_progress (tr_sender (end_b ?N))"
      using loc by (auto simp: local_step_def)
    then show ?thesis using down.src_act [OF b run, of y] a step_act_b by auto
  next
    case (step_timers_b now c timeout srtt remote)
    then show ?thesis using down.src_timers [OF b step_timers_b(3)] up.src_later [OF a step_timers_b(3)] by auto
  next
    case (step_shutdown_b now)
    then show ?thesis
      using down.src_shutdown [OF b step_shutdown_b(3)] up.src_later [OF a step_shutdown_b(3)]
      by (auto simp: up.shutdown_sender)
  next
    case (step_consume d T)
    then have "tr_sender T = tr_sender (end_b ?N)" by (auto simp: get_remote_diff_def Let_def)
    then show ?thesis using a b step_consume by auto
  qed (use loc in \<open>auto simp: local_step_def\<close>)
  then show ?thesis using l c unfolding two_ok_def by auto
qed

text \<open>Every step over datagrams is a step over instructions; local steps are the same ones.\<close>

lemma send_a_refines:
  assumes ok: "two_ok C Z W" and laws: "ocb_laws C" "codec_laws Z"
    and N: "N = the_net W" and clk: "net_clock N \<le> now" and room: "tick_room Z ops (end_a N) now pad"
    and tick: "transport_tick C Z os ops (end_a N) wall now now_send pad = Some (r, wires, T)"
    and W': "W' = W\<lparr>the_net := N\<lparr>net_clock := now, end_a := T,
            wire_ab := wire_ab N \<union> emitted (tick_packet ops (end_a N) now pad)\<rparr>,
         sent_ab := sent_ab W \<union> set wires\<rparr>"
  shows "two_ok C Z W' \<and> net_step ops cops act hact N (TickA now) (the_net W')"
proof -
  let ?c = "tr_connection (end_a N)"
  from ok obtain H where l: "link_ok C Z ?c (wire_ab N) (sent_ab W)
       (tr_connection (end_b N)) (wire_ba N) (sent_ba W)"
    and a: "up.src_ok (net_clock N) (made N) (tr_sender (end_a N)) (wire_ab N)"
    and b: "down.src_ok (net_clock N) H (tr_sender (end_b N)) (wire_ba N)" unfolding two_ok_def N by blast
  from tick obtain S e where st: "sender_tick ops (tr_sender (end_a N)) now (conn_timeout ?c) (srtt_ms (conn_rtt ?c))
      (has_remote_addr ?c) pad = (tick_packet ops (end_a N) now pad, S)"
    and T: "T = (end_a N)\<lparr>tr_sender := S, tr_connection := e\<rparr>" by (rule tick_cases)
  have nr: "num_room (tr_sender (end_a N))" using room by (simp add: tick_room_def)
  note s = up.src_tick [OF a clk nr st]
  have "two_ok C Z W'"
    using link_tick [OF l laws room s(2) tick] s(1) down.src_later [OF b clk] unfolding two_ok_def W' T by auto
  moreover have "net_step ops cops act hact N (TickA now) (the_net W')"
    unfolding W' T using step_tick_a [OF clk nr st] by simp
  ultimately show ?thesis by blast
qed

lemma send_b_refines:
  assumes ok: "two_ok C Z W" and laws: "ocb_laws C" "codec_laws Z"
    and N: "N = the_net W" and clk: "net_clock N \<le> now" and room: "tick_room Z cops (end_b N) now pad"
    and tick: "transport_tick C Z os cops (end_b N) wall now now_send pad = Some (r, wires, T)"
    and W': "W' = W\<lparr>the_net := N\<lparr>net_clock := now, end_b := T,
            wire_ba := wire_ba N \<union> emitted (tick_packet cops (end_b N) now pad)\<rparr>,
         sent_ba := sent_ba W \<union> set wires\<rparr>"
  shows "two_ok C Z W' \<and> net_step ops cops act hact N (TickB now) (the_net W')"
proof -
  let ?c = "tr_connection (end_b N)"
  from ok obtain H where l: "link_ok C Z ?c (wire_ba N) (sent_ba W)
       (tr_connection (end_a N)) (wire_ab N) (sent_ab W)"
    and a: "up.src_ok (net_clock N) (made N) (tr_sender (end_a N)) (wire_ab N)"
    and b: "down.src_ok (net_clock N) H (tr_sender (end_b N)) (wire_ba N)"
    unfolding two_ok_def N by (metis link_sym)
  from tick obtain S e where st: "sender_tick cops (tr_sender (end_b N)) now (conn_timeout ?c) (srtt_ms (conn_rtt ?c))
      (has_remote_addr ?c) pad = (tick_packet cops (end_b N) now pad, S)"
    and T: "T = (end_b N)\<lparr>tr_sender := S, tr_connection := e\<rparr>" by (rule tick_cases)
  have nr: "num_room (tr_sender (end_b N))" using room by (simp add: tick_room_def)
  note s = down.src_tick [OF b clk nr st]
  have "two_ok C Z W'"
    using link_tick [OF l laws room s(2) tick, THEN link_sym [THEN iffD1]] s(1) up.src_later [OF a clk]
    unfolding two_ok_def W' T by auto
  moreover have "net_step ops cops act hact N (TickB now) (the_net W')"
    unfolding W' T using step_tick_b [OF clk nr st] by simp
  ultimately show ?thesis by blast
qed

lemma receive_a_refines:
  assumes ok: "two_ok C Z W" and laws: "ocb_laws C" "codec_laws Z" and N: "N = the_net W"
    and arr: "can_arrive C (sent_ab W \<union> sent_ba W) (tr_connection (end_a N)) data"
    and dg: "process_datagram C Z cops (end_a N) wall now data peer = (r, T)"
  shows "two_ok C Z (W\<lparr>the_net := N\<lparr>end_a := T\<rparr>\<rparr>) \<and>
    (net_step ops cops act hact N ConnA (N\<lparr>end_a := T\<rparr>) \<or>
     (\<exists>inst. net_step ops cops act hact N (RecvA inst) (N\<lparr>end_a := T\<rparr>)))"
proof -
  from ok obtain H where l: "link_ok C Z (tr_connection (end_a N)) (wire_ab N) (sent_ab W)
       (tr_connection (end_b N)) (wire_ba N) (sent_ba W)"
    and a: "up.src_ok (net_clock N) (made N) (tr_sender (end_a N)) (wire_ab N)"
    and b: "down.src_ok (net_clock N) H (tr_sender (end_b N)) (wire_ba N)" unfolding two_ok_def N by blast
  note d = link_datagram [OF l laws arr dg]
  have rest: "two_ok C Z (W\<lparr>the_net := N\<lparr>end_a := T\<rparr>\<rparr>)"
    if "up.src_ok (net_clock N) (made N) (tr_sender T) (wire_ab N)"
    using that d(1) b unfolding two_ok_def by auto
  from d(2) show ?thesis
  proof (elim disjE exE bexE)
    fix c assume T: "T = (end_a N)\<lparr>tr_connection := c\<rparr>"
    then show ?thesis using rest a step_conn_a [of ops cops act hact N c] by simp
  next
    fix i c assume i: "i \<in> wire_ba N" and p: "process_instruction cops ((end_a N)\<lparr>tr_connection := c\<rparr>) i now now = (r, T)"
    have "up.src_ok (net_clock N) (made N) (tr_sender T) (wire_ab N)"
      using up.src_instruction [OF _ p] a by simp
    then show ?thesis using rest step_recv_a [OF i p] by blast
  qed
qed

lemma receive_b_refines:
  assumes ok: "two_ok C Z W" and laws: "ocb_laws C" "codec_laws Z" and N: "N = the_net W"
    and arr: "can_arrive C (sent_ab W \<union> sent_ba W) (tr_connection (end_b N)) data"
    and dg: "process_datagram C Z ops (end_b N) wall now data peer = (r, T)"
  shows "two_ok C Z (W\<lparr>the_net := N\<lparr>end_b := T\<rparr>\<rparr>) \<and>
    (net_step ops cops act hact N ConnB (N\<lparr>end_b := T\<rparr>) \<or>
     (\<exists>inst. net_step ops cops act hact N (RecvB inst) (N\<lparr>end_b := T\<rparr>)))"
proof -
  from ok obtain H where l: "link_ok C Z (tr_connection (end_b N)) (wire_ba N) (sent_ba W)
       (tr_connection (end_a N)) (wire_ab N) (sent_ab W)"
    and a: "up.src_ok (net_clock N) (made N) (tr_sender (end_a N)) (wire_ab N)"
    and b: "down.src_ok (net_clock N) H (tr_sender (end_b N)) (wire_ba N)"
    unfolding two_ok_def N by (metis link_sym)
  note d = link_datagram [OF l laws arr [unfolded Un_commute [of "sent_ab W"]] dg]
  have rest: "two_ok C Z (W\<lparr>the_net := N\<lparr>end_b := T\<rparr>\<rparr>)"
    if "down.src_ok (net_clock N) H (tr_sender T) (wire_ba N)"
    using that d(1) [THEN link_sym [THEN iffD1]] a unfolding two_ok_def by auto
  from d(2) show ?thesis
  proof (elim disjE exE bexE)
    fix c assume T: "T = (end_b N)\<lparr>tr_connection := c\<rparr>"
    then show ?thesis using rest b step_conn_b [of ops cops act hact N c] by simp
  next
    fix i c assume i: "i \<in> wire_ab N" and p: "process_instruction ops ((end_b N)\<lparr>tr_connection := c\<rparr>) i now now = (r, T)"
    have "down.src_ok (net_clock N) H (tr_sender T) (wire_ba N)"
      using down.src_instruction [OF _ p] b by simp
    then show ?thesis using rest step_recv_b [OF i p] by blast
  qed
qed

lemma hop_refines:
  assumes ok: "two_ok C Z W" and N: "N = the_net W"
  shows "transport_hop_port (end_a N) bound now = (r, T) \<Longrightarrow>
      two_ok C Z (W\<lparr>the_net := N\<lparr>end_a := T\<rparr>\<rparr>) \<and> net_step ops cops act hact N ConnA (N\<lparr>end_a := T\<rparr>)"
    and "transport_hop_port (end_b N) bound now = (r', T') \<Longrightarrow>
      two_ok C Z (W\<lparr>the_net := N\<lparr>end_b := T'\<rparr>\<rparr>) \<and> net_step ops cops act hact N ConnB (N\<lparr>end_b := T'\<rparr>)"
proof -
  assume h: "transport_hop_port (end_a N) bound now = (r, T)"
  obtain c where T: "T = (end_a N)\<lparr>tr_connection := c\<rparr>" and c: "same_link (tr_connection (end_a N)) c"
    using hop_link [OF h] by (metis transport.select_convs(1) transport.surjective transport.update_convs(1))
  show "two_ok C Z (W\<lparr>the_net := N\<lparr>end_a := T\<rparr>\<rparr>) \<and> net_step ops cops act hact N ConnA (N\<lparr>end_a := T\<rparr>)"
    using ok link_same [OF _ c] step_conn_a [of ops cops act hact N c] unfolding two_ok_def N T by auto
next
  assume h: "transport_hop_port (end_b N) bound now = (r', T')"
  obtain c where T: "T' = (end_b N)\<lparr>tr_connection := c\<rparr>" and c: "same_link (tr_connection (end_b N)) c"
    using hop_link [OF h] by (metis transport.select_convs(1) transport.surjective transport.update_convs(1))
  have "link_ok C Z (tr_connection (end_a N)) (wire_ab N) (sent_ab W) c (wire_ba N) (sent_ba W)"
    using ok link_same [OF _ c] unfolding two_ok_def N by (metis link_sym)
  then show "two_ok C Z (W\<lparr>the_net := N\<lparr>end_b := T'\<rparr>\<rparr>) \<and> net_step ops cops act hact N ConnB (N\<lparr>end_b := T'\<rparr>)"
    using ok step_conn_b [of ops cops act hact N c] unfolding two_ok_def N T by auto
qed

theorem dgram_step_refines:
  assumes "two_ok C Z W" and "ocb_laws C" and "codec_laws Z"
    and "dgram_step C Z ops cops act hact bact W e W'"
  shows "two_ok C Z W' \<and> (\<exists>x. net_step ops cops act hact (the_net W) x (the_net W') \<and>
    (case e of Local y \<Rightarrow> x = y | _ \<Rightarrow> x \<noteq> Consume \<and> (\<forall>a. x \<noteq> Act a) \<and> (\<forall>t. x \<noteq> ShutdownA t)))"
  using assms(4)
proof cases
  case (dgram_local y N')
  then show ?thesis using local_ok [OF assms(1)] by auto
next
  case (dgram_send_a N now pad os wall now_send r wires T)
  then show ?thesis using send_a_refines [OF assms(1-3) dgram_send_a(3-6,2)] by auto
next
  case (dgram_send_b N now pad os wall now_send r wires T)
  then show ?thesis using send_b_refines [OF assms(1-3) dgram_send_b(3-6,2)] by auto
next
  case (dgram_receive_a N data wall now peer r T)
  then show ?thesis using receive_a_refines [OF assms(1-3) dgram_receive_a(3-5)] by auto
next
  case (dgram_receive_b N data wall now peer r T)
  then show ?thesis using receive_b_refines [OF assms(1-3) dgram_receive_b(3-5)] by auto
next
  case (dgram_hop_a N bound now r T)
  then show ?thesis using hop_refines(1) [OF assms(1) dgram_hop_a(3,4)] by auto
next
  case (dgram_hop_b N bound now r T)
  then show ?thesis using hop_refines(2) [OF assms(1) dgram_hop_b(3,4)] by auto
qed

end

end
