(* ===== verification/Hostile_Network.thy ===== *)
theory Hostile_Network
  imports Datagrams Client_Properties Screens
begin

text \<open>
  Whole sessions over datagrams, as \<open>main.rs\<close> of the client and \<open>server.rs\<close> set them up: two fresh
  connections that share a key, over a network that loses, repeats, reorders, reflects and forges
  datagrams. \<open>wire_run\<close> is the keyboard-to-shell run of theory \<open>Keyboard\<close>, \<open>screen_run\<close> the
  screen session of theory \<open>Screen_Sync\<close>, each on the wire.
\<close>

section \<open>The two states as sources\<close>

abbreviation version_rep :: "unit \<Rightarrow> version \<Rightarrow> 't complete \<Rightarrow> bool" where
  "version_rep \<equiv> \<lambda>_ v s. version_of s = v"

text \<open>A screen state stands for its version, whatever becomes of its emulator.\<close>

lemma complete_source:
  fixes em :: "'t emulator"
  shows "source (complete_ops em H) version_rep (\<lambda>_ _. True) (\<lambda>_. ()) (\<lambda>_. True) (\<lambda>x _. x) (\<lambda>x _. version_of x)"
proof
  show "state_equal (complete_ops em H) s t \<longleftrightarrow> h = g" if "version_of s = h" "version_of t = g" for s t :: "'t complete" and g h
    using that by (auto simp: complete_ops_def complete_state_equal_def version_of_def)
  show "diff_from (complete_ops em H) s t = diff_from (complete_ops em H) s' t'"
    if "version_of s = h" "version_of t = g" "version_of s' = h" "version_of t' = g" for s t s' t' :: "'t complete" and g h
    using that by (auto simp: complete_ops_def complete_diff_from_def version_of_def)
qed (simp_all add: complete_ops_def complete_clone_def version_of_def)

lemma typing_two_way:
  assumes "user_codec_laws U"
  shows "two_way (user_ops U) user_rep prefix length (\<lambda>_. True) user_act hist_act
    (complete_ops em H) version_rep (\<lambda>_ _. True) (\<lambda>_. ()) (\<lambda>_. True) (\<lambda>x _. x) (\<lambda>x _. version_of x)"
  by (rule two_way.intro [OF user_source [OF assms] complete_source])

interpretation typing: two_way "user_ops pb_user" user_rep prefix length "\<lambda>_. True" user_act hist_act
    "complete_ops em H" version_rep "\<lambda>_ _. True" "\<lambda>_. ()" "\<lambda>_. True" "\<lambda>x _. x" "\<lambda>x _. version_of x"
  for em :: "'t emulator" and H
  by (rule typing_two_way [OF pb_user_laws])

lemma showing_two_way:
  assumes "user_codec_laws U"
  shows "two_way (complete_ops em H) version_rep (\<lambda>_ _. True) (\<lambda>_. ()) (\<lambda>_. True) (\<lambda>x _. x) (\<lambda>x _. version_of x)
    (user_ops U) user_rep prefix length (\<lambda>_. True) user_act hist_act"
  by (rule two_way.intro [OF complete_source user_source [OF assms]])

section \<open>Fresh connections\<close>

text \<open>The connection of an end: the client has been told the server's address, the server learns its peer's.\<close>

definition connected :: "bytes \<Rightarrow> bool \<Rightarrow> connection \<Rightarrow> bool" where
  "connected key server c \<longleftrightarrow> length key = 16 \<and>
     (\<exists>sock t addr. c = connection_build sock (session_new key) server t \<or>
        c = set_remote_addr (connection_build sock (session_new key) server t) addr)"

definition fresh_link :: "bytes \<Rightarrow> bool \<Rightarrow> ('s, 'c, 'h) dnet \<Rightarrow> bool" where
  "fresh_link key a_is_server W \<longleftrightarrow> sent_ab W = {} \<and> sent_ba W = {} \<and>
     connected key a_is_server (tr_connection (end_a (the_net W))) \<and>
     connected key (\<not> a_is_server) (tr_connection (end_b (the_net W)))"

lemma fresh_link_ok:
  assumes "fresh_link key role W" and "wire_ab (the_net W) = {}" and "wire_ba (the_net W) = {}"
  shows "link_ok C Z (tr_connection (end_a (the_net W))) (wire_ab (the_net W)) (sent_ab W)
       (tr_connection (end_b (the_net W))) (wire_ba (the_net W)) (sent_ba W)"
proof -
  have f: "cipher_key (conn_session c) = key \<and> length key = 16 \<and> is_server c = server \<and> fragger c = fragmenter_new \<and>
      assembler c = assembly_new" if "connected key server c" for server c
    using that by (auto simp: connected_def connection_build_def set_remote_addr_def session_new_def)
  have a: "connected key role (tr_connection (end_a (the_net W)))" and b: "connected key (\<not> role) (tr_connection (end_b (the_net W)))"
    and w: "sent_ab W = {}" "sent_ba W = {}" using assms(1) by (simp_all add: fresh_link_def)
  have "\<exists>K. chan_ok C Z key r {} {} fragmenter_new assembly_new K" for r using chan_start by blast
  then show ?thesis unfolding link_ok_def assms(2,3) w using f [OF a] f [OF b] by simp
qed

section \<open>Typing over datagrams\<close>

abbreviation typing_step where
  "typing_step C Z em H U \<equiv> dgram_step C Z (user_ops U) (complete_ops em H) user_act hist_act (\<lambda>x _. x)"

abbreviation typing_ok where
  "typing_ok C Z em H U \<equiv> two_way.two_ok (user_ops U) user_rep prefix (\<lambda>_. True)
     (complete_ops em H) version_rep (\<lambda>_ _. True) (\<lambda>_. True) C Z"

text \<open>\<open>wire_run\<close> is \<open>whole_run\<close> with the network's steps on the wire.\<close>

inductive wire_run ::
  "ocb \<Rightarrow> codec \<Rightarrow> bytes \<Rightarrow> 't emulator \<Rightarrow> host_codec \<Rightarrow> user_codec \<Rightarrow> i32 \<Rightarrow> i32 \<Rightarrow>
     (user_stream, 't complete, user_event list) dnet \<Rightarrow> user_event list option \<Rightarrow> pty_action list \<Rightarrow> u64 \<Rightarrow>
     term_event list \<Rightarrow> bool"
  for C Z key em H U w h where
  wire_start: "session_start U (complete_ops em H) w h (the_net W) \<Longrightarrow> fresh_link key False W \<Longrightarrow>
    wire_run C Z key em H U w h W None [] 0 []"
| wire_net: "wire_run C Z key em H U w h W f log n evs \<Longrightarrow> typing_step C Z em H U W e W' \<Longrightarrow>
    e \<noteq> Local Consume \<Longrightarrow> \<forall>a. e \<noteq> Local (Act a) \<Longrightarrow> \<forall>t. e \<noteq> Local (ShutdownA t) \<Longrightarrow>
    wire_run C Z key em H U w h W' f log n evs"
| wire_first: "wire_run C Z key em H U w h W None log n evs \<Longrightarrow> N = the_net W \<Longrightarrow>
    get_remote_state_num (end_b N) \<noteq> 0 \<Longrightarrow> start_handler em U (end_b N) = Some (Inr hdl) \<Longrightarrow>
    wire_run C Z key em H U w h (W\<lparr>the_net := taken U (srv_transport hdl) N\<rparr>)
      (Some (diff_events U (fst (get_remote_diff (user_ops U) (end_b N))))) (pty_log hdl) (last_remote_num hdl) evs"
| wire_input: "wire_run C Z key em H U w h W (Some f) log n evs \<Longrightarrow> N = the_net W \<Longrightarrow>
    handle_client_input em U now \<lparr>srv_transport = end_b N, pty_log = log, last_remote_num = n\<rparr> = Some hdl \<Longrightarrow>
    wire_run C Z key em H U w h
      (W\<lparr>the_net := (if get_remote_state_num (end_b N) = n then N else taken U (srv_transport hdl) N)\<rparr>)
      (Some f) (pty_log hdl) (last_remote_num hdl) evs"
| wire_event: "wire_run C Z key em H U w h W f log n evs \<Longrightarrow> N = the_net W \<Longrightarrow> net_clock N \<le> now \<Longrightarrow>
    handle_term_event ev S now (client_with (end_a N) E nt) = Some (False, cl) \<Longrightarrow>
    wire_run C Z key em H U w h (W\<lparr>the_net := after_event ev now cl N\<rparr>) f log n (evs @ [ev])"

lemma user_rep_start: "user_rep 0 (events s) s"
  by (simp add: user_rep_def)

lemma typing_start_ok:
  assumes U: "user_codec_laws U" and "session_start U (complete_ops em H) w h (the_net W)" and "fresh_link key False W"
  shows "typing_ok C Z em H U W"
proof -
  note tw = typing_two_way [OF U, of em H]
  let ?N = "the_net W"
  obtain ca cb sb ra t1 t2 where
    a: "end_a ?N = transport_new (user_ops U) (complete_ops em H) (net_clock ?N) t1 ca (push_resize w h user_stream_new) ra"
    and b: "end_b ?N = transport_new (complete_ops em H) (user_ops U) (net_clock ?N) t2 cb sb user_stream_new"
    and w: "wire_ab ?N = {}" "wire_ba ?N = {}" "made ?N = [Resize w h]"
    using assms(2) unfolding session_start_def by blast
  have "user_rep 0 [Resize w h] (push_resize w h user_stream_new)"
    by (simp add: user_rep_def push_resize_def user_stream_new_def)
  from source.src_new [OF user_source [OF U] _ this]
  have "source.src_ok (user_ops U) user_rep prefix (\<lambda>_. True) (net_clock ?N) (made ?N) (tr_sender (end_a ?N)) (wire_ab ?N)"
    by (simp add: a w transport_new_def)
  moreover from source.src_new [OF complete_source [of em H], where H = "version_of sb" and s = sb]
  have "source.src_ok (complete_ops em H) version_rep (\<lambda>_ _. True) (\<lambda>_. True) (net_clock ?N) (version_of sb)
      (tr_sender (end_b ?N)) (wire_ba ?N)"
    by (simp add: b w transport_new_def)
  ultimately show ?thesis
    unfolding two_way.two_ok_def [OF tw] using fresh_link_ok [OF assms(3) w(1,2)] by blast
qed

text \<open>What the handlers do between datagrams keeps the link and the senders sound.\<close>

lemma taken_ok:
  assumes U: "user_codec_laws U" and ok: "typing_ok C Z em H U W" and N: "N = the_net W"
    and g: "get_remote_diff (user_ops U) (end_b N) = (d, T)"
    and T': "T' = T\<lparr>tr_sender := set_current_state (tr_sender T) x\<rparr>"
    and run: "shutdown_in_progress (tr_sender T) \<longrightarrow> x = current_state (tr_sender T)"
  shows "typing_ok C Z em H U (W\<lparr>the_net := taken U T' N\<rparr>)"
proof -
  note tw = typing_two_way [OF U, of em H]
  have T: "tr_sender T = tr_sender (end_b N)" "tr_connection T = tr_connection (end_b N)"
    using g by (auto simp: get_remote_diff_def Let_def)
  let ?src = "source.src_ok (complete_ops em H) version_rep (\<lambda>_ _. True) (\<lambda>_. True)"
  obtain v where b: "?src (net_clock N) v (tr_sender (end_b N)) (wire_ba N)"
    using ok unfolding two_way.two_ok_def [OF tw] N by blast
  have "\<exists>v. ?src (net_clock N) v (tr_sender T') (wire_ba N)"
  proof (cases "shutdown_in_progress (tr_sender T)")
    case True
    then have "tr_sender T' = tr_sender (end_b N)" using run T by (simp add: T' set_current_state_def)
    then show ?thesis using b by (intro exI [of _ v]) simp
  next
    case False
    then have "?src (net_clock N) (version_of x) (tr_sender T') (wire_ba N)"
      using source.src_act [OF complete_source b, of x] T by (simp add: T')
    then show ?thesis by blast
  qed
  then show ?thesis
    using ok T unfolding two_way.two_ok_def [OF tw] N [symmetric] by (simp add: taken_def T' Let_def)
qed

lemma start_handler_runs: "start_handler em U T = Some (Inr hdl) \<Longrightarrow> \<not> shutdown_in_progress (tr_sender T)"
  by (auto simp: start_handler_def first_state_def get_remote_diff_def Let_def split: prod.splits if_splits)

lemma first_ok:
  assumes U: "user_codec_laws U" and ok: "typing_ok C Z em H U W" and N: "N = the_net W"
    and "start_handler em U (end_b N) = Some (Inr hdl)"
  shows "typing_ok C Z em H U (W\<lparr>the_net := taken U (srv_transport hdl) N\<rparr>)"
proof -
  obtain d T1 x where g: "get_remote_diff (user_ops U) (end_b N) = (d, T1)"
    and t: "srv_transport hdl = T1\<lparr>tr_sender := set_current_state (tr_sender T1) x\<rparr>"
    using start_handler_cases [OF assms(4)] by metis
  have "tr_sender T1 = tr_sender (end_b N)" using g by (auto simp: get_remote_diff_def Let_def)
  then show ?thesis using taken_ok [OF U ok N g t] start_handler_runs [OF assms(4)] by simp
qed

lemma input_ok:
  assumes U: "user_codec_laws U" and ok: "typing_ok C Z em H U W" and N: "N = the_net W"
    and h: "handle_client_input em U now \<lparr>srv_transport = end_b N, pty_log = log, last_remote_num = n\<rparr> = Some hdl"
    and new: "get_remote_state_num (end_b N) \<noteq> n"
  shows "typing_ok C Z em H U (W\<lparr>the_net := taken U (srv_transport hdl) N\<rparr>)"
proof -
  let ?h = "\<lparr>srv_transport = end_b N, pty_log = log, last_remote_num = n\<rparr>"
  obtain d T1 x acts where g: "get_remote_diff (user_ops U) (end_b N) = (d, T1)"
    and t: "srv_transport hdl = T1\<lparr>tr_sender := set_current_state (tr_sender T1) x\<rparr>"
    by (rule input_taken [OF h, simplified, OF new])
  have T1: "tr_sender T1 = tr_sender (end_b N)" using g by (auto simp: get_remote_diff_def Let_def)
  have "moved em ?h hdl" using input_moved [of em U now ?h] h by auto
  then have "shutdown_in_progress (tr_sender T1) \<longrightarrow> x = current_state (tr_sender T1)"
    by (auto simp: moved_def srv_shutting_down_def t T1 set_current_state_def)
  then show ?thesis by (rule taken_ok [OF U ok N g t])
qed

lemma typed_ok:
  assumes U: "user_codec_laws U" and "typing_ok C Z em H U W" and "\<not> shutdown_in_progress (tr_sender (end_a (the_net W)))"
  shows "typing_ok C Z em H U (W\<lparr>the_net := typed_net es (the_net W)\<rparr>)"
  using assms(2,3)
proof (induction es arbitrary: W)
  case Nil
  then show ?case by simp
next
  case (Cons e es)
  note tw = typing_two_way [OF U, of em H]
  let ?N = "the_net W" and ?W = "W\<lparr>the_net := typed_net [e] (the_net W)\<rparr>"
  have s: "net_step (user_ops U) (complete_ops em H) user_act hist_act ?N (Act e) (typed_net [e] ?N)"
    using typed_net_step [OF Cons.prems(2), of U "complete_ops em H" e] by (simp add: session_step_def)
  have "local_step (\<lambda>x _. x) ?N (Act e) (typed_net [e] ?N)" by (simp add: local_step_def typed_net_def)
  from two_way.local_ok [OF tw Cons.prems(1) s this] have "typing_ok C Z em H U ?W" .
  moreover have "\<not> shutdown_in_progress (tr_sender (end_a (the_net ?W)))" using Cons.prems(2) by (simp add: typed_net_def)
  ultimately have "typing_ok C Z em H U (?W\<lparr>the_net := typed_net es (the_net ?W)\<rparr>)" by (rule Cons.IH)
  then show ?case by (simp add: typed_net_cons [of e es])
qed

lemma event_ok:
  assumes U: "user_codec_laws U" and ok: "typing_ok C Z em H U W" and N: "N = the_net W" and clk: "net_clock N \<le> now"
    and ev: "handle_term_event ev S now (client_with (end_a N) E nt) = Some (False, cl)"
  shows "typing_ok C Z em H U (W\<lparr>the_net := after_event ev now cl N\<rparr>)"
proof (cases "shutdown_in_progress (tr_sender (end_a N))")
  case True
  then show ?thesis using ok by (simp add: after_event_def N)
next
  case run: False
  note tw = typing_two_way [OF U, of em H]
  show ?thesis
  proof (cases "ev = Quit")
    case True
    let ?N = "N\<lparr>net_clock := now, end_a := transport_start_shutdown (end_a N) now\<rparr>"
    have q: "after_event ev now cl N = ?N" using quit_net [OF ev [unfolded True] run] True by simp
    have "net_step (user_ops U) (complete_ops em H) user_act hist_act (the_net W) (ShutdownA now) ?N"
      using step_shutdown_a [OF clk] N by simp
    moreover have "local_step (\<lambda>x _. x) (the_net W) (ShutdownA now) ?N"
      by (simp add: local_step_def transport_start_shutdown_def N)
    ultimately show ?thesis unfolding q by (rule two_way.local_ok [OF tw ok])
  next
    case False
    show ?thesis using typed_ok [OF U ok run [unfolded N], of "event_types ev"] event_net [OF ev run False] N by simp
  qed
qed

text \<open>A run on the wire is a run of the network of instructions.\<close>

lemma wire_run_whole:
  assumes U: "user_codec_laws U" and laws: "ocb_laws C" "codec_laws Z"
    and "wire_run C Z key em H U w h W f log n evs"
  shows "whole_run em H U w h (the_net W) f log n evs \<and> typing_ok C Z em H U W"
  using assms(4)
proof (induction rule: wire_run.induct)
  case (wire_start W)
  then show ?case using typing_start_ok [OF U] whole_start by blast
next
  case (wire_net W f log n evs e W')
  note tw = typing_two_way [OF U, of em H]
  from two_way.dgram_step_refines [OF tw conjunct2 [OF wire_net.IH] laws wire_net.hyps(2)]
  obtain x where ok: "typing_ok C Z em H U W'"
    and x: "net_step (user_ops U) (complete_ops em H) user_act hist_act (the_net W) x (the_net W')"
    and e: "case e of Local y \<Rightarrow> x = y | _ \<Rightarrow> x \<noteq> Consume \<and> (\<forall>a. x \<noteq> Act a) \<and> (\<forall>t. x \<noteq> ShutdownA t)" by blast
  have "x \<noteq> Consume \<and> (\<forall>a. x \<noteq> Act a) \<and> (\<forall>t. x \<noteq> ShutdownA t)"
    using e wire_net.hyps(3-5) by (cases e) auto
  then show ?case
    using ok whole_net [of em H U w h "the_net W" f log n evs x "the_net W'"] wire_net.IH x
    by (simp add: session_step_def)
next
  case (wire_first W log n evs N hdl)
  then show ?case using first_ok [OF U _ wire_first.hyps(2,4)] whole_first [of em H U w h N log n evs hdl] by simp
next
  case (wire_input W f log n evs N now hdl)
  have "typing_ok C Z em H U W" "whole_run em H U w h N (Some f) log n evs" using wire_input by simp_all
  then show ?case
    using input_ok [OF U _ wire_input.hyps(2,3)] whole_input [OF _ wire_input.hyps(3)] wire_input.hyps(2) by simp
next
  case (wire_event W f log n evs N now ev S E nt cl)
  have "typing_ok C Z em H U W" "whole_run em H U w h N f log n evs" using wire_event by simp_all
  then show ?case
    using event_ok [OF U _ wire_event.hyps(2-4)] whole_event [OF _ wire_event.hyps(3,4)] by simp
qed

section \<open>Screens over datagrams\<close>

abbreviation showing_step where
  "showing_step C Z em H U \<equiv> dgram_step C Z (complete_ops em H) (user_ops U) (\<lambda>x _. x) (\<lambda>x _. version_of x) user_act"

abbreviation showing_ok where
  "showing_ok C Z em H U \<equiv> two_way.two_ok (complete_ops em H) version_rep (\<lambda>_ _. True) (\<lambda>_. True)
     (user_ops U) user_rep prefix (\<lambda>_. True) C Z"

text \<open>\<open>screen_run\<close> is \<open>screen_session\<close> on the wire: \<open>end_a\<close> is the server, \<open>end_b\<close> the client, who types.\<close>

inductive screen_run ::
  "ocb \<Rightarrow> codec \<Rightarrow> bytes \<Rightarrow> 't emulator \<Rightarrow> (screen_snapshot \<Rightarrow> bool) \<Rightarrow> host_codec \<Rightarrow> user_codec \<Rightarrow>
     ('t complete, user_stream, version) dnet \<Rightarrow> version list \<Rightarrow> bool"
  for C Z key em good H U where
  screen_wire_start: "screen_start em H (user_ops U) (the_net W) \<Longrightarrow> fresh_link key True W \<Longrightarrow>
    screen_run C Z key em good H U W [made (the_net W)]"
| screen_wire_net: "screen_run C Z key em good H U W vs \<Longrightarrow> showing_step C Z em H U W e W' \<Longrightarrow>
    (\<forall>x. e \<noteq> Local (Act x)) \<Longrightarrow> screen_run C Z key em good H U W' vs"
| screen_wire_act: "screen_run C Z key em good H U W vs \<Longrightarrow>
    x = server_act em ev (current_state (tr_sender (end_a (the_net W)))) \<Longrightarrow>
    good (screen x) \<Longrightarrow> follows (made (the_net W)) (version_of x) \<Longrightarrow>
    showing_step C Z em H U W (Local (Act x)) W' \<Longrightarrow>
    screen_run C Z key em good H U W' (vs @ [version_of x])"

lemma showing_start_ok:
  assumes U: "user_codec_laws U" and "screen_start em H (user_ops U) (the_net W)" and "fresh_link key True W"
  shows "showing_ok C Z em H U W"
proof -
  note tw = showing_two_way [OF U, of em H]
  let ?N = "the_net W"
  obtain ca cb ra sb t1 t2 where
    a: "end_a ?N = transport_new (complete_ops em H) (user_ops U) (net_clock ?N) t1 ca (delivered ?N) ra"
    and b: "end_b ?N = transport_new (user_ops U) (complete_ops em H) (net_clock ?N) t2 cb sb (delivered ?N)"
    and w: "wire_ab ?N = {}" "wire_ba ?N = {}" "made ?N = version_of (delivered ?N)"
    using assms(2) unfolding screen_start_def by blast
  from source.src_new [OF user_source [OF U] _ user_rep_start [of sb]]
  have "source.src_ok (user_ops U) user_rep prefix (\<lambda>_. True) (net_clock ?N) (events sb) (tr_sender (end_b ?N)) (wire_ba ?N)"
    by (simp add: b w transport_new_def)
  moreover from source.src_new [OF complete_source [of em H], where H = "version_of (delivered ?N)" and s = "delivered ?N"]
  have "source.src_ok (complete_ops em H) version_rep (\<lambda>_ _. True) (\<lambda>_. True) (net_clock ?N) (made ?N)
      (tr_sender (end_a ?N)) (wire_ab ?N)"
    by (simp add: a w transport_new_def)
  ultimately show ?thesis
    unfolding two_way.two_ok_def [OF tw] using fresh_link_ok [OF assms(3) w(1,2)] by blast
qed

lemma screen_run_session:
  assumes U: "user_codec_laws U" and laws: "ocb_laws C" "codec_laws Z"
    and "screen_run C Z key em good H U W vs"
  shows "screen_session em good H (user_ops U) (the_net W) vs \<and> showing_ok C Z em H U W"
  using assms(4)
proof (induction rule: screen_run.induct)
  case (screen_wire_start W)
  then show ?case using showing_start_ok [OF U] session_start by blast
next
  case (screen_wire_net W vs e W')
  note tw = showing_two_way [OF U, of em H]
  from two_way.dgram_step_refines [OF tw conjunct2 [OF screen_wire_net.IH] laws screen_wire_net.hyps(2)]
  obtain x where ok: "showing_ok C Z em H U W'"
    and x: "net_step (complete_ops em H) (user_ops U) (\<lambda>x _. x) (\<lambda>x _. version_of x) (the_net W) x (the_net W')"
    and e: "case e of Local y \<Rightarrow> x = y | _ \<Rightarrow> x \<noteq> Consume \<and> (\<forall>a. x \<noteq> Act a) \<and> (\<forall>t. x \<noteq> ShutdownA t)" by blast
  have "\<forall>a. x \<noteq> Act a" using e screen_wire_net.hyps(3) by (cases e) auto
  then show ?case using ok session_net [OF _ x] screen_wire_net.IH by blast
next
  case (screen_wire_act W vs x ev W')
  note tw = showing_two_way [OF U, of em H]
  from two_way.dgram_step_refines [OF tw conjunct2 [OF screen_wire_act.IH] laws screen_wire_act.hyps(5)]
  have ok: "showing_ok C Z em H U W'"
    and x: "net_step (complete_ops em H) (user_ops U) (\<lambda>x _. x) (\<lambda>x _. version_of x) (the_net W) (Act x) (the_net W')"
    by auto
  show ?case using ok session_act [OF conjunct1 [OF screen_wire_act.IH] screen_wire_act.hyps(2-4) x] by blast
qed

section \<open>Runs for the witnesses\<close>

definition demo_wire0 :: "(user_stream, vterm mosh_terminal complete, user_event list) dnet" where
  "demo_wire0 = \<lparr>the_net = demo_server0, sent_ab = {}, sent_ba = {}\<rparr>"

lemma demo_connected: "connected (replicate 16 0) server (demo_conn server)"
    "connected (replicate 16 0) server (set_remote_addr (demo_conn server) 7)"
  by (auto simp: connected_def demo_conn_def)

definition demo_wire :: "(user_stream, vterm mosh_terminal complete, user_event list) dnet" where
  "demo_wire = demo_wire0\<lparr>the_net := after_event (Input [108]) 0
     (edit_stream (push_key 108) ((demo_client (end_a demo_server0))\<lparr>cl_prediction :=
       set_local_frame_sent (sent_state_last (tr_sender (end_a demo_server0))) (set_display_preference Never (engine_new 0))\<rparr>))
     demo_server0\<rparr>"

lemma demo_wire_run:
  "wire_run plain_ocb pb_codec (replicate 16 0) ref_em pb_host pb_user 80 24 demo_wire None [] 0 [Input [108]]"
proof -
  have "fresh_link (replicate 16 0) False demo_wire0"
    using demo_connected by (simp add: fresh_link_def demo_wire0_def demo_server0_def transport_new_def)
  then have "wire_run plain_ocb pb_codec (replicate 16 0) ref_em pb_host pb_user 80 24 demo_wire0 None [] 0 []"
    by (intro wire_start) (auto simp: session_start_def demo_server0_def demo_wire0_def)
  moreover have "demo_server0 = the_net demo_wire0" "net_clock demo_server0 \<le> 0"
    by (simp_all add: demo_wire0_def demo_server0_def)
  ultimately have "wire_run plain_ocb pb_codec (replicate 16 0) ref_em pb_host pb_user 80 24 demo_wire None [] 0 ([] @ [Input [108]])"
    unfolding demo_wire_def by (rule wire_event [OF _ _ _ demo_key [unfolded demo_client_def], folded demo_client_def])
  then show ?thesis by simp
qed

section \<open>Properties\<close>

text \<open>
  C1. From the keyboard to the shell over a hostile network, which loses, repeats, reorders, reflects and
  forges datagrams but does not have the session key: what the server writes to the shell, after the
  keys of the first state it received (whose window size alone is used), is an initial piece of the
  bytes that the client read from the terminal, in order, filtered by the escape key as one stream
  whatever the reads were, up to the request to quit. Fragmentation, compression, encryption, reassembly
  and the protocol are all part of the run.
\<close>

theorem keyboard_reaches_shell_on_the_wire:
  assumes "user_codec_laws U" and "ocb_laws C" and "codec_laws Z"
    and run: "wire_run C Z key em H U w h W f log n evs"
    and evs: "prefix (filter (\<lambda>ev. \<not> is_resize ev) evs) (fst (read_all (filter_new c) reads))"
  shows "prefix (keys_of (case_option [] (\<lambda>es. es) f) @ pty_keys log) (fst (fst (filter_run (filter_new c) (concat reads))))"
  by (rule keyboard_reaches_shell [OF assms(1) _ evs]) (rule conjunct1 [OF wire_run_whole [OF assms(1-4)]])

theorem keyboard_reaches_shell_on_the_wire_witness:
  "prefix (keys_of [] @ pty_keys []) (fst (fst (filter_run (filter_new None) (concat [[108]]))))"
proof -
  have "prefix (filter (\<lambda>ev. \<not> is_resize ev) [Input [108]]) (fst (read_all (filter_new None) [[108]]))"
    by (simp add: is_resize_def publish_def filter_feed_def filter_new_def)
  from keyboard_reaches_shell_on_the_wire [OF pb_user_laws plain_ocb_laws pb_codec_laws demo_wire_run this]
  show ?thesis by simp
qed

text \<open>
  C2. Every run over datagrams is a run over whole instructions: whatever arrives, each end is handed
  only instructions that the other end sent, unaltered, and is otherwise left as it was but for its
  connection.
\<close>

theorem datagrams_refine_instructions:
  assumes "user_codec_laws U" and "ocb_laws C" and "codec_laws Z"
    and "wire_run C Z key em H U w h W f log n evs"
  shows "whole_run em H U w h (the_net W) f log n evs"
  using wire_run_whole [OF assms] by blast

theorem datagrams_refine_instructions_witness:
  "whole_run ref_em pb_host pb_user 80 24 (the_net demo_wire) None [] 0 [Input [108]]"
  by (rule datagrams_refine_instructions [OF pb_user_laws plain_ocb_laws pb_codec_laws demo_wire_run])

end
