(* ===== verification/Wire_Delivery.thy ===== *)
theory Wire_Delivery
  imports Hostile_Network
begin

text \<open>
  What the network has to do for a session to make progress: let through the datagrams of one packet.
  They may come in any order, any number of times each and from any address, and whatever was lost
  before does not matter.
\<close>

text \<open>An arrival: which datagram of the packet, the clocks when it comes, and the address it comes from.\<close>

type_synonym wire_arrival = "nat \<times> nat \<times> instant \<times> socket_addr"

definition arrive_all ::
  "ocb \<Rightarrow> codec \<Rightarrow> 'r state_ops \<Rightarrow> bytes list \<Rightarrow> wire_arrival list \<Rightarrow> ('m, 'r) transport \<Rightarrow> ('m, 'r) transport" where
  "arrive_all C Z rops wires as T =
     fold (\<lambda>(j, wall, now, peer) T. snd (process_datagram C Z rops T wall now (wires ! j) peer)) as T"

lemma arrive_all_simps [simp]:
  "arrive_all C Z rops wires [] T = T"
  "arrive_all C Z rops wires ((j, wall, now, peer) # as) T =
     arrive_all C Z rops wires as (snd (process_datagram C Z rops T wall now (wires ! j) peer))"
  by (simp_all add: arrive_all_def)

lemma datagram_piece:
  assumes laws: "ocb_laws C" and key: "length key = 16" "cipher_key (conn_session (tr_connection T)) = key"
    and car: "carries C key role d f" and role: "is_server (tr_connection T) \<noteq> role"
    and add: "add_fragment Z (assembler (tr_connection T)) f = (Inr x, A)"
    and dg: "process_datagram C Z rops T wall now d peer = (r, T')"
  shows "\<exists>c. assembler c = A \<and>
    (case x of None \<Rightarrow> T' = T\<lparr>tr_connection := c\<rparr>
     | Some i \<Rightarrow> process_instruction rops (T\<lparr>tr_connection := c\<rparr>) i now now = (r, T'))"
proof -
  from car obtain e wall' now' e' where e: "encrypt_fragment C e wall' now' f = Some (d, e')"
    and c: "cipher_key (conn_session e) = key" "is_server e = role" "send_seq e < TO_CLIENT_BIT"
    and num: "fragment_num f < 0x8000" unfolding carries_def by blast
  obtain p where p: "process_incoming C Z (tr_connection T) wall now now d peer = conn_assemble Z p f"
    "assembler p = assembler (tr_connection T)"
    using process_incoming_peer [OF laws _ e c(3) num, of "tr_connection T"] key c(1,2) role by metis
  have "process_incoming C Z (tr_connection T) wall now now d peer = (Inr x, p\<lparr>assembler := A\<rparr>)"
    using p add by (simp add: conn_assemble_def)
  then show ?thesis
    using dg by (intro exI [of _ "p\<lparr>assembler := A\<rparr>"]) (auto simp: process_datagram_def split: option.splits)
qed

section \<open>The pieces of a packet arrive\<close>

text \<open>
  A packet under way: \<open>inst\<close> is the newest one of the client, as a diff from the acknowledged state, and
  \<open>wires\<close> are its datagrams.
\<close>

definition under_way ::
  "ocb \<Rightarrow> codec \<Rightarrow> u64 \<Rightarrow> instruction \<Rightarrow> bytes list \<Rightarrow> ('s, 'c, 'h) dnet \<Rightarrow> bool" where
  "under_way C Z n inst wires W \<longleftrightarrow>
     inst \<in> wire_ab (the_net W) \<and> set wires \<subseteq> sent_ab W \<and> length (pieces Z n inst) \<le> 32768 \<and>
     or0 (new_num inst) = sent_state_last (tr_sender (end_a (the_net W))) \<and>
     or0 (old_num inst) = sent_state_acked (tr_sender (end_a (the_net W))) \<and>
     list_all2 (carries C (cipher_key (conn_session (tr_connection (end_a (the_net W)))))
       (is_server (tr_connection (end_a (the_net W))))) wires (pieces Z n inst)"

text \<open>How far the server is: it has the state, or it holds the pieces \<open>S\<close> and the rest is yet to come.\<close>

definition progress ::
  "codec \<Rightarrow> u64 \<Rightarrow> instruction \<Rightarrow> nat set \<Rightarrow> nat set \<Rightarrow> ('s, 'c, 'h) dnet \<Rightarrow> bool" where
  "progress Z n inst S R W \<longleftrightarrow>
     get_remote_state_num (end_b (the_net W)) = sent_state_last (tr_sender (end_a (the_net W))) \<or>
     R \<noteq> {} \<and> holds_of Z n inst S (assembler (tr_connection (end_b (the_net W)))) \<and>
     length (received_states (end_b (the_net W))) \<le> RECEIVED_STATES_MAX \<and>
     S \<union> R = {..<length (pieces Z n inst)}"

lemma piece_arrives:
  assumes U: "user_codec_laws U" and laws: "ocb_laws C" "codec_laws Z"
    and ok: "typing_ok C Z em H U W" and inv: "session_inv U (the_net W)"
    and way: "under_way C Z n inst wires W" and j: "j < length (pieces Z n inst)"
    and pr: "progress Z n inst S (insert j R) W"
    and W': "W' = W\<lparr>the_net := (the_net W)\<lparr>end_b :=
      snd (process_datagram C Z (user_ops U) (end_b (the_net W)) wall now (wires ! j) peer)\<rparr>\<rparr>"
  shows "typing_ok C Z em H U W' \<and> session_inv U (the_net W') \<and> under_way C Z n inst wires W' \<and>
    progress Z n inst (insert j S) R W'"
proof -
  note tw = typing_two_way [OF U, of em H] and sp = user_ssp [OF U]
  define N where "N = the_net W"
  let ?d = "wires ! j" and ?last = "sent_state_last (tr_sender (end_a N))"
  obtain r T where dg: "process_datagram C Z (user_ops U) (end_b N) wall now ?d peer = (r, T)" by fastforce
  have W1: "W' = W\<lparr>the_net := N\<lparr>end_b := T\<rparr>\<rparr>" using W' dg by (simp add: N_def)
  have len: "length wires = length (pieces Z n inst)" using way by (auto simp: under_way_def list_all2_lengthD)
  have d: "?d \<in> sent_ab W" using way j len by (auto simp: under_way_def)
  then have arr: "can_arrive C (sent_ab W \<union> sent_ba W) (tr_connection (end_b N)) ?d" by (simp add: can_arrive_def)
  note R = two_way.receive_b_refines [OF tw ok laws N_def arr dg]
  have ok': "typing_ok C Z em H U W'" using R unfolding W1 by blast
  have inv': "session_inv U (the_net W')"
    using R ssp.net_step_inv [OF sp inv] unfolding W1 N_def by fastforce
  have way': "under_way C Z n inst wires W'" using way by (simp add: under_way_def W1 N_def)
  have link: "link_ok C Z (tr_connection (end_b N)) (wire_ba N) (sent_ba W) (tr_connection (end_a N)) (wire_ab N) (sent_ab W)"
    using ok unfolding two_way.two_ok_def [OF tw] N_def by (metis link_sym)
  have "progress Z n inst (insert j S) R W'"
  proof (cases "get_remote_state_num (end_b N) = ?last")
    case True
    have "get_remote_state_num (end_b N) \<le> get_remote_state_num T"
      using link_datagram(2) [OF link laws arr [unfolded Un_commute [of "sent_ab W"]] dg]
        ssp.newest_grows [OF sp inv [folded N_def]] by (auto simp: get_remote_state_num_def)
    moreover have "get_remote_state_num T \<le> ?last"
      using ssp.newest_bounded [OF sp inv'] by (simp add: W1)
    ultimately show ?thesis using True by (simp add: progress_def W1)
  next
    case False
    then have h: "holds_of Z n inst S (assembler (tr_connection (end_b N)))"
      and room: "length (received_states (end_b N)) \<le> RECEIVED_STATES_MAX"
      and all: "S \<union> insert j R = {..<length (pieces Z n inst)}"
      using pr by (auto simp: progress_def N_def)
    obtain rf A where add: "add_fragment Z (assembler (tr_connection (end_b N))) (pieces Z n inst ! j) = (rf, A)" by fastforce
    have small: "length (pieces Z n inst) \<le> 32768" using way by (simp add: under_way_def)
    note H = holds_add [OF h laws(2) small j add]
    let ?key = "cipher_key (conn_session (tr_connection (end_a N)))"
    have car: "carries C ?key (is_server (tr_connection (end_a N))) ?d (pieces Z n inst ! j)"
      using way j len by (auto simp: under_way_def N_def list_all2_nthD)
    have key: "length ?key = 16" "cipher_key (conn_session (tr_connection (end_b N))) = ?key"
      and role: "is_server (tr_connection (end_b N)) \<noteq> is_server (tr_connection (end_a N))"
      using link unfolding link_ok_def by metis+
    show ?thesis
    proof (cases "insert j S = {..<length (pieces Z n inst)}")
      case True
      then have "rf = Inr (Some inst)" using H by simp
      from datagram_piece [OF laws(1) key car role add [unfolded this] dg] obtain c where
        pi: "process_instruction (user_ops U) ((end_b N)\<lparr>tr_connection := c\<rparr>) inst now now = (r, T)" by auto
      have "get_remote_state_num T = ?last"
        by (rule ssp.deliver_newest [OF sp inv [folded N_def] _ _ _ room pi])
           (use way in \<open>simp_all add: under_way_def N_def\<close>)
      then show ?thesis by (simp add: progress_def W1)
    next
      case part: False
      then have rf: "rf = Inr None" and h': "holds_of Z n inst (insert j S) A" using H by simp_all
      from datagram_piece [OF laws(1) key car role add [unfolded rf] dg] obtain c where
        c: "assembler c = A" "T = (end_b N)\<lparr>tr_connection := c\<rparr>" by auto
      have "R \<noteq> {}" "insert j S \<union> R = {..<length (pieces Z n inst)}" using part all by auto
      then show ?thesis using h' c room by (simp add: progress_def W1)
    qed
  qed
  then show ?thesis using ok' inv' way' by blast
qed

lemma pieces_arrive:
  assumes U: "user_codec_laws U" and laws: "ocb_laws C" "codec_laws Z"
  shows "typing_ok C Z em H U W \<Longrightarrow> session_inv U (the_net W) \<Longrightarrow> under_way C Z n inst wires W \<Longrightarrow>
    fst ` set as \<subseteq> {..<length (pieces Z n inst)} \<Longrightarrow> progress Z n inst S (fst ` set as) W \<Longrightarrow>
    session_inv U ((the_net W)\<lparr>end_b := arrive_all C Z (user_ops U) wires as (end_b (the_net W))\<rparr>) \<and>
    get_remote_state_num (arrive_all C Z (user_ops U) wires as (end_b (the_net W))) =
      sent_state_last (tr_sender (end_a (the_net W)))"
proof (induction as arbitrary: W S)
  case Nil
  then show ?case by (auto simp: progress_def)
next
  case (Cons a as)
  obtain j wall now peer where a: "a = (j, wall, now, peer)" by (cases a) auto
  define W' where "W' = W\<lparr>the_net := (the_net W)\<lparr>end_b :=
      snd (process_datagram C Z (user_ops U) (end_b (the_net W)) wall now (wires ! j) peer)\<rparr>\<rparr>"
  have j: "j < length (pieces Z n inst)" using Cons.prems(4) by (simp add: a)
  have pr: "progress Z n inst S (insert j (fst ` set as)) W" using Cons.prems(5) by (simp add: a)
  from piece_arrives [OF U laws Cons.prems(1-3) j pr W'_def]
  have "typing_ok C Z em H U W'" "session_inv U (the_net W')" "under_way C Z n inst wires W'"
    "progress Z n inst (insert j S) (fst ` set as) W'" by blast+
  from Cons.IH [OF this(1-3) _ this(4)] Cons.prems(4) show ?case by (simp add: W'_def a)
qed

section \<open>A tick and its datagrams\<close>

lemma tick_sends_pieces:
  assumes laws: "ocb_laws C" "codec_laws Z" and key: "length (cipher_key (conn_session (tr_connection T))) = 16"
    and room: "tick_room Z mops T now pad" and inst: "tick_packet mops T now pad = Some inst"
    and tick: "transport_tick C Z os mops T wall now now_send pad = Some (Inr (), wires, T')"
  shows "last_instruction (fragger (tr_connection T')) = Some inst"
    and "list_all2 (carries C (cipher_key (conn_session (tr_connection T))) (is_server (tr_connection T))) wires
      (pieces Z (next_instruction_id (fragger (tr_connection T'))) inst)"
proof -
  from tick obtain S c' where T': "T' = T\<lparr>tr_sender := S, tr_connection := c'\<rparr>"
    and c: "case tick_packet mops T now pad of None \<Rightarrow> c' = tr_connection T \<and> wires = []
     | Some inst \<Rightarrow> conn_send C Z os wall now_send (tr_connection T) inst = Some (Inr (), wires, c')"
    by (rule tick_cases)
  have s: "conn_send C Z os wall now_send (tr_connection T) inst = Some (Inr (), wires, c')" using c inst by simp
  have "frag_room Z (tr_connection T) inst" using room inst by (simp add: tick_room_def)
  from send_pieces [OF laws key this s] show "last_instruction (fragger (tr_connection T')) = Some inst"
    "list_all2 (carries C (cipher_key (conn_session (tr_connection T))) (is_server (tr_connection T))) wires
      (pieces Z (next_instruction_id (fragger (tr_connection T'))) inst)" by (simp_all add: T')
qed

text \<open>After a successful tick its packet is under way, and the server may already hold some pieces.\<close>

lemma tick_under_way:
  assumes U: "user_codec_laws U" and laws: "ocb_laws C" "codec_laws Z"
    and ok: "typing_ok C Z em H U W" and inv: "session_inv U N" and N: "N = the_net W"
    and clk: "net_clock N \<le> now" and room: "tick_room Z (user_ops U) (end_a N) now pad"
    and inst: "tick_packet (user_ops U) (end_a N) now pad = Some inst"
    and old: "old_num inst = Some (sent_state_acked (tr_sender (end_a N)))"
    and tick: "transport_tick C Z os (user_ops U) (end_a N) wall now now_send pad = Some (Inr (), wires, T)"
    and W': "W' = W\<lparr>the_net := N\<lparr>net_clock := now, end_a := T,
            wire_ab := wire_ab N \<union> emitted (tick_packet (user_ops U) (end_a N) now pad)\<rparr>,
         sent_ab := sent_ab W \<union> set wires\<rparr>"
  obtains n S where "typing_ok C Z em H U W'" and "session_inv U (the_net W')" and "under_way C Z n inst wires W'"
    and "holds_of Z n inst S (assembler (tr_connection (end_b N)))" and "S \<subseteq> {..<length (pieces Z n inst)}"
    and "pieces Z n inst \<noteq> []" and "length (pieces Z n inst) = length wires"
    and "state_equal (user_ops U) (current_state (tr_sender T)) (ts_state (last (sent_states (tr_sender T))))"
proof -
  note tw = typing_two_way [OF U, of em H] and sp = user_ssp [OF U]
  note R = two_way.send_a_refines [OF tw ok laws N clk room tick W']
  have ok': "typing_ok C Z em H U W'" and inv': "session_inv U (the_net W')"
    using R ssp.net_step_inv [OF sp inv] by blast+
  let ?c = "tr_connection (end_a N)" and ?n = "next_instruction_id (fragger (tr_connection T))"
  have key: "length (cipher_key (conn_session ?c)) = 16"
    using ok unfolding two_way.two_ok_def [OF tw] link_ok_def N by blast
  note P = tick_sends_pieces [OF laws key room inst tick]
  obtain K where "chan_ok C Z (cipher_key (conn_session (tr_connection T))) (is_server (tr_connection T)) (wire_ab (the_net W'))
      (sent_ab W') (fragger (tr_connection T)) (assembler (tr_connection (end_b N))) K"
    using ok' unfolding two_way.two_ok_def [OF tw] link_ok_def W' by auto
  then have ch: "K ?n = Some inst" "length (pieces Z ?n inst) \<le> 32768"
    and ex: "\<exists>S. holds_of Z ?n inst S (assembler (tr_connection (end_b N)))"
    using P(1) chan_holds unfolding chan_ok_def by blast+
  then obtain S where S: "holds_of Z ?n inst S (assembler (tr_connection (end_b N)))" by blast
  have sub: "S \<subseteq> {..<length (pieces Z ?n inst)}" using S by (auto simp: holds_of_def asm_holds_def split: if_splits)
  have ne: "pieces Z ?n inst \<noteq> []" using pieces_wf [OF ch(2)] by (simp add: wf_frags_def)
  from tick obtain Sn e where st: "sender_tick (user_ops U) (tr_sender (end_a N)) now (conn_timeout ?c)
      (srtt_ms (conn_rtt ?c)) (has_remote_addr ?c) pad = (tick_packet (user_ops U) (end_a N) now pad, Sn)"
    and T: "T = (end_a N)\<lparr>tr_sender := Sn, tr_connection := e\<rparr>"
    and e: "case tick_packet (user_ops U) (end_a N) now pad of None \<Rightarrow> e = ?c \<and> wires = []
     | Some inst \<Rightarrow> conn_send C Z os wall now_send ?c inst = Some (Inr (), wires, e)" by (rule tick_cases)
  obtain M p where tx: "source.tx_ok user_rep prefix (\<lambda>_. True) M p (made N) (tr_sender (end_a N))"
    and si: "sender_inv (net_clock N) (tr_sender (end_a N))"
    using inv unfolding ssp.net_inv_def [OF sp] by blast
  have nr: "num_room (tr_sender (end_a N))" using room by (simp add: tick_room_def)
  have new: "new_num inst = Some (sent_state_last Sn)"
    using ssp.tick_last(1) [OF sp st [unfolded inst] si] .
  have ack: "sent_state_acked Sn = sent_state_acked (tr_sender (end_a N))"
    using source.tx_tick [OF user_source [OF U] st tx si nr] by blast
  have "link_ok C Z (tr_connection T) (wire_ab (the_net W')) (sent_ab W') (tr_connection (end_b N)) (wire_ba N) (sent_ba W)"
    using ok' unfolding two_way.two_ok_def [OF tw] W' by simp
  moreover have "link_ok C Z ?c (wire_ab N) (sent_ab W) (tr_connection (end_b N)) (wire_ba N) (sent_ba W)"
    using ok unfolding two_way.two_ok_def [OF tw] N by simp
  ultimately have same: "cipher_key (conn_session (tr_connection T)) = cipher_key (conn_session ?c)"
    "is_server (tr_connection T) = is_server ?c" unfolding link_ok_def by auto
  have way: "under_way C Z ?n inst wires W'"
    using P(2) ch(2) new old ack same by (simp add: under_way_def W' T emitted_def inst)
  have "state_equal (user_ops U) (current_state Sn) (ts_state (last (sent_states Sn)))"
    by (rule ssp.tick_current [OF sp st [unfolded inst] si tx nr])
  then show thesis
    using that [OF ok' inv' way S sub ne list_all2_lengthD [OF P(2), symmetric]] by (simp add: T)
qed

lemma wire_run_inv:
  assumes U: "user_codec_laws U" and "ocb_laws C" and "codec_laws Z"
    and "wire_run C Z key em H U w h W f log n evs"
  shows "typing_ok C Z em H U W" and "session_reach U (complete_ops em H) w h (the_net W)"
proof -
  note R = wire_run_whole [OF assms]
  then show "typing_ok C Z em H U W" by blast
  have "server_run em H U w h (the_net W) f log n" using R whole_run_inv by blast
  then show "session_reach U (complete_ops em H) w h (the_net W)" using server_run_inv [OF U] by blast
qed

section \<open>Properties\<close>

text \<open>
  C4. The datagrams of one packet are enough: whatever was lost before, when the client ticks, sends a
  diff from the acknowledged state and its socket takes every datagram of it, and each of them reaches
  the server at least once, in any order, while the server has room for a state, then the server's
  callers hold everything the user typed.
\<close>

theorem tick_datagrams_catch_up:
  assumes U: "user_codec_laws U" and laws: "ocb_laws C" "codec_laws Z"
    and run: "wire_run C Z key em H U w h W f log k evs" and N: "N = the_net W"
    and clk: "net_clock N \<le> now" and room: "tick_room Z (user_ops U) (end_a N) now pad"
    and inst: "tick_packet (user_ops U) (end_a N) now pad = Some inst"
    and old: "old_num inst = Some (sent_state_acked (tr_sender (end_a N)))"
    and tick: "transport_tick C Z os (user_ops U) (end_a N) wall now now_send pad = Some (Inr (), wires, T)"
    and space: "length (received_states (end_b N)) \<le> RECEIVED_STATES_MAX"
    and all: "fst ` set as = {..<length wires}"
    and out: "get_remote_diff (user_ops U) (arrive_all C Z (user_ops U) wires as (end_b N)) = (d, T')"
  shows "\<exists>s. (if d = [] then s = delivered N else apply_string (user_ops U) (delivered N) d = Inr s) \<and>
    made N = Resize w h # events s"
proof -
  note inv = session_reach_inv [OF U wire_run_inv(2) [OF U laws run]] and ok = wire_run_inv(1) [OF U laws run]
  define W' where "W' = W\<lparr>the_net := N\<lparr>net_clock := now, end_a := T,
            wire_ab := wire_ab N \<union> emitted (tick_packet (user_ops U) (end_a N) now pad)\<rparr>,
         sent_ab := sent_ab W \<union> set wires\<rparr>"
  from tick_under_way [OF U laws ok _ N clk room inst old tick W'_def] inv N obtain n S where
    W': "typing_ok C Z em H U W'" "session_inv U (the_net W')" "under_way C Z n inst wires W'"
    and S: "holds_of Z n inst S (assembler (tr_connection (end_b N)))" "S \<subseteq> {..<length (pieces Z n inst)}"
    and len: "pieces Z n inst \<noteq> []" "length (pieces Z n inst) = length wires"
    and eq: "state_equal (user_ops U) (current_state (tr_sender T)) (ts_state (last (sent_states (tr_sender T))))" by metis
  have ne: "fst ` set as \<noteq> {}" unfolding all using len by (metis length_0_conv lessThan_empty_iff)
  have "progress Z n inst S (fst ` set as) W'"
    using S len space all ne by (auto simp: progress_def W'_def)
  note A = pieces_arrive [OF U laws W' _ this]
  let ?T = "arrive_all C Z (user_ops U) wires as (end_b N)"
  have b: "the_net W' = N\<lparr>net_clock := now, end_a := T,
            wire_ab := wire_ab N \<union> emitted (tick_packet (user_ops U) (end_a N) now pad)\<rparr>" by (simp add: W'_def)
  define N2 where "N2 = (the_net W')\<lparr>end_b := ?T\<rparr>"
  have same: "end_b N2 = ?T" "end_a N2 = T" "made N2 = made N" "delivered N2 = delivered N" by (simp_all add: N2_def b)
  have inv2: "session_inv U N2" and num: "get_remote_state_num (end_b N2) = sent_state_last (tr_sender (end_a N2))"
    using A all len by (simp_all add: N2_def b)
  have "if d = [] then user_rep 1 (made N) (delivered N)
      else \<exists>s. apply_string (user_ops U) (delivered N) d = Inr s \<and> user_rep 1 (made N) s"
    using ssp.newest_version [OF user_ssp [OF U] inv2 num, of d T'] eq out unfolding same by blast
  moreover obtain typed where "made N = Resize w h # typed"
    using session_made [OF wire_run_inv(2) [OF U laws run]] N by (auto simp: prefix_def)
  ultimately show ?thesis by (auto simp: user_rep_def split: if_splits)
qed

section \<open>The witness\<close>

text \<open>The client of \<open>demo_wire\<close> ticks: a small packet, one datagram.\<close>

lemma demo_wire_end:
  "tr_sender (end_a (the_net demo_wire)) = (sender_new (user_ops pb_user) 0 \<lparr>events = [Resize 80 24]\<rparr>)
      \<lparr>current_state := \<lparr>events = [Resize 80 24, UserByte 108]\<rparr>\<rparr>"
  "tr_connection (end_a (the_net demo_wire)) = set_remote_addr (demo_conn False) 7"
  "made (the_net demo_wire) = [Resize 80 24, UserByte 108]" "net_clock (the_net demo_wire) = 0"
  "end_b (the_net demo_wire) = end_b demo_server0" "delivered (the_net demo_wire) = user_stream_new"
  by (simp_all add: demo_wire_def demo_wire0_def after_event_def demo_server0_def transport_new_def sender_new_def
      edit_stream_def set_current_state_def demo_client_def client_with_def push_key_def push_resize_def user_stream_new_def)

definition demo_up_inst :: instruction where
  "demo_up_inst = \<lparr>protocol_version = Some MORSH_PROTOCOL_VERSION, old_num = Some 0, new_num = Some 1, ack_num = Some 0,
     throwaway_num = Some 0, diff = Some (um_encode pb_user [\<lparr>keystroke_keys = Some (Some [108]), resize_dims = None\<rparr>]),
     chaff = Some []\<rparr>"

lemma demo_wire_tick:
  "fst (sender_tick (user_ops pb_user) (tr_sender (end_a (the_net demo_wire))) 0 timeout srtt True []) = Some demo_up_inst"
  unfolding demo_wire_end demo_up_inst_def
  by (simp add: tick_defs sender_new_def user_ops_def user_subtract_def common_prefix_len_def
      encode_diff_from_def pb_user_def ms_def SENT_STATES_MAX_def SHUTDOWN_NUM_def)

lemma demo_up_small: "pb_instruction demo_up_inst \<noteq> [] \<and> length (pb_instruction demo_up_inst) \<le> 1214"
  by code_simp

lemma demo_wire_sends:
  obtains i w T where "tick_packet (user_ops pb_user) (end_a (the_net demo_wire)) 0 [] = Some i" "old_num i = Some 0"
    and "tick_room pb_codec (user_ops pb_user) (end_a (the_net demo_wire)) 0 []"
    and "transport_tick plain_ocb pb_codec (\<lambda>_. True) (user_ops pb_user) (end_a (the_net demo_wire)) 0 0 0 [] = Some (Inr (), [w], T)"
proof -
  let ?T = "end_a (the_net demo_wire)"
  let ?c = "set_remote_addr (demo_conn False) 7"
  have rem: "has_remote_addr ?c" by (simp add: set_remote_addr_def)
  let ?i = demo_up_inst
  have i: "old_num ?i = Some 0" "pb_instruction ?i \<noteq> []" "length (pb_instruction ?i) \<le> 1214"
    using demo_up_small by (simp_all add: demo_up_inst_def)
  obtain S where st: "sender_tick (user_ops pb_user) (tr_sender ?T) 0 (conn_timeout ?c) (srtt_ms (conn_rtt ?c)) True [] = (Some ?i, S)"
    using demo_wire_tick [of "conn_timeout ?c" "srtt_ms (conn_rtt ?c)"] by (metis prod.collapse)
  have p: "tick_packet (user_ops pb_user) ?T 0 [] = Some ?i"
    using st rem by (simp add: tick_packet_def demo_wire_end(2))
  obtain w c' where s: "conn_send plain_ocb pb_codec (\<lambda>_. True) 0 0 ?c ?i = Some (Inr (), [w], c')"
    using small_send [OF i(2,3)] unfolding demo_conn_def by blast
  have t: "transport_tick plain_ocb pb_codec (\<lambda>_. True) (user_ops pb_user) ?T 0 0 0 [] =
      Some (Inr (), [w], ?T\<lparr>tr_sender := S, tr_connection := c'\<rparr>)"
    using st rem s by (simp add: transport_tick_def demo_wire_end(2) Let_def)
  have "length (pieces pb_codec n ?i) = max (div_ceil (length (pb_instruction ?i)) 1214) 1" for n
    using cut_length [of 1214 n "pb_instruction ?i"] by (simp add: pieces_def pb_codec_def max_fragment_payload_IPV4)
  moreover have "div_ceil (length (pb_instruction ?i)) 1214 \<le> 1" using i(3) by (simp add: div_ceil_le_iff)
  ultimately have small: "length (pieces pb_codec n ?i) \<le> 32768" for n by simp
  have "num_room (tr_sender ?T)"
    by (simp add: demo_wire_end num_room_def sent_state_last_def sender_new_def SHUTDOWN_NUM_def word_gt_0)
  then have "tick_room pb_codec (user_ops pb_user) ?T 0 []"
    using p small by (simp add: tick_room_def frag_room_def demo_wire_end(2) demo_conn_def set_remote_addr_def
        connection_build_def fragmenter_new_def)
  then show thesis using that p i(1) t by blast
qed

theorem tick_datagrams_catch_up_witness:
  "\<exists>w T s. transport_tick plain_ocb pb_codec (\<lambda>_. True) (user_ops pb_user) (end_a (the_net demo_wire)) 0 0 0 [] =
       Some (Inr (), [w], T) \<and> events s = [UserByte 108] \<and>
     (let d = fst (get_remote_diff (user_ops pb_user)
         (arrive_all plain_ocb pb_codec (user_ops pb_user) [w] [(0, 0, 0, 9), (0, 0, 0, 9)] (end_b (the_net demo_wire))))
      in if d = [] then s = delivered (the_net demo_wire)
         else apply_string (user_ops pb_user) (delivered (the_net demo_wire)) d = Inr s)"
proof -
  let ?N = "the_net demo_wire" and ?as = "[(0, 0, 0, 9), (0, 0, 0, 9)] :: wire_arrival list"
  obtain i w T where w: "tick_packet (user_ops pb_user) (end_a ?N) 0 [] = Some i" "old_num i = Some 0"
    "tick_room pb_codec (user_ops pb_user) (end_a ?N) 0 []"
    "transport_tick plain_ocb pb_codec (\<lambda>_. True) (user_ops pb_user) (end_a ?N) 0 0 0 [] = Some (Inr (), [w], T)"
    by (rule demo_wire_sends)
  obtain d T' where g: "get_remote_diff (user_ops pb_user)
      (arrive_all plain_ocb pb_codec (user_ops pb_user) [w] ?as (end_b ?N)) = (d, T')" by fastforce
  have "old_num i = Some (sent_state_acked (tr_sender (end_a ?N)))"
    by (simp add: w(2) demo_wire_end sent_state_acked_def sender_new_def)
  moreover have "length (received_states (end_b ?N)) \<le> RECEIVED_STATES_MAX" "fst ` set ?as = {..<length [w]}" "net_clock ?N \<le> 0"
    by (auto simp: demo_wire_end demo_server0_def transport_new_def RECEIVED_STATES_MAX_def)
  ultimately obtain s where "if d = [] then s = delivered ?N else apply_string (user_ops pb_user) (delivered ?N) d = Inr s"
    "made ?N = Resize 80 24 # events s"
    using tick_datagrams_catch_up [OF pb_user_laws plain_ocb_laws pb_codec_laws demo_wire_run refl _ w(3,1) _ w(4) _ _ g] by blast
  then show ?thesis using w(4) g by (auto simp: demo_wire_end Let_def intro!: exI [of _ s])
qed

end
