(* ===== verification/Wire_Screens.thy ===== *)
theory Wire_Screens
  imports Wire_Delivery
begin

text \<open>
  The screens a client holds at the end of a run over datagrams, and a run in which the server's prompt
  reaches the client in a datagram.
\<close>

section \<open>A run for the witness\<close>

definition demo_screens :: "(vterm mosh_terminal complete, user_stream, version) dnet" where
  "demo_screens = \<lparr>the_net =
     \<lparr>net_clock = 0,
      end_a = transport_new ref_ops (user_ops pb_user) 0 0 (set_remote_addr (demo_conn True) 7) ref_state0 user_stream_new,
      end_b = transport_new (user_ops pb_user) ref_ops 0 0 (demo_conn False) user_stream_new ref_state0,
      wire_ab = {}, wire_ba = {}, made = version_of ref_state0, delivered = ref_state0\<rparr>,
     sent_ab = {}, sent_ba = {}\<rparr>"

lemma demo_screens_run:
  "screen_run plain_ocb pb_codec (replicate 16 0) ref_em ref_good pb_host pb_user demo_screens [version_of ref_state0]"
proof -
  have "fresh_link (replicate 16 0) True demo_screens"
    using demo_connected(2) [of True] demo_connected(1) [of False]
    by (simp add: fresh_link_def demo_screens_def transport_new_def)
  moreover have "screen_start ref_em pb_host (user_ops pb_user) (the_net demo_screens)"
    by (auto simp: screen_start_def demo_screens_def ref_state0_new)
  ultimately have "screen_run plain_ocb pb_codec (replicate 16 0) ref_em ref_good pb_host pb_user demo_screens
      [made (the_net demo_screens)]" by (rule screen_wire_start [rotated])
  then show ?thesis by (simp add: demo_screens_def)
qed

text \<open>The shell writes its prompt.\<close>

definition demo_prompt :: "(vterm mosh_terminal complete, user_stream, version) dnet" where
  "demo_prompt = demo_screens\<lparr>the_net := (the_net demo_screens)
     \<lparr>end_a := (end_a (the_net demo_screens))\<lparr>tr_sender := set_current_state (tr_sender (end_a (the_net demo_screens))) prompt_state\<rparr>,
      made := version_of prompt_state\<rparr>\<rparr>"

lemma demo_prompt_run:
  "screen_run plain_ocb pb_codec (replicate 16 0) ref_em ref_good pb_host pb_user demo_prompt [version_of ref_state0, (prompt_screen, 0)]"
proof -
  let ?N = "the_net demo_screens"
  let ?N' = "?N\<lparr>end_a := (end_a ?N)\<lparr>tr_sender := set_current_state (tr_sender (end_a ?N)) prompt_state\<rparr>, made := version_of prompt_state\<rparr>"
  have "\<not> shutdown_in_progress (tr_sender (end_a ?N))" by (simp add: demo_screens_def transport_new_def sender_new_def)
  then have "net_step ref_ops (user_ops pb_user) (\<lambda>x _. x) (\<lambda>x _. version_of x) ?N (Act prompt_state) ?N'" by (rule step_act)
  then have step: "showing_step plain_ocb pb_codec ref_em pb_host pb_user demo_screens (Local (Act prompt_state)) demo_prompt"
    unfolding demo_prompt_def by (rule dgram_local) (simp add: local_step_def)
  have x: "prompt_state = server_act ref_em prompt_event (current_state (tr_sender (end_a ?N)))"
    by (simp add: demo_screens_def transport_new_def sender_new_def prompt_state_def)
  have g: "ref_good (screen prompt_state)" using prompt_version prompt_good by (simp add: version_of_def)
  have f: "follows (made ?N) (version_of prompt_state)"
    by (simp add: prompt_version follows_def demo_screens_def version_of_def ref_state0_def snapshot_new_def)
  from screen_wire_act [OF demo_screens_run x g f step] show ?thesis by (simp add: prompt_version)
qed

text \<open>What is written for the prompt: its cell and the cursor behind it.\<close>

definition prompt_ops :: "vt list" where
  "prompt_ops = [SetSgr [0], Cup 1 1, Print [36], Cup 1 2]"

lemma diff_row_same:
  assumes "\<forall>i<n. x \<le> i \<longrightarrow> vec_get i old = vec_get i new \<and> cell_sgr (new ! i) = default_style \<and> \<not> wide (new ! i)"
  shows "diff_row n y old new x default_style pos = []"
  using assms
proof (induction "n - x" arbitrary: x pos)
  case (Suc k)
  then have x: "x < n" by simp
  have "diff_row n y old new (x + 1) default_style q = []" for q using Suc.prems Suc.hyps(2) by (intro Suc.hyps(1)) auto
  then show ?case using x Suc.prems by (subst diff_row.simps) (simp add: Let_def)
qed (subst diff_row.simps, simp)

lemma prompt_grid:
  "grid prompt_screen = (replicate 24 (replicate 80 cell_empty))[0 := (replicate 80 cell_empty)[0 := cell_empty\<lparr>cell_text := [36]\<rparr>]]"
  "grid (snapshot_new 80 24) = replicate 24 (replicate 80 cell_empty)"
  by (simp_all add: prompt_screen_def cell_mut_def snapshot_new_def)

lemma prompt_row:
  "diff_row 80 0 (replicate 80 cell_empty) ((replicate 80 cell_empty)[0 := cell_empty\<lparr>cell_text := [36]\<rparr>]) 0 default_style None =
     [Cup 1 1, Print [36]]"
proof -
  let ?old = "replicate 80 cell_empty" and ?new = "(replicate 80 cell_empty)[0 := cell_empty\<lparr>cell_text := [36]\<rparr>]"
  have "diff_row 80 0 ?old ?new 1 default_style q = []" for q
    by (rule diff_row_same) (simp add: vec_get_def cell_empty_def)
  moreover have "vec_get 0 ?old \<noteq> vec_get 0 ?new" by (simp add: vec_get_def cell_empty_def)
  ultimately show ?thesis by (subst diff_row.simps) (simp add: Let_def cell_empty_def cell_print_def)
qed

lemma prompt_diff: "display_diff (snapshot_new 80 24) prompt_screen = prompt_ops"
proof -
  let ?blank = "replicate 80 cell_empty" and ?row = "(replicate 80 cell_empty)[0 := cell_empty\<lparr>cell_text := [36]\<rparr>]"
  have ne: "?row \<noteq> ?blank" by (metis cell_data.ext_inject cell_data.surjective cell_data.update_convs(1) cell_empty_def
      length_replicate list.distinct(1) nth_list_update_eq nth_replicate zero_less_numeral)
  have "position ((=) ?row) (replicate n ?blank) = None" for n using ne by (simp add: position_None)
  then have scroll: "detect_scroll (replicate 24 ?blank) prompt_screen = None"
    by (simp add: detect_scroll_def prompt_grid Let_def)
  have rest: "(replicate 24 ?blank)[0 := ?row] ! y = replicate 24 ?blank ! y" if "y \<in> set [1..<24]" for y using that by simp
  have "map (\<lambda>y. if replicate 24 ?blank ! y = (replicate 24 ?blank)[0 := ?row] ! y then []
      else SetSgr [0] # diff_row 80 y (replicate 24 ?blank ! y) ((replicate 24 ?blank)[0 := ?row] ! y) 0 default_style None) [1..<24] = map (\<lambda>y. []) [1..<24]"
    by (rule map_cong [OF refl]) (simp add: rest del: set_upt)
  then have rows: "diff_rows 80 0 24 (replicate 24 ?blank) ((replicate 24 ?blank)[0 := ?row]) = [SetSgr [0], Cup 1 1, Print [36]]"
    using ne prompt_row unfolding diff_rows_def by (subst upt_conv_Cons) simp_all
  have same: "state_changes (Some (snapshot_new 80 24)) prompt_screen = []"
    by (simp add: state_changes_def prompt_screen_def snapshot_new_def cell_mut_def Let_def)
  have fields: "cols prompt_screen = 80" "rows_count prompt_screen = 24" "cols (snapshot_new 80 24) = 80" "rows_count (snapshot_new 80 24) = 24"
    "cursor_y prompt_screen = 0" "cursor_x prompt_screen = 1" "cursor_visible prompt_screen = cursor_visible (snapshot_new 80 24)"
    by (simp_all add: prompt_screen_def snapshot_new_def cell_mut_def)
  show ?thesis unfolding display_diff_def fields prompt_grid scroll same by (simp add: rows Let_def prompt_ops_def)
qed

text \<open>The packet that the server's tick sends, and the datagram it becomes.\<close>

definition demo_down_inst :: instruction where
  "demo_down_inst = \<lparr>protocol_version = Some MORSH_PROTOCOL_VERSION, old_num = Some 0, new_num = Some 1, ack_num = Some 0,
     throwaway_num = Some 0,
     diff = Some (hm_encode pb_host [\<lparr>hostbytes = Some (Some (utf8 (vt_string prompt_ops))), host_resize = None, echoack = None\<rparr>]),
     chaff = Some []\<rparr>"

lemma demo_down_small: "pb_instruction demo_down_inst \<noteq> [] \<and> length (pb_instruction demo_down_inst) \<le> 1214"
  by code_simp

lemma demo_down_diff:
  "complete_diff_from pb_host prompt_state (complete_clone ref_state0) =
     hm_encode pb_host [\<lparr>hostbytes = Some (Some (utf8 (vt_string prompt_ops))), host_resize = None, echoack = None\<rparr>]"
proof -
  have s: "screen prompt_state = prompt_screen" "echo_ack prompt_state = 0" using prompt_version by (simp_all add: version_of_def)
  have "vt_string prompt_ops \<noteq> []" by (simp add: vt_string_def prompt_ops_def)
  moreover have "snapshot_new 80 24 \<noteq> prompt_screen" "cols prompt_screen = 80" "rows_count prompt_screen = 24"
    using prompt_ops_def prompt_diff by (auto simp: prompt_screen_def snapshot_new_def cell_mut_def)
  ultimately show ?thesis
    using prompt_diff by (simp add: complete_diff_from_def host_diff_def s complete_clone_def ref_state0_def Let_def) (simp add: snapshot_new_def)
qed

lemma demo_prompt_ends:
  "tr_sender (end_a (the_net demo_prompt)) = (sender_new ref_ops 0 ref_state0)\<lparr>current_state := prompt_state\<rparr>"
  "tr_connection (end_a (the_net demo_prompt)) = set_remote_addr (demo_conn True) 7"
  "end_b (the_net demo_prompt) = transport_new (user_ops pb_user) ref_ops 0 0 (demo_conn False) user_stream_new ref_state0"
  "net_clock (the_net demo_prompt) = 0"
  by (simp_all add: demo_prompt_def demo_screens_def transport_new_def sender_new_def set_current_state_def)

lemma demo_prompt_tick:
  "fst (sender_tick ref_ops (tr_sender (end_a (the_net demo_prompt))) 0 timeout srtt True []) = Some demo_down_inst"
  using prompt_differs demo_down_diff unfolding demo_prompt_ends demo_down_inst_def
  by (simp add: tick_defs sender_new_def complete_ops_def ms_def SENT_STATES_MAX_def SHUTDOWN_NUM_def)

lemma small_pieces: "length (pb_instruction i) \<le> 1214 \<Longrightarrow> length (pieces pb_codec n i) \<le> 32768"
proof -
  assume "length (pb_instruction i) \<le> 1214"
  then have "div_ceil (length (pb_instruction i)) 1214 \<le> 1" by (simp add: div_ceil_le_iff)
  moreover have "length (pieces pb_codec n i) = max (div_ceil (length (pb_instruction i)) 1214) 1"
    using cut_length [of 1214 n "pb_instruction i"] by (simp add: pieces_def pb_codec_def max_fragment_payload_IPV4)
  ultimately show ?thesis by simp
qed

text \<open>The run: the prompt, the server's tick, and the datagram at the client, which then has the prompt on its screen.\<close>

lemma demo_shown:
  "\<exists>W. screen_run plain_ocb pb_codec (replicate 16 0) ref_em ref_good pb_host pb_user W [version_of ref_state0, (prompt_screen, 0)] \<and>
     screen (ts_state (get_latest_remote_state (end_b (the_net W)))) = prompt_screen"
proof -
  let ?N = "the_net demo_prompt" and ?c = "set_remote_addr (demo_conn True) 7" and ?i = demo_down_inst and ?p = "demo_conn False"
  have rem: "has_remote_addr ?c" by (simp add: set_remote_addr_def)
  obtain S where st: "sender_tick ref_ops (tr_sender (end_a ?N)) 0 (conn_timeout ?c) (srtt_ms (conn_rtt ?c)) True [] = (Some ?i, S)"
    using demo_prompt_tick [of "conn_timeout ?c" "srtt_ms (conn_rtt ?c)"] by (metis prod.collapse)
  have p: "tick_packet ref_ops (end_a ?N) 0 [] = Some ?i"
    using st rem by (simp add: tick_packet_def demo_prompt_ends(2))
  obtain w c' where s: "conn_send plain_ocb pb_codec (\<lambda>_. True) 0 0 ?c ?i = Some (Inr (), [w], c')" "next_instruction_id (fragger c') = 1"
    using small_send demo_down_small unfolding demo_conn_def by blast
  let ?T = "(end_a ?N)\<lparr>tr_sender := S, tr_connection := c'\<rparr>"
  have t: "transport_tick plain_ocb pb_codec (\<lambda>_. True) ref_ops (end_a ?N) 0 0 0 [] = Some (Inr (), [w], ?T)"
    using st rem s(1) by (simp add: transport_tick_def demo_prompt_ends(2) Let_def)
  have nr: "num_room (tr_sender (end_a ?N))"
    by (simp add: demo_prompt_ends num_room_def sent_state_last_def sender_new_def SHUTDOWN_NUM_def word_gt_0)
  have "length (pieces pb_codec n ?i) \<le> 32768" for n by (rule small_pieces) (use demo_down_small in simp)
  then have room: "tick_room pb_codec ref_ops (end_a ?N) 0 []"
    using p nr by (simp add: tick_room_def frag_room_def demo_prompt_ends(2) demo_conn_def set_remote_addr_def
        connection_build_def fragmenter_new_def)
  define W2 where "W2 = demo_prompt\<lparr>the_net := ?N\<lparr>net_clock := 0, end_a := ?T,
      wire_ab := wire_ab ?N \<union> emitted (tick_packet ref_ops (end_a ?N) 0 [])\<rparr>, sent_ab := sent_ab demo_prompt \<union> set [w]\<rparr>"
  have r2: "screen_run plain_ocb pb_codec (replicate 16 0) ref_em ref_good pb_host pb_user W2 [version_of ref_state0, (prompt_screen, 0)]"
    unfolding W2_def
    by (rule screen_wire_net [OF demo_prompt_run dgram_send_a [OF refl _ room t]]) (simp_all add: demo_prompt_ends)
  have "fst (receive_all plain_ocb pb_codec 0 0 9 ?p (map ((!) [w]) ([] @ [0]))) = replicate (length ([] :: nat list)) (Inr None) @ [Inr (Some ?i)]"
    by (rule instruction_crosses [OF plain_ocb_laws pb_codec_laws _ s(1)])
      (auto simp: s(2) demo_conn_def set_remote_addr_def connection_build_def session_new_def assembly_new_def)
  then obtain p' where inc: "process_incoming plain_ocb pb_codec ?p 0 0 0 w 9 = (Inr (Some ?i), p')"
    by (auto simp: split_beta Let_def prod_eq_iff)
  have b2: "end_b (the_net W2) = end_b ?N" "tr_connection (end_b ?N) = ?p"
    by (simp_all add: W2_def demo_prompt_ends(3) transport_new_def)
  obtain r T where pi: "process_instruction ref_ops ((end_b ?N)\<lparr>tr_connection := p'\<rparr>) ?i 0 0 = (r, T)" by fastforce
  have dg: "process_datagram plain_ocb pb_codec ref_ops (end_b (the_net W2)) 0 0 w 9 = (r, T)"
    using inc pi by (simp add: process_datagram_def b2)
  have "can_arrive plain_ocb (sent_ab W2 \<union> sent_ba W2) (tr_connection (end_b (the_net W2))) w"
    by (simp add: can_arrive_def W2_def)
  then have "screen_run plain_ocb pb_codec (replicate 16 0) ref_em ref_good pb_host pb_user
      (W2\<lparr>the_net := (the_net W2)\<lparr>end_b := T\<rparr>\<rparr>) [version_of ref_state0, (prompt_screen, 0)]"
    using screen_wire_net [OF r2 dgram_receive_b [OF refl _ dg]] by blast
  moreover have "version_of (ts_state (get_latest_remote_state T)) = version_of prompt_state"
  proof -
    let ?N1 = "?N\<lparr>end_b := (end_b ?N)\<lparr>tr_connection := p'\<rparr>\<rparr>"
    have "screen_session ref_em ref_good pb_host (user_ops pb_user) ?N [version_of ref_state0, (prompt_screen, 0)]"
      using screen_run_session [OF pb_user_laws plain_ocb_laws pb_codec_laws demo_prompt_run] by blast
    then have N1: "screen_session ref_em ref_good pb_host (user_ops pb_user) ?N1 [version_of ref_state0, (prompt_screen, 0)]"
      by (rule session_net [OF _ step_conn_b]) simp
    have "version_of (ts_state (get_latest_remote_state T)) = version_of (current_state (tr_sender (end_a ?N1)))"
    proof (rule ref.emulator.session_catches_up [OF pb_host_laws N1])
      show "sender_tick ref_ops (tr_sender (end_a ?N1)) 0 (conn_timeout ?c) (srtt_ms (conn_rtt ?c)) True [] = (Some ?i, S)"
        using st by simp
      show "process_instruction ref_ops (end_b ?N1) ?i 0 0 = (r, T)" using pi by simp
    qed (use nr in \<open>simp_all add: demo_prompt_ends demo_down_inst_def sent_state_acked_def sender_new_def transport_new_def RECEIVED_STATES_MAX_def\<close>)
    then show ?thesis by (simp add: demo_prompt_ends)
  qed
  ultimately show ?thesis using prompt_version by (auto simp: version_of_def intro!: exI)
qed

section \<open>The property\<close>

text \<open>
  C24. Over a hostile network, every screen and echo acknowledgement that the client holds, the one it
  shows included, is one that the server's terminal had at some moment: no mixture of screens is ever
  shown, whatever is repeated, reordered or forged. This is about runs in which both ends start with an
  80x24 screen, as they do when the client's window has that size; every screen of the server is well formed
  (\<open>good_screen\<close>: wide glyphs in two cells, texts that are graphemes, the colours of the palette unchanged);
  the server's window title is never removed once there is one; and its echo acknowledgement does not fall.
  Of the emulator library only the behaviour of the client's terminals is assumed (\<open>ghostty_library\<close>), which
  this program alone writes to; of \<open>prost\<close>, that it decodes what it encodes.
\<close>

theorem screens_are_genuine_on_the_wire:
  assumes "ghostty_library G vw tame ww grapheme colors" and "host_codec_laws H" and "user_codec_laws U"
    and "ocb_laws C" and "codec_laws Z"
    and "screen_run C Z key (mosh_emulator G) (good_screen ww grapheme colors) H U W vs"
  shows "version_of (ts_state (get_latest_remote_state (end_b (the_net W)))) \<in> set vs \<and>
    (\<forall>t\<in>set (received_states (end_b (the_net W))). version_of (ts_state t) \<in> set vs)"
  by (rule ghostty_library.screens_genuine [OF assms(1,2)])
     (rule conjunct1 [OF screen_run_session [OF assms(3-6)]])

text \<open>After a run in which the prompt reaches the client, the screen it shows is the prompt, one of the two the server had.\<close>

theorem screens_are_genuine_on_the_wire_witness:
  "\<exists>W. screen_run plain_ocb pb_codec (replicate 16 0) ref_em ref_good pb_host pb_user W [version_of ref_state0, (prompt_screen, 0)] \<and>
     screen (ts_state (get_latest_remote_state (end_b (the_net W)))) = prompt_screen \<and>
     version_of (ts_state (get_latest_remote_state (end_b (the_net W)))) \<in> {version_of ref_state0, (prompt_screen, 0)}"
proof -
  obtain W where W: "screen_run plain_ocb pb_codec (replicate 16 0) ref_em ref_good pb_host pb_user W [version_of ref_state0, (prompt_screen, 0)]"
    "screen (ts_state (get_latest_remote_state (end_b (the_net W)))) = prompt_screen" using demo_shown by blast
  from screens_are_genuine_on_the_wire [OF ref.ghostty_library_axioms pb_host_laws pb_user_laws plain_ocb_laws pb_codec_laws W(1)] W(2)
  show ?thesis using W(1) by (intro exI [of _ W]) simp
qed

end
