(* ===== verification/Rust_Text.thy ===== *)
theory Rust_Text
  imports Utf8
begin

text \<open>
  The operations on \<open>str\<close> that command lines and configuration are read with, on lists of code points:
  splitting, trimming, searching, numbers.
\<close>

definition str :: "string \<Rightarrow> rtext" where
  "str s = map of_char s"

lemma str_simps [simp]: "str [] = []" "str (c # cs) = of_char c # str cs"
  by (simp_all add: str_def)

text \<open>\<open>char::is_whitespace\<close>: the characters with the property White\_Space.\<close>

definition is_whitespace :: "rchar \<Rightarrow> bool" where
  "is_whitespace c \<longleftrightarrow> 9 \<le> c \<and> c \<le> 13 \<or> c \<in> {32, 133, 160, 5760, 8232, 8233, 8239, 8287, 12288} \<or> 8192 \<le> c \<and> c \<le> 8202"

definition trim_start :: "rtext \<Rightarrow> rtext" where
  "trim_start = dropWhile is_whitespace"

definition trim_end :: "rtext \<Rightarrow> rtext" where
  "trim_end s = rev (dropWhile is_whitespace (rev s))"

definition trim :: "rtext \<Rightarrow> rtext" where
  "trim s = trim_end (trim_start s)"

fun split_once :: "rchar \<Rightarrow> rtext \<Rightarrow> (rtext \<times> rtext) option" where
  "split_once c [] = None"
| "split_once c (x # xs) = (if x = c then Some ([], xs) else map_option (map_prod ((#) x) id) (split_once c xs))"

definition rsplit_once :: "rchar \<Rightarrow> rtext \<Rightarrow> (rtext \<times> rtext) option" where
  "rsplit_once c s = map_option (\<lambda>(a, b). (rev b, rev a)) (split_once c (rev s))"

fun strip_prefix :: "rtext \<Rightarrow> rtext \<Rightarrow> rtext option" where
  "strip_prefix [] s = Some s"
| "strip_prefix (p # ps) [] = None"
| "strip_prefix (p # ps) (x # xs) = (if x = p then strip_prefix ps xs else None)"

definition starts_with :: "rtext \<Rightarrow> rtext \<Rightarrow> bool" where
  "starts_with s p \<longleftrightarrow> strip_prefix p s \<noteq> None"

fun has_text :: "rtext \<Rightarrow> rtext \<Rightarrow> bool" where
  "has_text [] p = (p = [])"
| "has_text (x # xs) p = (starts_with (x # xs) p \<or> has_text xs p)"

definition replace_char :: "rchar \<Rightarrow> rtext \<Rightarrow> rtext \<Rightarrow> rtext" where
  "replace_char c new s = concat (map (\<lambda>x. if x = c then new else [x]) s)"

text \<open>\<open>split_whitespace\<close>.\<close>

function words :: "rtext \<Rightarrow> rtext list" where
  "words s =
     (case dropWhile is_whitespace s of
        [] \<Rightarrow> []
      | x # xs \<Rightarrow> (x # takeWhile (\<lambda>c. \<not> is_whitespace c) xs) # words (dropWhile (\<lambda>c. \<not> is_whitespace c) xs))"
  by pat_completeness auto
termination
proof (relation "measure length", goal_cases)
  case (2 s x xs)
  have "length (x # xs) \<le> length s" using length_dropWhile_le [of is_whitespace s] 2 by simp
  moreover have "length (dropWhile (\<lambda>c. \<not> is_whitespace c) xs) \<le> length xs" by (rule length_dropWhile_le)
  ultimately show ?case by simp
qed simp

declare words.simps [simp del]

text \<open>\<open>join\<close>.\<close>

fun join :: "rtext \<Rightarrow> rtext list \<Rightarrow> rtext" where
  "join sep [] = []"
| "join sep [x] = x"
| "join sep (x # y # ys) = x @ sep @ join sep (y # ys)"

definition to_ascii_lowercase :: "rtext \<Rightarrow> rtext" where
  "to_ascii_lowercase = map (\<lambda>c. if 65 \<le> c \<and> c \<le> 90 then c + 32 else c)"

text \<open>\<open>parse\<close> of an unsigned integer that is at most \<open>bound\<close>: an optional plus sign, then digits.\<close>

definition is_digit :: "rchar \<Rightarrow> bool" where
  "is_digit c \<longleftrightarrow> 48 \<le> c \<and> c \<le> 57"

definition digits_value :: "rtext \<Rightarrow> nat" where
  "digits_value = foldl (\<lambda>a c. a * 10 + (c - 48)) 0"

definition parse_uint :: "nat \<Rightarrow> rtext \<Rightarrow> nat option" where
  "parse_uint bound s =
     (let ds = (case s of [] \<Rightarrow> [] | c # cs \<Rightarrow> if c = 43 then cs else s)
      in if ds \<noteq> [] \<and> list_all is_digit ds \<and> digits_value ds \<le> bound then Some (digits_value ds) else None)"

text \<open>\<open>to_string\<close> of an unsigned integer.\<close>

fun show_nat :: "nat \<Rightarrow> rtext" where
  "show_nat n = (if n < 10 then [48 + n] else show_nat (n div 10) @ [48 + n mod 10])"

declare show_nat.simps [simp del]

section \<open>Laws\<close>

lemma split_once_append: "c \<notin> set a \<Longrightarrow> split_once c (a @ c # b) = Some (a, b)"
  by (induction a) auto

lemma split_once_none: "split_once c s = None \<longleftrightarrow> c \<notin> set s"
  by (induction s) auto

lemma digits_value_snoc: "digits_value (ds @ [c]) = digits_value ds * 10 + (c - 48)"
  by (simp add: digits_value_def)

lemma show_nat_digits: "list_all is_digit (show_nat n) \<and> show_nat n \<noteq> [] \<and> digits_value (show_nat n) = n"
proof (induction n rule: show_nat.induct)
  case (1 n)
  show ?case
  proof (cases "n < 10")
    case True
    then show ?thesis by (subst (1 2 3) show_nat.simps) (simp add: is_digit_def digits_value_def)
  next
    case False
    have "n div 10 * 10 + n mod 10 = n" by (rule div_mult_mod_eq)
    moreover have "n mod 10 < 10" by simp
    then have "is_digit (48 + n mod 10)" unfolding is_digit_def by linarith
    ultimately show ?thesis
      using 1 False by (subst (1 2 3) show_nat.simps) (simp add: digits_value_snoc)
  qed
qed

lemma parse_show: "n \<le> bound \<Longrightarrow> parse_uint bound (show_nat n) = Some n"
proof -
  assume n: "n \<le> bound"
  obtain c cs where s: "show_nat n = c # cs" using show_nat_digits by (meson list.exhaust)
  then have "c \<noteq> 43" using show_nat_digits [of n] by (auto simp: is_digit_def)
  then have "(case show_nat n of [] \<Rightarrow> [] | c # cs \<Rightarrow> if c = 43 then cs else show_nat n) = show_nat n" using s by simp
  then show ?thesis using n show_nat_digits [of n] by (simp add: parse_uint_def)
qed

interpretation decimal: wire_format show_nat "parse_uint bound" "\<lambda>n. n \<le> bound" for bound
  by unfold_locales (rule parse_show)

lemma parse_uint_bound: "parse_uint bound s = Some n \<Longrightarrow> n \<le> bound"
  by (auto simp: parse_uint_def Let_def split: if_splits)

lemma digit_not_space: "is_digit c \<Longrightarrow> \<not> is_whitespace c"
  by (auto simp: is_digit_def is_whitespace_def)

lemma words_nil [simp]: "words [] = []"
  by (subst words.simps) simp

lemma words_skip: "is_whitespace c \<Longrightarrow> words (c # s) = words s"
  by (subst (1 2) words.simps) simp

lemma words_word:
  assumes "w \<noteq> []" and "\<forall>c\<in>set w. \<not> is_whitespace c" and "s = [] \<or> is_whitespace (hd s)"
  shows "words (w @ s) = w # words s"
proof -
  obtain x xs where w: "w = x # xs" using assms(1) by (meson list.exhaust)
  have t: "takeWhile (\<lambda>c. \<not> is_whitespace c) (xs @ s) = xs" "dropWhile (\<lambda>c. \<not> is_whitespace c) (xs @ s) = s"
    using assms(2,3) w by (cases s; simp add: takeWhile_append dropWhile_append)+
  then show ?thesis using assms(2) w by (subst words.simps) simp
qed

end
