(* ===== verification/Launch.thy ===== *)
theory Launch
  imports Rust_Text
begin

text \<open>
  \<open>crates/morsh-wrapper\<close>: the command that starts the server on the remote host, quoted for its shell, what
  is read of the answers of ssh, and the choice of host, port and keys. Running processes, sockets, name
  resolution and reading the environment are inputs; \<open>None\<close> of an exit is the exit of the process.
\<close>

section \<open>The remote shell\<close>

datatype remote_shell = Posix | Cmd | PowerShell

text \<open>The outer \<open>None\<close> is the exit on an unknown value, the inner \<open>None\<close> is \<open>auto\<close>.\<close>

definition resolve_remote_shell_value :: "rtext \<Rightarrow> remote_shell option option" where
  "resolve_remote_shell_value v =
     (if v = str ''auto'' then Some None
      else if v \<in> {str ''posix'', str ''sh'', str ''bash''} then Some (Some Posix)
      else if v \<in> {str ''cmd'', str ''cmd.exe''} then Some (Some Cmd)
      else if v \<in> {str ''powershell'', str ''pwsh''} then Some (Some PowerShell)
      else None)"

definition SHELL_PROBE :: rtext where
  "SHELL_PROBE = str ''echo $PSVersionTable.PSEdition''"

definition classify_shell_probe :: "bool \<Rightarrow> rtext \<Rightarrow> remote_shell" where
  "classify_shell_probe success stdout =
     (let out = trim stdout
      in if \<not> success \<or> out = [] \<or> has_text out (str ''$PSVersionTable'') then Cmd
         else if out = str ''Desktop'' \<or> out = str ''Core'' then PowerShell
         else Posix)"

section \<open>The server's command line\<close>

datatype bind_server = SshConnection | AnyAddress | Address rtext

record args =
  port_range :: "rtext option"
  server_log_file :: "rtext option"
  arg_no_daemonize :: bool
  server_path :: rtext
  arg_command :: "rtext list"

definition bind_of :: "rtext \<Rightarrow> bind_server" where
  "bind_of v = (if v = str ''any'' then AnyAddress else if v = str ''ssh'' then SshConnection else Address v)"

definition locale_names :: "rtext list" where
  "locale_names = map str
     [''LANG'', ''LC_CTYPE'', ''LC_NUMERIC'', ''LC_TIME'', ''LC_COLLATE'', ''LC_MONETARY'', ''LC_MESSAGES'',
      ''LC_PAPER'', ''LC_NAME'', ''LC_ADDRESS'', ''LC_TELEPHONE'', ''LC_MEASUREMENT'', ''LC_IDENTIFICATION'', ''LC_ALL'']"

definition collect_locale_vars :: "(rtext \<Rightarrow> rtext option) \<Rightarrow> (rtext \<times> rtext) list" where
  "collect_locale_vars env =
     concat (map (\<lambda>n. case env n of Some v \<Rightarrow> [(n, v)] | None \<Rightarrow> []) locale_names)"

definition build_server_args ::
  "rtext \<Rightarrow> bind_server \<Rightarrow> rtext option \<Rightarrow> rtext option \<Rightarrow> bool \<Rightarrow> rtext list \<Rightarrow> (rtext \<times> rtext) list \<Rightarrow> rtext list" where
  "build_server_args path bind rg log foreground command vars =
     [path, str ''new'']
     @ (case bind of SshConnection \<Rightarrow> [str ''-s''] | Address ip \<Rightarrow> [str ''-i'', ip] | AnyAddress \<Rightarrow> [])
     @ (case rg of Some r \<Rightarrow> [str ''-p'', r] | None \<Rightarrow> [])
     @ concat (map (\<lambda>(name, val). [str ''-l'', name @ str ''='' @ val]) vars)
     @ (case log of Some p \<Rightarrow> [str ''--log-file'', p] | None \<Rightarrow> [])
     @ (if foreground then [str ''-D''] else [])
     @ (if command \<noteq> [] then str ''--'' # command else [])"

section \<open>Quoting\<close>

definition plain_char :: "rchar \<Rightarrow> bool" where
  "plain_char c \<longleftrightarrow> 48 \<le> c \<and> c \<le> 57 \<or> 65 \<le> c \<and> c \<le> 90 \<or> 97 \<le> c \<and> c \<le> 122 \<or> c \<in> set (str ''@%+=:,./-_'')"

definition shell_quote :: "rtext \<Rightarrow> rtext" where
  "shell_quote s =
     (if s \<noteq> [] \<and> list_all plain_char s then s
      else [39] @ replace_char 39 [39, 92, 39, 39] s @ [39])"

definition shell_quote_all :: "rtext list \<Rightarrow> rtext" where
  "shell_quote_all parts = join [32] (map shell_quote parts)"

definition cmd_quote :: "rtext \<Rightarrow> rtext" where
  "cmd_quote s = (if 32 \<in> set s \<or> 9 \<in> set s then [34] @ replace_char 34 [34, 34] s @ [34] else s)"

definition pwsh_quote :: "rtext \<Rightarrow> rtext" where
  "pwsh_quote s = [39] @ replace_char 39 [39, 39] s @ [39]"

section \<open>The launch command\<close>

definition locale_export :: "(rtext \<times> rtext) list \<Rightarrow> rtext" where
  "locale_export vars =
     (if vars = [] then str ''export LC_ALL=C.UTF-8''
      else str ''export '' @ join [32] (map (\<lambda>(n, v). n @ str ''='' @ shell_quote v) (filter (\<lambda>(n, v). v \<noteq> []) vars)))"

definition render_remote_command ::
  "remote_shell \<Rightarrow> rtext list \<Rightarrow> rtext list option \<Rightarrow> rtext option \<Rightarrow> (rtext \<times> rtext) list \<Rightarrow> rtext" where
  "render_remote_command shell first second rust_log vars =
     (case shell of
        Posix \<Rightarrow>
          let f = shell_quote_all first;
              base = (case second of
                Some s \<Rightarrow>
                  (case rust_log of
                     Some v \<Rightarrow> str ''(env RUST_LOG='' @ shell_quote v @ str '' '' @ f @ str '' 2>/dev/null) || '' @ shell_quote_all s
                   | None \<Rightarrow> str ''('' @ f @ str '' 2>/dev/null) || '' @ shell_quote_all s)
              | None \<Rightarrow>
                  (case rust_log of
                     Some v \<Rightarrow> str ''env RUST_LOG='' @ shell_quote v @ str '' '' @ f
                   | None \<Rightarrow> f))
          in locale_export vars @ str ''; '' @ base
      | Cmd \<Rightarrow>
          let f = join [32] (map cmd_quote first);
              run = (case second of
                Some s \<Rightarrow> str ''('' @ f @ str '' 2>nul) || '' @ join [32] (map cmd_quote s)
              | None \<Rightarrow> f)
          in (case rust_log of
                Some v \<Rightarrow> str ''set '' @ [34] @ str ''RUST_LOG='' @ v @ [34] @ str '' && ('' @ run @ str '')''
              | None \<Rightarrow> run)
      | PowerShell \<Rightarrow>
          let f = join [32] (map pwsh_quote first);
              run = (case second of
                Some s \<Rightarrow> str ''& '' @ f @ str '' 2>$null; if ($LASTEXITCODE -ne 0) { & '' @ join [32] (map pwsh_quote s) @ str '' }''
              | None \<Rightarrow> str ''& '' @ f)
          in (case rust_log of
                Some v \<Rightarrow> str ''$env:RUST_LOG='' @ [39] @ replace_char 39 [39, 39] v @ [39] @ str ''; '' @ run
              | None \<Rightarrow> run))"

definition build_remote_cmd ::
  "args \<Rightarrow> bind_server \<Rightarrow> remote_shell \<Rightarrow> rtext option \<Rightarrow> (rtext \<times> rtext) list \<Rightarrow> rtext" where
  "build_remote_cmd a bind shell rust_log vars =
     (let build = (\<lambda>path. build_server_args path bind (port_range a) (server_log_file a) (arg_no_daemonize a) (arg_command a) vars)
      in if server_path a = str ''morsh-server'' then
           render_remote_command shell (build (str ''morsh-server'')) (Some (build (str ''mosh-server''))) rust_log vars
         else render_remote_command shell (build (server_path a)) None rust_log vars)"

section \<open>The answer\<close>

record connect_info =
  ci_port :: nat
  ci_key :: rtext
  ci_ip :: "rtext option"

definition parse_connect :: "rtext \<Rightarrow> connect_info option" where
  "parse_connect line =
     (if starts_with line (str ''MOSH CONNECT'') \<and> length (words line) \<ge> 4 then
        (case parse_uint 65535 (words line ! 2) of
           Some port \<Rightarrow> Some \<lparr>ci_port = port, ci_key = words line ! 3, ci_ip = None\<rparr>
         | None \<Rightarrow> None)
      else None)"

text \<open>The loop over the lines that russh hands to its callback.\<close>

definition last_connect :: "rtext list \<Rightarrow> connect_info option" where
  "last_connect ls = fold (\<lambda>l acc. case parse_connect l of Some i \<Rightarrow> Some i | None \<Rightarrow> acc) ls None"

definition parse_ip_line :: "rtext \<Rightarrow> rtext option" where
  "parse_ip_line line = map_option trim (strip_prefix (str ''MOSH IP '') (trim_end line))"

text \<open>The reader of ssh's stderr: the address, and everything else.\<close>

fun read_stderr :: "rtext list \<Rightarrow> rtext option \<Rightarrow> rtext \<Rightarrow> rtext option \<times> rtext" where
  "read_stderr [] ip rest = (ip, rest)"
| "read_stderr (l # ls) ip rest =
     (case (parse_ip_line l, ip) of
        (Some a, None) \<Rightarrow> read_stderr ls (Some a) rest
      | _ \<Rightarrow> read_stderr ls ip (rest @ l @ [10]))"

text \<open>The program and its arguments: ssh's own words come first, so the host is the program if there are none.\<close>

definition ssh_arguments :: "rtext \<Rightarrow> rtext option \<Rightarrow> rtext \<Rightarrow> rtext \<Rightarrow> rtext list" where
  "ssh_arguments ssh_command proxy host remote_cmd =
     words ssh_command
     @ (case proxy of
          Some p \<Rightarrow> [str ''-S'', str ''none'', str ''-o'', str ''ProxyCommand='' @ p]
        | None \<Rightarrow> [])
     @ [host, remote_cmd]"

text \<open>
  The \<open>ProxyCommand\<close> that makes ssh run the fake proxy; \<open>exe\<close> is the program's own path, if it is known and
  is text. A proxy that the user has configured is kept.
\<close>

definition proxy_command :: "bool \<Rightarrow> rtext option \<Rightarrow> rtext option" where
  "proxy_command windows exe =
     map_option (\<lambda>e. replace_char 37 [37, 37] (if windows then [34] @ e @ [34] else shell_quote e)
        @ str '' --fake-proxy -- %h %p'') exe"

text \<open>The arguments of the fake proxy: host and port, or what it complains of.\<close>

definition proxy_target :: "rtext list \<Rightarrow> rtext + rtext \<times> nat" where
  "proxy_target as =
     (case filter (\<lambda>a. a \<noteq> str ''--'') as of
        [host, port] \<Rightarrow>
          (case parse_uint 65535 port of
             Some p \<Rightarrow> Inr (host, p) | None \<Rightarrow> Inl (str ''bad port '' @ [39] @ port @ [39]))
      | _ \<Rightarrow> Inl (str ''usage: morsh --fake-proxy -- HOST PORT''))"

section \<open>Host and port\<close>

record ssh_config =
  hostname :: "rtext option"
  cfg_user :: "rtext option"
  cfg_port :: "nat option"
  identity_files :: "rtext list"
  uses_proxy :: bool
  strict_host_key_checking :: "rtext option"
  host_key_alias :: "rtext option"

definition ssh_config_default :: ssh_config where
  "ssh_config_default =
     \<lparr>hostname = None, cfg_user = None, cfg_port = None, identity_files = [], uses_proxy = False,
      strict_host_key_checking = None, host_key_alias = None\<rparr>"

text \<open>One line of \<open>ssh -G\<close>, and all of them.\<close>

definition config_line :: "rtext \<Rightarrow> ssh_config \<Rightarrow> ssh_config" where
  "config_line line c =
     (case split_once 32 (trim line) of
        None \<Rightarrow> c
      | Some (key, v) \<Rightarrow>
          let v = trim v
          in if key = str ''hostname'' then c\<lparr>hostname := Some v\<rparr>
             else if key = str ''user'' then c\<lparr>cfg_user := Some v\<rparr>
             else if key = str ''port'' then c\<lparr>cfg_port := parse_uint 65535 v\<rparr>
             else if key = str ''identityfile'' then c\<lparr>identity_files := identity_files c @ [v]\<rparr>
             else if key = str ''stricthostkeychecking'' then c\<lparr>strict_host_key_checking := Some v\<rparr>
             else if key = str ''hostkeyalias'' then c\<lparr>host_key_alias := Some v\<rparr>
             else if (key = str ''proxycommand'' \<or> key = str ''proxyjump'') \<and> to_ascii_lowercase v \<noteq> str ''none''
             then c\<lparr>uses_proxy := True\<rparr>
             else c)"

definition parse_config :: "rtext list \<Rightarrow> ssh_config" where
  "parse_config ls = fold config_line ls ssh_config_default"

definition choose_proxy :: "ssh_config option \<Rightarrow> rtext option \<Rightarrow> rtext option" where
  "choose_proxy cfg own = (case cfg of Some c \<Rightarrow> if uses_proxy c then None else own | None \<Rightarrow> own)"

definition host_part :: "rtext \<Rightarrow> rtext" where
  "host_part host = (case rsplit_once 64 host of Some (_, h) \<Rightarrow> h | None \<Rightarrow> host)"

text \<open>Whether ssh is asked about the host at all.\<close>

definition asks_ssh :: "rtext \<Rightarrow> bool" where
  "asks_ssh host \<longleftrightarrow> 58 \<notin> set (host_part host)"

definition target_hostname :: "rtext \<Rightarrow> ssh_config option \<Rightarrow> rtext" where
  "target_hostname host cfg =
     (case (case cfg of Some c \<Rightarrow> hostname c | None \<Rightarrow> None) of
        Some h \<Rightarrow> h
      | None \<Rightarrow> takeWhile (\<lambda>c. c \<noteq> 58) (host_part host))"

definition target_port :: "rtext \<Rightarrow> ssh_config option \<Rightarrow> nat" where
  "target_port host cfg =
     (case (case rsplit_once 58 (host_part host) of Some (_, p) \<Rightarrow> parse_uint 65535 p | None \<Rightarrow> None) of
        Some p \<Rightarrow> p
      | None \<Rightarrow> (case (case cfg of Some c \<Rightarrow> cfg_port c | None \<Rightarrow> None) of Some p \<Rightarrow> p | None \<Rightarrow> 22))"

text \<open>The address the client sends to; \<open>resolve\<close> is name resolution, whose failure is the exit with a message.\<close>

definition server_ip_of ::
  "(rtext \<Rightarrow> 'e + rtext) \<Rightarrow> connect_info \<Rightarrow> bind_server \<Rightarrow> rtext \<Rightarrow> ssh_config option \<Rightarrow> 'e + rtext" where
  "server_ip_of resolve info bind host cfg =
     (case (ci_ip info, bind) of
        (Some ip, _) \<Rightarrow> Inr ip
      | (None, Address ip) \<Rightarrow> Inr ip
      | (None, _) \<Rightarrow> resolve (target_hostname host cfg))"

text \<open>\<open>env\<close> is the environment.\<close>

definition russh_target :: "(rtext \<Rightarrow> rtext option) \<Rightarrow> rtext \<Rightarrow> ssh_config option \<Rightarrow> rtext \<times> rtext \<times> nat" where
  "russh_target env host cfg =
     (let explicit_user = map_option fst (rsplit_once 64 host);
          candidates = [explicit_user, (case cfg of Some c \<Rightarrow> cfg_user c | None \<Rightarrow> None), env (str ''USER''), env (str ''USERNAME'')];
          user = (case filter (\<lambda>u. u \<noteq> None) candidates of Some u # _ \<Rightarrow> u | _ \<Rightarrow> str ''root'')
      in (user, target_hostname host cfg, target_port host cfg))"

definition tilde_expand :: "(rtext \<Rightarrow> rtext option) \<Rightarrow> rtext \<Rightarrow> rtext" where
  "tilde_expand env path =
     (case (case strip_prefix (str ''~/'') path of Some r \<Rightarrow> Some r | None \<Rightarrow> strip_prefix [126, 92] path) of
        None \<Rightarrow> path
      | Some rest \<Rightarrow>
          (case (case env (str ''HOME'') of Some h \<Rightarrow> Some h | None \<Rightarrow> env (str ''USERPROFILE'')) of
             Some home \<Rightarrow> home @ str ''/'' @ rest
           | None \<Rightarrow> path))"

text \<open>The keys to offer; \<open>is_file\<close> asks the file system.\<close>

definition find_keys :: "(rtext \<Rightarrow> rtext option) \<Rightarrow> (rtext \<Rightarrow> bool) \<Rightarrow> ssh_config option \<Rightarrow> rtext list" where
  "find_keys env is_file cfg =
     (let configured = (case cfg of Some c \<Rightarrow> identity_files c | None \<Rightarrow> []);
          candidates = (if configured = [] then map str [''~/.ssh/id_ed25519'', ''~/.ssh/id_rsa'', ''~/.ssh/id_ecdsa'', ''~/.ssh/identity'']
                        else configured)
      in filter is_file (map (tilde_expand env) candidates))"

section \<open>The banner\<close>

fun read_banner :: "rtext list \<Rightarrow> rtext option" where
  "read_banner [] = None"
| "read_banner (l # ls) = (if starts_with l (str ''SSH-'') then Some (trim_end l) else read_banner ls)"

definition is_windows :: "rtext \<Rightarrow> bool" where
  "is_windows banner \<longleftrightarrow>
     has_text (to_ascii_lowercase banner) (str ''windows'') \<or> has_text (to_ascii_lowercase banner) (str ''winsshd'')"

text \<open>
  The choice of the shell for the system's ssh: \<open>banner\<close> is what fetching it gave, \<open>probe\<close> the success and
  output of the probe, if it could be run.
\<close>

definition resolve_remote_shell_system :: "ssh_config option \<Rightarrow> rtext option \<Rightarrow> (bool \<times> rtext) option \<Rightarrow> remote_shell" where
  "resolve_remote_shell_system cfg banner probe =
     (if \<not> (case cfg of Some c \<Rightarrow> uses_proxy c | None \<Rightarrow> False)
         \<and> (case banner of Some b \<Rightarrow> \<not> is_windows b | None \<Rightarrow> False) then Posix
      else (case probe of Some (ok, out) \<Rightarrow> classify_shell_probe ok out | None \<Rightarrow> Cmd))"

end
