(* ===== verification/Host_Keys.thy ===== *)
theory Host_Keys
  imports Launch
begin

text \<open>
  \<open>crates/morsh-ssh/src/host_keys.rs\<close> and the policy that the wrapper gives it: whether the key of an ssh
  server is trusted. The library's look-up in one file is the argument \<open>check\<close>, the lines the user answers
  with are an argument as well. Messages are left out.
\<close>

datatype strictness = Yes | AcceptNew | Ask

definition from_ssh :: "rtext \<Rightarrow> strictness" where
  "from_ssh v =
     (let l = to_ascii_lowercase v
      in if l \<in> {str ''yes'', str ''true''} then Yes
         else if l \<in> {str ''accept-new'', str ''no'', str ''false'', str ''off''} then AcceptNew
         else Ask)"

text \<open>What looking a key up in one file can give.\<close>

datatype lookup = Recorded | NotRecorded | KeyChanged nat | Unusable

record host_key_policy =
  hk_host :: rtext
  hk_port :: nat
  known_hosts :: "rtext list"
  learn_into :: rtext
  strict :: strictness

definition display_host :: "host_key_policy \<Rightarrow> rtext" where
  "display_host p = (if hk_port p = 22 then hk_host p else str ''['' @ hk_host p @ str '']:'' @ show_nat (hk_port p))"

text \<open>\<open>rsa\<close> says whether an algorithm is RSA.\<close>

definition same_key_type :: "('a \<Rightarrow> bool) \<Rightarrow> 'a \<Rightarrow> 'a \<Rightarrow> bool" where
  "same_key_type rsa a b \<longleftrightarrow> rsa a \<and> rsa b \<or> a = b"

text \<open>\<open>recorded\<close> are the algorithms found in the files.\<close>

definition preferred :: "('a \<Rightarrow> bool) \<Rightarrow> 'a list \<Rightarrow> 'a list \<Rightarrow> 'a list" where
  "preferred rsa defaults recorded =
     (let narrowed = filter (\<lambda>a. \<exists>r\<in>set recorded. same_key_type rsa a r) defaults
      in if narrowed \<noteq> [] then narrowed else defaults)"

text \<open>The loop over the files: the verdict, if one of them decides.\<close>

fun check_files :: "(rtext \<Rightarrow> lookup) \<Rightarrow> rtext list \<Rightarrow> bool option" where
  "check_files check [] = None"
| "check_files check (f # fs) =
     (case check f of
        Recorded \<Rightarrow> Some True
      | KeyChanged line \<Rightarrow> Some False
      | _ \<Rightarrow> check_files check fs)"

text \<open>The question. No terminal is no answer.\<close>

fun ask_loop :: "rtext list \<Rightarrow> bool" where
  "ask_loop [] = False"
| "ask_loop (l # ls) =
     (let a = to_ascii_lowercase (trim l) in if a = str ''yes'' then True else if a = str ''no'' then False else ask_loop ls)"

definition ask :: "bool \<Rightarrow> rtext list \<Rightarrow> bool" where
  "ask is_terminal answers = (is_terminal \<and> ask_loop answers)"

text \<open>Whether the key is accepted, and whether it is recorded.\<close>

definition verify :: "(rtext \<Rightarrow> lookup) \<Rightarrow> bool \<Rightarrow> rtext list \<Rightarrow> host_key_policy \<Rightarrow> bool \<times> bool" where
  "verify check is_terminal answers p =
     (case check_files check (known_hosts p) of
        Some b \<Rightarrow> (b, False)
      | None \<Rightarrow>
          let accept = (case strict p of Yes \<Rightarrow> False | AcceptNew \<Rightarrow> True | Ask \<Rightarrow> ask is_terminal answers)
          in (accept, accept))"

text \<open>The wrapper's policy.\<close>

definition host_key_policy_of ::
  "(rtext \<Rightarrow> rtext option) \<Rightarrow> bool \<Rightarrow> rtext \<Rightarrow> nat \<Rightarrow> ssh_config option \<Rightarrow> host_key_policy" where
  "host_key_policy_of env windows host port cfg =
     (let user_file = tilde_expand env (str ''~/.ssh/known_hosts'')
      in \<lparr>hk_host = (case (case cfg of Some c \<Rightarrow> host_key_alias c | None \<Rightarrow> None) of
                       Some a \<Rightarrow> a | None \<Rightarrow> to_ascii_lowercase host),
          hk_port = port,
          known_hosts = [user_file, tilde_expand env (str ''~/.ssh/known_hosts2'')]
            @ (if windows then
                 (case env (str ''ProgramData'') of
                    Some d \<Rightarrow> [d @ [92] @ str ''ssh'' @ [92] @ str ''ssh_known_hosts''] | None \<Rightarrow> [])
               else [str ''/etc/ssh/ssh_known_hosts'', str ''/etc/ssh/ssh_known_hosts2'']),
          learn_into = user_file,
          strict = (case (case cfg of Some c \<Rightarrow> strict_host_key_checking c | None \<Rightarrow> None) of
                      Some v \<Rightarrow> from_ssh v | None \<Rightarrow> Ask)\<rparr>)"

section \<open>Laws\<close>

lemma check_files_none: "check_files check fs = None \<longleftrightarrow> (\<forall>f\<in>set fs. check f = NotRecorded \<or> check f = Unusable)"
  by (induction fs) (auto split: lookup.splits)

text \<open>The first file that knows the host decides.\<close>

lemma check_files_true:
  "check_files check fs = Some True \<longleftrightarrow>
     (\<exists>before f after. fs = before @ f # after \<and> check f = Recorded \<and> (\<forall>g\<in>set before. \<forall>n. check g \<noteq> KeyChanged n))"
proof (induction fs)
  case Nil
  show ?case by simp
next
  case (Cons f fs)
  have step: "(\<exists>before g after. f # fs = before @ g # after \<and> P before g) \<longleftrightarrow>
      P [] f \<or> (\<exists>before g after. fs = before @ g # after \<and> P (f # before) g)" for P :: "rtext list \<Rightarrow> rtext \<Rightarrow> bool"
    by (auto simp: Cons_eq_append_conv)
  let ?P = "\<lambda>before g. check g = Recorded \<and> (\<forall>g\<in>set before. \<forall>n. check g \<noteq> KeyChanged n)"
  have "check_files check (f # fs) = Some True \<longleftrightarrow> ?P [] f \<or> (\<exists>before g after. fs = before @ g # after \<and> ?P (f # before) g)"
    using Cons by (cases "check f") simp_all
  then show ?case using step [of ?P] by simp
qed

end
