(* ===== verification/Server_Cli.thy ===== *)
theory Server_Cli
  imports Rust_Text
begin

text \<open>
  \<open>crates/morsh-server/src/cli.rs\<close> and what \<open>main.rs\<close> of the server does with the options: the address and
  port it binds to, and the line it announces itself with. Messages on stderr are left out.
\<close>

section \<open>Options\<close>

record cli_options =
  port_low :: u16
  port_high :: u16
  bind_addr :: "rtext option"
  use_ssh_connection :: bool
  no_daemonize :: bool
  log_file :: "rtext option"
  locale_vars :: "(rtext \<times> rtext) list"
  command_args :: "rtext list"
  colors :: u32
  verbose :: u32

definition cli_default :: cli_options where
  "cli_default =
     \<lparr>port_low = 0, port_high = 0, bind_addr = None, use_ssh_connection = False, no_daemonize = False,
      log_file = None, locale_vars = [], command_args = [], colors = 0, verbose = 0\<rparr>"

datatype cli_outcome = Run cli_options | Help | Version | CliError rtext

section \<open>Parsing\<close>

definition bad_range :: "rtext \<Rightarrow> rtext" where
  "bad_range s = str ''Bad UDP port range ('' @ s @ str '')''"

definition parse_portrange :: "rtext \<Rightarrow> rtext + u16 \<times> u16" where
  "parse_portrange s =
     (let (low_str, high_str) = (case split_once 58 s of Some lh \<Rightarrow> lh | None \<Rightarrow> (s, s))
      in case (parse_uint (2 ^ 32 - 1) low_str, parse_uint (2 ^ 32 - 1) high_str) of
           (Some low, Some high) \<Rightarrow>
             if \<not> (1 \<le> low \<and> low \<le> 65535) \<or> \<not> (1 \<le> high \<and> high \<le> 65535) \<or> low > high then Inl (bad_range s)
             else Inr (word_of_nat low, word_of_nat high)
         | _ \<Rightarrow> Inl (bad_range s))"

text \<open>\<open>@\<close>, \<open>i\<close>, \<open>p\<close>, \<open>c\<close> and \<open>l\<close>.\<close>

definition short_takes_value :: "rchar \<Rightarrow> bool" where
  "short_takes_value c \<longleftrightarrow> c \<in> {64, 105, 112, 99, 108}"

text \<open>The scan for \<open>--help\<close> and \<open>--version\<close> up to the first \<open>--\<close>.\<close>

fun scan_info :: "rtext list \<Rightarrow> cli_outcome option" where
  "scan_info [] = None"
| "scan_info (a # as) =
     (if a = str ''-h'' \<or> a = str ''--help'' then Some Help
      else if a = str ''--version'' then Some Version
      else if a = str ''--'' then None else scan_info as)"

text \<open>A long option: the options after it and the arguments not yet looked at.\<close>

definition long_option :: "rtext \<Rightarrow> rtext list \<Rightarrow> cli_options \<Rightarrow> rtext + cli_options \<times> rtext list" where
  "long_option rest args opts =
     (let (name, inline) = (case split_once 61 rest of Some (n, v) \<Rightarrow> (n, Some v) | None \<Rightarrow> (rest, None))
      in if name = str ''no-daemonize'' then Inr (opts\<lparr>no_daemonize := True\<rparr>, args)
         else if name = str ''log-file'' then
           (case inline of
              Some v \<Rightarrow> Inr (opts\<lparr>log_file := Some v\<rparr>, args)
            | None \<Rightarrow>
                (case args of
                   v # args' \<Rightarrow> Inr (opts\<lparr>log_file := Some v\<rparr>, args')
                 | [] \<Rightarrow> Inl (str ''--log-file requires a FILE argument'')))
         else Inr (opts, args))"

text \<open>A short option, with its value if it takes one.\<close>

definition apply_short :: "rchar \<Rightarrow> rtext option \<Rightarrow> cli_options \<Rightarrow> rtext + cli_options" where
  "apply_short c value opts =
     (let raw = (case value of Some v \<Rightarrow> v | None \<Rightarrow> [])
      in if c = 105 then Inr (opts\<lparr>bind_addr := value, use_ssh_connection := False\<rparr>)
         else if c = 115 then Inr (opts\<lparr>use_ssh_connection := True, bind_addr := None\<rparr>)
         else if c = 112 then
           (case parse_portrange raw of
              Inl e \<Rightarrow> Inl e | Inr (lo, hi) \<Rightarrow> Inr (opts\<lparr>port_low := lo, port_high := hi\<rparr>))
         else if c = 99 then
           (case parse_uint (2 ^ 32 - 1) raw of
              None \<Rightarrow> Inl (str ''Bad number of colors ('' @ raw @ str '')'')
            | Some v \<Rightarrow> Inr (opts\<lparr>colors := word_of_nat v\<rparr>))
         else if c = 108 then
           (case split_once 61 raw of
              None \<Rightarrow> Inl (str ''-l argument must be NAME=VALUE, got '' @ [39] @ raw @ [39])
            | Some nv \<Rightarrow> Inr (opts\<lparr>locale_vars := locale_vars opts @ [nv]\<rparr>))
         else if c = 118 then Inr (opts\<lparr>verbose := verbose opts + 1\<rparr>)
         else if c = 68 then Inr (opts\<lparr>no_daemonize := True\<rparr>)
         else Inr opts)"

text \<open>The characters of a cluster of short options.\<close>

fun short_options :: "rtext \<Rightarrow> rtext list \<Rightarrow> cli_options \<Rightarrow> rtext + cli_options \<times> rtext list" where
  "short_options [] args opts = Inr (opts, args)"
| "short_options (c # cs) args opts =
     (if short_takes_value c then
        (case (cs, args) of
           (_ # _, _) \<Rightarrow> map_sum id (\<lambda>o'. (o', args)) (apply_short c (Some cs) opts)
         | ([], v # args') \<Rightarrow> map_sum id (\<lambda>o'. (o', args')) (apply_short c (Some v) opts)
         | ([], []) \<Rightarrow> Inl (str ''option -'' @ [c] @ str '' requires an argument''))
      else (case apply_short c None opts of Inl e \<Rightarrow> Inl e | Inr o' \<Rightarrow> short_options cs args o'))"

text \<open>One argument of the loop over \<open>head\<close>.\<close>

definition parse_one :: "rtext \<Rightarrow> rtext list \<Rightarrow> cli_options \<Rightarrow> rtext + cli_options \<times> rtext list" where
  "parse_one arg args opts =
     (case strip_prefix (str ''--'') arg of
        Some rest \<Rightarrow> long_option rest args opts
      | None \<Rightarrow>
          if arg = str ''-'' \<or> \<not> starts_with arg (str ''-'') then Inr (opts, args)
          else short_options (tl arg) args opts)"

lemma long_option_shorter: "long_option rest args opts = Inr (o', args') \<Longrightarrow> length args' \<le> length args"
  by (auto simp: long_option_def Let_def split: option.splits list.splits prod.splits if_splits)

lemma short_options_shorter: "short_options cs args opts = Inr (o', args') \<Longrightarrow> length args' \<le> length args"
  by (induction cs args opts rule: short_options.induct)
    (auto split: if_splits list.splits sum.splits simp: map_sum_def)

lemma parse_one_shorter: "parse_one arg args opts = Inr (o', args') \<Longrightarrow> length args' \<le> length args"
  using long_option_shorter short_options_shorter by (fastforce simp: parse_one_def split: option.splits if_splits)

function parse_head :: "rtext list \<Rightarrow> cli_options \<Rightarrow> rtext + cli_options" where
  "parse_head [] opts = Inr opts"
| "parse_head (arg # args) opts =
     (case parse_one arg args opts of Inl e \<Rightarrow> Inl e | Inr (o', args') \<Rightarrow> parse_head args' o')"
  by pat_completeness auto
termination
  by (relation "measure (\<lambda>(args, opts). length args)") (auto dest: parse_one_shorter simp: less_Suc_eq_le)

text \<open>The old syntax: an address and a port.\<close>

definition parse_legacy :: "rtext list \<Rightarrow> cli_options \<Rightarrow> cli_outcome" where
  "parse_legacy head opts =
     (case head of
        [] \<Rightarrow> Run opts
      | [a] \<Rightarrow> if starts_with a (str ''-'') then CliError (str ''unexpected argument '' @ [39] @ a @ [39])
               else Run (opts\<lparr>bind_addr := Some a\<rparr>)
      | [a, p] \<Rightarrow>
          if starts_with a (str ''-'') \<or> starts_with p (str ''-'') then CliError (str ''unexpected argument'')
          else
            (case parse_portrange p of
               Inl e \<Rightarrow> CliError e
             | Inr (lo, hi) \<Rightarrow> Run (opts\<lparr>bind_addr := Some a, port_low := lo, port_high := hi\<rparr>))
      | _ \<Rightarrow> CliError (str ''too many arguments''))"

definition parse_args :: "rtext list \<Rightarrow> cli_outcome" where
  "parse_args args =
     (case scan_info args of
        Some r \<Rightarrow> r
      | None \<Rightarrow>
          let head = takeWhile (\<lambda>a. a \<noteq> str ''--'') args;
              opts = cli_default\<lparr>command_args := tl (dropWhile (\<lambda>a. a \<noteq> str ''--'') args)\<rparr>
          in (case head of
                [] \<Rightarrow> parse_legacy head opts
              | a # rest \<Rightarrow>
                  if a = str ''new'' then (case parse_head rest opts of Inl e \<Rightarrow> CliError e | Inr o' \<Rightarrow> Run o')
                  else parse_legacy head opts))"

section \<open>What the options mean\<close>

text \<open>The third field of \<open>$SSH_CONNECTION\<close>.\<close>

definition get_ssh_connection_ip :: "rtext option \<Rightarrow> rtext option" where
  "get_ssh_connection_ip conn =
     (case conn of
        None \<Rightarrow> None
      | Some c \<Rightarrow>
          if length (words c) \<ge> 3 then
            (case strip_prefix (str ''::ffff:'') (words c ! 2) of Some s \<Rightarrow> Some s | None \<Rightarrow> Some (words c ! 2))
          else None)"

definition desired_ip :: "cli_options \<Rightarrow> rtext option \<Rightarrow> rtext option" where
  "desired_ip opts conn =
     (let ssh_ip = (if use_ssh_connection opts \<or> bind_addr opts = None then get_ssh_connection_ip conn else None)
      in case bind_addr opts of Some a \<Rightarrow> Some a | None \<Rightarrow> ssh_ip)"

definition PORT_RANGE_LOW :: u16 where "PORT_RANGE_LOW = 60001"
definition PORT_RANGE_HIGH :: u16 where "PORT_RANGE_HIGH = 60999"

text \<open>
  The loop over \<open>low..=high\<close>; \<open>bind\<close> is what the system says of a port: it cannot be bound (\<open>Inl\<close>), or it is
  bound and the socket then tells its address or an error. Only the first lets the search go on.
\<close>

type_synonym bind_result = "rtext + (rtext + nat)"

fun bind_first :: "(nat \<Rightarrow> bind_result) \<Rightarrow> nat list \<Rightarrow> rtext \<Rightarrow> bind_result" where
  "bind_first bind [] last_err = Inl last_err"
| "bind_first bind (p # ps) last_err =
     (case bind p of Inr r \<Rightarrow> Inr r | Inl e \<Rightarrow> bind_first bind ps e)"

definition pick_port :: "(nat \<Rightarrow> bind_result) \<Rightarrow> u16 \<Rightarrow> u16 \<Rightarrow> rtext + nat" where
  "pick_port bind low high =
     (let (lo, hi) = (if low = 0 then (PORT_RANGE_LOW, PORT_RANGE_HIGH) else (low, high))
      in case bind_first bind [unat lo ..< Suc (unat hi)] [] of
           Inr r \<Rightarrow> r
         | Inl e \<Rightarrow> Inl (str ''Failed to bind to any port in '' @ show_nat (unat lo) @ str '':'' @ show_nat (unat hi)
                        @ str '': '' @ e))"

text \<open>The program that serves the session: \<open>$SHELL\<close>, or the command.\<close>

definition choose_shell :: "bool \<Rightarrow> rtext option \<Rightarrow> rtext list \<Rightarrow> rtext" where
  "choose_shell windows env_shell command =
     (case command of
        [] \<Rightarrow> (case env_shell of Some s \<Rightarrow> s | None \<Rightarrow> if windows then str ''cmd.exe'' else str ''/bin/sh'')
      | c # _ \<Rightarrow> c)"

definition connect_line :: "nat \<Rightarrow> rtext \<Rightarrow> rtext" where
  "connect_line port key = str ''MOSH CONNECT '' @ show_nat port @ str '' '' @ key"

section \<open>The client's command line\<close>

text \<open>\<open>crates/morsh-client/src/cli.rs\<close>. \<open>addr\<close> parses a socket address.\<close>

datatype 'a client_outcome = Connect 'a | ClientHelp | ClientVersion | ClientError rtext

definition client_parse :: "(rtext \<Rightarrow> rtext + 'a) \<Rightarrow> rtext list \<Rightarrow> 'a client_outcome" where
  "client_parse addr argv =
     (case argv of
        prog # a # _ \<Rightarrow>
          if a = str ''-h'' \<or> a = str ''--help'' then ClientHelp
          else if a = str ''-v'' \<or> a = str ''--version'' then ClientVersion
          else
            (case addr a of
               Inr x \<Rightarrow> Connect x
             | Inl e \<Rightarrow> ClientError (str ''Invalid server address '' @ [39] @ a @ [39] @ str '': '' @ e))
      | _ \<Rightarrow> ClientError (str ''Usage: morsh-client <server-ip:port>'' @ [10] @ str ''  Environment: MORSH_KEY (base64 key from morsh-server)''))"

end
