(* ===== verification/Launching.thy ===== *)
theory Launching
  imports Host_Keys Server_Cli
begin

text \<open>
  The bootstrap as a whole: the command that the wrapper quotes is what the remote shell runs, the server
  reads from it the options that were meant, and the wrapper finds the server's answer. \<open>posix_words\<close> is the
  part of the POSIX shell's grammar that splits a simple command into words: blanks, single quotes, the
  backslash and characters that mean nothing to the shell.
\<close>

section \<open>The words of a POSIX shell\<close>

definition so_far :: "rtext option \<Rightarrow> rtext" where
  "so_far cur = (case cur of None \<Rightarrow> [] | Some w \<Rightarrow> w)"

text \<open>
  \<open>quoted_by\<close> says whether a single quote is open, \<open>cur\<close> is the word begun. \<open>None\<close>: not a list of words.
\<close>

fun posix_words :: "bool \<Rightarrow> rtext \<Rightarrow> rtext option \<Rightarrow> rtext list option" where
  "posix_words True [] cur = None"
| "posix_words True (c # s) cur =
     (if c = 39 then posix_words False s cur else posix_words True s (Some (so_far cur @ [c])))"
| "posix_words False [] cur = Some (case cur of None \<Rightarrow> [] | Some w \<Rightarrow> [w])"
| "posix_words False (c # s) cur =
     (if c = 32 then map_option (case_option id (#) cur) (posix_words False s None)
      else if c = 39 then posix_words True s (Some (so_far cur))
      else if c = 92 then
        (case s of
           [] \<Rightarrow> None
         | d # s' \<Rightarrow> posix_words False s' (if d = 10 then cur else Some (so_far cur @ [d])))
      else if plain_char c then posix_words False s (Some (so_far cur @ [c]))
      else None)"

definition posix_split :: "rtext \<Rightarrow> rtext list option" where
  "posix_split s = posix_words False s None"

lemma so_far_simps [simp]: "so_far None = []" "so_far (Some w) = w"
  by (simp_all add: so_far_def)

lemma plain_not_special: "plain_char c \<Longrightarrow> c \<noteq> 32 \<and> c \<noteq> 39 \<and> c \<noteq> 92"
  by (auto simp: plain_char_def)

lemma posix_plain: "list_all plain_char w \<Longrightarrow> posix_words False (w @ s) (Some a) = posix_words False s (Some (a @ w))"
proof (induction w arbitrary: a)
  case Nil
  then show ?case by simp
next
  case (Cons c w)
  then have "plain_char c" "list_all plain_char w" by simp_all
  then show ?case using Cons(1) plain_not_special [of c] by simp
qed

lemma posix_quoted:
  "posix_words True (replace_char 39 [39, 92, 39, 39] w @ 39 # s) (Some a) = posix_words False s (Some (a @ w))"
  by (induction w arbitrary: a) (simp_all add: replace_char_def)

lemma posix_quote: "posix_words False (shell_quote w @ s) None = posix_words False s (Some w)"
proof (cases "w \<noteq> [] \<and> list_all plain_char w")
  case True
  then obtain c v where w: "w = c # v" "plain_char c" "list_all plain_char v" by (cases w) auto
  then show ?thesis using posix_plain [of v s "[c]"] plain_not_special [of c] by (simp add: shell_quote_def)
next
  case False
  then have "shell_quote w = 39 # replace_char 39 [39, 92, 39, 39] w @ [39]" unfolding shell_quote_def by (simp only: if_False append.simps)
  then show ?thesis using posix_quoted [of w s "[]"] by simp
qed

lemma posix_split_quote_all: "posix_split (shell_quote_all ws) = Some ws"
  unfolding posix_split_def shell_quote_all_def
proof (induction ws rule: induct_list012)
  case 1
  show ?case by simp
next
  case (2 w)
  show ?case using posix_quote [of w "[]"] by simp
next
  case (3 v w ws)
  show ?case using posix_quote [of v "32 # join [32] (map shell_quote (w # ws))"] 3(2) by simp
qed

interpretation posix_shell: wire_format shell_quote_all posix_split "\<lambda>_. True"
  by unfold_locales (rule posix_split_quote_all)

section \<open>The options\<close>

definition info_words :: "rtext set" where
  "info_words = {str ''-h'', str ''--help'', str ''--version'', str ''--''}"

lemma scan_info_append: "\<forall>a\<in>set as. a \<notin> info_words \<Longrightarrow> scan_info (as @ bs) = scan_info bs"
  by (induction as) (auto simp: info_words_def)

lemma head_append: "\<forall>a\<in>set as. a \<notin> info_words \<Longrightarrow> takeWhile (\<lambda>a. a \<noteq> str ''--'') (as @ bs) = as @ takeWhile (\<lambda>a. a \<noteq> str ''--'') bs
    \<and> dropWhile (\<lambda>a. a \<noteq> str ''--'') (as @ bs) = dropWhile (\<lambda>a. a \<noteq> str ''--'') bs"
  by (induction as) (auto simp: info_words_def)

lemmas parse_one_simps = parse_one_def starts_with_def short_takes_value_def apply_short_def Let_def

lemma parse_s: "parse_head (str ''-s'' # as) opts = parse_head as (opts\<lparr>bind_addr := None, use_ssh_connection := True\<rparr>)"
  by (simp add: parse_one_simps) (rule arg_cong [where f = "parse_head as"], simp)

lemma parse_i: "parse_head (str ''-i'' # ip # as) opts = parse_head as (opts\<lparr>bind_addr := Some ip, use_ssh_connection := False\<rparr>)"
  by (simp add: parse_one_simps)

lemma parse_p: "parse_portrange r = Inr (lo, hi) \<Longrightarrow>
    parse_head (str ''-p'' # r # as) opts = parse_head as (opts\<lparr>port_low := lo, port_high := hi\<rparr>)"
  by (simp add: parse_one_simps)

lemma parse_l: "61 \<notin> set n \<Longrightarrow>
    parse_head (str ''-l'' # (n @ str ''='' @ v) # as) opts = parse_head as (opts\<lparr>locale_vars := locale_vars opts @ [(n, v)]\<rparr>)"
  using split_once_append [of 61 n v] by (simp add: parse_one_simps)

lemma parse_log: "parse_head (str ''--log-file'' # p # as) opts = parse_head as (opts\<lparr>log_file := Some p\<rparr>)"
  by (simp add: parse_one_simps long_option_def)

lemma parse_D: "parse_head (str ''-D'' # as) opts = parse_head as (opts\<lparr>no_daemonize := True\<rparr>)"
  by (simp add: parse_one_simps)

lemma parse_locale:
  "\<forall>(n, v)\<in>set vars. 61 \<notin> set n \<Longrightarrow>
     parse_head (concat (map (\<lambda>(name, val). [str ''-l'', name @ str ''='' @ val]) vars) @ as) opts =
     parse_head as (opts\<lparr>locale_vars := locale_vars opts @ vars\<rparr>)"
proof (induction vars arbitrary: opts)
  case Nil
  then show ?case by simp
next
  case (Cons nv vars)
  obtain n v where nv: "nv = (n, v)" by fastforce
  then have "61 \<notin> set n" using Cons(2) by simp
  from parse_l [OF this] show ?case using Cons nv by (simp del: parse_head.simps str_simps)
qed

lemma info_locale: "name @ str ''='' @ val \<notin> info_words"
proof -
  have "\<forall>w\<in>info_words. 61 \<notin> set w" by (simp add: info_words_def)
  moreover have "61 \<in> set (name @ str ''='' @ val)" by simp
  ultimately show ?thesis by blast
qed

lemma info_range: "parse_portrange r = Inr lh \<Longrightarrow> r \<notin> info_words"
  by (auto simp: info_words_def parse_portrange_def parse_uint_def is_digit_def Let_def split: option.splits)

text \<open>What the server should make of the wrapper's command line.\<close>

definition meant_options ::
  "bind_server \<Rightarrow> (u16 \<times> u16) option \<Rightarrow> rtext option \<Rightarrow> bool \<Rightarrow> rtext list \<Rightarrow> (rtext \<times> rtext) list \<Rightarrow> cli_options" where
  "meant_options bind ports log foreground command vars =
     \<lparr>port_low = (case ports of Some (lo, hi) \<Rightarrow> lo | None \<Rightarrow> 0), port_high = (case ports of Some (lo, hi) \<Rightarrow> hi | None \<Rightarrow> 0),
      bind_addr = (case bind of Address ip \<Rightarrow> Some ip | _ \<Rightarrow> None), use_ssh_connection = (bind = SshConnection),
      no_daemonize = foreground, log_file = log, locale_vars = vars, command_args = command, colors = 0, verbose = 0\<rparr>"

text \<open>The arguments before the command.\<close>

definition option_args ::
  "bind_server \<Rightarrow> rtext option \<Rightarrow> rtext option \<Rightarrow> bool \<Rightarrow> (rtext \<times> rtext) list \<Rightarrow> rtext list" where
  "option_args bind rg log foreground vars =
     (case bind of SshConnection \<Rightarrow> [str ''-s''] | Address ip \<Rightarrow> [str ''-i'', ip] | AnyAddress \<Rightarrow> [])
     @ (case rg of Some r \<Rightarrow> [str ''-p'', r] | None \<Rightarrow> [])
     @ concat (map (\<lambda>(name, val). [str ''-l'', name @ str ''='' @ val]) vars)
     @ (case log of Some p \<Rightarrow> [str ''--log-file'', p] | None \<Rightarrow> [])
     @ (if foreground then [str ''-D''] else [])"

lemma build_args: "build_server_args path bind rg log foreground command vars =
    path # (str ''new'' # option_args bind rg log foreground vars) @ (if command \<noteq> [] then str ''--'' # command else [])"
  by (simp add: build_server_args_def option_args_def del: str_simps)

text \<open>The values that the scan for \<open>--help\<close> would mistake.\<close>

definition values_ok :: "bind_server \<Rightarrow> rtext option \<Rightarrow> bool" where
  "values_ok bind log \<longleftrightarrow> (\<forall>ip. bind = Address ip \<longrightarrow> ip \<notin> info_words) \<and> (\<forall>p. log = Some p \<longrightarrow> p \<notin> info_words)"

lemma option_words: "str ''new'' \<notin> info_words" "str ''-s'' \<notin> info_words" "str ''-i'' \<notin> info_words" "str ''-p'' \<notin> info_words"
  "str ''-l'' \<notin> info_words" "str ''--log-file'' \<notin> info_words" "str ''-D'' \<notin> info_words"
  by (simp_all add: info_words_def)

lemma option_args_plain:
  assumes "values_ok bind log" and "\<forall>r. rg = Some r \<longrightarrow> r \<notin> info_words"
  shows "\<forall>a\<in>set (str ''new'' # option_args bind rg log foreground vars). a \<notin> info_words"
  using assms option_words info_locale
  by (auto simp: option_args_def values_ok_def simp del: str_simps split: bind_server.splits option.splits if_splits)

lemma option_args_parse:
  assumes "\<forall>(n, v)\<in>set vars. 61 \<notin> set n" and "rel_option (\<lambda>r lh. parse_portrange r = Inr lh) rg ports"
  shows "parse_head (option_args bind rg log foreground vars) (cli_default\<lparr>command_args := command\<rparr>) =
    Inr (meant_options bind ports log foreground command vars)"
proof -
  have end_args: "parse_head (if foreground then [str ''-D''] else []) opts = Inr (opts\<lparr>no_daemonize := foreground \<or> no_daemonize opts\<rparr>)" for opts
    using parse_D [of "[]" opts] by (simp del: str_simps)
  have log_args: "parse_head ((case log of Some p \<Rightarrow> [str ''--log-file'', p] | None \<Rightarrow> []) @ as) opts =
      parse_head as (opts\<lparr>log_file := (case log of Some p \<Rightarrow> Some p | None \<Rightarrow> log_file opts)\<rparr>)" for as opts
    using parse_log by (cases log) (simp_all del: str_simps parse_head.simps)
  have port_args: "parse_head ((case rg of Some r \<Rightarrow> [str ''-p'', r] | None \<Rightarrow> []) @ as) opts =
      parse_head as (opts\<lparr>port_low := (case ports of Some (lo, hi) \<Rightarrow> lo | None \<Rightarrow> port_low opts),
        port_high := (case ports of Some (lo, hi) \<Rightarrow> hi | None \<Rightarrow> port_high opts)\<rparr>)" for as opts
    using assms(2) parse_p by (cases rg; cases ports) (auto simp del: str_simps parse_head.simps)
  have bind_args: "parse_head ((case bind of SshConnection \<Rightarrow> [str ''-s''] | Address ip \<Rightarrow> [str ''-i'', ip] | AnyAddress \<Rightarrow> []) @ as) opts =
      parse_head as (opts\<lparr>bind_addr := (case bind of Address ip \<Rightarrow> Some ip | SshConnection \<Rightarrow> None | AnyAddress \<Rightarrow> bind_addr opts),
        use_ssh_connection := (case bind of SshConnection \<Rightarrow> True | Address ip \<Rightarrow> False | AnyAddress \<Rightarrow> use_ssh_connection opts)\<rparr>)" for as opts
    using parse_s parse_i by (cases bind) (simp_all del: str_simps parse_head.simps)
  show ?thesis
    unfolding option_args_def append_assoc bind_args port_args parse_locale [OF assms(1)] log_args end_args
    by (cases bind; cases ports; cases log) (auto simp: meant_options_def cli_default_def)
qed

lemma parse_built:
  assumes "values_ok bind log" and "\<forall>(n, v)\<in>set vars. 61 \<notin> set n"
    and "rel_option (\<lambda>r lh. parse_portrange r = Inr lh) rg ports"
  shows "parse_args (tl (build_server_args path bind rg log foreground command vars)) =
    Run (meant_options bind ports log foreground command vars)"
proof -
  let ?h = "str ''new'' # option_args bind rg log foreground vars" and ?t = "if command \<noteq> [] then str ''--'' # command else []"
  have "\<forall>r. rg = Some r \<longrightarrow> r \<notin> info_words" using assms(3) info_range by (auto simp: option_rel_Some1)
  note plain = option_args_plain [OF assms(1) this, of foreground vars]
  have "scan_info (?h @ ?t) = None" unfolding scan_info_append [OF plain] by simp
  moreover have "takeWhile (\<lambda>a. a \<noteq> str ''--'') (?h @ ?t) = ?h"
    using head_append [OF plain, of ?t] by (auto simp del: str_simps)
  moreover have "tl (dropWhile (\<lambda>a. a \<noteq> str ''--'') (?h @ ?t)) = command"
    using head_append [OF plain, of ?t] by (auto simp del: str_simps)
  ultimately show ?thesis
    using option_args_parse [OF assms(2,3), of bind log foreground command]
    unfolding build_args list.sel parse_args_def by (simp del: str_simps parse_head.simps)
qed

section \<open>The answer\<close>

lemma words_blank: "w \<noteq> [] \<Longrightarrow> \<forall>c\<in>set w. \<not> is_whitespace c \<Longrightarrow> words (w @ 32 # s) = w # words s"
  using words_word [of w "32 # s"] words_skip [of 32 s] by (simp add: is_whitespace_def)

lemma words_connect:
  assumes "key \<noteq> []" and "\<forall>c\<in>set key. \<not> is_whitespace c"
  shows "words (connect_line port key) = [str ''MOSH'', str ''CONNECT'', show_nat port, key]"
proof -
  have d: "\<forall>c\<in>set (show_nat port). \<not> is_whitespace c" "show_nat port \<noteq> []"
    using show_nat_digits [of port] digit_not_space by (auto simp: list_all_iff)
  have w: "\<forall>c\<in>set (str ''MOSH''). \<not> is_whitespace c" "\<forall>c\<in>set (str ''CONNECT''). \<not> is_whitespace c"
    by (simp_all add: is_whitespace_def)
  have ne: "str ''MOSH'' \<noteq> []" "str ''CONNECT'' \<noteq> []" by simp_all
  have "connect_line port key = str ''MOSH'' @ 32 # str ''CONNECT'' @ 32 # show_nat port @ 32 # key"
    by (simp add: connect_line_def)
  then show ?thesis
    unfolding words_blank [OF ne(1) w(1)] words_blank [OF ne(2) w(2)] words_blank [OF d(2,1)]
    using words_word [OF assms, of "[]"] by (simp only: words_blank [OF ne(1) w(1)] words_blank [OF ne(2) w(2)] words_blank [OF d(2,1)] append_Nil2 words_nil simp_thms)
qed

lemma parse_connect_line:
  assumes "port \<le> 65535" and "key \<noteq> []" and "\<forall>c\<in>set key. \<not> is_whitespace c"
  shows "parse_connect (connect_line port key) = Some \<lparr>ci_port = port, ci_key = key, ci_ip = None\<rparr>"
proof -
  have "starts_with (connect_line port key) (str ''MOSH CONNECT'')" by (simp add: starts_with_def connect_line_def)
  then show ?thesis using words_connect [OF assms(2,3), of port] parse_show [OF assms(1)]
    by (simp add: parse_connect_def)
qed

section \<open>Host and port\<close>

lemma rsplit_once_append: "c \<notin> set b \<Longrightarrow> rsplit_once c (a @ c # b) = Some (a, b)"
  using split_once_append [of c "rev b" "rev a"] by (simp add: rsplit_once_def)

lemma rsplit_once_none: "c \<notin> set s \<Longrightarrow> rsplit_once c s = None"
  by (simp add: rsplit_once_def split_once_none)

end
