(* ===== verification/Launch_Properties.thy ===== *)
theory Launch_Properties
  imports Launching
begin

text \<open>
  What holds of the bootstrap: the server gets the options that the wrapper means, through the remote
  shell; the wrapper finds the server's answer; the port, the target and the trust in a host key.
\<close>

section \<open>Ports\<close>

lemma portrange_bounds:
  "parse_portrange r = Inr (lo, hi) \<Longrightarrow> 1 \<le> unat lo \<and> unat lo \<le> unat hi"
  by (auto simp: parse_portrange_def Let_def unat_of_nat take_bit_nat_eq_self split: option.splits prod.splits if_splits)

definition ports_ok :: "cli_options \<Rightarrow> bool" where
  "ports_ok opts \<longleftrightarrow> port_low opts = 0 \<and> port_high opts = 0 \<or> 1 \<le> unat (port_low opts) \<and> unat (port_low opts) \<le> unat (port_high opts)"

lemma ports_ok_idle [simp]:
  "ports_ok (opts\<lparr>bind_addr := a\<rparr>) = ports_ok opts" "ports_ok (opts\<lparr>use_ssh_connection := b\<rparr>) = ports_ok opts"
  "ports_ok (opts\<lparr>no_daemonize := b\<rparr>) = ports_ok opts" "ports_ok (opts\<lparr>log_file := l\<rparr>) = ports_ok opts"
  "ports_ok (opts\<lparr>locale_vars := v\<rparr>) = ports_ok opts" "ports_ok (opts\<lparr>command_args := c\<rparr>) = ports_ok opts"
  "ports_ok (opts\<lparr>colors := n\<rparr>) = ports_ok opts" "ports_ok (opts\<lparr>verbose := n\<rparr>) = ports_ok opts"
  by (simp_all add: ports_ok_def)

lemma ports_ok_range: "parse_portrange r = Inr (lo, hi) \<Longrightarrow> ports_ok (opts\<lparr>port_low := lo, port_high := hi\<rparr>)"
  using portrange_bounds by (simp add: ports_ok_def)

lemma apply_short_ports: "apply_short c v opts = Inr o' \<Longrightarrow> ports_ok opts \<Longrightarrow> ports_ok o'"
  by (auto simp: apply_short_def Let_def ports_ok_range split: if_splits sum.splits prod.splits option.splits)

lemma short_options_ports: "short_options cs as opts = Inr (o', as') \<Longrightarrow> ports_ok opts \<Longrightarrow> ports_ok o'"
proof (induction cs as opts rule: short_options.induct)
  case (2 c cs as opts)
  then show ?case
    by (auto split: if_splits list.splits sum.splits simp: map_sum_def dest: apply_short_ports)
qed simp

lemma parse_one_ports: "parse_one a as opts = Inr (o', as') \<Longrightarrow> ports_ok opts \<Longrightarrow> ports_ok o'"
  using short_options_ports
  by (fastforce simp: parse_one_def long_option_def Let_def split: option.splits if_splits list.splits prod.splits)

lemma parse_head_ports: "parse_head as opts = Inr o' \<Longrightarrow> ports_ok opts \<Longrightarrow> ports_ok o'"
proof (induction as opts rule: parse_head.induct)
  case (2 a as opts)
  then show ?case using parse_one_ports by (auto split: sum.splits prod.splits)
qed simp

lemma parse_legacy_ports: "parse_legacy as opts = Run o' \<Longrightarrow> ports_ok opts \<Longrightarrow> ports_ok o'"
  by (auto simp: parse_legacy_def ports_ok_range split: list.splits if_splits sum.splits prod.splits)

lemma parse_args_ports: "parse_args as = Run o' \<Longrightarrow> ports_ok o'"
proof -
  assume p: "parse_args as = Run o'"
  have d: "ports_ok (cli_default\<lparr>command_args := c\<rparr>)" for c by (simp add: ports_ok_def cli_default_def)
  have "scan_info as \<noteq> Some (Run x)" for x by (induction as rule: scan_info.induct) auto
  then show ?thesis using p d parse_head_ports parse_legacy_ports
    by (fastforce simp: parse_args_def Let_def split: option.splits list.splits if_splits sum.splits)
qed

lemma bind_first_picks:
  "bind_first bind ps e = Inr q \<Longrightarrow> \<exists>before p after. ps = before @ p # after \<and> bind p = Inr q \<and> (\<forall>p'\<in>set before. \<exists>e. bind p' = Inl e)"
proof (induction ps arbitrary: e)
  case (Cons p ps)
  show ?case
  proof (cases "bind p")
    case (Inl e')
    then obtain before r after where "ps = before @ r # after" "bind r = Inr q" "\<forall>p'\<in>set before. \<exists>e. bind p' = Inl e"
      using Cons by fastforce
    then show ?thesis using Inl by (intro exI [of _ "p # before"]) auto
  next
    case (Inr r)
    then show ?thesis using Cons(2) by (intro exI [of _ "[]"]) simp
  qed
qed simp

lemma upt_split: "[a ..< b] = before @ p # after \<Longrightarrow> a \<le> p \<and> p < b \<and> set before = {a ..< p}"
proof -
  assume u: "[a ..< b] = before @ p # after"
  have "before = take (length before) [a ..< b]" and n: "length before < length [a ..< b]" and "p = [a ..< b] ! length before"
    by (simp_all add: u)
  then have b: "before = [a ..< a + length before]" "p = a + length before" "length before < b - a" by simp_all
  have "set before = set [a ..< a + length before]" using b(1) by simp
  then show ?thesis using b(2,3) by auto
qed

section \<open>Where the code does not do what it says\<close>

text \<open>With no bind argument the server still binds to the address of the ssh connection.\<close>

lemma any_binds_like_ssh:
  "desired_ip (meant_options AnyAddress ports log foreground command vars) conn =
     desired_ip (meant_options SshConnection ports log foreground command vars) conn"
  by (simp add: desired_ip_def meant_options_def)

text \<open>An argument that is no option does not end the options.\<close>

lemma stray_argument_skipped: "parse_args [str ''new'', str ''stray'', str ''-D''] = Run (cli_default\<lparr>command_args := [], no_daemonize := True\<rparr>)"
  by (simp add: parse_args_def parse_one_simps)

text \<open>A literal IPv6 address is cut at its first and at its last colon.\<close>

lemma ipv6_literal_is_cut: "russh_target env (str ''u@::1'') None = (str ''u'', [], 1)"
  by (simp add: russh_target_def target_hostname_def target_port_def host_part_def rsplit_once_def parse_uint_def
      is_digit_def digits_value_def)

text \<open>Under cmd.exe an empty argument is lost.\<close>

lemma cmd_loses_empty_argument: "join [32] (map cmd_quote [str ''a'', [], str ''b'']) = str ''a'' @ [32, 32] @ str ''b''"
  by (simp add: cmd_quote_def)

text \<open>Locale variables that are all set to nothing give an empty export, not the default locale.\<close>

lemma empty_locale_exports_nothing: "locale_export [(str ''LANG'', [])] = str ''export ''"
  by (simp add: locale_export_def)

section \<open>Properties\<close>

text \<open>
  C33. The server gets the options that were meant: the command line that the wrapper quotes is split by a
  POSIX shell into the very arguments, whatever characters they contain, and the server parses from them
  the bind address, the ports, the locale, the log file and the command.
\<close>

theorem server_gets_the_options:
  assumes "values_ok bind log" and "\<forall>(n, v)\<in>set vars. 61 \<notin> set n"
    and "rel_option (\<lambda>r lh. parse_portrange r = Inr lh) rg ports"
  shows "\<exists>argv. posix_split (shell_quote_all (build_server_args path bind rg log foreground command vars)) = Some (path # argv) \<and>
    parse_args argv = Run (meant_options bind ports log foreground command vars)"
  using parse_built [OF assms, of path foreground command] posix_shell.dec_enc
  by (intro exI [of _ "tl (build_server_args path bind rg log foreground command vars)"]) (simp add: build_args)

theorem server_gets_the_options_witness:
  "\<exists>argv. posix_split (shell_quote_all (build_server_args (str ''morsh-server'') SshConnection (Some (str ''60001:60010'')) None False
      [str ''echo'', [105, 116, 39, 115]] [(str ''LANG'', str ''en US'')])) = Some (str ''morsh-server'' # argv) \<and>
    parse_args argv = Run (meant_options SshConnection (Some (60001, 60010)) None False [str ''echo'', [105, 116, 39, 115]] [(str ''LANG'', str ''en US'')])"
  by (rule server_gets_the_options)
    (simp_all add: values_ok_def parse_portrange_def parse_uint_def is_digit_def digits_value_def)

text \<open>
  C36. A host key is trusted exactly if a file records it and no file before that says it has changed, or if
  no file knows the host and the policy, or the user, accepts it; only then is it recorded. A changed key
  is never trusted under any policy.
\<close>

theorem host_key_trusted_iff:
  "(fst (verify check tty answers p) \<longleftrightarrow>
     (\<exists>before f after. known_hosts p = before @ f # after \<and> check f = Recorded \<and> (\<forall>g\<in>set before. \<forall>n. check g \<noteq> KeyChanged n)) \<or>
     snd (verify check tty answers p)) \<and>
   (snd (verify check tty answers p) \<longleftrightarrow>
     (\<forall>f\<in>set (known_hosts p). check f = NotRecorded \<or> check f = Unusable) \<and>
     (strict p = AcceptNew \<or> strict p = Ask \<and> tty \<and> ask_loop answers))"
proof
  show "fst (verify check tty answers p) \<longleftrightarrow>
     (\<exists>before f after. known_hosts p = before @ f # after \<and> check f = Recorded \<and> (\<forall>g\<in>set before. \<forall>n. check g \<noteq> KeyChanged n)) \<or>
     snd (verify check tty answers p)"
    unfolding check_files_true [symmetric] by (auto simp: verify_def Let_def split: option.splits)
  show "snd (verify check tty answers p) \<longleftrightarrow>
     (\<forall>f\<in>set (known_hosts p). check f = NotRecorded \<or> check f = Unusable) \<and>
     (strict p = AcceptNew \<or> strict p = Ask \<and> tty \<and> ask_loop answers)"
    unfolding check_files_none [symmetric]
    by (cases "strict p") (auto simp: verify_def ask_def Let_def split: option.splits)
qed

theorem host_key_trusted_iff_witness:
  "\<not> fst (verify (\<lambda>f. if f = str ''a'' then KeyChanged 3 else Recorded) True [str ''yes'']
     \<lparr>hk_host = str ''h'', hk_port = 22, known_hosts = [str ''a'', str ''b''], learn_into = str ''a'', strict = AcceptNew\<rparr>)"
  using host_key_trusted_iff [of "\<lambda>f. if f = str ''a'' then KeyChanged 3 else Recorded" True "[str ''yes'']"
      "\<lparr>hk_host = str ''h'', hk_port = 22, known_hosts = [str ''a'', str ''b''], learn_into = str ''a'', strict = AcceptNew\<rparr>"]
  by (auto simp: Cons_eq_append_conv)

text \<open>
  The target of a connection is the user, host and port that were typed: an explicit user and port
  come out as they went in.
\<close>

theorem typed_target_is_used:
  assumes "64 \<notin> set h" and "58 \<notin> set h" and "p \<le> 65535"
  shows "russh_target env (u @ 64 # h @ 58 # show_nat p) None = (u, h, p)"
proof -
  have d: "58 \<notin> set (show_nat p)" "64 \<notin> set (show_nat p)"
    using show_nat_digits [of p] by (auto simp: list_all_iff is_digit_def)
  have at: "rsplit_once 64 (u @ 64 # h @ 58 # show_nat p) = Some (u, h @ 58 # show_nat p)"
    using assms(1) d by (intro rsplit_once_append) simp
  have colon: "rsplit_once 58 (h @ 58 # show_nat p) = Some (h, show_nat p)" using d(1) by (rule rsplit_once_append)
  have "takeWhile (\<lambda>c. c \<noteq> 58) (h @ 58 # show_nat p) = h" using assms(2) by (subst takeWhile_append2) auto
  then show ?thesis using at colon parse_show [OF assms(3)]
    by (simp add: russh_target_def target_hostname_def target_port_def host_part_def)
qed

theorem typed_target_is_used_witness:
  "russh_target (\<lambda>n. None) (str ''bob@example.org:'' @ show_nat 2222) None = (str ''bob'', str ''example.org'', 2222)"
  using typed_target_is_used [of "str ''example.org''" 2222 "\<lambda>n. None" "str ''bob''"] by simp

text \<open>
  C37. The server announces the first free port of the range that was asked for, or of the default range
  60001 to 60999 when none was: every port before it could not be bound.
\<close>

theorem first_free_port_is_announced:
  assumes "parse_args argv = Run opts" and "pick_port bind (port_low opts) (port_high opts) = Inr q"
  shows "\<exists>p. bind p = Inr (Inr q) \<and> 1 \<le> p \<and>
    (if port_low opts = 0 then 60001 \<le> p \<and> p \<le> 60999 \<and> (\<forall>p'\<in>{60001..<p}. \<exists>e. bind p' = Inl e)
     else unat (port_low opts) \<le> p \<and> p \<le> unat (port_high opts) \<and> (\<forall>p'\<in>{unat (port_low opts)..<p}. \<exists>e. bind p' = Inl e))"
proof -
  define lo where "lo = (if port_low opts = 0 then 60001 else unat (port_low opts))"
  define hi where "hi = (if port_low opts = 0 then 60999 else unat (port_high opts))"
  have ok: "ports_ok opts" by (rule parse_args_ports [OF assms(1)])
  have "(if port_low opts = 0 then (PORT_RANGE_LOW, PORT_RANGE_HIGH) else (port_low opts, port_high opts)) =
      (word_of_nat lo, word_of_nat hi)" and "unat (word_of_nat lo :: u16) = lo" "unat (word_of_nat hi :: u16) = hi"
    by (simp_all add: lo_def hi_def PORT_RANGE_LOW_def PORT_RANGE_HIGH_def)
  then have "bind_first bind [lo ..< Suc hi] [] = Inr (Inr q)"
    using assms(2) unfolding pick_port_def Let_def by (simp del: upt_Suc split: sum.splits)
  then obtain before p after where b: "[lo ..< Suc hi] = before @ p # after" "bind p = Inr (Inr q)" "\<forall>p'\<in>set before. \<exists>e. bind p' = Inl e"
    using bind_first_picks by blast
  have "1 \<le> lo" using ok by (auto simp: lo_def ports_ok_def)
  then have "bind p = Inr (Inr q) \<and> 1 \<le> p \<and> lo \<le> p \<and> p \<le> hi \<and> (\<forall>p'\<in>{lo..<p}. \<exists>e. bind p' = Inl e)"
    using upt_split [OF b(1)] b(2,3) by auto
  then show ?thesis unfolding lo_def hi_def by (intro exI [of _ p]) (cases "port_low opts = 0"; simp only: if_True if_False simp_thms; blast)
qed

theorem first_free_port_is_announced_witness:
  "\<exists>p. (if p = (60001::nat) then Inl [] else Inr (Inr p)) = (Inr (Inr 60002) :: bind_result) \<and> 60001 \<le> p \<and> p \<le> 60999"
proof -
  have a: "parse_args [str ''new''] = Run (cli_default\<lparr>command_args := []\<rparr>)" by (simp add: parse_args_def)
  have "pick_port (\<lambda>p. if p = 60001 then Inl [] else Inr (Inr p)) 0 0 = Inr 60002"
    by (simp add: pick_port_def PORT_RANGE_LOW_def PORT_RANGE_HIGH_def upt_rec [of 60001] upt_rec [of 60002])
  then show ?thesis
    using first_free_port_is_announced [OF a, of "\<lambda>p. if p = 60001 then Inl [] else Inr (Inr p)" 60002]
    unfolding cli_default_def by (simp only: cli_options.simps simp_thms if_True) blast
qed

end
