(* ===== verification/Ssh_Session.thy ===== *)
theory Ssh_Session
  imports Host_Keys Server_Cli
begin

text \<open>
  \<open>crates/morsh-ssh/src/lib.rs\<close> and the wrapper's choices around it: which address is connected to, which
  keys are offered and when a passphrase is asked for, and what a command's channel messages become. The
  ssh library is an argument: what loading a file gives, what the server says to an offered key, which
  messages arrive.
\<close>

section \<open>Text of bytes\<close>

definition is_cont :: "u8 \<Rightarrow> bool" where
  "is_cont b \<longleftrightarrow> 128 \<le> unat b \<and> unat b < 192"

text \<open>The second byte that may follow a lead byte of three or four.\<close>

definition second_ok :: "u8 \<Rightarrow> u8 \<Rightarrow> bool" where
  "second_ok b c \<longleftrightarrow>
     (if unat b = 224 then 160 \<le> unat c \<and> unat c < 192
      else if unat b = 237 then 128 \<le> unat c \<and> unat c < 160
      else if unat b = 240 then 144 \<le> unat c \<and> unat c < 192
      else if unat b = 244 then 128 \<le> unat c \<and> unat c < 144
      else is_cont c)"

text \<open>\<open>String::from_utf8_lossy\<close>: each longest beginning of a character that goes wrong is one U+FFFD.\<close>

fun lossy :: "bytes \<Rightarrow> rtext" where
  "lossy [] = []"
| "lossy (b # bs) =
     (if unat b < 128 then unat b # lossy bs
      else if 194 \<le> unat b \<and> unat b < 224 then
        (case bs of
           b1 # r1 \<Rightarrow>
             if is_cont b1 then ((unat b - 192) * 64 + (unat b1 - 128)) # lossy r1 else 65533 # lossy bs
         | [] \<Rightarrow> [65533])
      else if 224 \<le> unat b \<and> unat b < 240 then
        (case bs of
           b1 # r1 \<Rightarrow>
             if second_ok b b1 then
               (case r1 of
                  b2 # r2 \<Rightarrow>
                    if is_cont b2 then ((unat b - 224) * 4096 + (unat b1 - 128) * 64 + (unat b2 - 128)) # lossy r2
                    else 65533 # lossy r1
                | [] \<Rightarrow> [65533])
             else 65533 # lossy bs
         | [] \<Rightarrow> [65533])
      else if 240 \<le> unat b \<and> unat b < 245 then
        (case bs of
           b1 # r1 \<Rightarrow>
             if second_ok b b1 then
               (case r1 of
                  b2 # r2 \<Rightarrow>
                    if is_cont b2 then
                      (case r2 of
                         b3 # r3 \<Rightarrow>
                           if is_cont b3 then
                             ((unat b - 240) * 262144 + (unat b1 - 128) * 4096 + (unat b2 - 128) * 64 + (unat b3 - 128)) # lossy r3
                           else 65533 # lossy r2
                       | [] \<Rightarrow> [65533])
                    else 65533 # lossy r1
                | [] \<Rightarrow> [65533])
             else 65533 # lossy bs
         | [] \<Rightarrow> [65533])
      else 65533 # lossy bs)"

text \<open>\<open>str::lines\<close>.\<close>

definition strip_cr :: "rtext \<Rightarrow> rtext" where
  "strip_cr l = (if l \<noteq> [] \<and> last l = 13 then butlast l else l)"

fun lines_from :: "rtext \<Rightarrow> rtext \<Rightarrow> rtext list" where
  "lines_from acc [] = (if acc = [] then [] else [acc])"
| "lines_from acc (c # cs) = (if c = 10 then strip_cr acc # lines_from [] cs else lines_from (acc @ [c]) cs)"

definition lines :: "rtext \<Rightarrow> rtext list" where
  "lines = lines_from []"

section \<open>Connecting\<close>

text \<open>
  \<open>connect_tcp\<close>: the addresses that the name resolves to, IPv4 first, until one can be connected to.
  \<open>None\<close> as the error stands for a name without addresses.
\<close>

fun first_reachable :: "('a \<Rightarrow> rtext + 's) \<Rightarrow> 'a list \<Rightarrow> rtext option \<Rightarrow> rtext option + 's" where
  "first_reachable dial [] last_err = Inl last_err"
| "first_reachable dial (a # as) last_err =
     (case dial a of Inr s \<Rightarrow> Inr s | Inl e \<Rightarrow> first_reachable dial as (Some e))"

definition connect_tcp :: "('a \<Rightarrow> bool) \<Rightarrow> ('a \<Rightarrow> rtext + 's) \<Rightarrow> 'a list \<Rightarrow> rtext option + 's" where
  "connect_tcp is_ipv4 dial addrs = first_reachable dial (sort_key (\<lambda>a. \<not> is_ipv4 a) addrs) None"

text \<open>\<open>resolve_host\<close> of the wrapper. \<open>None\<close> is the exit with an error.\<close>

definition resolve_host :: "('a \<Rightarrow> bool) \<Rightarrow> 'a list \<Rightarrow> 'a option" where
  "resolve_host is_ipv4 addrs =
     (case find is_ipv4 addrs of
        Some a \<Rightarrow> Some a
      | None \<Rightarrow> (case addrs of a # _ \<Rightarrow> Some a | [] \<Rightarrow> None))"

section \<open>Authentication\<close>

text \<open>What loading a key without a passphrase gives.\<close>

datatype 'k load = Loaded 'k | KeyIsEncrypted | LoadFailed rtext

text \<open>What happens on the way: the keys offered and the questions for a passphrase.\<close>

datatype ('p, 'k) auth_event = Offered 'k | Prompted 'p

datatype 'p auth = Authenticated 'p | Refused | AuthError rtext

text \<open>
  The first loop: the keys that need no passphrase. The server's answer to an offer, an error or whether
  the key is accepted, may depend on what happened before. \<open>None\<close>: no verdict yet; the last part are the
  encrypted keys.
\<close>

fun offer_plain ::
  "('p \<Rightarrow> 'k load) \<Rightarrow> (('p, 'k) auth_event list \<Rightarrow> 'k \<Rightarrow> rtext + bool) \<Rightarrow> 'p list \<Rightarrow> ('p, 'k) auth_event list \<Rightarrow> 'p list \<Rightarrow>
   ('p, 'k) auth_event list \<times> 'p auth option \<times> 'p list" where
  "offer_plain load offer [] log enc = (log, None, enc)"
| "offer_plain load offer (p # ps) log enc =
     (case load p of
        Loaded k \<Rightarrow>
          (case offer log k of
             Inl e \<Rightarrow> (log @ [Offered k], Some (AuthError e), enc)
           | Inr True \<Rightarrow> (log @ [Offered k], Some (Authenticated p), enc)
           | Inr False \<Rightarrow> offer_plain load offer ps (log @ [Offered k]) enc)
      | KeyIsEncrypted \<Rightarrow> offer_plain load offer ps log (enc @ [p])
      | LoadFailed e \<Rightarrow> offer_plain load offer ps log enc)"

text \<open>\<open>load_key_with_passphrase_prompt\<close>; \<open>unlock\<close> is the file read with the passphrase the user gives.\<close>

definition load_key_with_passphrase_prompt ::
  "('p \<Rightarrow> 'k load) \<Rightarrow> ('p \<Rightarrow> rtext + 'k) \<Rightarrow> 'p \<Rightarrow> ('p, 'k) auth_event list \<Rightarrow> ('p, 'k) auth_event list \<times> (rtext + 'k)" where
  "load_key_with_passphrase_prompt load unlock p log =
     (case load p of
        Loaded k \<Rightarrow> (log, Inr k)
      | LoadFailed e \<Rightarrow> (log, Inl e)
      | KeyIsEncrypted \<Rightarrow> (log @ [Prompted p], unlock p))"

fun offer_encrypted ::
  "('p \<Rightarrow> 'k load) \<Rightarrow> ('p \<Rightarrow> rtext + 'k) \<Rightarrow> (('p, 'k) auth_event list \<Rightarrow> 'k \<Rightarrow> rtext + bool) \<Rightarrow> 'p list \<Rightarrow>
   ('p, 'k) auth_event list \<Rightarrow> ('p, 'k) auth_event list \<times> 'p auth" where
  "offer_encrypted load unlock offer [] log = (log, Refused)"
| "offer_encrypted load unlock offer (p # ps) log =
     (case load_key_with_passphrase_prompt load unlock p log of
        (log1, Inl e) \<Rightarrow> (log1, AuthError e)
      | (log1, Inr k) \<Rightarrow>
          (case offer log1 k of
             Inl e \<Rightarrow> (log1 @ [Offered k], AuthError e)
           | Inr True \<Rightarrow> (log1 @ [Offered k], Authenticated p)
           | Inr False \<Rightarrow> offer_encrypted load unlock offer ps (log1 @ [Offered k])))"

definition authenticate ::
  "('p \<Rightarrow> 'k load) \<Rightarrow> ('p \<Rightarrow> rtext + 'k) \<Rightarrow> (('p, 'k) auth_event list \<Rightarrow> 'k \<Rightarrow> rtext + bool) \<Rightarrow> 'p list \<Rightarrow>
   ('p, 'k) auth_event list \<times> 'p auth" where
  "authenticate load unlock offer key_paths =
     (case offer_plain load offer key_paths [] [] of
        (log, Some r, enc) \<Rightarrow> (log, r)
      | (log, None, enc) \<Rightarrow> offer_encrypted load unlock offer enc log)"

section \<open>Commands\<close>

datatype channel_msg = Data bytes | ExtendedData bytes | ExitStatus u32 | OtherMsg

text \<open>The last exit status; without one the code panics.\<close>

fun exit_code :: "channel_msg list \<Rightarrow> u32 option \<Rightarrow> u32 option" where
  "exit_code [] code = code"
| "exit_code (ExitStatus n # msgs) code = exit_code msgs (Some n)"
| "exit_code (_ # msgs) code = exit_code msgs code"

fun data_texts :: "channel_msg list \<Rightarrow> rtext list" where
  "data_texts [] = []"
| "data_texts (Data d # msgs) = lossy d # data_texts msgs"
| "data_texts (_ # msgs) = data_texts msgs"

definition exec_raw :: "channel_msg list \<Rightarrow> (u32 \<times> rtext) option" where
  "exec_raw msgs =
     map_option (\<lambda>code. (code, rev (dropWhile (\<lambda>c. c = 10) (rev (concat (data_texts msgs)))))) (exit_code msgs None)"

text \<open>The code, and the lines that the handler is called with.\<close>

definition exec_with_handler :: "channel_msg list \<Rightarrow> (u32 \<times> rtext list) option" where
  "exec_with_handler msgs = map_option (\<lambda>code. (code, concat (map lines (data_texts msgs)))) (exit_code msgs None)"

section \<open>The wrapper's use\<close>

datatype ssh_mode = ModeAuto | ModeSystem | ModeRussh

definition choose_mode :: "bool \<Rightarrow> ssh_mode \<Rightarrow> ssh_mode" where
  "choose_mode installed mode = (if mode = ModeAuto then if installed then ModeSystem else ModeRussh else mode)"

text \<open>
  The remote shell of the built-in client. The outer \<open>None\<close> is an exit or a panic, the inner \<open>None\<close> that
  the probe could not be run; \<open>probe\<close> are the messages of its channel, if it could be opened.
\<close>

definition russh_shell :: "rtext \<Rightarrow> channel_msg list option \<Rightarrow> remote_shell option option" where
  "russh_shell v probe =
     (case resolve_remote_shell_value v of
        None \<Rightarrow> None
      | Some (Some s) \<Rightarrow> Some (Some s)
      | Some None \<Rightarrow>
          (case probe of
             None \<Rightarrow> Some None
           | Some msgs \<Rightarrow> map_option (\<lambda>(code, out). Some (classify_shell_probe (code = 0) out)) (exec_raw msgs)))"

text \<open>What the launch command's channel gives; the address is the one the session is connected to.\<close>

definition russh_answer :: "rtext \<Rightarrow> channel_msg list \<Rightarrow> connect_info option option" where
  "russh_answer peer msgs =
     map_option (\<lambda>(code, ls). map_option (\<lambda>i. i\<lparr>ci_ip := Some peer\<rparr>) (last_connect ls)) (exec_with_handler msgs)"

end
