(* ===== verification/Ssh_Properties.thy ===== *)
theory Ssh_Properties
  imports Ssh_Session Launching
begin

text \<open>
  What holds of the built-in ssh client: when a passphrase is asked for, which address is taken and how
  the server's answer is found in the messages of a channel.
\<close>

section \<open>Text\<close>

lemma lossy_encode_char:
  assumes "is_char c"
  shows "lossy (encode_char c @ rest) = c # lossy rest"
proof -
  have c: "c < 1114112" "\<not> (55296 \<le> c \<and> c < 57344)" using assms by (auto simp: is_char_def)
  consider "c < 128" | "128 \<le> c" "c < 2048" | "2048 \<le> c" "c < 65536" | "65536 \<le> c" by linarith
  then show ?thesis
  proof cases
    case 1
    then show ?thesis by (simp add: encode_char_def)
  next
    case 2
    define q r where "q = c div 64" and "r = c mod 64"
    have e: "encode_char c = [byte (192 + q), byte (128 + r)]" using 2 by (simp add: encode_char_def q_def r_def)
    have "q < 32" "2 \<le> q" "r < 64" "q * 64 + r = c"
      using 2 split_base64(1) [of c] unfolding q_def r_def by (simp_all add: less_mult_imp_div_less less_eq_div_iff_mult_less_eq)
    then show ?thesis by (simp add: e is_cont_def)
  next
    case 3
    then have d: "c div 4096 < 16" by (simp add: less_mult_imp_div_less)
    have m: "c div 64 mod 64 < 64" "c mod 64 < 64" by simp_all
    have s: "c = c div 4096 * 4096 + c div 64 mod 64 * 64 + c mod 64" using split_base64(2) [of c] by simp
    have low: "c div 4096 = 0 \<Longrightarrow> 32 \<le> c div 64 mod 64" using s 3 m by linarith
    have sur: "c div 4096 = 13 \<Longrightarrow> c div 64 mod 64 < 32" using s c(2) m by linarith
    have ok: "second_ok (byte (224 + c div 4096)) (byte (128 + c div 64 mod 64))"
      using d m low sur by (auto simp: second_ok_def is_cont_def)
    show ?thesis using 3 d m s ok by (simp add: encode_char_def is_cont_def)
  next
    case 4
    then have d: "c div 262144 < 5" using c by (simp add: less_mult_imp_div_less)
    have m: "c div 4096 mod 64 < 64" "c div 64 mod 64 < 64" "c mod 64 < 64" by simp_all
    have s: "c = c div 262144 * 262144 + c div 4096 mod 64 * 4096 + c div 64 mod 64 * 64 + c mod 64"
      using split_base64(3) [of c] by simp
    have low: "c div 262144 = 0 \<Longrightarrow> 16 \<le> c div 4096 mod 64" using s 4 m by linarith
    have top: "c div 262144 = 4 \<Longrightarrow> c div 4096 mod 64 < 16" using s c(1) m by linarith
    have ok: "second_ok (byte (240 + c div 262144)) (byte (128 + c div 4096 mod 64))"
      using d m low top by (auto simp: second_ok_def is_cont_def)
    show ?thesis using 4 d m s ok by (simp add: encode_char_def is_cont_def)
  qed
qed

lemma lossy_utf8: "list_all is_char s \<Longrightarrow> lossy (utf8 s) = s"
  by (induction s) (simp_all add: utf8_def lossy_encode_char)

lemma lines_from_append: "lines_from acc (a @ 10 # b) = lines_from acc (a @ [10]) @ lines b"
  by (induction a arbitrary: acc) (simp_all add: lines_def)

text \<open>Pieces that end with a line end have the lines of the whole.\<close>

definition whole_lines :: "rtext \<Rightarrow> bool" where
  "whole_lines t \<longleftrightarrow> t = [] \<or> last t = 10"

lemma lines_concat: "list_all whole_lines ts \<Longrightarrow> concat (map lines ts) = lines (concat ts)"
proof (induction ts)
  case Nil
  show ?case by (simp add: lines_def)
next
  case (Cons t ts)
  show ?case
  proof (cases "t = []")
    case True
    then show ?thesis using Cons by (simp add: lines_def)
  next
    case False
    then have "t = butlast t @ [10]" using Cons(2) append_butlast_last_id [of t] by (simp add: whole_lines_def)
    then obtain a where "t = a @ [10]" by blast
    then show ?thesis using Cons lines_from_append [of "[]" a "concat ts"] by (simp add: lines_def)
  qed
qed

lemma lines_from_line:
  "10 \<notin> set l \<Longrightarrow> lines_from acc (l @ 10 # rest) = strip_cr (acc @ l) # lines rest"
  by (induction l arbitrary: acc) (auto simp: lines_def)

lemma lines_line: "10 \<notin> set l \<Longrightarrow> 13 \<notin> set l \<Longrightarrow> lines (l @ 10 # rest) = l # lines rest"
  using lines_from_line [of l "[]" rest] by (cases l rule: rev_cases) (auto simp: lines_def strip_cr_def)

section \<open>Addresses\<close>

lemma sort_key_false_first: "sort_key (\<lambda>a. \<not> P a) xs = filter P xs @ filter (\<lambda>a. \<not> P a) xs"
proof -
  have "insort_key (\<lambda>a. \<not> P a) x (ys @ zs) = (if P x then x # ys @ zs else ys @ x # zs)"
    if "\<forall>y\<in>set ys. P y" "\<forall>z\<in>set zs. \<not> P z" for x ys zs
    using that by (induction ys) (cases zs; simp)+
  then show ?thesis by (induction xs) (simp_all add: sort_key_def)
qed

lemma first_reachable_append:
  "first_reachable dial (as @ bs) e =
     (case first_reachable dial as e of Inr s \<Rightarrow> Inr s | Inl e' \<Rightarrow> first_reachable dial bs e')"
  by (induction as arbitrary: e) (simp_all split: sum.splits)

lemma first_reachable_fails: "(\<exists>e'. first_reachable dial as e = Inl e') \<longleftrightarrow> (\<forall>a\<in>set as. \<exists>e. dial a = Inl e)"
  by (induction as arbitrary: e) (auto split: sum.splits)

lemma first_reachable_dials: "first_reachable dial as e = Inr s \<Longrightarrow> \<exists>a\<in>set as. dial a = Inr s"
  by (induction as arbitrary: e) (auto split: sum.splits)

text \<open>An IPv6 address is taken only if no IPv4 address can be reached, and none only if no address can.\<close>

lemma connect_tcp_prefers_ipv4:
  assumes "connect_tcp is_ipv4 dial addrs = Inr s" and "a \<in> set addrs" and "is_ipv4 a" and "dial a = Inr s'"
  shows "\<exists>a\<in>set addrs. is_ipv4 a \<and> dial a = Inr s"
proof (cases "first_reachable dial (filter is_ipv4 addrs) None")
  case (Inl e)
  then have all: "\<forall>a\<in>set (filter is_ipv4 addrs). \<exists>e. dial a = Inl e"
    using first_reachable_fails [of dial "filter is_ipv4 addrs" None] by blast
  have "a \<in> set (filter is_ipv4 addrs)" using assms(2,3) by simp
  then obtain e where "dial a = Inl e" using all by blast
  then show ?thesis using assms(4) by simp
next
  case (Inr t)
  then have "t = s" using assms(1) by (simp add: connect_tcp_def sort_key_false_first first_reachable_append)
  then show ?thesis using first_reachable_dials [OF Inr] by auto
qed

lemma connect_tcp_fails: "(\<exists>e. connect_tcp is_ipv4 dial addrs = Inl e) \<longleftrightarrow> (\<forall>a\<in>set addrs. \<exists>e. dial a = Inl e)"
  by (simp add: connect_tcp_def first_reachable_fails)

section \<open>Authentication\<close>

text \<open>The properties of a log that each event extends.\<close>

definition all_declined :: "(('p, 'k) auth_event list \<Rightarrow> 'k \<Rightarrow> rtext + bool) \<Rightarrow> ('p, 'k) auth_event list \<Rightarrow> bool" where
  "all_declined offer log \<longleftrightarrow> (\<forall>b k a. log = b @ Offered k # a \<longrightarrow> offer b k = Inr False)"

definition all_prompts :: "(('p, 'k) auth_event list \<Rightarrow> 'p \<Rightarrow> bool) \<Rightarrow> ('p, 'k) auth_event list \<Rightarrow> bool" where
  "all_prompts P log \<longleftrightarrow> (\<forall>b p a. log = b @ Prompted p # a \<longrightarrow> P b p)"

definition accepted :: "(('p, 'k) auth_event list \<Rightarrow> 'k \<Rightarrow> rtext + bool) \<Rightarrow> ('p, 'k) auth_event list \<Rightarrow> bool" where
  "accepted offer log \<longleftrightarrow> (\<exists>b k. log = b @ [Offered k] \<and> offer b k = Inr True)"

lemma split_snoc: "xs @ [x] = b @ y # a \<longleftrightarrow> a = [] \<and> b = xs \<and> y = x \<or> (\<exists>a'. a = a' @ [x] \<and> xs = b @ y # a')"
  by (cases a rule: rev_cases) auto

lemma log_simps [simp]:
  "all_declined offer []" "all_prompts P []"
  "all_declined offer (log @ [Offered k]) \<longleftrightarrow> all_declined offer log \<and> offer log k = Inr False"
  "all_declined offer (log @ [Prompted p]) \<longleftrightarrow> all_declined offer log"
  "all_prompts P (log @ [Offered k]) \<longleftrightarrow> all_prompts P log"
  "all_prompts P (log @ [Prompted p]) \<longleftrightarrow> all_prompts P log \<and> P log p"
  "offer log k = Inr True \<Longrightarrow> accepted offer (log @ [Offered k])"
  by (auto simp: all_declined_def all_prompts_def accepted_def split_snoc)

lemma offer_plain_log:
  assumes "offer_plain load offer ps log enc = (log', r, enc')" and "all_declined offer log" and "all_prompts P log"
  shows "all_prompts P log' \<and> set log \<subseteq> set log' \<and> (\<forall>q. r = Some (Authenticated q) \<longrightarrow> accepted offer log') \<and> r \<noteq> Some Refused \<and>
    (r = None \<longrightarrow> all_declined offer log' \<and> (\<forall>q\<in>set ps. \<forall>k. load q = Loaded k \<longrightarrow> Offered k \<in> set log') \<and>
      enc' = enc @ filter (\<lambda>q. load q = KeyIsEncrypted) ps)"
  using assms
proof (induction load offer ps log enc arbitrary: log' r enc' rule: offer_plain.induct)
  case (2 load offer p ps log enc)
  show ?case
  proof (cases "load p")
    case (Loaded k)
    show ?thesis
    proof (cases "offer log k")
      case (Inl e)
      then show ?thesis using 2(4-6) Loaded by auto
    next
      case (Inr b)
      show ?thesis
      proof (cases b)
        case True
        then show ?thesis using 2(4-6) Loaded Inr by auto
      next
        case False
        then show ?thesis using 2(1) [OF Loaded Inr] 2(4-6) Loaded Inr by fastforce
      qed
    qed
  next
    case KeyIsEncrypted
    then show ?thesis using 2(2) [OF KeyIsEncrypted] 2(4-6) by fastforce
  next
    case (LoadFailed e)
    then show ?thesis using 2(3) [OF LoadFailed] 2(4-6) by fastforce
  qed
qed simp

lemma offer_encrypted_log:
  assumes "offer_encrypted load unlock offer ps log = (log', r)" and "all_declined offer log" and "all_prompts P log"
    and "\<forall>p\<in>set ps. load p = KeyIsEncrypted"
    and "\<And>p l. p \<in> set ps \<Longrightarrow> all_declined offer l \<Longrightarrow> set log \<subseteq> set l \<Longrightarrow> P l p"
  shows "all_prompts P log' \<and> (\<forall>q. r = Authenticated q \<longrightarrow> accepted offer log')"
  using assms
proof (induction load unlock offer ps log arbitrary: log' r rule: offer_encrypted.induct)
  case (2 load unlock offer p ps log)
  define log1 where "log1 = log @ [Prompted p]"
  have l: "load p = KeyIsEncrypted" and P: "P log p" using 2(3-6) by auto
  have d: "all_declined offer log1" "all_prompts P log1" "set log \<subseteq> set log1" using 2(3,4) P by (auto simp: log1_def)
  show ?case
  proof (cases "unlock p")
    case (Inl e)
    then show ?thesis using 2(2) l d(2) by (auto simp: load_key_with_passphrase_prompt_def log1_def)
  next
    case (Inr k)
    have s: "load_key_with_passphrase_prompt load unlock p log = (log1, Inr k)"
      using l Inr by (simp add: log1_def load_key_with_passphrase_prompt_def)
    show ?thesis
    proof (cases "offer log1 k = Inr False")
      case True
      have "offer_encrypted load unlock offer ps (log1 @ [Offered k]) = (log', r)" using 2(2) s True by simp
      then show ?thesis using 2(1) [OF s [symmetric] refl True refl, of log' r] 2(5,6) True d by (simp add: subset_eq)
    next
      case False
      then show ?thesis using 2(2) s d(2) log_simps(7) [of offer log1 k] by (auto split: sum.splits bool.splits)
    qed
  qed
qed simp

section \<open>Properties\<close>

text \<open>
  C38. A passphrase is asked for only for an encrypted key, and only after every key that needs no
  passphrase has been offered and the server has declined each key offered so far. Authentication succeeds
  only with a key that the server has accepted.
\<close>

theorem passphrase_asked_last:
  assumes "authenticate load unlock offer key_paths = (log, r)"
  shows "(\<forall>before p after. log = before @ Prompted p # after \<longrightarrow>
      p \<in> set key_paths \<and> load p = KeyIsEncrypted \<and>
      (\<forall>q\<in>set key_paths. \<forall>k. load q = Loaded k \<longrightarrow> Offered k \<in> set before) \<and>
      (\<forall>b k a. before = b @ Offered k # a \<longrightarrow> offer b k = Inr False)) \<and>
    (\<forall>p. r = Authenticated p \<longrightarrow> (\<exists>before k. log = before @ [Offered k] \<and> offer before k = Inr True))"
proof -
  define P where "P b p \<longleftrightarrow> p \<in> set key_paths \<and> load p = KeyIsEncrypted \<and>
    (\<forall>q\<in>set key_paths. \<forall>k. load q = Loaded k \<longrightarrow> Offered k \<in> set b) \<and> all_declined offer b" for b p
  obtain l1 r1 enc where o: "offer_plain load offer key_paths [] [] = (l1, r1, enc)" by (meson prod_cases3)
  note plain = offer_plain_log [OF o, of P, simplified]
  have "all_prompts P log \<and> (\<forall>q. r = Authenticated q \<longrightarrow> accepted offer log)"
  proof (cases r1)
    case None
    then have e: "offer_encrypted load unlock offer enc l1 = (log, r)" using assms o by (simp add: authenticate_def)
    show ?thesis using None plain by (intro offer_encrypted_log [OF e]) (auto simp: P_def)
  next
    case (Some r')
    then show ?thesis using assms o plain by (simp add: authenticate_def)
  qed
  then show ?thesis by (simp add: all_prompts_def accepted_def P_def all_declined_def)
qed

theorem passphrase_asked_last_witness:
  "authenticate (\<lambda>p. if p = 0 then KeyIsEncrypted else Loaded p) (\<lambda>p. Inr p) (\<lambda>log k. Inr (k = 0)) [0, 1, 2 :: nat] =
     ([Offered 1, Offered 2, Prompted 0, Offered 0], Authenticated 0) \<and>
   (\<exists>before k. [Offered 1, Offered 2, Prompted 0, Offered 0] = before @ [Offered k] \<and> k = (0 :: nat))"
proof -
  have a: "authenticate (\<lambda>p. if p = 0 then KeyIsEncrypted else Loaded p) (\<lambda>p. Inr p) (\<lambda>log k. Inr (k = 0)) [0, 1, 2 :: nat] =
     ([Offered 1, Offered 2, Prompted 0, Offered 0], Authenticated 0)"
    by (simp add: authenticate_def load_key_with_passphrase_prompt_def)
  then show ?thesis using passphrase_asked_last [OF a] by simp
qed

text \<open>
  The built-in client finds the answer that the server prints, if the messages are cut at line ends, and
  takes the address of its own connection.
\<close>

lemma connection_id_is_no_answer: "parse_connect (str ''MOSH CONNECTION ID: 1'') = None"
  by (simp add: words.simps parse_connect_def parse_uint_def is_digit_def is_whitespace_def starts_with_def)

theorem russh_finds_the_answer:
  assumes "port \<le> 65535" and "key \<noteq> []" and "\<forall>c\<in>set key. \<not> is_whitespace c"
    and "list_all whole_lines (data_texts msgs)"
    and "concat (data_texts msgs) = connect_line port key @ 10 # str ''MOSH CONNECTION ID: 1'' @ [10]"
    and "exit_code msgs None = Some code"
  shows "russh_answer peer msgs = Some (Some \<lparr>ci_port = port, ci_key = key, ci_ip = Some peer\<rparr>)"
proof -
  have "\<not> is_whitespace c \<Longrightarrow> c \<noteq> 10 \<and> c \<noteq> 13" for c by (auto simp: is_whitespace_def)
  then have "10 \<notin> set (connect_line port key)" "13 \<notin> set (connect_line port key)"
    using assms(3) show_nat_digits [of port] by (auto simp: connect_line_def list_all_iff is_digit_def)
  then have "lines (concat (data_texts msgs)) = [connect_line port key, str ''MOSH CONNECTION ID: 1'']"
    using assms(5) lines_line [of "str ''MOSH CONNECTION ID: 1''" "[]"] by (simp add: lines_line) (simp add: lines_def)
  then show ?thesis
    using assms(6) lines_concat [OF assms(4)] parse_connect_line [OF assms(1-3)] connection_id_is_no_answer
    by (simp add: russh_answer_def exec_with_handler_def last_connect_def)
qed

text \<open>An answer that a message cuts in two is not found.\<close>

lemma split_answer_is_lost:
  "russh_answer peer [Data (utf8 (str ''MOSH CON'')), Data (utf8 (str ''NECT 60001 KEY'' @ [10])), ExitStatus 0] = Some None"
  by (simp add: russh_answer_def exec_with_handler_def lossy_utf8 is_char_def lines_def strip_cr_def last_connect_def
      parse_connect_def starts_with_def)

end
