(* ===== verification/Ip_Text.thy ===== *)
theory Ip_Text
  imports Rust_Text
begin

text \<open>
  \<open>IpAddr\<close> and \<open>SocketAddr\<close> of the standard library as text: \<open>to_string\<close> and \<open>parse\<close>. The bootstrap
  hands addresses from one program to the next in this form. A parser takes the beginning of the text and
  gives its value and the rest.
\<close>

section \<open>Numbers\<close>

definition to_digit :: "nat \<Rightarrow> rchar \<Rightarrow> nat option" where
  "to_digit radix c =
     (let v = (if 48 \<le> c \<and> c \<le> 57 then c - 48
               else if 97 \<le> c \<and> c \<le> 122 then c - 87
               else if 65 \<le> c \<and> c \<le> 90 then c - 55 else radix)
      in if v < radix then Some v else None)"

fun read_digits :: "nat \<Rightarrow> rtext \<Rightarrow> nat list \<times> rtext" where
  "read_digits radix [] = ([], [])"
| "read_digits radix (c # cs) =
     (case to_digit radix c of
        None \<Rightarrow> ([], c # cs)
      | Some d \<Rightarrow> (d # fst (read_digits radix cs), snd (read_digits radix cs)))"

definition number_of :: "nat \<Rightarrow> nat list \<Rightarrow> nat" where
  "number_of radix ds = foldl (\<lambda>v d. v * radix + d) 0 ds"

definition read_number :: "nat \<Rightarrow> nat option \<Rightarrow> nat \<Rightarrow> bool \<Rightarrow> rtext \<Rightarrow> (nat \<times> rtext) option" where
  "read_number radix max_digits bound allow_zero_prefix s =
     (let (ds, rest) = read_digits radix s
      in if ds = [] \<or> (case max_digits of Some m \<Rightarrow> m < length ds | None \<Rightarrow> False)
            \<or> \<not> allow_zero_prefix \<and> hd ds = 0 \<and> 1 < length ds \<or> bound < number_of radix ds
         then None else Some (number_of radix ds, rest))"

definition read_given :: "rchar \<Rightarrow> rtext \<Rightarrow> rtext option" where
  "read_given c s = (case s of x # xs \<Rightarrow> if x = c then Some xs else None | [] \<Rightarrow> None)"

text \<open>The separator stands before every element but the first.\<close>

definition read_separated :: "rchar \<Rightarrow> nat \<Rightarrow> (rtext \<Rightarrow> 'a option) \<Rightarrow> rtext \<Rightarrow> 'a option" where
  "read_separated sep i inner s =
     (if i = 0 then inner s else (case read_given sep s of None \<Rightarrow> None | Some s' \<Rightarrow> inner s'))"

section \<open>Addresses\<close>

datatype ip_addr = V4 u8 u8 u8 u8 | V6 "u16 list"

text \<open>An IPv6 address has eight segments.\<close>

definition ip_ok :: "ip_addr \<Rightarrow> bool" where
  "ip_ok a = (case a of V4 _ _ _ _ \<Rightarrow> True | V6 gs \<Rightarrow> length gs = 8)"

definition is_ipv4 :: "ip_addr \<Rightarrow> bool" where
  "is_ipv4 a = (case a of V4 _ _ _ _ \<Rightarrow> True | V6 _ \<Rightarrow> False)"

definition unspecified :: ip_addr where
  "unspecified = V4 0 0 0 0"

fun show_hex :: "nat \<Rightarrow> rtext" where
  "show_hex n = (let d = (if n mod 16 < 10 then 48 + n mod 16 else 87 + n mod 16)
                 in if n < 16 then [d] else show_hex (n div 16) @ [d])"

declare show_hex.simps [simp del]

definition show_v4 :: "u8 \<Rightarrow> u8 \<Rightarrow> u8 \<Rightarrow> u8 \<Rightarrow> rtext" where
  "show_v4 a b c d = join [46] (map (\<lambda>x. show_nat (unat x)) [a, b, c, d])"

text \<open>The longest run of zero segments, the first of them: its start and length. The loop's variables are the current run and the longest.\<close>

fun zero_span :: "nat \<Rightarrow> nat \<times> nat \<Rightarrow> nat \<times> nat \<Rightarrow> u16 list \<Rightarrow> nat \<times> nat" where
  "zero_span i cur longest [] = longest"
| "zero_span i cur longest (g # gs) =
     (if g = 0 then
        (let cur' = (if snd cur = 0 then i else fst cur, snd cur + 1)
         in zero_span (i + 1) cur' (if snd longest < snd cur' then cur' else longest) gs)
      else zero_span (i + 1) (0, 0) longest gs)"

definition show_groups :: "u16 list \<Rightarrow> rtext" where
  "show_groups gs = join [58] (map (\<lambda>g. show_hex (unat g)) gs)"

text \<open>An IPv4 address mapped into IPv6.\<close>

definition to_ipv4_mapped :: "u16 list \<Rightarrow> (u8 \<times> u8 \<times> u8 \<times> u8) option" where
  "to_ipv4_mapped gs =
     (case gs of
        [a, b, c, d, e, f, g, h] \<Rightarrow>
          if a = 0 \<and> b = 0 \<and> c = 0 \<and> d = 0 \<and> e = 0 \<and> f = 0xFFFF
          then Some (ucast (drop_bit 8 g), ucast g, ucast (drop_bit 8 h), ucast h) else None
      | _ \<Rightarrow> None)"

definition show_v6 :: "u16 list \<Rightarrow> rtext" where
  "show_v6 gs =
     (case to_ipv4_mapped gs of
        Some (a, b, c, d) \<Rightarrow> str ''::ffff:'' @ show_v4 a b c d
      | None \<Rightarrow>
          let (start, len) = zero_span 0 (0, 0) (0, 0) gs
          in if 1 < len then show_groups (take start gs) @ [58, 58] @ show_groups (drop (start + len) gs)
             else show_groups gs)"

definition show_ip :: "ip_addr \<Rightarrow> rtext" where
  "show_ip ip = (case ip of V4 a b c d \<Rightarrow> show_v4 a b c d | V6 gs \<Rightarrow> show_v6 gs)"

section \<open>Parsing\<close>

definition read_octet :: "nat \<Rightarrow> rtext \<Rightarrow> (nat \<times> rtext) option" where
  "read_octet i = read_separated 46 i (read_number 10 (Some 3) 255 False)"

definition read_v4 :: "rtext \<Rightarrow> ((u8 \<times> u8 \<times> u8 \<times> u8) \<times> rtext) option" where
  "read_v4 s =
     (case read_octet 0 s of None \<Rightarrow> None | Some (a, s1) \<Rightarrow>
        (case read_octet 1 s1 of None \<Rightarrow> None | Some (b, s2) \<Rightarrow>
           (case read_octet 2 s2 of None \<Rightarrow> None | Some (c, s3) \<Rightarrow>
              (case read_octet 3 s3 of None \<Rightarrow> None | Some (d, s4) \<Rightarrow>
                 Some ((word_of_nat a, word_of_nat b, word_of_nat c, word_of_nat d), s4)))))"

text \<open>At most \<open>k\<close> groups, of which \<open>i\<close> have been read before; whether an IPv4 address ended them; the rest.\<close>

fun read_groups :: "nat \<Rightarrow> nat \<Rightarrow> rtext \<Rightarrow> u16 list \<times> bool \<times> rtext" where
  "read_groups 0 i s = ([], False, s)"
| "read_groups (Suc k) i s =
     (case (if 0 < k then read_separated 58 i read_v4 s else None) of
        Some ((a, b, c, d), s') \<Rightarrow> ([ucast a * 256 + ucast b, ucast c * 256 + ucast d], True, s')
      | None \<Rightarrow>
          (case read_separated 58 i (read_number 16 (Some 4) 65535 True) s of
             None \<Rightarrow> ([], False, s)
           | Some (g, s') \<Rightarrow>
               (word_of_nat g # fst (read_groups k (Suc i) s'), snd (read_groups k (Suc i) s'))))"

definition read_v6 :: "rtext \<Rightarrow> (u16 list \<times> rtext) option" where
  "read_v6 s =
     (let (front, ipv4, s1) = read_groups 8 0 s
      in if length front = 8 then Some (front, s1)
         else if ipv4 then None
         else
           (case read_given 58 s1 of None \<Rightarrow> None | Some s2 \<Rightarrow>
              (case read_given 58 s2 of None \<Rightarrow> None | Some s3 \<Rightarrow>
                 let (back, _, s4) = read_groups (8 - (length front + 1)) 0 s3
                 in Some (front @ replicate (8 - length front - length back) 0 @ back, s4))))"

definition read_ip :: "rtext \<Rightarrow> (ip_addr \<times> rtext) option" where
  "read_ip s =
     (case read_v4 s of
        Some ((a, b, c, d), s') \<Rightarrow> Some (V4 a b c d, s')
      | None \<Rightarrow> map_option (\<lambda>(gs, s'). (V6 gs, s')) (read_v6 s))"

definition parse_ip :: "rtext \<Rightarrow> ip_addr option" where
  "parse_ip s = (case read_ip s of Some (a, []) \<Rightarrow> Some a | _ \<Rightarrow> None)"

section \<open>Socket addresses\<close>

text \<open>An address and a port. The scope id that an IPv6 socket address may have is read and dropped.\<close>

type_synonym sock_addr = "ip_addr \<times> nat"

definition show_sock :: "sock_addr \<Rightarrow> rtext" where
  "show_sock = (\<lambda>(ip, port).
     (case ip of V4 _ _ _ _ \<Rightarrow> show_ip ip | V6 _ \<Rightarrow> [91] @ show_ip ip @ [93]) @ [58] @ show_nat port)"

definition read_port :: "rtext \<Rightarrow> (nat \<times> rtext) option" where
  "read_port s = (case read_given 58 s of None \<Rightarrow> None | Some s' \<Rightarrow> read_number 10 None 65535 True s')"

definition read_scope_id :: "rtext \<Rightarrow> rtext" where
  "read_scope_id s =
     (case read_given 37 s of
        None \<Rightarrow> s
      | Some s' \<Rightarrow> (case read_number 10 None (2 ^ 32 - 1) True s' of Some (_, r) \<Rightarrow> r | None \<Rightarrow> s))"

definition read_sock :: "rtext \<Rightarrow> (sock_addr \<times> rtext) option" where
  "read_sock s =
     (case (case read_v4 s of None \<Rightarrow> None | Some ((a, b, c, d), s1) \<Rightarrow> map_option (map_prod (Pair (V4 a b c d)) id) (read_port s1)) of
        Some r \<Rightarrow> Some r
      | None \<Rightarrow>
          (case read_given 91 s of None \<Rightarrow> None | Some s1 \<Rightarrow>
             (case read_v6 s1 of None \<Rightarrow> None | Some (gs, s2) \<Rightarrow>
                (case read_given 93 (read_scope_id s2) of None \<Rightarrow> None | Some s3 \<Rightarrow>
                   map_option (map_prod (Pair (V6 gs)) id) (read_port s3)))))"

definition parse_sock :: "rtext \<Rightarrow> sock_addr option" where
  "parse_sock s = (case read_sock s of Some (a, []) \<Rightarrow> Some a | _ \<Rightarrow> None)"

end
