(* ===== verification/Bootstrap.thy ===== *)
theory Bootstrap
  imports Ip_Text Ssh_Session
begin

text \<open>
  \<open>main\<close> of the wrapper and what it runs: the fake proxy (\<open>fake_proxy.rs\<close>), the fetching of a banner
  (\<open>banner.rs\<close>), the question to ssh (\<open>ssh_config.rs\<close>), the launch through the system's ssh or the built-in
  client and the start of the client program. What the operating system answers is the record \<open>world\<close>.
\<close>

section \<open>The fake proxy\<close>

text \<open>The loop over the sorted addresses; \<open>dial\<close> connects.\<close>

fun try_addresses :: "(sock_addr \<Rightarrow> rtext + 's) \<Rightarrow> sock_addr list \<Rightarrow> rtext \<Rightarrow> rtext + 's" where
  "try_addresses dial [] last_tried = Inl last_tried"
| "try_addresses dial (a # as) last_tried =
     (case dial a of Inr s \<Rightarrow> Inr s | Inl e \<Rightarrow> try_addresses dial as (show_sock a @ str '': '' @ e))"

abbreviation inet_first :: "sock_addr list \<Rightarrow> sock_addr list" where
  "inet_first \<equiv> sort_key (\<lambda>a. \<not> is_ipv4 (fst a))"

definition proxy_connect :: "rtext \<Rightarrow> rtext + sock_addr list \<Rightarrow> (sock_addr \<Rightarrow> rtext + 's) \<Rightarrow> rtext + 's" where
  "proxy_connect host resolved dial =
     (case resolved of
        Inl e \<Rightarrow> Inl (str ''could not resolve '' @ host @ str '': '' @ e)
      | Inr addrs \<Rightarrow>
          (case try_addresses dial (inet_first addrs) (str ''no addresses'') of
             Inr s \<Rightarrow> Inr s
           | Inl e \<Rightarrow> Inl (str ''could not connect to '' @ host @ str '', last tried '' @ e)))"

definition ip_line :: "ip_addr option \<Rightarrow> rtext" where
  "ip_line ip = str ''MOSH IP '' @ (case ip of Some a \<Rightarrow> show_ip a | None \<Rightarrow> [])"

definition proxy_fail :: "rtext \<Rightarrow> rtext" where
  "proxy_fail msg = str ''morsh: '' @ msg"

text \<open>
  The lines on stderr and the stream that is then pumped, \<open>None\<close> being the exit with 255. \<open>peer\<close> and
  \<open>clone_error\<close> are what the stream says of its other end and of being cloned.
\<close>

definition proxy_run ::
  "(rtext \<Rightarrow> nat \<Rightarrow> rtext + sock_addr list) \<Rightarrow> (sock_addr \<Rightarrow> rtext + 's) \<Rightarrow> ('s \<Rightarrow> ip_addr option) \<Rightarrow> ('s \<Rightarrow> rtext option) \<Rightarrow>
     rtext list \<Rightarrow> rtext list \<times> 's option" where
  "proxy_run resolve dial peer clone_error as =
     (case proxy_target as of
        Inl msg \<Rightarrow> ([proxy_fail msg], None)
      | Inr (host, port) \<Rightarrow>
          (case proxy_connect host (resolve host port) dial of
             Inl msg \<Rightarrow> ([proxy_fail msg], None)
           | Inr s \<Rightarrow>
               (case clone_error s of
                  Some e \<Rightarrow> ([ip_line (peer s), proxy_fail e], None)
                | None \<Rightarrow> ([ip_line (peer s)], Some s))))"

text \<open>What a read gives; an empty chunk is the end.\<close>

datatype proxy_read = Chunk bytes | Interrupted | ReadFailed

text \<open>
  What has been written after the reads; \<open>accepts\<close> says whether a chunk can be written and flushed after
  what was written before. A chunk that fails counts as not written.
\<close>

fun pump :: "(bytes \<Rightarrow> bytes \<Rightarrow> bool) \<Rightarrow> proxy_read list \<Rightarrow> bytes \<Rightarrow> bytes" where
  "pump accepts [] out = out"
| "pump accepts (Chunk data # reads) out =
     (if data = [] then out
      else if accepts out data then pump accepts reads (out @ data) else out)"
| "pump accepts (Interrupted # reads) out = pump accepts reads out"
| "pump accepts (ReadFailed # reads) out = out"

section \<open>The world\<close>

text \<open>
  The child that ssh is: the lines of its stdout (\<open>None\<close> is not text), the lines of its stderr that have been
  read when it has ended and the later ones.
\<close>

record ssh_child =
  out_lines :: "rtext option list"
  err_seen :: "rtext list"
  err_later :: "rtext list"

text \<open>
  \<open>run_output\<close>: success and stdout of a program that is run; \<open>can_run\<close>: whether it can be run; \<open>spawn\<close>:
  ssh with extra variables; \<open>look_up\<close>, \<open>look_up_text\<close>: name resolution of a host and port, and of both in one
  text; \<open>banner_dial\<close>: whether a connection's timeout can be set, and the lines the peer sends in time.
  The rest is the built-in client: connecting, handshake, key files, the answers to keys, commands.
\<close>

record ('s, 'k) world =
  env_var :: "rtext \<Rightarrow> rtext option"
  run_output :: "rtext list \<Rightarrow> (bool \<times> rtext) option"
  can_run :: "rtext list \<Rightarrow> bool"
  spawn :: "(rtext \<times> rtext) list \<Rightarrow> rtext list \<Rightarrow> ssh_child option"
  look_up :: "rtext \<Rightarrow> nat \<Rightarrow> rtext + sock_addr list"
  look_up_text :: "rtext \<Rightarrow> rtext + sock_addr list"
  banner_dial :: "sock_addr \<Rightarrow> (bool \<times> rtext list) option"
  own_path :: "rtext option"
  own_dir :: "rtext option"
  is_file :: "rtext \<Rightarrow> bool"
  on_windows :: bool
  info_logged :: bool
  built_in_client :: bool
  tcp_dial :: "sock_addr \<Rightarrow> rtext + 's"
  tcp_peer :: "'s \<Rightarrow> rtext + sock_addr"
  handshake :: "host_key_policy \<Rightarrow> 's \<Rightarrow> rtext option"
  load_key :: "rtext \<Rightarrow> 'k load"
  unlock_key :: "rtext \<Rightarrow> rtext + 'k"
  try_key :: "'s \<Rightarrow> rtext \<Rightarrow> (rtext, 'k) auth_event list \<Rightarrow> 'k \<Rightarrow> rtext + bool"
  exec :: "'s \<Rightarrow> rtext \<Rightarrow> channel_msg list option"

section \<open>Asking before the launch\<close>

definition fetch_banner :: "('s, 'k) world \<Rightarrow> rtext \<Rightarrow> nat \<Rightarrow> rtext option" where
  "fetch_banner W host port =
     (case look_up W host port of
        Inl e \<Rightarrow> None
      | Inr addrs \<Rightarrow>
          (case List.map_filter (banner_dial W) (inet_first addrs) of
             (timeout_set, ls) # _ \<Rightarrow> if timeout_set then read_banner ls else None
           | [] \<Rightarrow> None))"

definition ssh_query :: "('s, 'k) world \<Rightarrow> rtext \<Rightarrow> rtext \<Rightarrow> ssh_config option" where
  "ssh_query W ssh_command host =
     (case words ssh_command of
        [] \<Rightarrow> None
      | program # as \<Rightarrow>
          (case run_output W (program # as @ [str ''-G'', host]) of
             Some (True, out) \<Rightarrow> Some (parse_config (lines out))
           | _ \<Rightarrow> None))"

definition query_ssh_config :: "('s, 'k) world \<Rightarrow> rtext \<Rightarrow> rtext \<Rightarrow> ssh_config option" where
  "query_ssh_config W ssh_command host = (if \<not> asks_ssh host then None else ssh_query W ssh_command host)"

definition system_shell :: "('s, 'k) world \<Rightarrow> rtext \<Rightarrow> rtext \<Rightarrow> ssh_config option \<Rightarrow> remote_shell" where
  "system_shell W ssh_command host cfg =
     resolve_remote_shell_system cfg (fetch_banner W (target_hostname host cfg) (target_port host cfg))
       (run_output W (words ssh_command @ [host, SHELL_PROBE]))"

section \<open>The launch through the system's ssh\<close>

datatype launched = Launched connect_info | LaunchFailed rtext | LaunchExit rtext | LaunchPanic

text \<open>The loop over stdout. The outer \<open>None\<close> is the early return at a line that is not text.\<close>

fun scan_stdout :: "rtext option list \<Rightarrow> connect_info option option" where
  "scan_stdout [] = Some None"
| "scan_stdout (None # ls) = None"
| "scan_stdout (Some l # ls) = (case parse_connect l of Some i \<Rightarrow> Some (Some i) | None \<Rightarrow> scan_stdout ls)"

definition launch_answer :: "ssh_child \<Rightarrow> launched" where
  "launch_answer c =
     (case scan_stdout (out_lines c) of
        None \<Rightarrow> LaunchFailed []
      | Some (Some info) \<Rightarrow> Launched (info\<lparr>ci_ip := fst (read_stderr (err_seen c) None [])\<rparr>)
      | Some None \<Rightarrow>
          let err = snd (read_stderr (err_seen c @ err_later c) None [])
          in LaunchFailed (if trim err \<noteq> [] then err else []))"

definition try_launch_server :: "('s, 'k) world \<Rightarrow> rtext \<Rightarrow> rtext \<Rightarrow> ssh_config option \<Rightarrow> rtext \<Rightarrow> launched" where
  "try_launch_server W ssh_command host cfg remote_cmd =
     (let proxy = choose_proxy cfg (proxy_command (on_windows W) (own_path W));
          vars = (if \<not> on_windows W \<and> proxy \<noteq> None then [(str ''SHELL'', str ''/bin/sh'')] else [])
      in case spawn W vars (ssh_arguments ssh_command proxy host remote_cmd) of
           None \<Rightarrow> LaunchFailed []
         | Some c \<Rightarrow> launch_answer c)"

record wrapper_args = args +
  arg_ssh_command :: rtext
  arg_predict :: rtext
  arg_bind :: rtext
  arg_ssh_mode :: ssh_mode
  arg_host :: rtext
  arg_remote_shell :: rtext

definition bad_shell :: "rtext \<Rightarrow> rtext" where
  "bad_shell v = str ''error: unknown --remote-shell '' @ [39] @ v @ [39] @ str '' (expected auto, posix, cmd, or powershell)''"

definition remote_command_of :: "('s, 'k) world \<Rightarrow> wrapper_args \<Rightarrow> bind_server \<Rightarrow> remote_shell \<Rightarrow> rtext" where
  "remote_command_of W a bind shell =
     build_remote_cmd (args.truncate a) bind shell (env_var W (str ''RUST_LOG'')) (collect_locale_vars (env_var W))"

definition launch_system :: "('s, 'k) world \<Rightarrow> wrapper_args \<Rightarrow> bind_server \<Rightarrow> ssh_config option \<Rightarrow> launched" where
  "launch_system W a bind cfg =
     (let launch = (\<lambda>shell. try_launch_server W (arg_ssh_command a) (arg_host a) cfg (remote_command_of W a bind shell))
      in case resolve_remote_shell_value (arg_remote_shell a) of
           None \<Rightarrow> LaunchExit (bad_shell (arg_remote_shell a))
         | Some (Some shell) \<Rightarrow> launch shell
         | Some None \<Rightarrow> launch (system_shell W (arg_ssh_command a) (arg_host a) cfg))"

section \<open>The built-in client\<close>

text \<open>\<open>SshSession::connect\<close>: the stream and the address it reached.\<close>

definition session_connect ::
  "('s, 'k) world \<Rightarrow> rtext \<Rightarrow> rtext \<Rightarrow> rtext list \<Rightarrow> host_key_policy \<Rightarrow> rtext + 's \<times> sock_addr" where
  "session_connect W addr user key_paths policy =
     (case look_up_text W addr of
        Inl e \<Rightarrow> Inl (str ''Failed to resolve '' @ addr @ str '': '' @ e)
      | Inr addrs \<Rightarrow>
          (case connect_tcp (\<lambda>a. is_ipv4 (fst a)) (tcp_dial W) addrs of
             Inl (Some e) \<Rightarrow> Inl (str ''Failed to connect to '' @ addr @ str '': '' @ e)
           | Inl None \<Rightarrow> Inl (str ''No addresses found for '' @ addr)
           | Inr s \<Rightarrow>
               (case tcp_peer W s of
                  Inl e \<Rightarrow> Inl e
                | Inr peer \<Rightarrow>
                    (case handshake W policy s of
                       Some e \<Rightarrow> Inl (str ''Failed to connect to SSH server: '' @ e)
                     | None \<Rightarrow>
                         (case snd (authenticate (load_key W) (unlock_key W) (try_key W s user) key_paths) of
                            Authenticated p \<Rightarrow> Inr (s, peer)
                          | Refused \<Rightarrow> Inl (str ''SSH connection was refused (no key was accepted)'')
                          | AuthError e \<Rightarrow> Inl e)))))"

definition try_launch_russh ::
  "('s, 'k) world \<Rightarrow> wrapper_args \<Rightarrow> bind_server \<Rightarrow> ssh_config option \<Rightarrow> rtext list \<Rightarrow> launched" where
  "try_launch_russh W a bind cfg key_paths =
     (let (user, hostname, port) = russh_target (env_var W) (arg_host a) cfg;
          policy = host_key_policy_of (env_var W) (on_windows W) hostname port cfg
      in case session_connect W (hostname @ str '':'' @ show_nat port) user key_paths policy of
           Inl e \<Rightarrow> LaunchFailed (str ''morsh: '' @ e @ [10])
         | Inr (s, peer) \<Rightarrow>
             (case russh_shell (arg_remote_shell a) (exec W s SHELL_PROBE) of
                None \<Rightarrow> if resolve_remote_shell_value (arg_remote_shell a) = None then LaunchExit (bad_shell (arg_remote_shell a)) else LaunchPanic
              | Some None \<Rightarrow> LaunchFailed []
              | Some (Some shell) \<Rightarrow>
                  (case exec W s (remote_command_of W a bind shell) of
                     None \<Rightarrow> LaunchFailed []
                   | Some msgs \<Rightarrow>
                       (case russh_answer (show_ip (fst peer)) msgs of
                          None \<Rightarrow> LaunchPanic
                        | Some None \<Rightarrow> LaunchFailed []
                        | Some (Some info) \<Rightarrow> Launched info))))"

definition ssh_installed :: "('s, 'k) world \<Rightarrow> rtext \<Rightarrow> bool" where
  "ssh_installed W ssh_command = (case words ssh_command of [] \<Rightarrow> False | program # _ \<Rightarrow> can_run W [program, str ''-V''])"

definition try_launch_ssh :: "('s, 'k) world \<Rightarrow> wrapper_args \<Rightarrow> bind_server \<Rightarrow> ssh_config option \<Rightarrow> launched" where
  "try_launch_ssh W a bind cfg =
     (if choose_mode (ssh_installed W (arg_ssh_command a)) (arg_ssh_mode a) = ModeRussh then
        (let key_paths = find_keys (env_var W) (is_file W) cfg
         in if key_paths = [] then LaunchFailed (str ''No SSH private key found for the built-in ssh client'' @ [10])
            else try_launch_russh W a bind cfg key_paths)
      else launch_system W a bind cfg)"

section \<open>The wrapper\<close>

definition resolve_name :: "('s, 'k) world \<Rightarrow> rtext \<Rightarrow> rtext + rtext" where
  "resolve_name W name =
     (case look_up W name 0 of
        Inl e \<Rightarrow> Inl (str ''Failed to resolve hostname '' @ [39] @ name @ [39] @ str '': '' @ e)
      | Inr addrs \<Rightarrow>
          (case resolve_host (\<lambda>a. is_ipv4 (fst a)) addrs of
             Some a \<Rightarrow> Inr (show_ip (fst a))
           | None \<Rightarrow> Inl (str ''No addresses found for '' @ [39] @ name @ [39])))"

definition server_addr_text :: "rtext \<Rightarrow> nat \<Rightarrow> rtext" where
  "server_addr_text ip port =
     (case parse_ip ip of Some a \<Rightarrow> show_sock (a, port) | None \<Rightarrow> ip @ str '':'' @ show_nat port)"

text \<open>Whether a text can be cut after \<open>n\<close> bytes.\<close>

definition cuts_at :: "nat \<Rightarrow> rtext \<Rightarrow> bool" where
  "cuts_at n s \<longleftrightarrow> n \<in> set (map (\<lambda>k. length (utf8 (take k s))) [0 ..< Suc (length s)])"

definition client_path :: "bool \<Rightarrow> rtext option \<Rightarrow> rtext" where
  "client_path windows own =
     (case own of
        None \<Rightarrow> str ''morsh-client''
      | Some d \<Rightarrow>
          let sep = (if windows then 92 else 47)
          in d @ (if d = [] \<or> last d = sep then [] else [sep]) @ str ''morsh-client'')"

definition launch_failure :: rtext where
  "launch_failure =
     str ''Failed to get MOSH CONNECT from remote server'' @ [10]
     @ str ''Make sure morsh-server or mosh-server is installed on the remote host'' @ [10]"

text \<open>The end of the wrapper: an exit with a message, a panic, or the client it runs with its argument and two variables.\<close>

datatype wrapper_end = WrapperExit nat rtext | WrapperPanic | RunClient rtext rtext "(rtext \<times> rtext) list"

definition wrapper_main :: "('s, 'k) world \<Rightarrow> wrapper_args \<Rightarrow> wrapper_end" where
  "wrapper_main W a =
     (let bind = bind_of (arg_bind a);
          cfg = query_ssh_config W (arg_ssh_command a) (arg_host a)
      in case (if built_in_client W then try_launch_ssh W a bind cfg else launch_system W a bind cfg) of
           LaunchPanic \<Rightarrow> WrapperPanic
         | LaunchExit msg \<Rightarrow> WrapperExit 1 (msg @ [10])
         | LaunchFailed err \<Rightarrow> WrapperExit 1 (err @ launch_failure)
         | Launched info \<Rightarrow>
             (case server_ip_of (resolve_name W) info bind (arg_host a) cfg of
                Inl msg \<Rightarrow> WrapperExit 1 (msg @ [10])
              | Inr ip \<Rightarrow>
                  if info_logged W \<and> \<not> cuts_at 8 (ci_key info) then WrapperPanic
                  else RunClient (client_path (on_windows W) (own_dir W)) (server_addr_text ip (ci_port info))
                         [(str ''MORSH_KEY'', ci_key info), (str ''MOSH_PREDICTION_DISPLAY'', arg_predict a)]))"

text \<open>The arguments of the fake proxy, if that is what the program is run as.\<close>

definition as_proxy :: "rtext list \<Rightarrow> rtext list option" where
  "as_proxy argv = (case argv of _ # flag # as \<Rightarrow> if flag = str ''--fake-proxy'' then Some as else None | _ \<Rightarrow> None)"

text \<open>The exit code: \<open>status\<close> is the client's, if it could be started and if it has one.\<close>

definition wrapper_exit_code :: "int option option \<Rightarrow> int option" where
  "wrapper_exit_code status = map_option (\<lambda>code. case code of Some c \<Rightarrow> c | None \<Rightarrow> 1) status"

end
