(* ===== verification/Shell_Process.thy ===== *)
theory Shell_Process
  imports Server Server_Cli
begin

text \<open>
  \<open>crates/morsh-server/src/pty.rs\<close>: the command and environment of the shell and the thread that reads its
  output; and the command line of the detached server on Windows (\<open>daemon/windows.rs\<close>). Opening the
  pseudo terminal and starting processes are system calls.
\<close>

section \<open>The shell\<close>

definition pty_command :: "rtext \<Rightarrow> rtext list \<Rightarrow> rtext list" where
  "pty_command shell argv = (if argv = [] then [shell] else argv)"

definition default_env :: "rtext \<Rightarrow> rtext \<rightharpoonup> rtext" where
  "default_env version =
     [str ''TERM'' \<mapsto> str ''xterm-256color'', str ''LANG'' \<mapsto> str ''en_US.UTF-8'', str ''MORSH'' \<mapsto> version]"

text \<open>The variables that are set, later ones over earlier ones.\<close>

definition pty_env :: "rtext \<Rightarrow> (rtext \<times> rtext) list \<Rightarrow> rtext \<rightharpoonup> rtext" where
  "pty_env version vars =
     fold (\<lambda>(name, v) m. m(name \<mapsto> v)) vars
       (default_env version)"

text \<open>
  The reading thread: what each read gives, to the events it sends; \<open>room\<close> is how many events the receiver
  takes before it is dropped.
\<close>

datatype pty_read = ReadOk bytes | ReadError

fun pty_reader :: "pty_read list \<Rightarrow> nat \<Rightarrow> pty_event list" where
  "pty_reader [] room = []"
| "pty_reader (ReadOk data # reads) room =
     (if data = [] then (if room = 0 then [] else [Exited])
      else if room = 0 then [] else Output data # pty_reader reads (room - 1))"
| "pty_reader (ReadError # reads) room = (if room = 0 then [] else [Exited])"

section \<open>The detached server on Windows\<close>

definition windows_quote :: "rtext \<Rightarrow> rtext" where
  "windows_quote a = (if 32 \<in> set a then [34] @ a @ [34] else a)"

definition windows_command_line :: "rtext \<Rightarrow> rtext list \<Rightarrow> rtext" where
  "windows_command_line exe args = windows_quote exe @ concat (map (\<lambda>a. 32 # windows_quote a) args)"

text \<open>
  What the started program finds as its arguments: Rust's \<open>std::env::args\<close> on Windows. The name of the program
  comes first and knows no escapes; then blanks outside quotation marks separate, backslashes before a
  quotation mark are halved and an odd one escapes it, and two quotation marks inside quotes are one.
  \<open>n\<close> counts the backslashes just read.
\<close>

abbreviation is_blank :: "nat \<Rightarrow> bool" where
  "is_blank x \<equiv> x = 32 \<or> x = 9"

fun windows_exe :: "bool \<Rightarrow> rtext \<Rightarrow> rtext \<times> rtext" where
  "windows_exe q [] = ([], [])"
| "windows_exe q (x # xs) =
     (if x = 34 then windows_exe (\<not> q) xs
      else if is_blank x \<and> \<not> q then ([], dropWhile is_blank xs)
      else (case windows_exe q xs of (name, rest) \<Rightarrow> (x # name, rest)))"

function windows_split :: "bool \<Rightarrow> nat \<Rightarrow> rtext \<Rightarrow> rtext \<Rightarrow> rtext list" where
  "windows_split q n cur [] = (if cur @ replicate n 92 \<noteq> [] \<or> q then [cur @ replicate n 92] else [])"
| "windows_split q n cur (x # xs) =
     (if x = 92 then windows_split q (n + 1) cur xs
      else if x = 34 then
        (if odd n then windows_split q 0 (cur @ replicate (n div 2) 92 @ [34]) xs
         else if \<not> q then windows_split True 0 (cur @ replicate (n div 2) 92) xs
         else (case xs of
                 [] \<Rightarrow> [cur @ replicate (n div 2) 92]
               | y # ys \<Rightarrow>
                   if y = 34 then windows_split True 0 (cur @ replicate (n div 2) 92 @ [34]) ys
                   else windows_split False 0 (cur @ replicate (n div 2) 92) (y # ys)))
      else if is_blank x \<and> \<not> q then (cur @ replicate n 92) # windows_split False 0 [] (dropWhile is_blank xs)
      else windows_split q 0 (cur @ replicate n 92 @ [x]) xs)"
  by pat_completeness auto
termination
  by (relation "measure (\<lambda>(q, n, cur, xs). length xs)") (auto simp: le_imp_less_Suc length_dropWhile_le)

declare windows_split.simps [simp del]

definition windows_args :: "rtext \<Rightarrow> rtext list" where
  "windows_args line = (case windows_exe False line of (name, rest) \<Rightarrow> name # windows_split False 0 [] rest)"

section \<open>Laws\<close>

text \<open>Arguments that the command line keeps: not empty, no quotation mark, a tab only when quoted, and no backslash before the closing quote.\<close>

definition survives :: "rtext \<Rightarrow> bool" where
  "survives a \<longleftrightarrow> a \<noteq> [] \<and> 34 \<notin> set a \<and> (9 \<in> set a \<longrightarrow> 32 \<in> set a) \<and> (32 \<in> set a \<longrightarrow> last a \<noteq> 92)"

definition exe_survives :: "rtext \<Rightarrow> bool" where
  "exe_survives exe \<longleftrightarrow> 34 \<notin> set exe \<and> 9 \<notin> set exe"

text \<open>Inside quotes, or outside them without blanks, everything is literal up to what follows.\<close>

lemma windows_split_literal:
  assumes "34 \<notin> set a" and "q \<or> (\<forall>x\<in>set a. \<not> is_blank x)"
  shows "\<exists>n' cur'. windows_split q n cur (a @ rest) = windows_split q n' cur' rest \<and> cur' @ replicate n' 92 = cur @ replicate n 92 @ a \<and>
    (n' = 0 \<or> (if a = [] then n' = n else last a = 92))"
  using assms
proof (induction a arbitrary: n cur)
  case Nil
  then show ?case by auto
next
  case (Cons x a)
  note IH = Cons.IH [of "n + 1" cur] Cons.IH [of 0 "cur @ replicate n 92 @ [x]"]
  show ?case
  proof (cases "x = 92")
    case True
    have "replicate n 92 @ 92 # a = 92 # replicate n 92 @ a" by (simp add: replicate_app_Cons_same)
    then show ?thesis using IH(1) Cons.prems True by (fastforce simp: windows_split.simps)
  next
    case False
    then show ?thesis using IH(2) Cons.prems by (fastforce simp: windows_split.simps)
  qed
qed

lemma windows_split_end:
  "\<not> q \<Longrightarrow> cur @ replicate n 92 \<noteq> [] \<Longrightarrow> windows_split q n cur [] = [cur @ replicate n 92]"
  "windows_split False n cur (32 # rest) = (cur @ replicate n 92) # windows_split False 0 [] (dropWhile is_blank rest)"
  by (auto simp: windows_split.simps)

lemma windows_split_argument:
  assumes "survives a" and "rest = [] \<or> (\<exists>b bs. rest = 32 # b # bs \<and> \<not> is_blank b)"
  shows "windows_split False 0 [] (windows_quote a @ rest) = a # windows_split False 0 [] (tl rest)"
proof (cases "32 \<in> set a")
  case False
  then obtain n cur where s: "windows_split False 0 [] (a @ rest) = windows_split False n cur rest" "cur @ replicate n 92 = a"
    using windows_split_literal [of a False 0 "[]" rest] assms(1) by (auto simp: survives_def)
  have "windows_split False n cur rest = a # windows_split False 0 [] (tl rest)"
    using assms s(2) by (elim disjE exE conjE) (auto simp: windows_split_end survives_def windows_split.simps)
  then show ?thesis using False s(1) by (simp add: windows_quote_def)
next
  case True
  then obtain n cur where s: "windows_split True 0 [] (a @ 34 # rest) = windows_split True n cur (34 # rest)" "cur @ replicate n 92 = a" "n = 0"
    using windows_split_literal [of a True 0 "[]" "34 # rest"] assms(1) by (auto simp: survives_def split: if_splits)
  have "windows_split True 0 a (34 # rest) = a # windows_split False 0 [] (tl rest)"
    using assms s by (elim disjE exE conjE) (auto simp: survives_def windows_split.simps)
  then show ?thesis using True s by (simp add: windows_quote_def windows_split.simps(2) [of False 0 "[]" 34])
qed

lemma windows_quote_starts: "survives a \<Longrightarrow> \<exists>b bs. windows_quote a = b # bs \<and> \<not> is_blank b"
  by (cases a) (auto simp: survives_def windows_quote_def)

lemma windows_split_arguments:
  "list_all survives args \<Longrightarrow> windows_split False 0 [] (tl (concat (map (\<lambda>a. 32 # windows_quote a) args))) = args"
proof (induction args)
  case Nil
  then show ?case by (simp add: windows_split.simps)
next
  case (Cons a args)
  let ?rest = "concat (map (\<lambda>a. 32 # windows_quote a) args)"
  have "?rest = [] \<or> (\<exists>b bs. ?rest = 32 # b # bs \<and> \<not> is_blank b)"
    using Cons.prems windows_quote_starts by (cases args) force+
  then show ?case using windows_split_argument [of a ?rest] Cons by simp
qed

lemma windows_exe_literal:
  assumes "34 \<notin> set exe" and "q \<or> (\<forall>x\<in>set exe. \<not> is_blank x)"
  shows "windows_exe q (exe @ rest) = (exe @ fst (windows_exe q rest), snd (windows_exe q rest))"
  using assms by (induction exe) (auto split: prod.splits)

text \<open>Such arguments come out of the command line as they went in.\<close>

lemma windows_args_kept:
  assumes "exe_survives exe" and "list_all survives args"
  shows "windows_args (windows_command_line exe args) = exe # args"
proof -
  let ?rest = "concat (map (\<lambda>a. 32 # windows_quote a) args)"
  have r: "windows_exe False ?rest = ([], tl ?rest)"
    using assms(2) windows_quote_starts by (cases args) force+
  have "windows_exe False (windows_quote exe @ ?rest) = (exe, tl ?rest)"
  proof (cases "32 \<in> set exe")
    case True
    then show ?thesis
      using windows_exe_literal [of exe True "34 # ?rest"] assms(1) r by (simp add: windows_quote_def exe_survives_def)
  next
    case False
    then have "\<forall>x\<in>set exe. \<not> is_blank x" using assms(1) by (auto simp: exe_survives_def)
    then show ?thesis
      using False windows_exe_literal [of exe False ?rest] assms(1) r by (simp add: windows_quote_def exe_survives_def)
  qed
  then show ?thesis
    using windows_split_arguments [OF assms(2)] by (simp add: windows_args_def windows_command_line_def)
qed


text \<open>The variables of the session come before the defaults, and the last of a name counts.\<close>

lemma fold_update: "fold (\<lambda>(n, v) m. m(n \<mapsto> v)) kvs m = m ++ map_of (rev kvs)"
  by (induction kvs arbitrary: m) (auto simp: map_add_def fun_eq_iff split: option.splits)

lemma pty_env_session:
  "pty_env version vars n =
     (case map_of (rev vars) n of
        Some v \<Rightarrow> Some v
      | None \<Rightarrow> default_env version n)"
  by (simp add: pty_env_def fold_update map_add_def)

text \<open>
  While the receiver is there, it gets the output up to the first end or error, in order and whole, and
  then the end, exactly once.
\<close>

definition alive :: "pty_read \<Rightarrow> bool" where
  "alive r \<longleftrightarrow> r \<noteq> ReadError \<and> r \<noteq> ReadOk []"

lemma pty_reader_output:
  assumes "length reads < room"
  shows "pty_reader reads room =
    map (\<lambda>r. case r of ReadOk data \<Rightarrow> Output data) (takeWhile alive reads) @ (if list_all alive reads then [] else [Exited])"
  using assms by (induction reads room rule: pty_reader.induct) (auto simp: alive_def)

text \<open>An empty argument is lost, quotation marks are lost, and a backslash before the closing quote joins two arguments.\<close>

lemma windows_command_line_loses_arguments:
  "windows_args (windows_command_line (str ''m'') [[], str ''-v'']) = [str ''m'', str ''-v'']"
  "windows_args (windows_command_line (str ''m'') [str ''\"b\"'']) = [str ''m'', str ''b'']"
  "windows_args (windows_command_line (str ''m'') [str ''a '' @ [92], str ''-v'']) = [str ''m'', str ''a \" -v'']"
  by (simp_all add: windows_args_def windows_command_line_def windows_quote_def windows_split.simps)

end
