(* ===== verification/Startup.thy ===== *)
theory Startup
  imports Ip_Text Shell_Process Client
begin

text \<open>
  The programs at the two ends, from their command lines to their connections: \<open>main.rs\<close> of the server with
  its daemon child, \<open>bind_transport\<close> of \<open>server.rs\<close>, \<open>bind_udp\<close> of \<open>connection.rs\<close> and \<open>main.rs\<close> of the client.
  The environment, random bytes, sockets and processes are arguments. A text as the bytes it has in UTF-8 is a
  \<open>string\<close>, the form that keys have in theory \<open>Crypto\<close>.
\<close>

type_synonym env = "rtext \<Rightarrow> rtext option"

definition text_bytes :: "rtext \<Rightarrow> string" where
  "text_bytes s = map (\<lambda>b. char_of (unat b)) (utf8 s)"

section \<open>Sockets\<close>

text \<open>The number of an address, which is how theory \<open>Connection\<close> knows it.\<close>

definition addr_number :: "sock_addr \<Rightarrow> socket_addr" where
  "addr_number = (\<lambda>(ip, port).
     port + 65536 * (case ip of
       V4 a b c d \<Rightarrow> 2 * from_be [a, b, c, d]
     | V6 gs \<Rightarrow> 2 * fold (\<lambda>g n. n * 65536 + unat g) gs 0 + 1))"

text \<open>The steps of \<open>bind_udp\<close>, of which each can fail.\<close>

datatype udp_attempt = UdpBound socket | UdpBindFails rtext | UdpNonblockingFails rtext | UdpTokioFails rtext

definition bind_udp :: "(sock_addr \<Rightarrow> udp_attempt) \<Rightarrow> sock_addr \<Rightarrow> rtext + socket" where
  "bind_udp attempt a =
     (case attempt a of
        UdpBound s \<Rightarrow> Inr s
      | UdpBindFails e \<Rightarrow> Inl (str ''Failed to bind UDP socket: '' @ e)
      | UdpNonblockingFails e \<Rightarrow> Inl (str ''Failed to set nonblocking: '' @ e)
      | UdpTokioFails e \<Rightarrow> Inl (str ''Failed to create tokio socket: '' @ e))"

definition new_server :: "(sock_addr \<Rightarrow> udp_attempt) \<Rightarrow> sock_addr \<Rightarrow> session \<Rightarrow> instant \<Rightarrow> rtext + connection" where
  "new_server attempt a s now = map_sum id (\<lambda>sock. connection_build sock s True now) (bind_udp attempt a)"

definition new_client :: "(sock_addr \<Rightarrow> udp_attempt) \<Rightarrow> session \<Rightarrow> instant \<Rightarrow> rtext + connection" where
  "new_client attempt s now = map_sum id (\<lambda>sock. connection_build sock s False now) (bind_udp attempt (unspecified, 0))"

section \<open>The server\<close>

text \<open>The key: given by the environment, else random. \<open>None\<close> is a panic.\<close>

definition server_key :: "b64 \<Rightarrow> env \<Rightarrow> bytes \<Rightarrow> (key_error + bytes) option" where
  "server_key B env random =
     (case env (str ''MORSH_KEY'') of
        Some s \<Rightarrow> from_printable B (text_bytes s)
      | None \<Rightarrow> Some (Inr random))"

definition is_daemon_child :: "env \<Rightarrow> bool" where
  "is_daemon_child env \<longleftrightarrow> env (str ''MORSH_DAEMON_CHILD'') \<noteq> None"

text \<open>\<open>addr_for\<close> of \<open>pick_port\<close>.\<close>

definition addr_for :: "rtext \<Rightarrow> nat \<Rightarrow> sock_addr" where
  "addr_for ip port = (case parse_ip ip of Some a \<Rightarrow> (a, port) | None \<Rightarrow> (unspecified, port))"

text \<open>\<open>try_bind\<close> is what binding a socket to try it gives.\<close>

definition server_port :: "env \<Rightarrow> (sock_addr \<Rightarrow> bind_result) \<Rightarrow> cli_options \<Rightarrow> rtext + nat" where
  "server_port env try_bind opts =
     (if is_daemon_child env then
        (case env (str ''MORSH_DAEMON_PORT'') of
           None \<Rightarrow> Inr 0
         | Some s \<Rightarrow> (case parse_uint 65535 s of Some p \<Rightarrow> Inr p | None \<Rightarrow> Inr 0))
      else
        (let ip = (case desired_ip opts (env (str ''SSH_CONNECTION'')) of Some ip \<Rightarrow> ip | None \<Rightarrow> str ''0.0.0.0'')
         in pick_port (\<lambda>p. try_bind (addr_for ip p)) (port_low opts) (port_high opts)))"

text \<open>What \<open>run_server\<close> is called with.\<close>

record serving =
  sv_port :: nat
  sv_ip :: "rtext option"
  sv_key :: bytes
  sv_shell :: rtext
  sv_command :: "rtext list"
  sv_vars :: "(rtext \<times> rtext) list"

text \<open>The environment that the daemon child finds.\<close>

definition child_env :: "env \<Rightarrow> nat \<Rightarrow> rtext \<Rightarrow> env" where
  "child_env env port key =
     env(str ''MORSH_DAEMON_CHILD'' \<mapsto> str ''1'', str ''MORSH_DAEMON_PORT'' \<mapsto> show_nat port, str ''MORSH_KEY'' \<mapsto> key)"

text \<open>
  How the server's process goes on: it exits with a code and the line on stderr; it serves, with the environment
  it then has; it exits and leaves a forked child that serves; or, on Windows, it exits and leaves a new process that
  runs the same program with a command line put together from the arguments, of which the new process finds
  \<open>windows_args\<close>.
\<close>

datatype server_end =
    ServerExit nat rtext
  | ServerPanic
  | Serves serving env
  | LeavesFork serving env
  | LeavesProgram rtext env

text \<open>
  \<open>fork_and_detach\<close> of the two systems; \<open>own\<close> is the path of the program, \<open>ok\<close> says whether the child could be
  made. A failure ends the program on Unix and lets it serve in the foreground on Windows.
\<close>

definition fork_and_detach_windows :: "rtext option \<Rightarrow> bool \<Rightarrow> rtext list \<Rightarrow> serving \<Rightarrow> env \<Rightarrow> server_end" where
  "fork_and_detach_windows own ok argv sv env =
     (case own of
        None \<Rightarrow> ServerPanic
      | Some exe \<Rightarrow> if ok then LeavesProgram (windows_command_line exe argv) env else Serves sv env)"

definition fork_and_detach :: "bool \<Rightarrow> rtext option \<Rightarrow> bool \<Rightarrow> rtext list \<Rightarrow> serving \<Rightarrow> env \<Rightarrow> server_end" where
  "fork_and_detach windows own ok argv sv env =
     (if windows then fork_and_detach_windows own ok argv sv env
      else if ok then LeavesFork sv env else ServerExit 1 (str ''morsh-server: fork failed''))"

text \<open>The lines on stdout, and the end.\<close>

definition server_main ::
  "b64 \<Rightarrow> bool \<Rightarrow> rtext option \<Rightarrow> bool \<Rightarrow> (sock_addr \<Rightarrow> bind_result) \<Rightarrow> bytes \<Rightarrow> (key_error \<Rightarrow> rtext) \<Rightarrow> env \<Rightarrow> rtext list \<Rightarrow> rtext list \<times> server_end" where
  "server_main B windows own detaches try_bind random show env argv =
     (case parse_args argv of
        Help \<Rightarrow> ([], ServerExit 0 [])
      | Version \<Rightarrow> ([], ServerExit 0 [])
      | CliError msg \<Rightarrow> ([], ServerExit 1 (str ''morsh-server: '' @ msg))
      | Run opts \<Rightarrow>
          (case server_key B env random of
             None \<Rightarrow> ([], ServerPanic)
           | Some (Inl e) \<Rightarrow> ([], ServerExit 1 (str ''morsh-server: Invalid MORSH_KEY: '' @ show e))
           | Some (Inr key) \<Rightarrow>
               (case server_port env try_bind opts of
                  Inl e \<Rightarrow> ([], ServerExit 1 (str ''morsh-server: '' @ e))
                | Inr port \<Rightarrow>
                    let sv = \<lparr>sv_port = port, sv_ip = desired_ip opts (env (str ''SSH_CONNECTION'')), sv_key = key,
                          sv_shell = choose_shell windows (env (str ''SHELL'')) (command_args opts),
                          sv_command = command_args opts, sv_vars = locale_vars opts\<rparr>
                    in if is_daemon_child env then ([], Serves sv env)
                       else
                         (case printable_key B key of
                            None \<Rightarrow> ([], ServerPanic)
                          | Some printed \<Rightarrow>
                              ([connect_line port (str printed), str ''MOSH CONNECTION ID: 1''],
                               if no_daemonize opts then Serves sv env
                               else fork_and_detach windows own detaches argv sv (child_env env port (str printed)))))))"

text \<open>\<open>bind_transport\<close>.\<close>

definition bind_server_socket :: "(sock_addr \<Rightarrow> udp_attempt) \<Rightarrow> serving \<Rightarrow> instant \<Rightarrow> rtext + connection" where
  "bind_server_socket attempt sv now =
     (let s = session_new (sv_key sv);
          any = map_sum (\<lambda>e. str ''Failed to bind: '' @ e) id (new_server attempt (unspecified, sv_port sv) s now)
      in case sv_ip sv of
           None \<Rightarrow> any
         | Some ip \<Rightarrow>
             (case parse_ip ip of
                None \<Rightarrow> Inl (str ''Invalid bind address: invalid IP address syntax'')
              | Some a \<Rightarrow> (case new_server attempt (a, sv_port sv) s now of Inr c \<Rightarrow> Inr c | Inl e \<Rightarrow> any)))"

definition bind_transport ::
  "'t emulator \<Rightarrow> host_codec \<Rightarrow> user_codec \<Rightarrow> (sock_addr \<Rightarrow> udp_attempt) \<Rightarrow> serving \<Rightarrow> instant \<Rightarrow> rtext + 't server_transport" where
  "bind_transport em H U attempt sv now =
     (case bind_server_socket attempt sv now of
        Inl e \<Rightarrow> Inl e
      | Inr c \<Rightarrow>
          (case complete_new em 80 24 of
             Inl e \<Rightarrow> Inl (str e)
           | Inr blank \<Rightarrow> Inr (transport_new (complete_ops em H) (user_ops U) now now c blank user_stream_new)))"

section \<open>The client\<close>

definition client_addr :: "rtext \<Rightarrow> rtext + sock_addr" where
  "client_addr s = (case parse_sock s of Some a \<Rightarrow> Inr a | None \<Rightarrow> Inl (str ''invalid socket address syntax''))"

datatype 'a client_setup = ClientExit nat rtext | ClientPanic | ClientGoes 'a

text \<open>From the command line and the environment to the connection.\<close>

definition client_connect ::
  "b64 \<Rightarrow> (key_error \<Rightarrow> rtext) \<Rightarrow> (sock_addr \<Rightarrow> udp_attempt) \<Rightarrow> env \<Rightarrow> rtext list \<Rightarrow> instant \<Rightarrow> connection client_setup" where
  "client_connect B show attempt env argv now =
     (case client_parse client_addr argv of
        ClientHelp \<Rightarrow> ClientExit 0 []
      | ClientVersion \<Rightarrow> ClientExit 0 []
      | ClientError msg \<Rightarrow> ClientExit 1 msg
      | Connect a \<Rightarrow>
          (case env (str ''MORSH_KEY'') of
             None \<Rightarrow> ClientExit 1 (str ''MORSH_KEY environment variable not set. Run via morsh wrapper.'')
           | Some s \<Rightarrow>
               (case from_printable B (text_bytes s) of
                  None \<Rightarrow> ClientPanic
                | Some (Inl e) \<Rightarrow> ClientExit 1 (str ''Invalid MORSH_KEY: '' @ show e)
                | Some (Inr key) \<Rightarrow>
                    (case new_client attempt (session_new key) now of
                       Inl e \<Rightarrow> ClientExit 1 (str ''Failed to create connection: '' @ e)
                     | Inr c \<Rightarrow> ClientGoes (set_remote_addr c (addr_number a))))))"

text \<open>All of it up to the event loop.\<close>

definition client_begin ::
  "b64 \<Rightarrow> (key_error \<Rightarrow> rtext) \<Rightarrow> (sock_addr \<Rightarrow> udp_attempt) \<Rightarrow> 't emulator \<Rightarrow> user_codec \<Rightarrow> host_codec \<Rightarrow> env \<Rightarrow> rtext list \<Rightarrow>
     (nat \<times> nat) option \<Rightarrow> instant \<Rightarrow> 't client_loop client_setup" where
  "client_begin B show attempt em U H env argv sz now =
     (case client_connect B show attempt env argv now of
        ClientExit n msg \<Rightarrow> ClientExit n msg
      | ClientPanic \<Rightarrow> ClientPanic
      | ClientGoes c \<Rightarrow>
          (case client_start em U H c sz (map_option text_bytes (env (str ''MOSH_PREDICTION_DISPLAY'')))
                  (from_setting (map_option utf8 (env (str ''MOSH_ESCAPE_KEY'')))) now of
             Inl e \<Rightarrow> ClientExit 1 (str e)
           | Inr L \<Rightarrow> ClientGoes L))"

end
