(* ===== verification/Ip_Laws.thy ===== *)
theory Ip_Laws
  imports Ip_Text
begin

text \<open>
  An address that was written is read back, alone and with a port, and what is read is an address.
\<close>

section \<open>Numbers\<close>

lemma read_digits_append:
  assumes "\<forall>c\<in>set t. to_digit radix c \<noteq> None" and "r = [] \<or> to_digit radix (hd r) = None"
  shows "read_digits radix (t @ r) = (map (\<lambda>c. the (to_digit radix c)) t, r)"
  using assms by (induction t) (auto, cases r, auto)

lemma number_of_snoc: "number_of radix (ds @ [d]) = number_of radix ds * radix + d"
  by (simp add: number_of_def)

lemma to_digit_decimal: "is_digit c \<Longrightarrow> to_digit 10 c = Some (c - 48)"
  by (auto simp: is_digit_def to_digit_def Let_def)

lemma decimal_value: "list_all is_digit t \<Longrightarrow> number_of 10 (map (\<lambda>c. the (to_digit 10 c)) t) = digits_value t"
  by (induction t rule: rev_induct) (simp_all add: number_of_snoc digits_value_snoc to_digit_decimal number_of_def digits_value_def)

lemma show_nat_length: "n < 10 ^ k \<Longrightarrow> 0 < k \<Longrightarrow> length (show_nat n) \<le> k"
proof (induction n arbitrary: k rule: show_nat.induct)
  case (1 n)
  show ?case
  proof (cases "n < 10")
    case True
    then show ?thesis using 1(3) by (subst show_nat.simps) simp
  next
    case False
    obtain j where k: "k = Suc j" using 1(3) gr0_conv_Suc by blast
    have "0 < j" using False 1(2) k by (cases j) auto
    moreover have "n div 10 < 10 ^ j" using 1(2) k by (simp add: less_mult_imp_div_less)
    ultimately have "length (show_nat (n div 10)) \<le> j" using 1(1) False by blast
    then show ?thesis using False k by (subst show_nat.simps) simp
  qed
qed

lemma show_nat_no_zero: "1 < length (show_nat n) \<Longrightarrow> hd (show_nat n) \<noteq> 48"
proof (induction n rule: show_nat.induct)
  case (1 n)
  have ne: "\<not> n < 10" using 1(2) by (subst (asm) show_nat.simps) (simp split: if_splits)
  have s: "show_nat n = show_nat (n div 10) @ [48 + n mod 10]" using ne by (subst show_nat.simps) simp
  have h: "hd (show_nat n) = hd (show_nat (n div 10))" using show_nat_digits [of "n div 10"] by (simp add: s)
  show ?case
  proof (cases "n div 10 < 10")
    case True
    then have "show_nat (n div 10) = [48 + n div 10]" by (subst show_nat.simps) simp
    then show ?thesis using h ne by simp
  next
    case False
    then have "1 < length (show_nat (n div 10))"
      using show_nat_digits [of "n div 10 div 10"] by (subst show_nat.simps) (simp add: neq_Nil_conv)
    then show ?thesis using 1(1) ne h by simp
  qed
qed

text \<open>A number and what follows it, which does not continue it.\<close>

lemma read_shown:
  assumes "n \<le> bound" and "case md of Some m \<Rightarrow> n < 10 ^ m \<and> 0 < m | None \<Rightarrow> True" and "r = [] \<or> to_digit 10 (hd r) = None"
  shows "read_number 10 md bound z (show_nat n @ r) = Some (n, r)"
proof -
  have d: "list_all is_digit (show_nat n)" "show_nat n \<noteq> []" "digits_value (show_nat n) = n" using show_nat_digits by blast+
  then have "\<forall>c\<in>set (show_nat n). to_digit 10 c \<noteq> None" using to_digit_decimal by (auto simp: list_all_iff)
  note rd = read_digits_append [OF this assms(3)]
  have h: "hd (map (\<lambda>c. the (to_digit 10 c)) (show_nat n)) \<noteq> 0" if "1 < length (show_nat n)"
  proof -
    have "is_digit (hd (show_nat n))" using d by (cases "show_nat n") auto
    then show ?thesis using show_nat_no_zero [OF that] d(2) to_digit_decimal
      by (auto simp: hd_map is_digit_def)
  qed
  show ?thesis
    using assms(1,2) d h decimal_value [OF d(1)] show_nat_length
    by (auto simp: read_number_def rd not_less split: option.splits)
qed

lemma show_hex_digits:
  "(\<forall>c\<in>set (show_hex n). to_digit 16 c \<noteq> None \<and> c \<noteq> 46) \<and> show_hex n \<noteq> [] \<and>
   number_of 16 (map (\<lambda>c. the (to_digit 16 c)) (show_hex n)) = n"
proof (induction n rule: show_hex.induct)
  case (1 n)
  let ?d = "if n mod 16 < 10 then 48 + n mod 16 else 87 + n mod 16"
  have "n mod 16 < 16" by simp
  then have d: "to_digit 16 ?d = Some (n mod 16)" "?d \<noteq> 46" by (auto simp: to_digit_def Let_def)
  show ?case
  proof (cases "n < 16")
    case True
    then have "show_hex n = [?d]" by (subst show_hex.simps) simp
    then show ?thesis using d True by (simp add: number_of_def)
  next
    case False
    then have s: "show_hex n = show_hex (n div 16) @ [?d]" by (subst show_hex.simps) (simp add: Let_def)
    have "n div 16 * 16 + n mod 16 = n" by (rule div_mult_mod_eq)
    then show ?thesis unfolding s using 1 [OF refl False] d by (auto simp: number_of_snoc)
  qed
qed

lemma show_hex_length: "n < 16 ^ k \<Longrightarrow> 0 < k \<Longrightarrow> length (show_hex n) \<le> k"
proof (induction n arbitrary: k rule: show_hex.induct)
  case (1 n)
  show ?case
  proof (cases "n < 16")
    case True
    then show ?thesis using 1(3) by (subst show_hex.simps) simp
  next
    case False
    obtain j where k: "k = Suc j" using 1(3) gr0_conv_Suc by blast
    have "0 < j" using False 1(2) k by (cases j) auto
    moreover have "n div 16 < 16 ^ j" using 1(2) k by (simp add: less_mult_imp_div_less)
    ultimately have "length (show_hex (n div 16)) \<le> j" using 1(1) [OF refl False] by blast
    then show ?thesis using False k by (subst show_hex.simps) (simp add: Let_def)
  qed
qed

lemma read_shown_hex:
  assumes "n \<le> 65535" and "r = [] \<or> to_digit 16 (hd r) = None"
  shows "read_number 16 (Some 4) 65535 True (show_hex n @ r) = Some (n, r)"
proof -
  have "\<forall>c\<in>set (show_hex n). to_digit 16 c \<noteq> None" using show_hex_digits by blast
  note rd = read_digits_append [OF this assms(2)]
  have "length (show_hex n) \<le> 4" using assms(1) show_hex_length [of n 4] by simp
  then show ?thesis using assms(1) show_hex_digits [of n] by (simp add: read_number_def rd)
qed

section \<open>IPv4\<close>

lemma read_digits_rest: "snd (read_digits radix s) = dropWhile (\<lambda>c. to_digit radix c \<noteq> None) s"
  by (induction s) (auto split: option.splits)

lemma read_number_rest: "read_number radix md b z s = Some (v, r) \<Longrightarrow> r = dropWhile (\<lambda>c. to_digit radix c \<noteq> None) s"
  using read_digits_rest [of radix s] by (auto simp: read_number_def Let_def split: prod.splits if_splits)

lemma dots: "to_digit 10 46 = None" "to_digit 10 58 = None" "to_digit 10 93 = None" "to_digit 16 58 = None" "to_digit 16 93 = None"
  by (simp_all add: to_digit_def)

lemma read_given_simps [simp]: "read_given c (c # s) = Some s" "read_given c [] = None" "x \<noteq> c \<Longrightarrow> read_given c (x # s) = None"
  by (simp_all add: read_given_def)

lemma read_separated_0 [simp]: "read_separated sep 0 f s = f s"
  by (simp add: read_separated_def)

lemma read_separated_next [simp]: "0 < i \<Longrightarrow> read_separated sep i f (sep # s) = f s"
  by (simp add: read_separated_def)

lemma u8_decimal: "unat (x :: u8) \<le> 255 \<and> unat x < 10 ^ 3"
  using unat_less_pow [of x] by simp

lemma read_shown_v4:
  assumes "r = [] \<or> to_digit 10 (hd r) = None"
  shows "read_v4 (show_v4 a b c d @ r) = Some ((a, b, c, d), r)"
proof -
  have n: "read_number 10 (Some 3) 255 False (show_nat (unat x) @ s) = Some (unat x, s)"
    if "s = [] \<or> to_digit 10 (hd s) = None" for x :: u8 and s
    using read_shown [of "unat x" 255 "Some 3" s False] u8_decimal [of x] that by simp
  have s: "show_v4 a b c d @ r =
      show_nat (unat a) @ 46 # show_nat (unat b) @ 46 # show_nat (unat c) @ 46 # show_nat (unat d) @ r"
    by (simp add: show_v4_def)
  show ?thesis using assms by (simp add: s read_v4_def read_octet_def n dots)
qed

text \<open>No IPv4 address stands where hexadecimal digits end at a colon, a bracket or the end.\<close>

lemma no_v4:
  assumes "\<forall>c\<in>set t. to_digit 16 c \<noteq> None \<and> c \<noteq> 46" and "r = [] \<or> hd r = 58 \<or> hd r = 93"
  shows "read_v4 (t @ r) = None"
proof (cases "read_number 10 (Some 3) 255 False (t @ r)")
  case None
  then show ?thesis by (simp add: read_v4_def read_octet_def)
next
  case (Some vs)
  then obtain v s where vs: "read_number 10 (Some 3) 255 False (t @ r) = Some (v, s)" by (cases vs) auto
  have "dropWhile (\<lambda>c. to_digit 10 c \<noteq> None) (t @ r) = [] \<or> hd (dropWhile (\<lambda>c. to_digit 10 c \<noteq> None) (t @ r)) \<noteq> 46"
    using assms by (induction t; cases r) (auto simp: dots)
  then have "s = [] \<or> hd s \<noteq> 46" using read_number_rest [OF vs] by simp
  then have "read_octet 1 s = None" by (cases s) (simp_all add: read_octet_def read_separated_def)
  then show ?thesis using vs by (simp add: read_v4_def read_octet_def)
qed

section \<open>IPv6\<close>

text \<open>The groups as the parser sees them, with the separator before each.\<close>

fun grp :: "nat \<Rightarrow> u16 list \<Rightarrow> rtext" where
  "grp i [] = []"
| "grp i (g # gs) = (if i = 0 then [] else [58]) @ show_hex (unat g) @ grp (Suc i) gs"

lemma show_groups_grp: "show_groups gs = grp 0 gs"
proof -
  have "grp (Suc i) gs = (if gs = [] then [] else 58 # grp 0 gs)" for i gs by (induction gs arbitrary: i) auto
  then show ?thesis unfolding show_groups_def by (induction gs rule: induct_list012) simp_all
qed

text \<open>Where groups end.\<close>

definition stop :: "rtext \<Rightarrow> bool" where
  "stop r \<longleftrightarrow> r = [] \<or> hd r = 93 \<or> (\<exists>s. r = 58 # 58 # s)"

lemma stop_ends: "stop r \<Longrightarrow> r = [] \<or> hd r = 58 \<or> hd r = 93"
  by (auto simp: stop_def)

lemma no_hex: "r = [] \<or> to_digit 16 (hd r) = None \<Longrightarrow> read_number 16 md b z r = None"
  by (cases r) (auto simp: read_number_def)

lemma stop_reads: "stop r \<Longrightarrow> read_separated 58 i read_v4 r = None \<and> read_separated 58 i (read_number 16 (Some 4) 65535 True) r = None"
  using no_v4 [of "[]"] no_hex [of r "Some 4" 65535 True] no_hex [of "58 # s" "Some 4" 65535 True for s]
  by (cases "i = 0"; cases r) (auto simp: stop_def read_separated_def dots)

lemma u16_bound: "unat (g :: u16) \<le> 65535"
  using unat_less_pow [of g] by simp

lemma read_groups_grp:
  assumes "stop r" and "length gs \<le> k"
  shows "read_groups k i (grp i gs @ r) = (gs, False, r)"
  using assms(2)
proof (induction gs arbitrary: k i)
  case Nil
  then show ?case using stop_reads [OF assms(1), of i] by (cases k) simp_all
next
  case (Cons g gs)
  then obtain k' where k: "k = Suc k'" "length gs \<le> k'" by (cases k) auto
  let ?t = "grp (Suc i) gs @ r"
  have e: "?t = [] \<or> hd ?t = 58 \<or> hd ?t = 93" using stop_ends [OF assms(1)] by (cases gs) auto
  then have h: "?t = [] \<or> to_digit 16 (hd ?t) = None" using dots by metis
  have sep: "read_separated 58 i f (grp i (g # gs) @ r) = f (show_hex (unat g) @ ?t)" for f :: "rtext \<Rightarrow> 'a option"
    by (cases "i = 0") simp_all
  have "read_v4 (show_hex (unat g) @ ?t) = None" using no_v4 [OF _ e] show_hex_digits by blast
  moreover have "read_number 16 (Some 4) 65535 True (show_hex (unat g) @ ?t) = Some (unat g, ?t)"
    using read_shown_hex [OF u16_bound h] .
  moreover have "read_groups k' (Suc i) ?t = (gs, False, r)" using Cons.IH [OF k(2)] .
  ultimately show ?case unfolding k(1) read_groups.simps sep by (cases k') auto
qed

text \<open>A span of zeros.\<close>

definition zeros_at :: "u16 list \<Rightarrow> nat \<times> nat \<Rightarrow> bool" where
  "zeros_at gs p \<longleftrightarrow> fst p + snd p \<le> length gs \<and> (\<forall>j. fst p \<le> j \<and> j < fst p + snd p \<longrightarrow> gs ! j = 0)"

lemma zeros_at_snoc: "zeros_at pre p \<Longrightarrow> zeros_at (pre @ [g]) p"
  by (auto simp: zeros_at_def nth_append)

lemma zeros_at_next: "zeros_at pre p \<Longrightarrow> fst p + snd p = length pre \<Longrightarrow> zeros_at (pre @ [0]) (fst p, snd p + 1)"
  by (auto simp: zeros_at_def nth_append less_Suc_eq)

lemma zeros_at_one: "zeros_at (pre @ [0]) (length pre, 1)"
  by (auto simp: zeros_at_def nth_append)

lemma zero_span_zeros:
  assumes "0 < snd cur \<Longrightarrow> zeros_at pre cur \<and> fst cur + snd cur = length pre" and "zeros_at pre longest"
  shows "zeros_at (pre @ gs) (zero_span (length pre) cur longest gs)"
  using assms
proof (induction gs arbitrary: pre cur longest)
  case Nil
  then show ?case by simp
next
  case (Cons g gs)
  show ?case
  proof (cases "g = 0")
    case True
    define cur' where "cur' = (if snd cur = 0 then length pre else fst cur, snd cur + 1)"
    define longest' where "longest' = (if snd longest < snd cur' then cur' else longest)"
    have c: "zeros_at (pre @ [g]) cur'"
      using Cons.prems(1) zeros_at_one [of pre] zeros_at_next [of pre cur] True by (cases "snd cur = 0") (auto simp: cur'_def)
    moreover have e: "fst cur' + snd cur' = length (pre @ [g])" using Cons.prems(1) by (auto simp: cur'_def)
    moreover have "zeros_at (pre @ [g]) longest'" using c zeros_at_snoc [OF Cons.prems(2)] by (simp add: longest'_def)
    ultimately have "zeros_at ((pre @ [g]) @ gs) (zero_span (length (pre @ [g])) cur' longest' gs)" using Cons.IH by blast
    moreover have "zero_span (length pre) cur longest (g # gs) = zero_span (length pre + 1) cur' longest' gs"
      using True unfolding cur'_def longest'_def by (simp only: zero_span.simps if_True Let_def simp_thms)
    ultimately show ?thesis by simp
  next
    case False
    from Cons.IH [of "(0, 0)" "pre @ [g]", OF _ zeros_at_snoc [OF Cons.prems(2)]] False show ?thesis by simp
  qed
qed

lemma zero_span_splits:
  assumes "zero_span 0 (0, 0) (0, 0) gs = (s, l)"
  shows "s + l \<le> length gs \<and> take s gs @ replicate l 0 @ drop (s + l) gs = gs"
proof -
  have "zeros_at gs (s, l)" using zero_span_zeros [of "(0, 0)" "[]" "(0, 0)" gs] assms by (simp add: zeros_at_def)
  then have z: "s + l \<le> length gs \<and> (\<forall>j. s \<le> j \<and> j < s + l \<longrightarrow> gs ! j = 0)" by (simp add: zeros_at_def)
  then have "take l (drop s gs) = replicate l 0" by (intro nth_equalityI) auto
  moreover have "take s gs @ take l (drop s gs) @ drop (s + l) gs = gs"
    by (metis add.commute append_take_drop_id drop_drop)
  ultimately show ?thesis using z by simp
qed

lemma split_u16: "ucast (ucast (drop_bit 8 g) :: u8) * 256 + ucast (ucast g :: u8) = (g :: u16)"
proof -
  have "unat g < 65536" using unat_less_pow [of g] by simp
  then have "unat g div 256 < 256" by (simp add: less_mult_imp_div_less)
  moreover have "unat (drop_bit 8 g) = unat g div 256" by (simp add: drop_bit_eq_div unat_div_distrib)
  ultimately have "unat (ucast (drop_bit 8 g) :: u8) = unat g div 256" "unat (ucast g :: u8) = unat g mod 256"
    by (simp_all add: unsigned_ucast_eq take_bit_eq_mod)
  then have "ucast (ucast (drop_bit 8 g) :: u8) = (word_of_nat (unat g div 256) :: u16)"
    "ucast (ucast g :: u8) = (word_of_nat (unat g mod 256) :: u16)"
    by (metis of_nat_unat)+
  then have "ucast (ucast (drop_bit 8 g) :: u8) * 256 + ucast (ucast g :: u8) = (word_of_nat (unat g div 256 * 256 + unat g mod 256) :: u16)"
    by (simp only: of_nat_add of_nat_mult of_nat_numeral)
  then show ?thesis by (simp only: div_mult_mod_eq) simp
qed


lemma read_groups_Suc:
  "k = Suc j \<Longrightarrow> read_groups k i s =
     (case (if 0 < j then read_separated 58 i read_v4 s else None) of
        Some ((a, b, c, d), s') \<Rightarrow> ([ucast a * 256 + ucast b, ucast c * 256 + ucast d], True, s')
      | None \<Rightarrow>
          (case read_separated 58 i (read_number 16 (Some 4) 65535 True) s of
             None \<Rightarrow> ([], False, s)
           | Some (g, s') \<Rightarrow>
               (word_of_nat g # fst (read_groups j (Suc i) s'), snd (read_groups j (Suc i) s'))))"
  by (simp only: read_groups.simps)

lemma to_ipv4_mapped_cases:
  assumes "to_ipv4_mapped gs = Some (a, b, c, d)"
  shows "gs = replicate 5 0 @ [0xFFFF, ucast a * 256 + ucast b, ucast c * 256 + ucast d]"
proof -
  have "replicate 5 (0 :: u16) = [0, 0, 0, 0, 0]" by (simp add: numeral_eq_Suc)
  then show ?thesis using assms by (auto simp: to_ipv4_mapped_def split_u16 split: list.splits if_splits)
qed

lemma read_shown_v6:
  assumes "length gs = 8" and "r = [] \<or> hd r = 93"
  shows "read_v6 (show_v6 gs @ r) = Some (gs, r)"
proof (cases "to_ipv4_mapped gs")
  case (Some v)
  then obtain a b c d where v: "to_ipv4_mapped gs = Some (a, b, c, d)" by (cases v) auto
  let ?q = "58 # show_v4 a b c d @ r"
  have f: "str ''ffff'' = show_hex 65535" by (simp add: show_hex.simps)
  have t: "show_v6 gs @ r = 58 # 58 # show_hex 65535 @ ?q" by (simp add: show_v6_def v flip: f)
  have "read_groups 8 0 (58 # 58 # show_hex 65535 @ ?q) = ([], False, 58 # 58 # show_hex 65535 @ ?q)"
    using read_groups_grp [of "58 # 58 # show_hex 65535 @ ?q" "[]" 8 0] by (simp add: stop_def)
  moreover have "read_groups 7 0 (show_hex 65535 @ ?q) =
      ([0xFFFF, ucast a * 256 + ucast b, ucast c * 256 + ucast d], True, r)"
  proof -
    have "r = [] \<or> to_digit 10 (hd r) = None" using assms(2) dots by auto
    then have v4: "read_v4 (show_v4 a b c d @ r) = Some ((a, b, c, d), r)" by (rule read_shown_v4)
    have n: "read_v4 (show_hex 65535 @ ?q) = None" using no_v4 [of "show_hex 65535" ?q] show_hex_digits by simp
    have h: "read_number 16 (Some 4) 65535 True (show_hex 65535 @ ?q) = Some (65535, ?q)"
      using read_shown_hex [of 65535 ?q] dots by simp
    show ?thesis using v4 n h by (simp add: read_groups_Suc [of 7 6] read_groups_Suc [of 6 5])
  qed
  ultimately show ?thesis unfolding t read_v6_def by (simp add: to_ipv4_mapped_cases [OF v])
next
  case None
  obtain s l where z: "zero_span 0 (0, 0) (0, 0) gs = (s, l)" by fastforce
  show ?thesis
  proof (cases "1 < l")
    case True
    let ?h = "take s gs" and ?t = "drop (s + l) gs"
    note sl = zero_span_splits [OF z]
    have len: "length ?h = s" "length ?t = 8 - (s + l)" "s + l \<le> 8" using sl assms(1) by auto
    have t: "show_v6 gs @ r = grp 0 ?h @ 58 # 58 # grp 0 ?t @ r"
      using True by (simp add: show_v6_def None z show_groups_grp)
    have "read_groups 8 0 (grp 0 ?h @ 58 # 58 # grp 0 ?t @ r) = (?h, False, 58 # 58 # grp 0 ?t @ r)"
      using len by (intro read_groups_grp) (auto simp: stop_def)
    moreover have "read_groups (8 - (s + 1)) 0 (grp 0 ?t @ r) = (?t, False, r)"
      using len True assms(2) by (intro read_groups_grp) (auto simp: stop_def)
    moreover have "8 - s - (8 - (s + l)) = l" "s \<noteq> 8" using len(3) True by auto
    ultimately show ?thesis unfolding t read_v6_def using sl len by simp
  next
    case False
    then have t: "show_v6 gs @ r = grp 0 gs @ r" by (simp add: show_v6_def None z show_groups_grp)
    have "read_groups 8 0 (grp 0 gs @ r) = (gs, False, r)"
      using assms by (intro read_groups_grp) (auto simp: stop_def)
    then show ?thesis unfolding t read_v6_def using assms(1) by simp
  qed
qed

lemma show_v6_no_v4: "length gs = 8 \<Longrightarrow> r = [] \<or> hd r = 93 \<Longrightarrow> read_v4 (show_v6 gs @ r) = None"
proof -
  assume gs: "length gs = 8" and r: "r = [] \<or> hd r = 93"
  have colon: "read_v4 (58 # s) = None" for s using no_v4 [of "[]" "58 # s"] by simp
  have group: "read_v4 (show_hex n @ 58 # s) = None" for n s using no_v4 [of "show_hex n" "58 # s"] show_hex_digits by simp
  have many: "read_v4 (show_groups hs @ s) = None" if ne: "length hs \<noteq> 1" and nil: "hs = [] \<Longrightarrow> \<exists>s'. s = 58 # s'" for hs s
  proof (cases hs)
    case Nil
    then show ?thesis using nil colon by (auto simp: show_groups_def)
  next
    case (Cons g hs')
    then obtain h hs'' where "hs' = h # hs''" using ne by (cases hs') auto
    then show ?thesis using Cons group by (simp add: show_groups_grp)
  qed
  have one: "read_v4 (show_groups [g] @ 58 # s) = None" for g s using group by (simp add: show_groups_def)
  show ?thesis
  proof (cases "to_ipv4_mapped gs")
    case None
    obtain s l where z: "zero_span 0 (0, 0) (0, 0) gs = (s, l)" by fastforce
    have e: "read_v4 (show_groups (take s gs) @ 58 # 58 # q) = None" for q
    proof (cases "length (take s gs) = 1")
      case True
      then obtain g where "take s gs = [g]" by (metis length_0_conv length_Suc_conv One_nat_def)
      then show ?thesis using one [of g "58 # q"] by simp
    qed (use many in auto)
    have "read_v4 (show_groups gs @ r) = None" by (rule many) (use gs in auto)
    then show ?thesis using e z by (simp add: show_v6_def None)
  next
    case (Some v)
    then show ?thesis using colon by (cases v) (simp add: show_v6_def)
  qed
qed

section \<open>Addresses and socket addresses\<close>

lemma parse_shown_ip: "ip_ok a \<Longrightarrow> parse_ip (show_ip a) = Some a"
proof -
  assume "ip_ok a"
  then have "read_ip (show_ip a) = Some (a, [])"
    using read_shown_v4 [of "[]"] read_shown_v6 [of _ "[]"] show_v6_no_v4 [of _ "[]"]
    by (cases a) (auto simp: read_ip_def show_ip_def ip_ok_def)
  then show ?thesis by (simp add: parse_ip_def)
qed

lemma read_groups_bound: "length (fst (read_groups k i s)) \<le> k"
  by (induction k i s rule: read_groups.induct) (auto split: option.splits prod.splits)

lemma parse_ip_ok: "parse_ip s = Some a \<Longrightarrow> ip_ok a"
proof -
  have v6: "length gs = 8" if v: "read_v6 t = Some (gs, r)" for t gs r
  proof -
    obtain front v4 s1 where h: "read_groups 8 0 t = (front, v4, s1)" by (metis prod_cases3)
    then have "length front \<le> 8" using read_groups_bound [of 8 0 t] by simp
    show ?thesis
    proof (cases "length front = 8")
      case True
      then show ?thesis using v h by (simp add: read_v6_def)
    next
      case False
      obtain s3 rear w4 s4 where b: "read_groups (8 - (length front + 1)) 0 s3 = (rear, w4, s4)"
        and "gs = front @ replicate (8 - length front - length rear) 0 @ rear"
        using v h False by (auto simp: read_v6_def Let_def split: if_splits option.splits prod.splits)
      then show ?thesis using \<open>length front \<le> 8\<close> read_groups_bound [of "8 - (length front + 1)" 0 s3] False by simp
    qed
  qed
  assume "parse_ip s = Some a"
  then show ?thesis
    by (auto simp: parse_ip_def read_ip_def ip_ok_def dest!: v6 split: option.splits prod.splits list.splits)
qed

interpretation ip_text: wire_format show_ip parse_ip ip_ok
  by unfold_locales (rule parse_shown_ip)

lemma parse_shown_sock: "ip_ok a \<Longrightarrow> port \<le> 65535 \<Longrightarrow> parse_sock (show_sock (a, port)) = Some (a, port)"
proof -
  assume a: "ip_ok a" and p: "port \<le> 65535"
  have port: "read_port (58 # show_nat port) = Some (port, [])"
    using read_shown [of port 65535 None "[]" True] p by (simp add: read_port_def)
  have "read_sock (show_sock (a, port)) = Some ((a, port), [])"
  proof (cases a)
    case (V4 x y z w)
    then show ?thesis using read_shown_v4 [of "58 # show_nat port" x y z w] port dots
      by (simp add: read_sock_def show_sock_def show_ip_def)
  next
    case (V6 gs)
    let ?e = "93 # 58 # show_nat port"
    have "read_v4 (91 # show_v6 gs @ ?e) = None"
      by (simp add: read_v4_def read_octet_def read_number_def to_digit_def)
    moreover have "read_v6 (show_v6 gs @ ?e) = Some (gs, ?e)" using a V6 by (intro read_shown_v6) (auto simp: ip_ok_def)
    ultimately show ?thesis using V6 port
      by (simp add: read_sock_def show_sock_def show_ip_def read_scope_id_def)
  qed
  then show ?thesis by (simp add: parse_sock_def)
qed

interpretation sock_text: wire_format show_sock parse_sock "\<lambda>(a, port). ip_ok a \<and> port \<le> 65535"
  by unfold_locales (auto simp: parse_shown_sock)

end
