(* ===== verification/Startup_Properties.thy ===== *)
theory Startup_Properties
  imports Bootstrap Startup Ip_Laws Hostile_Network Launch_Properties
begin

text \<open>
  From the command lines to the session: what the server announces reaches the client through ssh, the
  wrapper and the client's environment, and the two connections then share a key; the daemon child serves
  what its parent announced.
\<close>

section \<open>The key as text\<close>

text \<open>The alphabet of base64 is printable ASCII, without blanks.\<close>

definition b64_text :: "b64 \<Rightarrow> bool" where
  "b64_text B \<longleftrightarrow> (\<forall>k. length k = 16 \<longrightarrow> (\<forall>c\<in>set (b64_encode B k). 33 \<le> (of_char c :: nat) \<and> (of_char c :: nat) < 127))"

lemma std_b64_text: "b64_text std_b64"
proof -
  have a: "\<forall>c\<in>set alphabet. 33 \<le> (of_char c :: nat) \<and> (of_char c :: nat) < 127"
    by (simp add: alphabet_def)
  have "alphabet ! d \<in> set alphabet" if "d \<in> set (digits64 22 n)" for d n
    using digits64_less [OF that] alphabet_length by (intro nth_mem) simp
  then show ?thesis using a by (auto simp: b64_text_def std_b64_def simp del: digits64.simps)
qed

definition graphic :: "string \<Rightarrow> bool" where
  "graphic p \<longleftrightarrow> (\<forall>c\<in>set p. 33 \<le> (of_char c :: nat) \<and> (of_char c :: nat) < 127)"

lemma graphic_utf8: "graphic p \<Longrightarrow> utf8 (str p) = map (\<lambda>c. byte (of_char c)) p"
  by (induction p) (auto simp: graphic_def utf8_def encode_char_def)

lemma graphic_bytes: "graphic p \<Longrightarrow> text_bytes (str p) = p"
  unfolding text_bytes_def graphic_utf8 by (induction p) (auto simp: graphic_def)

lemma graphic_no_blank: "graphic p \<Longrightarrow> \<forall>c\<in>set (str p). \<not> is_whitespace c"
  by (force simp: graphic_def str_def is_whitespace_def)

lemma graphic_take: "graphic p \<Longrightarrow> graphic (take n p)"
  by (auto simp: graphic_def dest: in_set_takeD)

lemma graphic_cuts: "graphic p \<Longrightarrow> n \<le> length p \<Longrightarrow> cuts_at n (str p)"
proof -
  assume g: "graphic p" and n: "n \<le> length p"
  have "take n (str p) = str (take n p)" by (simp add: str_def take_map)
  then have "length (utf8 (take n (str p))) = n" using graphic_utf8 [OF graphic_take [OF g]] n by simp
  moreover have "n \<in> set [0 ..< Suc (length (str p))]" using n by (simp add: str_def del: upt_Suc)
  ultimately have "n \<in> (\<lambda>k. length (utf8 (take k (str p)))) ` set [0 ..< Suc (length (str p))]" by (intro image_eqI [of _ _ n]) simp_all
  then show ?thesis unfolding cuts_at_def by (simp del: upt_Suc)
qed

lemma printed_key:
  assumes "b64_laws B" and "b64_text B" and "length key = 16"
  shows "\<exists>p. printable_key B key = Some p \<and> length p = 22 \<and> graphic p \<and> from_printable B p = Some (Inr key)"
proof -
  obtain s where s: "length s = 22" "b64_encode B key = s @ ''==''" "b64_decode B (s @ ''=='') = Some key"
    using assms(1,3) unfolding b64_laws_def by blast
  have "printable_key B key = Some s" using s by (simp add: printable_key_def)
  moreover have "graphic s" using assms(2,3) s(2) unfolding b64_text_def graphic_def by fastforce
  ultimately show ?thesis using s assms(3) by (auto simp: from_printable_def)
qed

lemma server_key_length: "server_key B env random = Some (Inr key) \<Longrightarrow> length random = 16 \<Longrightarrow> length key = 16"
  by (auto simp: server_key_def from_printable_def split: option.splits if_splits)

section \<open>The fake proxy\<close>

text \<open>The chunks up to the end or an error, with the interrupted reads left out, are written in order and whole.\<close>

definition flowing :: "proxy_read \<Rightarrow> bool" where
  "flowing r \<longleftrightarrow> r \<noteq> Chunk [] \<and> r \<noteq> ReadFailed"

definition chunk_of :: "proxy_read \<Rightarrow> bytes" where
  "chunk_of r = (case r of Chunk d \<Rightarrow> d | _ \<Rightarrow> [])"

lemma pump_copies:
  assumes "\<forall>o' d. accepts o' d"
  shows "pump accepts reads out = out @ concat (map chunk_of (takeWhile flowing reads))"
  using assms by (induction accepts reads out rule: pump.induct) (auto simp: flowing_def chunk_of_def)

text \<open>Whatever fails, what is written is an initial piece of that.\<close>

lemma pump_prefix: "prefix (pump accepts reads out) (out @ concat (map chunk_of (takeWhile flowing reads)))"
  by (induction accepts reads out rule: pump.induct) (auto simp: flowing_def chunk_of_def prefix_def)

text \<open>IPv6 addresses are tried only after every IPv4 address has failed.\<close>

lemma try_addresses_picks:
  "try_addresses dial as e = Inr s \<Longrightarrow>
     \<exists>before a after. as = before @ a # after \<and> dial a = Inr s \<and> (\<forall>b\<in>set before. \<exists>e. dial b = Inl e)"
proof (induction as arbitrary: e)
  case (Cons a as)
  show ?case
  proof (cases "dial a")
    case (Inl e')
    then obtain before b after where "as = before @ b # after" "dial b = Inr s" "\<forall>b\<in>set before. \<exists>e. dial b = Inl e"
      using Cons by fastforce
    then show ?thesis using Inl by (intro exI [of _ "a # before"]) auto
  next
    case (Inr s')
    then show ?thesis using Cons(2) by (intro exI [of _ "[]"]) simp
  qed
qed simp

lemma proxy_prefers_ipv4:
  assumes "proxy_connect host (Inr addrs) dial = Inr s"
  shows "\<exists>a\<in>set addrs. dial a = Inr s \<and> (is_ipv4 (fst a) \<or> (\<forall>b\<in>set addrs. is_ipv4 (fst b) \<longrightarrow> (\<exists>e. dial b = Inl e)))"
proof -
  have "try_addresses dial (inet_first addrs) (str ''no addresses'') = Inr s"
    using assms by (simp add: proxy_connect_def split: sum.splits)
  from try_addresses_picks [OF this]
  obtain before a after where b: "inet_first addrs = before @ a # after" "dial a = Inr s" "\<forall>b\<in>set before. \<exists>e. dial b = Inl e"
    by blast
  have set: "set addrs = set before \<union> {a} \<union> set after" using arg_cong [OF b(1), of set] by auto
  have "sorted (map (\<lambda>a. \<not> is_ipv4 (fst a)) (inet_first addrs))" by (rule sorted_sort_key)
  then have after: "\<not> is_ipv4 (fst a) \<Longrightarrow> c \<in> set after \<Longrightarrow> \<not> is_ipv4 (fst c)" for c
    unfolding b(1) by (fastforce simp: sorted_append)
  have "\<exists>e. dial c = Inl e" if "\<not> is_ipv4 (fst a)" "c \<in> set addrs" "is_ipv4 (fst c)" for c
    using that after [of c] b(3) set by blast
  then show ?thesis using set b(2) by blast
qed

text \<open>The line that the proxy prints is the address that the wrapper reads.\<close>

lemma show_nat_blank: "c \<in> set (show_nat n) \<Longrightarrow> \<not> is_whitespace c"
  using show_nat_digits [of n] digit_not_space by (auto simp: list_all_iff)

lemma show_hex_blank: "c \<in> set (show_hex n) \<Longrightarrow> \<not> is_whitespace c"
proof -
  have "to_digit 16 c \<noteq> None \<Longrightarrow> \<not> is_whitespace c"
    by (auto simp: to_digit_def is_whitespace_def Let_def split: if_splits)
  then show "c \<in> set (show_hex n) \<Longrightarrow> \<not> is_whitespace c" using show_hex_digits [of n] by blast
qed

lemma grp_blank: "c \<in> set (grp i gs) \<Longrightarrow> \<not> is_whitespace c"
  by (induction gs arbitrary: i) (auto simp: is_whitespace_def [of 58] dest: show_hex_blank split: if_splits)

lemma show_v4_blank: "x \<in> set (show_v4 a b c d) \<Longrightarrow> \<not> is_whitespace x"
  by (auto simp: show_v4_def is_whitespace_def [of 46] dest: show_nat_blank)

lemma show_ip_blank: "c \<in> set (show_ip a) \<Longrightarrow> \<not> is_whitespace c"
  by (auto simp: show_ip_def show_v6_def show_groups_grp is_whitespace_def [of 58] is_whitespace_def [of 102] Let_def
      dest: grp_blank show_v4_blank split: ip_addr.splits option.splits prod.splits if_splits)

lemma show_ip_nonempty: "ip_ok a \<Longrightarrow> show_ip a \<noteq> []"
proof -
  assume "ip_ok a"
  then have "parse_ip (show_ip a) = Some a" by (rule parse_shown_ip)
  moreover have "read_groups 8 0 [] = ([], False, [])" using read_groups_grp [of "[]" "[]" 8 0] by (simp add: stop_def)
  then have "parse_ip [] = None"
    by (simp add: parse_ip_def read_ip_def read_v6_def read_v4_def read_octet_def read_number_def)
  ultimately show ?thesis by auto
qed

lemma trim_unblank:
  assumes "\<forall>c\<in>set w. \<not> is_whitespace c"
  shows "trim_end (v @ w) = (if w = [] then trim_end v else v @ w)" and "trim w = w"
proof -
  have t: "trim_end (v @ w) = (if w = [] then trim_end v else v @ w)" for v
  proof (cases w rule: rev_cases)
    case (snoc xs x)
    then show ?thesis using assms by (simp add: trim_end_def)
  qed simp
  then show "trim_end (v @ w) = (if w = [] then trim_end v else v @ w)" .
  have "trim_start w = w" using assms by (cases w) (simp_all add: trim_start_def)
  then show "trim w = w" using t [of "[]"] by (simp add: trim_def trim_end_def)
qed

lemma strip_prefix_append: "strip_prefix p (p @ s) = Some s"
  by (induction p) simp_all

lemma parse_ip_line_shown:
  assumes "ip_ok a"
  shows "parse_ip_line (ip_line (Some a)) = Some (show_ip a)"
proof -
  have "\<forall>c\<in>set (show_ip a). \<not> is_whitespace c" using show_ip_blank by blast
  note t = trim_unblank [OF this]
  show ?thesis using show_ip_nonempty [OF assms]
    by (simp only: ip_line_def parse_ip_line_def option.case t if_False strip_prefix_append option.map)
qed

lemma read_stderr_first:
  assumes "\<forall>l\<in>set pre. parse_ip_line l = None" and "parse_ip_line l = Some a"
  shows "fst (read_stderr (pre @ l # post) None rest) = Some a"
proof -
  have keep: "fst (read_stderr ls (Some a) rest) = Some a" for ls rest
    by (induction ls arbitrary: rest) (auto split: option.splits)
  show ?thesis using assms by (induction pre arbitrary: rest) (auto simp: keep)
qed

text \<open>What ssh makes of a \<open>ProxyCommand\<close>: \<open>%h\<close> and \<open>%p\<close> are the host and port it connects to, \<open>%%\<close> a per cent sign.\<close>

fun ssh_expand :: "rtext \<Rightarrow> rtext \<Rightarrow> rtext \<Rightarrow> rtext option" where
  "ssh_expand h p [] = Some []"
| "ssh_expand h p (c # s) =
     (if c \<noteq> 37 then map_option ((#) c) (ssh_expand h p s)
      else
        (case s of
           [] \<Rightarrow> None
         | d # s' \<Rightarrow>
             if d = 37 then map_option ((#) 37) (ssh_expand h p s')
             else if d = 104 then map_option ((@) h) (ssh_expand h p s')
             else if d = 112 then map_option ((@) p) (ssh_expand h p s') else None))"

lemma ssh_expand_escaped: "ssh_expand h p (replace_char 37 [37, 37] t @ s) = map_option ((@) t) (ssh_expand h p s)"
  by (induction t) (simp_all add: replace_char_def option.map_comp comp_def option.map_ident)

lemma plain_quoted: "w \<noteq> [] \<Longrightarrow> list_all plain_char w \<Longrightarrow> shell_quote w = w"
  by (simp add: shell_quote_def)

lemma show_nat_plain: "list_all plain_char (show_nat n)"
  using show_nat_digits [of n] by (auto simp: list_all_iff is_digit_def plain_char_def)

lemma proxy_command_expanded:
  assumes "list_all plain_char host" and "host \<noteq> []" and "proxy_command False (Some exe) = Some cmd"
  shows "ssh_expand host (show_nat port) cmd = Some (shell_quote_all [exe, str ''--fake-proxy'', str ''--'', host, show_nat port])"
proof -
  have c: "cmd = replace_char 37 [37, 37] (shell_quote exe) @ str '' --fake-proxy -- %h %p''" using assms(3) by (simp add: proxy_command_def)
  have "ssh_expand host (show_nat port) (str '' --fake-proxy -- %h %p'') = Some (str '' --fake-proxy -- '' @ host @ [32] @ show_nat port)"
    by simp
  moreover have "shell_quote (str ''--fake-proxy'') = str ''--fake-proxy''" "shell_quote (str ''--'') = str ''--''"
    by (simp_all add: shell_quote_def plain_char_def)
  moreover have "shell_quote host = host" "shell_quote (show_nat port) = show_nat port"
    using plain_quoted assms(1,2) show_nat_plain show_nat_digits by auto
  ultimately show ?thesis unfolding c ssh_expand_escaped by (simp add: shell_quote_all_def)
qed

section \<open>The server's announcement\<close>

lemma names_apart:
  "child_env env port key (str ''SSH_CONNECTION'') = env (str ''SSH_CONNECTION'')" "child_env env port key (str ''SHELL'') = env (str ''SHELL'')"
  "child_env env port key (str ''MORSH_DAEMON_CHILD'') = Some (str ''1'')"
  "child_env env port key (str ''MORSH_DAEMON_PORT'') = Some (show_nat port)" "child_env env port key (str ''MORSH_KEY'') = Some key"
  by (simp_all add: child_env_def)

text \<open>What a server that announces itself goes on with, whatever becomes of its process.\<close>

definition serving_of :: "bool \<Rightarrow> env \<Rightarrow> cli_options \<Rightarrow> bytes \<Rightarrow> nat \<Rightarrow> serving" where
  "serving_of windows env opts key port =
     \<lparr>sv_port = port, sv_ip = desired_ip opts (env (str ''SSH_CONNECTION'')), sv_key = key,
      sv_shell = choose_shell windows (env (str ''SHELL'')) (command_args opts), sv_command = command_args opts,
      sv_vars = locale_vars opts\<rparr>"

lemma server_announces:
  assumes "b64_laws B" and "b64_text B" and "length random = 16"
    and main: "server_main B windows own detaches try_bind random show env argv = (out, e)" and "out \<noteq> []"
  obtains opts key port p where "parse_args argv = Run opts" and "\<not> is_daemon_child env" and "length key = 16"
    and "server_port env try_bind opts = Inr port"
    and "printable_key B key = Some p" and "graphic p" and "length p = 22" and "from_printable B p = Some (Inr key)"
    and "out = [connect_line port (str p), str ''MOSH CONNECTION ID: 1'']"
    and "e = (if no_daemonize opts then Serves (serving_of windows env opts key port) env
              else fork_and_detach windows own detaches argv (serving_of windows env opts key port) (child_env env port (str p)))"
proof -
  obtain opts where o: "parse_args argv = Run opts"
    using main \<open>out \<noteq> []\<close> by (cases "parse_args argv") (auto simp: server_main_def)
  obtain key where k: "server_key B env random = Some (Inr key)"
    using main \<open>out \<noteq> []\<close> o by (auto simp: server_main_def split: option.splits sum.splits)
  obtain port where q: "server_port env try_bind opts = Inr port"
    using main \<open>out \<noteq> []\<close> o k by (auto simp: server_main_def split: sum.splits)
  have nc: "\<not> is_daemon_child env" using main \<open>out \<noteq> []\<close> o k q by (auto simp: server_main_def Let_def split: if_splits)
  have len: "length key = 16" using server_key_length [OF k assms(3)] .
  obtain p where p: "printable_key B key = Some p" "length p = 22" "graphic p" "from_printable B p = Some (Inr key)"
    using printed_key [OF assms(1,2) len] by blast
  have "out = [connect_line port (str p), str ''MOSH CONNECTION ID: 1''] \<and>
      e = (if no_daemonize opts then Serves (serving_of windows env opts key port) env
           else fork_and_detach windows own detaches argv (serving_of windows env opts key port) (child_env env port (str p)))"
    using main unfolding server_main_def o k q cli_outcome.case option.case sum.case Let_def if_not_P [OF nc] p(1) serving_of_def by auto
  then show thesis using that o nc len q p by blast
qed

lemma daemon_child_runs:
  assumes "parse_args argv = Run opts" and "graphic p" and "from_printable B p = Some (Inr key)" and "port \<le> 65535"
  shows "server_main B windows own detaches try_bind random show (child_env env port (str p)) argv =
    ([], Serves (serving_of windows env opts key port) (child_env env port (str p)))"
proof -
  let ?env = "child_env env port (str p)"
  have c: "is_daemon_child ?env" unfolding is_daemon_child_def names_apart by blast
  have k: "server_key B ?env random = Some (Inr key)" unfolding server_key_def names_apart option.case graphic_bytes [OF assms(2)] by (rule assms(3))
  have q: "server_port ?env try_bind opts = Inr port" unfolding server_port_def if_P [OF c] names_apart option.case parse_show [OF assms(4)] ..
  show ?thesis
    unfolding server_main_def assms(1) k q cli_outcome.case option.case sum.case Let_def if_P [OF c] serving_of_def names_apart ..
qed

text \<open>Whatever arguments the daemon child finds, if it serves at all then it serves the port and the key it is given.\<close>

lemma daemon_child_serves:
  assumes "graphic p" and "from_printable B p = Some (Inr key)" and "port \<le> 65535"
    and "server_main B windows own detaches try_bind random show (child_env env port (str p)) argv' = (out, Serves sv env')"
  shows "sv_port sv = port" and "sv_key sv = key"
proof -
  obtain opts where o: "parse_args argv' = Run opts"
    using assms(4) by (cases "parse_args argv'") (auto simp: server_main_def)
  have "sv = serving_of windows env opts key port" using assms(4) unfolding daemon_child_runs [OF o assms(1-3)] by simp
  then show "sv_port sv = port" "sv_key sv = key" by (simp_all add: serving_of_def)
qed

lemma pick_port_binds: "pick_port f lo hi = Inr q \<Longrightarrow> \<exists>p. f p = Inr (Inr q)"
  using bind_first_picks [of f] by (fastforce simp: pick_port_def Let_def simp del: upt_Suc split: sum.splits prod.splits)

lemma server_port_bound:
  assumes "server_port env try_bind opts = Inr port" and "\<not> is_daemon_child env" and "\<forall>a q. try_bind a = Inr (Inr q) \<longrightarrow> q \<le> 65535"
  shows "port \<le> 65535"
proof -
  obtain f lo hi where "pick_port (\<lambda>x. try_bind (f x)) lo hi = Inr port" using assms(1,2) by (auto simp: server_port_def Let_def)
  then show ?thesis using pick_port_binds assms(3) by blast
qed

text \<open>The environment that a detached server has or leaves.\<close>

definition leaves :: "server_end \<Rightarrow> env option" where
  "leaves e = (case e of LeavesFork sv env \<Rightarrow> Some env | LeavesProgram line env \<Rightarrow> Some env | _ \<Rightarrow> None)"

text \<open>What is served in the end: by the process itself, by its fork, or by the program it starts.\<close>

definition serves_finally :: "b64 \<Rightarrow> bool \<Rightarrow> (key_error \<Rightarrow> rtext) \<Rightarrow> server_end \<Rightarrow> serving \<Rightarrow> bool" where
  "serves_finally B windows show e sv \<longleftrightarrow>
     (\<exists>env. e = Serves sv env \<or> e = LeavesFork sv env) \<or>
     (\<exists>line env own detaches try_bind random out env'. e = LeavesProgram line env \<and>
        server_main B windows own detaches try_bind random show env (tl (windows_args line)) = (out, Serves sv env'))"

lemma serves_announced:
  assumes "b64_laws B" and "b64_text B" and "length random = 16"
    and ports: "\<forall>a q. try_bind a = Inr (Inr q) \<longrightarrow> q \<le> 65535"
    and main: "server_main B windows own detaches try_bind random show env argv = (out, e)" and "out \<noteq> []"
    and "serves_finally B windows show e sv"
  obtains p where "out = [connect_line (sv_port sv) (str p), str ''MOSH CONNECTION ID: 1'']" and "graphic p" and "length p = 22"
    and "from_printable B p = Some (Inr (sv_key sv))" and "length (sv_key sv) = 16" and "sv_port sv \<le> 65535"
proof -
  obtain opts key port p where o: "parse_args argv = Run opts" "\<not> is_daemon_child env" "length key = 16"
    and q: "server_port env try_bind opts = Inr port"
    and p: "printable_key B key = Some p" "graphic p" "length p = 22" "from_printable B p = Some (Inr key)"
    and out: "out = [connect_line port (str p), str ''MOSH CONNECTION ID: 1'']"
    and e: "e = (if no_daemonize opts then Serves (serving_of windows env opts key port) env
              else fork_and_detach windows own detaches argv (serving_of windows env opts key port) (child_env env port (str p)))"
    using server_announces [OF assms(1-3) main \<open>out \<noteq> []\<close>] by blast
  have le: "port \<le> 65535" using server_port_bound [OF q o(2) ports] .
  have "sv_port sv = port \<and> sv_key sv = key"
    using assms(7) daemon_child_serves [OF p(2,4) le] unfolding serves_finally_def e
    by (auto simp: fork_and_detach_def fork_and_detach_windows_def serving_of_def split: if_splits option.splits)
  then show thesis using that [OF _ p(2,3)] out p(4) le o(3) by simp
qed

section \<open>The wrapper\<close>

lemma scan_stdout_skips:
  "\<forall>l\<in>set before. \<not> starts_with l (str ''MOSH CONNECT'') \<Longrightarrow> scan_stdout (map Some before @ ls) = scan_stdout ls"
  by (induction before) (simp_all add: parse_connect_def)

text \<open>Ssh is run, as the child \<open>c\<close>.\<close>

definition launches :: "('s, 'k) world \<Rightarrow> wrapper_args \<Rightarrow> ssh_child \<Rightarrow> bool" where
  "launches W a c \<longleftrightarrow> (\<forall>vars as. spawn W vars as = Some c) \<and> resolve_remote_shell_value (arg_remote_shell a) \<noteq> None \<and>
     (built_in_client W \<longrightarrow> choose_mode (ssh_installed W (arg_ssh_command a)) (arg_ssh_mode a) \<noteq> ModeRussh)"

lemma launches_answer:
  assumes "launches W a c"
  shows "(if built_in_client W then try_launch_ssh W a b cfg else launch_system W a b cfg) = launch_answer c"
proof -
  have "launch_system W a b cfg = launch_answer c"
    using assms by (auto simp: launches_def launch_system_def try_launch_server_def Let_def split: option.splits)
  then show ?thesis using assms by (auto simp: launches_def try_launch_ssh_def)
qed

text \<open>What ssh's child says when the server has announced itself through it and the proxy has reported.\<close>

definition relays :: "ssh_child \<Rightarrow> rtext list \<Rightarrow> ip_addr \<Rightarrow> bool" where
  "relays c announced ip \<longleftrightarrow>
     (\<exists>before after. out_lines c = map Some before @ map Some announced @ after \<and>
        (\<forall>l\<in>set before. \<not> starts_with l (str ''MOSH CONNECT''))) \<and>
     (\<exists>before after. err_seen c = before @ ip_line (Some ip) # after \<and> (\<forall>l\<in>set before. parse_ip_line l = None))"

lemma wrapper_runs_client:
  assumes "launches W a c" and "relays c (connect_line port (str p) # ls) ip" and "ip_ok ip" and "port \<le> 65535"
    and "graphic p" and "length p = 22"
  shows "wrapper_main W a = RunClient (client_path (on_windows W) (own_dir W)) (show_sock (ip, port))
    [(str ''MORSH_KEY'', str p), (str ''MOSH_PREDICTION_DISPLAY'', arg_predict a)]"
proof -
  have "str p \<noteq> []" using assms(6) by (auto simp: str_def)
  then have "parse_connect (connect_line port (str p)) = Some \<lparr>ci_port = port, ci_key = str p, ci_ip = None\<rparr>"
    using parse_connect_line [OF assms(4) _ graphic_no_blank [OF assms(5)]] by simp
  moreover obtain before after where out: "out_lines c = map Some before @ Some (connect_line port (str p)) # map Some ls @ after"
    "\<forall>l\<in>set before. \<not> starts_with l (str ''MOSH CONNECT'')" using assms(2) by (auto simp: relays_def)
  ultimately have s: "scan_stdout (out_lines c) = Some (Some \<lparr>ci_port = port, ci_key = str p, ci_ip = None\<rparr>)"
    unfolding out(1) scan_stdout_skips [OF out(2)] by simp
  have "fst (read_stderr (err_seen c) None []) = Some (show_ip ip)"
    using assms(2) read_stderr_first [OF _ parse_ip_line_shown [OF assms(3)]] by (auto simp: relays_def)
  then have l: "launch_answer c = Launched \<lparr>ci_port = port, ci_key = str p, ci_ip = Some (show_ip ip)\<rparr>"
    unfolding launch_answer_def s by simp
  have "cuts_at 8 (str p)" using graphic_cuts [OF assms(5)] assms(6) by simp
  then show ?thesis
    unfolding wrapper_main_def Let_def launches_answer [OF assms(1)] l
    by (simp add: server_ip_of_def server_addr_text_def parse_shown_ip [OF assms(3)] del: str_simps)
qed

section \<open>The client\<close>

text \<open>The environment of a program that is run with extra variables.\<close>

definition run_env :: "env \<Rightarrow> (rtext \<times> rtext) list \<Rightarrow> env" where
  "run_env env vars = fold (\<lambda>(n, v) m. m(n \<mapsto> v)) vars env"

lemma no_sock: "parse_sock (45 # s) = None"
  by (simp add: parse_sock_def read_sock_def read_v4_def read_octet_def read_number_def to_digit_def)

lemma client_parses: "ip_ok ip \<Longrightarrow> port \<le> 65535 \<Longrightarrow> client_parse client_addr [path, show_sock (ip, port)] = Connect (ip, port)"
proof -
  assume "ip_ok ip" "port \<le> 65535"
  then have "parse_sock (show_sock (ip, port)) = Some (ip, port)" by (rule parse_shown_sock)
  moreover from this have "show_sock (ip, port) \<noteq> 45 # s" for s using no_sock by auto
  ultimately show ?thesis by (simp add: client_parse_def client_addr_def)
qed

lemma client_connects:
  assumes "ip_ok ip" and "port \<le> 65535" and "graphic p" and "from_printable B p = Some (Inr key)"
    and "bind_udp attempt (unspecified, 0) = Inr sock"
  shows "client_connect B show attempt (run_env env [(str ''MORSH_KEY'', str p), (str ''MOSH_PREDICTION_DISPLAY'', v)])
      [path, show_sock (ip, port)] now =
    ClientGoes (set_remote_addr (connection_build sock (session_new key) False now) (addr_number (ip, port)))"
proof -
  have "run_env env [(str ''MORSH_KEY'', str p), (str ''MOSH_PREDICTION_DISPLAY'', v)] (str ''MORSH_KEY'') = Some (str p)"
    by (simp add: run_env_def)
  then show ?thesis
    unfolding client_connect_def client_parses [OF assms(1,2)] client_outcome.case
    by (simp add: graphic_bytes [OF assms(3)] assms(4) new_client_def assms(5) del: str_simps)
qed

lemma map_sum_Inr: "map_sum g f x = Inr c \<longleftrightarrow> (\<exists>y. x = Inr y \<and> c = f y)"
  by (cases x) auto

lemma server_socket:
  assumes "bind_server_socket attempt sv now = Inr c"
  shows "\<exists>sock. c = connection_build sock (session_new (sv_key sv)) True now"
  using assms by (auto simp: bind_server_socket_def new_server_def map_sum_Inr Let_def split: option.splits sum.splits)

lemma client_begins:
  assumes "client_connect B show attempt env argv now = ClientGoes c"
    and "complete_new em (fst (window_of sz)) (snd (window_of sz)) = Inr blank"
  shows "\<exists>L. client_begin B show attempt em U H env argv sz now = ClientGoes L \<and> tr_connection (cl_tr L) = c"
proof -
  obtain w h where "window_of sz = (w, h)" by fastforce
  then show ?thesis using assms(2)
    unfolding client_begin_def assms(1) client_setup.case client_start_def by (simp add: Let_def transport_new_def)
qed

text \<open>The two ends before anything was sent.\<close>

definition session_of :: "instant \<Rightarrow> 't client_loop \<Rightarrow> 't server_transport \<Rightarrow> nat \<times> nat \<Rightarrow> (user_stream, 't complete, user_event list) dnet" where
  "session_of now L T = (\<lambda>(w, h).
     \<lparr>the_net = \<lparr>net_clock = now, end_a = cl_tr L, end_b = T, wire_ab = {}, wire_ba = {},
        made = [Resize (word_of_nat w) (word_of_nat h)], delivered = user_stream_new\<rparr>,
      sent_ab = {}, sent_ba = {}\<rparr>)"

lemma ends_make_a_session:
  assumes c: "client_begin B show cattempt em U H cenv argv sz now = ClientGoes L"
    and cc: "client_connect B show cattempt cenv argv now = ClientGoes cc" and "connected key False cc"
    and s: "bind_transport em H U sattempt sv now = Inr T" and "sv_key sv = key"
  shows "wire_run C Z key em H U (word_of_nat (fst (window_of sz))) (word_of_nat (snd (window_of sz)))
    (session_of now L T (window_of sz)) None [] 0 []"
proof -
  obtain w h where wh: "window_of sz = (w, h)" by fastforce
  obtain remote where L: "cl_tr L = transport_new (user_ops U) (complete_ops em H) now now cc
      (push_resize (word_of_nat w) (word_of_nat h) user_stream_new) remote"
    using c unfolding client_begin_def cc client_start_def wh by (auto simp: Let_def split: sum.splits)
  obtain sc blank where sc: "bind_server_socket sattempt sv now = Inr sc"
    and T: "T = transport_new (complete_ops em H) (user_ops U) now now sc blank user_stream_new"
    using s by (auto simp: bind_transport_def split: sum.splits)
  have len: "length key = 16" using assms(3) by (simp add: connected_def)
  then have "connected key True sc" using server_socket [OF sc] assms(5) by (auto simp: connected_def)
  then have "fresh_link key False (session_of now L T (w, h))"
    using assms(3) L T by (simp add: fresh_link_def session_of_def transport_new_def)
  then show ?thesis unfolding wh fst_conv snd_conv
    by (intro wire_start) (auto simp: session_of_def session_start_def L T)
qed

text \<open>A launch for the witnesses: the server in the foreground on the first port, ssh with a greeting.\<close>

definition demo_bind :: "sock_addr \<Rightarrow> bind_result" where
  "demo_bind = (\<lambda>(ip, port). if port \<le> 65535 then Inr (Inr port) else Inl [])"

definition demo_attempt :: "sock_addr \<Rightarrow> udp_attempt" where
  "demo_attempt a = UdpBound 0"

definition demo_key :: bytes where
  "demo_key = replicate 16 0"

definition demo_announcement :: "rtext list" where
  "demo_announcement = [connect_line 60001 (str (replicate 22 CHR ''A'')), str ''MOSH CONNECTION ID: 1'']"

definition demo_serving :: serving where
  "demo_serving = \<lparr>sv_port = 60001, sv_ip = None, sv_key = demo_key, sv_shell = str ''/bin/sh'', sv_command = [], sv_vars = []\<rparr>"

definition demo_child :: ssh_child where
  "demo_child = \<lparr>out_lines = map Some (str ''Welcome'' # demo_announcement), err_seen = [ip_line (Some (V4 127 0 0 1))], err_later = []\<rparr>"

definition demo_world :: "(unit, unit) world" where
  "demo_world =
     \<lparr>env_var = (\<lambda>n. None), run_output = (\<lambda>as. None), can_run = (\<lambda>as. True), spawn = (\<lambda>vars as. Some demo_child),
      look_up = (\<lambda>h p. Inl []), look_up_text = (\<lambda>a. Inl []), banner_dial = (\<lambda>a. None), own_path = None, own_dir = None,
      is_file = (\<lambda>f. False), on_windows = False, info_logged = True, built_in_client = True, tcp_dial = (\<lambda>a. Inl []),
      tcp_peer = (\<lambda>s. Inl []), handshake = (\<lambda>p s. None), load_key = (\<lambda>f. LoadFailed []), unlock_key = (\<lambda>f. Inl []),
      try_key = (\<lambda>s u log k. Inr False), exec = (\<lambda>s cmd. None)\<rparr>"

definition demo_args :: wrapper_args where
  "demo_args =
     \<lparr>port_range = None, server_log_file = None, arg_no_daemonize = False, server_path = str ''morsh-server'', arg_command = [],
      arg_ssh_command = str ''ssh'', arg_predict = str ''adaptive'', arg_bind = str ''ssh'', arg_ssh_mode = ModeAuto,
      arg_host = str ''h'', arg_remote_shell = str ''posix''\<rparr>"

lemma demo_printed: "printable_key std_b64 demo_key = Some (replicate 22 CHR ''A'')"
proof -
  have d: "digits64 k 0 = replicate k 0" for k by (induction k) (simp_all add: replicate_append_same)
  have "from_be demo_key = 0" by (simp add: demo_key_def from_be_def numeral_eq_Suc)
  moreover have "alphabet ! 0 = CHR ''A''" by (simp add: alphabet_def)
  ultimately show ?thesis by (simp add: printable_key_def std_b64_def d del: digits64.simps)
qed

lemma demo_parse: "parse_args [str ''new''] = Run cli_default"
  by (simp add: parse_args_def cli_default_def)

lemma demo_port: "\<not> is_daemon_child env \<Longrightarrow> server_port env demo_bind cli_default = Inr 60001"
  by (simp add: server_port_def pick_port_def Let_def demo_bind_def addr_for_def cli_default_def PORT_RANGE_LOW_def PORT_RANGE_HIGH_def
      upt_rec [of 60001] split: option.splits del: upt_Suc)

abbreviation demo_env :: env where
  "demo_env \<equiv> \<lambda>n. None"

lemma demo_main:
  "server_main std_b64 False None True demo_bind demo_key show demo_env [str ''new''] =
     (demo_announcement, LeavesFork demo_serving (child_env demo_env 60001 (str (replicate 22 CHR ''A''))))"
proof -
  have k: "server_key std_b64 demo_env demo_key = Some (Inr demo_key)" by (simp add: server_key_def)
  have n: "\<not> is_daemon_child demo_env" by (simp add: is_daemon_child_def)
  show ?thesis
    unfolding server_main_def demo_parse k demo_port [OF n] cli_outcome.case option.case sum.case Let_def if_not_P [OF n] demo_printed
    by (simp add: demo_announcement_def demo_serving_def cli_default_def fork_and_detach_def desired_ip_def get_ssh_connection_ip_def
        choose_shell_def)
qed

definition demo_argv :: "rtext list" where
  "demo_argv = [str ''new'', str ''--'', str ''my shell'']"

lemma demo_parse_windows: "parse_args demo_argv = Run (cli_default\<lparr>command_args := [str ''my shell'']\<rparr>)"
  by (simp add: parse_args_def demo_argv_def cli_default_def)

lemma demo_port_windows:
  "\<not> is_daemon_child env \<Longrightarrow> server_port env demo_bind (cli_default\<lparr>command_args := cmd\<rparr>) = Inr 60001"
  using demo_port [of env] by (simp add: server_port_def desired_ip_def)

lemma demo_main_windows:
  "server_main std_b64 True (Some exe) True demo_bind demo_key show demo_env demo_argv =
     (demo_announcement, LeavesProgram (windows_command_line exe demo_argv) (child_env demo_env 60001 (str (replicate 22 CHR ''A''))))"
proof -
  have k: "server_key std_b64 demo_env demo_key = Some (Inr demo_key)" by (simp add: server_key_def)
  have n: "\<not> is_daemon_child demo_env" by (simp add: is_daemon_child_def)
  show ?thesis
    unfolding server_main_def demo_parse_windows k demo_port_windows [OF n] cli_outcome.case option.case sum.case Let_def if_not_P [OF n] demo_printed
    by (simp add: demo_announcement_def cli_default_def fork_and_detach_def fork_and_detach_windows_def)
qed

lemma demo_key_text:
  "graphic (replicate 22 CHR ''A'')" "from_printable std_b64 (replicate 22 CHR ''A'') = Some (Inr demo_key)"
proof -
  have "length demo_key = 16" by (simp add: demo_key_def)
  from printed_key [OF std_b64_laws std_b64_text this]
  show "graphic (replicate 22 CHR ''A'')" "from_printable std_b64 (replicate 22 CHR ''A'') = Some (Inr demo_key)"
    by (auto simp: demo_printed)
qed

lemma demo_bind_port: "\<forall>a q. demo_bind a = Inr (Inr q) \<longrightarrow> q \<le> 65535"
  by (auto simp: demo_bind_def split: if_splits)

lemma demo_launches: "launches demo_world demo_args demo_child"
proof -
  have "words (str ''ssh'') = [str ''ssh'']" using words_word [of "str ''ssh''" "[]"] by (simp add: is_whitespace_def)
  then show ?thesis
    by (simp add: launches_def demo_world_def demo_args_def choose_mode_def ssh_installed_def resolve_remote_shell_value_def del: str_simps)
qed

lemma demo_relays: "relays demo_child demo_announcement (V4 127 0 0 1)"
  unfolding relays_def
proof
  have "\<not> starts_with (str ''Welcome'') (str ''MOSH CONNECT'')" by (simp add: starts_with_def)
  then show "\<exists>before after. out_lines demo_child = map Some before @ map Some demo_announcement @ after \<and>
      (\<forall>l\<in>set before. \<not> starts_with l (str ''MOSH CONNECT''))"
    by (intro exI [of _ "[str ''Welcome'']"] exI [of _ "[]"]) (simp add: demo_child_def del: str_simps)
  show "\<exists>before after. err_seen demo_child = before @ ip_line (Some (V4 127 0 0 1)) # after \<and> (\<forall>l\<in>set before. parse_ip_line l = None)"
    by (intro exI [of _ "[]"]) (simp add: demo_child_def)
qed

lemma demo_transport: "\<exists>T. bind_transport ref_em pb_host pb_user demo_attempt demo_serving 0 = Inr T"
  by (simp add: bind_transport_def bind_server_socket_def demo_serving_def new_server_def bind_udp_def demo_attempt_def ref_state0_new Let_def)

section \<open>Properties\<close>

text \<open>
  C3. The bootstrap as a whole. If the server announces itself, ssh relays its lines after others that are no
  answer, and the fake proxy has reported the address that ssh reached, then the wrapper runs the client with
  that address, the announced port and the key; the client reads them back from its command line and its
  environment; and the client and the server, which may serve in its daemon child, start a session: their
  connections hold the same key and opposite roles, and nothing has been sent. The sessions of theory
  \<open>Hostile_Network\<close> begin there.
\<close>

theorem launch_starts_a_session:
  assumes "b64_laws B" and "b64_text B" and "length random = 16"
    and "\<forall>a q. try_bind a = Inr (Inr q) \<longrightarrow> q \<le> 65535"
    and "server_main B windows own detaches try_bind random show senv sargv = (out, e)" and "out \<noteq> []"
    and "serves_finally B windows show e sv" and "bind_transport em H U sattempt sv now = Inr T"
    and "launches W a c" and "relays c out ip" and "ip_ok ip"
    and "bind_udp cattempt (unspecified, 0) = Inr sock"
    and "complete_new em (fst (window_of sz)) (snd (window_of sz)) = Inr blank"
  shows "\<exists>path addr vars L. wrapper_main W a = RunClient path addr vars \<and>
    client_begin B show cattempt em U H (run_env (env_var W) vars) [path, addr] sz now = ClientGoes L \<and>
    remote_addr (tr_connection (cl_tr L)) = Some (addr_number (ip, sv_port sv)) \<and>
    wire_run C Z (sv_key sv) em H U (word_of_nat (fst (window_of sz))) (word_of_nat (snd (window_of sz)))
      (session_of now L T (window_of sz)) None [] 0 []"
proof -
  obtain p where out: "out = [connect_line (sv_port sv) (str p), str ''MOSH CONNECTION ID: 1'']" and p: "graphic p" "length p = 22"
    and k: "from_printable B p = Some (Inr (sv_key sv))" "length (sv_key sv) = 16" and port: "sv_port sv \<le> 65535"
    using serves_announced [OF assms(1-7)] by blast
  let ?vars = "[(str ''MORSH_KEY'', str p), (str ''MOSH_PREDICTION_DISPLAY'', arg_predict a)]"
  let ?path = "client_path (on_windows W) (own_dir W)" and ?addr = "show_sock (ip, sv_port sv)"
  let ?c = "set_remote_addr (connection_build sock (session_new (sv_key sv)) False now) (addr_number (ip, sv_port sv))"
  have w: "wrapper_main W a = RunClient ?path ?addr ?vars"
    using wrapper_runs_client [OF assms(9) assms(10) [unfolded out] assms(11) port p] .
  have c: "client_connect B show cattempt (run_env (env_var W) ?vars) [?path, ?addr] now = ClientGoes ?c"
    by (rule client_connects [OF assms(11) port p(1) k(1) assms(12)])
  then obtain L where L: "client_begin B show cattempt em U H (run_env (env_var W) ?vars) [?path, ?addr] sz now = ClientGoes L"
    and r: "tr_connection (cl_tr L) = ?c"
    using client_begins [OF _ assms(13)] by blast
  have "connected (sv_key sv) False ?c" using k(2) by (auto simp: connected_def)
  from ends_make_a_session [OF L c this assms(8) refl]
  show ?thesis using w L r by (auto simp: set_remote_addr_def)
qed

theorem launch_starts_a_session_witness:
  "\<exists>path addr vars L T. wrapper_main demo_world demo_args = RunClient path addr vars \<and>
    client_begin std_b64 (\<lambda>e. []) demo_attempt ref_em pb_user pb_host (run_env demo_env vars) [path, addr] None 0 = ClientGoes L \<and>
    wire_run plain_ocb pb_codec demo_key ref_em pb_host pb_user 80 24 (session_of 0 L T (80, 24)) None [] 0 []"
proof -
  obtain T where T: "bind_transport ref_em pb_host pb_user demo_attempt demo_serving 0 = Inr T" using demo_transport by blast
  have "serves_finally std_b64 False (\<lambda>e. []) (LeavesFork demo_serving env') demo_serving" for env'
    by (simp add: serves_finally_def)
  from launch_starts_a_session [OF std_b64_laws std_b64_text _ demo_bind_port demo_main _ this T demo_launches demo_relays,
      where sz = None and cattempt = demo_attempt and sock = 0 and blank = ref_state0 and C = plain_ocb and Z = pb_codec]
  show ?thesis
    by (auto simp: demo_key_def demo_announcement_def ip_ok_def bind_udp_def demo_attempt_def window_of_def ref_state0_new
        demo_world_def demo_serving_def simp del: str_simps)
qed

text \<open>
  C34. What a detaching server leaves behind serves exactly what was announced: the same port and key, with
  the address, shell and command of the original options. On Unix that is the fork itself. On Windows it is
  the program run anew with a command line put together from the arguments: when every argument survives
  that (it is not empty, has no quotation mark, has a tab only beside a space, and no backslash at its end if
  it has a space) and the path of the program has neither quotation mark nor tab, the new process, in the environment
  left for it, finds the same arguments and serves the same; it announces nothing and needs neither a free
  port nor random bytes.
\<close>

theorem daemon_child_serves_announced:
  assumes "b64_laws B" and "b64_text B" and "length random = 16"
    and "\<forall>a q. try_bind a = Inr (Inr q) \<longrightarrow> q \<le> 65535"
    and main: "server_main B windows own detaches try_bind random show env argv = (out, e)" and "out \<noteq> []"
    and "leaves e = Some env'"
  shows "\<exists>opts sv p. parse_args argv = Run opts \<and> sv = serving_of windows env opts (sv_key sv) (sv_port sv) \<and>
    out = [connect_line (sv_port sv) (str p), str ''MOSH CONNECTION ID: 1''] \<and> printable_key B (sv_key sv) = Some p \<and>
    (\<not> windows \<longrightarrow> e = LeavesFork sv env') \<and>
    (windows \<longrightarrow> (\<exists>exe line. own = Some exe \<and> e = LeavesProgram line env' \<and>
       (exe_survives exe \<and> list_all survives argv \<longrightarrow>
          (\<forall>own' detaches' try_bind' random'.
             server_main B windows own' detaches' try_bind' random' show env' (tl (windows_args line)) = ([], Serves sv env')))))"
proof -
  obtain opts key port p where o: "parse_args argv = Run opts" "\<not> is_daemon_child env" "length key = 16"
    and q: "server_port env try_bind opts = Inr port"
    and p: "printable_key B key = Some p" "graphic p" "length p = 22" "from_printable B p = Some (Inr key)"
    and out: "out = [connect_line port (str p), str ''MOSH CONNECTION ID: 1'']"
    and e: "e = (if no_daemonize opts then Serves (serving_of windows env opts key port) env
              else fork_and_detach windows own detaches argv (serving_of windows env opts key port) (child_env env port (str p)))"
    by (rule server_announces [OF assms(1-3) main \<open>out \<noteq> []\<close>])
  let ?sv = "serving_of windows env opts key port"
  have sv: "sv_port ?sv = port" "sv_key ?sv = key" by (simp_all add: serving_of_def)
  have le: "port \<le> 65535" using server_port_bound [OF q o(2) assms(4)] .
  have l: "env' = child_env env port (str p)" "if windows then (\<exists>exe. own = Some exe \<and> e = LeavesProgram (windows_command_line exe argv) env')
      else e = LeavesFork ?sv env'"
    using assms(7) by (auto simp: e leaves_def fork_and_detach_def fork_and_detach_windows_def split: if_splits option.splits)
  have anew: "server_main B windows own' detaches' try_bind' random' show env' (tl (windows_args (windows_command_line exe argv))) = ([], Serves ?sv env')"
    if "exe_survives exe" "list_all survives argv" for exe own' detaches' try_bind' random'
    unfolding windows_args_kept [OF that] list.sel l(1) by (rule daemon_child_runs [OF o(1) p(2,4) le])
  show ?thesis
    by (rule exI [of _ opts], rule exI [of _ ?sv], rule exI [of _ p]) (use sv o(1) out p(1) l(2) anew in \<open>auto split: if_splits\<close>)
qed

text \<open>On Windows, from a folder with a space in its name, for a command that has one too.\<close>

theorem daemon_child_serves_announced_witness:
  "\<exists>out line env' sv.
     server_main std_b64 True (Some (str ''C:/Program Files/m.exe'')) True demo_bind demo_key (\<lambda>e. []) demo_env demo_argv = (out, LeavesProgram line env') \<and>
     sv_command sv = [str ''my shell''] \<and> sv_port sv = 60001 \<and>
     server_main std_b64 True None True (\<lambda>a. Inl []) [] (\<lambda>e. []) env' (tl (windows_args line)) = ([], Serves sv env')"
proof -
  let ?exe = "str ''C:/Program Files/m.exe''"
  let ?env = "child_env demo_env 60001 (str (replicate 22 CHR ''A''))"
  have m: "server_main std_b64 True (Some ?exe) True demo_bind demo_key (\<lambda>e. []) demo_env demo_argv =
      (demo_announcement, LeavesProgram (windows_command_line ?exe demo_argv) ?env)" by (rule demo_main_windows)
  have n: "length demo_key = 16" "demo_announcement \<noteq> []" "leaves (LeavesProgram (windows_command_line ?exe demo_argv) ?env) = Some ?env"
    by (simp_all add: demo_key_def demo_announcement_def leaves_def)
  have "exe_survives ?exe" "list_all survives demo_argv" by (simp_all add: exe_survives_def survives_def demo_argv_def)
  with daemon_child_serves_announced [OF std_b64_laws std_b64_text n(1) demo_bind_port m n(2,3)] demo_parse_windows
  obtain sv p where sv: "sv = serving_of True demo_env (cli_default\<lparr>command_args := [str ''my shell'']\<rparr>) (sv_key sv) (sv_port sv)"
    "demo_announcement = [connect_line (sv_port sv) (str p), str ''MOSH CONNECTION ID: 1'']"
    "server_main std_b64 True None True (\<lambda>a. Inl []) [] (\<lambda>e. []) ?env (tl (windows_args (windows_command_line ?exe demo_argv))) = ([], Serves sv ?env)"
    by auto
  moreover have "sv_command sv = [str ''my shell'']" by (subst sv(1)) (simp add: serving_of_def)
  moreover have "sv_port sv = 60001"
    using daemon_child_serves(1) [OF demo_key_text _ sv(3)] by simp
  ultimately show ?thesis using m by blast
qed

text \<open>
  C35. The command that the wrapper gives to ssh as \<open>ProxyCommand\<close> runs the wrapper itself as the fake proxy with
  the host and port that ssh has worked out: whatever the path of the program, spaces, quotes and per cent
  signs included, ssh's expansion and the POSIX shell leave exactly these arguments. What the proxy then
  prints about the address it reached is what the wrapper reads.
\<close>

theorem proxy_reports_the_address:
  assumes "proxy_command False (Some exe) = Some cmd" and "list_all plain_char host" and "host \<noteq> []" and "host \<noteq> str ''--''"
    and "port \<le> 65535"
    and "resolve host port = Inr addrs" and "try_addresses dial (inet_first addrs) (str ''no addresses'') = Inr s"
    and "peer s = Some a" and "ip_ok a" and "clone_error s = None"
  shows "\<exists>line argv as l. ssh_expand host (show_nat port) cmd = Some line \<and> posix_split line = Some argv \<and> hd argv = exe \<and>
    as_proxy argv = Some as \<and> proxy_run resolve dial peer clone_error as = ([l], Some s) \<and> parse_ip_line l = Some (show_ip a)"
proof -
  let ?argv = "[exe, str ''--fake-proxy'', str ''--'', host, show_nat port]"
  have d: "show_nat port \<noteq> str ''--''" using show_nat_digits [of port] by (auto simp: is_digit_def list_all_iff)
  have t: "proxy_target [str ''--'', host, show_nat port] = Inr (host, port)"
    using assms(4,5) d parse_show [of port 65535] by (simp add: proxy_target_def del: str_simps)
  have "proxy_run resolve dial peer clone_error [str ''--'', host, show_nat port] = ([ip_line (Some a)], Some s)"
    using assms(6-8,10) by (simp add: proxy_run_def t proxy_connect_def del: str_simps)
  moreover have "as_proxy ?argv = Some [str ''--'', host, show_nat port]" by (simp add: as_proxy_def)
  moreover have "posix_split (shell_quote_all ?argv) = Some ?argv" by (rule posix_shell.dec_enc) simp
  ultimately show ?thesis
    using proxy_command_expanded [OF assms(2,3,1), of port] parse_ip_line_shown [OF assms(9)] by (metis list.sel(1))
qed

theorem proxy_reports_the_address_witness:
  "\<exists>line argv as l. ssh_expand (str ''host'') (show_nat 22) (the (proxy_command False (Some (str ''/my programs/100%/morsh'')))) = Some line \<and>
     posix_split line = Some argv \<and> hd argv = str ''/my programs/100%/morsh'' \<and> as_proxy argv = Some as \<and>
     proxy_run (\<lambda>h p. Inr [(V6 [1, 0, 0, 0, 0, 0, 0, 2], p), (V4 10 0 0 1, p)]) (\<lambda>a. if is_ipv4 (fst a) then Inr () else Inl [])
       (\<lambda>s. Some (V4 10 0 0 1)) (\<lambda>s. None) as = ([l], Some ()) \<and> parse_ip_line l = Some (show_ip (V4 10 0 0 1))"
proof -
  have c: "proxy_command False (Some (str ''/my programs/100%/morsh'')) = Some (the (proxy_command False (Some (str ''/my programs/100%/morsh''))))"
    by (simp add: proxy_command_def)
  show ?thesis
    by (rule proxy_reports_the_address [OF c, where addrs = "[(V6 [1, 0, 0, 0, 0, 0, 0, 2], 22), (V4 10 0 0 1, 22)]"])
       (simp_all add: plain_char_def is_ipv4_def ip_ok_def)
qed

end
