(* ===== verification/Spec2Isabelle.thy ===== *)
theory Spec2Isabelle
  imports Network_Properties Keystrokes Rendering Screens Serving Client_Properties Wire_Screens Launch_Properties Ssh_Properties
    Startup_Properties
begin

text \<open>
  A model of morsh, a Rust implementation of the mobile shell, and the theorems that make it correct.

  \<^bold>\<open>The program.\<close> A wrapper (\<open>morsh-wrapper\<close>) starts a server on a remote host through ssh, reads port
  and key from its answer and runs a client. Client and server then talk over UDP by the State
  Synchronization Protocol: each end publishes one state (the client a stream of keystrokes and window
  sizes, the server the contents of a terminal), numbers its versions and sends differences between a
  version the other end is assumed to have and the current one. Datagrams are encrypted, may be lost,
  repeated and reordered, and are acknowledged by number. The client paints the server's screen with
  predictions of the effect of recent keystrokes over it.

  \<^bold>\<open>The theories\<close>, from the bottom up. The paths are under \<open>src/crates\<close>.

  \<^item> \<open>Morsh_Prelude\<close>: machine types, big-endian bytes, \<open>Vec\<close> and iterator operations, the locales
    \<open>machine\<close> (an invariant of a step relation) and \<open>wire_format\<close> (an encoder and its decoder).
    \<open>Rust_Text\<close>, \<open>Utf8\<close>, \<open>Protobuf\<close>: operations of \<open>str\<close>, UTF-8, the wire format of the schemas in \<open>proto\<close>.
  \<^item> \<open>Crypto\<close>: \<open>morsh-crypto\<close>. Nonces, keys, sealing and opening; AES-OCB3 is the argument \<open>ocb\<close>.
  \<^item> \<open>Constants\<close>, \<open>Rtt\<close>, \<open>Fragment\<close>, \<open>Connection\<close>, \<open>State_Trait\<close>, \<open>Sender\<close>, \<open>Transport\<close>: the files of
    \<open>morsh-network/src\<close>, one record per struct and one definition per method. \<open>State_Trait\<close> has the
    trait \<open>State\<close> as the record \<open>state_ops\<close>, and its contract as the locales \<open>sync_source\<close>, for the end that
    sends it, and \<open>sync_state\<close>, for the end that receives it too. The halves of
    \<open>transport.rs\<close> are \<open>Sender\<close> and \<open>Transport\<close>. \<open>Sender_Laws\<close> and \<open>Transport_Laws\<close> hold what they keep
    true, \<open>Network_Properties\<close> the properties of the crate.
  \<^item> \<open>Synchronization\<close>: two ends and a network that keeps every datagram and may deliver any of them at
    any time (\<open>net_step\<close>), in units of whole instructions. The locale \<open>source\<close> has what an end keeps true of
    what it sends; \<open>ssp\<close>, which extends it, proves once, for every state with the contract \<open>sync_state\<close>,
    that the receiver only ever holds states that the sender had, that differences are never refused,
    and that one packet brings it up to date.
  \<^item> \<open>User_Stream\<close>, \<open>Keystrokes\<close>: \<open>morsh-statesync/src/user_stream.rs\<close> and \<open>ssp\<close> for it.
  \<^item> \<open>Snapshot\<close>, \<open>Display\<close>, \<open>Terminal\<close>: \<open>morsh-terminal/src\<close>. What \<open>display.rs\<close> writes is a list of
    terminal operations with their text (\<open>vt_text\<close>). \<open>Vt\<close> says what these mean to a terminal, after
    ECMA-48; where terminals differ, as in erasing with a pen that is not the default one, it leaves the
    effect open. \<open>Display_Laws\<close> executes the output.
  \<^item> \<open>Complete\<close>, \<open>Emulator\<close>, \<open>Terminal_Laws\<close>, \<open>Screen_Sync\<close>: \<open>morsh-statesync/src/complete.rs\<close>, what it
    relies on of the emulator (the locales \<open>terminal_emulator\<close> and \<open>ghostty_library\<close>), and \<open>ssp\<close> for it.
    The laws speak only of terminals that this program alone writes to (\<open>tame\<close>), of the modes and
    renditions it writes, and of writes that end in a screen the standards determine; of the server's
    terminal, which the shell writes to, nothing is asked.
    \<open>Vt_Parser\<close> and \<open>Reference_Terminal\<close> build a terminal that has these laws; \<open>Screens\<close> has the
    properties.
  \<^item> \<open>Overlay\<close>, \<open>Prediction\<close>, \<open>Notification\<close>: \<open>morsh-prediction/src\<close>; \<open>Frame\<close>: \<open>morsh-client/src/frame.rs\<close>.
    \<open>Prediction_Laws\<close>, \<open>Speculation\<close> and \<open>Rendering\<close> say what a keystroke predicts, what the user sees of
    it, what the server's answer does to it, and what the terminal shows after painting.
  \<^item> \<open>Server\<close>, \<open>Server_Laws\<close>, \<open>Serving\<close>: \<open>morsh-server/src/server.rs\<close>, and the server in a session.
  \<^item> \<open>Client_Input\<close>, \<open>Client\<close> and their laws: \<open>morsh-client/src/input.rs\<close> and \<open>main.rs\<close>. \<open>Keyboard\<close> puts the
    client's input in front of the session, \<open>Client_Properties\<close> follows it from the terminal to the shell.
  \<^item> \<open>Channel\<close>, \<open>Datagrams\<close>, \<open>Hostile_Network\<close>, \<open>Wire_Delivery\<close>, \<open>Wire_Screens\<close>: the same two ends over datagrams.
    \<open>Channel\<close> is one direction: fragments sealed with the session key, a network that repeats, reorders,
    loses, reflects and forges datagrams without that key, and the assembler. The locale \<open>two_way\<close> of
    \<open>Datagrams\<close> joins two directions and proves that a step on the wire (\<open>dgram_step\<close>) is a step of
    \<open>net_step\<close> or changes nothing but the connection. \<open>Hostile_Network\<close> runs whole sessions this way, from the
    keyboard to the shell (\<open>wire_run\<close>) and from the server's terminal to the client's screen
    (\<open>screen_run\<close>), \<open>Wire_Delivery\<close> says what has to arrive for a session to make progress, and
    \<open>Wire_Screens\<close> which screens a client holds at the end of such a run.
  \<^item> \<open>Server_Cli\<close>, \<open>Launch\<close>, \<open>Host_Keys\<close>, \<open>Ssh_Session\<close>, \<open>Shell_Process\<close>: the start of a session:
    \<open>morsh-server/src/cli.rs\<close>, \<open>main.rs\<close> and \<open>pty.rs\<close>, \<open>morsh-wrapper\<close>, \<open>morsh-ssh\<close>. \<open>Launching\<close> has a POSIX
    shell's splitting of words and \<open>Launch_Properties\<close> and \<open>Ssh_Properties\<close> the properties.
  \<^item> \<open>Ip_Text\<close>, \<open>Ip_Laws\<close>: the text of IP and socket addresses as the standard library writes and reads it.
    \<open>Bootstrap\<close>: \<open>main\<close> of the wrapper with the fake proxy, over the record \<open>world\<close> of what the operating
    system answers. \<open>Startup\<close>: \<open>main\<close> of the server with its daemon child, \<open>bind_transport\<close>, and \<open>main\<close> of
    the client up to its event loop. \<open>Startup_Properties\<close> puts them together: from the server's
    announcement to a \<open>wire_run\<close> in which nothing has been sent yet.

  \<^bold>\<open>How the model relates to the code.\<close> A method with \<open>&mut self\<close> is a function that also returns the new
  record. \<open>Result\<close> is a sum with the error on the left; a panic is \<open>None\<close>. Machine integers are words
  where wrapping matters and otherwise \<open>nat\<close>, with a theorem that they do not overflow (\<open>rtt_bounded\<close>).
  The clock readings that a function takes are arguments; \<open>Instant\<close> and \<open>Duration\<close> count nanoseconds.
  What the operating system or a library delivers (datagrams, reads, random bytes, exit codes) is an
  argument too. The event loops are one definition per turn, over what the \<open>select!\<close> has chosen, so that
  every order of events is covered; runs of many turns are lists of turns or step relations.

  \<^bold>\<open>Bounds and recursion.\<close> There is no fuel. The loops of the code that count (rows, cells, chunks,
  sockets, arguments) are functions with a measure; loops over what arrives recurse over the list of
  arrivals. Histories are bounded as the code bounds them: at most 32 sent states are proved, and the
  receiver's quenching is modelled. Theorems on screens assume what the protocol does, positive
  dimensions of at most \<open>u16::MAX\<close>. The theorems that relate the client's screen to the server's are about
  sessions that start with an 80x24 screen at both ends, in which the server's screens are well formed and
  its title is never removed: the code needs this (\<open>equal_sizes_never_resize\<close>, \<open>redraw_keeps_stale_title\<close>). A step that sends is one that has room: an instruction is at most
  32768 fragments, and neither fragment ids nor sequence numbers of one session come round again.

  \<^bold>\<open>What the groups of theorems show.\<close> For the network: nonces never repeat, what is sealed opens, a
  datagram that is forged, repeated or reflected changes nothing but what it may, an instruction crosses
  fragmentation unchanged, the sender's history keeps its shape, a tick diffs from what it names. For the
  protocol: a packet rebuilds at the server exactly what the client had when it sent it and is taken
  once; over a hostile network, what reaches the shell is an initial piece of what was typed, every
  screen the client shows is one that the server had, runs over datagrams refine runs over whole
  instructions, and the datagrams of one tick bring the server up to date. For the display: the difference of two screens,
  executed, gives the new one; painting shows the predicted screen. For prediction: it edits the line as an
  editor would, is shown only when confirmed, and nothing typed after a control character is shown. For
  the two programs: the bytes from the keyboard reach the shell, escape key handling does not depend on
  how reads are cut, no assertion of the server fails, the shutdown ends. For the start: the server gets
  the options that were meant; what it announces reaches the client, which then shares its key and sends to
  its address; its daemon child serves what was announced (on Windows if the arguments survive the command line
  that is put together, \<open>windows_args_kept\<close>); the fake proxy is run with the target that ssh
  has worked out; host keys and passphrases are treated as documented.
  Lemmas outside the numbered properties show where the code differs from its documentation.

  \<^bold>\<open>Not modelled.\<close> AES-OCB3, zlib, base64, prost and the emulator library are not part of the sources:
  they are parameters, with their documented laws as hypotheses and concrete functions that satisfy
  them. Drawing random numbers (\<open>prng.rs\<close>), logging (\<open>morsh-log\<close>), console modes and
  pseudo terminals are system calls; whether forking, binding, connecting and running a program succeed, and
  what they give, are inputs. \<open>keymap.rs\<close> only calls the emulator library, and nothing uses it. The scope of a
  link-local IPv6 address is read and dropped. Of \<open>morsh-ssh\<close> the ssh protocol is a library's. The parser of the wrapper's command line is
  generated by a macro. The Windows exit watcher of \<open>pty.rs\<close> is a second source of the same event.
\<close>

end
